(* ===== verification/Prelude.thy ===== *)
theory Prelude
  imports Main
begin

text \<open>
  Shared vocabulary of the development: JavaScript strings and the library functions the
  domain package uses on them, safe integers, thrown errors as values, and the combinator
  that runs a list of checks in source order.

  A JavaScript string is the list of its UTF-16 code units, so \<open>length\<close> counts what
  \<open>.length\<close> counts, and the UTF-8 size that \<open>TextEncoder\<close> reports is a separate
  function.  A number the code treats as an integer is an \<open>int\<close> together with the
  \<open>Number.isSafeInteger\<close> test.  On doubles the sum of two safe integers is exact up
  to \<open>2 ^ 53\<close> and rounds to at least \<open>2 ^ 53\<close> above it, so testing the exact sum
  for safety gives the same answer as the program's test.
\<close>

section \<open>Collections of facts\<close>

named_theorems check_simps \<open>the checks of the validators, unfolded to their conditions\<close>
named_theorems json_simps \<open>evaluation of tests on dynamic values\<close>

section \<open>Thrown errors\<close>

text \<open>
  One constructor per error class.  The argument is the \<open>code\<close>; an \<open>ApplicationError\<close> has its category before it.
\<close>

datatype js_error =
    RunLifecycleError string
  | RunGoalAccountingError string
  | ThreadGoalError string
  | ThreadLifecycleError string
  | ExecutionLifecycleError string
  | ToolApprovalError string
  | ToolExecutionReceiptError string
  | ProviderTurnStateError
  | AutomationDefinitionError string
  | WorkflowVersionError string
  | RunPlanError string
  | ModelHistoryError string
  | ThreadGoalEventError string
  | CreditLedgerError string
  | ModelDispatchReceiptError string
  | ModelTransportError string
  | ContextHistoryError string
  | RunStoreError string
  | ApplicationError string string
  | PlainError string

type_synonym 'a res = "js_error + 'a"

text \<open>A check either passes (\<open>None\<close>) or throws.\<close>

type_synonym check = "js_error option"

definition throw_if :: "bool \<Rightarrow> js_error \<Rightarrow> check" where
  "throw_if b e = (if b then Some e else None)"

text \<open>The first check that throws decides; later checks are not reached.\<close>

fun first_throw :: "check list \<Rightarrow> check" where
  "first_throw [] = None"
| "first_throw (c # cs) = (case c of None \<Rightarrow> first_throw cs | Some e \<Rightarrow> Some e)"

text \<open>A body: the checks in source order, then the value that is returned.\<close>

definition guarded :: "check list \<Rightarrow> 'a res \<Rightarrow> 'a res" where
  "guarded cs r = (case first_throw cs of None \<Rightarrow> r | Some e \<Rightarrow> Inl e)"

text \<open>Using the value of a call that may throw.\<close>

definition then_do :: "'a res \<Rightarrow> ('a \<Rightarrow> 'b res) \<Rightarrow> 'b res" where
  "then_do m f = (case m of Inl e \<Rightarrow> Inl e | Inr x \<Rightarrow> f x)"

text \<open>A call made for its checks only.\<close>

definition checked :: "'a res \<Rightarrow> check" where
  "checked m = (case m of Inl e \<Rightarrow> Some e | Inr _ \<Rightarrow> None)"

text \<open>\<open>try { \<dots> } catch (error) { throw \<dots> }\<close> around checks.\<close>

definition rethrow :: "(js_error \<Rightarrow> js_error) \<Rightarrow> check \<Rightarrow> check" where
  "rethrow f c = map_option f c"

definition error_message :: "js_error \<Rightarrow> string" where
  "error_message e = (case e of
      RunLifecycleError c \<Rightarrow> c | RunGoalAccountingError c \<Rightarrow> c | ThreadGoalError c \<Rightarrow> c
    | ThreadLifecycleError c \<Rightarrow> c | ExecutionLifecycleError c \<Rightarrow> c | ToolApprovalError c \<Rightarrow> c
    | ToolExecutionReceiptError c \<Rightarrow> c | ProviderTurnStateError \<Rightarrow> ''provider_turn_state_invalid''
    | AutomationDefinitionError c \<Rightarrow> c | WorkflowVersionError c \<Rightarrow> c | RunPlanError c \<Rightarrow> c
    | ModelHistoryError c \<Rightarrow> c | ThreadGoalEventError c \<Rightarrow> c | CreditLedgerError c \<Rightarrow> c
    | ModelDispatchReceiptError c \<Rightarrow> c | ModelTransportError c \<Rightarrow> c | ContextHistoryError c \<Rightarrow> c
    | RunStoreError c \<Rightarrow> c | ApplicationError _ c \<Rightarrow> c | PlainError c \<Rightarrow> c)"

lemma throw_if_None [simp]: "throw_if b e = None \<longleftrightarrow> \<not> b"
  by (simp add: throw_if_def)

lemma throw_if_Some [simp]: "throw_if b e = Some x \<longleftrightarrow> b \<and> x = e"
  by (auto simp: throw_if_def)

lemma throw_if_True [simp]: "throw_if True e = Some e"
  by (simp add: throw_if_def)

lemma throw_if_False [simp]: "throw_if False e = None"
  by (simp add: throw_if_def)

lemma first_throw_None [simp]: "first_throw (c # cs) = None \<longleftrightarrow> c = None \<and> first_throw cs = None"
  by (simp split: option.splits)

lemma first_throw_pass [simp]: "first_throw (None # cs) = first_throw cs"
  by simp

lemma first_throw_stop [simp]: "first_throw (Some e # cs) = Some e"
  by simp

lemma first_throw_throw_if [check_simps]:
  "first_throw (throw_if b e # cs) = (if b then Some e else first_throw cs)"
  by (simp add: throw_if_def)

declare first_throw.simps(2) [simp del]

lemma first_throw_append: "first_throw (cs @ ds) =
    (case first_throw cs of None \<Rightarrow> first_throw ds | Some e \<Rightarrow> Some e)"
  by (induction cs) (auto simp: first_throw.simps split: option.splits)

lemma first_throw_append_None: "first_throw (cs @ ds) = None \<longleftrightarrow> first_throw cs = None \<and> first_throw ds = None"
  by (simp add: first_throw_append split: option.splits)

lemma first_throw_map_None: "first_throw (map f xs) = None \<longleftrightarrow> (\<forall>x\<in>set xs. f x = None)"
  by (induction xs) simp_all

lemma guarded_Nil [simp]: "guarded [] r = r"
  by (simp add: guarded_def)

lemma guarded_Inr [simp]: "guarded cs r = Inr x \<longleftrightarrow> first_throw cs = None \<and> r = Inr x"
  by (auto simp: guarded_def split: option.splits)

lemma guarded_pass: "first_throw cs = None \<Longrightarrow> guarded cs r = r"
  by (simp add: guarded_def)

lemma guarded_throw: "first_throw cs = Some e \<Longrightarrow> guarded cs r = Inl e"
  by (simp add: guarded_def)

lemma guarded_Cons_None [simp]: "guarded (None # cs) r = guarded cs r"
  by (simp add: guarded_def)

lemma guarded_Cons_Some [simp]: "guarded (Some e # cs) r = Inl e"
  by (simp add: guarded_def)

lemma then_do_Inr [simp]: "then_do m f = Inr y \<longleftrightarrow> (\<exists>x. m = Inr x \<and> f x = Inr y)"
  by (auto simp: then_do_def split: sum.splits)

lemma then_do_simps [simp]: "then_do (Inr x) f = f x" "then_do (Inl e) f = Inl e"
  by (simp_all add: then_do_def)

lemma checked_None [simp]: "checked m = None \<longleftrightarrow> (\<exists>x. m = Inr x)"
  by (auto simp: checked_def split: sum.splits)

lemma rethrow_None [simp]: "rethrow f c = None \<longleftrightarrow> c = None"
  by (simp add: rethrow_def)

section \<open>Safe integers\<close>

definition max_safe_integer :: int where
  "max_safe_integer = 9007199254740991"

definition is_safe_integer :: "int \<Rightarrow> bool" where
  "is_safe_integer i \<longleftrightarrow> - max_safe_integer \<le> i \<and> i \<le> max_safe_integer"

definition positive_safe_integer :: "int \<Rightarrow> bool" where
  "positive_safe_integer i \<longleftrightarrow> is_safe_integer i \<and> 1 \<le> i"

definition non_negative_safe_integer :: "int \<Rightarrow> bool" where
  "non_negative_safe_integer i \<longleftrightarrow> is_safe_integer i \<and> 0 \<le> i"

lemmas safe_integer_defs =
  is_safe_integer_def max_safe_integer_def positive_safe_integer_def non_negative_safe_integer_def

section \<open>Strings as UTF-16 code units\<close>

type_synonym js_string = "nat list"

definition js :: "string \<Rightarrow> js_string" where
  "js s = map of_char s"

lemma length_js [simp]: "length (js s) = length s"
  by (simp add: js_def)

text \<open>White space and line terminators of ECMAScript, which \<open>trim\<close> removes.\<close>

definition is_js_space :: "nat \<Rightarrow> bool" where
  "is_js_space u \<longleftrightarrow> 9 \<le> u \<and> u \<le> 13 \<or> u = 32 \<or> u = 160 \<or> u = 5760 \<or> 8192 \<le> u \<and> u \<le> 8202
     \<or> u = 8232 \<or> u = 8233 \<or> u = 8239 \<or> u = 8287 \<or> u = 12288 \<or> u = 65279"

definition js_trim :: "js_string \<Rightarrow> js_string" where
  "js_trim s = rev (dropWhile is_js_space (rev (dropWhile is_js_space s)))"

lemma js_trim_Nil_iff: "js_trim s = [] \<longleftrightarrow> list_all is_js_space s"
proof -
  have "js_trim s = [] \<longleftrightarrow> list_all is_js_space (dropWhile is_js_space s)"
    by (simp add: js_trim_def list_all_iff)
  also have "\<dots> \<longleftrightarrow> list_all is_js_space s"
    by (induction s) auto
  finally show ?thesis .
qed

text \<open>\<open>value.trim().length === 0\<close>\<close>

definition is_blank :: "js_string \<Rightarrow> bool" where
  "is_blank s \<longleftrightarrow> length (js_trim s) = 0"

lemma is_blank_iff: "is_blank s \<longleftrightarrow> list_all is_js_space s"
  by (simp add: is_blank_def js_trim_Nil_iff)

lemma is_blank_Nil [simp]: "is_blank []"
  by (simp add: is_blank_iff)

lemma is_blank_Cons [simp]: "is_blank (u # s) \<longleftrightarrow> is_js_space u \<and> is_blank s"
  by (simp add: is_blank_iff)

definition is_high_surrogate :: "nat \<Rightarrow> bool" where
  "is_high_surrogate u \<longleftrightarrow> 55296 \<le> u \<and> u \<le> 56319"

definition is_low_surrogate :: "nat \<Rightarrow> bool" where
  "is_low_surrogate u \<longleftrightarrow> 56320 \<le> u \<and> u \<le> 57343"

text \<open>
  The number of bytes \<open>new TextEncoder().encode(s)\<close> has: a surrogate pair is four bytes,
  a lone surrogate is encoded as the three bytes of U+FFFD.
\<close>

fun utf8_length :: "js_string \<Rightarrow> nat" where
  "utf8_length [] = 0"
| "utf8_length [u] = (if u < 128 then 1 else if u < 2048 then 2 else 3)"
| "utf8_length (u # v # s) =
     (if is_high_surrogate u \<and> is_low_surrogate v then 4 + utf8_length s
      else (if u < 128 then 1 else if u < 2048 then 2 else 3) + utf8_length (v # s))"

text \<open>The number of code points, \<open>[...s].length\<close>.\<close>

fun code_point_count :: "js_string \<Rightarrow> nat" where
  "code_point_count [] = 0"
| "code_point_count [u] = 1"
| "code_point_count (u # v # s) =
     (if is_high_surrogate u \<and> is_low_surrogate v then 1 + code_point_count s
      else 1 + code_point_count (v # s))"

lemma code_points_le_units: "code_point_count s \<le> length s"
  by (induction s rule: code_point_count.induct) auto

lemma units_le_utf8: "length s \<le> utf8_length s"
  by (induction s rule: utf8_length.induct) auto

lemma utf8_le_units: "utf8_length s \<le> 3 * length s"
  by (induction s rule: utf8_length.induct) auto

text \<open>The loop \<open>isWellFormedUnicode\<close> that several files repeat: no lone surrogate.\<close>

fun isWellFormedUnicode :: "js_string \<Rightarrow> bool" where
  "isWellFormedUnicode [] = True"
| "isWellFormedUnicode (u # s) = (if is_high_surrogate u
     then (case s of [] \<Rightarrow> False | v # t \<Rightarrow> is_low_surrogate v \<and> isWellFormedUnicode t)
     else \<not> is_low_surrogate u \<and> isWellFormedUnicode s)"

section \<open>Character classes and the patterns the validators use\<close>

definition is_control_or_delete :: "nat \<Rightarrow> bool" where
  "is_control_or_delete u \<longleftrightarrow> u \<le> 31 \<or> u = 127"

text \<open>A control character other than tab and the line ends.\<close>

definition is_forbidden_unit :: "nat \<Rightarrow> bool" where
  "is_forbidden_unit u \<longleftrightarrow> u \<le> 8 \<or> u = 11 \<or> u = 12 \<or> 14 \<le> u \<and> u \<le> 31 \<or> u = 127"

definition is_digit :: "nat \<Rightarrow> bool" where
  "is_digit u \<longleftrightarrow> 48 \<le> u \<and> u \<le> 57"

definition is_upper :: "nat \<Rightarrow> bool" where
  "is_upper u \<longleftrightarrow> 65 \<le> u \<and> u \<le> 90"

definition is_lower :: "nat \<Rightarrow> bool" where
  "is_lower u \<longleftrightarrow> 97 \<le> u \<and> u \<le> 122"

definition is_alnum :: "nat \<Rightarrow> bool" where
  "is_alnum u \<longleftrightarrow> is_digit u \<or> is_upper u \<or> is_lower u"

text \<open>\<open>/^sha256:[a-f0-9]{64}$/\<close>\<close>

definition is_lower_hex :: "nat \<Rightarrow> bool" where
  "is_lower_hex u \<longleftrightarrow> is_digit u \<or> 97 \<le> u \<and> u \<le> 102"

definition matches_digest :: "js_string \<Rightarrow> bool" where
  "matches_digest s \<longleftrightarrow> take 7 s = js ''sha256:'' \<and> length (drop 7 s) = 64
     \<and> list_all is_lower_hex (drop 7 s)"

text \<open>\<open>/^[A-Za-z0-9][A-Za-z0-9._:-]{0,n}$/\<close>\<close>

definition is_id_tail :: "nat \<Rightarrow> bool" where
  "is_id_tail u \<longleftrightarrow> is_alnum u \<or> u = 46 \<or> u = 95 \<or> u = 58 \<or> u = 45"

definition matches_opaque_id :: "nat \<Rightarrow> js_string \<Rightarrow> bool" where
  "matches_opaque_id n s = (case s of [] \<Rightarrow> False
     | u # t \<Rightarrow> is_alnum u \<and> length t \<le> n \<and> list_all is_id_tail t)"

lemma opaque_id_not_blank: "matches_opaque_id n s \<Longrightarrow> \<not> is_blank s"
  by (auto simp: matches_opaque_id_def is_alnum_def is_digit_def is_upper_def is_lower_def
      is_js_space_def split: list.splits)

text \<open>\<open>s.replaceAll(c, t)\<close> for a single code unit \<open>c\<close>.\<close>

definition replace_all :: "nat \<Rightarrow> js_string \<Rightarrow> js_string \<Rightarrow> js_string" where
  "replace_all c t s = concat (map (\<lambda>u. if u = c then t else [u]) s)"

text \<open>A sample digest, for the examples that evaluate the validators.\<close>

definition sample_digest :: js_string where
  "sample_digest = js ''sha256:'' @ replicate 64 97"

lemma sample_digest_ok [simp]: "matches_digest sample_digest"
  by (simp add: sample_digest_def matches_digest_def list_all_iff is_lower_hex_def)

section \<open>Maximum and option helpers\<close>

text \<open>\<open>x ?? d\<close>\<close>

definition nullish :: "'a option \<Rightarrow> 'a \<Rightarrow> 'a" where
  "nullish x d = (case x of None \<Rightarrow> d | Some v \<Rightarrow> v)"

lemma nullish_simps [simp]: "nullish None d = d" "nullish (Some v) d = v"
  by (simp_all add: nullish_def)

text \<open>A check on a nullable value, skipped for \<open>null\<close>.\<close>

definition when_some :: "'a option \<Rightarrow> ('a \<Rightarrow> check) \<Rightarrow> check" where
  "when_some x f = (case x of None \<Rightarrow> None | Some v \<Rightarrow> f v)"

lemma when_some_simps [simp]: "when_some None f = None" "when_some (Some v) f = f v"
  by (simp_all add: when_some_def)

lemma when_some_None_iff: "when_some x f = None \<longleftrightarrow> (\<forall>v. x = Some v \<longrightarrow> f v = None)"
  by (cases x) simp_all

definition when_check :: "bool \<Rightarrow> check list \<Rightarrow> check" where
  "when_check b cs = (if b then first_throw cs else None)"

lemma when_check_None_iff [simp]: "when_check b cs = None \<longleftrightarrow> (b \<longrightarrow> first_throw cs = None)"
  by (simp add: when_check_def)

end
