(* ===== verification/Js_Values.thy ===== *)
theory Js_Values
  imports Prelude "HOL-Library.List_Lexorder" "HOL-Library.Multiset"
begin

text \<open>
  Dynamic values: what a parameter of type \<open>unknown\<close> can be once it has been read from
  JSON, the tests the code makes on such values, and \<open>JSON.stringify\<close>.

  A number is a safe integer (\<open>Whole\<close>), another finite double, \<open>NaN\<close> or an infinity.  A
  finite double is determined by the shortest decimal that reads back as it; \<open>Decimal m e\<close> is the one
  whose shortest decimal is \<open>m * 10 ^ e\<close> with a significand that does not end in zero.  These decimals are
  ordered as the doubles are, and a double lies on the same side of an integer as its decimal.  An object is the list
  of its own properties in insertion order.  Strings are ordered by code units, the order of
  JavaScript's \<open><\<close> and of \<open>Array.prototype.sort\<close>, which is the lexicographic
  order of \<open>List_Lexorder\<close>.
\<close>

datatype js_number = Whole int | Decimal int int | NotANumber | Infinite bool

datatype json =
    JNull
  | JBool bool
  | JNum js_number
  | JStr js_string
  | JArr "json list"
  | JObj "(js_string \<times> json) list"

section \<open>Type tests\<close>

definition is_plain_object :: "json \<Rightarrow> bool" where
  "is_plain_object v = (case v of JObj _ \<Rightarrow> True | _ \<Rightarrow> False)"

definition is_array :: "json \<Rightarrow> bool" where
  "is_array v = (case v of JArr _ \<Rightarrow> True | _ \<Rightarrow> False)"

definition is_string :: "json option \<Rightarrow> bool" where
  "is_string v = (case v of Some (JStr _) \<Rightarrow> True | _ \<Rightarrow> False)"

definition is_boolean :: "json option \<Rightarrow> bool" where
  "is_boolean v = (case v of Some (JBool _) \<Rightarrow> True | _ \<Rightarrow> False)"

text \<open>\<open>Number.isSafeInteger\<close> on a dynamic value, and its integer.\<close>

definition safe_integer_value :: "json option \<Rightarrow> int option" where
  "safe_integer_value v = (case v of
     Some (JNum (Whole i)) \<Rightarrow> if is_safe_integer i then Some i else None
   | _ \<Rightarrow> None)"

text \<open>\<open>Number.isFinite\<close>, and the order of finite numbers.\<close>

definition decimal_of :: "js_number \<Rightarrow> (int \<times> int) option" where
  "decimal_of n = (case n of Whole i \<Rightarrow> Some (i, 0) | Decimal m e \<Rightarrow> Some (m, e) | _ \<Rightarrow> None)"

definition is_finite_number :: "js_number \<Rightarrow> bool" where
  "is_finite_number n \<longleftrightarrow> decimal_of n \<noteq> None"

definition decimal_le :: "int \<times> int \<Rightarrow> int \<times> int \<Rightarrow> bool" where
  "decimal_le x y = (let k = min (snd x) (snd y) in
     fst x * 10 ^ nat (snd x - k) \<le> fst y * 10 ^ nat (snd y - k))"

definition number_le :: "js_number \<Rightarrow> js_number \<Rightarrow> bool" where
  "number_le x y = (case (decimal_of x, decimal_of y) of
     (Some a, Some b) \<Rightarrow> decimal_le a b | _ \<Rightarrow> False)"

section \<open>Properties\<close>

text \<open>\<open>value.key\<close>; \<open>None\<close> is \<open>undefined\<close>.\<close>

definition get_prop :: "json \<Rightarrow> string \<Rightarrow> json option" where
  "get_prop v k = (case v of JObj ps \<Rightarrow> map_of ps (js k) | _ \<Rightarrow> None)"

definition own_keys :: "json \<Rightarrow> js_string list" where
  "own_keys v = (case v of JObj ps \<Rightarrow> map fst ps | _ \<Rightarrow> [])"

text \<open>The own keys, sorted, are exactly the expected ones, sorted.\<close>

definition has_exact_keys :: "json \<Rightarrow> string list \<Rightarrow> bool" where
  "has_exact_keys v ks \<longleftrightarrow> sort (own_keys v) = sort (map js ks)"

lemma has_exact_keys_set: "has_exact_keys v ks \<Longrightarrow> set (own_keys v) = js ` set ks"
  unfolding has_exact_keys_def by (metis set_sort list.set_map)

lemma inj_js: "inj js"
proof -
  have "inj (of_char :: char \<Rightarrow> nat)" by (rule inj_of_char)
  then show ?thesis unfolding js_def using inj_mapI by blast
qed

lemma js_eq_iff [simp]: "js a = js b \<longleftrightarrow> a = b"
  using inj_js by (simp add: inj_eq)

lemma prop_of_exact_keys:
  assumes "is_plain_object v" and "has_exact_keys v ks" and "k \<in> set ks"
  shows "get_prop v k \<noteq> None"
proof -
  obtain ps where v: "v = JObj ps"
    using assms(1) by (auto simp: is_plain_object_def split: json.splits)
  then have "js k \<in> fst ` set ps"
    using has_exact_keys_set [OF assms(2)] assms(3) by (simp add: own_keys_def)
  then have "map_of ps (js k) \<noteq> None" by (simp only: map_of_eq_None_iff not_not)
  then show ?thesis by (simp add: v get_prop_def)
qed

text \<open>The value of a property that is known to be there.\<close>

definition prop_of :: "json \<Rightarrow> string \<Rightarrow> json" where
  "prop_of v k = (case get_prop v k of None \<Rightarrow> JNull | Some x \<Rightarrow> x)"

text \<open>An object literal.\<close>

definition js_object :: "(string \<times> json) list \<Rightarrow> json" where
  "js_object ps = JObj (map (\<lambda>p. (js (fst p), snd p)) ps)"

lemma get_prop_js_object [simp]: "get_prop (js_object ps) k = map_of ps k"
  by (induction ps) (auto simp: js_object_def get_prop_def)

lemma own_keys_js_object: "own_keys (js_object ps) = map (js \<circ> fst) ps"
  by (simp add: js_object_def own_keys_def)

lemma is_plain_JObj [simp]: "is_plain_object (JObj ps)"
  by (simp add: is_plain_object_def)

lemma is_plain_js_object [simp]: "is_plain_object (js_object ps)"
  by (simp add: js_object_def is_plain_object_def)

lemma keys_js_object: "distinct (map fst ps) \<Longrightarrow> distinct ks \<Longrightarrow> fst ` set ps = set ks \<Longrightarrow> has_exact_keys (js_object ps) ks"
proof -
  assume a: "distinct (map fst ps)" "distinct ks" "fst ` set ps = set ks"
  then have "mset (map fst ps) = mset ks" by (intro set_eq_iff_mset_eq_distinct [THEN iffD1]) auto
  then have "mset (map js (map fst ps)) = mset (map js ks)" by (simp only: mset_map)
  then have "sort (map js (map fst ps)) = sort (map js ks)" by (metis sort_key_def sorted_list_of_multiset_mset)
  then show ?thesis by (simp add: has_exact_keys_def own_keys_js_object comp_def)
qed

section \<open>\<open>JSON.stringify\<close>\<close>

fun nat_text :: "nat \<Rightarrow> js_string" where
  "nat_text n = (if n < 10 then [n + 48] else nat_text (n div 10) @ [n mod 10 + 48])"

declare nat_text.simps [simp del]

definition int_text :: "int \<Rightarrow> js_string" where
  "int_text i = (if i < 0 then 45 # nat_text (nat (- i)) else nat_text (nat i))"

definition hex_digit :: "nat \<Rightarrow> nat" where
  "hex_digit d = (if d < 10 then d + 48 else d + 87)"

definition unicode_escape :: "nat \<Rightarrow> js_string" where
  "unicode_escape u = [92, 117, hex_digit (u div 4096 mod 16), hex_digit (u div 256 mod 16),
     hex_digit (u div 16 mod 16), hex_digit (u mod 16)]"

definition escape_unit :: "nat \<Rightarrow> js_string" where
  "escape_unit u =
     (if u = 34 then [92, 34] else if u = 92 then [92, 92]
      else if u = 8 then [92, 98] else if u = 12 then [92, 102] else if u = 10 then [92, 110]
      else if u = 13 then [92, 114] else if u = 9 then [92, 116]
      else if u < 32 \<or> is_high_surrogate u \<or> is_low_surrogate u then unicode_escape u
      else [u])"

text \<open>Surrogate pairs are copied, lone surrogates are escaped.\<close>

fun escape_string :: "js_string \<Rightarrow> js_string" where
  "escape_string [] = []"
| "escape_string [u] = escape_unit u"
| "escape_string (u # v # s) =
     (if is_high_surrogate u \<and> is_low_surrogate v then u # v # escape_string s
      else escape_unit u @ escape_string (v # s))"

definition quote_string :: "js_string \<Rightarrow> js_string" where
  "quote_string s = [34] @ escape_string s @ [34]"

text \<open>
  \<open>Number.prototype.toString\<close>: \<open>n\<close> is the position of the decimal point counted from the first
  digit; a long or very small number is written with an exponent.
\<close>

definition decimal_text :: "nat \<Rightarrow> int \<Rightarrow> js_string" where
  "decimal_text m e = (let ds = nat_text m; k = int (length ds); n = k + e in
     if k \<le> n \<and> n \<le> 21 then ds @ replicate (nat (n - k)) 48
     else if 0 < n \<and> n \<le> 21 then take (nat n) ds @ 46 # drop (nat n) ds
     else if -6 < n \<and> n \<le> 0 then [48, 46] @ replicate (nat (- n)) 48 @ ds
     else (hd ds # (if tl ds = [] then [] else 46 # tl ds)) @ 101 # (if n - 1 < 0 then 45 else 43)
       # nat_text (nat \<bar>n - 1\<bar>))"

definition number_text :: "js_number \<Rightarrow> js_string" where
  "number_text n = (case n of Whole i \<Rightarrow> int_text i
     | Decimal m e \<Rightarrow> (if m < 0 then [45] else []) @ decimal_text (nat \<bar>m\<bar>) e
     | NotANumber \<Rightarrow> js ''null'' | Infinite _ \<Rightarrow> js ''null'')"

fun join_commas :: "js_string list \<Rightarrow> js_string" where
  "join_commas [] = []"
| "join_commas [x] = x"
| "join_commas (x # y # xs) = x @ [44] @ join_commas (y # xs)"

fun stringify :: "json \<Rightarrow> js_string" where
  "stringify JNull = js ''null''"
| "stringify (JBool b) = (if b then js ''true'' else js ''false'')"
| "stringify (JNum n) = number_text n"
| "stringify (JStr s) = quote_string s"
| "stringify (JArr vs) = [91] @ join_commas (map stringify vs) @ [93]"
| "stringify (JObj ps) =
     [123] @ join_commas (map (\<lambda>p. quote_string (fst p) @ [58] @ stringify (snd p)) ps) @ [125]"

text \<open>The definitions that evaluate a closed string under the simplifier.\<close>

lemmas string_eval = js_def is_js_space_def is_high_surrogate_def is_low_surrogate_def
  escape_unit_def quote_string_def number_text_def int_text_def nat_text.simps

text \<open>A bound on the length of a serialisation that is quick to compute.\<close>

fun text_bound :: "json \<Rightarrow> nat" where
  "text_bound JNull = 4"
| "text_bound (JBool b) = 5"
| "text_bound (JNum n) = length (number_text n)"
| "text_bound (JStr s) = 6 * length s + 2"
| "text_bound (JArr vs) = 2 + sum_list (map (\<lambda>v. text_bound v + 1) vs)"
| "text_bound (JObj ps) = 2 + sum_list (map (\<lambda>p. 6 * length (fst p) + 4 + text_bound (snd p)) ps)"

lemma length_escape_string: "length (escape_string s) \<le> 6 * length s"
proof (induction s rule: escape_string.induct)
  case (3 u v s)
  have "length (escape_unit u) \<le> 6" by (simp add: escape_unit_def unicode_escape_def)
  with 3 show ?case by (cases "is_high_surrogate u \<and> is_low_surrogate v") auto
qed (simp_all add: escape_unit_def unicode_escape_def)

lemma length_join_commas: "length (join_commas xs) \<le> sum_list (map (\<lambda>x. length x + 1) xs)"
  by (induction xs rule: join_commas.induct) simp_all

lemma length_quote_string: "length (quote_string s) \<le> 6 * length s + 2"
  using length_escape_string [of s] by (simp add: quote_string_def)

lemma length_stringify: "length (stringify v) \<le> text_bound v"
proof (induction v)
  case (JArr vs)
  have "sum_list (map (\<lambda>x. length x + 1) (map stringify vs)) \<le> sum_list (map (\<lambda>v. text_bound v + 1) vs)"
    unfolding map_map by (rule sum_list_mono) (simp add: JArr)
  with length_join_commas [of "map stringify vs"] show ?case by simp
next
  case (JObj ps)
  let ?f = "\<lambda>p. quote_string (fst p) @ [58] @ stringify (snd p)"
  have "sum_list (map (\<lambda>x. length x + 1) (map ?f ps)) \<le> sum_list (map (\<lambda>p. 6 * length (fst p) + 4 + text_bound (snd p)) ps)"
    unfolding map_map
  proof (rule sum_list_mono)
    fix p assume "p \<in> set ps"
    then have "length (stringify (snd p)) \<le> text_bound (snd p)" using JObj [of p "snd p"] by (auto simp: snds.simps prod_eq_iff)
    with length_quote_string [of "fst p"]
    show "((\<lambda>x. length x + 1) \<circ> ?f) p \<le> 6 * length (fst p) + 4 + text_bound (snd p)" by simp
  qed
  with length_join_commas [of "map ?f ps"] show ?case by simp
qed (use length_quote_string in auto)

lemma stringify_fits: "3 * text_bound v \<le> n \<Longrightarrow> utf8_length (stringify v) \<le> n"
  using length_stringify [of v] utf8_le_units [of "stringify v"] by linarith

section \<open>Splitting\<close>

text \<open>\<open>s.split(sep)\<close> for a separator of one code unit.\<close>

fun split_at :: "nat \<Rightarrow> js_string \<Rightarrow> js_string list" where
  "split_at c [] = [[]]"
| "split_at c (u # s) =
     (if u = c then [] # split_at c s
      else (case split_at c s of [] \<Rightarrow> [[u]] | p # ps \<Rightarrow> (u # p) # ps))"

lemma split_at_not_Nil: "split_at c s \<noteq> []"
  by (cases s) (auto split: list.splits)

text \<open>The parts joined by the separator are the string again.\<close>

fun join_with :: "nat \<Rightarrow> js_string list \<Rightarrow> js_string" where
  "join_with c [] = []"
| "join_with c [x] = x"
| "join_with c (x # y # xs) = x @ [c] @ join_with c (y # xs)"

lemma join_split: "join_with c (split_at c s) = s"
proof (induction s)
  case (Cons u s)
  then show ?case
    using split_at_not_Nil [of c s]
    by (cases "split_at c s"; cases "tl (split_at c s)") auto
qed simp

lemma split_parts_free: "p \<in> set (split_at c s) \<Longrightarrow> c \<notin> set p"
proof (induction s arbitrary: p)
  case (Cons u s)
  then show ?case
    using split_at_not_Nil [of c s]
    by (cases "split_at c s") (auto split: if_splits)
qed simp

end
