(* ===== verification/Timestamps.thy ===== *)
theory Timestamps
  imports Prelude
begin

text \<open>
  Timestamps: the pattern \<open>YYYY-MM-DDTHH:mm:ss(.d+)?Z\<close> that the validators require, the
  value \<open>Date.parse\<close> gives a string of that form, and \<open>Date.prototype.toISOString\<close>.

  The calendar is the proleptic Gregorian calendar of ECMAScript (days counted from
  1970-01-01).  As in the engine the product runs on (Node.js), the day of the month may be
  any of 1..31 in every month and rolls over, the hour 24 is accepted at 24:00:00 only, and a
  fraction is read from its first three digits; a string of this form with a field out of
  range is an invalid date.  What \<open>Date.parse\<close> does with strings of other forms is left to
  the implementation by the language, so \<open>date_parse\<close> takes it as the parameter \<open>legacy\<close>.
\<close>

section \<open>Decimal digits\<close>

definition digit_value :: "nat \<Rightarrow> int" where
  "digit_value u = int u - 48"

fun decimal_value :: "int \<Rightarrow> js_string \<Rightarrow> int" where
  "decimal_value acc [] = acc"
| "decimal_value acc (u # s) = decimal_value (10 * acc + digit_value u) s"

definition digit_char :: "int \<Rightarrow> nat" where
  "digit_char d = nat (d mod 10) + 48"

lemma digit_value_char [simp]: "digit_value (digit_char d) = d mod 10"
  by (simp add: digit_value_def digit_char_def)

lemma is_digit_char [simp]: "is_digit (digit_char d)"
proof -
  have "d mod 10 < 10" by (rule pos_mod_bound) simp
  then have "nat (d mod 10) \<le> 9" by linarith
  then show ?thesis by (simp add: is_digit_def digit_char_def)
qed

definition pad2 :: "int \<Rightarrow> js_string" where
  "pad2 n = [digit_char (n div 10), digit_char n]"

definition pad3 :: "int \<Rightarrow> js_string" where
  "pad3 n = [digit_char (n div 100), digit_char (n div 10), digit_char n]"

definition pad4 :: "int \<Rightarrow> js_string" where
  "pad4 n = [digit_char (n div 1000), digit_char (n div 100), digit_char (n div 10), digit_char n]"

lemma div_hundred: "(n::int) div 100 = n div 10 div 10"
  and div_thousand: "(n::int) div 1000 = n div 10 div 10 div 10"
  by (simp_all flip: zdiv_zmult2_eq)

lemma last_digit: "10 * (n div 10) + n mod 10 = (n::int)"
  by (rule mult_div_mod_eq)

definition pad6 :: "int \<Rightarrow> js_string" where
  "pad6 n = pad2 (n div 10000) @ pad4 n"

lemma decimal_pad2: "0 \<le> n \<Longrightarrow> n < 100 \<Longrightarrow> decimal_value 0 (pad2 n) = n"
  by (simp add: pad2_def last_digit)

lemma decimal_pad3: "0 \<le> n \<Longrightarrow> n < 1000 \<Longrightarrow> decimal_value 0 (pad3 n) = n"
  using last_digit [of "n div 10"] last_digit [of n] by (simp add: pad3_def div_hundred)

lemma decimal_pad4: "0 \<le> n \<Longrightarrow> n < 10000 \<Longrightarrow> decimal_value 0 (pad4 n) = n"
  using last_digit [of "n div 10 div 10"] last_digit [of "n div 10"] last_digit [of n]
  by (simp add: pad4_def div_hundred div_thousand)

section \<open>The calendar\<close>

text \<open>The day number of 1 January of a year (\<open>DayFromYear\<close>).\<close>

definition day_from_year :: "int \<Rightarrow> int" where
  "day_from_year y = 365 * (y - 1970) + (y - 1969) div 4 - (y - 1901) div 100 + (y - 1601) div 400"

definition is_leap :: "int \<Rightarrow> bool" where
  "is_leap y \<longleftrightarrow> y mod 4 = 0 \<and> (y mod 100 \<noteq> 0 \<or> y mod 400 = 0)"

text \<open>The day within the year of the first day of month \<open>m\<close> (1..12).\<close>

definition month_start :: "int \<Rightarrow> int \<Rightarrow> int" where
  "month_start y m =
     [0, 31, 59, 90, 120, 151, 181, 212, 243, 273, 304, 334] ! nat (m - 1)
     + (if 3 \<le> m \<and> is_leap y then 1 else 0)"

definition day_number :: "int \<Rightarrow> int \<Rightarrow> int \<Rightarrow> int" where
  "day_number y m d = day_from_year y + month_start y m + (d - 1)"

text \<open>\<open>YearFromTime\<close>: the year that contains a day, from an estimate that is off by at most one.\<close>

definition year_from_day :: "int \<Rightarrow> int" where
  "year_from_day n = (let y = 1970 + 400 * n div 146097 in
     if n < day_from_year y then y - 1
     else if day_from_year (y + 1) \<le> n then y + 1 else y)"

text \<open>\<open>MonthFromTime\<close>: the last month that starts no later than the day \<open>k\<close> of the year.\<close>

definition month_from_day :: "int \<Rightarrow> int \<Rightarrow> int" where
  "month_from_day y k = last (filter (\<lambda>m. month_start y m \<le> k) [1..12])"

definition ms_per_day :: int where
  "ms_per_day = 86400000"

section \<open>Parsing\<close>

text \<open>The optional fraction and the final \<open>Z\<close>: the digits of the fraction.\<close>

definition iso_fraction :: "js_string \<Rightarrow> js_string option" where
  "iso_fraction s = (case s of [] \<Rightarrow> None
     | u # t \<Rightarrow>
        if u = 90 \<and> t = [] then Some []
        else if u = 46 \<and> t \<noteq> [] \<and> last t = 90 \<and> butlast t \<noteq> [] \<and> list_all is_digit (butlast t)
        then Some (butlast t) else None)"

record iso_date =
  iso_year :: int
  iso_month :: int
  iso_day :: int
  iso_hour :: int
  iso_minute :: int
  iso_second :: int
  iso_frac :: js_string

text \<open>\<open>/^\d{4}-\d{2}-\d{2}T\d{2}:\d{2}:\d{2}(?:\.\d+)?Z$/\<close> and the numbers it reads.\<close>

definition iso_fields :: "js_string \<Rightarrow> iso_date option" where
  "iso_fields s = (case s of
     y1 # y2 # y3 # y4 # p1 # m1 # m2 # p2 # d1 # d2 # t # h1 # h2 # c1 # n1 # n2 # c2 # s1 # s2 # rest \<Rightarrow>
       if p1 = 45 \<and> p2 = 45 \<and> t = 84 \<and> c1 = 58 \<and> c2 = 58
          \<and> list_all is_digit [y1, y2, y3, y4, m1, m2, d1, d2, h1, h2, n1, n2, s1, s2]
       then map_option (\<lambda>fr. \<lparr>iso_year = decimal_value 0 [y1, y2, y3, y4],
              iso_month = decimal_value 0 [m1, m2], iso_day = decimal_value 0 [d1, d2],
              iso_hour = decimal_value 0 [h1, h2], iso_minute = decimal_value 0 [n1, n2],
              iso_second = decimal_value 0 [s1, s2], iso_frac = fr\<rparr>) (iso_fraction rest)
       else None
   | _ \<Rightarrow> None)"

definition matches_timestamp :: "js_string \<Rightarrow> bool" where
  "matches_timestamp s \<longleftrightarrow> iso_fields s \<noteq> None"

text \<open>
  Milliseconds of a fraction: the engine reads at most nine significant digits after any
  leading zeros and scales by the number of digits written.
\<close>

definition fraction_ms :: "js_string \<Rightarrow> int" where
  "fraction_ms ds = (let n = decimal_value 0 (take 9 (dropWhile (\<lambda>u. u = 48) ds)); k = length ds in
     if k = 0 then 0 else if k = 1 then 100 * n else if k = 2 then 10 * n
     else n div 10 ^ (min k 9 - 3))"

definition iso_valid :: "iso_date \<Rightarrow> bool" where
  "iso_valid f \<longleftrightarrow> 1 \<le> iso_month f \<and> iso_month f \<le> 12 \<and> 1 \<le> iso_day f \<and> iso_day f \<le> 31
     \<and> (iso_hour f \<le> 23 \<and> iso_minute f \<le> 59 \<and> iso_second f \<le> 59
        \<or> iso_hour f = 24 \<and> iso_minute f = 0 \<and> iso_second f = 0 \<and> fraction_ms (iso_frac f) = 0)"

definition iso_value :: "iso_date \<Rightarrow> int" where
  "iso_value f = ms_per_day * day_number (iso_year f) (iso_month f) (iso_day f)
     + 3600000 * iso_hour f + 60000 * iso_minute f + 1000 * iso_second f + fraction_ms (iso_frac f)"

text \<open>\<open>Date.parse\<close> on a string of the required form; \<open>None\<close> is \<open>NaN\<close>.\<close>

definition iso_time :: "js_string \<Rightarrow> int option" where
  "iso_time s = (case iso_fields s of None \<Rightarrow> None
     | Some f \<Rightarrow> if iso_valid f then Some (iso_value f) else None)"

text \<open>\<open>Date.parse\<close> on any string.\<close>

definition date_parse :: "(js_string \<Rightarrow> int option) \<Rightarrow> js_string \<Rightarrow> int option" where
  "date_parse legacy s = (if matches_timestamp s then iso_time s else legacy s)"

text \<open>The test every strict validator makes: the pattern, and not \<open>NaN\<close>.\<close>

definition is_timestamp :: "js_string \<Rightarrow> bool" where
  "is_timestamp s \<longleftrightarrow> matches_timestamp s \<and> iso_time s \<noteq> None"

lemma is_timestamp_iff: "is_timestamp s \<longleftrightarrow> (\<exists>t. iso_time s = Some t)"
  by (auto simp: is_timestamp_def matches_timestamp_def iso_time_def split: option.splits)

lemma date_parse_timestamp: "is_timestamp s \<Longrightarrow> date_parse legacy s = iso_time s"
  by (simp add: date_parse_def is_timestamp_def)

text \<open>The test of the looser validators, the negation of
  \<open>!value.endsWith("Z") || Number.isNaN(Date.parse(value))\<close>\<close>

definition loose_timestamp :: "(js_string \<Rightarrow> int option) \<Rightarrow> js_string \<Rightarrow> bool" where
  "loose_timestamp legacy s \<longleftrightarrow> s \<noteq> [] \<and> last s = 90 \<and> date_parse legacy s \<noteq> None"

text \<open>Comparisons of dates: any comparison with \<open>NaN\<close> is false.\<close>

definition date_less :: "int option \<Rightarrow> int option \<Rightarrow> bool" where
  "date_less a b = (case a of None \<Rightarrow> False | Some x \<Rightarrow> (case b of None \<Rightarrow> False | Some y \<Rightarrow> x < y))"

definition date_le :: "int option \<Rightarrow> int option \<Rightarrow> bool" where
  "date_le a b = (case a of None \<Rightarrow> False | Some x \<Rightarrow> (case b of None \<Rightarrow> False | Some y \<Rightarrow> x \<le> y))"

lemma date_less_simps [simp]: "date_less (Some x) (Some y) \<longleftrightarrow> x < y"
    "\<not> date_less None b" "\<not> date_less a None"
  by (auto simp: date_less_def split: option.splits)

lemma date_le_simps [simp]: "date_le (Some x) (Some y) \<longleftrightarrow> x \<le> y"
    "\<not> date_le None b" "\<not> date_le a None"
  by (auto simp: date_le_def split: option.splits)

section \<open>Printing\<close>

text \<open>\<open>new Date(ms).toISOString()\<close>; a year outside 0..9999 has a sign and six digits.\<close>

definition iso_year_text :: "int \<Rightarrow> js_string" where
  "iso_year_text y = (if 0 \<le> y \<and> y \<le> 9999 then pad4 y
     else if y < 0 then 45 # pad6 (- y) else 43 # pad6 y)"

definition to_iso_string :: "int \<Rightarrow> js_string" where
  "to_iso_string ms = (let n = ms div ms_per_day; r = ms mod ms_per_day;
       y = year_from_day n; k = n - day_from_year y; m = month_from_day y k; d = k - month_start y m + 1 in
     iso_year_text y @ [45] @ pad2 m @ [45] @ pad2 d @ [84]
     @ pad2 (r div 3600000) @ [58] @ pad2 (r div 60000 mod 60) @ [58] @ pad2 (r div 1000 mod 60)
     @ [46] @ pad3 (r mod 1000) @ [90])"

section \<open>The printed form parses back to the same time\<close>

lemma div_bounds:
  fixes x k :: int
  assumes "0 < k"
  shows "k * (x div k) \<le> x" "x < k * (x div k) + k"
  using mult_div_mod_eq [of k x] pos_mod_sign [of k x] pos_mod_bound [of k x] assms by linarith+

lemma div_step:
  fixes x k :: int
  assumes "0 < k"
  shows "(x + 1) div k = x div k + (if (x + 1) mod k = 0 then 1 else 0)"
proof (cases "(x + 1) mod k = 0")
  case True
  then obtain q where q: "x + 1 = k * q" by auto
  then have "x = k * (q - 1) + (k - 1)" by (simp add: algebra_simps)
  then have "x div k = q - 1" using assms by (simp add: div_pos_pos_trivial)
  with q True assms show ?thesis by simp
next
  case False
  have "x + 1 = k * ((x + 1) div k) + (x + 1) mod k" by simp
  moreover have "0 < (x + 1) mod k" "(x + 1) mod k < k"
    using False assms by (simp_all add: le_neq_trans)
  ultimately have "x = k * ((x + 1) div k) + ((x + 1) mod k - 1)"
    "0 \<le> (x + 1) mod k - 1" "(x + 1) mod k - 1 < k" by linarith+
  then have "x div k = (x + 1) div k"
    by (metis div_mult_self4 div_pos_pos_trivial add.commute add_0 assms less_irrefl)
  with False show ?thesis by simp
qed

lemma leap_sum:
  fixes y A B C :: int
  assumes "P400 \<Longrightarrow> P100" and "P100 \<Longrightarrow> P4"
  shows "365 * (y + 1 - 1970) + (A + (if P4 then 1 else 0)) - (B + (if P100 then 1 else 0))
      + (C + (if P400 then 1 else 0))
    = 365 * (y - 1970) + A - B + C + (if P4 \<and> (\<not> P100 \<or> P400) then 366 else 365)"
  using assms by (cases P400; cases P100; cases P4) simp_all

lemma day_from_year_step: "day_from_year (y + 1) = day_from_year y + (if is_leap y then 366 else 365)"
proof -
  have m: "(y - 1968) mod 4 = y mod 4" "(y - 1900) mod 100 = y mod 100" "(y - 1600) mod 400 = y mod 400"
    using mod_mult_self1 [of y "-492" 4] mod_mult_self1 [of y "-19" 100] mod_mult_self1 [of y "-4" 400]
    by simp_all
  have d: "y mod 400 = 0 \<Longrightarrow> y mod 100 = 0" "y mod 100 = 0 \<Longrightarrow> y mod 4 = 0"
    by (auto simp: mod_eq_0_iff_dvd intro: dvd_trans [of 100 400] dvd_trans [of 4 100])
  have r: "y - 1969 + 1 = y - 1968" "y - 1901 + 1 = y - 1900" "y - 1601 + 1 = y - 1600" by simp_all
  have c: "(y - 1968) div 4 = (y - 1969) div 4 + (if y mod 4 = 0 then 1 else 0)"
      "(y - 1900) div 100 = (y - 1901) div 100 + (if y mod 100 = 0 then 1 else 0)"
      "(y - 1600) div 400 = (y - 1601) div 400 + (if y mod 400 = 0 then 1 else 0)"
    using div_step [where k = 4 and x = "y - 1969", OF zero_less_numeral]
      div_step [where k = 100 and x = "y - 1901", OF zero_less_numeral]
      div_step [where k = 400 and x = "y - 1601", OF zero_less_numeral]
    by (simp_all only: r m)
  have "y + 1 - 1969 = y - 1968" "y + 1 - 1901 = y - 1900" "y + 1 - 1601 = y - 1600" by simp_all
  then have e: "day_from_year (y + 1) =
      365 * (y + 1 - 1970) + (y - 1968) div 4 - (y - 1900) div 100 + (y - 1600) div 400"
    by (simp only: day_from_year_def)
  show ?thesis
    unfolding e c unfolding day_from_year_def is_leap_def using d by (rule leap_sum)
qed

lemma day_from_year_mono: "a \<le> b \<Longrightarrow> day_from_year a \<le> day_from_year b"
  by (induction rule: int_ge_induct) (auto simp: day_from_year_step)

lemma day_from_year_estimate:
  "146097 * (y - 1970) - 506 \<le> 400 * day_from_year y"
  "400 * day_from_year y \<le> 146097 * (y - 1970) + 589"
proof -
  define a b c where "a = (y - 1969) div 4" and "b = (y - 1901) div 100" and "c = (y - 1601) div 400"
  note defs = a_def [symmetric] b_def [symmetric] c_def [symmetric]
  note bounds = div_bounds [where k = 4 and x = "y - 1969", OF zero_less_numeral] div_bounds [where k = 100 and x = "y - 1901", OF zero_less_numeral] div_bounds [where k = 400 and x = "y - 1601", OF zero_less_numeral]
  note bounds' = bounds [unfolded defs]
  from bounds' show "146097 * (y - 1970) - 506 \<le> 400 * day_from_year y"
    unfolding day_from_year_def defs by (simp add: algebra_simps)
  from bounds' show "400 * day_from_year y \<le> 146097 * (y - 1970) + 589"
    unfolding day_from_year_def defs by (simp add: algebra_simps)
qed

lemma year_from_day_bounds:
  "day_from_year (year_from_day n) \<le> n" "n < day_from_year (year_from_day n + 1)"
proof -
  define q where "q = 400 * n div 146097"
  define y where "y = 1970 + q"
  note bounds = div_bounds [where k = 146097 and x = "400 * n", OF zero_less_numeral, folded q_def]
  have e1: "146097 * (y - 1970) \<le> 400 * n" using bounds unfolding y_def by (simp add: algebra_simps)
  have e2: "400 * n < 146097 * (y - 1970) + 146097" using bounds unfolding y_def by (simp add: algebra_simps)
  have "day_from_year (y - 1) \<le> n"
    using day_from_year_estimate(2) [of "y - 1"] e1 by (simp add: algebra_simps)
  moreover have "n < day_from_year (y + 2)"
    using day_from_year_estimate(1) [of "y + 2"] e2 by (simp add: algebra_simps)
  moreover have "year_from_day n = (if n < day_from_year y then y - 1
      else if day_from_year (y + 1) \<le> n then y + 1 else y)"
    unfolding year_from_day_def Let_def q_def y_def by (rule refl)
  moreover have "y + 1 + 1 = y + 2" "y - 1 + 1 = y" by simp_all
  ultimately show "day_from_year (year_from_day n) \<le> n" "n < day_from_year (year_from_day n + 1)"
    by (auto simp only: not_less not_le split: if_splits)
qed

text \<open>Months: the search finds the month whose days contain the day of the year.\<close>

definition year_length :: "int \<Rightarrow> int" where
  "year_length y = (if is_leap y then 366 else 365)"

lemma month_starts:
  fixes y :: int
  defines "l \<equiv> if is_leap y then 1 else 0 :: int"
  shows "month_start y 1 = 0" "month_start y 2 = 31" "month_start y 3 = 59 + l" "month_start y 4 = 90 + l"
    "month_start y 5 = 120 + l" "month_start y 6 = 151 + l" "month_start y 7 = 181 + l"
    "month_start y 8 = 212 + l" "month_start y 9 = 243 + l" "month_start y 10 = 273 + l"
    "month_start y 11 = 304 + l" "month_start y 12 = 334 + l"
  by (simp_all add: month_start_def l_def)

lemma month_from_day_bounds:
  assumes "0 \<le> k" and "k < year_length y"
  shows "1 \<le> month_from_day y k \<and> month_from_day y k \<le> 12
    \<and> month_start y (month_from_day y k) \<le> k \<and> k - month_start y (month_from_day y k) \<le> 30"
proof -
  define l where "l = (if is_leap y then 1 else 0 :: int)"
  have l: "0 \<le> l" "l \<le> 1" "k < 365 + l"
    using assms by (auto simp: l_def year_length_def)
  have e: "[1..12] = [1, 2, 3, 4, 5, 6, 7, 8, 9, 10, 11, 12 :: int]"
    by (simp add: upto.simps)
  note evaluate = month_from_day_def e month_starts [of y, folded l_def]
  consider "k < 31" | "31 \<le> k" "k < 59 + l" | "59 + l \<le> k" "k < 90 + l" | "90 + l \<le> k" "k < 120 + l"
    | "120 + l \<le> k" "k < 151 + l" | "151 + l \<le> k" "k < 181 + l" | "181 + l \<le> k" "k < 212 + l"
    | "212 + l \<le> k" "k < 243 + l" | "243 + l \<le> k" "k < 273 + l" | "273 + l \<le> k" "k < 304 + l"
    | "304 + l \<le> k" "k < 334 + l" | "334 + l \<le> k"
    by linarith
  then show ?thesis
    by cases (use assms(1) l in \<open>simp_all add: evaluate\<close>)
qed

definition min_iso_ms :: int where
  "min_iso_ms = -62167219200000"

definition max_iso_ms :: int where
  "max_iso_ms = 253402300799999"

lemma day_range:
  assumes "min_iso_ms \<le> ms" and "ms \<le> max_iso_ms"
  shows "day_from_year 0 \<le> ms div ms_per_day" "ms div ms_per_day < day_from_year 10000"
proof -
  have "-719528 \<le> ms div 86400000" "ms div 86400000 \<le> 2932896"
    using zdiv_mono1 [of "-62167219200000" ms 86400000] zdiv_mono1 [of ms 253402300799999 86400000] assms
    by (simp_all add: min_iso_ms_def max_iso_ms_def)
  moreover have "day_from_year 0 = -719528" "day_from_year 10000 = 2932897"
    by (simp_all add: day_from_year_def)
  ultimately show "day_from_year 0 \<le> ms div ms_per_day" "ms div ms_per_day < day_from_year 10000"
    by (simp_all add: ms_per_day_def)
qed

lemma year_range:
  assumes "min_iso_ms \<le> ms" and "ms \<le> max_iso_ms"
  shows "0 \<le> year_from_day (ms div ms_per_day)" "year_from_day (ms div ms_per_day) \<le> 9999"
proof -
  define n y where "n = ms div ms_per_day" and "y = year_from_day n"
  note b = year_from_day_bounds [of n, folded y_def] and r = day_range [OF assms, folded n_def]
  show "0 \<le> year_from_day (ms div ms_per_day)"
    using day_from_year_mono [of "y + 1" 0] b r unfolding n_def [symmetric] y_def [symmetric] by linarith
  show "year_from_day (ms div ms_per_day) \<le> 9999"
    using day_from_year_mono [of 10000 y] b r unfolding n_def [symmetric] y_def [symmetric] by linarith
qed

lemma time_of_day:
  fixes r :: int
  assumes "0 \<le> r" and "r < 86400000"
  shows "0 \<le> r div 3600000" "r div 3600000 \<le> 23"
    "3600000 * (r div 3600000) + 60000 * (r div 60000 mod 60) + 1000 * (r div 1000 mod 60) + r mod 1000 = r"
proof -
  show "0 \<le> r div 3600000" using assms by simp
  show "r div 3600000 \<le> 23" using zdiv_mono1 [of r 86399999 3600000] assms by simp
  have a: "r = 1000 * (r div 1000) + r mod 1000" by simp
  have b: "r div 1000 = 60 * (r div 1000 div 60) + r div 1000 mod 60" by simp
  have c: "r div 1000 div 60 = 60 * (r div 1000 div 60 div 60) + r div 1000 div 60 mod 60" by simp
  have d: "r div 60000 = r div 1000 div 60" "r div 3600000 = r div 1000 div 60 div 60"
    by (simp_all flip: zdiv_zmult2_eq)
  show "3600000 * (r div 3600000) + 60000 * (r div 60000 mod 60) + 1000 * (r div 1000 mod 60) + r mod 1000 = r"
    unfolding d using a b c by linarith
qed

lemma fraction_ms_pad3: "0 \<le> n \<Longrightarrow> n < 1000 \<Longrightarrow> fraction_ms (pad3 n) = n"
proof -
  assume n: "0 \<le> n" "n < 1000"
  have skip: "decimal_value 0 (dropWhile (\<lambda>u. u = 48) ds) = decimal_value 0 ds" for ds
    by (induction ds) (simp_all add: digit_value_def)
  have "length (dropWhile (\<lambda>u. u = 48) (pad3 n)) \<le> 3"
    using length_dropWhile_le [of "\<lambda>u. u = 48" "pad3 n"] by (simp add: pad3_def)
  then have "take 9 (dropWhile (\<lambda>u. u = 48) (pad3 n)) = dropWhile (\<lambda>u. u = 48) (pad3 n)"
    by simp
  then show ?thesis
    using n by (simp add: fraction_ms_def Let_def skip decimal_pad3) (simp add: pad3_def)
qed

lemma iso_fraction_print: "list_all is_digit ds \<Longrightarrow> ds \<noteq> [] \<Longrightarrow> iso_fraction (46 # ds @ [90]) = Some ds"
  by (simp add: iso_fraction_def)

lemma iso_fields_print:
  assumes "0 \<le> y" "y < 10000" "0 \<le> m" "m < 100" "0 \<le> d" "d < 100" "0 \<le> h" "h < 100"
    "0 \<le> n" "n < 100" "0 \<le> s" "s < 100"
  shows "iso_fields (pad4 y @ [45] @ pad2 m @ [45] @ pad2 d @ [84] @ pad2 h @ [58] @ pad2 n @ [58]
      @ pad2 s @ [46] @ pad3 f @ [90])
    = Some \<lparr>iso_year = y, iso_month = m, iso_day = d, iso_hour = h, iso_minute = n, iso_second = s,
        iso_frac = pad3 f\<rparr>"
proof -
  have f: "iso_fraction (46 # pad3 f @ [90]) = Some (pad3 f)"
    by (rule iso_fraction_print) (simp_all add: pad3_def)
  note v = decimal_pad4 [OF assms(1,2), unfolded pad4_def] decimal_pad2 [OF assms(3,4), unfolded pad2_def]
    decimal_pad2 [OF assms(5,6), unfolded pad2_def] decimal_pad2 [OF assms(7,8), unfolded pad2_def]
    decimal_pad2 [OF assms(9,10), unfolded pad2_def] decimal_pad2 [OF assms(11,12), unfolded pad2_def]
  show ?thesis
    by (simp add: iso_fields_def pad2_def pad4_def f v del: decimal_value.simps)
qed

theorem iso_time_to_iso_string:
  assumes "min_iso_ms \<le> ms" and "ms \<le> max_iso_ms"
  shows "iso_time (to_iso_string ms) = Some ms"
proof -
  define n r where "n = ms div ms_per_day" and "r = ms mod ms_per_day"
  define y where "y = year_from_day n"
  define k where "k = n - day_from_year y"
  define m where "m = month_from_day y k"
  define d where "d = k - month_start y m + 1"
  note yb = year_from_day_bounds [of n, folded y_def]
  note yr = year_range [OF assms, folded n_def, folded y_def]
  have k: "0 \<le> k" "k < year_length y"
    using yb day_from_year_step [of y] by (auto simp: k_def year_length_def)
  note mb = month_from_day_bounds [OF k, folded m_def]
  have r: "0 \<le> r" "r < 86400000" by (simp_all add: r_def ms_per_day_def)
  define hh mi ss fr where "hh = r div 3600000" and "mi = r div 60000 mod 60"
    and "ss = r div 1000 mod 60" and "fr = r mod 1000"
  note parts = hh_def [symmetric] mi_def [symmetric] ss_def [symmetric] fr_def [symmetric]
  note t = time_of_day [OF r, unfolded parts]
  have s: "0 \<le> mi" "mi < 60" "0 \<le> ss" "ss < 60" "0 \<le> fr" "fr < 1000"
    unfolding mi_def ss_def fr_def by (rule pos_mod_sign pos_mod_bound, simp)+
  define f where "f = \<lparr>iso_year = y, iso_month = m, iso_day = d, iso_hour = hh,
      iso_minute = mi, iso_second = ss, iso_frac = pad3 fr\<rparr>"
  have y4: "iso_year_text y = pad4 y" using yr by (simp add: iso_year_text_def)
  have "iso_fields (to_iso_string ms) = Some f"
    unfolding to_iso_string_def Let_def n_def [symmetric] r_def [symmetric] y_def [symmetric]
      k_def [symmetric] m_def [symmetric] d_def [symmetric] parts f_def y4
    by (rule iso_fields_print) (use yr mb t s in \<open>simp_all add: d_def\<close>)
  moreover have "iso_valid f"
    using mb t s by (simp add: iso_valid_def f_def d_def)
  moreover have "iso_value f = ms"
  proof -
    have "day_number y m d = n" by (simp add: day_number_def d_def k_def)
    then have "iso_value f = ms_per_day * n + r"
      using t(3) fraction_ms_pad3 [OF s(5,6)] by (simp add: iso_value_def f_def)
    then show ?thesis by (simp add: n_def r_def)
  qed
  ultimately show ?thesis by (simp add: iso_time_def)
qed

section \<open>The earliest time a timestamp can have\<close>

lemma decimal_value_nonneg: "list_all is_digit s \<Longrightarrow> 0 \<le> a \<Longrightarrow> 0 \<le> decimal_value a s"
  by (induction s arbitrary: a) (simp_all add: is_digit_def digit_value_def)

lemma fraction_ms_nonneg: "list_all is_digit s \<Longrightarrow> 0 \<le> fraction_ms s"
proof -
  assume s: "list_all is_digit s"
  have "list_all is_digit (take 9 (dropWhile (\<lambda>u. u = 48) s))"
    using s by (auto simp: list_all_iff dest!: in_set_takeD set_dropWhileD)
  from decimal_value_nonneg [OF this, of 0] show ?thesis
    by (simp add: fraction_ms_def Let_def pos_imp_zdiv_nonneg_iff)
qed

lemma iso_fraction_digits: "iso_fraction s = Some ds \<Longrightarrow> list_all is_digit ds"
  by (auto simp: iso_fraction_def split: list.splits if_splits)

lemma iso_fields_nonneg:
  assumes "iso_fields s = Some f"
  shows "0 \<le> iso_year f" "0 \<le> iso_hour f" "0 \<le> iso_minute f" "0 \<le> iso_second f"
    "list_all is_digit (iso_frac f)"
proof -
  have n: "0 \<le> decimal_value 0 ds" if "list_all is_digit ds" for ds
    using that by (rule decimal_value_nonneg) simp
  show "0 \<le> iso_year f" "0 \<le> iso_hour f" "0 \<le> iso_minute f" "0 \<le> iso_second f"
      "list_all is_digit (iso_frac f)"
    using assms by (auto simp: iso_fields_def simp del: decimal_value.simps intro!: n
        dest: iso_fraction_digits split: list.splits if_splits)
qed

lemma month_start_nonneg: "1 \<le> m \<Longrightarrow> m \<le> 12 \<Longrightarrow> 0 \<le> month_start y m"
proof -
  assume "1 \<le> m" "m \<le> 12"
  then have "m = 1 \<or> m = 2 \<or> m = 3 \<or> m = 4 \<or> m = 5 \<or> m = 6 \<or> m = 7 \<or> m = 8 \<or> m = 9
      \<or> m = 10 \<or> m = 11 \<or> m = 12" by presburger
  then show ?thesis by (elim disjE) (simp_all add: month_starts)
qed

lemma iso_time_lower: "iso_time s = Some t \<Longrightarrow> min_iso_ms \<le> t"
proof -
  assume "iso_time s = Some t"
  then obtain f where f: "iso_fields s = Some f" and v: "iso_valid f" and t: "t = iso_value f"
    by (auto simp: iso_time_def split: option.splits if_splits)
  note n = iso_fields_nonneg [OF f]
  have "day_from_year 0 \<le> day_number (iso_year f) (iso_month f) (iso_day f)"
    using day_from_year_mono [OF n(1)] month_start_nonneg [of "iso_month f" "iso_year f"] v
    by (simp add: day_number_def iso_valid_def)
  moreover have "day_from_year 0 = -719528" by (simp add: day_from_year_def)
  ultimately show ?thesis
    using n(2-4) fraction_ms_nonneg [OF n(5)] by (simp add: t iso_value_def min_iso_ms_def ms_per_day_def)
qed

lemma is_timestamp_to_iso: "min_iso_ms \<le> ms \<Longrightarrow> ms \<le> max_iso_ms \<Longrightarrow> is_timestamp (to_iso_string ms)"
  by (simp add: is_timestamp_iff iso_time_to_iso_string)

end
