(* ===== verification/Run_Values.thy ===== *)
theory Run_Values
  imports Js_Values Timestamps
begin

text \<open>
  The value types a Run event carries and their validators:
  \<open>rate-limit-snapshot.ts\<close>, \<open>workspace-change-summary.ts\<close>,
  \<open>provider-continuation-budget.ts\<close>, \<open>provider-turn-state.ts\<close>, the cache reporting test
  of \<open>model-usage-report.ts\<close>, the invocation origin of \<open>automation.ts\<close> and the identity
  grammar of \<open>workflow-version.ts\<close>.
\<close>

section \<open>Rate limit snapshots\<close>

definition rate_limit_reached_types :: "string list" where
  "rate_limit_reached_types = [''rate_limit_reached'', ''workspace_owner_credits_depleted'',
     ''workspace_member_credits_depleted'', ''workspace_owner_usage_limit_reached'',
     ''workspace_member_usage_limit_reached'']"

definition bounded_string_value :: "json option \<Rightarrow> nat \<Rightarrow> bool" where
  "bounded_string_value v n =
     (case v of Some (JStr s) \<Rightarrow> 0 < length s \<and> length s \<le> n | _ \<Rightarrow> False)"

definition nullable_string :: "json option \<Rightarrow> nat \<Rightarrow> bool" where
  "nullable_string v n \<longleftrightarrow> v = Some JNull \<or> bounded_string_value v n"

definition nullable_non_negative_integer :: "json option \<Rightarrow> bool" where
  "nullable_non_negative_integer v \<longleftrightarrow> v = Some JNull
     \<or> (case safe_integer_value v of Some i \<Rightarrow> 0 \<le> i | None \<Rightarrow> False)"

text \<open>A finite number between 0 and 100.\<close>

definition percent_value :: "json option \<Rightarrow> bool" where
  "percent_value v = (case v of
     Some (JNum n) \<Rightarrow> number_le (Whole 0) n \<and> number_le n (Whole 100)
   | _ \<Rightarrow> False)"

definition integer_between :: "json option \<Rightarrow> int \<Rightarrow> int \<Rightarrow> bool" where
  "integer_between v a b = (case safe_integer_value v of Some i \<Rightarrow> a \<le> i \<and> i \<le> b | None \<Rightarrow> False)"

definition window_valid :: "json option \<Rightarrow> bool" where
  "window_valid v = (case v of None \<Rightarrow> False | Some w \<Rightarrow> w = JNull
     \<or> is_plain_object w \<and> has_exact_keys w [''resetsAt'', ''usedPercent'', ''windowMinutes'']
       \<and> percent_value (get_prop w ''usedPercent'')
       \<and> nullable_non_negative_integer (get_prop w ''windowMinutes'')
       \<and> nullable_non_negative_integer (get_prop w ''resetsAt''))"

definition credits_valid :: "json option \<Rightarrow> bool" where
  "credits_valid v = (case v of None \<Rightarrow> False | Some w \<Rightarrow> w = JNull
     \<or> is_plain_object w \<and> has_exact_keys w [''balance'', ''hasCredits'', ''unlimited'']
       \<and> is_boolean (get_prop w ''hasCredits'') \<and> is_boolean (get_prop w ''unlimited'')
       \<and> nullable_string (get_prop w ''balance'') 128)"

definition individual_limit_valid :: "json option \<Rightarrow> bool" where
  "individual_limit_valid v = (case v of None \<Rightarrow> False | Some w \<Rightarrow> w = JNull
     \<or> is_plain_object w \<and> has_exact_keys w [''limit'', ''remainingPercent'', ''resetsAt'', ''used'']
       \<and> bounded_string_value (get_prop w ''limit'') 128 \<and> bounded_string_value (get_prop w ''used'') 128
       \<and> integer_between (get_prop w ''remainingPercent'') 0 100
       \<and> integer_between (get_prop w ''resetsAt'') 0 max_safe_integer)"

definition reached_type_valid :: "json option \<Rightarrow> bool" where
  "reached_type_valid v = (case v of Some JNull \<Rightarrow> True
     | Some (JStr s) \<Rightarrow> s \<in> set (map js rate_limit_reached_types) | _ \<Rightarrow> False)"

definition runRateLimitSnapshotError :: "json \<Rightarrow> string option" where
  "runRateLimitSnapshotError v =
     (if \<not> is_plain_object v
         \<or> \<not> has_exact_keys v [''credits'', ''individualLimit'', ''limitId'', ''limitName'',
              ''planType'', ''primary'', ''rateLimitReachedType'', ''secondary'']
      then Some ''rate_limit_snapshot_invalid''
      else if \<not> nullable_string (get_prop v ''limitId'') 128
         \<or> \<not> nullable_string (get_prop v ''limitName'') 256
         \<or> \<not> nullable_string (get_prop v ''planType'') 64
         \<or> \<not> window_valid (get_prop v ''primary'') \<or> \<not> window_valid (get_prop v ''secondary'')
         \<or> \<not> credits_valid (get_prop v ''credits'')
         \<or> \<not> individual_limit_valid (get_prop v ''individualLimit'')
         \<or> \<not> reached_type_valid (get_prop v ''rateLimitReachedType'')
      then Some ''rate_limit_snapshot_invalid''
      else None)"

section \<open>Workspace change summaries\<close>

text \<open>The tests on one path of the loop, up to the limit on its bytes.\<close>

definition workspace_path_ok :: "js_string \<Rightarrow> bool" where
  "workspace_path_ok p \<longleftrightarrow> 1 \<le> length p \<and> take 1 p \<noteq> [47]
     \<and> \<not> list_ex is_control_or_delete p
     \<and> \<not> list_ex (\<lambda>q. q = [] \<or> q = [46] \<or> q = [46, 46]) (split_at 47 p)
     \<and> utf8_length p \<le> 4096"

text \<open>The loop: every element is a string and a valid path; the paths it collects.\<close>

fun collect_paths :: "json list \<Rightarrow> js_string list option" where
  "collect_paths [] = Some []"
| "collect_paths (v # vs) = (case v of
     JStr p \<Rightarrow> if workspace_path_ok p then map_option (\<lambda>ps. p # ps) (collect_paths vs) else None
   | _ \<Rightarrow> None)"

text \<open>\<open>paths.some((path, index) => index > 0 && paths[index - 1] >= path)\<close>\<close>

fun some_not_ascending :: "js_string list \<Rightarrow> bool" where
  "some_not_ascending [] = False"
| "some_not_ascending [p] = False"
| "some_not_ascending (p # q # ps) = (p \<ge> q \<or> some_not_ascending (q # ps))"

definition workspace_change_error :: js_error where
  "workspace_change_error = PlainError ''workspace_change_summary_invalid''"

definition is_zero :: "json option \<Rightarrow> bool" where
  "is_zero v \<longleftrightarrow> safe_integer_value v = Some 0"

definition validateWorkspaceChangeSummary :: "json \<Rightarrow> check" where
  "validateWorkspaceChangeSummary v = (case get_prop v ''paths'' of
     Some (JArr raw) \<Rightarrow> first_throw
      [throw_if (\<not> is_plain_object v
          \<or> \<not> has_exact_keys v [''additions'', ''deletions'', ''paths'', ''schemaVersion'', ''statsComplete'']
          \<or> get_prop v ''schemaVersion'' \<noteq> Some (JStr (js ''crewon.workspace-change-summary.v0''))
          \<or> \<not> integer_between (get_prop v ''additions'') 0 max_safe_integer
          \<or> \<not> integer_between (get_prop v ''deletions'') 0 max_safe_integer
          \<or> \<not> is_boolean (get_prop v ''statsComplete'')
          \<or> 256 < length raw) workspace_change_error,
       (case collect_paths raw of None \<Rightarrow> Some workspace_change_error
        | Some paths \<Rightarrow> throw_if
            (65536 < sum_list (map utf8_length paths)
             \<or> length (remdups paths) \<noteq> length paths
             \<or> some_not_ascending paths
             \<or> get_prop v ''statsComplete'' = Some (JBool False)
               \<and> (paths \<noteq> [] \<or> \<not> is_zero (get_prop v ''additions'') \<or> \<not> is_zero (get_prop v ''deletions''))
             \<or> 16384 < utf8_length (stringify v)) workspace_change_error)]
   | _ \<Rightarrow> Some workspace_change_error)"

lemma some_not_ascending_iff: "\<not> some_not_ascending ps \<longleftrightarrow> sorted_wrt (<) ps"
proof (induction ps rule: some_not_ascending.induct)
  case (3 p q ps)
  have "sorted_wrt (<) (p # q # ps) \<longleftrightarrow> p < q \<and> sorted_wrt (<) (q # ps)"
    by (rule sorted_wrt2) simp
  with 3 show ?case by (auto simp: not_le)
qed simp_all

lemma collect_paths_ok: "collect_paths vs = Some ps \<Longrightarrow>
    vs = map JStr ps \<and> (\<forall>p\<in>set ps. workspace_path_ok p)"
  by (induction vs arbitrary: ps) (auto split: json.splits if_splits)

section \<open>Provider continuation and turn state\<close>

definition continuation_item_ok :: "json \<Rightarrow> bool" where
  "continuation_item_ok v = (case v of
     JStr s \<Rightarrow> \<not> is_blank s \<and> length s \<le> 512 \<and> \<not> list_ex (\<lambda>u. u \<le> 31) s
   | _ \<Rightarrow> False)"

definition isEmptyProviderContinuationSource :: "json \<Rightarrow> bool" where
  "isEmptyProviderContinuationSource v = (case v of
     JObj ps \<Rightarrow> join_commas (sort (map fst ps)) = js ''attemptId,contextRevision,stepId''
        \<and> list_all (\<lambda>p. continuation_item_ok (snd p)) ps
   | _ \<Rightarrow> False)"

text \<open>\<open>/[^\x20-\x2b\x2d-\x7e]/u\<close>: anything but printable ASCII without the comma.\<close>

definition is_turn_state_unit :: "nat \<Rightarrow> bool" where
  "is_turn_state_unit u \<longleftrightarrow> 32 \<le> u \<and> u \<le> 43 \<or> 45 \<le> u \<and> u \<le> 126"

definition validateProviderTurnState :: "js_string option \<Rightarrow> check" where
  "validateProviderTurnState v = (case v of None \<Rightarrow> None
     | Some s \<Rightarrow> throw_if (length s = 0 \<or> 4096 < length s \<or> \<not> list_all is_turn_state_unit s)
         ProviderTurnStateError)"

section \<open>Cache reporting\<close>

text \<open>
  \<open>cacheReadReportingError\<close>: the cached token count, when present, is a non-negative safe
  integer; a report flag that is \<open>true\<close> needs the count, one that is \<open>false\<close> needs it
  to be absent or zero.
\<close>

definition cacheReadReportingError :: "int option \<Rightarrow> json option \<Rightarrow> string option" where
  "cacheReadReportingError cached reported =
     (if (case cached of None \<Rightarrow> False | Some c \<Rightarrow> \<not> is_safe_integer c \<or> c < 0)
         \<or> reported \<noteq> None \<and> \<not> is_boolean reported
         \<or> reported = Some (JBool True)
            \<and> (case cached of None \<Rightarrow> True | Some c \<Rightarrow> \<not> is_safe_integer c \<or> c < 0)
         \<or> reported = Some (JBool False) \<and> nullish cached 0 \<noteq> 0
      then Some ''usage_cache_reporting_invalid'' else None)"

section \<open>Automation invocation origin\<close>

definition max_automation_instruction_bytes :: nat where
  "max_automation_instruction_bytes = 9999"

record automation_invocation_binding =
  automationId :: js_string
  automationRevision :: int
  definitionDigest :: js_string
  instructionDigest :: js_string
  invocationId :: js_string
  bindingRunId :: js_string
  routeDigest :: js_string

definition require_opaque_id_value :: "json option \<Rightarrow> string \<Rightarrow> js_string res" where
  "require_opaque_id_value v code = (case v of
     Some (JStr s) \<Rightarrow> if matches_opaque_id 511 s then Inr s else Inl (AutomationDefinitionError code)
   | _ \<Rightarrow> Inl (AutomationDefinitionError code))"

definition digest_value :: "json option \<Rightarrow> js_string option" where
  "digest_value v = (case v of
     Some (JStr s) \<Rightarrow> if matches_digest s then Some s else None | _ \<Rightarrow> None)"

definition parseAutomationInvocationBinding :: "json option \<Rightarrow> automation_invocation_binding res" where
  "parseAutomationInvocationBinding input =
    (let bad = AutomationDefinitionError ''automation_invocation_binding_invalid'' in
     case input of None \<Rightarrow> Inl bad
     | Some v \<Rightarrow> guarded
        [throw_if (\<not> is_plain_object v) bad,
         throw_if (\<not> has_exact_keys v [''automationId'', ''automationRevision'', ''definitionDigest'',
            ''instructionDigest'', ''invocationId'', ''routeDigest'', ''runId'']) bad,
         throw_if (get_prop v ''automationRevision'' \<noteq> Some (JNum (Whole 1))
            \<or> digest_value (get_prop v ''definitionDigest'') = None
            \<or> digest_value (get_prop v ''instructionDigest'') = None
            \<or> digest_value (get_prop v ''routeDigest'') = None) bad]
        (then_do (require_opaque_id_value (get_prop v ''automationId'') ''automation_invocation_binding_invalid'') (\<lambda>a.
         then_do (require_opaque_id_value (get_prop v ''invocationId'') ''automation_invocation_binding_invalid'') (\<lambda>i.
         then_do (require_opaque_id_value (get_prop v ''runId'') ''automation_invocation_binding_invalid'') (\<lambda>r.
           Inr \<lparr>automationId = a, automationRevision = 1,
             definitionDigest = the (digest_value (get_prop v ''definitionDigest'')),
             instructionDigest = the (digest_value (get_prop v ''instructionDigest'')),
             invocationId = i, bindingRunId = r,
             routeDigest = the (digest_value (get_prop v ''routeDigest''))\<rparr>)))))"

text \<open>The origin is \<open>{ kind: "automation", binding }\<close>; the model keeps the binding.\<close>

definition parseAutomationInvocationOrigin :: "json \<Rightarrow> automation_invocation_binding res" where
  "parseAutomationInvocationOrigin v =
    (let bad = AutomationDefinitionError ''automation_invocation_origin_invalid'' in
     guarded
       [throw_if (\<not> is_plain_object v) bad,
        throw_if (\<not> has_exact_keys v [''binding'', ''kind'']) bad,
        throw_if (get_prop v ''kind'' \<noteq> Some (JStr (js ''automation''))) bad]
       (case parseAutomationInvocationBinding (get_prop v ''binding'') of
          Inl _ \<Rightarrow> Inl bad | Inr b \<Rightarrow> Inr b))"

section \<open>Workflow identities\<close>

text \<open>\<open>requireId\<close> of \<open>workflow-version.ts\<close>; for this pattern bytes and units agree.\<close>

definition parseWorkflowVersionIdentityId :: "js_string \<Rightarrow> string \<Rightarrow> js_string res" where
  "parseWorkflowVersionIdentityId s code =
     (if 512 < utf8_length s \<or> \<not> matches_opaque_id (length s) s
      then Inl (WorkflowVersionError code) else Inr s)"

section \<open>What an accepted value satisfies\<close>

text \<open>
  A workspace change summary that is accepted lists at most 256 paths in strictly ascending
  order, every one relative, without empty, \<open>.\<close> or \<open>..\<close> segments and without control
  characters, and the whole summary has at most 16384 bytes.
\<close>

theorem workspace_summary_accepted:
  assumes "validateWorkspaceChangeSummary v = None"
  shows "\<exists>paths. get_prop v ''paths'' = Some (JArr (map JStr paths)) \<and> length paths \<le> 256
    \<and> sorted_wrt (<) paths \<and> distinct paths \<and> utf8_length (stringify v) \<le> 16384
    \<and> (\<forall>p\<in>set paths. p \<noteq> [] \<and> hd p \<noteq> 47 \<and> utf8_length p \<le> 4096 \<and> (\<forall>u\<in>set p. \<not> is_control_or_delete u)
        \<and> (\<forall>q\<in>set (split_at 47 p). q \<notin> {[], [46], [46, 46]}))"
proof -
  from assms obtain raw where raw: "get_prop v ''paths'' = Some (JArr raw)"
    by (auto simp: validateWorkspaceChangeSummary_def split: option.splits json.splits)
  with assms have len: "length raw \<le> 256"
    by (simp add: validateWorkspaceChangeSummary_def)
  from assms raw obtain paths where c: "collect_paths raw = Some paths"
    by (cases "collect_paths raw") (simp_all add: validateWorkspaceChangeSummary_def)
  have p: "\<not> some_not_ascending paths" "length (remdups paths) = length paths" "utf8_length (stringify v) \<le> 16384"
    using assms raw c by (simp_all add: validateWorkspaceChangeSummary_def)
  have ok: "p \<noteq> [] \<and> hd p \<noteq> 47 \<and> utf8_length p \<le> 4096 \<and> (\<forall>u\<in>set p. \<not> is_control_or_delete u)
      \<and> (\<forall>q\<in>set (split_at 47 p). q \<notin> {[], [46], [46, 46]})" if "p \<in> set paths" for p
    using collect_paths_ok [OF c] that by (cases p) (auto simp: workspace_path_ok_def list_ex_iff)
  have "sorted_wrt (<) paths" using p(1) by (simp only: some_not_ascending_iff)
  moreover have "distinct paths" using p(2) by (simp add: length_remdups_eq)
  ultimately show ?thesis
    using raw len p(3) ok collect_paths_ok [OF c] by (intro exI [of _ paths]) simp
qed

text \<open>
  The keys of a continuation source are compared after joining them with commas, so an object with
  fewer keys is accepted when one of them contains a comma.
\<close>

lemma continuation_source_comma_key:
  "isEmptyProviderContinuationSource
     (JObj [(js ''attemptId,contextRevision'', JStr (js ''a'')), (js ''stepId'', JStr (js ''s''))])"
  by (simp add: isEmptyProviderContinuationSource_def continuation_item_ok_def string_eval)

definition sample_summary :: json where
  "sample_summary = JObj [(js ''additions'', JNum (Whole 1)), (js ''deletions'', JNum (Whole 0)),
     (js ''paths'', JArr [JStr (js ''a.ts''), JStr (js ''src/b.ts'')]),
     (js ''schemaVersion'', JStr (js ''crewon.workspace-change-summary.v0'')), (js ''statsComplete'', JBool True)]"

lemma sample_summary_valid: "validateWorkspaceChangeSummary sample_summary = None"
  by (simp add: validateWorkspaceChangeSummary_def sample_summary_def get_prop_def is_plain_object_def has_exact_keys_def
      own_keys_def integer_between_def safe_integer_value_def is_boolean_def is_zero_def workspace_path_ok_def
      is_control_or_delete_def safe_integer_defs string_eval)

theorem workspace_summary_accepted_witness:
  "\<exists>paths. get_prop sample_summary ''paths'' = Some (JArr (map JStr paths)) \<and> distinct paths"
  using workspace_summary_accepted [OF sample_summary_valid] by blast

end
