(* ===== verification/Run_Plans.thy ===== *)
theory Run_Plans
  imports Js_Values Timestamps
begin

text \<open>
  The execution checklist of a Run, \<open>run-plan.ts\<close>: the plan, its validator and the
  content comparison.  A status outside the declared union is \<open>OtherPlanStatus\<close>; the
  tests that a value is an object with the declared keys hold by typing.
\<close>

section \<open>Data\<close>

datatype run_plan_status =
    PlanPending | PlanInProgress | PlanCompleted | PlanBlocked | PlanCanceled
  | OtherPlanStatus js_string

definition run_plan_status_text :: "run_plan_status \<Rightarrow> js_string" where
  "run_plan_status_text s = (case s of PlanPending \<Rightarrow> js ''pending'' | PlanInProgress \<Rightarrow> js ''inProgress''
     | PlanCompleted \<Rightarrow> js ''completed'' | PlanBlocked \<Rightarrow> js ''blocked'' | PlanCanceled \<Rightarrow> js ''canceled''
     | OtherPlanStatus t \<Rightarrow> t)"

record run_plan_item =
  pi_itemId :: js_string
  pi_title :: js_string
  pi_status :: run_plan_status

record run_plan =
  rp_schemaVersion :: js_string
  rp_planId :: js_string
  rp_revision :: int
  rp_explanation :: "js_string option"
  rp_items :: "run_plan_item list"
  rp_createdAt :: js_string
  rp_updatedAt :: js_string

definition max_run_plan_items :: nat where
  "max_run_plan_items = 32"

definition max_run_plan_snapshot_bytes :: nat where
  "max_run_plan_snapshot_bytes = 9999"

section \<open>Validation\<close>

text \<open>\<open>/[\u0000-\u0008\u000b\u000c\u000e-\u001f\u007f]/u\<close>\<close>

definition is_plan_control :: "nat \<Rightarrow> bool" where
  "is_plan_control u \<longleftrightarrow> u \<le> 8 \<or> u = 11 \<or> u = 12 \<or> 14 \<le> u \<and> u \<le> 31 \<or> u = 127"

definition require_bounded_text :: "js_string \<Rightarrow> nat \<Rightarrow> nat \<Rightarrow> string \<Rightarrow> check" where
  "require_bounded_text s maxChars maxBytes code =
     throw_if (is_blank s \<or> s \<noteq> js_trim s \<or> maxChars < code_point_count s
       \<or> maxBytes < utf8_length s \<or> list_ex is_plan_control s) (RunPlanError code)"

text \<open>\<open>^[a-z0-9][a-z0-9._-]{0,63}$\<close>\<close>

definition is_item_id_tail :: "nat \<Rightarrow> bool" where
  "is_item_id_tail u \<longleftrightarrow> is_lower u \<or> is_digit u \<or> u = 46 \<or> u = 95 \<or> u = 45"

definition matches_item_id :: "js_string \<Rightarrow> bool" where
  "matches_item_id s = (case s of [] \<Rightarrow> False
     | u # t \<Rightarrow> (is_lower u \<or> is_digit u) \<and> length t \<le> 63 \<and> list_all is_item_id_tail t)"

definition plan_require_timestamp :: "js_string \<Rightarrow> string \<Rightarrow> check" where
  "plan_require_timestamp s code = throw_if (\<not> is_timestamp s) (RunPlanError code)"

text \<open>The loop over the items: the identifiers seen so far and the items in progress.\<close>

fun check_plan_items :: "js_string list \<Rightarrow> nat \<Rightarrow> run_plan_item list \<Rightarrow> nat res" where
  "check_plan_items seen inProgress [] = Inr inProgress"
| "check_plan_items seen inProgress (item # items) = guarded
     [throw_if (\<not> matches_item_id (pi_itemId item) \<or> pi_itemId item \<in> set seen)
        (RunPlanError ''run_plan_item_id_invalid''),
      require_bounded_text (pi_title item) 256 1024 ''run_plan_item_title_invalid'',
      throw_if (case pi_status item of OtherPlanStatus _ \<Rightarrow> True | _ \<Rightarrow> False)
        (RunPlanError ''run_plan_item_status_invalid'')]
     (check_plan_items (pi_itemId item # seen)
        (if pi_status item = PlanInProgress then inProgress + 1 else inProgress) items)"

text \<open>The plan as \<open>JSON.stringify\<close> sees it; the size does not depend on the key order.\<close>

definition plan_item_json :: "run_plan_item \<Rightarrow> json" where
  "plan_item_json i = JObj [(js ''itemId'', JStr (pi_itemId i)), (js ''title'', JStr (pi_title i)),
     (js ''status'', JStr (run_plan_status_text (pi_status i)))]"

definition run_plan_json :: "run_plan \<Rightarrow> json" where
  "run_plan_json p = JObj
     [(js ''schemaVersion'', JStr (rp_schemaVersion p)), (js ''planId'', JStr (rp_planId p)),
      (js ''revision'', JNum (Whole (rp_revision p))),
      (js ''explanation'', (case rp_explanation p of None \<Rightarrow> JNull | Some e \<Rightarrow> JStr e)),
      (js ''items'', JArr (map plan_item_json (rp_items p))),
      (js ''createdAt'', JStr (rp_createdAt p)), (js ''updatedAt'', JStr (rp_updatedAt p))]"

definition validateRunPlan :: "run_plan \<Rightarrow> check" where
  "validateRunPlan p = first_throw
     [throw_if (rp_schemaVersion p \<noteq> js ''crewon.run-plan.v0'') (RunPlanError ''run_plan_shape_invalid''),
      require_bounded_text (rp_planId p) 512 512 ''run_plan_id_invalid'',
      throw_if (\<not> positive_safe_integer (rp_revision p)) (RunPlanError ''run_plan_revision_invalid''),
      plan_require_timestamp (rp_createdAt p) ''run_plan_created_at_invalid'',
      plan_require_timestamp (rp_updatedAt p) ''run_plan_updated_at_invalid'',
      throw_if (date_less (iso_time (rp_updatedAt p)) (iso_time (rp_createdAt p)))
        (RunPlanError ''run_plan_timestamp_order_invalid''),
      when_some (rp_explanation p) (\<lambda>e. require_bounded_text e 1000 4000 ''run_plan_explanation_invalid''),
      throw_if (length (rp_items p) < 1 \<or> max_run_plan_items < length (rp_items p))
        (RunPlanError ''run_plan_items_invalid''),
      (case check_plan_items [] 0 (rp_items p) of Inl e \<Rightarrow> Some e
       | Inr n \<Rightarrow> throw_if (1 < n) (RunPlanError ''run_plan_multiple_items_in_progress'')),
      throw_if (max_run_plan_snapshot_bytes < utf8_length (stringify (run_plan_json p)))
        (RunPlanError ''run_plan_snapshot_too_large'')]"

lemma run_plan_item_eq_iff: "i = j \<longleftrightarrow> pi_itemId i = pi_itemId j \<and> pi_title i = pi_title j
    \<and> pi_status i = pi_status (j :: run_plan_item)"
  by (cases i; cases j) simp

definition sameRunPlanContent ::
    "js_string option \<times> run_plan_item list \<Rightarrow> js_string option \<times> run_plan_item list \<Rightarrow> bool" where
  "sameRunPlanContent l r =
     (if fst l \<noteq> fst r \<or> length (snd l) \<noteq> length (snd r) then False
      else list_all (\<lambda>(item, candidate). pi_itemId item = pi_itemId candidate
          \<and> pi_title item = pi_title candidate \<and> pi_status item = pi_status candidate)
        (zip (snd l) (snd r)))"

section \<open>What an accepted plan satisfies\<close>

lemma check_plan_items_ok:
  assumes "check_plan_items seen n items = Inr k"
  shows "distinct (map pi_itemId items) \<and> set (map pi_itemId items) \<inter> set seen = {}
    \<and> k = n + length (filter (\<lambda>i. pi_status i = PlanInProgress) items)"
  using assms
proof (induction items arbitrary: seen n)
  case (Cons i items)
  from Cons.prems have step: "check_plan_items (pi_itemId i # seen)
      (if pi_status i = PlanInProgress then n + 1 else n) items = Inr k"
    and "pi_itemId i \<notin> set seen" by auto
  with Cons.IH [OF step] show ?case by auto
qed simp

definition plan_in_progress :: "run_plan \<Rightarrow> run_plan_item list" where
  "plan_in_progress p = filter (\<lambda>i. pi_status i = PlanInProgress) (rp_items p)"

text \<open>
  A plan the validator accepts has between one and 32 items with pairwise different
  identifiers, at most one of them in progress, and a snapshot of at most 9999 bytes.
\<close>

theorem run_plan_accepted:
  assumes "validateRunPlan p = None"
  shows "distinct (map pi_itemId (rp_items p)) \<and> length (plan_in_progress p) \<le> 1
    \<and> 1 \<le> length (rp_items p) \<and> length (rp_items p) \<le> 32
    \<and> utf8_length (stringify (run_plan_json p)) \<le> 9999"
proof -
  from assms obtain n where items: "check_plan_items [] 0 (rp_items p) = Inr n"
    and n: "n \<le> 1" and rest: "1 \<le> length (rp_items p)" "length (rp_items p) \<le> 32"
      "utf8_length (stringify (run_plan_json p)) \<le> 9999"
    by (auto simp: validateRunPlan_def max_run_plan_items_def max_run_plan_snapshot_bytes_def
        not_less Suc_le_eq split: sum.splits)
  from check_plan_items_ok [OF items] n rest show ?thesis
    by (simp add: plan_in_progress_def)
qed

text \<open>
  The content comparison is equality of explanation and items: it accepts exactly the
  pairs of plans that agree on both.
\<close>

theorem same_run_plan_content_iff: "sameRunPlanContent l r \<longleftrightarrow> l = r"
proof -
  have "list_all (\<lambda>(item, candidate). pi_itemId item = pi_itemId candidate
          \<and> pi_title item = pi_title candidate \<and> pi_status item = pi_status candidate) (zip xs ys)
      \<longleftrightarrow> xs = ys" if "length xs = length ys" for xs ys :: "run_plan_item list"
    using that
    by (induction xs ys rule: list_induct2) (auto simp: run_plan_item_eq_iff)
  then show ?thesis
    by (cases l; cases r) (auto simp: sameRunPlanContent_def)
qed

section \<open>An accepted plan\<close>

definition sample_time :: js_string where
  "sample_time = js ''2026-01-02T03:04:05.678Z''"

lemma sample_time_value: "iso_time sample_time = Some 1767323045678"
  by code_simp

definition sample_plan :: run_plan where
  "sample_plan = \<lparr>rp_schemaVersion = js ''crewon.run-plan.v0'', rp_planId = js ''run-1'',
     rp_revision = 1, rp_explanation = None,
     rp_items = [\<lparr>pi_itemId = js ''a'', pi_title = js ''First'', pi_status = PlanInProgress\<rparr>],
     rp_createdAt = sample_time, rp_updatedAt = sample_time\<rparr>"

lemma sample_plan_size: "utf8_length (stringify (run_plan_json sample_plan)) \<le> 9999"
  by (simp add: sample_plan_def run_plan_json_def plan_item_json_def sample_time_def
      run_plan_status_text_def string_eval)

lemma sample_plan_valid: "validateRunPlan sample_plan = None"
proof -
  have "is_timestamp sample_time" by (simp add: is_timestamp_iff sample_time_value)
  moreover have "check_plan_items [] 0 (rp_items sample_plan) = Inr 1"
    by (simp add: sample_plan_def require_bounded_text_def matches_item_id_def js_trim_def
        is_plan_control_def is_lower_def string_eval)
  moreover have "require_bounded_text (js ''run-1'') 512 512 c = None" for c
    by (simp add: require_bounded_text_def js_trim_def is_plan_control_def string_eval)
  ultimately show ?thesis
    using sample_plan_size
    by (simp add: validateRunPlan_def max_run_plan_items_def max_run_plan_snapshot_bytes_def
        plan_require_timestamp_def safe_integer_defs) (simp add: sample_plan_def sample_time_value)
qed

theorem run_plan_accepted_witness:
  "validateRunPlan sample_plan = None \<and> length (plan_in_progress sample_plan) \<le> 1"
  using run_plan_accepted [of sample_plan] sample_plan_valid by simp

end
