(* ===== verification/Run_Types.thy ===== *)
theory Run_Types
  imports Run_Values Run_Plans
begin

text \<open>
  The data shared by \<open>run-lifecycle.ts\<close>, \<open>run-goal-accounting.ts\<close> and
  \<open>thread-goal.ts\<close>, whose types refer to each other.  Every record has a prefix for its
  fields: \<open>rs\<close> for a \<open>RunState\<close>, \<open>ac\<close> for an accounting cursor, \<open>gb\<close> for a goal
  binding, \<open>ga\<close> for an attribution, \<open>ho\<close> for a steering handoff, \<open>tg\<close> for a
  \<open>ThreadGoal\<close>.  A nullable or optional field is an \<open>option\<close>.  Where the code tests at
  run time that a value is in its declared union, the datatype has a constructor for a value
  outside it, so that the rejecting branch is part of the model.
\<close>

section \<open>Runs\<close>

datatype run_status =
    SQueued | SRunning | SWaitingApproval | SSuspended | SReconciling
  | SCompleted | SFailed | SCanceled

definition run_status_text :: "run_status \<Rightarrow> string" where
  "run_status_text s = (case s of SQueued \<Rightarrow> ''queued'' | SRunning \<Rightarrow> ''running''
     | SWaitingApproval \<Rightarrow> ''waitingApproval'' | SSuspended \<Rightarrow> ''suspended''
     | SReconciling \<Rightarrow> ''reconciling'' | SCompleted \<Rightarrow> ''completed'' | SFailed \<Rightarrow> ''failed''
     | SCanceled \<Rightarrow> ''canceled'')"

text \<open>The statuses are an enumeration, so statements over all of them are decided by evaluation.\<close>

instantiation run_status :: enum
begin

definition enum_run_status :: "run_status list" where
  "enum_run_status = [SQueued, SRunning, SWaitingApproval, SSuspended, SReconciling,
     SCompleted, SFailed, SCanceled]"

definition enum_all_run_status :: "(run_status \<Rightarrow> bool) \<Rightarrow> bool" where
  "enum_all_run_status P \<longleftrightarrow> list_all P enum_class.enum"

definition enum_ex_run_status :: "(run_status \<Rightarrow> bool) \<Rightarrow> bool" where
  "enum_ex_run_status P \<longleftrightarrow> list_ex P enum_class.enum"

instance
proof
  show univ: "(UNIV :: run_status set) = set enum_class.enum"
    by (auto simp: enum_run_status_def) (metis run_status.exhaust)
  show "distinct (enum_class.enum :: run_status list)"
    by (simp add: enum_run_status_def)
  fix P :: "run_status \<Rightarrow> bool"
  show "enum_class.enum_all P \<longleftrightarrow> Ball UNIV P"
    by (simp add: enum_all_run_status_def list_all_iff univ)
  show "enum_class.enum_ex P \<longleftrightarrow> Bex UNIV P"
    by (simp add: enum_ex_run_status_def list_ex_iff univ)
qed

end

datatype run_purpose = TurnPurpose | ManualCompaction | WorkflowPurpose | OtherPurpose js_string

datatype tool_permission_mode =
    RequestApproval | ApproveForMe | FullAccess | OtherPermissionMode js_string

datatype collaboration_mode = DefaultMode | PlanMode | OtherMode js_string

datatype goal_continuation_mode = Deferred | OtherContinuation js_string

record run_usage =
  inputTokens :: int
  cachedInputTokens :: int
  outputTokens :: int
  totalTokens :: int

definition zeroUsage :: run_usage where
  "zeroUsage = \<lparr>inputTokens = 0, cachedInputTokens = 0, outputTokens = 0, totalTokens = 0\<rparr>"

record workflow_version_binding =
  wv_workflowId :: js_string
  wv_workflowVersionId :: js_string
  wv_contentDigest :: js_string

section \<open>Goals\<close>

datatype goal_status =
    GoalActive | GoalPaused | GoalBlocked | GoalUsageLimited | GoalBudgetLimited | GoalComplete
  | OtherGoalStatus js_string

record thread_goal =
  tg_schemaVersion :: js_string
  tg_tenantId :: js_string
  tg_threadId :: js_string
  tg_goalId :: js_string
  tg_revision :: int
  tg_objective :: js_string
  tg_status :: goal_status
  tg_tokenBudget :: "int option"
  tg_tokensUsed :: int
  tg_timeUsedSeconds :: int
  tg_createdAt :: js_string
  tg_updatedAt :: js_string

record run_goal_binding =
  gb_goalId :: js_string
  gb_revision :: int
  gb_objectiveDigest :: js_string

datatype terminal_outcome = OutcomeCompleted | OutcomeCanceled | OutcomeFailed js_string

section \<open>Goal accounting\<close>

record run_goal_attribution =
  ga_goalId :: js_string
  ga_goalRevision :: int
  ga_objectiveDigest :: js_string

datatype steering_kind = ObjectiveUpdated | BudgetLimitedSteering | OtherSteering js_string

record run_goal_steering_handoff =
  ho_handoffId :: js_string
  ho_kind :: steering_kind
  ho_target :: run_goal_binding
  ho_createdAt :: js_string

record run_goal_accounting_cursor =
  ac_schemaVersion :: js_string
  ac_revision :: int
  ac_policy :: js_string
  ac_throughRunSequence :: int
  ac_accountedUsage :: run_usage
  ac_timeBaselineAt :: "js_string option"
  ac_attribution :: "run_goal_attribution option"
  ac_pendingSteering :: "run_goal_steering_handoff option"
  ac_updatedAt :: js_string

section \<open>The state of a Run\<close>

record waiting_approval =
  wa_approvalId :: js_string
  wa_actionDigest :: js_string

record run_failure =
  rf_code :: js_string
  rf_retryable :: bool

record run_state =
  rs_runId :: js_string
  rs_threadId :: js_string
  rs_tenantId :: js_string
  rs_spaceId :: js_string
  rs_createdByActorId :: js_string
  rs_authorityId :: js_string
  rs_runtimeGeneration :: js_string
  rs_agentVersionId :: js_string
  rs_policySnapshotId :: js_string
  rs_workspaceBindingId :: "js_string option"
  rs_workflowVersionBinding :: "workflow_version_binding option"
  rs_collaborationMode :: collaboration_mode
  rs_toolPermissionMode :: "tool_permission_mode option"
  rs_purpose :: "run_purpose option"
  rs_origin :: "automation_invocation_binding option"
  rs_goalBinding :: "run_goal_binding option"
  rs_goalContinuationMode :: "goal_continuation_mode option"
  rs_goalAccounting :: "run_goal_accounting_cursor option"
  rs_plan :: "run_plan option"
  rs_usage :: run_usage
  rs_status :: run_status
  rs_revision :: int
  rs_lastSequence :: int
  rs_cancelRequested :: bool
  rs_waitingApproval :: "waiting_approval option"
  rs_suspensionReasonCode :: "js_string option"
  rs_reconciliationReceiptId :: "js_string option"
  rs_outputRef :: "js_string option"
  rs_failure :: "run_failure option"
  rs_createdAt :: js_string
  rs_updatedAt :: js_string
  rs_terminalAt :: "js_string option"

section \<open>A sample state\<close>

text \<open>A running Run bound to a goal, with 40 uncached input and 10 output tokens used.\<close>

definition sample_binding :: run_goal_binding where
  "sample_binding = \<lparr>gb_goalId = js ''g'', gb_revision = 1, gb_objectiveDigest = sample_digest\<rparr>"

definition sample_run :: run_state where
  "sample_run = \<lparr>rs_runId = js ''run-1'', rs_threadId = js ''th'', rs_tenantId = js ''t'',
     rs_spaceId = js ''s'', rs_createdByActorId = js ''a'', rs_authorityId = js ''au'',
     rs_runtimeGeneration = js ''ts-v0'', rs_agentVersionId = js ''av'', rs_policySnapshotId = js ''p'',
     rs_workspaceBindingId = None, rs_workflowVersionBinding = None, rs_collaborationMode = DefaultMode,
     rs_toolPermissionMode = None, rs_purpose = None, rs_origin = None,
     rs_goalBinding = Some sample_binding, rs_goalContinuationMode = None, rs_goalAccounting = None,
     rs_plan = None, rs_usage = \<lparr>inputTokens = 50, cachedInputTokens = 10, outputTokens = 10, totalTokens = 60\<rparr>,
     rs_status = SRunning, rs_revision = 3, rs_lastSequence = 3, rs_cancelRequested = False,
     rs_waitingApproval = None, rs_suspensionReasonCode = None, rs_reconciliationReceiptId = None,
     rs_outputRef = None, rs_failure = None, rs_createdAt = js ''2026-01-01T00:00:00Z'',
     rs_updatedAt = js ''2026-01-01T00:00:00Z'', rs_terminalAt = None\<rparr>"

lemma sample_run_simps [simp]:
  "rs_goalBinding sample_run = Some sample_binding" "rs_collaborationMode sample_run = DefaultMode"
  "rs_status sample_run = SRunning" "rs_runId sample_run = js ''run-1''"
  by (simp_all add: sample_run_def)

end
