(* ===== verification/Run_Events.thy ===== *)
theory Run_Events
  imports Run_Types
begin

text \<open>
  The events of a Run, \<open>RunLifecycleEvent\<close> of \<open>run-lifecycle.ts\<close>.  Every \<open>data\<close> object
  with more than two fields is a record; those of a segment extend \<open>segment_ref\<close>.  A field
  whose JavaScript type the reducer tests (\<open>typeof\<close>, a parser of \<open>unknown\<close>) is a
  dynamic value, \<open>None\<close> where the property is absent.
\<close>

section \<open>The data of the events\<close>

record run_created =
  rc_ownKeys :: "js_string list"
  rc_threadId :: js_string
  rc_tenantId :: js_string
  rc_spaceId :: js_string
  rc_createdByActorId :: js_string
  rc_authorityId :: js_string
  rc_runtimeGeneration :: js_string
  rc_agentVersionId :: js_string
  rc_policySnapshotId :: js_string
  rc_workspaceBindingId :: "js_string option"
  rc_workflowVersionBinding :: "json option"
  rc_collaborationMode :: collaboration_mode
  rc_toolPermissionMode :: "tool_permission_mode option"
  rc_goalBinding :: "run_goal_binding option"
  rc_goalContinuationMode :: "goal_continuation_mode option"
  rc_purpose :: "run_purpose option"
  rc_origin :: "json option"

record segment_ref =
  sg_segmentId :: js_string
  sg_segmentSequence :: int

record segment_started = segment_ref +
  ss_attempt :: int

record sampling_retry = segment_ref +
  sr_samplingAttempt :: int
  sr_maxRetries :: int
  sr_code :: js_string
  sr_discardedOutput :: "json option"

record transport_fallback = segment_ref +
  tf_fromTransport :: js_string
  tf_toTransport :: js_string
  tf_code :: js_string
  tf_discardedOutput :: "json option"

record output_delta = segment_ref +
  od_delta :: "json option"

datatype reasoning_kind = ReasoningDelta | ReasoningPartAdded | OtherReasoningKind js_string

record reasoning_summary = segment_ref +
  rm_kind :: reasoning_kind
  rm_summaryIndex :: int
  rm_delta :: "json option"

datatype tool_kind = FunctionTool | CustomTool | OtherToolKind js_string

record tool_ref = segment_ref +
  tl_callId :: js_string
  tl_kind :: tool_kind
  tl_name :: js_string

record tool_requested = tool_ref +
  tq_input :: "json option"

record tool_completed = tool_ref +
  tc_output :: "json option"
  tc_isError :: "json option"
  tc_artifactRef :: "js_string option"
  tc_outputTruncated :: "json option"
  tc_workspaceChanges :: "json option"

text \<open>The token counts of \<open>usage.recorded\<close> and \<open>context.compacted\<close>.\<close>

record event_usage =
  eu_inputTokens :: int
  eu_cachedInputTokens :: "int option"
  eu_cachedInputTokensReported :: "json option"
  eu_outputTokens :: int
  eu_totalTokens :: int

datatype compaction_mode = AutoCompaction | ManualMode | OtherCompactionMode js_string

record context_compacted =
  cc_stepId :: js_string
  cc_compactionItemId :: js_string
  cc_mode :: compaction_mode
  cc_replacesThroughSequence :: int
  cc_usage :: event_usage

record segment_checkpointed = segment_ref +
  sc_checkpointDigest :: js_string

record provider_continuation = segment_ref +
  pc_sampleIndex :: int
  pc_throughHistorySequence :: int
  pc_emptyContinuation :: "json option"

record segment_failed = segment_ref +
  sf_code :: js_string
  sf_retryable :: bool

record plan_proposed =
  pp_planId :: js_string
  pp_messageId :: js_string
  pp_messageSequence :: int
  pp_contentDigest :: js_string

datatype message_role = AssistantRole | OtherRole js_string

record message_completed =
  mc_messageId :: js_string
  mc_messageSequence :: int
  mc_role :: message_role
  mc_contentDigest :: js_string

section \<open>Events\<close>

datatype run_event_data =
    RunCreated run_created
  | RunStarted
  | RunApprovalRequired waiting_approval
  | RunResumed js_string
  | RunSuspended js_string
  | RunReconciliationRequired js_string
  | RunCancelRequested js_string
  | RunCompleted "js_string option"
  | RunFailed run_failure
  | RunCanceled js_string
  | RunGoalAccountingUpdated run_goal_accounting_cursor
  | RunGoalSteeringConsumed js_string
  | RunPlanUpdated "json option" run_plan
  | SegmentStarted segment_started
  | ModelSamplingRetry sampling_retry
  | ModelTransportFallback transport_fallback
  | ModelOutputDelta output_delta
  | ModelReasoningSummary reasoning_summary
  | ToolRequested tool_requested
  | ToolCompleted tool_completed
  | ContextCompacted context_compacted
  | RateLimitUpdated segment_ref json
  | UsageRecorded segment_ref event_usage
  | SegmentCheckpointed segment_checkpointed
  | SegmentCompleted segment_ref
  | SegmentProviderContinuation provider_continuation
  | SegmentFailed segment_failed
  | PlanProposed plan_proposed
  | MessageCompleted message_completed

record run_event =
  ev_schemaVersion :: js_string
  ev_runId :: js_string
  ev_eventId :: js_string
  ev_sequence :: int
  ev_occurredAt :: js_string
  ev_data :: run_event_data

text \<open>The \<open>type\<close> tag.\<close>

primrec event_type :: "run_event_data \<Rightarrow> string" where
  "event_type (RunCreated _) = ''run.created''"
| "event_type RunStarted = ''run.started''"
| "event_type (RunApprovalRequired _) = ''run.approval.required''"
| "event_type (RunResumed _) = ''run.resumed''"
| "event_type (RunSuspended _) = ''run.suspended''"
| "event_type (RunReconciliationRequired _) = ''run.reconciliation.required''"
| "event_type (RunCancelRequested _) = ''run.cancel.requested''"
| "event_type (RunCompleted _) = ''run.completed''"
| "event_type (RunFailed _) = ''run.failed''"
| "event_type (RunCanceled _) = ''run.canceled''"
| "event_type (RunGoalAccountingUpdated _) = ''run.goal.accounting.updated''"
| "event_type (RunGoalSteeringConsumed _) = ''run.goal.steering.consumed''"
| "event_type (RunPlanUpdated _ _) = ''run.plan.updated''"
| "event_type (SegmentStarted _) = ''segment.started''"
| "event_type (ModelSamplingRetry _) = ''model.sampling.retry''"
| "event_type (ModelTransportFallback _) = ''model.transport.fallback''"
| "event_type (ModelOutputDelta _) = ''model.output.delta''"
| "event_type (ModelReasoningSummary _) = ''model.reasoning.summary''"
| "event_type (ToolRequested _) = ''tool.requested''"
| "event_type (ToolCompleted _) = ''tool.completed''"
| "event_type (ContextCompacted _) = ''context.compacted''"
| "event_type (RateLimitUpdated _ _) = ''rate_limit.updated''"
| "event_type (UsageRecorded _ _) = ''usage.recorded''"
| "event_type (SegmentCheckpointed _) = ''segment.checkpointed''"
| "event_type (SegmentCompleted _) = ''segment.completed''"
| "event_type (SegmentProviderContinuation _) = ''segment.provider_continuation''"
| "event_type (SegmentFailed _) = ''segment.failed''"
| "event_type (PlanProposed _) = ''plan.proposed''"
| "event_type (MessageCompleted _) = ''message.completed''"

end
