(* ===== verification/Thread_Goals.thy ===== *)
theory Thread_Goals
  imports Run_Types
begin

text \<open>
  The pure part of \<open>thread-goal.ts\<close>: validation of a goal, the tokens a usage is charged
  for, the settlement of a goal by a Run without accounting cursor, and the projection of an
  objective into a prompt of bounded size.  The prompt templates themselves are the argument
  \<open>render\<close>, as they are in \<open>boundedThreadGoalObjectivePrompt\<close>.
\<close>

section \<open>Checks\<close>

definition thread_goal_accounting_policy :: js_string where
  "thread_goal_accounting_policy = js ''nonCachedInputPlusOutput.v1''"

definition max_thread_goal_objective_chars :: nat where
  "max_thread_goal_objective_chars = 4000"

definition max_steering_prompt_bytes :: nat where
  "max_steering_prompt_bytes = 9999"

definition goal_require_bounded_string :: "js_string \<Rightarrow> nat \<Rightarrow> string \<Rightarrow> check" where
  "goal_require_bounded_string s maximumBytes code =
     throw_if (is_blank s \<or> maximumBytes < utf8_length s) (ThreadGoalError code)"

definition goal_require_positive :: "int \<Rightarrow> string \<Rightarrow> check" where
  "goal_require_positive i code = throw_if (\<not> positive_safe_integer i) (ThreadGoalError code)"

definition goal_require_non_negative :: "int \<Rightarrow> string \<Rightarrow> check" where
  "goal_require_non_negative i code = throw_if (\<not> non_negative_safe_integer i) (ThreadGoalError code)"

definition goal_require_timestamp :: "js_string \<Rightarrow> string \<Rightarrow> check" where
  "goal_require_timestamp s code = throw_if (\<not> is_timestamp s) (ThreadGoalError code)"

text \<open>The characters (code points) of a string, as \<open>for (const c of s)\<close> visits them.\<close>

fun characters :: "js_string \<Rightarrow> js_string list" where
  "characters [] = []"
| "characters [u] = [[u]]"
| "characters (u # v # s) =
     (if is_high_surrogate u \<and> is_low_surrogate v then [u, v] # characters s
      else [u] # characters (v # s))"

definition is_lone_surrogate :: "js_string \<Rightarrow> bool" where
  "is_lone_surrogate c = (case c of [u] \<Rightarrow> 55296 \<le> u \<and> u \<le> 57343 | _ \<Rightarrow> False)"

text \<open>The loop of \<open>validateThreadGoalObjective\<close> with its character counter.\<close>

fun scan_objective :: "nat \<Rightarrow> js_string list \<Rightarrow> check" where
  "scan_objective n [] = None"
| "scan_objective n (c # cs) =
     (if is_lone_surrogate c then Some (ThreadGoalError ''goal_objective_invalid'')
      else if max_thread_goal_objective_chars < n + 1 then Some (ThreadGoalError ''goal_objective_invalid'')
      else scan_objective (n + 1) cs)"

definition validateThreadGoalObjective :: "js_string \<Rightarrow> check" where
  "validateThreadGoalObjective s = first_throw
     [throw_if (is_blank s) (ThreadGoalError ''goal_objective_invalid''),
      scan_objective 0 (characters s)]"

definition validateThreadGoal :: "thread_goal \<Rightarrow> check" where
  "validateThreadGoal g = first_throw
     [throw_if (tg_schemaVersion g \<noteq> js ''crewon.thread-goal.v0'')
        (ThreadGoalError ''goal_schema_version_unsupported''),
      goal_require_bounded_string (tg_tenantId g) 256 ''goal_tenant_id_invalid'',
      goal_require_bounded_string (tg_threadId g) 512 ''goal_thread_id_invalid'',
      goal_require_bounded_string (tg_goalId g) 512 ''goal_id_invalid'',
      goal_require_positive (tg_revision g) ''goal_revision_invalid'',
      validateThreadGoalObjective (tg_objective g),
      throw_if (case tg_status g of OtherGoalStatus _ \<Rightarrow> True | _ \<Rightarrow> False)
        (ThreadGoalError ''goal_status_invalid''),
      when_some (tg_tokenBudget g) (\<lambda>b. goal_require_positive b ''goal_token_budget_invalid''),
      goal_require_non_negative (tg_tokensUsed g) ''goal_tokens_used_invalid'',
      goal_require_non_negative (tg_timeUsedSeconds g) ''goal_time_used_seconds_invalid'',
      goal_require_timestamp (tg_createdAt g) ''goal_created_at_invalid'',
      goal_require_timestamp (tg_updatedAt g) ''goal_updated_at_invalid'',
      throw_if (date_less (iso_time (tg_updatedAt g)) (iso_time (tg_createdAt g)))
        (ThreadGoalError ''goal_timestamp_order_invalid'')]"

definition validateRunGoalBinding :: "run_goal_binding \<Rightarrow> check" where
  "validateRunGoalBinding b = first_throw
     [goal_require_bounded_string (gb_goalId b) 512 ''goal_id_invalid'',
      goal_require_positive (gb_revision b) ''goal_revision_invalid'',
      throw_if (\<not> matches_digest (gb_objectiveDigest b)) (ThreadGoalError ''goal_objective_digest_invalid'')]"

definition isGoalRunnable :: "goal_status \<Rightarrow> bool" where
  "isGoalRunnable s \<longleftrightarrow> s = GoalActive"

section \<open>Charging\<close>

definition addSafeIntegers :: "int \<Rightarrow> int \<Rightarrow> string \<Rightarrow> int res" where
  "addSafeIntegers l r code =
     (if \<not> is_safe_integer (l + r) \<or> l + r < 0 then Inl (ThreadGoalError code) else Inr (l + r))"

lemma add_safe_Inr: "addSafeIntegers l r code = Inr x \<longleftrightarrow> x = l + r \<and> non_negative_safe_integer (l + r)"
  by (auto simp: addSafeIntegers_def non_negative_safe_integer_def)

definition incrementSafeInteger :: "int \<Rightarrow> string \<Rightarrow> int res" where
  "incrementSafeInteger i code = addSafeIntegers i 1 code"

definition threadGoalChargedTokens :: "run_usage \<Rightarrow> int res" where
  "threadGoalChargedTokens u = guarded
     [throw_if (\<not> is_safe_integer (inputTokens u) \<or> \<not> is_safe_integer (cachedInputTokens u)
        \<or> \<not> is_safe_integer (outputTokens u) \<or> \<not> is_safe_integer (totalTokens u)
        \<or> inputTokens u < 0 \<or> cachedInputTokens u < 0 \<or> inputTokens u < cachedInputTokens u
        \<or> outputTokens u < 0 \<or> totalTokens u \<noteq> inputTokens u + outputTokens u)
        (ThreadGoalError ''goal_usage_invalid'')]
     (addSafeIntegers (inputTokens u - cachedInputTokens u) (outputTokens u) ''goal_tokens_used_overflow'')"

text \<open>A usage as every part of the program keeps it.\<close>

definition usage_ok :: "run_usage \<Rightarrow> bool" where
  "usage_ok u \<longleftrightarrow> non_negative_safe_integer (inputTokens u) \<and> non_negative_safe_integer (cachedInputTokens u)
     \<and> non_negative_safe_integer (outputTokens u) \<and> non_negative_safe_integer (totalTokens u)
     \<and> cachedInputTokens u \<le> inputTokens u \<and> totalTokens u = inputTokens u + outputTokens u"

definition charge :: "run_usage \<Rightarrow> int" where
  "charge u = inputTokens u - cachedInputTokens u + outputTokens u"

lemma charged_tokens_ok: "usage_ok u \<Longrightarrow> threadGoalChargedTokens u = Inr (charge u)"
  by (simp add: threadGoalChargedTokens_def usage_ok_def charge_def addSafeIntegers_def safe_integer_defs)

lemma charged_tokens_Inr: "threadGoalChargedTokens u = Inr c \<Longrightarrow> usage_ok u \<and> c = charge u"
  by (auto simp: threadGoalChargedTokens_def usage_ok_def charge_def addSafeIntegers_def
      safe_integer_defs split: if_splits)

lemma charge_bounds: "usage_ok u \<Longrightarrow> 0 \<le> charge u \<and> charge u \<le> totalTokens u"
  by (simp add: usage_ok_def charge_def non_negative_safe_integer_def)

section \<open>Settlement by a Run without accounting cursor\<close>

text \<open>
  \<open>settleThreadGoalForRun\<close>.  The two stored timestamps are not validated here, so they
  are read by \<open>date_parse\<close>; an invalid date makes the elapsed time \<open>NaN\<close>, which the
  addition rejects.
\<close>

definition usage_limited_outcome :: "terminal_outcome \<Rightarrow> bool" where
  "usage_limited_outcome oc \<longleftrightarrow> oc = OutcomeFailed (js ''responses_usage_limit_reached'')"

definition is_failed_outcome :: "terminal_outcome \<Rightarrow> bool" where
  "is_failed_outcome oc = (case oc of OutcomeFailed _ \<Rightarrow> True | _ \<Rightarrow> False)"

definition elapsed_seconds :: "int option \<Rightarrow> int option \<Rightarrow> int option" where
  "elapsed_seconds now created = (case now of None \<Rightarrow> None | Some n \<Rightarrow>
     (case created of None \<Rightarrow> None | Some c \<Rightarrow> Some (max 0 ((n - c) div 1000))))"

definition budget_reached :: "thread_goal \<Rightarrow> int \<Rightarrow> bool" where
  "budget_reached g tokens = (case tg_tokenBudget g of None \<Rightarrow> False | Some b \<Rightarrow> b \<le> tokens)"

definition settled_status :: "bool \<Rightarrow> terminal_outcome \<Rightarrow> goal_status" where
  "settled_status budgetLimited oc =
     (if usage_limited_outcome oc then GoalUsageLimited
      else if budgetLimited then GoalBudgetLimited
      else if is_failed_outcome oc then GoalBlocked else GoalActive)"

text \<open>The part for an active goal.\<close>

definition settle_active_goal ::
    "(js_string \<Rightarrow> int option) \<Rightarrow> thread_goal \<Rightarrow> run_state \<Rightarrow> terminal_outcome \<Rightarrow> js_string
      \<Rightarrow> thread_goal option res" where
  "settle_active_goal legacy g run oc occurredAt =
    then_do (threadGoalChargedTokens (rs_usage run)) (\<lambda>charged.
    then_do (addSafeIntegers (tg_tokensUsed g) charged ''goal_tokens_used_overflow'') (\<lambda>tokens.
    (case elapsed_seconds (iso_time occurredAt) (date_parse legacy (rs_createdAt run)) of
       None \<Rightarrow> Inl (ThreadGoalError ''goal_time_used_seconds_overflow'')
     | Some dt \<Rightarrow>
       then_do (addSafeIntegers (tg_timeUsedSeconds g) dt ''goal_time_used_seconds_overflow'') (\<lambda>time.
         if charged = 0 \<and> dt = 0 \<and> settled_status (budget_reached g tokens) oc = tg_status g
         then Inr (Some g)
         else then_do (incrementSafeInteger (tg_revision g) ''goal_revision_overflow'') (\<lambda>r.
           Inr (Some (g\<lparr>tg_revision := r, tg_status := settled_status (budget_reached g tokens) oc,
             tg_tokensUsed := tokens, tg_timeUsedSeconds := time, tg_updatedAt := occurredAt\<rparr>)))))))"

definition settleThreadGoalForRun ::
    "(js_string \<Rightarrow> int option) \<Rightarrow> thread_goal option \<Rightarrow> run_state \<Rightarrow> terminal_outcome \<Rightarrow> js_string
      \<Rightarrow> thread_goal option res" where
  "settleThreadGoalForRun legacy current run oc occurredAt =
    (case current of None \<Rightarrow> Inr None | Some g \<Rightarrow>
     (case rs_goalBinding run of None \<Rightarrow> Inr (Some g) | Some b \<Rightarrow>
      if rs_collaborationMode run = PlanMode \<or> gb_goalId b \<noteq> tg_goalId g \<or> gb_revision b \<noteq> tg_revision g
      then Inr (Some g)
      else guarded
       [goal_require_timestamp occurredAt ''goal_updated_at_invalid'',
        throw_if (date_less (iso_time occurredAt) (date_parse legacy (tg_updatedAt g)))
          (ThreadGoalError ''goal_timestamp_order_invalid'')]
       (if tg_status g \<noteq> GoalActive then
          (if tg_status g \<noteq> GoalBudgetLimited \<or> \<not> usage_limited_outcome oc then Inr (Some g)
           else then_do (incrementSafeInteger (tg_revision g) ''goal_revision_overflow'') (\<lambda>r.
             Inr (Some (g\<lparr>tg_revision := r, tg_status := GoalUsageLimited, tg_updatedAt := occurredAt\<rparr>))))
        else settle_active_goal legacy g run oc occurredAt)))"

text \<open>What every settlement keeps and what it charges.\<close>

definition goal_settled_by :: "int \<Rightarrow> thread_goal \<Rightarrow> thread_goal \<Rightarrow> bool" where
  "goal_settled_by c g g' \<longleftrightarrow> tg_goalId g' = tg_goalId g \<and> tg_objective g' = tg_objective g
     \<and> tg_tokenBudget g' = tg_tokenBudget g \<and> tg_createdAt g' = tg_createdAt g
     \<and> tg_tokensUsed g' = tg_tokensUsed g + c \<and> tg_timeUsedSeconds g \<le> tg_timeUsedSeconds g'
     \<and> (tg_revision g' = tg_revision g + 1 \<or> g' = g)"

lemma elapsed_non_negative: "elapsed_seconds a b = Some dt \<Longrightarrow> 0 \<le> dt"
  by (auto simp: elapsed_seconds_def split: option.splits)

lemma settle_active_goal_Inr:
  assumes "settle_active_goal legacy g run oc now = Inr (Some g')"
  defines "c \<equiv> charge (rs_usage run)"
  obtains "g' = g" "c = 0" "settled_status (budget_reached g (tg_tokensUsed g)) oc = tg_status g"
  | dt where "0 \<le> dt" "g' = g\<lparr>tg_revision := tg_revision g + 1,
      tg_status := settled_status (budget_reached g (tg_tokensUsed g + c)) oc,
      tg_tokensUsed := tg_tokensUsed g + c, tg_timeUsedSeconds := tg_timeUsedSeconds g + dt,
      tg_updatedAt := now\<rparr>"
proof -
  from assms(1) obtain charged dt where
    charged: "threadGoalChargedTokens (rs_usage run) = Inr charged"
    and dt: "elapsed_seconds (iso_time now) (date_parse legacy (rs_createdAt run)) = Some dt"
    by (auto simp: settle_active_goal_def split: option.splits)
  have c: "charged = c" using charged_tokens_Inr [OF charged] by (simp add: c_def)
  have "0 \<le> dt" using dt by (rule elapsed_non_negative)
  then show thesis
    using assms(1) that
    by (simp add: settle_active_goal_def charged dt c add_safe_Inr incrementSafeInteger_def
        split: if_splits)
qed

lemma settled_status_budget: "settled_status True oc \<noteq> GoalActive"
  by (simp add: settled_status_def)

text \<open>
  A Run that settles the active goal it is bound to charges exactly its uncached input
  plus its output, keeps identity, objective and budget, advances the revision by one or
  returns the goal unchanged, and never leaves a goal active whose budget is used up.
\<close>

theorem settle_for_run_charges:
  assumes "settleThreadGoalForRun legacy (Some g) run oc now = Inr (Some g')"
    and "tg_status g = GoalActive" and "rs_goalBinding run = Some b"
    and "gb_goalId b = tg_goalId g" and "gb_revision b = tg_revision g"
    and "rs_collaborationMode run \<noteq> PlanMode"
  shows "goal_settled_by (charge (rs_usage run)) g g'
    \<and> (\<forall>bd. tg_tokenBudget g' = Some bd \<and> bd \<le> tg_tokensUsed g' \<longrightarrow> tg_status g' \<noteq> GoalActive)"
proof -
  from assms have "settle_active_goal legacy g run oc now = Inr (Some g')"
    by (simp add: settleThreadGoalForRun_def)
  then show ?thesis
    using assms(2)
    by (cases rule: settle_active_goal_Inr)
      (auto simp: goal_settled_by_def budget_reached_def settled_status_def split: if_splits)
qed

section \<open>Prompts of bounded size\<close>

definition escapeXmlText :: "js_string \<Rightarrow> js_string" where
  "escapeXmlText s = replace_all 62 (js ''&gt;'') (replace_all 60 (js ''&lt;'') (replace_all 38 (js ''&amp;'') s))"

text \<open>The loop of \<open>projectEscapedXmlText\<close>: it stops before the first character that does not fit.\<close>

fun project_loop :: "nat \<Rightarrow> nat \<Rightarrow> js_string list \<Rightarrow> js_string" where
  "project_loop bytes maximumBytes [] = []"
| "project_loop bytes maximumBytes (c # cs) =
     (if maximumBytes < bytes + utf8_length (escapeXmlText c) then []
      else escapeXmlText c @ project_loop (bytes + utf8_length (escapeXmlText c)) maximumBytes cs)"

definition projectEscapedXmlText :: "js_string \<Rightarrow> nat \<Rightarrow> js_string" where
  "projectEscapedXmlText s maximumBytes = project_loop 0 maximumBytes (characters s)"

definition truncated_goal_objective_notice :: js_string where
  "truncated_goal_objective_notice = 10 # js ''[Objective truncated to fit the model-context hard cap. Call get_goal before acting to retrieve the complete objective.]''"

definition boundedThreadGoalObjectivePrompt ::
    "js_string \<Rightarrow> (js_string \<Rightarrow> js_string) \<Rightarrow> string \<Rightarrow> js_string res" where
  "boundedThreadGoalObjectivePrompt objective render errorCode =
     (let complete = render (escapeXmlText objective) in
      if utf8_length complete \<le> max_steering_prompt_bytes then Inr complete
      else let fixedBytes = utf8_length (render truncated_goal_objective_notice) in
        if max_steering_prompt_bytes < fixedBytes then Inl (ThreadGoalError errorCode)
        else let projected = render (projectEscapedXmlText objective (max_steering_prompt_bytes - fixedBytes)
                 @ truncated_goal_objective_notice) in
          if max_steering_prompt_bytes < utf8_length projected then Inl (ThreadGoalError errorCode)
          else Inr projected)"

definition ends_high :: "js_string \<Rightarrow> bool" where
  "ends_high s \<longleftrightarrow> s \<noteq> [] \<and> is_high_surrogate (last s)"

lemma utf8_append: "\<not> ends_high a \<Longrightarrow> utf8_length (a @ b) = utf8_length a + utf8_length b"
proof (induction a rule: utf8_length.induct)
  case (2 u)
  then show ?case by (cases b) (auto simp: ends_high_def)
next
  case (3 u v s)
  have "\<not> ends_high s" "\<not> ends_high (v # s)" using 3(3) by (auto simp: ends_high_def split: if_splits)
  with 3(1,2) show ?case by (cases "is_high_surrogate u \<and> is_low_surrogate v") auto
qed simp

lemma ends_high_append: "\<not> ends_high a \<Longrightarrow> \<not> ends_high b \<Longrightarrow> \<not> ends_high (a @ b)"
  by (auto simp: ends_high_def last_append)

lemma escape_append: "escapeXmlText (a @ b) = escapeXmlText a @ escapeXmlText b"
  by (simp add: escapeXmlText_def replace_all_def)

lemma replace_ends_high:
  assumes "t \<noteq> []" and "\<not> ends_high t" and "\<not> ends_high s"
  shows "\<not> ends_high (replace_all c t s)"
proof (cases s rule: rev_cases)
  case (snoc r u)
  have "replace_all c t s = replace_all c t r @ (if u = c then t else [u])"
    by (simp add: snoc replace_all_def)
  then show ?thesis using assms snoc by (auto simp: ends_high_def last_append)
qed (simp add: replace_all_def ends_high_def)

lemma escape_ends_high: "\<not> ends_high s \<Longrightarrow> \<not> ends_high (escapeXmlText s)"
  unfolding escapeXmlText_def
  by (intro replace_ends_high) (simp_all add: js_def ends_high_def is_high_surrogate_def)

lemma notice_ends_high: "\<not> ends_high truncated_goal_objective_notice"
  by (simp add: truncated_goal_objective_notice_def js_def ends_high_def is_high_surrogate_def)

lemma scan_objective_ok: "scan_objective n cs = None \<Longrightarrow> c \<in> set cs \<Longrightarrow> \<not> is_lone_surrogate c"
  by (induction n cs rule: scan_objective.induct) (auto split: if_splits)

lemma character_shape: "c \<in> set (characters s) \<Longrightarrow>
    (\<exists>u. c = [u]) \<or> (\<exists>u v. c = [u, v] \<and> is_low_surrogate v)"
  by (induction s rule: characters.induct) (auto split: if_splits)

lemma character_ends_high: "c \<in> set (characters s) \<Longrightarrow> \<not> is_lone_surrogate c \<Longrightarrow> \<not> ends_high c"
  by (drule character_shape)
    (auto simp: is_lone_surrogate_def ends_high_def is_high_surrogate_def is_low_surrogate_def)

lemma concat_characters: "concat (characters s) = s"
  by (induction s rule: characters.induct) auto

lemma project_loop_ok:
  assumes "\<forall>c\<in>set cs. \<not> ends_high c" and "b \<le> m"
  shows "\<not> ends_high (project_loop b m cs) \<and> b + utf8_length (project_loop b m cs) \<le> m
    \<and> (\<exists>k. project_loop b m cs = escapeXmlText (concat (take k cs)))"
  using assms
proof (induction cs arbitrary: b)
  case Nil
  then show ?case by (simp add: ends_high_def escapeXmlText_def replace_all_def)
next
  case (Cons c cs)
  show ?case
  proof (cases "m < b + utf8_length (escapeXmlText c)")
    case True
    moreover have "[] = escapeXmlText (concat (take 0 (c # cs)))"
      by (simp add: escapeXmlText_def replace_all_def)
    ultimately show ?thesis using Cons.prems by (auto simp: ends_high_def intro!: exI [of _ 0])
  next
    case False
    define e where "e = escapeXmlText c"
    have e: "\<not> ends_high e" using Cons.prems(1) by (simp add: e_def escape_ends_high)
    define r where "r = project_loop (b + utf8_length e) m cs"
    obtain k where k: "r = escapeXmlText (concat (take k cs))"
      and rest: "\<not> ends_high r" "b + utf8_length e + utf8_length r \<le> m"
      using Cons.IH [of "b + utf8_length e"] Cons.prems(1) False by (auto simp: e_def r_def)
    have loop: "project_loop b m (c # cs) = e @ r" using False by (simp add: e_def r_def)
    have "\<exists>k. e @ r = escapeXmlText (concat (take k (c # cs)))"
      by (rule exI [of _ "Suc k"]) (simp add: e_def k escape_append)
    then show ?thesis
      unfolding loop using rest(2) ends_high_append [OF e rest(1)] utf8_append [OF e, of r] by simp
  qed
qed

text \<open>
  For a validated objective and a template that leaves room for the truncation notice, the
  bounded prompt never fails and never exceeds 9999 bytes; it is the template around the whole
  escaped objective, or around the escape of a prefix of its characters and the notice.
\<close>

theorem bounded_prompt_total:
  assumes "validateThreadGoalObjective obj = None"
    and render: "render = (\<lambda>x. pre @ x @ post)" and "\<not> ends_high pre"
    and room: "utf8_length (render truncated_goal_objective_notice) \<le> max_steering_prompt_bytes"
  shows "\<exists>p. boundedThreadGoalObjectivePrompt obj render code = Inr p
    \<and> utf8_length p \<le> max_steering_prompt_bytes
    \<and> (p = render (escapeXmlText obj)
       \<or> (\<exists>k. p = render (escapeXmlText (concat (take k (characters obj))) @ truncated_goal_objective_notice)))"
proof (cases "utf8_length (render (escapeXmlText obj)) \<le> max_steering_prompt_bytes")
  case True
  then show ?thesis by (simp add: boundedThreadGoalObjectivePrompt_def)
next
  case False
  define notice where "notice = truncated_goal_objective_notice"
  define budget where "budget = max_steering_prompt_bytes - utf8_length (render notice)"
  define proj where "proj = projectEscapedXmlText obj budget"
  have "\<forall>c\<in>set (characters obj). \<not> ends_high c"
    using assms(1) by (auto simp: validateThreadGoalObjective_def dest: scan_objective_ok character_ends_high)
  from project_loop_ok [OF this, of 0 budget] obtain k where
    k: "proj = escapeXmlText (concat (take k (characters obj)))"
    and p: "\<not> ends_high proj" "utf8_length proj \<le> budget"
    by (auto simp: proj_def projectEscapedXmlText_def)
  have n: "\<not> ends_high notice" by (simp add: notice_def notice_ends_high)
  have "utf8_length (render (proj @ notice)) = utf8_length (render notice) + utf8_length proj"
    by (simp add: render utf8_append [OF assms(3)] utf8_append [OF p(1)] utf8_append [OF n])
  then have "utf8_length (render (proj @ notice)) \<le> max_steering_prompt_bytes"
    using p(2) room by (simp add: budget_def notice_def)
  moreover have "boundedThreadGoalObjectivePrompt obj render code = Inr (render (proj @ notice))"
    using False room calculation
    by (simp add: boundedThreadGoalObjectivePrompt_def Let_def notice_def [symmetric]
        budget_def [symmetric] proj_def [symmetric])
  ultimately show ?thesis using k by (auto simp: notice_def)
qed

section \<open>Concrete runs of the properties\<close>

definition sample_goal :: thread_goal where
  "sample_goal = \<lparr>tg_schemaVersion = js ''crewon.thread-goal.v0'', tg_tenantId = js ''t'',
     tg_threadId = js ''th'', tg_goalId = js ''g'', tg_revision = 1, tg_objective = js ''Ship & test'',
     tg_status = GoalActive, tg_tokenBudget = Some 100, tg_tokensUsed = 60, tg_timeUsedSeconds = 5,
     tg_createdAt = js ''2026-01-01T00:00:00Z'', tg_updatedAt = js ''2026-01-01T00:00:00Z''\<rparr>"

theorem settle_for_run_charges_witness:
  "\<exists>g'. settleThreadGoalForRun (\<lambda>_. None) (Some sample_goal) sample_run OutcomeCompleted sample_time
      = Inr (Some g') \<and> tg_tokensUsed g' = 110 \<and> tg_status g' \<noteq> GoalActive"
proof -
  have d: "date_parse (\<lambda>_. None) (js ''2026-01-01T00:00:00Z'') = Some 1767225600000"
    by code_simp
  have t: "is_timestamp sample_time" by (simp add: is_timestamp_iff sample_time_value)
  obtain g' where g': "settleThreadGoalForRun (\<lambda>_. None) (Some sample_goal) sample_run OutcomeCompleted
      sample_time = Inr (Some g')"
    by (simp add: settleThreadGoalForRun_def settle_active_goal_def sample_goal_def sample_run_def d t
        sample_binding_def sample_time_value goal_require_timestamp_def threadGoalChargedTokens_def
        addSafeIntegers_def incrementSafeInteger_def safe_integer_defs elapsed_seconds_def)
  have "goal_settled_by (charge (rs_usage sample_run)) sample_goal g'
    \<and> (\<forall>bd. tg_tokenBudget g' = Some bd \<and> bd \<le> tg_tokensUsed g' \<longrightarrow> tg_status g' \<noteq> GoalActive)"
    by (rule settle_for_run_charges [OF g' _ sample_run_simps(1)])
      (simp_all add: sample_goal_def sample_binding_def)
  then show ?thesis
    using g' by (auto simp: goal_settled_by_def sample_goal_def sample_run_def charge_def)
qed

theorem bounded_prompt_total_witness:
  "\<exists>p. boundedThreadGoalObjectivePrompt (js ''Ship & test'') (\<lambda>x. js ''<goal>'' @ x @ js ''</goal>'') ''goal_continuation_prompt_too_large''
    = Inr p \<and> utf8_length p \<le> max_steering_prompt_bytes"
proof -
  have "validateThreadGoalObjective (js ''Ship & test'') = None"
    by (simp add: validateThreadGoalObjective_def is_lone_surrogate_def
        max_thread_goal_objective_chars_def string_eval)
  moreover have "\<not> ends_high (js ''<goal>'')"
    by (simp add: ends_high_def string_eval)
  moreover have "utf8_length (js ''<goal>'' @ truncated_goal_objective_notice @ js ''</goal>'')
      \<le> max_steering_prompt_bytes"
    by (simp add: truncated_goal_objective_notice_def max_steering_prompt_bytes_def string_eval)
  ultimately show ?thesis
    using bounded_prompt_total [of "js ''Ship & test''" "\<lambda>x. js ''<goal>'' @ x @ js ''</goal>''"
        "js ''<goal>''" "js ''</goal>''" "''goal_continuation_prompt_too_large''"] by blast
qed

end
