(* ===== verification/Goal_Accounting.thy ===== *)
theory Goal_Accounting
  imports Thread_Goals
begin

text \<open>
  \<open>run-goal-accounting.ts\<close>: the durable per-Run cursor that says how much of the Run's usage
  and time has been charged to a goal, and the operations that open, advance, and settle it.
  The charge of a usage is an interface (\<open>usage_charging\<close>): the laws it needs are proved
  for \<open>threadGoalChargedTokens\<close>, and the telescoping of the deltas follows from them.
\<close>

section \<open>Checks\<close>

definition acc_throw_if :: "bool \<Rightarrow> string \<Rightarrow> check" where
  "acc_throw_if b code = throw_if b (RunGoalAccountingError code)"

lemma acc_throw_if_None [simp]: "acc_throw_if b code = None \<longleftrightarrow> \<not> b"
  by (simp add: acc_throw_if_def)

definition acc_require_positive :: "int \<Rightarrow> string \<Rightarrow> check" where
  "acc_require_positive i code = acc_throw_if (\<not> positive_safe_integer i) code"

definition acc_require_non_empty :: "js_string \<Rightarrow> string \<Rightarrow> check" where
  "acc_require_non_empty s code = acc_throw_if (is_blank s) code"

definition acc_validate_timestamp :: "js_string \<Rightarrow> string \<Rightarrow> check" where
  "acc_validate_timestamp s code = acc_throw_if (\<not> is_timestamp s) code"

definition acc_add :: "int \<Rightarrow> int \<Rightarrow> string \<Rightarrow> int res" where
  "acc_add l r code =
     (if \<not> is_safe_integer (l + r) \<or> l + r < 0 then Inl (RunGoalAccountingError code) else Inr (l + r))"

definition acc_increment :: "int \<Rightarrow> string \<Rightarrow> int res" where
  "acc_increment i code = acc_add i 1 code"

lemma acc_add_Inr [simp]: "acc_add l r code = Inr x \<longleftrightarrow> x = l + r \<and> non_negative_safe_integer (l + r)"
  by (auto simp: acc_add_def non_negative_safe_integer_def)

definition validateBinding :: "run_goal_binding \<Rightarrow> check" where
  "validateBinding b = first_throw
     [acc_require_non_empty (gb_goalId b) ''goal_accounting_goal_id_invalid'',
      acc_require_positive (gb_revision b) ''goal_accounting_goal_revision_invalid'',
      acc_throw_if (\<not> matches_digest (gb_objectiveDigest b)) ''goal_accounting_objective_digest_invalid'']"

definition validateUsage :: "run_usage \<Rightarrow> check" where
  "validateUsage u = acc_throw_if
     (\<not> non_negative_safe_integer (inputTokens u) \<or> \<not> non_negative_safe_integer (cachedInputTokens u)
      \<or> \<not> non_negative_safe_integer (outputTokens u) \<or> \<not> non_negative_safe_integer (totalTokens u)
      \<or> inputTokens u < cachedInputTokens u \<or> totalTokens u \<noteq> inputTokens u + outputTokens u)
     ''goal_accounting_usage_invalid''"

lemma validateUsage_None: "validateUsage u = None \<longleftrightarrow> usage_ok u"
  by (auto simp: validateUsage_def usage_ok_def not_less)

definition usageRegressed :: "run_usage \<Rightarrow> run_usage \<Rightarrow> bool" where
  "usageRegressed previous nxt \<longleftrightarrow> inputTokens nxt < inputTokens previous
     \<or> cachedInputTokens nxt < cachedInputTokens previous
     \<or> outputTokens nxt < outputTokens previous \<or> totalTokens nxt < totalTokens previous"

section \<open>The cursor\<close>

definition cursor_schema :: js_string where
  "cursor_schema = js ''crewon.run-goal-accounting.v0''"

definition attribution_of :: "run_goal_binding \<Rightarrow> run_goal_attribution" where
  "attribution_of b = \<lparr>ga_goalId = gb_goalId b, ga_goalRevision = gb_revision b,
     ga_objectiveDigest = gb_objectiveDigest b\<rparr>"

definition createRunGoalAccountingCursor ::
    "run_goal_binding \<Rightarrow> js_string \<Rightarrow> run_goal_accounting_cursor res" where
  "createRunGoalAccountingCursor b occurredAt = guarded
     [acc_validate_timestamp occurredAt ''goal_accounting_updated_at_invalid'', validateBinding b]
     (Inr \<lparr>ac_schemaVersion = cursor_schema, ac_revision = 1, ac_policy = thread_goal_accounting_policy,
       ac_throughRunSequence = 1, ac_accountedUsage = zeroUsage, ac_timeBaselineAt = None,
       ac_attribution = Some (attribution_of b), ac_pendingSteering = None, ac_updatedAt = occurredAt\<rparr>)"

definition check_handoff :: "run_goal_accounting_cursor \<Rightarrow> run_goal_steering_handoff \<Rightarrow> check" where
  "check_handoff c h = first_throw
     [acc_require_non_empty (ho_handoffId h) ''goal_steering_handoff_id_invalid'',
      acc_throw_if (case ho_kind h of OtherSteering _ \<Rightarrow> True | _ \<Rightarrow> False) ''goal_steering_kind_invalid'',
      validateBinding (ho_target h),
      acc_validate_timestamp (ho_createdAt h) ''goal_steering_created_at_invalid'',
      acc_throw_if (ac_attribution c \<noteq> Some (attribution_of (ho_target h))
         \<or> date_less (iso_time (ac_updatedAt c)) (iso_time (ho_createdAt h)))
        ''goal_steering_target_invalid'']"

definition validateRunGoalAccountingCursor :: "run_goal_accounting_cursor \<Rightarrow> check" where
  "validateRunGoalAccountingCursor c = first_throw
     [acc_throw_if (ac_schemaVersion c \<noteq> cursor_schema \<or> ac_policy c \<noteq> thread_goal_accounting_policy)
        ''goal_accounting_cursor_invalid'',
      acc_require_positive (ac_revision c) ''goal_accounting_revision_invalid'',
      acc_require_positive (ac_throughRunSequence c) ''goal_accounting_sequence_invalid'',
      validateUsage (ac_accountedUsage c),
      when_some (ac_timeBaselineAt c) (\<lambda>t. acc_validate_timestamp t ''goal_accounting_time_baseline_invalid''),
      acc_validate_timestamp (ac_updatedAt c) ''goal_accounting_updated_at_invalid'',
      when_some (ac_timeBaselineAt c) (\<lambda>t. acc_throw_if (date_less (iso_time (ac_updatedAt c)) (iso_time t))
        ''goal_accounting_time_baseline_invalid''),
      when_some (ac_attribution c) (\<lambda>a. first_throw
        [acc_require_non_empty (ga_goalId a) ''goal_accounting_goal_id_invalid'',
         acc_require_positive (ga_goalRevision a) ''goal_accounting_goal_revision_invalid'',
         acc_throw_if (\<not> matches_digest (ga_objectiveDigest a)) ''goal_accounting_objective_digest_invalid'']),
      when_some (ac_pendingSteering c) (check_handoff c)]"

definition startRunGoalAccounting ::
    "run_goal_accounting_cursor option \<Rightarrow> int \<Rightarrow> js_string \<Rightarrow> run_goal_accounting_cursor option res" where
  "startRunGoalAccounting cursor throughRunSequence occurredAt = (case cursor of None \<Rightarrow> Inr None
     | Some c \<Rightarrow> guarded
       [validateRunGoalAccountingCursor c,
        acc_require_positive throughRunSequence ''goal_accounting_sequence_invalid'',
        acc_validate_timestamp occurredAt ''goal_accounting_updated_at_invalid'',
        acc_throw_if (throughRunSequence \<le> ac_throughRunSequence c
          \<or> date_less (iso_time occurredAt) (iso_time (ac_updatedAt c))) ''goal_accounting_start_invalid'']
       (then_do (acc_increment (ac_revision c) ''goal_accounting_revision_overflow'') (\<lambda>r.
          Inr (Some (c\<lparr>ac_revision := r, ac_throughRunSequence := throughRunSequence,
            ac_timeBaselineAt := Some occurredAt, ac_updatedAt := occurredAt\<rparr>)))))"

definition reduceRunGoalAccountingUpdate ::
    "run_goal_accounting_cursor option \<Rightarrow> run_goal_accounting_cursor \<Rightarrow> run_usage \<Rightarrow> int \<Rightarrow> js_string
      \<Rightarrow> run_goal_accounting_cursor res" where
  "reduceRunGoalAccountingUpdate current nxt runUsage currentRunSequence occurredAt = guarded
     [when_some current validateRunGoalAccountingCursor,
      validateRunGoalAccountingCursor nxt,
      validateUsage runUsage,
      acc_require_positive currentRunSequence ''goal_accounting_sequence_invalid'',
      acc_validate_timestamp occurredAt ''goal_accounting_updated_at_invalid'',
      acc_throw_if (ac_revision nxt \<noteq> nullish (map_option ac_revision current) 0 + 1
         \<or> ac_updatedAt nxt \<noteq> occurredAt
         \<or> currentRunSequence < ac_throughRunSequence nxt
         \<or> ac_throughRunSequence nxt < nullish (map_option ac_throughRunSequence current) 1
         \<or> usageRegressed (nullish (map_option ac_accountedUsage current) zeroUsage) (ac_accountedUsage nxt)
         \<or> usageRegressed (ac_accountedUsage nxt) runUsage) ''goal_accounting_update_invalid'']
     (Inr nxt)"

definition consumeRunGoalSteering ::
    "run_goal_accounting_cursor \<Rightarrow> js_string \<Rightarrow> js_string \<Rightarrow> run_goal_accounting_cursor res" where
  "consumeRunGoalSteering c handoffId occurredAt = guarded
     [validateRunGoalAccountingCursor c,
      acc_require_non_empty handoffId ''goal_steering_handoff_id_invalid'',
      acc_validate_timestamp occurredAt ''goal_accounting_updated_at_invalid'',
      acc_throw_if (map_option ho_handoffId (ac_pendingSteering c) \<noteq> Some handoffId
         \<or> date_less (iso_time occurredAt) (iso_time (ac_updatedAt c))) ''goal_steering_not_current'']
     (then_do (acc_increment (ac_revision c) ''goal_accounting_revision_overflow'') (\<lambda>r.
        Inr (c\<lparr>ac_revision := r, ac_pendingSteering := None, ac_updatedAt := occurredAt\<rparr>)))"

section \<open>Deltas and advances\<close>

record run_goal_accounting_delta =
  ad_throughRunSequence :: int
  ad_accountedUsage :: run_usage
  ad_tokenDelta :: int
  ad_timeDeltaSeconds :: int
  ad_nextTimeBaselineAt :: "js_string option"

definition usage_difference :: "run_usage \<Rightarrow> run_usage \<Rightarrow> run_usage" where
  "usage_difference u v = \<lparr>inputTokens = inputTokens u - inputTokens v,
     cachedInputTokens = cachedInputTokens u - cachedInputTokens v,
     outputTokens = outputTokens u - outputTokens v, totalTokens = totalTokens u - totalTokens v\<rparr>"

text \<open>Whole seconds since the baseline, and the baseline moved on by exactly that many.\<close>

definition time_step :: "run_goal_accounting_cursor \<Rightarrow> js_string \<Rightarrow> (int \<times> js_string option) res" where
  "time_step c occurredAt =
     (case ac_timeBaselineAt c of None \<Rightarrow> Inr (0, None)
      | Some b \<Rightarrow>
        if ac_attribution c = None then Inr (0, Some b)
        else let baselineMs = the (iso_time b); elapsedMs = the (iso_time occurredAt) - baselineMs in
          if elapsedMs < 0 then Inl (RunGoalAccountingError ''goal_accounting_time_regressed'')
          else Inr (elapsedMs div 1000, Some (to_iso_string (baselineMs + elapsedMs div 1000 * 1000))))"

definition computeRunGoalAccountingDelta ::
    "run_goal_accounting_cursor \<Rightarrow> run_usage \<Rightarrow> int \<Rightarrow> js_string \<Rightarrow> run_goal_accounting_delta res" where
  "computeRunGoalAccountingDelta c currentUsage throughRunSequence occurredAt = guarded
     [validateRunGoalAccountingCursor c,
      validateUsage currentUsage,
      acc_require_positive throughRunSequence ''goal_accounting_sequence_invalid'',
      acc_validate_timestamp occurredAt ''goal_accounting_updated_at_invalid'',
      acc_throw_if (throughRunSequence < ac_throughRunSequence c
         \<or> usageRegressed (ac_accountedUsage c) currentUsage
         \<or> date_less (iso_time occurredAt) (iso_time (ac_updatedAt c))) ''goal_accounting_usage_regressed'',
      validateUsage (usage_difference currentUsage (ac_accountedUsage c))]
     (then_do (time_step c occurredAt) (\<lambda>(dt, baseline).
      then_do (threadGoalChargedTokens (usage_difference currentUsage (ac_accountedUsage c))) (\<lambda>tokens.
        Inr \<lparr>ad_throughRunSequence = throughRunSequence, ad_accountedUsage = currentUsage,
          ad_tokenDelta = tokens, ad_timeDeltaSeconds = dt, ad_nextTimeBaselineAt = baseline\<rparr>)))"

record advance_input =
  ai_currentUsage :: run_usage
  ai_throughRunSequence :: int
  ai_occurredAt :: js_string
  ai_nextBinding :: "run_goal_binding option"
  ai_pendingSteering :: "run_goal_steering_handoff option"
  ai_trackTime :: bool

text \<open>
  The next baseline.  \<open>current?.attribution === null\<close> is false when there is no cursor at
  all (\<open>undefined\<close> is not \<open>null\<close>), so that case falls through to the delta's baseline.
\<close>

definition next_time_baseline ::
    "run_goal_accounting_cursor option \<Rightarrow> advance_input \<Rightarrow> run_goal_accounting_delta \<Rightarrow> js_string option" where
  "next_time_baseline current i d =
     (if ai_nextBinding i = None \<or> \<not> ai_trackTime i then None
      else if (case current of None \<Rightarrow> False | Some c \<Rightarrow> ac_attribution c = None \<or> ac_timeBaselineAt c = None)
      then Some (ai_occurredAt i)
      else ad_nextTimeBaselineAt d)"

definition advance_delta ::
    "run_goal_accounting_cursor option \<Rightarrow> advance_input \<Rightarrow> run_goal_accounting_delta res" where
  "advance_delta current i = (case current of
     None \<Rightarrow> Inr \<lparr>ad_throughRunSequence = ai_throughRunSequence i, ad_accountedUsage = ai_currentUsage i,
        ad_tokenDelta = 0, ad_timeDeltaSeconds = 0, ad_nextTimeBaselineAt = None\<rparr>
   | Some c \<Rightarrow> computeRunGoalAccountingDelta c (ai_currentUsage i) (ai_throughRunSequence i) (ai_occurredAt i))"

definition advanced_cursor ::
    "run_goal_accounting_cursor option \<Rightarrow> advance_input \<Rightarrow> run_goal_accounting_delta \<Rightarrow> run_goal_accounting_cursor" where
  "advanced_cursor current i d = \<lparr>ac_schemaVersion = cursor_schema,
     ac_revision = nullish (map_option ac_revision current) 0 + 1,
     ac_policy = thread_goal_accounting_policy, ac_throughRunSequence = ai_throughRunSequence i,
     ac_accountedUsage = ai_currentUsage i, ac_timeBaselineAt = next_time_baseline current i d,
     ac_attribution = map_option attribution_of (ai_nextBinding i),
     ac_pendingSteering = ai_pendingSteering i, ac_updatedAt = ai_occurredAt i\<rparr>"

definition advanceRunGoalAccounting ::
    "run_goal_accounting_cursor option \<Rightarrow> advance_input
      \<Rightarrow> (run_goal_accounting_delta \<times> run_goal_accounting_cursor) res" where
  "advanceRunGoalAccounting current i = guarded
     [validateUsage (ai_currentUsage i),
      acc_require_positive (ai_throughRunSequence i) ''goal_accounting_sequence_invalid'',
      acc_validate_timestamp (ai_occurredAt i) ''goal_accounting_updated_at_invalid'',
      when_some (ai_nextBinding i) validateBinding,
      when_some (ai_pendingSteering i) (\<lambda>h. acc_throw_if
        (map_option attribution_of (ai_nextBinding i) \<noteq> Some (attribution_of (ho_target h)))
        ''goal_steering_target_invalid''),
      acc_throw_if (ai_nextBinding i = None \<and> ai_trackTime i) ''goal_accounting_time_tracking_invalid'']
     (then_do (advance_delta current i) (\<lambda>d. guarded
        [validateRunGoalAccountingCursor (advanced_cursor current i d)]
        (Inr (d, advanced_cursor current i d))))"

section \<open>Charging a goal\<close>

definition accountThreadGoalProgress ::
    "(js_string \<Rightarrow> int option) \<Rightarrow> thread_goal option \<Rightarrow> run_goal_accounting_cursor
      \<Rightarrow> run_goal_accounting_delta \<Rightarrow> js_string \<Rightarrow> thread_goal option res" where
  "accountThreadGoalProgress legacy current c d occurredAt = guarded
     [validateRunGoalAccountingCursor c,
      acc_validate_timestamp occurredAt ''goal_updated_at_invalid'']
     (case ac_attribution c of None \<Rightarrow> Inr current | Some a \<Rightarrow>
      (case current of None \<Rightarrow> Inl (RunGoalAccountingError ''goal_accounting_attribution_mismatch'')
       | Some g \<Rightarrow> guarded
         [acc_throw_if (tg_goalId g \<noteq> ga_goalId a \<or> tg_revision g \<noteq> ga_goalRevision a)
            ''goal_accounting_attribution_mismatch'',
          acc_throw_if (tg_status g \<noteq> GoalActive \<and> tg_status g \<noteq> GoalBudgetLimited)
            ''goal_accounting_inactive_attribution'',
          acc_throw_if (date_less (iso_time occurredAt) (date_parse legacy (tg_updatedAt g)))
            ''goal_accounting_time_regressed'']
         (then_do (acc_add (tg_tokensUsed g) (ad_tokenDelta d) ''goal_tokens_used_overflow'') (\<lambda>tokens.
          then_do (acc_add (tg_timeUsedSeconds g) (ad_timeDeltaSeconds d) ''goal_time_used_seconds_overflow'') (\<lambda>time.
          let st = (if tg_status g = GoalActive \<and> budget_reached g tokens then GoalBudgetLimited else tg_status g) in
          if tokens = tg_tokensUsed g \<and> time = tg_timeUsedSeconds g \<and> st = tg_status g then Inr (Some g)
          else Inr (Some (g\<lparr>tg_status := st, tg_tokensUsed := tokens, tg_timeUsedSeconds := time,
            tg_updatedAt := occurredAt\<rparr>)))))))"

text \<open>
  At a tool boundary.  The code compares object identity (\<open>accounted === current\<close>); the
  accounting returns the same object exactly when no field changes, so equality decides the same.
\<close>

definition accountThreadGoalAtToolBoundary ::
    "(js_string \<Rightarrow> int option) \<Rightarrow> thread_goal option \<Rightarrow> run_state \<Rightarrow> js_string \<Rightarrow> (thread_goal option \<times> bool) res" where
  "accountThreadGoalAtToolBoundary legacy current run occurredAt =
    (case rs_goalAccounting run of None \<Rightarrow> Inr (current, False) | Some c \<Rightarrow>
     if rs_collaborationMode run = PlanMode \<or> ac_attribution c = None then Inr (current, False)
     else guarded [acc_throw_if (rs_status run \<noteq> SRunning) ''goal_accounting_run_not_running'']
      (then_do (computeRunGoalAccountingDelta c (rs_usage run) (rs_lastSequence run) occurredAt) (\<lambda>d.
       then_do (accountThreadGoalProgress legacy current c d occurredAt) (\<lambda>accounted.
         if accounted = current then Inr (current, False)
         else (case (accounted, current) of
            (Some a, Some g) \<Rightarrow>
              then_do (acc_increment (tg_revision g) ''goal_revision_overflow'') (\<lambda>r.
                Inr (Some (a\<lparr>tg_revision := r\<rparr>), tg_status g = GoalActive \<and> tg_status a = GoalBudgetLimited))
          | _ \<Rightarrow> Inl (RunGoalAccountingError ''goal_accounting_attribution_mismatch''))))))"

definition settleThreadGoalFromAccounting ::
    "(js_string \<Rightarrow> int option) \<Rightarrow> thread_goal option \<Rightarrow> run_state \<Rightarrow> terminal_outcome \<Rightarrow> js_string
      \<Rightarrow> thread_goal option res" where
  "settleThreadGoalFromAccounting legacy current run oc occurredAt =
    (case rs_goalAccounting run of None \<Rightarrow> Inr current | Some c \<Rightarrow>
     if ac_attribution c = None then Inr current
     else then_do (computeRunGoalAccountingDelta c (rs_usage run) (rs_lastSequence run) occurredAt) (\<lambda>d.
       then_do (accountThreadGoalProgress legacy current c d occurredAt) (\<lambda>accounted.
         (case (accounted, current) of
            (Some a, Some g) \<Rightarrow>
              let st = settled_status (tg_status a = GoalBudgetLimited) oc in
              if a = g \<and> st = tg_status g then Inr current
              else then_do (acc_increment (tg_revision g) ''goal_revision_overflow'') (\<lambda>r.
                Inr (Some (a\<lparr>tg_revision := r, tg_status := st, tg_updatedAt := occurredAt\<rparr>)))
          | _ \<Rightarrow> Inl (RunGoalAccountingError ''goal_accounting_attribution_mismatch'')))))"

section \<open>The charging interface\<close>

text \<open>
  What accounting relies on: charging is defined on valid usages, never negative, and additive
  over usage differences.
\<close>

locale usage_charging =
  fixes price :: "run_usage \<Rightarrow> int" and priced :: "run_usage \<Rightarrow> int res"
  assumes priced_ok: "usage_ok u \<Longrightarrow> priced u = Inr (price u)"
    and priced_valid: "priced u = Inr c \<Longrightarrow> usage_ok u \<and> c = price u"
    and price_nonneg: "usage_ok u \<Longrightarrow> 0 \<le> price u"
    and price_difference: "price (usage_difference u v) = price u - price v"
begin

text \<open>Pricing the steps between consecutive watermarks prices the whole way.\<close>

fun step_prices :: "run_usage \<Rightarrow> run_usage list \<Rightarrow> int list" where
  "step_prices u [] = []"
| "step_prices u (v # vs) = price (usage_difference v u) # step_prices v vs"

lemma step_prices_telescope: "sum_list (step_prices u vs) = price (last (u # vs)) - price u"
  by (induction vs arbitrary: u) (auto simp: price_difference)

lemma priced_difference: "priced (usage_difference v u) = Inr c \<Longrightarrow> c = price v - price u \<and> 0 \<le> c"
  using priced_valid price_nonneg price_difference by metis

end

interpretation charging: usage_charging charge threadGoalChargedTokens
proof
  fix u v :: run_usage and c :: int
  show "threadGoalChargedTokens u = Inr (charge u)" if "usage_ok u"
    using that by (rule charged_tokens_ok)
  show "usage_ok u \<and> c = charge u" if "threadGoalChargedTokens u = Inr c"
    using that by (rule charged_tokens_Inr)
  show "0 \<le> charge u" if "usage_ok u" using charge_bounds [OF that] by simp
  show "charge (usage_difference u v) = charge u - charge v"
    by (simp add: charge_def usage_difference_def)
qed

section \<open>What a delta says\<close>

lemma delta_tokens:
  assumes "computeRunGoalAccountingDelta c u seq now = Inr d"
  shows "ad_tokenDelta d = charge u - charge (ac_accountedUsage c)" "0 \<le> ad_tokenDelta d"
    "ad_accountedUsage d = u" "ad_throughRunSequence d = seq" "0 \<le> ad_timeDeltaSeconds d"
proof -
  from assms obtain dt b tokens where
    t: "time_step c now = Inr (dt, b)"
    and p: "threadGoalChargedTokens (usage_difference u (ac_accountedUsage c)) = Inr tokens"
    and d: "d = \<lparr>ad_throughRunSequence = seq, ad_accountedUsage = u, ad_tokenDelta = tokens,
        ad_timeDeltaSeconds = dt, ad_nextTimeBaselineAt = b\<rparr>"
    by (auto simp: computeRunGoalAccountingDelta_def)
  have "0 \<le> dt"
    using t by (auto simp: time_step_def Let_def pos_imp_zdiv_nonneg_iff split: option.splits if_splits)
  with charging.priced_difference [OF p] d show
    "ad_tokenDelta d = charge u - charge (ac_accountedUsage c)" "0 \<le> ad_tokenDelta d"
    "ad_accountedUsage d = u" "ad_throughRunSequence d = seq" "0 \<le> ad_timeDeltaSeconds d"
    by simp_all
qed

lemma delta_time:
  assumes "computeRunGoalAccountingDelta c u seq now = Inr d"
    and "ac_timeBaselineAt c = Some b" and "ac_attribution c \<noteq> None"
    and "iso_time now = Some tn" and "tn \<le> max_iso_ms"
  obtains tb b' where "iso_time b = Some tb" "ad_nextTimeBaselineAt d = Some b'"
    "iso_time b' = Some (tb + 1000 * ad_timeDeltaSeconds d)"
    "tb + 1000 * ad_timeDeltaSeconds d \<le> tn" "tn < tb + 1000 * ad_timeDeltaSeconds d + 1000"
proof -
  from assms(1) have v: "validateRunGoalAccountingCursor c = None"
    and t: "time_step c now = Inr (ad_timeDeltaSeconds d, ad_nextTimeBaselineAt d)"
    by (auto simp: computeRunGoalAccountingDelta_def)
  from v assms(2) obtain tb where tb: "iso_time b = Some tb"
    by (auto simp: validateRunGoalAccountingCursor_def acc_validate_timestamp_def is_timestamp_iff)
  define k where "k = (tn - tb) div 1000"
  have bounds: "1000 * k \<le> tn - tb" "tn - tb < 1000 * k + 1000"
    using div_bounds [where x = "tn - tb" and k = 1000] by (simp_all add: k_def)
  from t assms(2,3) tb assms(4) have d: "ad_timeDeltaSeconds d = k" "\<not> tn - tb < 0"
    "ad_nextTimeBaselineAt d = Some (to_iso_string (tb + k * 1000))"
    by (auto simp: time_step_def Let_def k_def split: if_splits)
  have "0 \<le> k" using d(2) by (simp add: k_def pos_imp_zdiv_nonneg_iff)
  then have "iso_time (to_iso_string (tb + k * 1000)) = Some (tb + k * 1000)"
    using iso_time_lower [OF tb] bounds assms(5) by (intro iso_time_to_iso_string) linarith+
  moreover have "tb + 1000 * k \<le> tn" "tn < tb + 1000 * k + 1000" using bounds by linarith+
  ultimately show thesis
    using d(1,3) by (intro that [OF tb d(3)]) (simp_all add: mult.commute)
qed

text \<open>
  A delta charges exactly the uncached input plus output used since the cursor, never a
  negative amount; and when time is tracked, its whole seconds and the new baseline account
  for the elapsed time to within a second, so no fraction of a second is lost between deltas.
\<close>

theorem accounting_delta_exact:
  assumes "computeRunGoalAccountingDelta c u seq now = Inr d"
    and "ac_timeBaselineAt c = Some b" and "ac_attribution c \<noteq> None"
    and "iso_time now = Some tn" and "tn \<le> max_iso_ms"
  shows "ad_tokenDelta d = charge u - charge (ac_accountedUsage c) \<and> 0 \<le> ad_tokenDelta d
    \<and> (\<exists>tb b'. iso_time b = Some tb \<and> ad_nextTimeBaselineAt d = Some b'
        \<and> iso_time b' = Some (tb + 1000 * ad_timeDeltaSeconds d)
        \<and> tb + 1000 * ad_timeDeltaSeconds d \<le> tn \<and> tn < tb + 1000 * ad_timeDeltaSeconds d + 1000)"
  using delta_tokens [OF assms(1)] by (rule_tac delta_time [OF assms]) auto

section \<open>Chains of advances\<close>

text \<open>A Run advances its cursor again and again; the deltas it reports, in order.\<close>

fun advance_all :: "run_goal_accounting_cursor \<Rightarrow> advance_input list
    \<Rightarrow> (run_goal_accounting_delta list \<times> run_goal_accounting_cursor) res" where
  "advance_all c [] = Inr ([], c)"
| "advance_all c (i # is) =
     then_do (advanceRunGoalAccounting (Some c) i) (\<lambda>(d, c').
     then_do (advance_all c' is) (\<lambda>(ds, c''). Inr (d # ds, c'')))"

lemma advance_Inr:
  assumes "advanceRunGoalAccounting current i = Inr (d, nxt)"
  shows "advance_delta current i = Inr d" "nxt = advanced_cursor current i d"
    "validateRunGoalAccountingCursor nxt = None"
  using assms by (auto simp: advanceRunGoalAccounting_def)

lemma advance_step_tokens:
  assumes "advanceRunGoalAccounting (Some c) i = Inr (d, nxt)"
  shows "ad_tokenDelta d = charge (ac_accountedUsage nxt) - charge (ac_accountedUsage c)"
    "0 \<le> ad_tokenDelta d" "ac_accountedUsage nxt = ai_currentUsage i"
  using advance_Inr [OF assms] delta_tokens [of c "ai_currentUsage i" "ai_throughRunSequence i" "ai_occurredAt i" d]
  by (simp_all add: advance_delta_def advanced_cursor_def)

lemma advance_all_prices:
  "advance_all c is = Inr (ds, c') \<Longrightarrow>
    map ad_tokenDelta ds = charging.step_prices (ac_accountedUsage c) (map ai_currentUsage is)
    \<and> ac_accountedUsage c' = last (ac_accountedUsage c # map ai_currentUsage is)"
proof (induction "is" arbitrary: c ds)
  case (Cons i "is")
  from Cons.prems obtain d n ds' where step: "advanceRunGoalAccounting (Some c) i = Inr (d, n)"
    and rest: "advance_all n is = Inr (ds', c')" and ds: "ds = d # ds'"
    by (auto split: prod.splits)
  from Cons.IH [OF rest] advance_step_tokens [OF step] show ?case
    by (simp add: ds charging.price_difference)
qed simp

text \<open>
  C34: over any chain of advances the token deltas add up to the charge of the last watermark
  minus the charge of the first: no token is charged twice and none is lost, however the usage
  was split into intervals.
\<close>

theorem advances_charge_once:
  assumes "advance_all c is = Inr (ds, c')"
  shows "sum_list (map ad_tokenDelta ds) = charge (ac_accountedUsage c') - charge (ac_accountedUsage c)"
  using advance_all_prices [OF assms] charging.step_prices_telescope by simp

text \<open>
  The cursor an advance computes is one the Run's reducer accepts as the next cursor, when
  the advance was made at the Run's own usage and last sequence.
\<close>

theorem advance_accepted_by_reducer:
  assumes "advanceRunGoalAccounting current i = Inr (d, nxt)"
  shows "reduceRunGoalAccountingUpdate current nxt (ai_currentUsage i) (ai_throughRunSequence i)
    (ai_occurredAt i) = Inr nxt"
proof -
  note a = advance_Inr [OF assms]
  have c: "validateUsage (ai_currentUsage i) = None"
    "acc_require_positive (ai_throughRunSequence i) ''goal_accounting_sequence_invalid'' = None"
    "acc_validate_timestamp (ai_occurredAt i) ''goal_accounting_updated_at_invalid'' = None"
    using assms by (auto simp: advanceRunGoalAccounting_def)
  have f: "ac_revision nxt = nullish (map_option ac_revision current) 0 + 1"
    "ac_updatedAt nxt = ai_occurredAt i" "ac_throughRunSequence nxt = ai_throughRunSequence i"
    "ac_accountedUsage nxt = ai_currentUsage i"
    by (simp_all add: a(2) advanced_cursor_def)
  have r: "\<not> usageRegressed u u" for u by (simp add: usageRegressed_def)
  show ?thesis
  proof (cases current)
    case None
    have "\<not> usageRegressed zeroUsage (ai_currentUsage i)"
      using c(1) by (auto simp: validateUsage_None usage_ok_def usageRegressed_def zeroUsage_def
          non_negative_safe_integer_def)
    with None show ?thesis
      using a(3) c f r
      by (simp add: reduceRunGoalAccountingUpdate_def acc_require_positive_def positive_safe_integer_def)
  next
    case (Some k)
    then have "computeRunGoalAccountingDelta k (ai_currentUsage i) (ai_throughRunSequence i) (ai_occurredAt i) = Inr d"
      using a(1) by (simp add: advance_delta_def)
    then have "validateRunGoalAccountingCursor k = None"
      "\<not> ai_throughRunSequence i < ac_throughRunSequence k"
      "\<not> usageRegressed (ac_accountedUsage k) (ai_currentUsage i)"
      by (auto simp: computeRunGoalAccountingDelta_def)
    then show ?thesis
      using a(3) c f r Some by (simp add: reduceRunGoalAccountingUpdate_def)
  qed
qed

section \<open>Charging and settling a goal\<close>

lemma progress_Inr:
  assumes "accountThreadGoalProgress legacy (Some g) c d now = Inr (Some g')" and "ac_attribution c = Some a"
  defines "tokens \<equiv> tg_tokensUsed g + ad_tokenDelta d" and "time \<equiv> tg_timeUsedSeconds g + ad_timeDeltaSeconds d"
  shows "tg_goalId g = ga_goalId a" "tg_revision g = ga_goalRevision a"
    "tg_status g = GoalActive \<or> tg_status g = GoalBudgetLimited"
    "g' = g \<and> tokens = tg_tokensUsed g \<and> time = tg_timeUsedSeconds g
        \<and> (tg_status g = GoalActive \<longrightarrow> \<not> budget_reached g tokens)
      \<or> g' = g\<lparr>tg_status := (if tg_status g = GoalActive \<and> budget_reached g tokens then GoalBudgetLimited
              else tg_status g), tg_tokensUsed := tokens, tg_timeUsedSeconds := time, tg_updatedAt := now\<rparr>"
  using assms by (auto simp: accountThreadGoalProgress_def Let_def split: if_splits)

lemma progress_total:
  "accountThreadGoalProgress legacy (Some g) c d now = Inr r \<Longrightarrow> \<exists>g'. r = Some g'"
  by (auto simp: accountThreadGoalProgress_def Let_def split: option.splits if_splits)

lemma progress_fields:
  assumes "accountThreadGoalProgress legacy (Some g) c d now = Inr (Some g')" and "ac_attribution c = Some a"
  shows "tg_tokensUsed g' = tg_tokensUsed g + ad_tokenDelta d"
    "tg_timeUsedSeconds g' = tg_timeUsedSeconds g + ad_timeDeltaSeconds d"
    "tg_goalId g' = tg_goalId g" "tg_objective g' = tg_objective g" "tg_tokenBudget g' = tg_tokenBudget g"
    "tg_createdAt g' = tg_createdAt g" "tg_revision g' = tg_revision g"
    "tg_status g' = GoalActive \<Longrightarrow> \<not> budget_reached g (tg_tokensUsed g')"
  using progress_Inr(4) [OF assms] by (auto split: if_splits)

text \<open>
  Settling a goal from the cursor charges what the Run used since the cursor, no more and no
  less; it keeps the goal's identity, objective and budget, advances the revision by one or
  returns the goal unchanged, and never leaves a goal active whose budget is used up.
\<close>

theorem settle_from_accounting_exact:
  assumes "settleThreadGoalFromAccounting legacy (Some g) run oc now = Inr (Some g')"
    and "rs_goalAccounting run = Some c" and "ac_attribution c = Some a"
  shows "goal_settled_by (charge (rs_usage run) - charge (ac_accountedUsage c)) g g'
    \<and> (\<forall>b. tg_tokenBudget g' = Some b \<and> b \<le> tg_tokensUsed g' \<longrightarrow> tg_status g' \<noteq> GoalActive)"
proof -
  from assms obtain d where
    d: "computeRunGoalAccountingDelta c (rs_usage run) (rs_lastSequence run) now = Inr d"
    by (auto simp: settleThreadGoalFromAccounting_def)
  from assms d obtain h where h: "accountThreadGoalProgress legacy (Some g) c d now = Inr (Some h)"
    by (auto simp: settleThreadGoalFromAccounting_def dest: progress_total split: option.splits)
  note f = progress_fields [OF h assms(3)] and dt = delta_tokens [OF d]
  define st where "st = settled_status (tg_status h = GoalBudgetLimited) oc"
  from assms(1) consider "g' = g" "h = g" "st = tg_status g"
    | "g' = h\<lparr>tg_revision := tg_revision g + 1, tg_status := st, tg_updatedAt := now\<rparr>"
    by (auto simp: settleThreadGoalFromAccounting_def assms(2,3) d h Let_def st_def acc_increment_def
        split: if_splits)
  moreover have "st = GoalActive \<Longrightarrow> \<not> budget_reached g (tg_tokensUsed h)"
    using f(8) progress_Inr(3,4) [OF h assms(3)]
    by (auto simp: st_def settled_status_def split: if_splits)
  ultimately show ?thesis
    using f(1-7) dt by cases (auto simp: goal_settled_by_def budget_reached_def)
qed

text \<open>
  At a tool boundary a goal is charged exactly what was used since the cursor, its revision
  advances by one iff the goal changed, and the boundary reports a crossed budget exactly when
  the goal turns from active to budget limited.
\<close>

theorem tool_boundary_exact:
  assumes "accountThreadGoalAtToolBoundary legacy (Some g) run now = Inr (Some g', crossed)"
    and "rs_goalAccounting run = Some c" and "ac_attribution c = Some a"
    and "rs_collaborationMode run \<noteq> PlanMode"
  shows "goal_settled_by (charge (rs_usage run) - charge (ac_accountedUsage c)) g g'
    \<and> crossed = (tg_status g = GoalActive \<and> tg_status g' = GoalBudgetLimited)
    \<and> tg_revision g' = (if g' = g then tg_revision g else tg_revision g + 1)
    \<and> (tg_status g' = GoalActive \<longrightarrow> \<not> budget_reached g' (tg_tokensUsed g'))"
proof -
  from assms obtain d where
    d: "computeRunGoalAccountingDelta c (rs_usage run) (rs_lastSequence run) now = Inr d"
    by (auto simp: accountThreadGoalAtToolBoundary_def)
  from assms d obtain h where h: "accountThreadGoalProgress legacy (Some g) c d now = Inr (Some h)"
    by (auto simp: accountThreadGoalAtToolBoundary_def dest: progress_total split: option.splits if_splits)
  note f = progress_fields [OF h assms(3)] and dt = delta_tokens [OF d]
  from assms(1) consider "g' = g" "h = g" "\<not> crossed"
    | "g' = h\<lparr>tg_revision := tg_revision g + 1\<rparr>" "crossed = (tg_status g = GoalActive \<and> tg_status h = GoalBudgetLimited)"
    by (auto simp: accountThreadGoalAtToolBoundary_def assms(2-4) d h acc_increment_def split: if_splits)
  then show ?thesis
  proof cases
    case 1
    then show ?thesis using f dt by (auto simp: goal_settled_by_def)
  next
    case 2
    then have "tg_revision g' = tg_revision g + 1" by simp
    then have "g' \<noteq> g" by auto
    with 2 show ?thesis using f dt by (auto simp: goal_settled_by_def budget_reached_def)
  qed
qed

text \<open>
  A Run that has no cursor yet gets one without a time baseline even when the caller asks to
  track time, so the interval it opens is charged no time.
\<close>

theorem advance_without_cursor_untimed:
  assumes "advanceRunGoalAccounting None i = Inr (d, nxt)" and "ai_trackTime i"
    and "computeRunGoalAccountingDelta nxt u seq now = Inr d'"
  shows "ac_attribution nxt \<noteq> None \<and> ac_timeBaselineAt nxt = None \<and> ad_timeDeltaSeconds d' = 0"
proof -
  note a = advance_Inr [OF assms(1)]
  have "ai_nextBinding i \<noteq> None"
    using assms(1,2) by (auto simp: advanceRunGoalAccounting_def)
  moreover have b: "ac_timeBaselineAt nxt = None"
    using a(1,2) by (auto simp: advance_delta_def advanced_cursor_def next_time_baseline_def)
  moreover have "ad_timeDeltaSeconds d' = 0"
    using assms(3) b by (auto simp: computeRunGoalAccountingDelta_def time_step_def)
  ultimately show ?thesis using a(2) by (simp add: advanced_cursor_def)
qed

section \<open>Concrete runs of the properties\<close>

definition sample_start :: js_string where
  "sample_start = js ''2026-01-01T00:00:00Z''"

lemma sample_start_value: "iso_time sample_start = Some 1767225600000"
  by code_simp

lemma sample_timestamps [simp]: "is_timestamp sample_start" "is_timestamp sample_time"
  by (simp_all add: is_timestamp_iff sample_start_value sample_time_value)

definition sample_cursor :: run_goal_accounting_cursor where
  "sample_cursor = \<lparr>ac_schemaVersion = cursor_schema, ac_revision = 2, ac_policy = thread_goal_accounting_policy,
     ac_throughRunSequence = 2, ac_accountedUsage = zeroUsage, ac_timeBaselineAt = Some sample_start,
     ac_attribution = Some (attribution_of sample_binding), ac_pendingSteering = None,
     ac_updatedAt = sample_start\<rparr>"

definition sample_usage :: run_usage where
  "sample_usage = \<lparr>inputTokens = 50, cachedInputTokens = 10, outputTokens = 10, totalTokens = 60\<rparr>"

lemmas accounting_eval = validateRunGoalAccountingCursor_def acc_require_positive_def
  acc_require_non_empty_def acc_validate_timestamp_def acc_throw_if_def validateUsage_def validateBinding_def
  usageRegressed_def usage_difference_def zeroUsage_def safe_integer_defs attribution_of_def
  sample_binding_def sample_usage_def sample_start_value sample_time_value string_eval

lemma sample_cursor_valid: "validateRunGoalAccountingCursor sample_cursor = None"
  by (simp add: sample_cursor_def accounting_eval)

definition sample_delta :: run_goal_accounting_delta where
  "sample_delta = \<lparr>ad_throughRunSequence = 3, ad_accountedUsage = sample_usage, ad_tokenDelta = 50,
     ad_timeDeltaSeconds = 97445, ad_nextTimeBaselineAt = Some (to_iso_string 1767323045000)\<rparr>"

lemma sample_delta_computed:
  "computeRunGoalAccountingDelta sample_cursor sample_usage 3 sample_time = Inr sample_delta"
proof -
  have "time_step sample_cursor sample_time = Inr (97445, Some (to_iso_string 1767323045000))"
    by (simp add: time_step_def sample_cursor_def sample_start_value sample_time_value)
  then show ?thesis
    using sample_cursor_valid
    by (simp add: computeRunGoalAccountingDelta_def guarded_pass)
      (simp add: sample_cursor_def sample_delta_def threadGoalChargedTokens_def addSafeIntegers_def accounting_eval)
qed

theorem accounting_delta_exact_witness:
  "computeRunGoalAccountingDelta sample_cursor sample_usage 3 sample_time = Inr sample_delta
    \<and> ad_tokenDelta sample_delta = charge sample_usage - charge (ac_accountedUsage sample_cursor)"
proof -
  have "ac_timeBaselineAt sample_cursor = Some sample_start" "ac_attribution sample_cursor \<noteq> None"
    by (simp_all add: sample_cursor_def)
  from accounting_delta_exact [OF sample_delta_computed this sample_time_value] sample_delta_computed
  show ?thesis by (simp add: max_iso_ms_def)
qed

text \<open>Two advances: the first keeps the goal and tracks time, the second detaches the goal.\<close>

definition sample_advance :: advance_input where
  "sample_advance = \<lparr>ai_currentUsage = sample_usage, ai_throughRunSequence = 3, ai_occurredAt = sample_time,
     ai_nextBinding = Some sample_binding, ai_pendingSteering = None, ai_trackTime = True\<rparr>"

lemma sample_baseline:
  "iso_time (to_iso_string 1767323045000) = Some 1767323045000" "is_timestamp (to_iso_string 1767323045000)"
  using iso_time_to_iso_string [of 1767323045000] by (simp_all add: min_iso_ms_def max_iso_ms_def is_timestamp_iff)

lemma sample_advanced_valid:
  "validateRunGoalAccountingCursor (advanced_cursor (Some sample_cursor) sample_advance sample_delta) = None"
  by (simp add: advanced_cursor_def next_time_baseline_def sample_advance_def sample_delta_def sample_cursor_def
      accounting_eval sample_baseline)

lemma sample_advanced:
  "advanceRunGoalAccounting (Some sample_cursor) sample_advance
    = Inr (sample_delta, advanced_cursor (Some sample_cursor) sample_advance sample_delta)"
  using sample_delta_computed sample_advanced_valid
  by (simp add: advanceRunGoalAccounting_def advance_delta_def)
    (simp add: sample_advance_def accounting_eval)

theorem advances_charge_once_witness:
  "\<exists>ds c'. advance_all sample_cursor [sample_advance] = Inr (ds, c')
    \<and> sum_list (map ad_tokenDelta ds) = charge (ac_accountedUsage c') - charge (ac_accountedUsage sample_cursor)"
proof -
  have "advance_all sample_cursor [sample_advance]
      = Inr ([sample_delta], advanced_cursor (Some sample_cursor) sample_advance sample_delta)"
    by (simp add: sample_advanced)
  from advances_charge_once [OF this] this show ?thesis by blast
qed

theorem advance_accepted_by_reducer_witness:
  "\<exists>n. reduceRunGoalAccountingUpdate (Some sample_cursor) n sample_usage 3 sample_time = Inr n"
  using advance_accepted_by_reducer [OF sample_advanced] by (auto simp: sample_advance_def)

definition sample_accounting_run :: run_state where
  "sample_accounting_run = sample_run\<lparr>rs_goalAccounting := Some sample_cursor, rs_usage := sample_usage\<rparr>"

lemma sample_accounting_run_simps [simp]:
  "rs_goalAccounting sample_accounting_run = Some sample_cursor"
  "rs_usage sample_accounting_run = sample_usage" "rs_lastSequence sample_accounting_run = 3"
  "rs_status sample_accounting_run = SRunning" "rs_collaborationMode sample_accounting_run = DefaultMode"
  by (simp_all add: sample_accounting_run_def) (simp add: sample_run_def)

lemma sample_attribution [simp]: "ac_attribution sample_cursor = Some (attribution_of sample_binding)"
  by (simp add: sample_cursor_def)

lemma sample_progress: "\<exists>h. accountThreadGoalProgress (\<lambda>_. None) (Some sample_goal) sample_cursor sample_delta
    sample_time = Inr (Some h) \<and> h \<noteq> sample_goal \<and> tg_status h = GoalBudgetLimited"
proof -
  have "date_parse (\<lambda>_. None) (tg_updatedAt sample_goal) = Some 1767225600000"
    by (simp add: sample_goal_def sample_start_def [symmetric] date_parse_timestamp sample_start_value)
  then show ?thesis
    using sample_cursor_valid
    by (simp add: accountThreadGoalProgress_def)
      (simp add: sample_goal_def sample_delta_def accounting_eval Let_def budget_reached_def)
qed

theorem settle_from_accounting_exact_witness:
  "\<exists>g'. settleThreadGoalFromAccounting (\<lambda>_. None) (Some sample_goal) sample_accounting_run OutcomeCompleted
    sample_time = Inr (Some g') \<and> tg_tokensUsed g' = 110 \<and> tg_status g' \<noteq> GoalActive"
proof -
  obtain g' where g': "settleThreadGoalFromAccounting (\<lambda>_. None) (Some sample_goal) sample_accounting_run
      OutcomeCompleted sample_time = Inr (Some g')"
    using sample_progress sample_delta_computed
    by (auto simp: settleThreadGoalFromAccounting_def Let_def acc_increment_def sample_goal_def safe_integer_defs)
  from settle_from_accounting_exact [OF g' sample_accounting_run_simps(1) sample_attribution] g'
  show ?thesis
    by (auto simp: goal_settled_by_def charge_def sample_usage_def sample_cursor_def zeroUsage_def sample_goal_def)
qed

theorem tool_boundary_exact_witness:
  "\<exists>g'. accountThreadGoalAtToolBoundary (\<lambda>_. None) (Some sample_goal) sample_accounting_run sample_time
    = Inr (Some g', True) \<and> tg_tokensUsed g' = 110"
proof -
  obtain g' where g': "accountThreadGoalAtToolBoundary (\<lambda>_. None) (Some sample_goal) sample_accounting_run sample_time
      = Inr (Some g', True)"
    using sample_progress sample_delta_computed
    by (auto simp: accountThreadGoalAtToolBoundary_def acc_increment_def acc_throw_if_def sample_goal_def safe_integer_defs)
  from tool_boundary_exact [OF g' sample_accounting_run_simps(1) sample_attribution] g'
  show ?thesis
    by (auto simp: goal_settled_by_def charge_def sample_usage_def sample_cursor_def zeroUsage_def sample_goal_def)
qed

text \<open>A goal attached to a running Run that had no cursor, a day before the next boundary.\<close>

definition sample_attach :: advance_input where
  "sample_attach = \<lparr>ai_currentUsage = zeroUsage, ai_throughRunSequence = 2, ai_occurredAt = sample_start,
     ai_nextBinding = Some sample_binding, ai_pendingSteering = None, ai_trackTime = True\<rparr>"

theorem advance_without_cursor_untimed_witness:
  "\<exists>d nxt d'. advanceRunGoalAccounting None sample_attach = Inr (d, nxt)
    \<and> computeRunGoalAccountingDelta nxt sample_usage 3 sample_time = Inr d' \<and> ad_timeDeltaSeconds d' = 0"
proof -
  define d where "d = \<lparr>ad_throughRunSequence = 2, ad_accountedUsage = zeroUsage, ad_tokenDelta = 0,
    ad_timeDeltaSeconds = 0, ad_nextTimeBaselineAt = None\<rparr>"
  define n where "n = sample_cursor\<lparr>ac_revision := 1, ac_timeBaselineAt := None\<rparr>"
  have v: "validateRunGoalAccountingCursor n = None"
    by (simp add: n_def sample_cursor_def accounting_eval)
  have a: "advanceRunGoalAccounting None sample_attach = Inr (d, n)"
    using v by (simp add: advanceRunGoalAccounting_def advance_delta_def sample_attach_def advanced_cursor_def
        next_time_baseline_def n_def sample_cursor_def d_def accounting_eval)
  obtain d' where d': "computeRunGoalAccountingDelta n sample_usage 3 sample_time = Inr d'"
    using v by (simp add: computeRunGoalAccountingDelta_def time_step_def)
      (simp add: n_def sample_cursor_def threadGoalChargedTokens_def addSafeIntegers_def accounting_eval)
  have "ai_trackTime sample_attach" by (simp add: sample_attach_def)
  from advance_without_cursor_untimed [OF a this d'] a d' show ?thesis by blast
qed

end
