(* ===== verification/Event_Log.thy ===== *)
theory Event_Log
  imports Prelude
begin

text \<open>
  Replaying an append-only event log: the fold both lifecycle reducers are used with, and the
  contract of a reducer as a locale.  A reducer that numbers its events gaplessly, advances the
  revision by one, keeps the identity and rejects everything after a terminal state gives the
  replay laws proved here; \<open>Run_Lifecycle\<close> and \<open>Thread_Lifecycle\<close> discharge the
  contract for the two reducers of the domain package.
\<close>

fun replay_events :: "('s option \<Rightarrow> 'e \<Rightarrow> 's res) \<Rightarrow> 's option \<Rightarrow> 'e list \<Rightarrow> 's option res" where
  "replay_events reduce st [] = Inr st"
| "replay_events reduce st (e # es) = then_do (reduce st e) (\<lambda>s. replay_events reduce (Some s) es)"

lemma replay_append: "replay_events r st (es @ fs) =
    then_do (replay_events r st es) (\<lambda>st'. replay_events r st' fs)"
  by (induction es arbitrary: st) (simp_all add: then_do_def split: sum.splits)

lemma replay_some: "replay_events r (Some s) es = Inr st \<Longrightarrow> \<exists>t. st = Some t"
  by (induction es arbitrary: s) auto

lemma replay_snoc:
  assumes "replay_events r st (es @ [e]) = Inr (Some t)"
  obtains st' where "replay_events r st es = Inr st'" "r st' e = Inr t"
  using assms by (auto simp: replay_append)

section \<open>The contract of a reducer\<close>

locale event_reducer =
  fixes reduce :: "'s option \<Rightarrow> 'e \<Rightarrow> 's res"
    and event_number :: "'e \<Rightarrow> int"
    and last_number :: "'s \<Rightarrow> int"
    and revision_of :: "'s \<Rightarrow> int"
    and identity_of :: "'s \<Rightarrow> 'i"
    and terminal :: "'s \<Rightarrow> bool"
  assumes created: "reduce None e = Inr s \<Longrightarrow> event_number e = 1 \<and> last_number s = 1 \<and> revision_of s = 1"
    and stepped: "reduce (Some s) e = Inr t \<Longrightarrow> event_number e = last_number s + 1
      \<and> last_number t = event_number e \<and> revision_of t = revision_of s + 1 \<and> identity_of t = identity_of s"
    and closed: "terminal s \<Longrightarrow> \<exists>err. reduce (Some s) e = Inl err"
begin

lemma replay_numbers_from:
  "replay_events reduce (Some s) es = Inr (Some t) \<Longrightarrow>
    map event_number es = map (\<lambda>i. last_number s + 1 + int i) [0..<length es]
    \<and> last_number t = last_number s + int (length es) \<and> revision_of t = revision_of s + int (length es)
    \<and> identity_of t = identity_of s"
proof (induction es arbitrary: s)
  case (Cons e es)
  from Cons.prems obtain u where u: "reduce (Some s) e = Inr u"
    and rest: "replay_events reduce (Some u) es = Inr (Some t)" by auto
  have "map (\<lambda>i. last_number s + 1 + int i) [0..<length (e # es)]
      = (last_number s + 1) # map (\<lambda>i. last_number s + 2 + int i) [0..<length es]"
    by (simp add: upt_conv_Cons map_Suc_upt [symmetric] del: upt_Suc)
  with Cons.IH [OF rest] stepped [OF u] show ?case by (simp add: algebra_simps)
qed simp

text \<open>The numbers of a replayed log are 1, 2, ..., and the state counts them.\<close>

theorem replay_numbers:
  assumes "replay_events reduce None es = Inr (Some t)"
  shows "map event_number es = map int [1..<length es + 1] \<and> last_number t = int (length es)
    \<and> revision_of t = int (length es)"
proof (cases es)
  case Nil
  with assms show ?thesis by simp
next
  case (Cons e fs)
  with assms obtain s where c: "reduce None e = Inr s"
    and rest: "replay_events reduce (Some s) fs = Inr (Some t)" by auto
  have "map int [1..<Suc n + 1] = 1 # map (\<lambda>i. 2 + int i) [0..<n]" for n
    by (rule nth_equalityI) (auto simp: nth_Cons simp del: upt_Suc split: nat.splits)
  with replay_numbers_from [OF rest] created [OF c] show ?thesis
    by (simp add: Cons)
qed

text \<open>Nothing follows a terminal state.\<close>

theorem replay_closed:
  assumes "replay_events reduce None es = Inr (Some t)" and "terminal t" and "fs \<noteq> []"
  shows "\<exists>err. replay_events reduce None (es @ fs) = Inl err"
proof -
  obtain f gs where fs: "fs = f # gs" using assms(3) by (cases fs) auto
  obtain err where "reduce (Some t) f = Inl err" using closed [OF assms(2)] by blast
  then show ?thesis by (simp add: replay_append assms(1) fs)
qed

text \<open>A property of created states that every step keeps holds after every replay.\<close>

theorem replay_invariant:
  assumes "\<And>e s. reduce None e = Inr s \<Longrightarrow> P s"
    and "\<And>s e t. P s \<Longrightarrow> reduce (Some s) e = Inr t \<Longrightarrow> P t"
  shows "replay_events reduce None es = Inr (Some t) \<Longrightarrow> P t"
proof (induction es arbitrary: t rule: rev_induct)
  case (snoc e es)
  from snoc.prems obtain st where st: "replay_events reduce None es = Inr st" and e: "reduce st e = Inr t"
    by (rule replay_snoc)
  show ?case
  proof (cases st)
    case None
    then show ?thesis using assms(1) e by simp
  next
    case (Some s)
    then show ?thesis using assms(2) snoc.IH st e by blast
  qed
qed simp

text \<open>A relation between successive states that composes holds along every continuation.\<close>

theorem replay_relation:
  assumes "\<And>s. R s s" and "\<And>s u t. R s u \<Longrightarrow> R u t \<Longrightarrow> R s t"
    and "\<And>s e t. I s \<Longrightarrow> reduce (Some s) e = Inr t \<Longrightarrow> R s t \<and> I t"
  shows "I s \<Longrightarrow> replay_events reduce (Some s) es = Inr (Some t) \<Longrightarrow> R s t \<and> I t"
proof (induction es arbitrary: s)
  case Nil
  then show ?case using assms(1) by simp
next
  case (Cons e es)
  then show ?case using assms(2,3) by fastforce
qed

end

end
