(* ===== verification/Run_Lifecycle.thy ===== *)
theory Run_Lifecycle
  imports Run_Events Goal_Accounting Event_Log
begin

text \<open>
  The Run reducer of \<open>run-lifecycle.ts\<close>: \<open>reduceRunLifecycleEvent\<close> with every case of its
  switch, \<open>createRun\<close>, the cancellation gate, and \<open>replayRunLifecycle\<close>.  Each definition
  runs its checks in the order of the source, so an event that breaks several rules is rejected
  with the code the program gives.
\<close>

section \<open>Checks\<close>

definition run_throw_if :: "bool \<Rightarrow> string \<Rightarrow> check" where
  "run_throw_if b code = throw_if b (RunLifecycleError code)"

lemma run_throw_if_None [simp]: "run_throw_if b code = None \<longleftrightarrow> \<not> b"
  by (simp add: run_throw_if_def)

definition requireNonEmpty :: "js_string \<Rightarrow> string \<Rightarrow> check" where
  "requireNonEmpty s code = run_throw_if (is_blank s) code"

lemma requireNonEmpty_None [simp]: "requireNonEmpty s code = None \<longleftrightarrow> \<not> is_blank s"
  by (simp add: requireNonEmpty_def)

definition requireNullableNonEmpty :: "js_string option \<Rightarrow> string \<Rightarrow> check" where
  "requireNullableNonEmpty s code = when_some s (\<lambda>v. requireNonEmpty v code)"

definition requirePositiveInteger :: "int \<Rightarrow> string \<Rightarrow> check" where
  "requirePositiveInteger i code = run_throw_if (\<not> is_safe_integer i \<or> i < 1) code"

lemma requirePositiveInteger_None [simp]:
  "requirePositiveInteger i code = None \<longleftrightarrow> positive_safe_integer i"
  by (auto simp: requirePositiveInteger_def positive_safe_integer_def)

definition requireNonNegativeInteger :: "int \<Rightarrow> string \<Rightarrow> check" where
  "requireNonNegativeInteger i code = run_throw_if (\<not> is_safe_integer i \<or> i < 0) code"

lemma requireNonNegativeInteger_None [simp]:
  "requireNonNegativeInteger i code = None \<longleftrightarrow> non_negative_safe_integer i"
  by (auto simp: requireNonNegativeInteger_def non_negative_safe_integer_def)

definition requireBoundedString :: "json option \<Rightarrow> nat \<Rightarrow> string \<Rightarrow> check" where
  "requireBoundedString v maxBytes code = run_throw_if
     (case v of Some (JStr s) \<Rightarrow> maxBytes < utf8_length s | _ \<Rightarrow> True) code"

definition requireDigest :: "js_string \<Rightarrow> check" where
  "requireDigest s = run_throw_if (\<not> matches_digest s) ''message_content_digest_invalid''"

definition validateSegmentIdentity :: "'a segment_ref_scheme \<Rightarrow> check" where
  "validateSegmentIdentity d = first_throw
     [requireNonEmpty (sg_segmentId d) ''segment_id_invalid'',
      requirePositiveInteger (sg_segmentSequence d) ''segment_sequence_invalid'']"

definition validateToolIdentity :: "'a tool_ref_scheme \<Rightarrow> check" where
  "validateToolIdentity d = first_throw
     [requireNonEmpty (tl_callId d) ''tool_call_id_invalid'',
      requireNonEmpty (tl_name d) ''tool_name_invalid'',
      run_throw_if (case tl_kind d of OtherToolKind _ \<Rightarrow> True | _ \<Rightarrow> False) ''tool_kind_invalid'']"

definition isTerminal :: "run_status \<Rightarrow> bool" where
  "isTerminal st \<longleftrightarrow> st = SCompleted \<or> st = SFailed \<or> st = SCanceled"

definition invalid_transition :: "run_status \<Rightarrow> string \<Rightarrow> string" where
  "invalid_transition st ty = ''invalid_transition:'' @ run_status_text st @ '':'' @ ty"

definition requireStatus :: "run_state \<Rightarrow> string \<Rightarrow> run_status list \<Rightarrow> check" where
  "requireStatus st ty allowed =
     run_throw_if (rs_status st \<notin> set allowed) (invalid_transition (rs_status st) ty)"

lemma requireStatus_None [simp]: "requireStatus st ty allowed = None \<longleftrightarrow> rs_status st \<in> set allowed"
  by (simp add: requireStatus_def)

definition validateEventEnvelope :: "run_event \<Rightarrow> check" where
  "validateEventEnvelope e = first_throw
     [run_throw_if (ev_schemaVersion e \<noteq> js ''crewon.run-event.v0'') ''event_schema_version_unsupported'',
      requireNonEmpty (ev_eventId e) ''event_id_invalid'',
      requireNonEmpty (ev_runId e) ''run_id_invalid'',
      run_throw_if (\<not> is_safe_integer (ev_sequence e) \<or> ev_sequence e < 1) ''sequence_invalid'',
      run_throw_if (\<not> is_timestamp (ev_occurredAt e)) ''occurred_at_invalid'']"

definition validateCancelProgress :: "run_state \<Rightarrow> string \<Rightarrow> check" where
  "validateCancelProgress st ty =
     (if \<not> rs_cancelRequested st then None
      else if ty = ''run.cancel.requested'' then Some (RunLifecycleError ''cancel_already_requested'')
      else if ty = ''run.canceled'' \<or> ty = ''run.goal.accounting.updated''
        \<or> ty = ''run.reconciliation.required'' \<and> rs_status st = SRunning
        \<or> ty = ''run.resumed'' \<and> (rs_status st = SReconciling \<or> rs_status st = SWaitingApproval)
      then None
      else Some (RunLifecycleError ''cancel_pending''))"

text \<open>An accounting error becomes a lifecycle error with its code; any other error passes.\<close>

definition mapGoalAccountingError :: "'a res \<Rightarrow> 'a res" where
  "mapGoalAccountingError r = (case r of
     Inl (RunGoalAccountingError code) \<Rightarrow> Inl (RunLifecycleError code) | _ \<Rightarrow> r)"

lemma mapGoalAccountingError_Inr [simp]: "mapGoalAccountingError r = Inr x \<longleftrightarrow> r = Inr x"
  by (auto simp: mapGoalAccountingError_def split: sum.splits js_error.splits)

section \<open>Creation\<close>

definition run_created_required :: "string list" where
  "run_created_required = [''agentVersionId'', ''authorityId'', ''collaborationMode'',
     ''createdByActorId'', ''goalBinding'', ''policySnapshotId'', ''runtimeGeneration'',
     ''spaceId'', ''tenantId'', ''threadId'', ''workspaceBindingId'']"

definition run_created_optional :: "string list" where
  "run_created_optional = [''goalContinuationMode'', ''origin'', ''purpose'', ''toolPermissionMode'',
     ''workflowVersionBinding'']"

definition validateRunCreatedDataShape :: "run_created \<Rightarrow> check" where
  "validateRunCreatedDataShape d = run_throw_if
     (list_ex (\<lambda>k. js k \<notin> set (rc_ownKeys d)) run_created_required
      \<or> list_ex (\<lambda>k. k \<notin> set (map js (run_created_required @ run_created_optional))) (rc_ownKeys d))
     ''run_created_fields_invalid''"

definition parseFrozenWorkflowVersionBinding :: "json \<Rightarrow> workflow_version_binding res" where
  "parseFrozenWorkflowVersionBinding v =
    (let bad = RunLifecycleError ''workflow_version_binding_invalid'' in guarded
     [throw_if (\<not> is_plain_object v
        \<or> join_commas (sort (own_keys v)) \<noteq> js ''contentDigest,workflowId,workflowVersionId'') bad]
     (case (get_prop v ''workflowId'', get_prop v ''workflowVersionId'', get_prop v ''contentDigest'') of
        (Some (JStr w), Some (JStr wv), Some (JStr digest)) \<Rightarrow>
          (case parseWorkflowVersionIdentityId w ''workflow_id_invalid'' of
             Inl e \<Rightarrow> Inl (RunLifecycleError (error_message e))
           | Inr workflowId \<Rightarrow> (case parseWorkflowVersionIdentityId wv ''workflow_version_id_invalid'' of
               Inl e \<Rightarrow> Inl (RunLifecycleError (error_message e))
             | Inr workflowVersionId \<Rightarrow> guarded [requireDigest digest]
                 (Inr \<lparr>wv_workflowId = workflowId, wv_workflowVersionId = workflowVersionId,
                    wv_contentDigest = digest\<rparr>)))
      | _ \<Rightarrow> Inl bad))"

definition parseRunOrigin :: "json option \<Rightarrow> automation_invocation_binding option res" where
  "parseRunOrigin v = (case v of None \<Rightarrow> Inr None | Some j \<Rightarrow>
     if j = JNull then Inr None
     else (case parseAutomationInvocationOrigin j of
       Inl _ \<Rightarrow> Inl (RunLifecycleError ''automation_invocation_origin_invalid'')
     | Inr b \<Rightarrow> Inr (Some b)))"

text \<open>The first checks of \<open>createRun\<close>, up to the workspace binding.\<close>

definition create_identity_checks :: "run_event \<Rightarrow> run_created \<Rightarrow> check list" where
  "create_identity_checks e d =
     [run_throw_if (ev_sequence e \<noteq> 1) ''sequence_gap'',
      validateRunCreatedDataShape d,
      requireNonEmpty (ev_runId e) ''run_id_invalid'',
      requireNonEmpty (rc_threadId d) ''thread_id_invalid'',
      requireNonEmpty (rc_tenantId d) ''tenant_id_invalid'',
      requireNonEmpty (rc_spaceId d) ''space_id_invalid'',
      requireNonEmpty (rc_createdByActorId d) ''created_by_actor_id_invalid'',
      requireNonEmpty (rc_authorityId d) ''authority_id_invalid'',
      requireNonEmpty (rc_runtimeGeneration d) ''runtime_generation_invalid'',
      requireNonEmpty (rc_agentVersionId d) ''agent_version_id_invalid'',
      requireNonEmpty (rc_policySnapshotId d) ''policy_snapshot_id_invalid'',
      requireNullableNonEmpty (rc_workspaceBindingId d) ''workspace_binding_id_invalid'']"

text \<open>Then the modes, the goal binding and the purpose.\<close>

definition create_mode_checks :: "run_created \<Rightarrow> check list" where
  "create_mode_checks d =
     [run_throw_if (rc_collaborationMode d \<noteq> DefaultMode \<and> rc_collaborationMode d \<noteq> PlanMode)
        ''collaboration_mode_invalid'',
      run_throw_if (rc_toolPermissionMode d \<noteq> None \<and> rc_toolPermissionMode d \<noteq> Some RequestApproval
        \<and> rc_toolPermissionMode d \<noteq> Some ApproveForMe \<and> rc_toolPermissionMode d \<noteq> Some FullAccess)
        ''tool_permission_mode_invalid'',
      when_some (rc_goalBinding d) (\<lambda>b.
        rethrow (\<lambda>err. RunLifecycleError (error_message err)) (validateRunGoalBinding b)),
      run_throw_if (rc_collaborationMode d = PlanMode \<and> rc_goalBinding d \<noteq> None) ''plan_goal_binding_invalid'',
      run_throw_if (rc_goalContinuationMode d \<noteq> None \<and> rc_goalContinuationMode d \<noteq> Some Deferred)
        ''goal_continuation_mode_invalid'',
      run_throw_if (rc_goalContinuationMode d = Some Deferred
        \<and> (rc_collaborationMode d \<noteq> DefaultMode \<or> rc_goalBinding d = None)) ''deferred_goal_run_invalid'',
      run_throw_if (rc_purpose d \<noteq> None \<and> rc_purpose d \<noteq> Some TurnPurpose
        \<and> rc_purpose d \<noteq> Some ManualCompaction \<and> rc_purpose d \<noteq> Some WorkflowPurpose)
        ''run_purpose_invalid'']"

text \<open>Last, the origin against the purpose and the shape each purpose requires.\<close>

definition create_binding_checks ::
    "run_event \<Rightarrow> run_created \<Rightarrow> automation_invocation_binding option \<Rightarrow> check list" where
  "create_binding_checks e d origin =
     [when_some origin (\<lambda>b. first_throw
        [run_throw_if (rc_purpose d \<noteq> Some TurnPurpose) ''automation_invocation_purpose_invalid'',
         run_throw_if (bindingRunId b \<noteq> ev_runId e) ''automation_invocation_run_id_mismatch'']),
      run_throw_if (rc_purpose d = Some ManualCompaction
        \<and> (rc_collaborationMode d \<noteq> DefaultMode \<or> rc_goalBinding d \<noteq> None)) ''maintenance_run_shape_invalid'',
      run_throw_if ((rc_purpose d = Some WorkflowPurpose)
            \<noteq> (rc_workflowVersionBinding d \<noteq> None \<and> rc_workflowVersionBinding d \<noteq> Some JNull)
         \<or> rc_purpose d = Some WorkflowPurpose
            \<and> (rc_goalBinding d \<noteq> None \<or> rc_collaborationMode d \<noteq> DefaultMode))
        ''run_execution_binding_invalid'']"

definition parse_optional_workflow :: "json option \<Rightarrow> workflow_version_binding option res" where
  "parse_optional_workflow v = (case v of None \<Rightarrow> Inr None | Some j \<Rightarrow>
     then_do (parseFrozenWorkflowVersionBinding j) (\<lambda>b. Inr (Some b)))"

definition create_cursor ::
    "run_goal_binding option \<Rightarrow> js_string \<Rightarrow> run_goal_accounting_cursor option res" where
  "create_cursor binding occurredAt = (case binding of None \<Rightarrow> Inr None | Some b \<Rightarrow>
     then_do (createRunGoalAccountingCursor b occurredAt) (\<lambda>c. Inr (Some c)))"

definition created_state :: "run_event \<Rightarrow> run_created \<Rightarrow> workflow_version_binding option
    \<Rightarrow> automation_invocation_binding option \<Rightarrow> run_goal_accounting_cursor option \<Rightarrow> run_state" where
  "created_state e d workflow origin cursor = \<lparr>rs_runId = ev_runId e, rs_threadId = rc_threadId d,
     rs_tenantId = rc_tenantId d, rs_spaceId = rc_spaceId d, rs_createdByActorId = rc_createdByActorId d,
     rs_authorityId = rc_authorityId d, rs_runtimeGeneration = rc_runtimeGeneration d,
     rs_agentVersionId = rc_agentVersionId d, rs_policySnapshotId = rc_policySnapshotId d,
     rs_workspaceBindingId = rc_workspaceBindingId d, rs_workflowVersionBinding = workflow,
     rs_collaborationMode = rc_collaborationMode d, rs_toolPermissionMode = rc_toolPermissionMode d,
     rs_purpose = rc_purpose d, rs_origin = origin, rs_goalBinding = rc_goalBinding d,
     rs_goalContinuationMode = rc_goalContinuationMode d, rs_goalAccounting = cursor, rs_plan = None,
     rs_usage = zeroUsage, rs_status = SQueued, rs_revision = 1, rs_lastSequence = 1,
     rs_cancelRequested = False, rs_waitingApproval = None, rs_suspensionReasonCode = None,
     rs_reconciliationReceiptId = None, rs_outputRef = None, rs_failure = None,
     rs_createdAt = ev_occurredAt e, rs_updatedAt = ev_occurredAt e, rs_terminalAt = None\<rparr>"

definition create_from :: "run_event \<Rightarrow> run_created \<Rightarrow> run_state res" where
  "create_from e d = guarded (create_identity_checks e d)
     (then_do (parse_optional_workflow (rc_workflowVersionBinding d)) (\<lambda>workflow.
      guarded (create_mode_checks d)
       (then_do (parseRunOrigin (rc_origin d)) (\<lambda>origin.
        guarded (create_binding_checks e d origin)
         (then_do (create_cursor (rc_goalBinding d) (ev_occurredAt e)) (\<lambda>cursor.
           Inr (created_state e d workflow origin cursor)))))))"

definition createRun :: "run_event \<Rightarrow> run_state res" where
  "createRun e = (case ev_data e of RunCreated d \<Rightarrow> create_from e d
     | _ \<Rightarrow> Inl (RunLifecycleError ''run_not_created''))"

section \<open>The cases of the switch\<close>

definition next_state :: "run_state \<Rightarrow> run_event \<Rightarrow> run_state" where
  "next_state st e = st\<lparr>rs_revision := rs_revision st + 1, rs_lastSequence := ev_sequence e,
     rs_updatedAt := ev_occurredAt e\<rparr>"

text \<open>The events that move the status, and the cancellation request.\<close>

definition apply_started :: "run_state \<Rightarrow> run_event \<Rightarrow> run_state res" where
  "apply_started st e = guarded [requireStatus st ''run.started'' [SQueued]]
     (then_do (mapGoalAccountingError
         (startRunGoalAccounting (rs_goalAccounting st) (ev_sequence e) (ev_occurredAt e))) (\<lambda>cursor.
       Inr ((next_state st e)\<lparr>rs_status := SRunning, rs_goalAccounting := cursor\<rparr>)))"

definition apply_approval_required :: "run_state \<Rightarrow> run_event \<Rightarrow> waiting_approval \<Rightarrow> run_state res" where
  "apply_approval_required st e d = guarded
     [requireStatus st ''run.approval.required'' [SRunning],
      requireNonEmpty (wa_approvalId d) ''approval_id_invalid'',
      requireNonEmpty (wa_actionDigest d) ''action_digest_invalid'']
     (Inr ((next_state st e)\<lparr>rs_status := SWaitingApproval, rs_waitingApproval := Some d\<rparr>))"

definition apply_resumed :: "run_state \<Rightarrow> run_event \<Rightarrow> js_string \<Rightarrow> run_state res" where
  "apply_resumed st e reason = guarded
     [requireStatus st ''run.resumed'' [SWaitingApproval, SSuspended, SReconciling],
      requireNonEmpty reason ''resume_reason_invalid'']
     (Inr ((next_state st e)\<lparr>rs_status := SRunning, rs_waitingApproval := None,
        rs_suspensionReasonCode := None, rs_reconciliationReceiptId := None\<rparr>))"

definition apply_suspended :: "run_state \<Rightarrow> run_event \<Rightarrow> js_string \<Rightarrow> run_state res" where
  "apply_suspended st e reason = guarded
     [requireStatus st ''run.suspended'' [SRunning],
      requireNonEmpty reason ''suspension_reason_invalid'']
     (Inr ((next_state st e)\<lparr>rs_status := SSuspended, rs_suspensionReasonCode := Some reason\<rparr>))"

definition apply_reconciliation_required :: "run_state \<Rightarrow> run_event \<Rightarrow> js_string \<Rightarrow> run_state res" where
  "apply_reconciliation_required st e receipt = guarded
     [requireStatus st ''run.reconciliation.required'' [SRunning],
      requireNonEmpty receipt ''receipt_id_invalid'']
     (Inr ((next_state st e)\<lparr>rs_status := SReconciling, rs_reconciliationReceiptId := Some receipt\<rparr>))"

definition apply_cancel_requested :: "run_state \<Rightarrow> run_event \<Rightarrow> js_string \<Rightarrow> run_state res" where
  "apply_cancel_requested st e actor = guarded
     [requireNonEmpty actor ''cancel_actor_invalid'']
     (Inr ((next_state st e)\<lparr>rs_cancelRequested := True\<rparr>))"

definition apply_completed :: "run_state \<Rightarrow> run_event \<Rightarrow> js_string option \<Rightarrow> run_state res" where
  "apply_completed st e output = guarded
     [requireStatus st ''run.completed'' [SRunning],
      requireNullableNonEmpty output ''output_ref_invalid'']
     (Inr ((next_state st e)\<lparr>rs_status := SCompleted, rs_outputRef := output,
        rs_terminalAt := Some (ev_occurredAt e)\<rparr>))"

definition apply_failed :: "run_state \<Rightarrow> run_event \<Rightarrow> run_failure \<Rightarrow> run_state res" where
  "apply_failed st e d = guarded
     [requireStatus st ''run.failed'' [SQueued, SRunning, SWaitingApproval, SSuspended, SReconciling],
      requireNonEmpty (rf_code d) ''failure_code_invalid'']
     (Inr ((next_state st e)\<lparr>rs_status := SFailed, rs_failure := Some d,
        rs_terminalAt := Some (ev_occurredAt e)\<rparr>))"

definition apply_canceled :: "run_state \<Rightarrow> run_event \<Rightarrow> js_string \<Rightarrow> run_state res" where
  "apply_canceled st e reason = guarded
     [requireNonEmpty reason ''cancel_reason_invalid'',
      run_throw_if (\<not> rs_cancelRequested st) ''cancel_not_requested'',
      run_throw_if (rs_status st = SReconciling) ''reconciliation_pending'']
     (Inr ((next_state st e)\<lparr>rs_status := SCanceled, rs_terminalAt := Some (ev_occurredAt e)\<rparr>))"

text \<open>The events of the goal cursor and the plan.\<close>

definition apply_accounting_updated ::
    "run_state \<Rightarrow> run_event \<Rightarrow> run_goal_accounting_cursor \<Rightarrow> run_state res" where
  "apply_accounting_updated st e nxt =
     then_do (mapGoalAccountingError (reduceRunGoalAccountingUpdate (rs_goalAccounting st) nxt
         (rs_usage st) (rs_lastSequence st) (ev_occurredAt e))) (\<lambda>cursor.
       Inr ((next_state st e)\<lparr>rs_goalAccounting := Some cursor\<rparr>))"

definition apply_steering_consumed :: "run_state \<Rightarrow> run_event \<Rightarrow> js_string \<Rightarrow> run_state res" where
  "apply_steering_consumed st e handoffId = (case rs_goalAccounting st of
     None \<Rightarrow> Inl (RunLifecycleError ''goal_accounting_cursor_missing'')
   | Some c \<Rightarrow> then_do (mapGoalAccountingError (consumeRunGoalSteering c handoffId (ev_occurredAt e))) (\<lambda>cursor.
       Inr ((next_state st e)\<lparr>rs_goalAccounting := Some cursor\<rparr>)))"

definition apply_plan_updated :: "run_state \<Rightarrow> run_event \<Rightarrow> json option \<Rightarrow> run_plan \<Rightarrow> run_state res" where
  "apply_plan_updated st e callId plan = guarded
     [requireStatus st ''run.plan.updated'' [SRunning],
      run_throw_if (rs_collaborationMode st \<noteq> DefaultMode
        \<or> nullish (rs_purpose st) TurnPurpose \<noteq> TurnPurpose) ''run_plan_mode_invalid'',
      requireBoundedString callId 512 ''run_plan_call_id_invalid'',
      rethrow (\<lambda>err. RunLifecycleError (error_message err)) (validateRunPlan plan),
      run_throw_if (rp_planId plan \<noteq> rs_runId st
        \<or> rp_revision plan \<noteq> nullish (map_option rp_revision (rs_plan st)) 0 + 1
        \<or> rp_createdAt plan \<noteq> nullish (map_option rp_createdAt (rs_plan st)) (ev_occurredAt e)
        \<or> rp_updatedAt plan \<noteq> ev_occurredAt e) ''run_plan_revision_invalid'']
     (Inr ((next_state st e)\<lparr>rs_plan := Some plan\<rparr>))"

text \<open>The events that add to the usage.\<close>

definition addRunUsage :: "run_usage \<Rightarrow> run_usage \<Rightarrow> run_usage res" where
  "addRunUsage current delta =
    (let usage = \<lparr>inputTokens = inputTokens current + inputTokens delta,
       cachedInputTokens = cachedInputTokens current + cachedInputTokens delta,
       outputTokens = outputTokens current + outputTokens delta,
       totalTokens = totalTokens current + totalTokens delta\<rparr> in guarded
     [run_throw_if (\<not> is_safe_integer (inputTokens usage) \<or> \<not> is_safe_integer (cachedInputTokens usage)
        \<or> \<not> is_safe_integer (outputTokens usage) \<or> \<not> is_safe_integer (totalTokens usage)
        \<or> inputTokens usage < cachedInputTokens usage
        \<or> totalTokens usage \<noteq> inputTokens usage + outputTokens usage) ''usage_overflow'']
     (Inr usage))"

definition normalizedEventUsage :: "event_usage \<Rightarrow> run_usage" where
  "normalizedEventUsage d = \<lparr>inputTokens = eu_inputTokens d,
     cachedInputTokens = nullish (eu_cachedInputTokens d) 0,
     outputTokens = eu_outputTokens d, totalTokens = eu_totalTokens d\<rparr>"

definition cache_reporting_check :: "event_usage \<Rightarrow> check" where
  "cache_reporting_check d = run_throw_if
     (cacheReadReportingError (eu_cachedInputTokens d) (eu_cachedInputTokensReported d) \<noteq> None)
     ''usage_cache_reporting_invalid''"

definition apply_usage_recorded :: "run_state \<Rightarrow> run_event \<Rightarrow> segment_ref \<Rightarrow> event_usage \<Rightarrow> run_state res" where
  "apply_usage_recorded st e segment d = guarded
     [requireStatus st ''usage.recorded'' [SRunning],
      validateSegmentIdentity segment,
      cache_reporting_check d,
      requireNonNegativeInteger (eu_inputTokens d) ''usage_input_tokens_invalid'',
      requireNonNegativeInteger (nullish (eu_cachedInputTokens d) 0) ''usage_cached_input_tokens_invalid'',
      requireNonNegativeInteger (eu_outputTokens d) ''usage_output_tokens_invalid'',
      requireNonNegativeInteger (eu_totalTokens d) ''usage_total_tokens_invalid'',
      run_throw_if (eu_inputTokens d < nullish (eu_cachedInputTokens d) 0)
        ''usage_cached_input_tokens_exceeds_input'',
      run_throw_if (eu_totalTokens d \<noteq> eu_inputTokens d + eu_outputTokens d) ''usage_total_tokens_mismatch'']
     (then_do (addRunUsage (rs_usage st) (normalizedEventUsage d)) (\<lambda>u.
       Inr ((next_state st e)\<lparr>rs_usage := u\<rparr>)))"

definition apply_context_compacted :: "run_state \<Rightarrow> run_event \<Rightarrow> context_compacted \<Rightarrow> run_state res" where
  "apply_context_compacted st e d = (let u = cc_usage d; cached = nullish (eu_cachedInputTokens u) 0 in guarded
     [requireStatus st ''context.compacted'' [SRunning],
      cache_reporting_check u,
      requireNonEmpty (cc_stepId d) ''compaction_step_id_invalid'',
      requireNonEmpty (cc_compactionItemId d) ''compaction_item_id_invalid'',
      run_throw_if ((case cc_mode d of OtherCompactionMode _ \<Rightarrow> True | _ \<Rightarrow> False)
         \<or> \<not> is_safe_integer (cc_replacesThroughSequence d) \<or> cc_replacesThroughSequence d < 1
         \<or> \<not> is_safe_integer (eu_inputTokens u) \<or> eu_inputTokens u < 0
         \<or> \<not> is_safe_integer cached \<or> cached < 0 \<or> eu_inputTokens u < cached
         \<or> \<not> is_safe_integer (eu_outputTokens u) \<or> eu_outputTokens u < 0
         \<or> \<not> is_safe_integer (eu_totalTokens u)
         \<or> eu_totalTokens u \<noteq> eu_inputTokens u + eu_outputTokens u) ''context_compaction_invalid'']
     (then_do (addRunUsage (rs_usage st) (normalizedEventUsage u)) (\<lambda>u'.
       Inr ((next_state st e)\<lparr>rs_usage := u'\<rparr>))))"

text \<open>
  The observations of a running segment change nothing but the position of the log.  Their checks,
  in three groups; each is made after the status test every one of them starts with.
\<close>

definition segment_started_checks :: "segment_started \<Rightarrow> check list" where
  "segment_started_checks d =
     [validateSegmentIdentity d, requirePositiveInteger (ss_attempt d) ''segment_attempt_invalid'']"

definition nonempty_bounded_delta :: "json option \<Rightarrow> string \<Rightarrow> check list" where
  "nonempty_bounded_delta v code =
     [requireBoundedString v (16 * 1024) code, run_throw_if (v = Some (JStr [])) code]"

definition output_delta_checks :: "output_delta \<Rightarrow> check list" where
  "output_delta_checks d =
     validateSegmentIdentity d # nonempty_bounded_delta (od_delta d) ''model_output_delta_invalid''"

definition reasoning_summary_checks :: "reasoning_summary \<Rightarrow> check list" where
  "reasoning_summary_checks d =
     [validateSegmentIdentity d,
      requireNonNegativeInteger (rm_summaryIndex d) ''model_reasoning_index_invalid'',
      (case rm_kind d of
         ReasoningDelta \<Rightarrow> first_throw
           (run_throw_if (rm_delta d = None) ''model_reasoning_delta_invalid''
            # nonempty_bounded_delta (rm_delta d) ''model_reasoning_delta_invalid'')
       | ReasoningPartAdded \<Rightarrow> None
       | OtherReasoningKind _ \<Rightarrow> Some (RunLifecycleError ''model_reasoning_kind_invalid''))]"

definition sampling_retry_checks :: "sampling_retry \<Rightarrow> check list" where
  "sampling_retry_checks d =
     [validateSegmentIdentity d,
      requirePositiveInteger (sr_samplingAttempt d) ''sampling_attempt_invalid'',
      requirePositiveInteger (sr_maxRetries d) ''sampling_retries_invalid'',
      run_throw_if (sr_maxRetries d < sr_samplingAttempt d) ''sampling_attempt_invalid'',
      requireNonEmpty (sr_code d) ''sampling_retry_code_invalid'',
      run_throw_if (\<not> is_boolean (sr_discardedOutput d)) ''sampling_retry_discard_invalid'']"

definition transport_fallback_checks :: "transport_fallback \<Rightarrow> check list" where
  "transport_fallback_checks d =
     [validateSegmentIdentity d,
      requireNonEmpty (tf_fromTransport d) ''model_transport_from_invalid'',
      requireNonEmpty (tf_toTransport d) ''model_transport_to_invalid'',
      requireNonEmpty (tf_code d) ''model_transport_fallback_code_invalid'',
      run_throw_if (\<not> is_boolean (tf_discardedOutput d)) ''model_transport_fallback_discard_invalid'']"

definition rate_limit_checks :: "segment_ref \<Rightarrow> json \<Rightarrow> check list" where
  "rate_limit_checks d snapshot =
     [validateSegmentIdentity d,
      (case runRateLimitSnapshotError snapshot of None \<Rightarrow> None | Some code \<Rightarrow> Some (RunLifecycleError code))]"

definition tool_requested_checks :: "tool_requested \<Rightarrow> check list" where
  "tool_requested_checks d =
     [validateSegmentIdentity d, validateToolIdentity d,
      requireBoundedString (tq_input d) (32 * 1024) ''tool_input_invalid'']"

definition tool_completed_checks :: "tool_completed \<Rightarrow> check list" where
  "tool_completed_checks d =
     [validateSegmentIdentity d, validateToolIdentity d,
      requireBoundedString (tc_output d) 40000 ''tool_output_invalid'',
      requireNullableNonEmpty (tc_artifactRef d) ''tool_artifact_ref_invalid'',
      run_throw_if (\<not> is_boolean (tc_isError d) \<or> \<not> is_boolean (tc_outputTruncated d)) ''tool_result_invalid'',
      when_some (tc_workspaceChanges d) (\<lambda>w. rethrow
        (\<lambda>_. RunLifecycleError ''tool_workspace_changes_invalid'') (validateWorkspaceChangeSummary w))]"

definition checkpoint_checks :: "segment_checkpointed \<Rightarrow> check list" where
  "checkpoint_checks d = [validateSegmentIdentity d, requireDigest (sc_checkpointDigest d)]"

definition provider_continuation_checks :: "provider_continuation \<Rightarrow> check list" where
  "provider_continuation_checks d =
     [validateSegmentIdentity d,
      when_some (pc_emptyContinuation d) (\<lambda>v. run_throw_if (\<not> isEmptyProviderContinuationSource v)
        ''provider_continuation_kind_invalid''),
      requirePositiveInteger (pc_sampleIndex d) ''provider_sample_index_invalid'',
      requirePositiveInteger (pc_throughHistorySequence d) ''provider_history_sequence_invalid'']"

definition segment_failed_checks :: "segment_failed \<Rightarrow> check list" where
  "segment_failed_checks d =
     [validateSegmentIdentity d, requireNonEmpty (sf_code d) ''segment_failure_code_invalid'']"

definition message_completed_checks :: "message_completed \<Rightarrow> check list" where
  "message_completed_checks d =
     [requireNonEmpty (mc_messageId d) ''message_id_invalid'',
      requirePositiveInteger (mc_messageSequence d) ''message_sequence_invalid'',
      run_throw_if (mc_role d \<noteq> AssistantRole) ''message_role_invalid'',
      requireDigest (mc_contentDigest d)]"

definition plan_proposed_checks :: "run_state \<Rightarrow> plan_proposed \<Rightarrow> check list" where
  "plan_proposed_checks st d =
     [run_throw_if (rs_collaborationMode st \<noteq> PlanMode) ''proposed_plan_mode_invalid'',
      requireNonEmpty (pp_planId d) ''proposed_plan_id_invalid'',
      requireNonEmpty (pp_messageId d) ''proposed_plan_message_invalid'',
      requirePositiveInteger (pp_messageSequence d) ''proposed_plan_message_sequence_invalid'',
      requireDigest (pp_contentDigest d)]"

definition observe :: "run_state \<Rightarrow> run_event \<Rightarrow> check list \<Rightarrow> run_state res" where
  "observe st e checks =
     guarded (requireStatus st (event_type (ev_data e)) [SRunning] # checks) (Inr (next_state st e))"

section \<open>The reducer\<close>

definition apply_event :: "run_state \<Rightarrow> run_event \<Rightarrow> run_state res" where
  "apply_event st e = (case ev_data e of
     RunCreated _ \<Rightarrow> Inl (RunLifecycleError ''run_already_created'')
   | RunStarted \<Rightarrow> apply_started st e
   | RunApprovalRequired d \<Rightarrow> apply_approval_required st e d
   | RunResumed reason \<Rightarrow> apply_resumed st e reason
   | RunSuspended reason \<Rightarrow> apply_suspended st e reason
   | RunReconciliationRequired receipt \<Rightarrow> apply_reconciliation_required st e receipt
   | RunCancelRequested actor \<Rightarrow> apply_cancel_requested st e actor
   | RunCompleted output \<Rightarrow> apply_completed st e output
   | RunFailed d \<Rightarrow> apply_failed st e d
   | RunCanceled reason \<Rightarrow> apply_canceled st e reason
   | RunGoalAccountingUpdated nxt \<Rightarrow> apply_accounting_updated st e nxt
   | RunGoalSteeringConsumed handoffId \<Rightarrow> apply_steering_consumed st e handoffId
   | RunPlanUpdated callId plan \<Rightarrow> apply_plan_updated st e callId plan
   | SegmentStarted d \<Rightarrow> observe st e (segment_started_checks d)
   | ModelSamplingRetry d \<Rightarrow> observe st e (sampling_retry_checks d)
   | ModelTransportFallback d \<Rightarrow> observe st e (transport_fallback_checks d)
   | ModelOutputDelta d \<Rightarrow> observe st e (output_delta_checks d)
   | ModelReasoningSummary d \<Rightarrow> observe st e (reasoning_summary_checks d)
   | ToolRequested d \<Rightarrow> observe st e (tool_requested_checks d)
   | ToolCompleted d \<Rightarrow> observe st e (tool_completed_checks d)
   | ContextCompacted d \<Rightarrow> apply_context_compacted st e d
   | RateLimitUpdated d snapshot \<Rightarrow> observe st e (rate_limit_checks d snapshot)
   | UsageRecorded segment d \<Rightarrow> apply_usage_recorded st e segment d
   | SegmentCheckpointed d \<Rightarrow> observe st e (checkpoint_checks d)
   | SegmentCompleted d \<Rightarrow> observe st e [validateSegmentIdentity d]
   | SegmentProviderContinuation d \<Rightarrow> observe st e (provider_continuation_checks d)
   | SegmentFailed d \<Rightarrow> observe st e (segment_failed_checks d)
   | PlanProposed d \<Rightarrow> observe st e (plan_proposed_checks st d)
   | MessageCompleted d \<Rightarrow> observe st e (message_completed_checks d))"

definition reduce_checks :: "run_state \<Rightarrow> run_event \<Rightarrow> check list" where
  "reduce_checks st e =
     [run_throw_if (ev_runId e \<noteq> rs_runId st) ''run_id_mismatch'',
      run_throw_if (ev_sequence e \<noteq> rs_lastSequence st + 1) ''sequence_gap'',
      run_throw_if (isTerminal (rs_status st)) ''terminal_state'',
      validateCancelProgress st (event_type (ev_data e))]"

definition reduceRunLifecycleEvent :: "run_state option \<Rightarrow> run_event \<Rightarrow> run_state res" where
  "reduceRunLifecycleEvent state e = guarded [validateEventEnvelope e]
     (case state of None \<Rightarrow> createRun e
      | Some st \<Rightarrow> guarded (reduce_checks st e) (apply_event st e))"

definition replayRunLifecycle :: "run_event list \<Rightarrow> run_state res" where
  "replayRunLifecycle es = then_do (replay_events reduceRunLifecycleEvent None es) (\<lambda>state.
     case state of None \<Rightarrow> Inl (RunLifecycleError ''run_events_empty'') | Some st \<Rightarrow> Inr st)"

end
