(* ===== verification/Run_Laws.thy ===== *)
theory Run_Laws
  imports Run_Lifecycle
begin

text \<open>
  What the Run reducer guarantees: the shape of every step, the invariant of all replayed
  states, the numbering of the log, the cancellation gate, the usage ledger, and the exact
  correspondence with an abstract graph of statuses.
\<close>

section \<open>The shape of a step\<close>

lemma reduce_Some_Inr: "reduceRunLifecycleEvent (Some s) e = Inr t \<longleftrightarrow>
    validateEventEnvelope e = None \<and> ev_runId e = rs_runId s \<and> ev_sequence e = rs_lastSequence s + 1
    \<and> \<not> isTerminal (rs_status s) \<and> validateCancelProgress s (event_type (ev_data e)) = None
    \<and> apply_event s e = Inr t"
  by (auto simp: reduceRunLifecycleEvent_def reduce_checks_def)

lemma reduce_None_Inr: "reduceRunLifecycleEvent None e = Inr t \<longleftrightarrow>
    validateEventEnvelope e = None \<and> createRun e = Inr t"
  by (simp add: reduceRunLifecycleEvent_def)

lemma envelope_None: "validateEventEnvelope e = None \<longleftrightarrow>
    ev_schemaVersion e = js ''crewon.run-event.v0'' \<and> \<not> is_blank (ev_eventId e) \<and> \<not> is_blank (ev_runId e)
    \<and> positive_safe_integer (ev_sequence e) \<and> is_timestamp (ev_occurredAt e)"
  by (auto simp: validateEventEnvelope_def positive_safe_integer_def)

text \<open>The usage an event records, if any.\<close>

definition recorded_usage :: "run_event \<Rightarrow> run_usage option" where
  "recorded_usage e = (case ev_data e of UsageRecorded _ d \<Rightarrow> Some (normalizedEventUsage d)
     | ContextCompacted d \<Rightarrow> Some (normalizedEventUsage (cc_usage d)) | _ \<Rightarrow> None)"

definition usage_sum :: "run_usage \<Rightarrow> run_usage \<Rightarrow> run_usage" where
  "usage_sum u v = \<lparr>inputTokens = inputTokens u + inputTokens v,
     cachedInputTokens = cachedInputTokens u + cachedInputTokens v,
     outputTokens = outputTokens u + outputTokens v, totalTokens = totalTokens u + totalTokens v\<rparr>"

text \<open>Each kind of accepted step with what it requires and the state it gives.\<close>

inductive run_effect :: "run_state \<Rightarrow> run_event \<Rightarrow> run_state \<Rightarrow> bool" for s e where
  started: "rs_status s = SQueued \<Longrightarrow> ev_data e = RunStarted \<Longrightarrow>
    startRunGoalAccounting (rs_goalAccounting s) (ev_sequence e) (ev_occurredAt e) = Inr c \<Longrightarrow>
    run_effect s e ((next_state s e)\<lparr>rs_status := SRunning, rs_goalAccounting := c\<rparr>)"
| waiting: "rs_status s = SRunning \<Longrightarrow> ev_data e = RunApprovalRequired d \<Longrightarrow>
    run_effect s e ((next_state s e)\<lparr>rs_status := SWaitingApproval, rs_waitingApproval := Some d\<rparr>)"
| resumed: "rs_status s \<in> {SWaitingApproval, SSuspended, SReconciling} \<Longrightarrow> ev_data e = RunResumed r \<Longrightarrow>
    run_effect s e ((next_state s e)\<lparr>rs_status := SRunning, rs_waitingApproval := None,
      rs_suspensionReasonCode := None, rs_reconciliationReceiptId := None\<rparr>)"
| suspended: "rs_status s = SRunning \<Longrightarrow> ev_data e = RunSuspended r \<Longrightarrow>
    run_effect s e ((next_state s e)\<lparr>rs_status := SSuspended, rs_suspensionReasonCode := Some r\<rparr>)"
| reconciling: "rs_status s = SRunning \<Longrightarrow> ev_data e = RunReconciliationRequired r \<Longrightarrow>
    run_effect s e ((next_state s e)\<lparr>rs_status := SReconciling, rs_reconciliationReceiptId := Some r\<rparr>)"
| cancel_requested: "ev_data e = RunCancelRequested a \<Longrightarrow>
    run_effect s e ((next_state s e)\<lparr>rs_cancelRequested := True\<rparr>)"
| completed: "rs_status s = SRunning \<Longrightarrow> ev_data e = RunCompleted output \<Longrightarrow>
    run_effect s e ((next_state s e)\<lparr>rs_status := SCompleted, rs_outputRef := output,
      rs_terminalAt := Some (ev_occurredAt e)\<rparr>)"
| failed: "ev_data e = RunFailed d \<Longrightarrow>
    run_effect s e ((next_state s e)\<lparr>rs_status := SFailed, rs_failure := Some d,
      rs_terminalAt := Some (ev_occurredAt e)\<rparr>)"
| canceled: "rs_cancelRequested s \<Longrightarrow> rs_status s \<noteq> SReconciling \<Longrightarrow> ev_data e = RunCanceled r \<Longrightarrow>
    run_effect s e ((next_state s e)\<lparr>rs_status := SCanceled, rs_terminalAt := Some (ev_occurredAt e)\<rparr>)"
| accounting: "ev_data e = RunGoalAccountingUpdated c \<Longrightarrow>
    reduceRunGoalAccountingUpdate (rs_goalAccounting s) c (rs_usage s) (rs_lastSequence s) (ev_occurredAt e) = Inr c \<Longrightarrow>
    run_effect s e ((next_state s e)\<lparr>rs_goalAccounting := Some c\<rparr>)"
| steering: "ev_data e = RunGoalSteeringConsumed h \<Longrightarrow> rs_goalAccounting s = Some c \<Longrightarrow>
    consumeRunGoalSteering c h (ev_occurredAt e) = Inr c' \<Longrightarrow>
    run_effect s e ((next_state s e)\<lparr>rs_goalAccounting := Some c'\<rparr>)"
| planned: "rs_status s = SRunning \<Longrightarrow> ev_data e = RunPlanUpdated call p \<Longrightarrow>
    rs_collaborationMode s = DefaultMode \<Longrightarrow> nullish (rs_purpose s) TurnPurpose = TurnPurpose \<Longrightarrow>
    validateRunPlan p = None \<Longrightarrow> rp_planId p = rs_runId s \<Longrightarrow>
    rp_revision p = nullish (map_option rp_revision (rs_plan s)) 0 + 1 \<Longrightarrow>
    rp_createdAt p = nullish (map_option rp_createdAt (rs_plan s)) (ev_occurredAt e) \<Longrightarrow>
    rp_updatedAt p = ev_occurredAt e \<Longrightarrow>
    run_effect s e ((next_state s e)\<lparr>rs_plan := Some p\<rparr>)"
| used: "rs_status s = SRunning \<Longrightarrow> recorded_usage e = Some d \<Longrightarrow> usage_ok d \<Longrightarrow>
    (case ev_data e of UsageRecorded _ _ \<Rightarrow> True | ContextCompacted _ \<Rightarrow> True | _ \<Rightarrow> False) \<Longrightarrow>
    usage_ok (usage_sum (rs_usage s) d) \<or> \<not> usage_ok (rs_usage s) \<Longrightarrow>
    run_effect s e ((next_state s e)\<lparr>rs_usage := usage_sum (rs_usage s) d\<rparr>)"
| observed: "rs_status s = SRunning \<Longrightarrow> ev_data e \<noteq> RunStarted \<Longrightarrow> recorded_usage e = None \<Longrightarrow>
    event_type (ev_data e) \<notin> {''run.started'', ''run.resumed'', ''run.canceled'', ''run.cancel.requested'',
      ''run.reconciliation.required'', ''run.goal.accounting.updated''} \<Longrightarrow>
    run_effect s e (next_state s e)"

lemma addRunUsage_Inr: "addRunUsage u d = Inr v \<Longrightarrow> v = usage_sum u d"
  by (auto simp: addRunUsage_def Let_def usage_sum_def)

lemma addRunUsage_ok:
  assumes "addRunUsage u d = Inr v" and "usage_ok u" and "usage_ok d"
  shows "usage_ok v"
  using assms by (auto simp: addRunUsage_def Let_def usage_ok_def non_negative_safe_integer_def)

lemma reduce_update_Inr:
  "reduceRunGoalAccountingUpdate c nxt u n at = Inr c' \<Longrightarrow> c' = nxt"
  by (simp add: reduceRunGoalAccountingUpdate_def)

lemmas apply_defs = apply_started_def apply_approval_required_def apply_resumed_def apply_suspended_def
  apply_reconciliation_required_def apply_cancel_requested_def apply_completed_def apply_failed_def
  apply_canceled_def apply_accounting_updated_def apply_steering_consumed_def apply_plan_updated_def

lemma usage_recorded_effect:
  assumes "apply_usage_recorded s e g d = Inr t" and "ev_data e = UsageRecorded g d"
  shows "run_effect s e t"
proof -
  have u: "recorded_usage e = Some (normalizedEventUsage d)" by (simp add: recorded_usage_def assms(2))
  have ok: "usage_ok (normalizedEventUsage d)"
    using assms(1) by (auto simp: apply_usage_recorded_def usage_ok_def normalizedEventUsage_def not_less)
  from assms(1) obtain v where v: "addRunUsage (rs_usage s) (normalizedEventUsage d) = Inr v"
    and t: "t = (next_state s e)\<lparr>rs_usage := v\<rparr>" and st: "rs_status s = SRunning"
    by (auto simp: apply_usage_recorded_def)
  show ?thesis
    unfolding t addRunUsage_Inr [OF v] using addRunUsage_ok [OF v _ ok] addRunUsage_Inr [OF v]
    by (intro run_effect.used) (auto simp: st u ok assms(2))
qed

lemma context_compacted_effect:
  assumes "apply_context_compacted s e d = Inr t" and "ev_data e = ContextCompacted d"
  shows "run_effect s e t"
proof -
  have u: "recorded_usage e = Some (normalizedEventUsage (cc_usage d))" by (simp add: recorded_usage_def assms(2))
  have ok: "usage_ok (normalizedEventUsage (cc_usage d))"
    using assms(1) by (auto simp: apply_context_compacted_def usage_ok_def normalizedEventUsage_def not_less
        Let_def non_negative_safe_integer_def)
  from assms(1) obtain v where v: "addRunUsage (rs_usage s) (normalizedEventUsage (cc_usage d)) = Inr v"
    and t: "t = (next_state s e)\<lparr>rs_usage := v\<rparr>" and st: "rs_status s = SRunning"
    by (auto simp: apply_context_compacted_def Let_def)
  show ?thesis
    unfolding t addRunUsage_Inr [OF v] using addRunUsage_ok [OF v _ ok] addRunUsage_Inr [OF v]
    by (intro run_effect.used) (auto simp: st u ok assms(2))
qed

lemma observed_effect:
  assumes "observe s e cs = Inr t" and "recorded_usage e = None"
    and "event_type (ev_data e) \<notin> {''run.started'', ''run.resumed'', ''run.canceled'', ''run.cancel.requested'',
      ''run.reconciliation.required'', ''run.goal.accounting.updated''}"
  shows "run_effect s e t"
  using assms by (auto simp: observe_def intro!: run_effect.observed)

lemma apply_event_effect:
  assumes "apply_event s e = Inr t"
  shows "run_effect s e t"
proof (cases "ev_data e")
  case (RunCreated d)
  then show ?thesis using assms by (simp add: apply_event_def)
next
  case (UsageRecorded g d)
  then show ?thesis using assms by (simp add: apply_event_def usage_recorded_effect)
next
  case (ContextCompacted d)
  then show ?thesis using assms by (simp add: apply_event_def context_compacted_effect)
next
  case (RunGoalAccountingUpdated c)
  then show ?thesis using assms
    by (auto simp: apply_event_def apply_defs dest: reduce_update_Inr intro: run_effect.accounting)
next
  case (RunGoalSteeringConsumed h)
  then show ?thesis using assms
    by (auto simp: apply_event_def apply_defs intro: run_effect.steering split: option.splits)
next
  case (RunPlanUpdated call p)
  then show ?thesis using assms
    by (auto simp: apply_event_def apply_defs intro!: run_effect.planned)
qed (use assms in \<open>auto simp: apply_event_def apply_defs recorded_usage_def
       intro: run_effect.intros elim!: observed_effect\<close>)

text \<open>An accepted step with the envelope and the gates it has passed.\<close>

lemma reduce_effect:
  assumes "reduceRunLifecycleEvent (Some s) e = Inr t"
  shows "run_effect s e t" "ev_runId e = rs_runId s" "ev_sequence e = rs_lastSequence s + 1"
    "\<not> isTerminal (rs_status s)" "positive_safe_integer (ev_sequence e)" "is_timestamp (ev_occurredAt e)"
    "validateCancelProgress s (event_type (ev_data e)) = None"
  using assms by (auto simp: reduce_Some_Inr apply_event_effect envelope_None)

text \<open>The events that pass the gate of a Run whose cancellation is requested.\<close>

lemma cancel_gate:
  assumes "validateCancelProgress s ty = None" and "rs_cancelRequested s"
  shows "ty = ''run.canceled'' \<or> ty = ''run.goal.accounting.updated''
    \<or> ty = ''run.reconciliation.required'' \<and> rs_status s = SRunning
    \<or> ty = ''run.resumed'' \<and> rs_status s \<noteq> SSuspended"
proof -
  have split: "(if c then None else if b1 then Some e1 else if b2 then None else Some e2) = None \<Longrightarrow> \<not> c \<Longrightarrow> b2"
    for c b1 b2 and e1 e2 :: js_error by (simp split: if_split_asm)
  have "\<not> \<not> rs_cancelRequested s" using assms(2) by simp
  from split [OF assms(1) [unfolded validateCancelProgress_def] this] show ?thesis
    by (elim disjE conjE) simp_all
qed

section \<open>The invariant\<close>

definition status_wf :: "run_state \<Rightarrow> bool" where
  "status_wf s \<longleftrightarrow>
     rs_terminalAt s = (if isTerminal (rs_status s) then Some (rs_updatedAt s) else None)
   \<and> (rs_failure s \<noteq> None \<longleftrightarrow> rs_status s = SFailed)
   \<and> (rs_outputRef s \<noteq> None \<longrightarrow> rs_status s = SCompleted)
   \<and> (rs_status s = SCanceled \<longrightarrow> rs_cancelRequested s)
   \<and> (rs_cancelRequested s \<longrightarrow> rs_status s \<noteq> SCompleted \<and> rs_status s \<noteq> SFailed)
   \<and> (rs_status s = SWaitingApproval \<longrightarrow> rs_waitingApproval s \<noteq> None)
   \<and> (rs_waitingApproval s \<noteq> None \<longrightarrow> rs_status s \<in> {SWaitingApproval, SFailed, SCanceled})
   \<and> (rs_suspensionReasonCode s \<noteq> None \<longleftrightarrow> rs_status s = SSuspended
        \<or> rs_suspensionReasonCode s \<noteq> None \<and> rs_status s \<in> {SFailed, SCanceled})
   \<and> (rs_reconciliationReceiptId s \<noteq> None \<longleftrightarrow> rs_status s = SReconciling
        \<or> rs_reconciliationReceiptId s \<noteq> None \<and> rs_status s = SFailed)"

lemma status_wf_step:
  assumes "reduceRunLifecycleEvent (Some s) e = Inr t" and "status_wf s"
  shows "status_wf t"
proof -
  note r = reduce_effect [OF assms(1)]
  have n: "rs_terminalAt s = None" "rs_failure s = None" "rs_outputRef s = None"
    using assms(2) r(4) by (auto simp: status_wf_def isTerminal_def)
  show ?thesis
    using r(1)
  proof (cases rule: run_effect.cases)
    case completed
    then show ?thesis using assms(2) n cancel_gate [OF r(7)]
      by (auto simp: status_wf_def next_state_def isTerminal_def)
  next
    case failed
    then show ?thesis using assms(2) n cancel_gate [OF r(7)]
      by (auto simp: status_wf_def next_state_def isTerminal_def)
  qed (use assms(2) n r(4) in \<open>auto simp: status_wf_def next_state_def isTerminal_def\<close>)
qed

text \<open>The cursor against the Run's own usage and position.\<close>

definition cursor_wf :: "run_state \<Rightarrow> run_goal_accounting_cursor \<Rightarrow> bool" where
  "cursor_wf s c \<longleftrightarrow> validateRunGoalAccountingCursor c = None
     \<and> ac_throughRunSequence c \<le> rs_lastSequence s \<and> ac_revision c \<le> rs_lastSequence s
     \<and> \<not> usageRegressed (ac_accountedUsage c) (rs_usage s)"

definition plan_wf :: "run_state \<Rightarrow> run_plan \<Rightarrow> bool" where
  "plan_wf s p \<longleftrightarrow> validateRunPlan p = None \<and> rp_planId p = rs_runId s
     \<and> rs_collaborationMode s = DefaultMode \<and> nullish (rs_purpose s) TurnPurpose = TurnPurpose"

definition ledger_wf :: "run_state \<Rightarrow> bool" where
  "ledger_wf s \<longleftrightarrow> rs_revision s = rs_lastSequence s \<and> positive_safe_integer (rs_lastSequence s)
     \<and> is_timestamp (rs_updatedAt s) \<and> usage_ok (rs_usage s)
     \<and> (\<forall>c. rs_goalAccounting s = Some c \<longrightarrow> cursor_wf s c)
     \<and> (\<forall>p. rs_plan s = Some p \<longrightarrow> plan_wf s p)"

lemma not_date_less_trans:
  assumes "\<not> date_less b a" and "\<not> date_less c b" and "b = Some x"
  shows "\<not> date_less c a"
  using assms by (auto simp: date_less_def split: option.splits)

lemma start_keeps_valid:
  assumes "startRunGoalAccounting (Some c) n at = Inr r"
  obtains c' where "r = Some c'" "validateRunGoalAccountingCursor c' = None" "ac_revision c' = ac_revision c + 1"
    "ac_throughRunSequence c' = n" "ac_accountedUsage c' = ac_accountedUsage c"
proof -
  define c' where "c' = c\<lparr>ac_revision := ac_revision c + 1, ac_throughRunSequence := n,
      ac_timeBaselineAt := Some at, ac_updatedAt := at\<rparr>"
  from assms have r: "r = Some c'" and v: "validateRunGoalAccountingCursor c = None"
    and n: "acc_require_positive n ''goal_accounting_sequence_invalid'' = None"
    and at: "is_timestamp at" and later: "\<not> date_less (iso_time at) (iso_time (ac_updatedAt c))"
    and safe: "non_negative_safe_integer (ac_revision c + 1)"
    by (auto simp: startRunGoalAccounting_def acc_increment_def c'_def acc_validate_timestamp_def)
  from at obtain ta where ta: "iso_time at = Some ta" by (auto simp: is_timestamp_iff)
  from v obtain tu where tu: "iso_time (ac_updatedAt c) = Some tu"
    by (auto simp: validateRunGoalAccountingCursor_def acc_validate_timestamp_def is_timestamp_iff)
  have rev: "positive_safe_integer (ac_revision c + 1)"
    using v safe by (auto simp: validateRunGoalAccountingCursor_def acc_require_positive_def safe_integer_defs)
  have h: "check_handoff c' h = None" if "ac_pendingSteering c = Some h" for h
  proof -
    have ch: "check_handoff c h = None" using v that by (simp add: validateRunGoalAccountingCursor_def)
    then have "\<not> date_less (iso_time (ac_updatedAt c)) (iso_time (ho_createdAt h))"
      by (simp add: check_handoff_def)
    from not_date_less_trans [OF this later tu] ch show ?thesis
      by (simp add: check_handoff_def c'_def)
  qed
  have "validateRunGoalAccountingCursor c' = None"
    using v n at ta rev h
    by (simp add: validateRunGoalAccountingCursor_def c'_def acc_validate_timestamp_def
        acc_require_positive_def when_some_None_iff)
  then show thesis by (intro that [OF r]) (simp_all add: c'_def)
qed

lemma consume_keeps_valid:
  assumes "consumeRunGoalSteering c h at = Inr c'"
  shows "validateRunGoalAccountingCursor c' = None" "ac_revision c' = ac_revision c + 1"
    "ac_throughRunSequence c' = ac_throughRunSequence c" "ac_accountedUsage c' = ac_accountedUsage c"
proof -
  from assms have c': "c' = c\<lparr>ac_revision := ac_revision c + 1, ac_pendingSteering := None, ac_updatedAt := at\<rparr>"
    and v: "validateRunGoalAccountingCursor c = None"
    and at: "is_timestamp at" and later: "\<not> date_less (iso_time at) (iso_time (ac_updatedAt c))"
    and safe: "non_negative_safe_integer (ac_revision c + 1)"
    by (auto simp: consumeRunGoalSteering_def acc_increment_def acc_validate_timestamp_def)
  from v obtain tu where tu: "iso_time (ac_updatedAt c) = Some tu"
    by (auto simp: validateRunGoalAccountingCursor_def acc_validate_timestamp_def is_timestamp_iff)
  have rev: "positive_safe_integer (ac_revision c + 1)"
    using v safe by (auto simp: validateRunGoalAccountingCursor_def acc_require_positive_def safe_integer_defs)
  show "validateRunGoalAccountingCursor c' = None"
    using v at rev not_date_less_trans [OF _ later tu]
    by (auto simp: validateRunGoalAccountingCursor_def c' acc_validate_timestamp_def
        acc_require_positive_def when_some_None_iff)
  show "ac_revision c' = ac_revision c + 1" "ac_throughRunSequence c' = ac_throughRunSequence c"
    "ac_accountedUsage c' = ac_accountedUsage c"
    by (simp_all add: c')
qed

lemma usage_sum_not_regressed:
  "\<not> usageRegressed a u \<Longrightarrow> usage_ok d \<Longrightarrow> \<not> usageRegressed a (usage_sum u d)"
  by (auto simp: usageRegressed_def usage_sum_def usage_ok_def non_negative_safe_integer_def)

lemma cursor_wf_later:
  "cursor_wf s c \<Longrightarrow> rs_usage t = rs_usage s \<Longrightarrow> rs_lastSequence t = rs_lastSequence s + 1 \<Longrightarrow> cursor_wf t c"
  by (simp add: cursor_wf_def)

text \<open>The cursor after any step is well-formed for the state after it.\<close>

lemma cursor_step:
  assumes "run_effect s e t" and "ev_sequence e = rs_lastSequence s + 1" and "ledger_wf s"
    and "rs_goalAccounting t = Some c"
  shows "cursor_wf t c"
  using assms(1)
proof (cases rule: run_effect.cases)
  case (started d)
  then obtain c0 where c0: "rs_goalAccounting s = Some c0"
    using assms(4) by (cases "rs_goalAccounting s") (auto simp: startRunGoalAccounting_def)
  with started have "startRunGoalAccounting (Some c0) (ev_sequence e) (ev_occurredAt e) = Inr d" by simp
  then show ?thesis
    using c0 started assms
    by (elim start_keeps_valid) (auto simp: cursor_wf_def ledger_wf_def next_state_def)
next
  case (accounting d)
  then have "ac_revision c = nullish (map_option ac_revision (rs_goalAccounting s)) 0 + 1"
    "ac_throughRunSequence c \<le> rs_lastSequence s" "validateRunGoalAccountingCursor c = None"
    "\<not> usageRegressed (ac_accountedUsage c) (rs_usage s)"
    using assms(4) by (auto simp: reduceRunGoalAccountingUpdate_def not_less)
  moreover have "nullish (map_option ac_revision (rs_goalAccounting s)) 0 \<le> rs_lastSequence s"
    using assms(3) by (cases "rs_goalAccounting s")
      (auto simp: ledger_wf_def cursor_wf_def positive_safe_integer_def)
  ultimately show ?thesis
    using accounting assms(2) by (simp add: cursor_wf_def next_state_def)
next
  case (steering h d d')
  with assms consume_keeps_valid [OF steering(4)] show ?thesis
    by (auto simp: cursor_wf_def ledger_wf_def next_state_def)
next
  case (used d)
  then have "\<not> usageRegressed a (usage_sum (rs_usage s) d)" if "\<not> usageRegressed a (rs_usage s)" for a
    using that by (simp add: usage_sum_not_regressed)
  with used assms show ?thesis
    by (auto simp: cursor_wf_def ledger_wf_def next_state_def)
qed (use assms in \<open>auto simp: ledger_wf_def next_state_def intro: cursor_wf_later\<close>)

lemma ledger_wf_step:
  assumes "reduceRunLifecycleEvent (Some s) e = Inr t" and "ledger_wf s"
  shows "ledger_wf t"
proof -
  note r = reduce_effect [OF assms(1)]
  have "\<forall>c. rs_goalAccounting t = Some c \<longrightarrow> cursor_wf t c"
    using cursor_step [OF r(1) r(3) assms(2)] by blast
  moreover have "rs_revision t = rs_revision s + 1 \<and> rs_lastSequence t = ev_sequence e
      \<and> rs_updatedAt t = ev_occurredAt e \<and> usage_ok (rs_usage t)"
    using r(1) by (cases rule: run_effect.cases) (use assms(2) in \<open>auto simp: ledger_wf_def next_state_def\<close>)
  moreover have "\<forall>p. rs_plan t = Some p \<longrightarrow> plan_wf t p"
    using r(1) by (cases rule: run_effect.cases) (use assms(2) in \<open>auto simp: ledger_wf_def plan_wf_def next_state_def\<close>)
  ultimately show ?thesis
    using assms(2) r by (simp add: ledger_wf_def)
qed

section \<open>Creation\<close>

definition run_identity where
  "run_identity (s :: run_state) = (rs_runId s, rs_threadId s, rs_tenantId s, rs_spaceId s, rs_createdByActorId s,
     rs_authorityId s, rs_runtimeGeneration s, rs_agentVersionId s, rs_policySnapshotId s,
     rs_workspaceBindingId s, rs_workflowVersionBinding s, rs_collaborationMode s,
     rs_toolPermissionMode s, rs_purpose s, rs_origin s, rs_goalBinding s, rs_goalContinuationMode s,
     rs_createdAt s)"

text \<open>What the purpose, mode and bindings of a Run must agree on.\<close>

definition creation_wf :: "run_state \<Rightarrow> bool" where
  "creation_wf s \<longleftrightarrow> \<not> is_blank (rs_runId s) \<and> rs_collaborationMode s \<in> {DefaultMode, PlanMode}
     \<and> (rs_collaborationMode s = PlanMode \<longrightarrow> rs_goalBinding s = None)
     \<and> (rs_goalContinuationMode s \<noteq> None \<longrightarrow> rs_goalContinuationMode s = Some Deferred
          \<and> rs_collaborationMode s = DefaultMode \<and> rs_goalBinding s \<noteq> None)
     \<and> (rs_origin s \<noteq> None \<longrightarrow> rs_purpose s = Some TurnPurpose
          \<and> (\<forall>b. rs_origin s = Some b \<longrightarrow> bindingRunId b = rs_runId s))
     \<and> (rs_purpose s = Some ManualCompaction \<longrightarrow> rs_collaborationMode s = DefaultMode \<and> rs_goalBinding s = None)
     \<and> (rs_purpose s = Some WorkflowPurpose \<longleftrightarrow> rs_workflowVersionBinding s \<noteq> None)
     \<and> (rs_purpose s = Some WorkflowPurpose \<longrightarrow> rs_goalBinding s = None \<and> rs_collaborationMode s = DefaultMode)
     \<and> (\<forall>b. rs_goalBinding s = Some b \<longrightarrow> validateRunGoalBinding b = None)"

lemma created_shape:
  assumes "reduceRunLifecycleEvent None e = Inr t"
  obtains d w origin c where "ev_data e = RunCreated d" "t = created_state e d w origin c"
    "ev_sequence e = 1" "is_timestamp (ev_occurredAt e)"
    "first_throw (create_mode_checks d) = None" "first_throw (create_binding_checks e d origin) = None"
    "create_cursor (rc_goalBinding d) (ev_occurredAt e) = Inr c"
    "parse_optional_workflow (rc_workflowVersionBinding d) = Inr w"
  using assms
  by (auto simp: reduce_None_Inr createRun_def create_from_def create_identity_checks_def
      envelope_None split: run_event_data.splits)

lemma parse_workflow_object: "parseFrozenWorkflowVersionBinding v = Inr b \<Longrightarrow> v \<noteq> JNull"
  by (auto simp: parseFrozenWorkflowVersionBinding_def is_plain_object_def Let_def)

lemma parse_optional_present:
  "parse_optional_workflow v = Inr w \<Longrightarrow> (v \<noteq> None \<and> v \<noteq> Some JNull) = (w \<noteq> None)"
  by (auto simp: parse_optional_workflow_def dest: parse_workflow_object split: option.splits)

lemma creation_wf_created:
  assumes "reduceRunLifecycleEvent None e = Inr t"
  shows "creation_wf t"
  using assms
proof (rule created_shape)
  fix d w origin c
  assume a: "t = created_state e d w origin c" "first_throw (create_mode_checks d) = None"
    "first_throw (create_binding_checks e d origin) = None"
    "parse_optional_workflow (rc_workflowVersionBinding d) = Inr w"
  have w: "(rc_purpose d = Some WorkflowPurpose) = (w \<noteq> None)"
    using a(3) parse_optional_present [OF a(4)] by (simp add: create_binding_checks_def)
  have f: "rs_collaborationMode t = rc_collaborationMode d" "rs_goalBinding t = rc_goalBinding d"
    "rs_goalContinuationMode t = rc_goalContinuationMode d" "rs_origin t = origin"
    "rs_purpose t = rc_purpose d" "rs_workflowVersionBinding t = w" "rs_runId t = ev_runId e"
    by (simp_all add: a(1) created_state_def)
  have m: "rc_collaborationMode d = DefaultMode \<or> rc_collaborationMode d = PlanMode"
    "rc_collaborationMode d = PlanMode \<longrightarrow> rc_goalBinding d = None"
    "rc_goalContinuationMode d \<noteq> None \<longrightarrow> rc_goalContinuationMode d = Some Deferred"
    "rc_goalContinuationMode d = Some Deferred \<longrightarrow> rc_collaborationMode d = DefaultMode \<and> rc_goalBinding d \<noteq> None"
    "\<forall>b. rc_goalBinding d = Some b \<longrightarrow> validateRunGoalBinding b = None"
    using a(2) unfolding create_mode_checks_def first_throw_None run_throw_if_None rethrow_None
      when_some_None_iff by blast+
  have o: "\<forall>b. origin = Some b \<longrightarrow> rc_purpose d = Some TurnPurpose \<and> bindingRunId b = ev_runId e"
    "rc_purpose d = Some ManualCompaction \<longrightarrow> rc_collaborationMode d = DefaultMode \<and> rc_goalBinding d = None"
    "rc_purpose d = Some WorkflowPurpose \<longrightarrow> rc_collaborationMode d = DefaultMode \<and> rc_goalBinding d = None"
    using a(3) unfolding create_binding_checks_def first_throw_None run_throw_if_None
      when_some_None_iff by blast+
  have p: "origin \<noteq> None \<longrightarrow> rc_purpose d = Some TurnPurpose \<and> (\<forall>b. origin = Some b \<longrightarrow> bindingRunId b = ev_runId e)"
    using o(1) by (cases origin) simp_all
  have run_id: "\<not> is_blank (ev_runId e)"
    using assms by (simp add: reduce_None_Inr envelope_None)
  show "creation_wf t"
    unfolding creation_wf_def f using m o p w run_id by (intro conjI) (blast, simp, blast+)
qed

lemma create_cursor_valid:
  assumes "createRunGoalAccountingCursor b at = Inr c"
  shows "validateRunGoalAccountingCursor c = None" "ac_throughRunSequence c = 1" "ac_revision c = 1"
    "ac_accountedUsage c = zeroUsage"
  using assms
  by (auto simp: createRunGoalAccountingCursor_def validateRunGoalAccountingCursor_def validateBinding_def
      attribution_of_def validateUsage_None usage_ok_def zeroUsage_def acc_require_positive_def safe_integer_defs)

lemma zero_usage_ok: "usage_ok zeroUsage"
  by (simp add: usage_ok_def zeroUsage_def safe_integer_defs)

lemma created_wf:
  assumes "reduceRunLifecycleEvent None e = Inr t"
  shows "status_wf t" "ledger_wf t" "rs_usage t = zeroUsage" "rs_status t = SQueued"
    "\<not> rs_cancelRequested t" "rs_lastSequence t = 1"
proof -
  from assms obtain d w origin c where t: "t = created_state e d w origin c"
    and at: "is_timestamp (ev_occurredAt e)" and c: "create_cursor (rc_goalBinding d) (ev_occurredAt e) = Inr c"
    by (rule created_shape)
  show "rs_usage t = zeroUsage" "rs_status t = SQueued" "\<not> rs_cancelRequested t" "rs_lastSequence t = 1"
    by (simp_all add: t created_state_def)
  show "status_wf t" by (simp add: t created_state_def status_wf_def isTerminal_def)
  have "cursor_wf t k" if "c = Some k" for k
  proof -
    from c that obtain b where "createRunGoalAccountingCursor b (ev_occurredAt e) = Inr k"
      by (auto simp: create_cursor_def split: option.splits)
    from create_cursor_valid [OF this] show ?thesis
      by (simp add: cursor_wf_def t created_state_def usageRegressed_def)
  qed
  then show "ledger_wf t"
    using at zero_usage_ok by (auto simp: ledger_wf_def t created_state_def safe_integer_defs)
qed

section \<open>The replay contract\<close>

lemma identity_step: "run_effect s e t \<Longrightarrow> run_identity t = run_identity s"
  by (erule run_effect.cases) (auto simp: run_identity_def next_state_def)

lemma position_step: "run_effect s e t \<Longrightarrow> rs_lastSequence t = ev_sequence e \<and> rs_revision t = rs_revision s + 1"
  by (erule run_effect.cases) (auto simp: next_state_def)

interpretation run_log: event_reducer reduceRunLifecycleEvent ev_sequence rs_lastSequence rs_revision
  run_identity "\<lambda>s. isTerminal (rs_status s)"
proof
  fix e s assume "reduceRunLifecycleEvent None e = Inr s"
  then show "ev_sequence e = 1 \<and> rs_lastSequence s = 1 \<and> rs_revision s = 1"
    by (rule created_shape) (simp add: created_state_def)
next
  fix s e t assume "reduceRunLifecycleEvent (Some s) e = Inr t"
  note r = reduce_effect [OF this]
  from r(3) position_step [OF r(1)] identity_step [OF r(1)] show "ev_sequence e = rs_lastSequence s + 1
      \<and> rs_lastSequence t = ev_sequence e \<and> rs_revision t = rs_revision s + 1 \<and> run_identity t = run_identity s"
    by simp
next
  fix s :: run_state and e assume "isTerminal (rs_status s)"
  then show "\<exists>err. reduceRunLifecycleEvent (Some s) e = Inl err"
    using reduce_effect(4) by (cases "reduceRunLifecycleEvent (Some s) e") blast+
qed

definition run_wf :: "run_state \<Rightarrow> bool" where
  "run_wf s \<longleftrightarrow> status_wf s \<and> ledger_wf s \<and> creation_wf s"

lemma creation_wf_identity: "run_identity t = run_identity s \<Longrightarrow> creation_wf s \<Longrightarrow> creation_wf t"
  by (simp add: creation_wf_def run_identity_def)

lemma run_wf_created: "reduceRunLifecycleEvent None e = Inr t \<Longrightarrow> run_wf t"
  by (simp add: run_wf_def created_wf creation_wf_created)

lemma run_wf_step: "run_wf s \<Longrightarrow> reduceRunLifecycleEvent (Some s) e = Inr t \<Longrightarrow> run_wf t"
  using status_wf_step ledger_wf_step creation_wf_identity [of t s] run_log.stepped
  unfolding run_wf_def by blast

lemma replay_lifecycle_Inr: "replayRunLifecycle es = Inr t \<longleftrightarrow> replay_events reduceRunLifecycleEvent None es = Inr (Some t)"
  by (auto simp: replayRunLifecycle_def split: option.splits)

lemma replay_lifecycle_snoc:
  assumes "replayRunLifecycle es = Inr s"
  shows "replayRunLifecycle (es @ [e]) = reduceRunLifecycleEvent (Some s) e"
  using assms by (simp add: replayRunLifecycle_def [of "es @ [e]"] replay_lifecycle_Inr replay_append)
    (simp add: then_do_def split: sum.splits)

lemma replay_run_wf: "replayRunLifecycle es = Inr t \<Longrightarrow> run_wf t"
  using run_log.replay_invariant [of run_wf, OF run_wf_created run_wf_step]
  by (simp add: replay_lifecycle_Inr)

section \<open>The abstract graph of statuses\<close>

type_synonym run_phase = "run_status \<times> bool"

definition phase :: "run_state \<Rightarrow> run_phase" where
  "phase s = (rs_status s, rs_cancelRequested s)"

text \<open>What a Run may do, on its status and its cancellation flag alone.\<close>

inductive phase_step :: "run_phase \<Rightarrow> run_phase \<Rightarrow> bool" where
  "phase_step (SQueued, False) (SRunning, False)"
| "st \<in> {SWaitingApproval, SSuspended, SCompleted} \<Longrightarrow> phase_step (SRunning, False) (st, False)"
| "phase_step (SRunning, c) (SReconciling, c)"
| "st \<in> {SWaitingApproval, SReconciling} \<Longrightarrow> phase_step (st, c) (SRunning, c)"
| "phase_step (SSuspended, False) (SRunning, False)"
| "\<not> isTerminal st \<Longrightarrow> phase_step (st, False) (SFailed, False)"
| "\<not> isTerminal st \<Longrightarrow> phase_step (st, False) (st, True)"
| "\<not> isTerminal st \<Longrightarrow> st \<noteq> SReconciling \<Longrightarrow> phase_step (st, True) (SCanceled, True)"

inductive_simps phase_step_iff: "phase_step (st, c) (st', c')"

text \<open>Every step of the reducer is a step of the graph or keeps the phase.\<close>

lemma phase_simulation:
  assumes "reduceRunLifecycleEvent (Some s) e = Inr t"
  shows "phase t = phase s \<or> phase_step (phase s) (phase t)"
proof -
  note r = reduce_effect [OF assms]
  note gate = cancel_gate [OF r(7)]
  show ?thesis
    using r(1)
  proof (cases rule: run_effect.cases)
    case (failed d)
    then have "\<not> rs_cancelRequested s" using gate by auto
    with failed r(4) show ?thesis by (simp add: phase_def next_state_def phase_step_iff)
  next
    case (cancel_requested a)
    then have "\<not> rs_cancelRequested s" using gate by auto
    with cancel_requested r(4) show ?thesis by (simp add: phase_def next_state_def phase_step_iff)
  next
    case (canceled x)
    with r(4) show ?thesis by (simp add: phase_def next_state_def phase_step_iff)
  next
    case (reconciling x)
    then show ?thesis by (simp add: phase_def next_state_def phase_step_iff)
  next
    case (resumed x)
    then show ?thesis using gate by (auto simp: phase_def next_state_def phase_step_iff)
  next
    case (started c)
    then have "\<not> rs_cancelRequested s" using gate by auto
    with started show ?thesis by (simp add: phase_def next_state_def phase_step_iff)
  next
    case (waiting d)
    then have "\<not> rs_cancelRequested s" using gate by auto
    with waiting show ?thesis by (simp add: phase_def next_state_def phase_step_iff)
  next
    case (suspended x)
    then have "\<not> rs_cancelRequested s" using gate by auto
    with suspended show ?thesis by (simp add: phase_def next_state_def phase_step_iff)
  next
    case (completed x)
    then have "\<not> rs_cancelRequested s" using gate by auto
    with completed show ?thesis by (simp add: phase_def next_state_def phase_step_iff)
  qed (simp_all add: phase_def next_state_def)
qed

text \<open>The next event of a Run, carrying given data at a given time.\<close>

definition event_for :: "run_state \<Rightarrow> js_string \<Rightarrow> run_event_data \<Rightarrow> run_event" where
  "event_for s at d = \<lparr>ev_schemaVersion = js ''crewon.run-event.v0'', ev_runId = rs_runId s,
     ev_eventId = js ''next'', ev_sequence = rs_lastSequence s + 1, ev_occurredAt = at, ev_data = d\<rparr>"

lemma reduce_event_for:
  assumes "run_wf s" and "rs_lastSequence s < max_safe_integer" and "\<not> isTerminal (rs_status s)"
    and "is_timestamp at" and "validateCancelProgress s (event_type d) = None"
  shows "reduceRunLifecycleEvent (Some s) (event_for s at d) = apply_event s (event_for s at d)"
proof -
  have "validateEventEnvelope (event_for s at d) = None"
    using assms by (auto simp: envelope_None event_for_def run_wf_def creation_wf_def ledger_wf_def
        safe_integer_defs string_eval)
  moreover have "first_throw (reduce_checks s (event_for s at d)) = None"
    using assms by (simp add: reduce_checks_def event_for_def)
  ultimately show ?thesis
    by (simp add: reduceRunLifecycleEvent_def guarded_pass)
qed

definition some_text :: js_string where
  "some_text = js ''x''"

lemma some_text_ok [simp]: "\<not> is_blank some_text"
  by (simp add: some_text_def string_eval)

definition phase_data :: "run_phase \<Rightarrow> run_event_data" where
  "phase_data p = (case p of
     (SWaitingApproval, _) \<Rightarrow> RunApprovalRequired \<lparr>wa_approvalId = some_text, wa_actionDigest = some_text\<rparr>
   | (SSuspended, _) \<Rightarrow> RunSuspended some_text | (SReconciling, _) \<Rightarrow> RunReconciliationRequired some_text
   | (SCompleted, _) \<Rightarrow> RunCompleted None | (SFailed, _) \<Rightarrow> RunFailed \<lparr>rf_code = some_text, rf_retryable = False\<rparr>
   | (SCanceled, _) \<Rightarrow> RunCanceled some_text | _ \<Rightarrow> RunResumed some_text)"

lemmas event_for_simps = event_for_def phase_data_def apply_event_def apply_defs next_state_def phase_def
  requireNullableNonEmpty_def validateCancelProgress_def

lemma phase_step_start:
  assumes "run_wf s" and "rs_lastSequence s < max_safe_integer" and "phase s = (SQueued, False)"
  shows "\<exists>e t. reduceRunLifecycleEvent (Some s) e = Inr t \<and> phase t = (SRunning, False)"
proof -
  define at where "at = (case rs_goalAccounting s of None \<Rightarrow> rs_updatedAt s | Some c \<Rightarrow> ac_updatedAt c)"
  have at: "is_timestamp at"
    using assms(1) by (auto simp: at_def run_wf_def ledger_wf_def cursor_wf_def validateRunGoalAccountingCursor_def
        acc_validate_timestamp_def split: option.splits)
  have "\<exists>c. startRunGoalAccounting (rs_goalAccounting s) (rs_lastSequence s + 1) at = Inr c"
  proof (cases "rs_goalAccounting s")
    case (Some c)
    then have c: "cursor_wf s c" using assms(1) by (simp add: run_wf_def ledger_wf_def)
    then have "non_negative_safe_integer (ac_revision c + 1)" "positive_safe_integer (rs_lastSequence s + 1)"
      using assms(1,2) by (auto simp: cursor_wf_def validateRunGoalAccountingCursor_def acc_require_positive_def
          run_wf_def ledger_wf_def safe_integer_defs)
    moreover have "\<not> date_less (iso_time at) (iso_time (ac_updatedAt c))"
      by (simp add: at_def Some date_less_def split: option.splits)
    ultimately show ?thesis
      using at c Some by (simp add: startRunGoalAccounting_def cursor_wf_def acc_require_positive_def
          acc_validate_timestamp_def acc_increment_def)
  qed (simp add: startRunGoalAccounting_def)
  moreover have "reduceRunLifecycleEvent (Some s) (event_for s at RunStarted) = apply_event s (event_for s at RunStarted)"
    using assms by (intro reduce_event_for) (auto simp: at phase_def isTerminal_def validateCancelProgress_def)
  ultimately have "\<exists>t. reduceRunLifecycleEvent (Some s) (event_for s at RunStarted) = Inr t \<and> phase t = (SRunning, False)"
    using assms(3) by (auto simp: event_for_simps)
  then show ?thesis by blast
qed

lemma phase_step_realised:
  assumes "run_wf s" and "rs_lastSequence s < max_safe_integer" and "phase_step (phase s) b"
  shows "\<exists>e t. reduceRunLifecycleEvent (Some s) e = Inr t \<and> phase t = b"
proof (cases "phase s = (SQueued, False) \<and> b = (SRunning, False)")
  case True
  then show ?thesis using phase_step_start [OF assms(1,2)] by blast
next
  case False
  define d where "d = (if snd b \<and> \<not> snd (phase s) then RunCancelRequested some_text else phase_data b)"
  have live: "\<not> isTerminal (rs_status s)"
    using assms(3) by (cases rule: phase_step.cases) (auto simp: phase_def isTerminal_def)
  have at: "is_timestamp (rs_updatedAt s)" using assms(1) by (simp add: run_wf_def ledger_wf_def)
  have gate: "validateCancelProgress s (event_type d) = None"
    using assms(3) False
    by (cases rule: phase_step.cases) (auto simp: d_def phase_data_def validateCancelProgress_def phase_def)
  have "\<exists>t. apply_event s (event_for s (rs_updatedAt s) d) = Inr t \<and> phase t = b"
    using assms(3) False live
    by (cases rule: phase_step.cases; cases "rs_status s") (auto simp: d_def event_for_simps isTerminal_def)
  with reduce_event_for [OF assms(1,2) live at gate] show ?thesis by metis
qed

section \<open>Properties\<close>

text \<open>
  C1: every state a log replays to satisfies the invariant of a Run: status, terminal time,
  failure, output, pending approval, suspension and reconciliation agree; the usage is
  consistent; the goal cursor is valid and never ahead of the Run; the plan is valid and
  belongs to the Run; purpose, mode and bindings agree.
\<close>

theorem replayed_run_wf:
  assumes "replayRunLifecycle es = Inr t"
  shows "status_wf t \<and> ledger_wf t \<and> creation_wf t"
  using replay_run_wf [OF assms] by (simp add: run_wf_def)

text \<open>
  The events of a log that replays are numbered 1, 2, ..., n without gap, and the state
  has n as its last sequence and as its revision.
\<close>

theorem replayed_run_numbers:
  assumes "replayRunLifecycle es = Inr t"
  shows "map ev_sequence es = map int [1..<length es + 1] \<and> rs_lastSequence t = int (length es)
    \<and> rs_revision t = int (length es)"
  using run_log.replay_numbers assms by (simp add: replay_lifecycle_Inr)

text \<open>
  A Run that has completed, failed or been canceled accepts no further event, whatever the
  event is.
\<close>

theorem terminal_run_closed:
  assumes "replayRunLifecycle es = Inr t" and "isTerminal (rs_status t)" and "fs \<noteq> []"
  shows "\<exists>err. replayRunLifecycle (es @ fs) = Inl err"
  using run_log.replay_closed [OF assms(1) [unfolded replay_lifecycle_Inr] assms(2,3)]
  by (auto simp: replayRunLifecycle_def)

text \<open>
  No event changes who a Run belongs to or what it was created for: the identifiers, the
  authority, the modes, the purpose, the origin and the goal binding stay those of its creation.
\<close>

theorem run_identity_immutable:
  assumes "replayRunLifecycle es = Inr s" and "replayRunLifecycle (es @ fs) = Inr t"
  shows "run_identity t = run_identity s"
  using run_log.replay_numbers_from [of s fs t] assms
  by (simp add: replay_lifecycle_Inr replay_append)

text \<open>
  C2: the reducer implements exactly the abstract graph of statuses: the phases a replayed Run
  can move to with one event are the successors of its phase in the graph.
\<close>

theorem run_status_graph_exact:
  assumes "replayRunLifecycle es = Inr s" and "int (length es) < max_safe_integer"
  shows "(\<exists>e t. replayRunLifecycle (es @ [e]) = Inr t \<and> phase t = b \<and> b \<noteq> phase s) \<longleftrightarrow> phase_step (phase s) b"
proof -
  have wf: "run_wf s" using assms(1) by (rule replay_run_wf)
  have room: "rs_lastSequence s < max_safe_integer"
    using run_log.replay_numbers assms by (simp add: replay_lifecycle_Inr)
  have one: "replayRunLifecycle (es @ [e]) = Inr t \<longleftrightarrow> reduceRunLifecycleEvent (Some s) e = Inr t" for e t
    using assms(1) by (auto simp: replay_lifecycle_Inr replay_append)
  have "b \<noteq> phase s" if "phase_step (phase s) b"
    using that by (cases rule: phase_step.cases) (auto simp: isTerminal_def)
  then show ?thesis
    unfolding one using phase_simulation phase_step_realised [OF wf room] by metis
qed

text \<open>What cannot change once cancellation has been requested.\<close>

definition cancel_locked :: "run_state \<Rightarrow> run_state \<Rightarrow> bool" where
  "cancel_locked s t \<longleftrightarrow> (rs_cancelRequested s \<longrightarrow> rs_cancelRequested t \<and> rs_usage t = rs_usage s
     \<and> rs_plan t = rs_plan s \<and> rs_outputRef t = rs_outputRef s \<and> rs_failure t = rs_failure s)"

lemma cancel_locked_step:
  assumes "reduceRunLifecycleEvent (Some s) e = Inr t"
  shows "cancel_locked s t"
proof (cases "rs_cancelRequested s")
  case True
  note r = reduce_effect [OF assms]
  note gate = cancel_gate [OF r(7) True]
  show ?thesis
    using r(1)
    by (cases rule: run_effect.cases)
      (use gate in \<open>auto simp: cancel_locked_def next_state_def recorded_usage_def split: run_event_data.splits\<close>)
qed (simp add: cancel_locked_def)

text \<open>
  C3: once cancellation is requested, whatever events follow, the flag stays, no token is
  recorded, no plan, output or failure is set, and the only terminal status is canceled.
\<close>

theorem cancel_requested_locks:
  assumes "replayRunLifecycle es = Inr s" and "rs_cancelRequested s"
    and "replayRunLifecycle (es @ fs) = Inr t"
  shows "rs_cancelRequested t \<and> rs_usage t = rs_usage s \<and> rs_plan t = rs_plan s
    \<and> rs_outputRef t = rs_outputRef s \<and> rs_failure t = rs_failure s
    \<and> (isTerminal (rs_status t) \<longrightarrow> rs_status t = SCanceled)"
proof -
  have "replay_events reduceRunLifecycleEvent (Some s) fs = Inr (Some t)"
    using assms by (simp add: replay_lifecycle_Inr replay_append)
  then have "cancel_locked s t \<and> run_wf t"
  proof (rule run_log.replay_relation [where R = cancel_locked and I = run_wf, rotated 4])
    show "run_wf s" using assms(1) by (rule replay_run_wf)
    show "cancel_locked u w \<and> run_wf w" if "run_wf u" "reduceRunLifecycleEvent (Some u) e = Inr w" for u e w
      using that by (simp add: cancel_locked_step run_wf_step)
  qed (auto simp: cancel_locked_def)
  then show ?thesis
    using assms(2) by (auto simp: cancel_locked_def run_wf_def status_wf_def isTerminal_def)
qed

text \<open>The usage a log records.\<close>

fun logged_usage :: "run_event list \<Rightarrow> run_usage" where
  "logged_usage [] = zeroUsage"
| "logged_usage (e # es) = usage_sum (nullish (recorded_usage e) zeroUsage) (logged_usage es)"

lemma usage_sum_zero [simp]: "usage_sum zeroUsage u = u" "usage_sum u zeroUsage = u"
  by (simp_all add: usage_sum_def zeroUsage_def)

lemma usage_sum_assoc: "usage_sum (usage_sum u v) w = usage_sum u (usage_sum v w)"
  by (simp add: usage_sum_def)

lemma usage_step: "run_effect s e t \<Longrightarrow> rs_usage t = usage_sum (rs_usage s) (nullish (recorded_usage e) zeroUsage)"
  by (erule run_effect.cases) (auto simp: next_state_def recorded_usage_def)

lemma logged_usage_from:
  "replay_events reduceRunLifecycleEvent (Some s) es = Inr (Some t) \<Longrightarrow>
    rs_usage t = usage_sum (rs_usage s) (logged_usage es)"
  by (induction es arbitrary: s) (auto simp: usage_sum_assoc dest!: reduce_effect(1) usage_step)

text \<open>
  C4: the usage of a Run is the sum of what its log records: every sample and every compaction
  is counted once, nothing else is, and the sum stays a consistent usage of safe integers.
\<close>

theorem run_usage_ledger:
  assumes "replayRunLifecycle es = Inr t"
  shows "rs_usage t = logged_usage es \<and> usage_ok (rs_usage t)"
proof (cases es)
  case Nil
  then show ?thesis using assms by (simp add: replayRunLifecycle_def)
next
  case (Cons e fs)
  with assms obtain s where s: "reduceRunLifecycleEvent None e = Inr s"
    and rest: "replay_events reduceRunLifecycleEvent (Some s) fs = Inr (Some t)"
    by (auto simp: replay_lifecycle_Inr)
  from s have "recorded_usage e = None" by (rule created_shape) (simp add: recorded_usage_def)
  with logged_usage_from [OF rest] created_wf(3) [OF s] replay_run_wf [OF assms] show ?thesis
    by (simp add: Cons run_wf_def ledger_wf_def)
qed

lemma realise_in_log:
  assumes "replayRunLifecycle es = Inr s" and "int (length es) < max_safe_integer" and "phase_step (phase s) b"
  obtains e t where "replayRunLifecycle (es @ [e]) = Inr t" "phase t = b"
proof -
  have "run_wf s" using assms(1) by (rule replay_run_wf)
  moreover have "rs_lastSequence s < max_safe_integer"
    using run_log.replay_numbers assms by (simp add: replay_lifecycle_Inr)
  ultimately obtain e t where "reduceRunLifecycleEvent (Some s) e = Inr t" "phase t = b"
    using phase_step_realised assms(3) by blast
  then show thesis using assms(1) that by (simp add: replay_lifecycle_Inr replay_append)
qed

text \<open>
  C5: a Run that is not terminal can always still be canceled: whatever has happened, at most
  three more events bring it to the status canceled.
\<close>

theorem run_cancelable:
  assumes "replayRunLifecycle es = Inr s" and "\<not> isTerminal (rs_status s)"
    and "int (length es) + 3 \<le> max_safe_integer"
  shows "\<exists>fs t. length fs \<le> 3 \<and> replayRunLifecycle (es @ fs) = Inr t \<and> rs_status t = SCanceled"
proof -
  have requested: "\<exists>fs t. length fs \<le> 2 \<and> replayRunLifecycle (es' @ fs) = Inr t \<and> rs_status t = SCanceled"
    if r: "replayRunLifecycle es' = Inr u" and p: "phase u = (rs_status s, True)"
      and n: "int (length es') + 2 \<le> max_safe_integer" for es' u
  proof (cases "rs_status s = SReconciling")
    case True
    have "phase_step (phase u) (SRunning, True)" by (simp add: p True phase_step_iff)
    from realise_in_log [OF r _ this] n obtain e w where
      e: "replayRunLifecycle (es' @ [e]) = Inr w" "phase w = (SRunning, True)" by auto
    have "phase_step (phase w) (SCanceled, True)" by (simp add: e phase_step_iff isTerminal_def)
    from realise_in_log [OF e(1) _ this] n obtain f t where
      "replayRunLifecycle ((es' @ [e]) @ [f]) = Inr t" "phase t = (SCanceled, True)" by auto
    then show ?thesis by (intro exI [of _ "[e, f]"] exI [of _ t]) (simp add: phase_def)
  next
    case False
    have "phase_step (phase u) (SCanceled, True)" using assms(2) False by (simp add: p phase_step_iff)
    from realise_in_log [OF r _ this] n obtain f t where
      "replayRunLifecycle (es' @ [f]) = Inr t" "phase t = (SCanceled, True)" by auto
    then show ?thesis by (intro exI [of _ "[f]"] exI [of _ t]) (simp add: phase_def)
  qed
  show ?thesis
  proof (cases "rs_cancelRequested s")
    case True
    then show ?thesis using requested [OF assms(1)] assms(3) by (force simp: phase_def)
  next
    case False
    then have "phase_step (phase s) (rs_status s, True)" using assms(2) by (simp add: phase_def phase_step_iff)
    from realise_in_log [OF assms(1) _ this] assms(3) obtain e u where
      e: "replayRunLifecycle (es @ [e]) = Inr u" "phase u = (rs_status s, True)" by auto
    from requested [OF e] assms(3) obtain fs t where
      "length fs \<le> 2" "replayRunLifecycle ((es @ [e]) @ fs) = Inr t" "rs_status t = SCanceled" by auto
    then show ?thesis by (intro exI [of _ "e # fs"] exI [of _ t]) simp
  qed
qed

section \<open>Concrete runs of the properties\<close>

text \<open>A Run that is created, started, records a usage, is asked to cancel, and is canceled.\<close>

definition log_event :: "int \<Rightarrow> run_event_data \<Rightarrow> run_event" where
  "log_event n d = \<lparr>ev_schemaVersion = js ''crewon.run-event.v0'', ev_runId = js ''run-1'',
     ev_eventId = js ''e'', ev_sequence = n, ev_occurredAt = sample_time, ev_data = d\<rparr>"

definition sample_creation :: run_created where
  "sample_creation = \<lparr>rc_ownKeys = map js (run_created_required @ [''purpose'']), rc_threadId = js ''th'',
     rc_tenantId = js ''t'', rc_spaceId = js ''s'', rc_createdByActorId = js ''a'', rc_authorityId = js ''au'',
     rc_runtimeGeneration = js ''ts-v0'', rc_agentVersionId = js ''av'', rc_policySnapshotId = js ''p'',
     rc_workspaceBindingId = None, rc_workflowVersionBinding = None, rc_collaborationMode = DefaultMode,
     rc_toolPermissionMode = Some RequestApproval, rc_goalBinding = None, rc_goalContinuationMode = None,
     rc_purpose = Some TurnPurpose, rc_origin = None\<rparr>"

definition sample_segment :: segment_ref where
  "sample_segment = \<lparr>sg_segmentId = js ''seg'', sg_segmentSequence = 1\<rparr>"

definition sample_event_usage :: event_usage where
  "sample_event_usage = \<lparr>eu_inputTokens = 50, eu_cachedInputTokens = Some 10, eu_cachedInputTokensReported = None,
     eu_outputTokens = 10, eu_totalTokens = 60\<rparr>"

definition sample_log :: "run_event list" where
  "sample_log = [log_event 1 (RunCreated sample_creation), log_event 2 RunStarted,
     log_event 3 (UsageRecorded sample_segment sample_event_usage)]"

definition cancel_log :: "run_event list" where
  "cancel_log = [log_event 4 (RunCancelRequested (js ''a''))]"

definition canceled_log :: "run_event list" where
  "canceled_log = [log_event 5 (RunCanceled (js ''user''))]"

definition sample_logged :: run_state where
  "sample_logged = (created_state (log_event 1 (RunCreated sample_creation)) sample_creation None None None)
     \<lparr>rs_usage := sample_usage, rs_status := SRunning, rs_revision := 3, rs_lastSequence := 3\<rparr>"

lemma sample_time_ok [simp]: "is_timestamp sample_time"
  by (simp add: is_timestamp_iff sample_time_value)

lemmas reduce_eval = reduceRunLifecycleEvent_def reduce_checks_def validateEventEnvelope_def
  validateCancelProgress_def apply_event_def apply_defs next_state_def isTerminal_def safe_integer_defs
  string_eval

lemma sample_creation_reduces:
  "reduceRunLifecycleEvent None (log_event 1 (RunCreated sample_creation))
    = Inr (created_state (log_event 1 (RunCreated sample_creation)) sample_creation None None None)"
proof -
  have "validateRunCreatedDataShape sample_creation = None"
    by (simp add: validateRunCreatedDataShape_def sample_creation_def run_created_required_def
        run_created_optional_def list_ex_iff)
  then show ?thesis
    by (simp add: reduceRunLifecycleEvent_def createRun_def create_from_def create_identity_checks_def
        create_mode_checks_def create_binding_checks_def parse_optional_workflow_def parseRunOrigin_def
        create_cursor_def guarded_pass validateEventEnvelope_def log_event_def)
      (simp add: sample_creation_def requireNullableNonEmpty_def safe_integer_defs string_eval guarded_pass)
qed

lemma sample_log_replays: "replayRunLifecycle sample_log = Inr sample_logged"
  by (simp add: sample_log_def replayRunLifecycle_def sample_creation_reduces)
    (simp add: reduce_eval log_event_def created_state_def startRunGoalAccounting_def guarded_pass
      apply_usage_recorded_def sample_segment_def sample_event_usage_def validateSegmentIdentity_def
      cache_reporting_check_def cacheReadReportingError_def addRunUsage_def normalizedEventUsage_def zeroUsage_def
      sample_logged_def sample_usage_def requireStatus_def)

lemma cancel_log_replays:
  "replayRunLifecycle (sample_log @ cancel_log)
    = Inr (sample_logged\<lparr>rs_revision := 4, rs_lastSequence := 4, rs_cancelRequested := True\<rparr>)"
  unfolding cancel_log_def replay_lifecycle_snoc [OF sample_log_replays]
  by (simp add: reduce_eval log_event_def sample_logged_def created_state_def guarded_pass)

lemma canceled_log_replays:
  "replayRunLifecycle ((sample_log @ cancel_log) @ canceled_log)
    = Inr (sample_logged\<lparr>rs_revision := 5, rs_lastSequence := 5, rs_cancelRequested := True,
        rs_status := SCanceled, rs_terminalAt := Some sample_time\<rparr>)"
  unfolding canceled_log_def replay_lifecycle_snoc [OF cancel_log_replays]
  by (simp add: reduce_eval log_event_def sample_logged_def created_state_def guarded_pass)

lemma sample_logged_simps [simp]:
  "rs_status sample_logged = SRunning" "\<not> rs_cancelRequested sample_logged" "rs_usage sample_logged = sample_usage"
  by (simp_all add: sample_logged_def created_state_def)

theorem replayed_run_wf_witness: "\<exists>t. replayRunLifecycle sample_log = Inr t \<and> status_wf t \<and> rs_usage t = sample_usage"
  using replayed_run_wf [OF sample_log_replays] sample_log_replays by simp

theorem replayed_run_numbers_witness:
  "\<exists>t. replayRunLifecycle sample_log = Inr t \<and> rs_lastSequence t = 3"
  using replayed_run_numbers [OF sample_log_replays] sample_log_replays by (simp add: sample_log_def)

theorem terminal_run_closed_witness:
  "\<exists>err. replayRunLifecycle (((sample_log @ cancel_log) @ canceled_log) @ cancel_log) = Inl err"
  by (rule terminal_run_closed [OF canceled_log_replays]) (simp_all add: isTerminal_def cancel_log_def)

theorem run_identity_immutable_witness:
  "\<exists>t. replayRunLifecycle (sample_log @ cancel_log) = Inr t \<and> run_identity t = run_identity sample_logged"
  using run_identity_immutable [OF sample_log_replays cancel_log_replays] cancel_log_replays by blast

theorem run_status_graph_exact_witness:
  "\<exists>e t. replayRunLifecycle (sample_log @ [e]) = Inr t \<and> phase t = (SSuspended, False)"
proof -
  have "int (length sample_log) < max_safe_integer" by (simp add: sample_log_def max_safe_integer_def)
  moreover have "phase_step (phase sample_logged) (SSuspended, False)" by (simp add: phase_def phase_step_iff)
  ultimately show ?thesis
    using run_status_graph_exact [OF sample_log_replays, of "(SSuspended, False)"] by blast
qed

theorem cancel_requested_locks_witness:
  "\<exists>t. replayRunLifecycle ((sample_log @ cancel_log) @ canceled_log) = Inr t \<and> rs_usage t = sample_usage
    \<and> rs_status t = SCanceled"
  using cancel_requested_locks [OF cancel_log_replays _ canceled_log_replays] canceled_log_replays
  by (simp add: isTerminal_def)

theorem run_usage_ledger_witness:
  "\<exists>t. replayRunLifecycle sample_log = Inr t \<and> rs_usage t = logged_usage sample_log \<and> usage_ok sample_usage"
  using run_usage_ledger [OF sample_log_replays] sample_log_replays by auto

theorem run_cancelable_witness:
  "\<exists>fs t. length fs \<le> 3 \<and> replayRunLifecycle (sample_log @ fs) = Inr t \<and> rs_status t = SCanceled"
  by (rule run_cancelable [OF sample_log_replays]) (simp_all add: isTerminal_def sample_log_def max_safe_integer_def)

end
