(* ===== verification/Thread_Lifecycle.thy ===== *)
theory Thread_Lifecycle
  imports Js_Values Timestamps Event_Log
begin

text \<open>
  The Thread reducer, \<open>thread-lifecycle.ts\<close>: events and their validation, the state and its
  validation, \<open>reduceThreadLifecycleEvent\<close> and \<open>replayThreadLifecycle\<close>.  Field prefixes:
  \<open>ts\<close> for a \<open>ThreadState\<close>, \<open>te\<close> for an event.  \<open>workspaceId\<close> is a dynamic value,
  as \<open>normalizeThreadWorkspaceId\<close> takes it; \<open>te_ownsWorkspaceId\<close> is
  \<open>Object.hasOwn(event.data, "workspaceId")\<close>.
\<close>

section \<open>Data\<close>

datatype thread_status = ThreadActive | ThreadArchived | ThreadDeleted | OtherThreadStatus js_string

datatype message_author = UserAuthor | AssistantAuthor | SystemAuthor | ToolAuthor | OtherAuthor js_string

record thread_created =
  th_tenantId :: js_string
  th_spaceId :: js_string
  th_createdByActorId :: js_string
  th_title :: "js_string option"
  th_workspaceId :: "json option"

record message_appended =
  ma_messageId :: js_string
  ma_messageSequence :: int
  ma_role :: message_author
  ma_contentDigest :: js_string
  ma_initialTitle :: "js_string option"

record thread_fork =
  fk_sourceThreadId :: js_string
  fk_throughHistorySequence :: int
  fk_throughMessageSequence :: int
  fk_actorId :: js_string

record thread_rollback =
  rb_actorId :: js_string
  rb_rollbackId :: js_string
  rb_markerItemId :: js_string
  rb_requestedTurns :: int
  rb_removedTurns :: int
  rb_historyFromSequence :: "int option"
  rb_historyThroughSequence :: int
  rb_markerHistorySequence :: int

datatype thread_event_data =
    ThreadCreated thread_created
  | MessageAppended message_appended
  | ThreadForked thread_fork
  | ThreadArchivedBy js_string
  | ThreadUnarchivedBy js_string
  | ThreadRenamed js_string "js_string option"
  | ThreadRolledBack thread_rollback
  | ThreadDeletedBy js_string

record thread_event =
  te_schemaVersion :: js_string
  te_threadId :: js_string
  te_eventId :: js_string
  te_sequence :: int
  te_occurredAt :: js_string
  te_ownsWorkspaceId :: bool
  te_data :: thread_event_data

record thread_state =
  ts_threadId :: js_string
  ts_tenantId :: js_string
  ts_spaceId :: js_string
  ts_createdByActorId :: js_string
  ts_title :: "js_string option"
  ts_workspaceId :: "json option"
  ts_status :: thread_status
  ts_revision :: int
  ts_lastEventSequence :: int
  ts_lastMessageSequence :: int
  ts_createdAt :: js_string
  ts_updatedAt :: js_string
  ts_archivedAt :: "js_string option"
  ts_deletedAt :: "js_string option"
  ts_deletedByActorId :: "js_string option"
  ts_forkedFromThreadId :: "js_string option"
  ts_forkedThroughHistorySequence :: "int option"

section \<open>Checks\<close>

definition thread_throw_if :: "bool \<Rightarrow> string \<Rightarrow> check" where
  "thread_throw_if b code = throw_if b (ThreadLifecycleError code)"

lemma thread_throw_if_None [simp]: "thread_throw_if b code = None \<longleftrightarrow> \<not> b"
  by (simp add: thread_throw_if_def)

definition thread_require_non_empty :: "js_string \<Rightarrow> string \<Rightarrow> check" where
  "thread_require_non_empty s code = thread_throw_if (is_blank s) code"

lemma thread_require_non_empty_None [simp]: "thread_require_non_empty s code = None \<longleftrightarrow> \<not> is_blank s"
  by (simp add: thread_require_non_empty_def)

definition requireNullableTitle :: "js_string option \<Rightarrow> check" where
  "requireNullableTitle t = when_some t (\<lambda>v.
     thread_throw_if (is_blank v \<or> 256 < length v) ''thread_title_invalid'')"

definition thread_require_digest :: "js_string \<Rightarrow> check" where
  "thread_require_digest s = thread_throw_if (\<not> matches_digest s) ''message_content_digest_invalid''"

definition requireActive :: "thread_state \<Rightarrow> check" where
  "requireActive s = thread_throw_if (ts_status s = ThreadArchived) ''thread_archived''"

definition isTimestamp :: "js_string option \<Rightarrow> bool" where
  "isTimestamp v = (case v of None \<Rightarrow> False | Some s \<Rightarrow> is_timestamp s)"

lemma isTimestamp_simps [simp]: "\<not> isTimestamp None" "isTimestamp (Some s) = is_timestamp s"
  by (simp_all add: isTimestamp_def)

definition known_author :: "message_author \<Rightarrow> bool" where
  "known_author r = (case r of OtherAuthor _ \<Rightarrow> False | _ \<Rightarrow> True)"

definition normalizeThreadWorkspaceId :: "json option \<Rightarrow> js_string option res" where
  "normalizeThreadWorkspaceId v = (case v of None \<Rightarrow> Inr None | Some j \<Rightarrow>
     if j = JNull then Inr None
     else (case j of
       JStr s \<Rightarrow> if matches_opaque_id 127 s then Inr (Some s)
         else Inl (ThreadLifecycleError ''thread_workspace_id_invalid'')
     | _ \<Rightarrow> Inl (ThreadLifecycleError ''thread_workspace_id_invalid'')))"

text \<open>The normalized workspace as the state stores it: a string or \<open>null\<close>.\<close>

definition workspace_value :: "js_string option \<Rightarrow> json option" where
  "workspace_value w = (case w of None \<Rightarrow> Some JNull | Some s \<Rightarrow> Some (JStr s))"

definition normalizeThreadStateWorkspace :: "thread_state \<Rightarrow> thread_state res" where
  "normalizeThreadStateWorkspace s = then_do (normalizeThreadWorkspaceId (ts_workspaceId s)) (\<lambda>w.
     Inr (s\<lparr>ts_workspaceId := workspace_value w\<rparr>))"

section \<open>Validation of events\<close>

definition max_model_history_rollback_turns :: int where
  "max_model_history_rollback_turns = 4294967295"

definition initial_title_checks :: "message_appended \<Rightarrow> check" where
  "initial_title_checks d = when_some (ma_initialTitle d) (\<lambda>t. first_throw
     [requireNullableTitle (Some t),
      thread_throw_if (ma_role d \<noteq> UserAuthor \<or> ma_messageSequence d \<noteq> 1 \<or> 48 < code_point_count t)
        ''thread_initial_title_invalid''])"

definition rollback_numbers_ok :: "thread_rollback \<Rightarrow> bool" where
  "rollback_numbers_ok d \<longleftrightarrow> \<not> (\<not> is_safe_integer (rb_requestedTurns d) \<or> rb_requestedTurns d < 1
     \<or> max_model_history_rollback_turns < rb_requestedTurns d
     \<or> \<not> is_safe_integer (rb_removedTurns d) \<or> rb_removedTurns d < 0
     \<or> rb_requestedTurns d < rb_removedTurns d
     \<or> \<not> is_safe_integer (rb_historyThroughSequence d) \<or> rb_historyThroughSequence d < 0
     \<or> rb_markerHistorySequence d \<noteq> rb_historyThroughSequence d + 1
     \<or> (rb_historyFromSequence d = None) \<noteq> (rb_removedTurns d = 0)
     \<or> (case rb_historyFromSequence d of None \<Rightarrow> False | Some f \<Rightarrow>
          \<not> is_safe_integer f \<or> f < 1 \<or> rb_historyThroughSequence d < f))"

definition thread_data_checks :: "thread_event_data \<Rightarrow> check list" where
  "thread_data_checks data = (case data of
     ThreadCreated d \<Rightarrow>
       [thread_require_non_empty (th_tenantId d) ''tenant_id_invalid'',
        thread_require_non_empty (th_spaceId d) ''space_id_invalid'',
        thread_require_non_empty (th_createdByActorId d) ''created_by_actor_id_invalid'',
        requireNullableTitle (th_title d),
        checked (normalizeThreadWorkspaceId (th_workspaceId d))]
   | MessageAppended d \<Rightarrow>
       [initial_title_checks d,
        thread_require_non_empty (ma_messageId d) ''message_id_invalid'',
        thread_throw_if (\<not> is_safe_integer (ma_messageSequence d) \<or> ma_messageSequence d < 1)
          ''message_sequence_invalid'',
        thread_throw_if (\<not> known_author (ma_role d)) ''message_role_invalid'',
        thread_require_digest (ma_contentDigest d)]
   | ThreadForked d \<Rightarrow>
       [thread_require_non_empty (fk_sourceThreadId d) ''fork_source_thread_id_invalid'',
        thread_require_non_empty (fk_actorId d) ''fork_actor_id_invalid'',
        thread_throw_if (\<not> is_safe_integer (fk_throughHistorySequence d) \<or> fk_throughHistorySequence d < 0
          \<or> \<not> is_safe_integer (fk_throughMessageSequence d) \<or> fk_throughMessageSequence d < 0)
          ''thread_fork_invalid'']
   | ThreadArchivedBy actor \<Rightarrow> [thread_require_non_empty actor ''archive_actor_id_invalid'']
   | ThreadUnarchivedBy actor \<Rightarrow> [thread_require_non_empty actor ''unarchive_actor_id_invalid'']
   | ThreadRenamed actor title \<Rightarrow>
       [thread_require_non_empty actor ''rename_actor_id_invalid'', requireNullableTitle title]
   | ThreadRolledBack d \<Rightarrow>
       [thread_require_non_empty (rb_actorId d) ''rollback_actor_id_invalid'',
        thread_require_non_empty (rb_rollbackId d) ''rollback_id_invalid'',
        thread_require_non_empty (rb_markerItemId d) ''rollback_marker_id_invalid'',
        thread_throw_if (\<not> rollback_numbers_ok d) ''thread_rollback_invalid'']
   | ThreadDeletedBy actor \<Rightarrow> [thread_require_non_empty actor ''delete_actor_id_invalid''])"

definition is_thread_created :: "thread_event_data \<Rightarrow> bool" where
  "is_thread_created data = (case data of ThreadCreated _ \<Rightarrow> True | _ \<Rightarrow> False)"

definition validateThreadLifecycleEvent :: "thread_event \<Rightarrow> check" where
  "validateThreadLifecycleEvent e = first_throw
     ([thread_throw_if (te_schemaVersion e \<noteq> js ''crewon.thread-event.v0'')
         ''thread_event_schema_version_unsupported'',
       thread_require_non_empty (te_eventId e) ''thread_event_id_invalid'',
       thread_require_non_empty (te_threadId e) ''thread_id_invalid'',
       thread_throw_if (\<not> is_safe_integer (te_sequence e) \<or> te_sequence e < 1) ''thread_event_sequence_invalid'',
       thread_throw_if (\<not> is_timestamp (te_occurredAt e)) ''thread_event_occurred_at_invalid'',
       thread_throw_if (\<not> is_thread_created (te_data e) \<and> te_ownsWorkspaceId e) ''thread_workspace_immutable'']
      @ thread_data_checks (te_data e))"

section \<open>Validation of states\<close>

text \<open>The fields that must agree with the status.\<close>

definition thread_status_fields_bad :: "thread_state \<Rightarrow> bool" where
  "thread_status_fields_bad s \<longleftrightarrow>
     ts_status s = ThreadActive
       \<and> (ts_archivedAt s \<noteq> None \<or> ts_deletedAt s \<noteq> None \<or> ts_deletedByActorId s \<noteq> None)
   \<or> ts_status s = ThreadArchived
       \<and> (\<not> isTimestamp (ts_archivedAt s) \<or> ts_deletedAt s \<noteq> None \<or> ts_deletedByActorId s \<noteq> None)
   \<or> ts_status s = ThreadDeleted
       \<and> (ts_title s \<noteq> None \<or> ts_archivedAt s \<noteq> None \<or> \<not> isTimestamp (ts_deletedAt s)
          \<or> (case ts_deletedByActorId s of None \<Rightarrow> True | Some a \<Rightarrow> is_blank a))"

definition thread_fork_fields_bad :: "thread_state \<Rightarrow> bool" where
  "thread_fork_fields_bad s \<longleftrightarrow>
     (ts_forkedFromThreadId s = None) \<noteq> (ts_forkedThroughHistorySequence s = None)
   \<or> (case ts_forkedFromThreadId s of None \<Rightarrow> False | Some src \<Rightarrow>
        is_blank src \<or> src = ts_threadId s
        \<or> (case ts_forkedThroughHistorySequence s of None \<Rightarrow> True | Some n \<Rightarrow> \<not> is_safe_integer n \<or> n < 0))"

definition validateThreadState :: "thread_state \<Rightarrow> check" where
  "validateThreadState s = first_throw
     [thread_require_non_empty (ts_threadId s) ''thread_id_invalid'',
      thread_require_non_empty (ts_tenantId s) ''tenant_id_invalid'',
      thread_require_non_empty (ts_spaceId s) ''space_id_invalid'',
      thread_require_non_empty (ts_createdByActorId s) ''created_by_actor_id_invalid'',
      requireNullableTitle (ts_title s),
      checked (normalizeThreadWorkspaceId (ts_workspaceId s)),
      thread_throw_if ((case ts_status s of OtherThreadStatus _ \<Rightarrow> True | _ \<Rightarrow> False)
         \<or> \<not> is_safe_integer (ts_revision s) \<or> ts_revision s < 1
         \<or> \<not> is_safe_integer (ts_lastEventSequence s) \<or> ts_lastEventSequence s \<noteq> ts_revision s
         \<or> \<not> is_safe_integer (ts_lastMessageSequence s) \<or> ts_lastMessageSequence s < 0
         \<or> \<not> is_timestamp (ts_createdAt s) \<or> \<not> is_timestamp (ts_updatedAt s)
         \<or> date_less (iso_time (ts_updatedAt s)) (iso_time (ts_createdAt s))) ''thread_state_invalid'',
      thread_throw_if (thread_status_fields_bad s) ''thread_state_invalid'',
      thread_throw_if (thread_fork_fields_bad s) ''thread_state_invalid'']"

section \<open>The reducer\<close>

definition createThread :: "thread_event \<Rightarrow> thread_state res" where
  "createThread e = (case te_data e of
     ThreadCreated d \<Rightarrow> guarded
       [thread_throw_if (te_sequence e \<noteq> 1) ''thread_event_sequence_gap'',
        thread_require_non_empty (te_threadId e) ''thread_id_invalid'',
        thread_require_non_empty (th_tenantId d) ''tenant_id_invalid'',
        thread_require_non_empty (th_spaceId d) ''space_id_invalid'',
        thread_require_non_empty (th_createdByActorId d) ''created_by_actor_id_invalid'',
        requireNullableTitle (th_title d)]
       (then_do (normalizeThreadWorkspaceId (th_workspaceId d)) (\<lambda>w.
         Inr \<lparr>ts_threadId = te_threadId e, ts_tenantId = th_tenantId d, ts_spaceId = th_spaceId d,
           ts_createdByActorId = th_createdByActorId d, ts_title = th_title d,
           ts_workspaceId = workspace_value w, ts_status = ThreadActive, ts_revision = 1,
           ts_lastEventSequence = 1, ts_lastMessageSequence = 0, ts_createdAt = te_occurredAt e,
           ts_updatedAt = te_occurredAt e, ts_archivedAt = None, ts_deletedAt = None,
           ts_deletedByActorId = None, ts_forkedFromThreadId = None,
           ts_forkedThroughHistorySequence = None\<rparr>))
   | _ \<Rightarrow> Inl (ThreadLifecycleError ''thread_not_created''))"

definition thread_next :: "thread_state \<Rightarrow> thread_event \<Rightarrow> js_string option \<Rightarrow> thread_state" where
  "thread_next s e w = s\<lparr>ts_workspaceId := workspace_value w, ts_revision := ts_revision s + 1,
     ts_lastEventSequence := te_sequence e, ts_updatedAt := te_occurredAt e\<rparr>"

definition append_message_checks :: "thread_state \<Rightarrow> message_appended \<Rightarrow> check list" where
  "append_message_checks s d =
     [requireActive s,
      thread_require_non_empty (ma_messageId d) ''message_id_invalid'',
      thread_throw_if (ma_messageSequence d \<noteq> ts_lastMessageSequence s + 1) ''message_sequence_gap'',
      thread_throw_if (\<not> known_author (ma_role d)) ''message_role_invalid'',
      thread_require_digest (ma_contentDigest d)]"

definition fork_checks :: "thread_state \<Rightarrow> thread_fork \<Rightarrow> check list" where
  "fork_checks s d =
     [requireActive s,
      thread_require_non_empty (fk_sourceThreadId d) ''fork_source_thread_id_invalid'',
      thread_require_non_empty (fk_actorId d) ''fork_actor_id_invalid'',
      thread_throw_if (ts_forkedFromThreadId s \<noteq> None \<or> fk_sourceThreadId d = ts_threadId s
         \<or> \<not> is_safe_integer (fk_throughHistorySequence d) \<or> fk_throughHistorySequence d < 0
         \<or> \<not> is_safe_integer (fk_throughMessageSequence d) \<or> fk_throughMessageSequence d < 0
         \<or> fk_throughMessageSequence d \<noteq> ts_lastMessageSequence s
         \<or> fk_throughHistorySequence d < fk_throughMessageSequence d) ''thread_fork_invalid'']"

text \<open>The switch: \<open>s\<close> is the state before the event, \<open>n\<close> is \<open>next\<close>.\<close>

definition apply_thread_event :: "thread_state \<Rightarrow> thread_state \<Rightarrow> thread_event \<Rightarrow> thread_state res" where
  "apply_thread_event s n e = (case te_data e of
     ThreadCreated _ \<Rightarrow> Inl (ThreadLifecycleError ''thread_already_created'')
   | MessageAppended d \<Rightarrow> guarded (append_message_checks s d)
       (Inr (n\<lparr>ts_title := (case ts_title s of None \<Rightarrow> ma_initialTitle d | Some t \<Rightarrow> Some t),
          ts_lastMessageSequence := ma_messageSequence d\<rparr>))
   | ThreadForked d \<Rightarrow> guarded (fork_checks s d)
       (Inr (n\<lparr>ts_forkedFromThreadId := Some (fk_sourceThreadId d),
          ts_forkedThroughHistorySequence := Some (fk_throughHistorySequence d)\<rparr>))
   | ThreadArchivedBy _ \<Rightarrow> guarded
       [thread_throw_if (ts_status s = ThreadArchived) ''thread_archived'']
       (Inr (n\<lparr>ts_status := ThreadArchived, ts_archivedAt := Some (te_occurredAt e)\<rparr>))
   | ThreadUnarchivedBy _ \<Rightarrow> guarded
       [thread_throw_if (ts_status s \<noteq> ThreadArchived) ''thread_not_archived'']
       (Inr (n\<lparr>ts_status := ThreadActive, ts_archivedAt := None\<rparr>))
   | ThreadRenamed _ title \<Rightarrow> Inr (n\<lparr>ts_title := title\<rparr>)
   | ThreadRolledBack _ \<Rightarrow> guarded [requireActive s] (Inr n)
   | ThreadDeletedBy actor \<Rightarrow> Inr (n\<lparr>ts_title := None, ts_status := ThreadDeleted, ts_archivedAt := None,
       ts_deletedAt := Some (te_occurredAt e), ts_deletedByActorId := Some actor\<rparr>))"

definition reduceThreadLifecycleEvent :: "thread_state option \<Rightarrow> thread_event \<Rightarrow> thread_state res" where
  "reduceThreadLifecycleEvent state e = guarded [validateThreadLifecycleEvent e]
     (case state of None \<Rightarrow> createThread e
      | Some s \<Rightarrow> guarded
         [validateThreadState s,
          thread_throw_if (te_threadId e \<noteq> ts_threadId s) ''thread_id_mismatch'',
          thread_throw_if (te_sequence e \<noteq> ts_lastEventSequence s + 1) ''thread_event_sequence_gap'',
          thread_throw_if (ts_status s = ThreadDeleted) ''thread_deleted'',
          thread_throw_if (date_less (iso_time (te_occurredAt e)) (iso_time (ts_updatedAt s)))
            ''thread_event_time_regression'']
         (then_do (normalizeThreadWorkspaceId (ts_workspaceId s)) (\<lambda>w.
           apply_thread_event s (thread_next s e w) e)))"

definition replayThreadLifecycle :: "thread_event list \<Rightarrow> thread_state res" where
  "replayThreadLifecycle es = then_do (replay_events reduceThreadLifecycleEvent None es) (\<lambda>state.
     case state of None \<Rightarrow> Inl (ThreadLifecycleError ''thread_events_empty'') | Some s \<Rightarrow> Inr s)"

section \<open>Steps keep states valid\<close>

text \<open>A state read back from the log is one the validator accepts.\<close>

definition thread_ok :: "thread_state \<Rightarrow> bool" where
  "thread_ok s \<longleftrightarrow> validateThreadState s = None"

lemma normalize_value [simp]:
  "normalizeThreadWorkspaceId v = Inr w \<Longrightarrow> normalizeThreadWorkspaceId (workspace_value w) = Inr w"
  by (auto simp: normalizeThreadWorkspaceId_def workspace_value_def split: option.splits json.splits if_splits)

lemma created_thread_ok:
  assumes "reduceThreadLifecycleEvent None e = Inr s"
  shows "thread_ok s"
  using assms
  by (auto simp: reduceThreadLifecycleEvent_def createThread_def thread_ok_def validateThreadState_def
      validateThreadLifecycleEvent_def thread_status_fields_bad_def thread_fork_fields_bad_def
      safe_integer_defs is_timestamp_iff first_throw_append
      split: thread_event_data.splits)

lemma reduce_thread_Inr: "reduceThreadLifecycleEvent (Some s) e = Inr t \<longleftrightarrow>
    validateThreadLifecycleEvent e = None \<and> thread_ok s \<and> te_threadId e = ts_threadId s
    \<and> te_sequence e = ts_lastEventSequence s + 1 \<and> ts_status s \<noteq> ThreadDeleted
    \<and> \<not> date_less (iso_time (te_occurredAt e)) (iso_time (ts_updatedAt s))
    \<and> (\<exists>w. normalizeThreadWorkspaceId (ts_workspaceId s) = Inr w \<and> apply_thread_event s (thread_next s e w) e = Inr t)"
  by (auto simp: reduceThreadLifecycleEvent_def thread_ok_def)

lemma thread_envelope:
  assumes "validateThreadLifecycleEvent e = None"
  shows "positive_safe_integer (te_sequence e)" "is_timestamp (te_occurredAt e)"
    "first_throw (thread_data_checks (te_data e)) = None"
  using assms
  by (auto simp: validateThreadLifecycleEvent_def first_throw_append positive_safe_integer_def split: option.splits)

text \<open>The state after a step, before the fields of the event are set, is valid.\<close>

lemma thread_next_ok:
  assumes "thread_ok s" and "validateThreadLifecycleEvent e = None" and "te_sequence e = ts_lastEventSequence s + 1"
    and "\<not> date_less (iso_time (te_occurredAt e)) (iso_time (ts_updatedAt s))"
    and "normalizeThreadWorkspaceId (ts_workspaceId s) = Inr w"
  shows "thread_ok (thread_next s e w)"
proof -
  note v = thread_envelope [OF assms(2)]
  have seq: "is_safe_integer (ts_revision s + 1)" "te_sequence e = ts_revision s + 1"
    using v(1) assms(1,3) by (auto simp: thread_ok_def validateThreadState_def positive_safe_integer_def)
  obtain u where u: "iso_time (ts_updatedAt s) = Some u"
    using assms(1) by (auto simp: thread_ok_def validateThreadState_def is_timestamp_iff)
  have "\<not> date_less (iso_time (te_occurredAt e)) (iso_time (ts_createdAt s))"
    using assms(1,4) u by (auto simp: thread_ok_def validateThreadState_def date_less_def split: option.splits)
  then show ?thesis
    using assms(1,5) v seq
    by (auto simp: thread_ok_def validateThreadState_def thread_next_def thread_status_fields_bad_def
        thread_fork_fields_bad_def cong: option.case_cong)
qed

lemma title_of_thread_ok: "thread_ok s \<Longrightarrow> requireNullableTitle (ts_title s) = None"
  by (simp add: thread_ok_def validateThreadState_def)

lemma appended_title_ok:
  assumes "thread_ok s" and "initial_title_checks d = None"
  shows "requireNullableTitle (case ts_title s of None \<Rightarrow> ma_initialTitle d | Some t \<Rightarrow> Some t) = None"
  using title_of_thread_ok [OF assms(1)] assms(2)
  by (auto simp: initial_title_checks_def requireNullableTitle_def when_some_None_iff split: option.splits)

text \<open>Setting the fields of the event keeps the state valid.\<close>

lemma thread_set_title: "thread_ok n \<Longrightarrow> requireNullableTitle t = None \<Longrightarrow> ts_status n \<noteq> ThreadDeleted \<Longrightarrow>
    thread_ok (n\<lparr>ts_title := t\<rparr>)"
  by (simp add: thread_ok_def validateThreadState_def thread_status_fields_bad_def thread_fork_fields_bad_def
      cong: option.case_cong)

lemma thread_set_message: "thread_ok n \<Longrightarrow> positive_safe_integer m \<Longrightarrow> thread_ok (n\<lparr>ts_lastMessageSequence := m\<rparr>)"
  by (simp add: thread_ok_def validateThreadState_def thread_status_fields_bad_def thread_fork_fields_bad_def
      positive_safe_integer_def cong: option.case_cong)

lemma thread_set_fork: "thread_ok n \<Longrightarrow> \<not> is_blank src \<Longrightarrow> src \<noteq> ts_threadId n \<Longrightarrow> is_safe_integer h \<Longrightarrow> 0 \<le> h \<Longrightarrow>
    thread_ok (n\<lparr>ts_forkedFromThreadId := Some src, ts_forkedThroughHistorySequence := Some h\<rparr>)"
  by (simp add: thread_ok_def validateThreadState_def thread_status_fields_bad_def thread_fork_fields_bad_def
      cong: option.case_cong)

lemma thread_set_archived: "thread_ok n \<Longrightarrow> ts_status n = ThreadActive \<Longrightarrow> is_timestamp at \<Longrightarrow>
    thread_ok (n\<lparr>ts_status := ThreadArchived, ts_archivedAt := Some at\<rparr>)"
  by (simp add: thread_ok_def validateThreadState_def thread_status_fields_bad_def thread_fork_fields_bad_def
      cong: option.case_cong)

lemma thread_set_active: "thread_ok n \<Longrightarrow> ts_status n = ThreadArchived \<Longrightarrow>
    thread_ok (n\<lparr>ts_status := ThreadActive, ts_archivedAt := None\<rparr>)"
  by (simp add: thread_ok_def validateThreadState_def thread_status_fields_bad_def thread_fork_fields_bad_def
      cong: option.case_cong)

lemma thread_set_deleted: "thread_ok n \<Longrightarrow> is_timestamp at \<Longrightarrow> \<not> is_blank actor \<Longrightarrow>
    thread_ok (n\<lparr>ts_title := None, ts_status := ThreadDeleted, ts_archivedAt := None,
      ts_deletedAt := Some at, ts_deletedByActorId := Some actor\<rparr>)"
  by (simp add: thread_ok_def validateThreadState_def thread_status_fields_bad_def thread_fork_fields_bad_def
      requireNullableTitle_def cong: option.case_cong)

lemma thread_known_status: "thread_ok s \<Longrightarrow> ts_status s \<in> {ThreadActive, ThreadArchived, ThreadDeleted}"
  by (cases "ts_status s") (auto simp: thread_ok_def validateThreadState_def)

lemma thread_ok_step:
  assumes "reduceThreadLifecycleEvent (Some s) e = Inr t"
  shows "thread_ok t"
proof -
  from assms obtain w where v: "validateThreadLifecycleEvent e = None" and s: "thread_ok s"
    and live: "ts_status s \<noteq> ThreadDeleted" and t: "apply_thread_event s (thread_next s e w) e = Inr t"
    and n: "thread_ok (thread_next s e w)"
    by (auto simp: reduce_thread_Inr intro: thread_next_ok)
  note d = thread_envelope [OF v]
  have st: "ts_status (thread_next s e w) = ts_status s" "ts_threadId (thread_next s e w) = ts_threadId s"
    by (simp_all add: thread_next_def)
  show ?thesis
  proof (cases "te_data e")
    case (MessageAppended m)
    then have "initial_title_checks m = None" "positive_safe_integer (ma_messageSequence m)"
      using d(3) by (auto simp: thread_data_checks_def positive_safe_integer_def)
    then show ?thesis
      using t MessageAppended appended_title_ok [OF s] thread_set_message [OF thread_set_title [OF n]] st live
      by (simp add: apply_thread_event_def) metis
  next
    case (ThreadForked f)
    then show ?thesis
      using t d(3) st by (auto simp: apply_thread_event_def fork_checks_def thread_data_checks_def
          intro!: thread_set_fork n)
  next
    case (ThreadArchivedBy a)
    then show ?thesis
      using t d(2) st live thread_known_status [OF s]
      by (auto simp: apply_thread_event_def intro!: thread_set_archived n)
  next
    case (ThreadUnarchivedBy a)
    then show ?thesis using t st by (auto simp: apply_thread_event_def intro!: thread_set_active n)
  next
    case (ThreadRenamed a title)
    then show ?thesis
      using t d(3) st live by (auto simp: apply_thread_event_def thread_data_checks_def intro!: thread_set_title n)
  next
    case (ThreadDeletedBy a)
    then show ?thesis
      using t d by (auto simp: apply_thread_event_def thread_data_checks_def intro!: thread_set_deleted n)
  qed (use t n in \<open>auto simp: apply_thread_event_def\<close>)
qed

section \<open>The replay contract\<close>

text \<open>Who a Thread belongs to: its identifiers, its workspace, and its creation.\<close>

definition thread_identity where
  "thread_identity (s :: thread_state) = (ts_threadId s, ts_tenantId s, ts_spaceId s, ts_createdByActorId s,
     normalizeThreadWorkspaceId (ts_workspaceId s), ts_createdAt s)"

lemma apply_thread_keeps:
  assumes "apply_thread_event s n e = Inr t"
  shows "thread_identity t = thread_identity n" "ts_revision t = ts_revision n"
    "ts_lastEventSequence t = ts_lastEventSequence n" "ts_updatedAt t = ts_updatedAt n"
  using assms by (auto simp: apply_thread_event_def thread_identity_def split: thread_event_data.splits)

interpretation thread_log: event_reducer reduceThreadLifecycleEvent te_sequence ts_lastEventSequence ts_revision
  thread_identity "\<lambda>s. ts_status s = ThreadDeleted"
proof
  fix e s assume "reduceThreadLifecycleEvent None e = Inr s"
  then show "te_sequence e = 1 \<and> ts_lastEventSequence s = 1 \<and> ts_revision s = 1"
    by (auto simp: reduceThreadLifecycleEvent_def createThread_def split: thread_event_data.splits)
next
  fix s e t assume "reduceThreadLifecycleEvent (Some s) e = Inr t"
  then obtain w where "te_sequence e = ts_lastEventSequence s + 1"
    and w: "normalizeThreadWorkspaceId (ts_workspaceId s) = Inr w"
    and "apply_thread_event s (thread_next s e w) e = Inr t"
    by (auto simp: reduce_thread_Inr)
  with apply_thread_keeps [OF this(3)] normalize_value [OF w] show "te_sequence e = ts_lastEventSequence s + 1
      \<and> ts_lastEventSequence t = te_sequence e \<and> ts_revision t = ts_revision s + 1
      \<and> thread_identity t = thread_identity s"
    by (simp add: thread_next_def thread_identity_def)
next
  fix s :: thread_state and e assume "ts_status s = ThreadDeleted"
  then show "\<exists>err. reduceThreadLifecycleEvent (Some s) e = Inl err"
    by (cases "reduceThreadLifecycleEvent (Some s) e") (auto simp: reduce_thread_Inr)
qed

lemma replay_thread_Inr: "replayThreadLifecycle es = Inr t \<longleftrightarrow>
    replay_events reduceThreadLifecycleEvent None es = Inr (Some t)"
  by (auto simp: replayThreadLifecycle_def split: option.splits)

lemma replay_thread_ok: "replayThreadLifecycle es = Inr t \<Longrightarrow> thread_ok t"
  using thread_log.replay_invariant [of thread_ok, OF created_thread_ok thread_ok_step]
  by (simp add: replay_thread_Inr)

lemma replay_thread_snoc:
  assumes "replayThreadLifecycle es = Inr s"
  shows "replayThreadLifecycle (es @ [e]) = reduceThreadLifecycleEvent (Some s) e"
  using assms by (simp add: replayThreadLifecycle_def [of "es @ [e]"] replay_thread_Inr replay_append)
    (simp add: then_do_def split: sum.splits)

section \<open>Properties\<close>

text \<open>
  C36: every state a Thread log replays to passes the program's own state validation, so the
  reducer never produces a state it would refuse to continue from.
\<close>

theorem replayed_thread_valid:
  assumes "replayThreadLifecycle es = Inr t"
  shows "validateThreadState t = None"
  using replay_thread_ok [OF assms] by (simp add: thread_ok_def)

text \<open>
  The events of a Thread log are numbered 1 to n without gap, the revision is n, and the
  identifiers, the workspace and the creation time never change along the log.
\<close>

theorem replayed_thread_numbers:
  assumes "replayThreadLifecycle es = Inr s" and "replayThreadLifecycle (es @ fs) = Inr t"
  shows "map te_sequence (es @ fs) = map int [1..<length (es @ fs) + 1]
    \<and> ts_revision t = int (length (es @ fs)) \<and> thread_identity t = thread_identity s"
proof -
  have "replay_events reduceThreadLifecycleEvent (Some s) fs = Inr (Some t)"
    using assms by (simp add: replay_thread_Inr replay_append)
  then have "thread_identity t = thread_identity s"
    using thread_log.replay_numbers_from by blast
  then show ?thesis
    using thread_log.replay_numbers [OF assms(2) [unfolded replay_thread_Inr]] by blast
qed

text \<open>The numbers of the messages a log appends.\<close>

fun appended_messages :: "thread_event list \<Rightarrow> int list" where
  "appended_messages [] = []"
| "appended_messages (e # es) = (case te_data e of MessageAppended d \<Rightarrow> ma_messageSequence d # appended_messages es
     | _ \<Rightarrow> appended_messages es)"

lemma appended_append: "appended_messages (es @ fs) = appended_messages es @ appended_messages fs"
  by (induction es) (simp_all split: thread_event_data.splits)

lemma message_step:
  assumes "reduceThreadLifecycleEvent (Some s) e = Inr t"
  shows "appended_messages [e] = [] \<and> ts_lastMessageSequence t = ts_lastMessageSequence s
    \<or> appended_messages [e] = [ts_lastMessageSequence s + 1] \<and> ts_lastMessageSequence t = ts_lastMessageSequence s + 1"
proof -
  from assms obtain w where t: "apply_thread_event s (thread_next s e w) e = Inr t"
    by (auto simp: reduce_thread_Inr)
  have n: "ts_lastMessageSequence (thread_next s e w) = ts_lastMessageSequence s"
    by (simp add: thread_next_def)
  show ?thesis
    using t n by (cases "te_data e") (auto simp: apply_thread_event_def append_message_checks_def)
qed

text \<open>
  The messages of a Thread are numbered 1 to k without gap or duplicate, in the order of
  the log, and the state knows the last of them.
\<close>

theorem thread_messages_gapless:
  assumes "replayThreadLifecycle es = Inr t"
  shows "appended_messages es = map int [1..<nat (ts_lastMessageSequence t) + 1] \<and> 0 \<le> ts_lastMessageSequence t"
proof -
  have "replay_events reduceThreadLifecycleEvent None es = Inr (Some t) \<Longrightarrow> ?thesis"
  proof (induction es arbitrary: t rule: rev_induct)
    case (snoc e es)
    from snoc.prems obtain st where st: "replay_events reduceThreadLifecycleEvent None es = Inr st"
      and e: "reduceThreadLifecycleEvent st e = Inr t" by (rule replay_snoc)
    show ?case
    proof (cases st)
      case None
      with st have "es = []" by (cases es) (auto dest: replay_some)
      with None e show ?thesis
        by (auto simp: reduceThreadLifecycleEvent_def createThread_def split: thread_event_data.splits)
    next
      case (Some s)
      from snoc.IH [OF st [unfolded Some]] have ih:
        "appended_messages es = map int [1..<nat (ts_lastMessageSequence s) + 1]" "0 \<le> ts_lastMessageSequence s"
        by simp_all
      from e Some have "reduceThreadLifecycleEvent (Some s) e = Inr t" by simp
      from message_step [OF this] show ?thesis
      proof
        assume "appended_messages [e] = [ts_lastMessageSequence s + 1]
          \<and> ts_lastMessageSequence t = ts_lastMessageSequence s + 1"
        then show ?thesis
          using ih by (simp add: appended_append nat_add_distrib del: appended_messages.simps(2))
      qed (use ih in \<open>simp add: appended_append del: appended_messages.simps(2)\<close>)
    qed
  qed simp
  with assms show ?thesis by (simp add: replay_thread_Inr)
qed

text \<open>What an archived Thread keeps: its messages, its fork, its owner.\<close>

definition thread_settled :: "thread_state \<Rightarrow> thread_state \<Rightarrow> bool" where
  "thread_settled s t \<longleftrightarrow> ts_lastMessageSequence t = ts_lastMessageSequence s
     \<and> ts_forkedFromThreadId t = ts_forkedFromThreadId s
     \<and> ts_forkedThroughHistorySequence t = ts_forkedThroughHistorySequence s"

text \<open>
  An archived Thread takes no message, fork or rollback: the only events it accepts rename,
  unarchive or delete it, and none of them touches its messages or its fork.
\<close>

theorem archived_thread_settled:
  assumes "replayThreadLifecycle es = Inr s" and "ts_status s = ThreadArchived"
    and "replayThreadLifecycle (es @ [e]) = Inr t"
  shows "thread_settled s t \<and> (case te_data e of ThreadRenamed _ _ \<Rightarrow> ts_status t = ThreadArchived
      | ThreadUnarchivedBy _ \<Rightarrow> ts_status t = ThreadActive \<and> ts_archivedAt t = None
      | ThreadDeletedBy a \<Rightarrow> ts_status t = ThreadDeleted \<and> ts_title t = None \<and> ts_deletedByActorId t = Some a
      | _ \<Rightarrow> False)"
proof -
  have "reduceThreadLifecycleEvent (Some s) e = Inr t"
    using assms(1,3) by (simp add: replay_thread_snoc)
  then obtain w where t: "apply_thread_event s (thread_next s e w) e = Inr t"
    by (auto simp: reduce_thread_Inr)
  show ?thesis
    using t assms(2)
    by (cases "te_data e") (auto simp: apply_thread_event_def append_message_checks_def fork_checks_def
        requireActive_def thread_settled_def thread_next_def)
qed

text \<open>
  A Thread that is not deleted can always be deleted, also when archived; deletion erases the
  title, records who deleted it, and nothing is accepted after it.
\<close>

theorem thread_deletable:
  assumes "replayThreadLifecycle es = Inr s" and "ts_status s \<noteq> ThreadDeleted"
    and "int (length es) < max_safe_integer" and "\<not> is_blank actor"
  shows "\<exists>e t. replayThreadLifecycle (es @ [e]) = Inr t \<and> ts_status t = ThreadDeleted \<and> ts_title t = None
    \<and> ts_deletedByActorId t = Some actor \<and> (\<forall>f fs. \<exists>err. replayThreadLifecycle ((es @ [e]) @ f # fs) = Inl err)"
proof -
  define e where "e = \<lparr>te_schemaVersion = js ''crewon.thread-event.v0'', te_threadId = ts_threadId s,
    te_eventId = js ''next'', te_sequence = ts_lastEventSequence s + 1, te_occurredAt = ts_updatedAt s,
    te_ownsWorkspaceId = False, te_data = ThreadDeletedBy actor\<rparr>"
  have ok: "thread_ok s" using assms(1) by (rule replay_thread_ok)
  have last: "ts_lastEventSequence s = int (length es)"
    using thread_log.replay_numbers [OF assms(1) [unfolded replay_thread_Inr]] by simp
  have v: "validateThreadLifecycleEvent e = None"
    using ok assms(3,4) last by (simp add: validateThreadLifecycleEvent_def e_def thread_data_checks_def
        thread_ok_def validateThreadState_def safe_integer_defs string_eval is_thread_created_def)
  obtain w where w: "normalizeThreadWorkspaceId (ts_workspaceId s) = Inr w"
    using ok by (auto simp: thread_ok_def validateThreadState_def)
  have "\<not> date_less (iso_time (ts_updatedAt s)) (iso_time (ts_updatedAt s))"
    by (simp add: date_less_def split: option.splits)
  then have "\<exists>t. reduceThreadLifecycleEvent (Some s) e = Inr t \<and> ts_status t = ThreadDeleted \<and> ts_title t = None
      \<and> ts_deletedByActorId t = Some actor"
    using v ok w assms(2) by (simp add: reduce_thread_Inr e_def apply_thread_event_def)
  then obtain t where t: "replayThreadLifecycle (es @ [e]) = Inr t" and d: "ts_status t = ThreadDeleted"
    "ts_title t = None" "ts_deletedByActorId t = Some actor"
    by (auto simp: replay_thread_snoc [OF assms(1)])
  have "\<exists>err. replayThreadLifecycle ((es @ [e]) @ f # fs) = Inl err" for f fs
    using thread_log.replay_closed [OF t [unfolded replay_thread_Inr] d(1), of "f # fs"]
    by (auto simp: replayThreadLifecycle_def simp del: append_assoc)
  with t d show ?thesis by blast
qed

section \<open>A concrete Thread\<close>

definition thread_log_time :: js_string where
  "thread_log_time = js ''2026-01-02T03:04:05.678Z''"

lemma thread_log_time_ok [simp]: "iso_time thread_log_time = Some 1767323045678"
  by code_simp

definition thread_log_event :: "int \<Rightarrow> thread_event_data \<Rightarrow> thread_event" where
  "thread_log_event n d = \<lparr>te_schemaVersion = js ''crewon.thread-event.v0'', te_threadId = js ''th'',
     te_eventId = js ''e'', te_sequence = n, te_occurredAt = thread_log_time, te_ownsWorkspaceId = False,
     te_data = d\<rparr>"

definition sample_thread_log :: "thread_event list" where
  "sample_thread_log = [
     thread_log_event 1 (ThreadCreated \<lparr>th_tenantId = js ''t'', th_spaceId = js ''s'', th_createdByActorId = js ''a'',
       th_title = None, th_workspaceId = Some (JStr (js ''ws-1''))\<rparr>),
     thread_log_event 2 (MessageAppended \<lparr>ma_messageId = js ''m'', ma_messageSequence = 1, ma_role = UserAuthor,
       ma_contentDigest = sample_digest, ma_initialTitle = Some (js ''Hi'')\<rparr>),
     thread_log_event 3 (ThreadArchivedBy (js ''a''))]"

definition sample_thread :: thread_state where
  "sample_thread = \<lparr>ts_threadId = js ''th'', ts_tenantId = js ''t'', ts_spaceId = js ''s'',
     ts_createdByActorId = js ''a'', ts_title = Some (js ''Hi''), ts_workspaceId = Some (JStr (js ''ws-1'')),
     ts_status = ThreadArchived, ts_revision = 3, ts_lastEventSequence = 3, ts_lastMessageSequence = 1,
     ts_createdAt = thread_log_time, ts_updatedAt = thread_log_time, ts_archivedAt = Some thread_log_time,
     ts_deletedAt = None, ts_deletedByActorId = None, ts_forkedFromThreadId = None,
     ts_forkedThroughHistorySequence = None\<rparr>"

definition rename_event :: thread_event where
  "rename_event = thread_log_event 4 (ThreadRenamed (js ''a'') None)"

lemmas thread_eval = reduceThreadLifecycleEvent_def createThread_def apply_thread_event_def thread_next_def
  validateThreadLifecycleEvent_def thread_data_checks_def validateThreadState_def thread_status_fields_bad_def
  thread_fork_fields_bad_def requireNullableTitle_def normalizeThreadWorkspaceId_def workspace_value_def
  append_message_checks_def requireActive_def initial_title_checks_def known_author_def thread_require_digest_def
  is_thread_created_def thread_log_event_def matches_opaque_id_def is_alnum_def is_id_tail_def is_digit_def
  is_lower_def is_upper_def is_timestamp_iff safe_integer_defs string_eval guarded_pass

lemma sample_thread_replays: "replayThreadLifecycle sample_thread_log = Inr sample_thread"
  by (simp add: sample_thread_log_def replayThreadLifecycle_def thread_eval sample_thread_def)

lemma rename_replays:
  "replayThreadLifecycle (sample_thread_log @ [rename_event])
    = Inr (sample_thread\<lparr>ts_title := None, ts_revision := 4, ts_lastEventSequence := 4\<rparr>)"
  unfolding replay_thread_snoc [OF sample_thread_replays]
  by (simp add: rename_event_def sample_thread_def thread_eval)

theorem replayed_thread_valid_witness:
  "\<exists>t. replayThreadLifecycle sample_thread_log = Inr t \<and> validateThreadState t = None \<and> ts_status t = ThreadArchived"
  using replayed_thread_valid [OF sample_thread_replays] sample_thread_replays by (auto simp: sample_thread_def)

theorem replayed_thread_numbers_witness:
  "\<exists>t. replayThreadLifecycle (sample_thread_log @ [rename_event]) = Inr t \<and> ts_revision t = 4
    \<and> thread_identity t = thread_identity sample_thread"
  using replayed_thread_numbers [OF sample_thread_replays rename_replays] rename_replays
  by (simp add: sample_thread_log_def)

theorem thread_messages_gapless_witness:
  "\<exists>t. replayThreadLifecycle sample_thread_log = Inr t \<and> appended_messages sample_thread_log = [1]"
  using thread_messages_gapless [OF sample_thread_replays] sample_thread_replays by (auto simp: sample_thread_def)

theorem archived_thread_settled_witness:
  "\<exists>t. replayThreadLifecycle (sample_thread_log @ [rename_event]) = Inr t \<and> thread_settled sample_thread t"
  using archived_thread_settled [OF sample_thread_replays _ rename_replays] rename_replays
  by (simp add: sample_thread_def)

theorem thread_deletable_witness:
  "\<exists>e t. replayThreadLifecycle (sample_thread_log @ [e]) = Inr t \<and> ts_status t = ThreadDeleted \<and> ts_title t = None"
proof -
  have "ts_status sample_thread \<noteq> ThreadDeleted" "int (length sample_thread_log) < max_safe_integer"
    "\<not> is_blank (js ''a'')"
    by (simp_all add: sample_thread_def sample_thread_log_def max_safe_integer_def string_eval)
  from thread_deletable [OF sample_thread_replays this] show ?thesis by blast
qed

end
