(* ===== verification/Model_History.thy ===== *)
theory Model_History
  imports Thread_Lifecycle Run_Events
begin

text \<open>
  The items of a Thread's model history and their validation, \<open>model-history.ts\<close>: messages, tool
  calls and results, compactions and rollback markers.  Field prefixes: \<open>hi\<close> for what every item
  has, \<open>hm\<close>, \<open>hc\<close>, \<open>hr\<close>, \<open>hp\<close>, \<open>hb\<close> for the kinds.  \<open>hi_ownKeys\<close> are the own keys of the item,
  which the code tests; a message's \<open>origin\<close> is a dynamic value.
\<close>

section \<open>Data\<close>

datatype message_source =
    ThreadMessage | AssistantCompletion | TurnAborted | GoalContinuation | GoalSteering
  | AutomationInvocation | OtherSource js_string

record history_message =
  hm_role :: message_author
  hm_source :: message_source
  hm_content :: js_string
  hm_contentDigest :: js_string
  hm_origin :: "json option"

record history_call =
  hc_kind :: tool_kind
  hc_callId :: js_string
  hc_name :: js_string
  hc_input :: js_string

datatype result_status = ResultCompleted | ResultAborted | OtherResultStatus js_string

record history_result =
  hr_kind :: tool_kind
  hr_callId :: js_string
  hr_output :: js_string
  hr_isError :: bool
  hr_status :: result_status

record retained_message =
  hu_content :: js_string
  hu_contentDigest :: js_string

record history_compaction =
  hp_mode :: compaction_mode
  hp_replacesThroughSequence :: int
  hp_sourceDigest :: js_string
  hp_summary :: js_string
  hp_summaryDigest :: js_string
  hp_retainedUserMessages :: "retained_message list"

record history_rollback =
  hb_rollbackId :: js_string
  hb_threadEventId :: js_string
  hb_requestedTurns :: int
  hb_removedTurns :: int
  hb_historyFromSequence :: "int option"
  hb_historyThroughSequence :: int

datatype history_body =
    MessageItem history_message
  | ToolCallItem history_call
  | ToolResultItem history_result
  | CompactionItem history_compaction
  | RollbackItem history_rollback

record history_item =
  hi_schemaVersion :: js_string
  hi_itemId :: js_string
  hi_tenantId :: js_string
  hi_threadId :: js_string
  hi_sequence :: int
  hi_runId :: "js_string option"
  hi_segmentId :: "js_string option"
  hi_createdAt :: js_string
  hi_ownKeys :: "js_string list"
  hi_body :: history_body

definition turn_aborted_marker :: js_string where
  "turn_aborted_marker = js ''<turn_aborted>'' @ [10] @ js (''The user interrupted the previous turn on purpose. ''
     @ ''Any running unified exec processes may still be running in the background. ''
     @ ''If any tools/commands were aborted, they may have partially executed.'') @ [10] @ js ''</turn_aborted>''"

text \<open>Messages with an entry in the ledger of the Thread, and those that begin a turn.\<close>

definition isModelHistoryMessageBacked :: "history_item \<Rightarrow> bool" where
  "isModelHistoryMessageBacked i = (case hi_body i of
     MessageItem m \<Rightarrow> hm_source m = ThreadMessage \<or> hm_source m = AutomationInvocation
       \<or> hm_source m = AssistantCompletion
   | _ \<Rightarrow> False)"

definition isModelHistoryInstructionBoundary :: "history_item \<Rightarrow> bool" where
  "isModelHistoryInstructionBoundary i \<longleftrightarrow> isModelHistoryMessageBacked i \<and> (case hi_body i of
     MessageItem m \<Rightarrow> hm_role m = UserAuthor
       \<and> (hm_source m = ThreadMessage \<or> hm_source m = AutomationInvocation)
   | _ \<Rightarrow> False)"

definition isModelHistoryRetainedUserMessage :: "history_item \<Rightarrow> bool" where
  "isModelHistoryRetainedUserMessage i = isModelHistoryInstructionBoundary i"

section \<open>Checks\<close>

definition mh_throw_if :: "bool \<Rightarrow> string \<Rightarrow> check" where
  "mh_throw_if b code = throw_if b (ModelHistoryError code)"

lemma mh_throw_if_None [simp]: "mh_throw_if b code = None \<longleftrightarrow> \<not> b"
  by (simp add: mh_throw_if_def)

definition requireStringAtMost :: "js_string \<Rightarrow> nat \<Rightarrow> string \<Rightarrow> check" where
  "requireStringAtMost s maxBytes code = mh_throw_if (maxBytes < utf8_length s) code"

definition requireBounded :: "js_string \<Rightarrow> nat \<Rightarrow> string \<Rightarrow> check" where
  "requireBounded s maxBytes code = first_throw
     [mh_throw_if (is_blank s) code, requireStringAtMost s maxBytes code]"

lemma requireBounded_None [simp]:
  "requireBounded s n code = None \<longleftrightarrow> \<not> is_blank s \<and> utf8_length s \<le> n"
  by (simp add: requireBounded_def requireStringAtMost_def not_less)

definition requireOptionalBounded :: "js_string option \<Rightarrow> nat \<Rightarrow> string \<Rightarrow> check" where
  "requireOptionalBounded s maxBytes code = when_some s (\<lambda>v. requireBounded v maxBytes code)"

definition mh_require_digest :: "js_string \<Rightarrow> string \<Rightarrow> check" where
  "mh_require_digest s code = mh_throw_if (\<not> matches_digest s) code"

definition validateToolKind :: "tool_kind \<Rightarrow> check" where
  "validateToolKind k = mh_throw_if (case k of OtherToolKind _ \<Rightarrow> True | _ \<Rightarrow> False) ''model_history_tool_kind_invalid''"

definition automation_message_keys :: "string list" where
  "automation_message_keys = [''content'', ''contentDigest'', ''createdAt'', ''itemId'', ''origin'', ''role'',
     ''runId'', ''schemaVersion'', ''segmentId'', ''sequence'', ''source'', ''tenantId'', ''threadId'', ''type'']"

definition validateAutomationInvocationMessage :: "history_item \<Rightarrow> history_message \<Rightarrow> check" where
  "validateAutomationInvocationMessage i m = first_throw
     [mh_throw_if (sort (hi_ownKeys i) \<noteq> map js automation_message_keys \<or> hm_role m \<noteq> UserAuthor
         \<or> hi_runId i = None \<or> hi_segmentId i \<noteq> None) ''model_history_automation_invocation_invalid'',
      (case hm_origin m of
         None \<Rightarrow> Some (ModelHistoryError ''model_history_automation_invocation_origin_invalid'')
       | Some v \<Rightarrow> (case parseAutomationInvocationOrigin v of
           Inl _ \<Rightarrow> Some (ModelHistoryError ''model_history_automation_invocation_origin_invalid'')
         | Inr b \<Rightarrow> first_throw
             [mh_throw_if (Some (bindingRunId b) \<noteq> hi_runId i)
                ''model_history_automation_invocation_run_id_mismatch'',
              mh_throw_if (instructionDigest b \<noteq> hm_contentDigest m)
                ''model_history_automation_invocation_instruction_digest_mismatch'']))]"

section \<open>Validation of the kinds of items\<close>

definition message_byte_bound :: "message_source \<Rightarrow> nat" where
  "message_byte_bound s = (if s = AutomationInvocation then max_automation_instruction_bytes
     else if s = GoalContinuation \<or> s = GoalSteering then 36 * 1024 else 32 * 1024)"

definition message_item_checks :: "history_item \<Rightarrow> history_message \<Rightarrow> check list" where
  "message_item_checks i m =
     [mh_throw_if (\<not> known_author (hm_role m)) ''model_history_message_role_invalid'',
      mh_throw_if (case hm_source m of OtherSource _ \<Rightarrow> True | _ \<Rightarrow> False) ''model_history_message_source_invalid'',
      requireBounded (hm_content m) (message_byte_bound (hm_source m)) ''model_history_content_invalid'',
      mh_require_digest (hm_contentDigest m) ''model_history_content_digest_invalid'',
      (if hm_source m = AutomationInvocation then validateAutomationInvocationMessage i m
       else mh_throw_if (js ''origin'' \<in> set (hi_ownKeys i)) ''model_history_message_origin_invalid''),
      mh_throw_if (hm_source m = TurnAborted \<and> (hm_role m \<noteq> UserAuthor \<or> hm_content m \<noteq> turn_aborted_marker))
        ''model_history_abort_marker_invalid'',
      mh_throw_if (hm_source m = GoalContinuation \<and> hm_role m \<noteq> UserAuthor) ''model_history_goal_continuation_invalid'',
      mh_throw_if (hm_source m = GoalSteering \<and> hm_role m \<noteq> UserAuthor) ''model_history_goal_steering_invalid'']"

definition call_item_checks :: "history_item \<Rightarrow> history_call \<Rightarrow> check list" where
  "call_item_checks i c =
     [validateToolKind (hc_kind c),
      requireBounded (hc_callId c) 512 ''model_history_call_id_invalid'',
      requireBounded (hc_name c) 256 ''model_history_tool_name_invalid'',
      requireStringAtMost (hc_input c) (32 * 1024) ''model_history_tool_input_invalid'',
      mh_throw_if (hi_runId i = None \<or> hi_segmentId i = None) ''model_history_tool_run_id_missing'']"

definition result_item_checks :: "history_item \<Rightarrow> history_result \<Rightarrow> check list" where
  "result_item_checks i r =
     [validateToolKind (hr_kind r),
      requireBounded (hr_callId r) 512 ''model_history_call_id_invalid'',
      requireStringAtMost (hr_output r) 40000 ''model_history_tool_output_invalid'',
      mh_throw_if (hr_status r \<noteq> ResultCompleted \<and> hr_status r \<noteq> ResultAborted) ''model_history_tool_status_invalid'',
      mh_throw_if (hr_status r = ResultAborted \<and> \<not> hr_isError r) ''model_history_aborted_tool_not_error'',
      mh_throw_if (hi_runId i = None \<or> hi_segmentId i = None) ''model_history_tool_run_id_missing'']"

text \<open>The loop over the retained messages, with the sum of their sizes.\<close>

fun retained_checks :: "nat \<Rightarrow> retained_message list \<Rightarrow> check" where
  "retained_checks bytes [] = mh_throw_if (32 * 1024 < bytes) ''model_history_compaction_retained_messages_too_large''"
| "retained_checks bytes (r # rs) = first_throw
     [requireBounded (hu_content r) (32 * 1024) ''model_history_compaction_retained_message_invalid'',
      mh_require_digest (hu_contentDigest r) ''model_history_compaction_retained_digest_invalid'',
      retained_checks (bytes + utf8_length (hu_content r)) rs]"

definition compaction_item_checks :: "history_item \<Rightarrow> history_compaction \<Rightarrow> check list" where
  "compaction_item_checks i c =
     [mh_throw_if ((case hp_mode c of OtherCompactionMode _ \<Rightarrow> True | _ \<Rightarrow> False)
         \<or> hi_runId i = None \<or> hi_segmentId i = None
         \<or> \<not> is_safe_integer (hp_replacesThroughSequence c) \<or> hp_replacesThroughSequence c < 1
         \<or> hi_sequence i \<le> hp_replacesThroughSequence c
         \<or> 128 < length (hp_retainedUserMessages c)) ''model_history_compaction_invalid'',
      requireBounded (hp_summary c) (32 * 1024) ''model_history_compaction_summary_invalid'',
      mh_require_digest (hp_summaryDigest c) ''model_history_compaction_summary_digest_invalid'',
      mh_require_digest (hp_sourceDigest c) ''model_history_compaction_source_digest_invalid'',
      retained_checks 0 (hp_retainedUserMessages c)]"

definition rollback_item_checks :: "history_item \<Rightarrow> history_rollback \<Rightarrow> check list" where
  "rollback_item_checks i b =
     [requireBounded (hb_rollbackId b) 512 ''model_history_rollback_id_invalid'',
      requireBounded (hb_threadEventId b) 512 ''model_history_rollback_event_id_invalid'',
      mh_throw_if (hi_runId i \<noteq> None \<or> hi_segmentId i \<noteq> None
         \<or> \<not> is_safe_integer (hb_requestedTurns b) \<or> hb_requestedTurns b < 1
         \<or> max_model_history_rollback_turns < hb_requestedTurns b
         \<or> \<not> is_safe_integer (hb_removedTurns b) \<or> hb_removedTurns b < 0
         \<or> hb_requestedTurns b < hb_removedTurns b
         \<or> \<not> is_safe_integer (hb_historyThroughSequence b)
         \<or> hb_historyThroughSequence b \<noteq> hi_sequence i - 1
         \<or> (hb_historyFromSequence b = None) \<noteq> (hb_removedTurns b = 0)
         \<or> (case hb_historyFromSequence b of None \<Rightarrow> False | Some f \<Rightarrow>
              \<not> is_safe_integer f \<or> f < 1 \<or> hb_historyThroughSequence b < f)) ''model_history_rollback_invalid'']"

definition item_body_checks :: "history_item \<Rightarrow> check list" where
  "item_body_checks i = (case hi_body i of
     MessageItem m \<Rightarrow> message_item_checks i m
   | ToolCallItem c \<Rightarrow> call_item_checks i c
   | ToolResultItem r \<Rightarrow> result_item_checks i r
   | CompactionItem c \<Rightarrow> compaction_item_checks i c
   | RollbackItem b \<Rightarrow> rollback_item_checks i b)"

definition validateModelHistoryItem :: "history_item \<Rightarrow> check" where
  "validateModelHistoryItem i = first_throw
     ([mh_throw_if (hi_schemaVersion i \<noteq> js ''crewon.model-history-item.v0'') ''model_history_item_invalid'',
       requireBounded (hi_itemId i) 512 ''model_history_item_id_invalid'',
       requireBounded (hi_tenantId i) 256 ''model_history_tenant_id_invalid'',
       requireBounded (hi_threadId i) 512 ''model_history_thread_id_invalid'',
       mh_throw_if (\<not> is_safe_integer (hi_sequence i) \<or> hi_sequence i < 1) ''model_history_sequence_invalid'',
       requireOptionalBounded (hi_runId i) 512 ''model_history_run_id_invalid'',
       requireOptionalBounded (hi_segmentId i) 512 ''model_history_segment_id_invalid'',
       mh_throw_if (hi_segmentId i \<noteq> None \<and> hi_runId i = None) ''model_history_execution_identity_invalid'',
       mh_throw_if (\<not> is_timestamp (hi_createdAt i)) ''model_history_created_at_invalid'']
      @ item_body_checks i)"

lemma valid_item_sequence: "validateModelHistoryItem i = None \<Longrightarrow> positive_safe_integer (hi_sequence i)"
  by (simp add: validateModelHistoryItem_def positive_safe_integer_def not_less)

lemma valid_item_identity:
  assumes "validateModelHistoryItem i = None"
  shows "\<not> is_blank (hi_tenantId i)" "utf8_length (hi_tenantId i) \<le> 256"
    "\<not> is_blank (hi_threadId i)" "utf8_length (hi_threadId i) \<le> 512"
  using assms by (simp_all add: validateModelHistoryItem_def)

end
