(* ===== verification/Thread_Rollback.thy ===== *)
theory Thread_Rollback
  imports Model_History
begin

text \<open>
  Rolling back turns, \<open>thread-rollback.ts\<close>: the history is append only, and a rollback appends a
  marker that names the range of sequence numbers it hides.  The effective history is what
  remains when every marker has been applied in order; a new marker and the Thread event that belongs
  to it are planned from it.
\<close>

section \<open>Data\<close>

record rollback_boundary =
  bd_requestedTurns :: int
  bd_removedTurns :: int
  bd_historyFromSequence :: "int option"
  bd_historyThroughSequence :: int
  bd_markerHistorySequence :: int

record effective_history =
  eh_items :: "history_item list"
  eh_rollbackMarkers :: "history_item list"
  eh_latestRollback :: "history_item option"
  eh_throughHistorySequence :: int

record rollback_artifacts =
  ra_boundary :: rollback_boundary
  ra_marker :: history_item
  ra_event :: thread_event

record rollback_input =
  ri_tenantId :: js_string
  ri_threadId :: js_string
  ri_actorId :: js_string
  ri_rollbackId :: js_string
  ri_markerItemId :: js_string
  ri_threadEventId :: js_string
  ri_threadEventSequence :: int
  ri_occurredAt :: js_string
  ri_requestedTurns :: int

section \<open>The boundary of a rollback\<close>

definition isContextualUpdate :: "history_item \<Rightarrow> bool" where
  "isContextualUpdate i = (case hi_body i of
     MessageItem m \<Rightarrow> hm_role m = UserAuthor \<and> (hm_source m = GoalContinuation \<or> hm_source m = GoalSteering)
   | _ \<Rightarrow> False)"

text \<open>The loop from the last item down to the first: \<open>n\<close> items are still to be visited.\<close>

fun turn_cut :: "history_item list \<Rightarrow> int \<Rightarrow> nat \<Rightarrow> nat \<times> int \<Rightarrow> nat \<times> int" where
  "turn_cut items requested 0 st = st"
| "turn_cut items requested (Suc n) st =
     (if \<not> isModelHistoryInstructionBoundary (items ! n) then turn_cut items requested n st
      else if snd st + 1 = requested then (n, snd st + 1)
      else turn_cut items requested n (n, snd st + 1))"

text \<open>The updates of the goal's context directly above the cut belong to the turn below it.\<close>

fun context_cut :: "history_item list \<Rightarrow> nat \<Rightarrow> nat \<Rightarrow> nat" where
  "context_cut items first 0 = 0"
| "context_cut items first (Suc c) =
     (if first < Suc c \<and> isContextualUpdate (items ! c) then context_cut items first c else Suc c)"

definition find_index :: "('a \<Rightarrow> bool) \<Rightarrow> 'a list \<Rightarrow> nat" where
  "find_index P xs = length (takeWhile (\<lambda>x. \<not> P x) xs)"

definition cut_index :: "history_item list \<Rightarrow> int \<Rightarrow> nat \<times> int" where
  "cut_index items requested = (let (edge, removed) = turn_cut items requested (length items) (length items, 0) in
     (if 0 < removed then context_cut items (find_index isModelHistoryInstructionBoundary items) edge else edge,
      removed))"

definition planFromEffectiveItems :: "history_item list \<Rightarrow> int \<Rightarrow> int \<Rightarrow> rollback_boundary res" where
  "planFromEffectiveItems items requested through = guarded
     [mh_throw_if (\<not> is_safe_integer requested \<or> requested < 1 \<or> max_model_history_rollback_turns < requested)
        ''model_history_rollback_turns_invalid'']
     (case cut_index items requested of (edge, removed) \<Rightarrow>
       Inr \<lparr>bd_requestedTurns = requested, bd_removedTurns = removed,
         bd_historyFromSequence = (if removed = 0 then None
            else if edge < length items then Some (hi_sequence (items ! edge)) else None),
         bd_historyThroughSequence = through, bd_markerHistorySequence = through + 1\<rparr>)"

section \<open>The effective history\<close>

fun raw_checks :: "int \<Rightarrow> js_string option \<Rightarrow> js_string option \<Rightarrow> history_item list \<Rightarrow> check" where
  "raw_checks index tenant thread [] = None"
| "raw_checks index tenant thread (i # is) = first_throw
     [validateModelHistoryItem i,
      mh_throw_if (hi_sequence i \<noteq> index + 1) ''model_history_sequence_gap'',
      mh_throw_if (hi_tenantId i \<noteq> nullish tenant (hi_tenantId i) \<or> hi_threadId i \<noteq> nullish thread (hi_threadId i))
        ''model_history_identity_mismatch'',
      raw_checks (index + 1) (Some (nullish tenant (hi_tenantId i))) (Some (nullish thread (hi_threadId i))) is]"

definition validateRawHistory :: "history_item list \<Rightarrow> check" where
  "validateRawHistory history = raw_checks 0 None None history"

definition apply_boundary :: "rollback_boundary \<Rightarrow> history_item list \<Rightarrow> history_item list" where
  "apply_boundary x items = (case bd_historyFromSequence x of None \<Rightarrow> items
     | Some f \<Rightarrow> filter (\<lambda>i. hi_sequence i < f) items)"

fun replay_items :: "history_item list \<Rightarrow> history_item list \<Rightarrow> history_item list
    \<Rightarrow> (history_item list \<times> history_item list) res" where
  "replay_items items markers [] = Inr (items, markers)"
| "replay_items items markers (i # is) = (case hi_body i of
     RollbackItem b \<Rightarrow>
       then_do (planFromEffectiveItems items (hb_requestedTurns b) (hb_historyThroughSequence b)) (\<lambda>x. guarded
         [mh_throw_if (hb_removedTurns b \<noteq> bd_removedTurns x \<or> hb_historyFromSequence b \<noteq> bd_historyFromSequence x
            \<or> hi_sequence i \<noteq> bd_markerHistorySequence x) ''model_history_rollback_boundary_mismatch'']
         (replay_items (apply_boundary x items) (markers @ [i]) is))
   | _ \<Rightarrow> replay_items (items @ [i]) markers is)"

definition last_or_none :: "'a list \<Rightarrow> 'a option" where
  "last_or_none xs = (if xs = [] then None else Some (last xs))"

definition through_sequence :: "history_item list \<Rightarrow> int" where
  "through_sequence history = nullish (map_option hi_sequence (last_or_none history)) 0"

definition replayEffectiveHistory :: "history_item list \<Rightarrow> effective_history res" where
  "replayEffectiveHistory history = guarded [validateRawHistory history]
     (then_do (replay_items [] [] history) (\<lambda>(items, markers).
       Inr \<lparr>eh_items = items, eh_rollbackMarkers = markers, eh_latestRollback = last_or_none markers,
         eh_throughHistorySequence = through_sequence history\<rparr>))"

definition projectEffectiveModelHistory :: "history_item list \<Rightarrow> effective_history res" where
  "projectEffectiveModelHistory history = replayEffectiveHistory history"

definition isHistorySequenceRolledBack :: "rollback_boundary \<Rightarrow> int \<Rightarrow> bool" where
  "isHistorySequenceRolledBack x sequence = (case bd_historyFromSequence x of None \<Rightarrow> False
     | Some f \<Rightarrow> f \<le> sequence \<and> sequence \<le> bd_historyThroughSequence x)"

section \<open>The artifacts of a rollback\<close>

definition planModelHistoryRollback :: "history_item list \<Rightarrow> int \<Rightarrow> rollback_boundary res" where
  "planModelHistoryRollback history requested = then_do (replayEffectiveHistory history) (\<lambda>eff.
     planFromEffectiveItems (eh_items eff) requested (eh_throughHistorySequence eff))"

definition other_identity :: "history_item list \<Rightarrow> js_string \<Rightarrow> js_string \<Rightarrow> bool" where
  "other_identity history tenant thread = (case history of [] \<Rightarrow> False
     | first # _ \<Rightarrow> hi_tenantId first \<noteq> tenant \<or> hi_threadId first \<noteq> thread)"

text \<open>The types of the artifacts exclude every body but a rollback and every event but \<open>thread.rolled_back\<close>.\<close>

definition artifacts_match :: "rollback_boundary \<Rightarrow> rollback_artifacts \<Rightarrow> bool" where
  "artifacts_match expected art = (let m = ra_marker art; e = ra_event art in
     case (hi_body m, te_data e) of
       (RollbackItem b, ThreadRolledBack d) \<Rightarrow>
         ra_boundary art = expected
         \<and> hi_sequence m = bd_markerHistorySequence expected
         \<and> hb_removedTurns b = bd_removedTurns expected
         \<and> hb_historyFromSequence b = bd_historyFromSequence expected
         \<and> hb_historyThroughSequence b = bd_historyThroughSequence expected
         \<and> hi_threadId m = te_threadId e \<and> hb_threadEventId b = te_eventId e \<and> hi_createdAt m = te_occurredAt e
         \<and> hb_rollbackId b = rb_rollbackId d \<and> hi_itemId m = rb_markerItemId d
         \<and> rb_requestedTurns d = bd_requestedTurns expected
         \<and> rb_removedTurns d = bd_removedTurns expected
         \<and> rb_historyFromSequence d = bd_historyFromSequence expected
         \<and> rb_historyThroughSequence d = bd_historyThroughSequence expected
         \<and> rb_markerHistorySequence d = bd_markerHistorySequence expected
     | _ \<Rightarrow> False)"

definition marker_requested :: "history_item \<Rightarrow> int" where
  "marker_requested m = (case hi_body m of RollbackItem b \<Rightarrow> hb_requestedTurns b | _ \<Rightarrow> 0)"

definition validateThreadRollbackArtifacts :: "history_item list \<Rightarrow> rollback_artifacts \<Rightarrow> check" where
  "validateThreadRollbackArtifacts before art = first_throw
     [validateModelHistoryItem (ra_marker art),
      validateThreadLifecycleEvent (ra_event art),
      checked (then_do (planModelHistoryRollback before (marker_requested (ra_marker art))) (\<lambda>expected. guarded
        [mh_throw_if (\<not> artifacts_match expected art) ''model_history_rollback_boundary_mismatch''] (Inr ()))),
      mh_throw_if (other_identity before (hi_tenantId (ra_marker art)) (hi_threadId (ra_marker art)))
        ''model_history_rollback_identity_mismatch'',
      checked (replayEffectiveHistory (before @ [ra_marker art]))]"

definition rollback_marker_keys :: "string list" where
  "rollback_marker_keys = [''schemaVersion'', ''type'', ''itemId'', ''tenantId'', ''threadId'', ''sequence'',
     ''runId'', ''segmentId'', ''createdAt'', ''rollbackId'', ''threadEventId'', ''requestedTurns'',
     ''removedTurns'', ''historyFromSequence'', ''historyThroughSequence'']"

definition rollback_marker :: "rollback_boundary \<Rightarrow> rollback_input \<Rightarrow> history_item" where
  "rollback_marker x input = \<lparr>hi_schemaVersion = js ''crewon.model-history-item.v0'',
     hi_itemId = ri_markerItemId input, hi_tenantId = ri_tenantId input, hi_threadId = ri_threadId input,
     hi_sequence = bd_markerHistorySequence x, hi_runId = None, hi_segmentId = None,
     hi_createdAt = ri_occurredAt input, hi_ownKeys = map js rollback_marker_keys,
     hi_body = RollbackItem \<lparr>hb_rollbackId = ri_rollbackId input, hb_threadEventId = ri_threadEventId input,
       hb_requestedTurns = bd_requestedTurns x, hb_removedTurns = bd_removedTurns x,
       hb_historyFromSequence = bd_historyFromSequence x,
       hb_historyThroughSequence = bd_historyThroughSequence x\<rparr>\<rparr>"

definition rollback_event :: "rollback_boundary \<Rightarrow> rollback_input \<Rightarrow> thread_event" where
  "rollback_event x input = \<lparr>te_schemaVersion = js ''crewon.thread-event.v0'', te_threadId = ri_threadId input,
     te_eventId = ri_threadEventId input, te_sequence = ri_threadEventSequence input,
     te_occurredAt = ri_occurredAt input, te_ownsWorkspaceId = False,
     te_data = ThreadRolledBack \<lparr>rb_actorId = ri_actorId input, rb_rollbackId = ri_rollbackId input,
       rb_markerItemId = ri_markerItemId input, rb_requestedTurns = bd_requestedTurns x,
       rb_removedTurns = bd_removedTurns x, rb_historyFromSequence = bd_historyFromSequence x,
       rb_historyThroughSequence = bd_historyThroughSequence x,
       rb_markerHistorySequence = bd_markerHistorySequence x\<rparr>\<rparr>"

definition createThreadRollbackArtifacts :: "history_item list \<Rightarrow> rollback_input \<Rightarrow> rollback_artifacts res" where
  "createThreadRollbackArtifacts history input =
     then_do (planModelHistoryRollback history (ri_requestedTurns input)) (\<lambda>x. guarded
       [mh_throw_if (other_identity history (ri_tenantId input) (ri_threadId input))
          ''model_history_rollback_identity_mismatch'',
        validateThreadRollbackArtifacts history
          \<lparr>ra_boundary = x, ra_marker = rollback_marker x input, ra_event = rollback_event x input\<rparr>]
       (Inr \<lparr>ra_boundary = x, ra_marker = rollback_marker x input, ra_event = rollback_event x input\<rparr>))"


section \<open>What the boundary is\<close>

definition turns :: "history_item list \<Rightarrow> nat" where
  "turns items = length (filter isModelHistoryInstructionBoundary items)"

lemma turns_simps [simp]: "turns [] = 0"
  "turns (xs @ ys) = turns xs + turns ys"
  "turns [i] = (if isModelHistoryInstructionBoundary i then 1 else 0)"
  by (simp_all add: turns_def)

lemma turns_take_Suc: "n < length items \<Longrightarrow> turns (take (Suc n) items) =
    turns (take n items) + (if isModelHistoryInstructionBoundary (items ! n) then 1 else 0)"
  by (simp add: take_Suc_conv_app_nth)

lemma contextual_no_boundary: "isContextualUpdate i \<Longrightarrow> \<not> isModelHistoryInstructionBoundary i"
  by (auto simp: isContextualUpdate_def isModelHistoryInstructionBoundary_def split: history_body.splits)

text \<open>\<open>k\<close> turns were found in the \<open>n\<close> items, and the cut is the first item of the \<open>k\<close>-th from above.\<close>

definition cut_at :: "history_item list \<Rightarrow> nat \<Rightarrow> nat \<Rightarrow> nat \<Rightarrow> nat \<Rightarrow> bool" where
  "cut_at items n k c c' \<longleftrightarrow> (if k = 0 then c' = c else c' < n
     \<and> isModelHistoryInstructionBoundary (items ! c') \<and> turns (take n items) = turns (take c' items) + k)"

lemma turn_cut_spec:
  assumes "n \<le> length items" and "0 \<le> r" and "r < requested"
  shows "\<exists>c' k. turn_cut items requested n (c, r) = (c', r + int k) \<and> cut_at items n k c c'
    \<and> r + int k = min requested (r + int (turns (take n items)))"
  using assms
proof (induction n arbitrary: c r)
  case (Suc n)
  have n: "n < length items" "n \<le> length items" using Suc.prems(1) by simp_all
  note t = turns_take_Suc [OF n(1)]
  show ?case
  proof (cases "isModelHistoryInstructionBoundary (items ! n)")
    case False
    from Suc.IH [OF n(2) Suc.prems(2,3), of c] obtain c' k where
      "turn_cut items requested n (c, r) = (c', r + int k)" "cut_at items n k c c'"
      "r + int k = min requested (r + int (turns (take n items)))" by blast
    moreover from this False have "cut_at items (Suc n) k c c'" by (auto simp: t cut_at_def split: if_splits)
    ultimately have "turn_cut items requested (Suc n) (c, r) = (c', r + int k) \<and> cut_at items (Suc n) k c c'
        \<and> r + int k = min requested (r + int (turns (take (Suc n) items)))"
      using False by (simp only: turn_cut.simps t) simp
    then show ?thesis by blast
  next
    case True
    show ?thesis
    proof (cases "r + 1 = requested")
      case False
      have r: "0 \<le> r + 1" "r + 1 < requested" using False Suc.prems(2,3) by simp_all
      from Suc.IH [OF n(2) r, of n] obtain c' k where
        "turn_cut items requested n (n, r + 1) = (c', r + 1 + int k)" "cut_at items n k n c'"
        "r + 1 + int k = min requested (r + 1 + int (turns (take n items)))" by blast
      moreover from this True have "cut_at items (Suc n) (Suc k) c c'" by (auto simp: t cut_at_def split: if_splits)
      ultimately have "turn_cut items requested (Suc n) (c, r) = (c', r + int (Suc k)) \<and> cut_at items (Suc n) (Suc k) c c'
          \<and> r + int (Suc k) = min requested (r + int (turns (take (Suc n) items)))"
        using True False by (simp add: t add.assoc)
      then show ?thesis by blast
    next
      case requested: True
      with True have "turn_cut items requested (Suc n) (c, r) = (n, r + int 1) \<and> cut_at items (Suc n) 1 c n
          \<and> r + int 1 = min requested (r + int (turns (take (Suc n) items)))"
        by (simp add: t cut_at_def)
      then show ?thesis by blast
    qed
  qed
qed (simp add: cut_at_def)

lemma context_cut_spec:
  assumes "c \<le> length items"
  shows "context_cut items first c \<le> c \<and> turns (take (context_cut items first c) items) = turns (take c items)
    \<and> (\<forall>j. context_cut items first c \<le> j \<and> j < c \<longrightarrow> isContextualUpdate (items ! j))
    \<and> (first < context_cut items first c \<longrightarrow> \<not> isContextualUpdate (items ! (context_cut items first c - 1)))"
  using assms
proof (induction c)
  case (Suc c)
  then have "c < length items" by simp
  with Suc show ?case
    by (auto simp: turns_take_Suc less_Suc_eq_le contextual_no_boundary dest: le_neq_implies_less)
qed simp

text \<open>
  The cut removes the requested number of turns, or all there are, with the context of the first
  of them.
\<close>

lemma cut_index_spec:
  assumes "1 \<le> requested"
  obtains c k where "cut_index items requested = (c, int k)" "int k = min requested (int (turns items))"
    "c \<le> length items" "k = 0 \<longleftrightarrow> c = length items" "turns items = turns (take c items) + k"
proof -
  let ?first = "find_index isModelHistoryInstructionBoundary items"
  from turn_cut_spec [of "length items" items 0 requested "length items"] assms obtain c0 k where
    c0: "turn_cut items requested (length items) (length items, 0) = (c0, int k)"
    and ca: "cut_at items (length items) k (length items) c0"
    and k: "int k = min requested (int (turns items))" by auto
  define c where "c = (if 0 < k then context_cut items ?first c0 else c0)"
  have i: "cut_index items requested = (c, int k)" by (simp add: cut_index_def c0 c_def)
  have "c \<le> length items \<and> (k = 0 \<longleftrightarrow> c = length items) \<and> turns items = turns (take c items) + k"
  proof (cases "k = 0")
    case True
    with ca show ?thesis by (simp add: c_def cut_at_def)
  next
    case False
    with ca have l: "c0 < length items" "turns items = turns (take c0 items) + k" by (simp_all add: cut_at_def)
    have "c \<le> c0" "turns (take c items) = turns (take c0 items)"
      using context_cut_spec [of c0 items ?first] l(1) False by (simp_all add: c_def)
    with l False show ?thesis by simp
  qed
  with that [OF i k] show thesis by blast
qed

lemma plan_Inr:
  assumes "planFromEffectiveItems items requested through = Inr x"
  obtains c k where "1 \<le> requested" "requested \<le> max_model_history_rollback_turns"
    "int k = min requested (int (turns items))" "c \<le> length items" "k = 0 \<longleftrightarrow> c = length items"
    "turns items = turns (take c items) + k"
    "x = \<lparr>bd_requestedTurns = requested, bd_removedTurns = int k,
       bd_historyFromSequence = (if k = 0 then None else Some (hi_sequence (items ! c))),
       bd_historyThroughSequence = through, bd_markerHistorySequence = through + 1\<rparr>"
proof -
  from assms have r: "1 \<le> requested" "requested \<le> max_model_history_rollback_turns"
    by (auto simp: planFromEffectiveItems_def)
  from cut_index_spec [OF r(1), of items] obtain c k where i: "cut_index items requested = (c, int k)"
    and k: "int k = min requested (int (turns items))" and c: "c \<le> length items" "k = 0 \<longleftrightarrow> c = length items"
      "turns items = turns (take c items) + k" by blast
  from assms c have "x = \<lparr>bd_requestedTurns = requested, bd_removedTurns = int k,
       bd_historyFromSequence = (if k = 0 then None else Some (hi_sequence (items ! c))),
       bd_historyThroughSequence = through, bd_markerHistorySequence = through + 1\<rparr>"
    by (auto simp: planFromEffectiveItems_def i)
  with that r k c show thesis by blast
qed

lemma plan_total:
  assumes "1 \<le> requested" and "requested \<le> max_model_history_rollback_turns"
  shows "\<exists>x. planFromEffectiveItems items requested through = Inr x"
  using assms by (simp add: planFromEffectiveItems_def guarded_pass safe_integer_defs
      max_model_history_rollback_turns_def split: prod.split)

lemma filter_below_take:
  assumes "sorted_wrt (<) (map hi_sequence items)" and "c < length items"
  shows "filter (\<lambda>i. hi_sequence i < hi_sequence (items ! c)) items = take c items"
  using assms
proof (induction items arbitrary: c)
  case (Cons i items)
  show ?case
  proof (cases c)
    case 0
    with Cons.prems(1) show ?thesis by (auto intro!: filter_False)
  next
    case (Suc d)
    with Cons show ?thesis by auto
  qed
qed simp

lemma apply_boundary_plan:
  assumes "planFromEffectiveItems items requested through = Inr x" and "sorted_wrt (<) (map hi_sequence items)"
  shows "\<exists>c. apply_boundary x items = take c items
    \<and> int (turns (apply_boundary x items)) = int (turns items) - bd_removedTurns x"
  using assms(1)
proof (rule plan_Inr)
  fix c k
  assume a: "c \<le> length items" "(k = 0) = (c = length items)" "turns items = turns (take c items) + k"
    and x: "x = \<lparr>bd_requestedTurns = requested, bd_removedTurns = int k,
       bd_historyFromSequence = (if k = 0 then None else Some (hi_sequence (items ! c))),
       bd_historyThroughSequence = through, bd_markerHistorySequence = through + 1\<rparr>"
  have "apply_boundary x items = take c items"
    using a(1,2) filter_below_take [OF assms(2)] by (auto simp: apply_boundary_def x)
  with a(3) x show ?thesis by auto
qed

section \<open>The raw history\<close>

definition raw_ok :: "history_item list \<Rightarrow> bool" where
  "raw_ok h \<longleftrightarrow> (\<forall>n<length h. validateModelHistoryItem (h ! n) = None \<and> hi_sequence (h ! n) = int n + 1
     \<and> hi_tenantId (h ! n) = hi_tenantId (h ! 0) \<and> hi_threadId (h ! n) = hi_threadId (h ! 0))"

lemma raw_checks_None: "raw_checks index tenant thread h = None \<longleftrightarrow>
    (\<forall>n<length h. validateModelHistoryItem (h ! n) = None \<and> hi_sequence (h ! n) = index + int n + 1
      \<and> hi_tenantId (h ! n) = nullish tenant (hi_tenantId (h ! 0))
      \<and> hi_threadId (h ! n) = nullish thread (hi_threadId (h ! 0)))"
proof (induction h arbitrary: index tenant thread)
  case (Cons i h)
  show ?case
    by (simp only: raw_checks.simps first_throw_None Cons.IH mh_throw_if_None All_less_Suc2 length_Cons
        first_throw.simps(1) simp_thms nullish_simps) (auto simp: add.assoc)
qed simp

lemma validateRawHistory_None: "validateRawHistory h = None \<longleftrightarrow> raw_ok h"
  by (simp add: validateRawHistory_def raw_checks_None raw_ok_def)

lemma raw_ok_prefix:
  assumes "raw_ok (h @ fs)"
  shows "raw_ok h"
proof (cases h)
  case (Cons i rest)
  have "validateModelHistoryItem (h ! n) = None \<and> hi_sequence (h ! n) = int n + 1
     \<and> hi_tenantId (h ! n) = hi_tenantId (h ! 0) \<and> hi_threadId (h ! n) = hi_threadId (h ! 0)" if "n < length h" for n
  proof -
    from that have "n < length (h @ fs)" "(h @ fs) ! n = h ! n" by (simp_all add: nth_append)
    moreover have "(h @ fs) ! 0 = h ! 0" by (simp add: Cons)
    ultimately show ?thesis using assms unfolding raw_ok_def by metis
  qed
  then show ?thesis by (simp add: raw_ok_def)
qed (simp add: raw_ok_def)

lemma raw_ok_in: "raw_ok h \<Longrightarrow> i \<in> set h \<Longrightarrow> validateModelHistoryItem i = None
    \<and> 1 \<le> hi_sequence i \<and> hi_sequence i \<le> int (length h)"
  unfolding raw_ok_def in_set_conv_nth by auto

lemma raw_ok_sorted: "raw_ok h \<Longrightarrow> sorted_wrt (<) (map hi_sequence h)"
  unfolding raw_ok_def by (simp add: sorted_wrt_iff_nth_less)

lemma raw_ok_through: "raw_ok h \<Longrightarrow> through_sequence h = int (length h)"
  by (cases "h = []") (simp_all add: raw_ok_def through_sequence_def last_or_none_def last_conv_nth
      of_nat_diff Suc_le_eq)

section \<open>The effective history is what no marker hides\<close>

definition is_marker :: "history_item \<Rightarrow> bool" where
  "is_marker i = (case hi_body i of RollbackItem _ \<Rightarrow> True | _ \<Rightarrow> False)"

definition hides :: "history_item \<Rightarrow> int \<Rightarrow> bool" where
  "hides m s = (case hi_body m of RollbackItem b \<Rightarrow> (case hb_historyFromSequence b of None \<Rightarrow> False
     | Some f \<Rightarrow> f \<le> s \<and> s \<le> hb_historyThroughSequence b) | _ \<Rightarrow> False)"

definition visible :: "history_item list \<Rightarrow> history_item list" where
  "visible h = filter (\<lambda>i. \<not> is_marker i \<and> (\<forall>m\<in>set h. \<not> hides m (hi_sequence i))) h"

lemma replay_items_append: "replay_items items markers (h @ fs) =
    then_do (replay_items items markers h) (\<lambda>(a, b). replay_items a b fs)"
proof (induction h arbitrary: items markers)
  case (Cons i h)
  then show ?case
    by (auto simp: then_do_def guarded_def mh_throw_if_def first_throw_throw_if
        split: history_body.split sum.splits option.splits if_splits)
qed simp

lemma replay_items_plain: "\<not> is_marker i \<Longrightarrow> replay_items items markers [i] = Inr (items @ [i], markers)"
  by (simp add: is_marker_def split: history_body.splits)

lemma replay_items_marker:
  assumes "hi_body i = RollbackItem b"
  shows "replay_items items markers [i] = Inr r \<longleftrightarrow> (\<exists>x.
      planFromEffectiveItems items (hb_requestedTurns b) (hb_historyThroughSequence b) = Inr x
      \<and> hb_removedTurns b = bd_removedTurns x \<and> hb_historyFromSequence b = bd_historyFromSequence x
      \<and> hi_sequence i = bd_markerHistorySequence x \<and> r = (apply_boundary x items, markers @ [i]))"
  using assms by auto

lemma marker_through:
  assumes "validateModelHistoryItem m = None" and "hides m s"
  shows "s < hi_sequence m"
  using assms by (auto simp: hides_def validateModelHistoryItem_def item_body_checks_def rollback_item_checks_def
      split: history_body.splits option.splits)

lemma apply_boundary_hides:
  assumes "hi_body m = RollbackItem b" and "hb_historyFromSequence b = bd_historyFromSequence x"
    and "hb_historyThroughSequence b = hi_sequence m - 1" and "\<forall>i\<in>set items. hi_sequence i < hi_sequence m"
  shows "apply_boundary x items = filter (\<lambda>i. \<not> hides m (hi_sequence i)) items"
  using assms by (auto simp: apply_boundary_def hides_def not_le intro!: filter_cong split: option.split)

text \<open>
  A replay gives the items that no marker of the history hides, and the markers, both in the
  order of the history.
\<close>

lemma replay_visible:
  assumes "raw_ok h" and "replay_items [] [] h = Inr (items, markers)"
  shows "items = visible h \<and> markers = filter is_marker h"
  using assms
proof (induction h arbitrary: items markers rule: rev_induct)
  case (snoc i h)
  note ok = raw_ok_prefix [OF snoc.prems(1)]
  from snoc.prems(2) obtain a b where ab: "replay_items [] [] h = Inr (a, b)"
    and i: "replay_items a b [i] = Inr (items, markers)" by (auto simp: replay_items_append)
  note ih = snoc.IH [OF ok ab]
  have valid: "validateModelHistoryItem i = None"
    using snoc.prems(1) by (auto simp: raw_ok_def dest: spec [of _ "length h"])
  have top: "hi_sequence j < hi_sequence i" if "j \<in> set h" for j
    using that raw_ok_sorted [OF snoc.prems(1)] by (auto simp: sorted_wrt_append)
  have above: "\<not> hides m (hi_sequence i)" if "m \<in> set h" for m
    using marker_through [of m "hi_sequence i"] raw_ok_in [OF ok that] top [OF that] by auto
  show ?case
  proof (cases "is_marker i")
    case False
    then have "\<not> hides i s" for s by (auto simp: is_marker_def hides_def split: history_body.splits)
    moreover have "items = a @ [i]" "markers = b" using i unfolding replay_items_plain [OF False] by simp_all
    ultimately show ?thesis using False ih above by (auto simp: visible_def intro!: filter_cong)
  next
    case True
    then obtain c where c: "hi_body i = RollbackItem c" by (auto simp: is_marker_def split: history_body.splits)
    from i obtain x where x: "planFromEffectiveItems a (hb_requestedTurns c) (hb_historyThroughSequence c) = Inr x"
      "hb_historyFromSequence c = bd_historyFromSequence x" "items = apply_boundary x a" "markers = b @ [i]"
      unfolding replay_items_marker [OF c] by auto
    have t: "hb_historyThroughSequence c = hi_sequence i - 1"
      using valid by (simp add: validateModelHistoryItem_def item_body_checks_def rollback_item_checks_def c)
    have "\<forall>j\<in>set a. hi_sequence j < hi_sequence i" using ih top by (auto simp: visible_def)
    from apply_boundary_hides [OF c x(2) t this] x(3) ih
    have "items = filter (\<lambda>j. \<not> hides i (hi_sequence j)) (visible h)" by simp
    also have "\<dots> = visible (h @ [i])"
      using True by (auto simp: visible_def intro!: filter_cong)
    finally show ?thesis using ih x(4) True by simp
  qed
qed (simp add: visible_def)

lemma visible_sorted: "raw_ok h \<Longrightarrow> sorted_wrt (<) (map hi_sequence (visible h))"
  unfolding visible_def by (rule sorted_wrt_mono_rel [rotated], rule sorted_wrt_map [THEN iffD2],
      rule sorted_wrt_filter) (use raw_ok_sorted in \<open>auto simp: sorted_wrt_map\<close>)

lemma project_Inr:
  assumes "projectEffectiveModelHistory h = Inr eff"
  shows "raw_ok h" "replay_items [] [] h = Inr (visible h, filter is_marker h)"
    "eh_items eff = visible h" "eh_rollbackMarkers eff = filter is_marker h"
    "eh_latestRollback eff = last_or_none (filter is_marker h)" "eh_throughHistorySequence eff = int (length h)"
proof -
  from assms obtain items markers where r: "raw_ok h" "replay_items [] [] h = Inr (items, markers)"
    and e: "eff = \<lparr>eh_items = items, eh_rollbackMarkers = markers, eh_latestRollback = last_or_none markers,
         eh_throughHistorySequence = through_sequence h\<rparr>"
    by (auto simp: projectEffectiveModelHistory_def replayEffectiveHistory_def validateRawHistory_None)
  note v = replay_visible [OF r]
  show "raw_ok h" "replay_items [] [] h = Inr (visible h, filter is_marker h)"
    "eh_items eff = visible h" "eh_rollbackMarkers eff = filter is_marker h"
    "eh_latestRollback eff = last_or_none (filter is_marker h)" "eh_throughHistorySequence eff = int (length h)"
    using r v raw_ok_through [OF r(1)] by (simp_all add: e)
qed

lemma project_iff: "(\<exists>eff. projectEffectiveModelHistory h = Inr eff) \<longleftrightarrow>
    raw_ok h \<and> (\<exists>r. replay_items [] [] h = Inr r)"
  by (auto simp: projectEffectiveModelHistory_def replayEffectiveHistory_def validateRawHistory_None)


section \<open>Properties\<close>

lemma visible_snoc_marker:
  assumes "\<forall>m\<in>set h. \<not> hides m (hi_sequence i)" and "is_marker i"
  shows "visible (h @ [i]) = filter (\<lambda>j. \<not> hides i (hi_sequence j)) (visible h)"
  using assms by (auto simp: visible_def intro!: filter_cong)

lemma plan_fields:
  assumes "planFromEffectiveItems items requested through = Inr x"
  shows "bd_requestedTurns x = requested" "bd_historyThroughSequence x = through"
    "bd_markerHistorySequence x = through + 1" "bd_removedTurns x = min requested (int (turns items))"
  using assms by (rule plan_Inr, simp)+

lemma raw_ok_snoc:
  assumes "raw_ok h" and "validateModelHistoryItem i = None" and "hi_sequence i = int (length h) + 1"
    and "\<not> other_identity h (hi_tenantId i) (hi_threadId i)"
  shows "raw_ok (h @ [i])"
proof (cases h)
  case Nil
  with assms(2,3) show ?thesis by (simp add: raw_ok_def)
next
  case (Cons j rest)
  then have "hi_tenantId i = hi_tenantId (h ! 0)" "hi_threadId i = hi_threadId (h ! 0)" "(h @ [i]) ! 0 = h ! 0"
    using assms(4) by (simp_all add: other_identity_def)
  with assms(1-3) show ?thesis
    unfolding raw_ok_def by (simp only: length_append_singleton All_less_Suc) (simp add: nth_append)
qed

lemma hides_rollback_marker: "hides (rollback_marker x input) s = isHistorySequenceRolledBack x s"
  by (simp add: hides_def isHistorySequenceRolledBack_def rollback_marker_def split: option.split)

lemma planModelHistoryRollback_Inr: "planModelHistoryRollback h n = Inr x \<longleftrightarrow>
    (\<exists>eff. projectEffectiveModelHistory h = Inr eff
      \<and> planFromEffectiveItems (eh_items eff) n (eh_throughHistorySequence eff) = Inr x)"
  by (auto simp: planModelHistoryRollback_def projectEffectiveModelHistory_def)

text \<open>What a successful creation has established.\<close>

lemma create_Inr:
  assumes "createThreadRollbackArtifacts h input = Inr art"
  obtains eff x eff' where "projectEffectiveModelHistory h = Inr eff"
    "planFromEffectiveItems (eh_items eff) (ri_requestedTurns input) (int (length h)) = Inr x"
    "art = \<lparr>ra_boundary = x, ra_marker = rollback_marker x input, ra_event = rollback_event x input\<rparr>"
    "projectEffectiveModelHistory (h @ [rollback_marker x input]) = Inr eff'"
proof -
  from assms obtain x where p: "planModelHistoryRollback h (ri_requestedTurns input) = Inr x"
    and a: "art = \<lparr>ra_boundary = x, ra_marker = rollback_marker x input, ra_event = rollback_event x input\<rparr>"
    and v: "validateThreadRollbackArtifacts h art = None"
    by (auto simp: createThreadRollbackArtifacts_def)
  from p obtain eff where eff: "projectEffectiveModelHistory h = Inr eff"
    "planFromEffectiveItems (eh_items eff) (ri_requestedTurns input) (eh_throughHistorySequence eff) = Inr x"
    by (auto simp: planModelHistoryRollback_Inr)
  from v a obtain eff' where "projectEffectiveModelHistory (h @ [rollback_marker x input]) = Inr eff'"
    by (auto simp: validateThreadRollbackArtifacts_def projectEffectiveModelHistory_def)
  with that eff a project_Inr(6) [OF eff(1)] show thesis by simp
qed

text \<open>
  C16: the effective history is exactly the items of the history that no rollback marker hides, in
  their order, with all the markers beside them: applying the markers one after the other, as the
  code does, is the same as asking for each item whether any marker covers its sequence number.
\<close>

theorem effective_history_is_visible:
  assumes "projectEffectiveModelHistory h = Inr eff"
  shows "eh_items eff = filter (\<lambda>i. \<not> is_marker i \<and> (\<forall>m\<in>set h. \<not> hides m (hi_sequence i))) h
    \<and> eh_rollbackMarkers eff = filter is_marker h \<and> eh_throughHistorySequence eff = int (length h)"
  using project_Inr [OF assms] by (simp add: visible_def)

text \<open>
  C17: the artifacts of a rollback, once created, can be appended to the history; the
  effective history is then the one before it without what the boundary covers, an initial part of
  it with the requested number of turns fewer, or none when there were not that many.
\<close>

theorem rollback_removes_turns:
  assumes "createThreadRollbackArtifacts h input = Inr art"
  shows "\<exists>eff eff'. projectEffectiveModelHistory h = Inr eff
    \<and> projectEffectiveModelHistory (h @ [ra_marker art]) = Inr eff'
    \<and> eh_items eff' = filter (\<lambda>i. \<not> isHistorySequenceRolledBack (ra_boundary art) (hi_sequence i)) (eh_items eff)
    \<and> (\<exists>c. eh_items eff' = take c (eh_items eff))
    \<and> int (turns (eh_items eff')) = max 0 (int (turns (eh_items eff)) - ri_requestedTurns input)
    \<and> eh_rollbackMarkers eff' = eh_rollbackMarkers eff @ [ra_marker art]
    \<and> eh_latestRollback eff' = Some (ra_marker art)"
  using assms
proof (rule create_Inr)
  fix eff x eff'
  assume eff: "projectEffectiveModelHistory h = Inr eff"
    and x: "planFromEffectiveItems (eh_items eff) (ri_requestedTurns input) (int (length h)) = Inr x"
    and art: "art = \<lparr>ra_boundary = x, ra_marker = rollback_marker x input, ra_event = rollback_event x input\<rparr>"
    and eff': "projectEffectiveModelHistory (h @ [rollback_marker x input]) = Inr eff'"
  let ?m = "rollback_marker x input"
  note p = project_Inr [OF eff] and p' = project_Inr [OF eff']
  have m: "is_marker ?m" by (simp add: is_marker_def rollback_marker_def)
  have s: "hi_sequence ?m = int (length h) + 1" using plan_fields [OF x] by (simp add: rollback_marker_def)
  have "\<not> hides i (hi_sequence ?m)" if "i \<in> set h" for i
    using marker_through [of i "hi_sequence ?m"] raw_ok_in [OF p(1) that] s by auto
  then have v: "visible (h @ [?m]) = filter (\<lambda>j. \<not> isHistorySequenceRolledBack x (hi_sequence j)) (visible h)"
    using visible_snoc_marker [OF _ m] by (simp add: hides_rollback_marker)
  have r: "bd_requestedTurns x = ri_requestedTurns input" "bd_historyThroughSequence x = int (length h)"
    "bd_removedTurns x = min (ri_requestedTurns input) (int (turns (visible h)))"
    using plan_fields [OF x] p(3) by simp_all
  have "replay_items (visible h) (filter is_marker h) [?m] = Inr (visible (h @ [?m]), filter is_marker (h @ [?m]))"
    using p'(2) p(2) by (simp add: replay_items_append del: replay_items.simps)
  then have ab: "visible (h @ [?m]) = apply_boundary x (visible h)"
    using x p(3) by (simp add: rollback_marker_def r)
  from apply_boundary_plan [OF x, unfolded p(3), OF visible_sorted [OF p(1)]] ab r(3)
  have "(\<exists>c. visible (h @ [?m]) = take c (visible h))
    \<and> int (turns (visible (h @ [?m]))) = max 0 (int (turns (visible h)) - ri_requestedTurns input)" by auto
  with eff eff' p p' v m show ?thesis by (auto simp: art last_or_none_def)
qed

text \<open>The bounds on the identifiers, the time and the numbers a rollback is requested with.\<close>

definition rollback_input_ok :: "rollback_input \<Rightarrow> bool" where
  "rollback_input_ok input \<longleftrightarrow>
     requireBounded (ri_markerItemId input) 512 ''id'' = None \<and> requireBounded (ri_tenantId input) 256 ''id'' = None
     \<and> requireBounded (ri_threadId input) 512 ''id'' = None \<and> requireBounded (ri_rollbackId input) 512 ''id'' = None
     \<and> requireBounded (ri_threadEventId input) 512 ''id'' = None \<and> \<not> is_blank (ri_actorId input)
     \<and> positive_safe_integer (ri_threadEventSequence input) \<and> is_timestamp (ri_occurredAt input)
     \<and> 1 \<le> ri_requestedTurns input \<and> ri_requestedTurns input \<le> max_model_history_rollback_turns"

lemma plan_numbers:
  assumes "planFromEffectiveItems items requested (int n) = Inr x" and "int n < max_safe_integer"
    and "\<forall>i\<in>set items. 1 \<le> hi_sequence i \<and> hi_sequence i \<le> int n"
  shows "bd_requestedTurns x = requested" "bd_historyThroughSequence x = int n" "bd_markerHistorySequence x = int n + 1"
    "0 \<le> bd_removedTurns x" "bd_removedTurns x \<le> requested" "(bd_historyFromSequence x = None) = (bd_removedTurns x = 0)"
    "bd_historyFromSequence x = Some f \<Longrightarrow> 1 \<le> f \<and> f \<le> int n"
proof -
  from assms(1) obtain c k where "int k = min requested (int (turns items))" "c \<le> length items"
    "k = 0 \<longleftrightarrow> c = length items"
    and x: "x = \<lparr>bd_requestedTurns = requested, bd_removedTurns = int k,
       bd_historyFromSequence = (if k = 0 then None else Some (hi_sequence (items ! c))),
       bd_historyThroughSequence = int n, bd_markerHistorySequence = int n + 1\<rparr>" by (rule plan_Inr)
  then show "bd_requestedTurns x = requested" "bd_historyThroughSequence x = int n" "bd_markerHistorySequence x = int n + 1"
    "0 \<le> bd_removedTurns x" "bd_removedTurns x \<le> requested" "(bd_historyFromSequence x = None) = (bd_removedTurns x = 0)"
    "bd_historyFromSequence x = Some f \<Longrightarrow> 1 \<le> f \<and> f \<le> int n"
    using assms(3) by (auto split: if_splits)
qed

lemma rollback_artifacts_valid:
  assumes "planFromEffectiveItems items (ri_requestedTurns input) (int n) = Inr x" and "int n < max_safe_integer"
    and "\<forall>i\<in>set items. 1 \<le> hi_sequence i \<and> hi_sequence i \<le> int n" and "rollback_input_ok input"
  shows "validateModelHistoryItem (rollback_marker x input) = None"
    "validateThreadLifecycleEvent (rollback_event x input) = None"
proof -
  note n = plan_numbers [OF assms(1-3)]
  show "validateModelHistoryItem (rollback_marker x input) = None"
    using n assms(2,4) by (auto simp: validateModelHistoryItem_def rollback_marker_def item_body_checks_def
        rollback_item_checks_def requireOptionalBounded_def rollback_input_ok_def safe_integer_defs
        max_model_history_rollback_turns_def max_safe_integer_def split: option.split)
  show "validateThreadLifecycleEvent (rollback_event x input) = None"
    using n assms(2,4) by (auto simp: validateThreadLifecycleEvent_def rollback_event_def thread_data_checks_def
        rollback_numbers_ok_def is_thread_created_def rollback_input_ok_def safe_integer_defs
        max_model_history_rollback_turns_def max_safe_integer_def split: option.split)
qed

lemma create_succeeds:
  assumes eff: "projectEffectiveModelHistory h = Inr eff" and ok: "rollback_input_ok input"
    and id: "\<not> other_identity h (ri_tenantId input) (ri_threadId input)" and len: "int (length h) < max_safe_integer"
  shows "\<exists>x. createThreadRollbackArtifacts h input
      = Inr \<lparr>ra_boundary = x, ra_marker = rollback_marker x input, ra_event = rollback_event x input\<rparr>
    \<and> validateThreadLifecycleEvent (rollback_event x input) = None"
proof -
  note p = project_Inr [OF eff]
  obtain x where x: "planFromEffectiveItems (visible h) (ri_requestedTurns input) (int (length h)) = Inr x"
    using plan_total ok by (metis rollback_input_ok_def)
  let ?m = "rollback_marker x input"
  have within: "\<forall>i\<in>set (visible h). 1 \<le> hi_sequence i \<and> hi_sequence i \<le> int (length h)"
    using raw_ok_in [OF p(1)] by (auto simp: visible_def)
  note n = plan_numbers [OF x len within] and v = rollback_artifacts_valid [OF x len within ok]
  have plan: "planModelHistoryRollback h (ri_requestedTurns input) = Inr x"
    using eff p x by (simp add: planModelHistoryRollback_Inr)
  have "raw_ok (h @ [?m])"
    using raw_ok_snoc [OF p(1) v(1)] id n(3) by (simp add: rollback_marker_def)
  moreover have "replay_items [] [] (h @ [?m]) = Inr (apply_boundary x (visible h), filter is_marker h @ [?m])"
    using p(2) x n by (simp add: replay_items_append rollback_marker_def)
  ultimately have "\<exists>eff'. replayEffectiveHistory (h @ [?m]) = Inr eff'"
    using project_iff [of "h @ [?m]"] by (simp add: projectEffectiveModelHistory_def)
  moreover have "marker_requested ?m = ri_requestedTurns input" by (simp add: marker_requested_def rollback_marker_def n)
  moreover have "artifacts_match x \<lparr>ra_boundary = x, ra_marker = ?m, ra_event = rollback_event x input\<rparr>"
    by (simp add: artifacts_match_def rollback_marker_def rollback_event_def)
  moreover have "hi_tenantId ?m = ri_tenantId input" "hi_threadId ?m = ri_threadId input"
    by (simp_all add: rollback_marker_def)
  ultimately have "createThreadRollbackArtifacts h input
      = Inr \<lparr>ra_boundary = x, ra_marker = ?m, ra_event = rollback_event x input\<rparr>"
    using plan v id by (auto simp: createThreadRollbackArtifacts_def validateThreadRollbackArtifacts_def guarded_pass)
  with v(2) show ?thesis by blast
qed

text \<open>
  A rollback within the bounds can always be made: its artifacts are created, and the active
  Thread they name, at the sequence and time of the request, accepts the event, which moves
  only its numbers and the time of its last change.
\<close>

theorem rollback_accepted:
  assumes "projectEffectiveModelHistory h = Inr eff" and "rollback_input_ok input"
    and "\<not> other_identity h (ri_tenantId input) (ri_threadId input)" and "int (length h) < max_safe_integer"
    and "validateThreadState s = None" and "ts_status s = ThreadActive" and "ts_threadId s = ri_threadId input"
    and "ri_threadEventSequence input = ts_lastEventSequence s + 1"
    and "\<not> date_less (iso_time (ri_occurredAt input)) (iso_time (ts_updatedAt s))"
  shows "\<exists>art t. createThreadRollbackArtifacts h input = Inr art
    \<and> reduceThreadLifecycleEvent (Some s) (ra_event art) = Inr t
    \<and> ts_status t = ThreadActive \<and> ts_title t = ts_title s \<and> ts_lastMessageSequence t = ts_lastMessageSequence s
    \<and> ts_revision t = ts_revision s + 1 \<and> ts_updatedAt t = ri_occurredAt input"
proof -
  from create_succeeds [OF assms(1-4)] obtain x where
    x: "createThreadRollbackArtifacts h input
      = Inr \<lparr>ra_boundary = x, ra_marker = rollback_marker x input, ra_event = rollback_event x input\<rparr>"
    and v: "validateThreadLifecycleEvent (rollback_event x input) = None" by blast
  obtain w where w: "normalizeThreadWorkspaceId (ts_workspaceId s) = Inr w"
    using assms(5) by (auto simp: validateThreadState_def)
  have "reduceThreadLifecycleEvent (Some s) (rollback_event x input) = Inr (thread_next s (rollback_event x input) w)"
    unfolding reduce_thread_Inr thread_ok_def
    using v assms(5-9) w by (simp add: rollback_event_def apply_thread_event_def requireActive_def)
  with x assms(6) show ?thesis by (auto simp: thread_next_def rollback_event_def)
qed

section \<open>A concrete history\<close>

definition sample_turn :: "int \<Rightarrow> message_source \<Rightarrow> message_author \<Rightarrow> history_item" where
  "sample_turn n source role = \<lparr>hi_schemaVersion = js ''crewon.model-history-item.v0'', hi_itemId = js ''i'',
     hi_tenantId = js ''t'', hi_threadId = js ''th'', hi_sequence = n, hi_runId = None, hi_segmentId = None,
     hi_createdAt = thread_log_time, hi_ownKeys = [],
     hi_body = MessageItem \<lparr>hm_role = role, hm_source = source, hm_content = js ''x'',
       hm_contentDigest = sample_digest, hm_origin = None\<rparr>\<rparr>"

definition sample_history :: "history_item list" where
  "sample_history = [sample_turn 1 ThreadMessage UserAuthor, sample_turn 2 AssistantCompletion AssistantAuthor,
     sample_turn 3 GoalSteering UserAuthor, sample_turn 4 ThreadMessage UserAuthor]"

definition sample_rollback :: rollback_input where
  "sample_rollback = \<lparr>ri_tenantId = js ''t'', ri_threadId = js ''th'', ri_actorId = js ''a'', ri_rollbackId = js ''r'',
     ri_markerItemId = js ''m'', ri_threadEventId = js ''e'', ri_threadEventSequence = 3,
     ri_occurredAt = thread_log_time, ri_requestedTurns = 1\<rparr>"

lemma sample_turn_valid: "source \<in> {ThreadMessage, AssistantCompletion, GoalSteering} \<Longrightarrow>
    (source \<noteq> GoalSteering \<or> role = UserAuthor) \<Longrightarrow> known_author role \<Longrightarrow> positive_safe_integer n \<Longrightarrow>
    validateModelHistoryItem (sample_turn n source role) = None"
  by (auto simp: validateModelHistoryItem_def sample_turn_def item_body_checks_def message_item_checks_def
      message_byte_bound_def mh_require_digest_def requireOptionalBounded_def safe_integer_defs is_timestamp_iff
      string_eval)

lemma sample_turn_fields [simp]: "hi_sequence (sample_turn n source role) = n"
  "hi_tenantId (sample_turn n source role) = js ''t''" "hi_threadId (sample_turn n source role) = js ''th''"
  by (simp_all add: sample_turn_def)

lemma sample_history_effective: "\<exists>eff. projectEffectiveModelHistory sample_history = Inr eff \<and> eh_items eff = sample_history"
proof -
  have "raw_ok sample_history"
    unfolding validateRawHistory_None [symmetric] validateRawHistory_def sample_history_def
    by (simp add: sample_turn_valid known_author_def safe_integer_defs)
  moreover have "replay_items [] [] sample_history = Inr (sample_history, [])"
    by (simp add: sample_history_def sample_turn_def)
  ultimately show ?thesis
    by (auto simp: projectEffectiveModelHistory_def replayEffectiveHistory_def validateRawHistory_None guarded_pass)
qed

lemma sample_rollback_ok: "rollback_input_ok sample_rollback"
  "\<not> other_identity sample_history (ri_tenantId sample_rollback) (ri_threadId sample_rollback)"
  "int (length sample_history) < max_safe_integer"
  by (simp_all add: rollback_input_ok_def sample_rollback_def max_model_history_rollback_turns_def other_identity_def
      sample_history_def sample_turn_def safe_integer_defs is_timestamp_iff string_eval)

lemma sample_rollback_created: "\<exists>art. createThreadRollbackArtifacts sample_history sample_rollback = Inr art"
  using create_succeeds sample_history_effective sample_rollback_ok by blast

theorem effective_history_is_visible_witness:
  "\<exists>eff. projectEffectiveModelHistory sample_history = Inr eff \<and> eh_rollbackMarkers eff = []
    \<and> eh_throughHistorySequence eff = 4"
proof -
  obtain eff where "projectEffectiveModelHistory sample_history = Inr eff" using sample_history_effective by blast
  with effective_history_is_visible [OF this] show ?thesis
    by (auto simp: sample_history_def sample_turn_def is_marker_def)
qed

theorem rollback_removes_turns_witness:
  "\<exists>art eff. createThreadRollbackArtifacts sample_history sample_rollback = Inr art
    \<and> projectEffectiveModelHistory (sample_history @ [ra_marker art]) = Inr eff \<and> int (turns (eh_items eff)) = 1"
proof -
  obtain art where art: "createThreadRollbackArtifacts sample_history sample_rollback = Inr art"
    using sample_rollback_created by blast
  have "turns sample_history = 2"
    by (simp add: turns_def sample_history_def sample_turn_def isModelHistoryInstructionBoundary_def
        isModelHistoryMessageBacked_def)
  with rollback_removes_turns [OF art] sample_history_effective art show ?thesis
    by (auto simp: sample_rollback_def)
qed

theorem rollback_accepted_witness:
  "\<exists>art t. createThreadRollbackArtifacts sample_history sample_rollback = Inr art
    \<and> reduceThreadLifecycleEvent (Some (sample_thread\<lparr>ts_status := ThreadActive, ts_archivedAt := None,
          ts_revision := 2, ts_lastEventSequence := 2\<rparr>)) (ra_event art) = Inr t \<and> ts_revision t = 3"
proof -
  obtain eff where eff: "projectEffectiveModelHistory sample_history = Inr eff" using sample_history_effective by blast
  let ?s = "sample_thread\<lparr>ts_status := ThreadActive, ts_archivedAt := None, ts_revision := 2, ts_lastEventSequence := 2\<rparr>"
  have "validateThreadState ?s = None" by (simp add: sample_thread_def thread_eval)
  moreover have "ts_status ?s = ThreadActive" "ts_threadId ?s = ri_threadId sample_rollback"
    "ri_threadEventSequence sample_rollback = ts_lastEventSequence ?s + 1"
    "\<not> date_less (iso_time (ri_occurredAt sample_rollback)) (iso_time (ts_updatedAt ?s))"
    by (simp_all add: sample_thread_def sample_rollback_def)
  ultimately show ?thesis using rollback_accepted [OF eff sample_rollback_ok, of ?s] by auto
qed

end
