(* ===== verification/Goal_Events.thy ===== *)
theory Goal_Events
  imports Thread_Goals Event_Log
begin

text \<open>
  The log of a Thread's goal, \<open>thread-goal-event.ts\<close>.  Its validator takes an \<open>unknown\<close> value and
  asserts a type, so it is modelled on dynamic values, with \<open>validateThreadGoal\<close> as it acts on
  them.  Typed events are validated as the JSON value they are; its byte length does not depend on the
  order of the keys.
\<close>

section \<open>Data\<close>

datatype goal_event_data = GoalUpdated thread_goal | GoalCleared js_string int

record goal_event =
  ge_schemaVersion :: js_string
  ge_tenantId :: js_string
  ge_threadId :: js_string
  ge_eventId :: js_string
  ge_sequence :: int
  ge_occurredAt :: js_string
  ge_data :: goal_event_data

record goal_event_state =
  gs_tenantId :: js_string
  gs_threadId :: js_string
  gs_lastSequence :: int
  gs_lastEventId :: js_string
  gs_currentGoal :: "thread_goal option"
  gs_latestGoalId :: js_string
  gs_latestGoalRevision :: int
  gs_updatedAt :: js_string

record goal_page_boundary =
  pb_tenantId :: js_string
  pb_threadId :: js_string
  pb_afterSequence :: int

record public_goal =
  pg_threadId :: js_string
  pg_goalId :: js_string
  pg_revision :: int
  pg_objective :: js_string
  pg_status :: goal_status
  pg_tokenBudget :: "int option"
  pg_tokensUsed :: int
  pg_timeUsedSeconds :: int
  pg_createdAt :: js_string
  pg_updatedAt :: js_string

datatype public_goal_event_data = PublicGoalUpdated public_goal | PublicGoalCleared js_string int

record public_goal_event =
  pe_schemaVersion :: js_string
  pe_threadId :: js_string
  pe_eventId :: js_string
  pe_sequence :: int
  pe_occurredAt :: js_string
  pe_data :: public_goal_event_data

text \<open>Typed values as the JSON values they are.\<close>

definition goal_status_text :: "goal_status \<Rightarrow> js_string" where
  "goal_status_text s = (case s of GoalActive \<Rightarrow> js ''active'' | GoalPaused \<Rightarrow> js ''paused''
     | GoalBlocked \<Rightarrow> js ''blocked'' | GoalUsageLimited \<Rightarrow> js ''usageLimited''
     | GoalBudgetLimited \<Rightarrow> js ''budgetLimited'' | GoalComplete \<Rightarrow> js ''complete'' | OtherGoalStatus t \<Rightarrow> t)"

definition thread_goal_statuses :: "string list" where
  "thread_goal_statuses = [''active'', ''paused'', ''blocked'', ''usageLimited'', ''budgetLimited'', ''complete'']"

abbreviation whole :: "int \<Rightarrow> json" where
  "whole i \<equiv> JNum (Whole i)"

definition goal_fields :: "thread_goal \<Rightarrow> (string \<times> json) list" where
  "goal_fields g = [(''schemaVersion'', JStr (tg_schemaVersion g)), (''tenantId'', JStr (tg_tenantId g)),
     (''threadId'', JStr (tg_threadId g)), (''goalId'', JStr (tg_goalId g)), (''revision'', whole (tg_revision g)),
     (''objective'', JStr (tg_objective g)), (''status'', JStr (goal_status_text (tg_status g))),
     (''tokenBudget'', (case tg_tokenBudget g of None \<Rightarrow> JNull | Some b \<Rightarrow> whole b)),
     (''tokensUsed'', whole (tg_tokensUsed g)), (''timeUsedSeconds'', whole (tg_timeUsedSeconds g)),
     (''createdAt'', JStr (tg_createdAt g)), (''updatedAt'', JStr (tg_updatedAt g))]"

definition goal_event_type :: "goal_event \<Rightarrow> string" where
  "goal_event_type e = (case ge_data e of GoalUpdated _ \<Rightarrow> ''goal.updated'' | GoalCleared _ _ \<Rightarrow> ''goal.cleared'')"

definition goal_data_fields :: "goal_event_data \<Rightarrow> (string \<times> json) list" where
  "goal_data_fields d = (case d of GoalUpdated g \<Rightarrow> [(''goal'', js_object (goal_fields g))]
     | GoalCleared i r \<Rightarrow> [(''previousGoalId'', JStr i), (''previousRevision'', whole r)])"

definition goal_event_fields :: "goal_event \<Rightarrow> (string \<times> json) list" where
  "goal_event_fields e = [(''schemaVersion'', JStr (ge_schemaVersion e)), (''tenantId'', JStr (ge_tenantId e)),
     (''threadId'', JStr (ge_threadId e)), (''eventId'', JStr (ge_eventId e)), (''sequence'', whole (ge_sequence e)),
     (''occurredAt'', JStr (ge_occurredAt e)), (''type'', JStr (js (goal_event_type e))),
     (''data'', js_object (goal_data_fields (ge_data e)))]"

definition goal_event_value :: "goal_event \<Rightarrow> json" where
  "goal_event_value e = js_object (goal_event_fields e)"

section \<open>Checks on dynamic values\<close>

definition max_thread_goal_event_bytes :: nat where
  "max_thread_goal_event_bytes = 32 * 1024"

definition ge_throw_if :: "bool \<Rightarrow> string \<Rightarrow> check" where
  "ge_throw_if b code = throw_if b (ThreadGoalEventError code)"

lemma ge_throw_if_None [simp]: "ge_throw_if b code = None \<longleftrightarrow> \<not> b"
  by (simp add: ge_throw_if_def)

definition hasExactKeys :: "json option \<Rightarrow> string list \<Rightarrow> bool" where
  "hasExactKeys v expected = (case v of None \<Rightarrow> False | Some w \<Rightarrow> is_plain_object w
     \<and> length (own_keys w) = length expected \<and> list_all (\<lambda>k. js k \<in> set (own_keys w)) expected)"

definition bounded_text :: "json option \<Rightarrow> nat \<Rightarrow> bool" where
  "bounded_text v n = (case v of Some (JStr s) \<Rightarrow> \<not> is_blank s \<and> utf8_length s \<le> n | _ \<Rightarrow> False)"

definition integer_from :: "int \<Rightarrow> json option \<Rightarrow> bool" where
  "integer_from n v = (case safe_integer_value v of None \<Rightarrow> False | Some i \<Rightarrow> n \<le> i)"

definition timestamp_value :: "json option \<Rightarrow> bool" where
  "timestamp_value v = (case v of Some (JStr s) \<Rightarrow> is_timestamp s | _ \<Rightarrow> False)"

definition ge_require_bounded :: "json option \<Rightarrow> nat \<Rightarrow> string \<Rightarrow> check" where
  "ge_require_bounded v maxBytes code = ge_throw_if (\<not> bounded_text v maxBytes) code"

definition ge_require_positive :: "json option \<Rightarrow> string \<Rightarrow> check" where
  "ge_require_positive v code = ge_throw_if (\<not> integer_from 1 v) code"

definition ge_require_non_negative :: "json option \<Rightarrow> string \<Rightarrow> check" where
  "ge_require_non_negative v code = ge_throw_if (\<not> integer_from 0 v) code"

definition ge_require_timestamp :: "json option \<Rightarrow> string \<Rightarrow> check" where
  "ge_require_timestamp v code = ge_throw_if (\<not> timestamp_value v) code"

definition requireEventSize :: "json \<Rightarrow> check" where
  "requireEventSize v = ge_throw_if (max_thread_goal_event_bytes < utf8_length (stringify v)) ''goal_event_too_large''"

text \<open>
  \<open>String(v)\<close>, which \<open>RegExp.test\<close> and \<open>Date.parse\<close> apply to an argument that is no string: an array is its elements joined by
  commas, an object of JSON has no method to call if it owns a property \<open>toString\<close>, which throws a
  \<open>TypeError\<close> (\<open>None\<close>).
\<close>

fun all_texts :: "js_string option list \<Rightarrow> js_string list option" where
  "all_texts [] = Some []"
| "all_texts (x # xs) = (case x of None \<Rightarrow> None | Some s \<Rightarrow> map_option (\<lambda>ss. s # ss) (all_texts xs))"

fun to_text :: "json \<Rightarrow> js_string option" where
  "to_text JNull = Some (js ''null'')"
| "to_text (JBool b) = Some (if b then js ''true'' else js ''false'')"
| "to_text (JNum n) = Some (case n of NotANumber \<Rightarrow> js ''NaN'' | Infinite neg \<Rightarrow> js (if neg then ''-Infinity'' else ''Infinity'')
     | _ \<Rightarrow> number_text n)"
| "to_text (JStr s) = Some s"
| "to_text (JArr vs) = map_option join_commas (all_texts (map (\<lambda>v. if v = JNull then Some [] else to_text v) vs))"
| "to_text (JObj ps) = (if js ''toString'' \<in> fst ` set ps then None else Some (js ''[object Object]''))"

text \<open>\<open>requireTimestamp\<close> of \<open>thread-goal.ts\<close> tests the value without asking whether it is a string.\<close>

definition goal_timestamp_value :: "json option \<Rightarrow> string \<Rightarrow> check" where
  "goal_timestamp_value v code = (case v of None \<Rightarrow> Some (ThreadGoalError code) | Some w \<Rightarrow>
     (case to_text w of None \<Rightarrow> Some (PlainError ''TypeError'')
      | Some s \<Rightarrow> throw_if (\<not> is_timestamp s) (ThreadGoalError code)))"

definition value_time :: "json option \<Rightarrow> int option" where
  "value_time v = (case v of None \<Rightarrow> None | Some w \<Rightarrow> (case to_text w of None \<Rightarrow> None | Some s \<Rightarrow> iso_time s))"

definition validateGoalObjectiveValue :: "json option \<Rightarrow> check" where
  "validateGoalObjectiveValue v = (case v of Some (JStr s) \<Rightarrow> validateThreadGoalObjective s
     | _ \<Rightarrow> Some (ThreadGoalError ''goal_objective_invalid''))"

definition goal_throw_if :: "bool \<Rightarrow> string \<Rightarrow> check" where
  "goal_throw_if b code = throw_if b (ThreadGoalError code)"

lemma goal_throw_if_None [simp]: "goal_throw_if b code = None \<longleftrightarrow> \<not> b"
  by (simp add: goal_throw_if_def)

definition validateGoalValue :: "json \<Rightarrow> check" where
  "validateGoalValue v = first_throw
     [goal_throw_if (get_prop v ''schemaVersion'' \<noteq> Some (JStr (js ''crewon.thread-goal.v0'')))
        ''goal_schema_version_unsupported'',
      goal_throw_if (\<not> bounded_text (get_prop v ''tenantId'') 256) ''goal_tenant_id_invalid'',
      goal_throw_if (\<not> bounded_text (get_prop v ''threadId'') 512) ''goal_thread_id_invalid'',
      goal_throw_if (\<not> bounded_text (get_prop v ''goalId'') 512) ''goal_id_invalid'',
      goal_throw_if (\<not> integer_from 1 (get_prop v ''revision'')) ''goal_revision_invalid'',
      validateGoalObjectiveValue (get_prop v ''objective''),
      goal_throw_if (get_prop v ''status'' \<notin> set (map (\<lambda>s. Some (JStr (js s))) thread_goal_statuses)) ''goal_status_invalid'',
      goal_throw_if (get_prop v ''tokenBudget'' \<noteq> Some JNull \<and> \<not> integer_from 1 (get_prop v ''tokenBudget''))
        ''goal_token_budget_invalid'',
      goal_throw_if (\<not> integer_from 0 (get_prop v ''tokensUsed'')) ''goal_tokens_used_invalid'',
      goal_throw_if (\<not> integer_from 0 (get_prop v ''timeUsedSeconds'')) ''goal_time_used_seconds_invalid'',
      goal_timestamp_value (get_prop v ''createdAt'') ''goal_created_at_invalid'',
      goal_timestamp_value (get_prop v ''updatedAt'') ''goal_updated_at_invalid'',
      goal_throw_if (date_less (value_time (get_prop v ''updatedAt'')) (value_time (get_prop v ''createdAt'')))
        ''goal_timestamp_order_invalid'']"

definition goal_keys :: "string list" where
  "goal_keys = [''schemaVersion'', ''tenantId'', ''threadId'', ''goalId'', ''revision'', ''objective'', ''status'',
     ''tokenBudget'', ''tokensUsed'', ''timeUsedSeconds'', ''createdAt'', ''updatedAt'']"

definition snapshot_error :: "js_error \<Rightarrow> js_error" where
  "snapshot_error e = ThreadGoalEventError (case e of ThreadGoalError code \<Rightarrow> ''goal_event_snapshot:'' @ code
     | _ \<Rightarrow> ''goal_event_snapshot_invalid'')"

definition validateGoalSnapshot :: "json option \<Rightarrow> check" where
  "validateGoalSnapshot v = (if \<not> hasExactKeys v goal_keys then Some (ThreadGoalEventError ''goal_event_snapshot_invalid'')
     else when_some v (\<lambda>w. rethrow snapshot_error (validateGoalValue w)))"

definition goal_event_keys :: "string list" where
  "goal_event_keys = [''schemaVersion'', ''tenantId'', ''threadId'', ''eventId'', ''sequence'', ''occurredAt'',
     ''type'', ''data'']"

text \<open>\<open>value.data.key\<close>\<close>

definition data_prop :: "json \<Rightarrow> string \<Rightarrow> json option" where
  "data_prop v k = (case get_prop v ''data'' of None \<Rightarrow> None | Some d \<Rightarrow> get_prop d k)"

definition goal_prop :: "json \<Rightarrow> string \<Rightarrow> json option" where
  "goal_prop v k = (case data_prop v ''goal'' of None \<Rightarrow> None | Some g \<Rightarrow> get_prop g k)"

definition goal_updated_checks :: "json \<Rightarrow> check list" where
  "goal_updated_checks v =
     [ge_throw_if (\<not> hasExactKeys (get_prop v ''data'') [''goal'']) ''goal_event_updated_data_invalid'',
      validateGoalSnapshot (data_prop v ''goal''),
      ge_throw_if (goal_prop v ''tenantId'' \<noteq> get_prop v ''tenantId''
        \<or> goal_prop v ''threadId'' \<noteq> get_prop v ''threadId''
        \<or> goal_prop v ''updatedAt'' \<noteq> get_prop v ''occurredAt'') ''goal_event_snapshot_mismatch'']"

definition goal_cleared_checks :: "json \<Rightarrow> check list" where
  "goal_cleared_checks v =
     [ge_throw_if (\<not> hasExactKeys (get_prop v ''data'') [''previousGoalId'', ''previousRevision''])
        ''goal_event_cleared_data_invalid'',
      ge_require_bounded (data_prop v ''previousGoalId'') 512 ''goal_event_previous_goal_id_invalid'',
      ge_require_positive (data_prop v ''previousRevision'') ''goal_event_previous_revision_invalid'']"

definition validateThreadGoalEvent :: "json \<Rightarrow> check" where
  "validateThreadGoalEvent v = first_throw
     [requireEventSize v,
      ge_throw_if (\<not> hasExactKeys (Some v) goal_event_keys
        \<or> get_prop v ''schemaVersion'' \<noteq> Some (JStr (js ''crewon.thread-goal-event.v0''))) ''goal_event_envelope_invalid'',
      ge_require_bounded (get_prop v ''tenantId'') 256 ''goal_event_tenant_id_invalid'',
      ge_require_bounded (get_prop v ''threadId'') 512 ''goal_event_thread_id_invalid'',
      ge_require_bounded (get_prop v ''eventId'') 512 ''goal_event_id_invalid'',
      ge_require_positive (get_prop v ''sequence'') ''goal_event_sequence_invalid'',
      ge_require_timestamp (get_prop v ''occurredAt'') ''goal_event_occurred_at_invalid'',
      (if get_prop v ''type'' = Some (JStr (js ''goal.updated'')) then first_throw (goal_updated_checks v)
       else if get_prop v ''type'' = Some (JStr (js ''goal.cleared'')) then first_throw (goal_cleared_checks v)
       else Some (ThreadGoalEventError ''goal_event_type_invalid''))]"

section \<open>The reducer\<close>

definition stateFromFirstEvent :: "goal_event \<Rightarrow> goal_event_state" where
  "stateFromFirstEvent e = (case ge_data e of
     GoalUpdated g \<Rightarrow> \<lparr>gs_tenantId = ge_tenantId e, gs_threadId = ge_threadId e, gs_lastSequence = ge_sequence e,
       gs_lastEventId = ge_eventId e, gs_currentGoal = Some g, gs_latestGoalId = tg_goalId g,
       gs_latestGoalRevision = tg_revision g, gs_updatedAt = ge_occurredAt e\<rparr>
   | GoalCleared i r \<Rightarrow> \<lparr>gs_tenantId = ge_tenantId e, gs_threadId = ge_threadId e, gs_lastSequence = ge_sequence e,
       gs_lastEventId = ge_eventId e, gs_currentGoal = None, gs_latestGoalId = i,
       gs_latestGoalRevision = r, gs_updatedAt = ge_occurredAt e\<rparr>)"

definition validateSnapshotProgress :: "thread_goal option \<Rightarrow> thread_goal \<Rightarrow> check" where
  "validateSnapshotProgress previous next = when_some previous (\<lambda>p.
     ge_throw_if (tg_goalId next \<noteq> tg_goalId p \<or> tg_createdAt next \<noteq> tg_createdAt p
       \<or> tg_revision next \<noteq> tg_revision p + 1 \<or> tg_tokensUsed next < tg_tokensUsed p
       \<or> tg_timeUsedSeconds next < tg_timeUsedSeconds p) ''goal_event_snapshot_progress_invalid'')"

definition apply_goal_event :: "goal_event_state \<Rightarrow> goal_event \<Rightarrow> goal_event_state res" where
  "apply_goal_event s e = (case ge_data e of
     GoalUpdated g \<Rightarrow> guarded [validateSnapshotProgress (gs_currentGoal s) g]
       (Inr (s\<lparr>gs_lastSequence := ge_sequence e, gs_lastEventId := ge_eventId e, gs_currentGoal := Some g,
          gs_latestGoalId := tg_goalId g, gs_latestGoalRevision := tg_revision g, gs_updatedAt := ge_occurredAt e\<rparr>))
   | GoalCleared i r \<Rightarrow> (case gs_currentGoal s of
       None \<Rightarrow> Inl (ThreadGoalEventError ''goal_event_already_cleared'')
     | Some c \<Rightarrow> guarded [ge_throw_if (i \<noteq> tg_goalId c \<or> r \<noteq> tg_revision c) ''goal_event_clear_identity_mismatch'']
         (Inr (s\<lparr>gs_lastSequence := ge_sequence e, gs_lastEventId := ge_eventId e, gs_currentGoal := None,
            gs_latestGoalId := i, gs_latestGoalRevision := r, gs_updatedAt := ge_occurredAt e\<rparr>))))"

definition reduceThreadGoalEvent :: "goal_event_state option \<Rightarrow> goal_event \<Rightarrow> goal_event_state res" where
  "reduceThreadGoalEvent state e = guarded [validateThreadGoalEvent (goal_event_value e)]
     (case state of
        None \<Rightarrow> guarded [ge_throw_if (ge_sequence e \<noteq> 1) ''goal_event_sequence_gap''] (Inr (stateFromFirstEvent e))
      | Some s \<Rightarrow> guarded
         [ge_throw_if (ge_tenantId e \<noteq> gs_tenantId s) ''goal_event_tenant_mismatch'',
          ge_throw_if (ge_threadId e \<noteq> gs_threadId s) ''goal_event_thread_mismatch'',
          ge_throw_if (ge_sequence e \<noteq> gs_lastSequence s + 1) ''goal_event_sequence_gap'',
          ge_throw_if (date_less (iso_time (ge_occurredAt e)) (iso_time (gs_updatedAt s))) ''goal_event_time_regressed'']
         (apply_goal_event s e))"

definition replayThreadGoalEvents :: "goal_event list \<Rightarrow> goal_event_state res" where
  "replayThreadGoalEvents es = then_do (replay_events reduceThreadGoalEvent None es) (\<lambda>state.
     case state of None \<Rightarrow> Inl (ThreadGoalEventError ''goal_events_empty'') | Some s \<Rightarrow> Inr s)"

section \<open>Pages and the public projection\<close>

text \<open>The loop over a page: the next sequence, the identifiers seen, the time of the previous event.\<close>

fun page_checks :: "goal_page_boundary \<Rightarrow> int \<Rightarrow> js_string list \<Rightarrow> js_string option \<Rightarrow> goal_event list \<Rightarrow> check" where
  "page_checks b index eventIds previous [] = None"
| "page_checks b index eventIds previous (e # es) = first_throw
     [validateThreadGoalEvent (goal_event_value e),
      ge_throw_if (\<not> is_safe_integer (pb_afterSequence b + index + 1)) ''goal_event_sequence_overflow'',
      ge_throw_if (ge_sequence e \<noteq> pb_afterSequence b + index + 1) ''goal_event_page_sequence_gap'',
      ge_throw_if (ge_tenantId e \<noteq> pb_tenantId b) ''goal_event_tenant_mismatch'',
      ge_throw_if (ge_threadId e \<noteq> pb_threadId b) ''goal_event_thread_mismatch'',
      ge_throw_if (ge_eventId e \<in> set eventIds) ''goal_event_page_duplicate_id'',
      when_some previous (\<lambda>p. ge_throw_if (date_less (iso_time (ge_occurredAt e)) (iso_time p)) ''goal_event_time_regressed''),
      page_checks b (index + 1) (ge_eventId e # eventIds) (Some (ge_occurredAt e)) es]"

definition validateThreadGoalEventPageBoundary :: "goal_event list \<Rightarrow> goal_page_boundary \<Rightarrow> check" where
  "validateThreadGoalEventPageBoundary events b = first_throw
     [ge_require_bounded (Some (JStr (pb_tenantId b))) 256 ''goal_event_tenant_id_invalid'',
      ge_require_bounded (Some (JStr (pb_threadId b))) 512 ''goal_event_thread_id_invalid'',
      ge_require_non_negative (Some (whole (pb_afterSequence b))) ''goal_event_page_boundary_invalid'',
      page_checks b 0 [] None events]"

definition public_goal_of :: "thread_goal \<Rightarrow> public_goal" where
  "public_goal_of g = \<lparr>pg_threadId = tg_threadId g, pg_goalId = tg_goalId g, pg_revision = tg_revision g,
     pg_objective = tg_objective g, pg_status = tg_status g, pg_tokenBudget = tg_tokenBudget g,
     pg_tokensUsed = tg_tokensUsed g, pg_timeUsedSeconds = tg_timeUsedSeconds g, pg_createdAt = tg_createdAt g,
     pg_updatedAt = tg_updatedAt g\<rparr>"

definition projectPublicThreadGoalEvent :: "goal_event \<Rightarrow> public_goal_event res" where
  "projectPublicThreadGoalEvent e = guarded [validateThreadGoalEvent (goal_event_value e)]
     (Inr \<lparr>pe_schemaVersion = ge_schemaVersion e, pe_threadId = ge_threadId e, pe_eventId = ge_eventId e,
        pe_sequence = ge_sequence e, pe_occurredAt = ge_occurredAt e,
        pe_data = (case ge_data e of GoalCleared i r \<Rightarrow> PublicGoalCleared i r
          | GoalUpdated g \<Rightarrow> PublicGoalUpdated (public_goal_of g))\<rparr>)"


section \<open>What the validator accepts\<close>

lemma hasExactKeys_js_object: "map fst ps = ks \<Longrightarrow> hasExactKeys (Some (js_object ps)) ks"
  by (auto simp: hasExactKeys_def own_keys_js_object list_all_iff)

lemma bounded_text_JStr [simp]: "bounded_text (Some (JStr s)) n \<longleftrightarrow> \<not> is_blank s \<and> utf8_length s \<le> n"
  by (simp add: bounded_text_def)

lemma integer_from_whole [simp]: "integer_from n (Some (whole i)) \<longleftrightarrow> is_safe_integer i \<and> n \<le> i"
  by (simp add: integer_from_def safe_integer_value_def)

lemma timestamp_value_JStr [simp]: "timestamp_value (Some (JStr s)) = is_timestamp s"
  by (simp add: timestamp_value_def)

lemma bounded_textE:
  assumes "bounded_text v n" obtains s where "v = Some (JStr s)" "\<not> is_blank s" "utf8_length s \<le> n"
  using assms that by (auto simp: bounded_text_def split: option.splits json.splits)

lemma integer_fromE:
  assumes "integer_from n v" obtains i where "v = Some (whole i)" "is_safe_integer i" "n \<le> i"
  using assms that by (auto simp: integer_from_def safe_integer_value_def split: option.splits json.splits js_number.splits if_splits)

lemma timestamp_valueE:
  assumes "timestamp_value v" obtains s where "v = Some (JStr s)" "is_timestamp s"
  using assms that by (auto simp: timestamp_value_def split: option.splits json.splits)

lemma objective_valueE:
  assumes "validateGoalObjectiveValue v = None" obtains s where "v = Some (JStr s)" "validateThreadGoalObjective s = None"
  using assms that by (auto simp: validateGoalObjectiveValue_def split: option.splits json.splits)

lemma goal_timestamp_value_JStr [simp]: "goal_timestamp_value (Some (JStr s)) code = None \<longleftrightarrow> is_timestamp s"
  by (simp add: goal_timestamp_value_def)

lemma value_time_JStr [simp]: "value_time (Some (JStr s)) = iso_time s"
  by (simp add: value_time_def)

lemma status_value: "Some (JStr (goal_status_text s)) \<in> set (map (\<lambda>s. Some (JStr (js s))) thread_goal_statuses)
    \<longleftrightarrow> goal_status_text s \<in> set (map js thread_goal_statuses)"
  by auto

definition goal_status_ok :: "goal_status \<Rightarrow> bool" where
  "goal_status_ok s \<longleftrightarrow> goal_status_text s \<in> set (map js thread_goal_statuses)"

lemma known_status_ok [simp]: "goal_status_ok GoalActive" "goal_status_ok GoalPaused" "goal_status_ok GoalBlocked"
  "goal_status_ok GoalUsageLimited" "goal_status_ok GoalBudgetLimited" "goal_status_ok GoalComplete"
  by (simp_all add: goal_status_ok_def goal_status_text_def thread_goal_statuses_def)

text \<open>What the validator asks of a typed goal.\<close>

definition goal_ok :: "thread_goal \<Rightarrow> bool" where
  "goal_ok g \<longleftrightarrow> tg_schemaVersion g = js ''crewon.thread-goal.v0''
     \<and> bounded_text (Some (JStr (tg_tenantId g))) 256 \<and> bounded_text (Some (JStr (tg_threadId g))) 512
     \<and> bounded_text (Some (JStr (tg_goalId g))) 512 \<and> positive_safe_integer (tg_revision g)
     \<and> validateThreadGoalObjective (tg_objective g) = None \<and> goal_status_ok (tg_status g)
     \<and> (\<forall>b. tg_tokenBudget g = Some b \<longrightarrow> positive_safe_integer b)
     \<and> non_negative_safe_integer (tg_tokensUsed g) \<and> non_negative_safe_integer (tg_timeUsedSeconds g)
     \<and> is_timestamp (tg_createdAt g) \<and> is_timestamp (tg_updatedAt g)
     \<and> \<not> date_less (iso_time (tg_updatedAt g)) (iso_time (tg_createdAt g))"

lemma snapshot_None: "validateGoalSnapshot (Some (js_object (goal_fields g))) = None \<longleftrightarrow> goal_ok g"
proof -
  have k: "hasExactKeys (Some (js_object (goal_fields g))) goal_keys"
    by (rule hasExactKeys_js_object) (simp add: goal_fields_def goal_keys_def)
  have p: "get_prop (js_object (goal_fields g)) ''schemaVersion'' = Some (JStr (tg_schemaVersion g))"
    "get_prop (js_object (goal_fields g)) ''tenantId'' = Some (JStr (tg_tenantId g))"
    "get_prop (js_object (goal_fields g)) ''threadId'' = Some (JStr (tg_threadId g))"
    "get_prop (js_object (goal_fields g)) ''goalId'' = Some (JStr (tg_goalId g))"
    "get_prop (js_object (goal_fields g)) ''revision'' = Some (whole (tg_revision g))"
    "get_prop (js_object (goal_fields g)) ''objective'' = Some (JStr (tg_objective g))"
    "get_prop (js_object (goal_fields g)) ''status'' = Some (JStr (goal_status_text (tg_status g)))"
    "get_prop (js_object (goal_fields g)) ''tokenBudget'' = Some (case tg_tokenBudget g of None \<Rightarrow> JNull | Some b \<Rightarrow> whole b)"
    "get_prop (js_object (goal_fields g)) ''tokensUsed'' = Some (whole (tg_tokensUsed g))"
    "get_prop (js_object (goal_fields g)) ''timeUsedSeconds'' = Some (whole (tg_timeUsedSeconds g))"
    "get_prop (js_object (goal_fields g)) ''createdAt'' = Some (JStr (tg_createdAt g))"
    "get_prop (js_object (goal_fields g)) ''updatedAt'' = Some (JStr (tg_updatedAt g))"
    by (simp_all add: get_prop_js_object goal_fields_def)
  show ?thesis
    by (simp only: validateGoalSnapshot_def k p validateGoalValue_def simp_thms if_False when_some_simps rethrow_None
        first_throw_None first_throw.simps(1) goal_throw_if_None status_value not_not)
      (auto simp: goal_ok_def goal_status_ok_def validateGoalObjectiveValue_def safe_integer_defs split: option.split)
qed

definition goal_event_ok :: "goal_event \<Rightarrow> bool" where
  "goal_event_ok e \<longleftrightarrow> utf8_length (stringify (goal_event_value e)) \<le> max_thread_goal_event_bytes
     \<and> ge_schemaVersion e = js ''crewon.thread-goal-event.v0''
     \<and> bounded_text (Some (JStr (ge_tenantId e))) 256 \<and> bounded_text (Some (JStr (ge_threadId e))) 512
     \<and> bounded_text (Some (JStr (ge_eventId e))) 512 \<and> positive_safe_integer (ge_sequence e) \<and> is_timestamp (ge_occurredAt e)
     \<and> (case ge_data e of
          GoalUpdated g \<Rightarrow> goal_ok g \<and> tg_tenantId g = ge_tenantId e \<and> tg_threadId g = ge_threadId e \<and> tg_updatedAt g = ge_occurredAt e
        | GoalCleared i r \<Rightarrow> bounded_text (Some (JStr i)) 512 \<and> positive_safe_integer r)"

lemma goal_event_props:
  "get_prop (goal_event_value e) ''schemaVersion'' = Some (JStr (ge_schemaVersion e))"
  "get_prop (goal_event_value e) ''tenantId'' = Some (JStr (ge_tenantId e))"
  "get_prop (goal_event_value e) ''threadId'' = Some (JStr (ge_threadId e))"
  "get_prop (goal_event_value e) ''eventId'' = Some (JStr (ge_eventId e))"
  "get_prop (goal_event_value e) ''sequence'' = Some (whole (ge_sequence e))"
  "get_prop (goal_event_value e) ''occurredAt'' = Some (JStr (ge_occurredAt e))"
  "get_prop (goal_event_value e) ''type'' = Some (JStr (js (goal_event_type e)))"
  "get_prop (goal_event_value e) ''data'' = Some (js_object (goal_data_fields (ge_data e)))"
  by (simp_all add: goal_event_value_def get_prop_js_object goal_event_fields_def)

lemma valid_goal_event: "validateThreadGoalEvent (goal_event_value e) = None \<longleftrightarrow> goal_event_ok e"
proof -
  have k: "hasExactKeys (Some (goal_event_value e)) goal_event_keys"
    unfolding goal_event_value_def by (rule hasExactKeys_js_object) (simp add: goal_event_fields_def goal_event_keys_def)
  have d: "hasExactKeys (Some (js_object (goal_data_fields (GoalUpdated g)))) [''goal'']"
    "hasExactKeys (Some (js_object (goal_data_fields (GoalCleared i r)))) [''previousGoalId'', ''previousRevision'']" for g i r
    by (rule hasExactKeys_js_object, simp add: goal_data_fields_def)+
  have u: "data_prop (goal_event_value e) ''goal'' = Some (js_object (goal_fields g))"
    "goal_prop (goal_event_value e) k = map_of (goal_fields g) k" if "ge_data e = GoalUpdated g" for g k
    using that by (simp_all add: data_prop_def goal_prop_def goal_event_props get_prop_js_object goal_data_fields_def)
  have c: "data_prop (goal_event_value e) ''previousGoalId'' = Some (JStr i)"
    "data_prop (goal_event_value e) ''previousRevision'' = Some (whole r)" if "ge_data e = GoalCleared i r" for i r
    using that by (simp_all add: data_prop_def goal_event_props get_prop_js_object goal_data_fields_def)
  show ?thesis
  proof (cases "ge_data e")
    case (GoalUpdated g)
    have m: "map_of (goal_fields g) ''tenantId'' = Some (JStr (tg_tenantId g))"
      "map_of (goal_fields g) ''threadId'' = Some (JStr (tg_threadId g))"
      "map_of (goal_fields g) ''updatedAt'' = Some (JStr (tg_updatedAt g))" by (simp_all add: goal_fields_def)
    show ?thesis
      using GoalUpdated by (simp add: validateThreadGoalEvent_def requireEventSize_def k goal_event_props goal_event_type_def
          goal_updated_checks_def d u m snapshot_None ge_require_bounded_def ge_require_positive_def ge_require_timestamp_def
          goal_event_ok_def not_less positive_safe_integer_def) blast
  next
    case (GoalCleared i r)
    then show ?thesis
      by (simp add: validateThreadGoalEvent_def requireEventSize_def k goal_event_props goal_event_type_def
          goal_cleared_checks_def d c ge_require_bounded_def ge_require_positive_def ge_require_timestamp_def
          goal_event_ok_def not_less positive_safe_integer_def)
  qed
qed

section \<open>The log\<close>

lemma reduce_goal_first: "reduceThreadGoalEvent None e = Inr s \<longleftrightarrow>
    goal_event_ok e \<and> ge_sequence e = 1 \<and> s = stateFromFirstEvent e"
  by (auto simp: reduceThreadGoalEvent_def valid_goal_event)

lemma reduce_goal_next: "reduceThreadGoalEvent (Some s) e = Inr t \<longleftrightarrow>
    goal_event_ok e \<and> ge_tenantId e = gs_tenantId s \<and> ge_threadId e = gs_threadId s
    \<and> ge_sequence e = gs_lastSequence s + 1 \<and> \<not> date_less (iso_time (ge_occurredAt e)) (iso_time (gs_updatedAt s))
    \<and> apply_goal_event s e = Inr t"
  by (auto simp: reduceThreadGoalEvent_def valid_goal_event)

lemma apply_goal_Inr:
  assumes "apply_goal_event s e = Inr t"
  shows "gs_tenantId t = gs_tenantId s" "gs_threadId t = gs_threadId s" "gs_lastSequence t = ge_sequence e"
    "gs_lastEventId t = ge_eventId e" "gs_updatedAt t = ge_occurredAt e"
  using assms by (auto simp: apply_goal_event_def split: goal_event_data.splits option.splits)

interpretation goal_log: event_reducer reduceThreadGoalEvent ge_sequence gs_lastSequence gs_lastSequence
  "\<lambda>s. (gs_tenantId s, gs_threadId s)" "\<lambda>s. False"
proof
  fix e s assume "reduceThreadGoalEvent None e = Inr s"
  then show "ge_sequence e = 1 \<and> gs_lastSequence s = 1 \<and> gs_lastSequence s = 1"
    by (auto simp: reduce_goal_first stateFromFirstEvent_def split: goal_event_data.splits)
next
  fix s e t assume "reduceThreadGoalEvent (Some s) e = Inr t"
  then show "ge_sequence e = gs_lastSequence s + 1 \<and> gs_lastSequence t = ge_sequence e
      \<and> gs_lastSequence t = gs_lastSequence s + 1 \<and> (gs_tenantId t, gs_threadId t) = (gs_tenantId s, gs_threadId s)"
    by (auto simp: reduce_goal_next apply_goal_Inr)
qed simp

text \<open>The current goal is the latest one, belongs to the Thread, and is valid.\<close>

definition goal_state_ok :: "goal_event_state \<Rightarrow> bool" where
  "goal_state_ok s \<longleftrightarrow> is_timestamp (gs_updatedAt s) \<and> positive_safe_integer (gs_lastSequence s)
     \<and> (case gs_currentGoal s of None \<Rightarrow> True | Some g \<Rightarrow> goal_ok g \<and> tg_tenantId g = gs_tenantId s
          \<and> tg_threadId g = gs_threadId s \<and> tg_goalId g = gs_latestGoalId s
          \<and> tg_revision g = gs_latestGoalRevision s \<and> tg_updatedAt g = gs_updatedAt s)"

lemma goal_state_first: "reduceThreadGoalEvent None e = Inr s \<Longrightarrow> goal_state_ok s"
  by (auto simp: reduce_goal_first goal_event_ok_def goal_state_ok_def stateFromFirstEvent_def split: goal_event_data.splits)

lemma goal_state_next: "reduceThreadGoalEvent (Some s) e = Inr t \<Longrightarrow> goal_state_ok t"
  by (auto simp: reduce_goal_next goal_event_ok_def goal_state_ok_def apply_goal_event_def
      split: goal_event_data.splits option.splits)

lemma replay_goal_Inr: "replayThreadGoalEvents es = Inr t \<longleftrightarrow>
    replay_events reduceThreadGoalEvent None es = Inr (Some t)"
  by (auto simp: replayThreadGoalEvents_def split: option.splits)

lemma replay_goal_state: "replayThreadGoalEvents es = Inr t \<Longrightarrow> goal_state_ok t"
  using goal_log.replay_invariant [of goal_state_ok, OF goal_state_first goal_state_next] by (simp add: replay_goal_Inr)

text \<open>The envelopes of a replayed log: all events are valid, of one Thread, and in the order of time.\<close>

definition page_ok :: "js_string \<Rightarrow> js_string \<Rightarrow> goal_event list \<Rightarrow> bool" where
  "page_ok tenant thread es \<longleftrightarrow> (\<forall>e\<in>set es. goal_event_ok e \<and> ge_tenantId e = tenant \<and> ge_threadId e = thread)
     \<and> sorted_wrt (\<lambda>e f. \<not> date_less (iso_time (ge_occurredAt f)) (iso_time (ge_occurredAt e))) es"

lemma time_le_trans: "iso_time b = Some t \<Longrightarrow> \<not> date_less (iso_time b) (iso_time a) \<Longrightarrow>
    \<not> date_less (iso_time c) (iso_time b) \<Longrightarrow> \<not> date_less (iso_time c) (iso_time a)"
  by (auto simp: date_less_def split: option.splits)

lemma replay_page:
  assumes "replay_events reduceThreadGoalEvent None es = Inr (Some t)"
  shows "page_ok (gs_tenantId t) (gs_threadId t) es
    \<and> (\<forall>e\<in>set es. \<not> date_less (iso_time (gs_updatedAt t)) (iso_time (ge_occurredAt e)))"
  using assms
proof (induction es arbitrary: t rule: rev_induct)
  case (snoc e es)
  from snoc.prems obtain st where st: "replay_events reduceThreadGoalEvent None es = Inr st"
    and e: "reduceThreadGoalEvent st e = Inr t" by (rule replay_snoc)
  have irrefl: "\<not> date_less (iso_time x) (iso_time x)" for x by (simp add: date_less_def split: option.split)
  show ?case
  proof (cases st)
    case None
    with st have "es = []" by (cases es) (auto dest: replay_some)
    with e None show ?thesis
      by (auto simp: reduce_goal_first page_ok_def stateFromFirstEvent_def irrefl split: goal_event_data.splits)
  next
    case (Some s)
    note ih = snoc.IH [OF st [unfolded Some]]
    have step: "goal_event_ok e" "ge_tenantId e = gs_tenantId s" "ge_threadId e = gs_threadId s"
      "\<not> date_less (iso_time (ge_occurredAt e)) (iso_time (gs_updatedAt s))" and a: "apply_goal_event s e = Inr t"
      using e by (auto simp: Some reduce_goal_next)
    have "is_timestamp (gs_updatedAt s)"
      using replay_goal_state [of es s] st by (simp add: replay_goal_Inr Some goal_state_ok_def)
    then obtain u where u: "iso_time (gs_updatedAt s) = Some u" by (auto simp: is_timestamp_iff)
    then have "\<not> date_less (iso_time (ge_occurredAt e)) (iso_time (ge_occurredAt f))" if "f \<in> set es" for f
      using ih step(4) that time_le_trans [OF u] by blast
    with ih step apply_goal_Inr [OF a] irrefl show ?thesis
      by (auto simp: page_ok_def sorted_wrt_append)
  qed
qed (auto)

lemma page_ok_part: "page_ok tenant thread (xs @ ys @ zs) \<Longrightarrow> page_ok tenant thread ys"
  by (auto simp: page_ok_def sorted_wrt_append)

lemma page_checks_ok:
  assumes "page_ok (pb_tenantId b) (pb_threadId b) es"
    and "map ge_sequence es = map (\<lambda>i. pb_afterSequence b + index + 1 + int i) [0..<length es]"
    and "distinct (map ge_eventId es)" and "set (map ge_eventId es) \<inter> set ids = {}"
    and "\<forall>p. previous = Some p \<longrightarrow> (\<forall>e\<in>set es. \<not> date_less (iso_time (ge_occurredAt e)) (iso_time p))"
  shows "page_checks b index ids previous es = None"
  using assms
proof (induction es arbitrary: index ids previous)
  case (Cons e es)
  have up: "map (\<lambda>i. pb_afterSequence b + index + 1 + int i) [0..<length (e # es)]
      = (pb_afterSequence b + index + 1) # map (\<lambda>i. pb_afterSequence b + (index + 1) + 1 + int i) [0..<length es]"
    by (simp add: upt_conv_Cons map_Suc_upt [symmetric] add.assoc del: upt_Suc)
  from Cons.prems(2) have s: "ge_sequence e = pb_afterSequence b + index + 1"
    "map ge_sequence es = map (\<lambda>i. pb_afterSequence b + (index + 1) + 1 + int i) [0..<length es]"
    unfolding up by simp_all
  have p: "page_ok (pb_tenantId b) (pb_threadId b) es" and e: "goal_event_ok e"
    using Cons.prems(1) by (simp_all add: page_ok_def)
  have "page_checks b (index + 1) (ge_eventId e # ids) (Some (ge_occurredAt e)) es = None"
    by (rule Cons.IH [OF p s(2)]) (use Cons.prems in \<open>auto simp: page_ok_def\<close>)
  moreover have "is_safe_integer (ge_sequence e)" using e by (simp add: goal_event_ok_def positive_safe_integer_def)
  ultimately show ?case
    using Cons.prems s(1) e by (auto simp: valid_goal_event page_ok_def when_some_None_iff)
qed simp

section \<open>The asserted type\<close>

text \<open>
  A dynamic value has the declared type: it has exactly the declared keys, in any order, with the values of
  a typed event.
\<close>

definition has_fields :: "json \<Rightarrow> string list \<Rightarrow> (string \<times> json) list \<Rightarrow> bool" where
  "has_fields v keys ps \<longleftrightarrow> hasExactKeys (Some v) keys \<and> (\<forall>(k, x)\<in>set ps. get_prop v k = Some x)"

definition is_goal_value :: "json \<Rightarrow> thread_goal \<Rightarrow> bool" where
  "is_goal_value v g \<longleftrightarrow> has_fields v goal_keys (goal_fields g)
     \<and> (case tg_status g of OtherGoalStatus _ \<Rightarrow> False | _ \<Rightarrow> True)"

definition is_goal_event_value :: "json \<Rightarrow> goal_event \<Rightarrow> bool" where
  "is_goal_event_value v e \<longleftrightarrow> has_fields v goal_event_keys (butlast (goal_event_fields e))
     \<and> (\<exists>d. get_prop v ''data'' = Some d \<and> (case ge_data e of
          GoalUpdated g \<Rightarrow> (\<exists>w. has_fields d [''goal''] [(''goal'', w)] \<and> is_goal_value w g)
        | GoalCleared i r \<Rightarrow> has_fields d [''previousGoalId'', ''previousRevision''] (goal_data_fields (ge_data e))))"

lemma timestamp_has_T: "is_timestamp s \<Longrightarrow> 84 \<in> set s"
  by (auto simp: is_timestamp_def matches_timestamp_def iso_fields_def split: list.splits if_splits)

lemma nat_text_digits: "u \<in> set (nat_text n) \<Longrightarrow> 48 \<le> u \<and> u < 58"
proof (induction n rule: nat_text.induct)
  case (1 n)
  then show ?case using nat_text.simps [of n] by (auto split: if_splits)
qed

lemma nat_text_no_T: "84 \<notin> set (nat_text n)"
  using nat_text_digits by fastforce

lemma decimal_text_no_T: "84 \<notin> set (decimal_text m e)"
proof -
  note t = nat_text_no_T
  moreover have "nat_text m \<noteq> []" by (subst nat_text.simps) simp
  ultimately have "hd (nat_text m) \<noteq> 84" "84 \<notin> set (tl (nat_text m))"
    by (metis hd_in_set, metis list.set_sel(2))
  with t show ?thesis by (auto simp: decimal_text_def Let_def dest!: in_set_takeD in_set_dropD)
qed

lemma number_text_no_T: "84 \<notin> set (number_text n)"
  using nat_text_no_T decimal_text_no_T by (auto simp: number_text_def int_text_def js_def split: js_number.split)

lemma created_at_string_or_array:
  assumes "goal_timestamp_value v code = None"
  shows "(\<exists>s. v = Some (JStr s) \<and> is_timestamp s) \<or> (\<exists>vs. v = Some (JArr vs))"
proof -
  from assms obtain w s where w: "v = Some w" "to_text w = Some s" "is_timestamp s"
    by (auto simp: goal_timestamp_value_def split: option.splits)
  note t = timestamp_has_T [OF w(3)]
  show ?thesis
  proof (cases w)
    case (JNum n)
    with w(2) t number_text_no_T show ?thesis by (auto simp: js_def split: js_number.splits if_splits)
  qed (use w t in \<open>auto simp: js_def split: if_splits\<close>)
qed

lemma status_valueE:
  assumes "v \<in> set (map (\<lambda>s. Some (JStr (js s))) thread_goal_statuses)"
  obtains st where "v = Some (JStr (goal_status_text st))" "case st of OtherGoalStatus _ \<Rightarrow> False | _ \<Rightarrow> True"
proof -
  from assms consider "v = Some (JStr (goal_status_text GoalActive))" | "v = Some (JStr (goal_status_text GoalPaused))"
    | "v = Some (JStr (goal_status_text GoalBlocked))" | "v = Some (JStr (goal_status_text GoalUsageLimited))"
    | "v = Some (JStr (goal_status_text GoalBudgetLimited))" | "v = Some (JStr (goal_status_text GoalComplete))"
    by (auto simp: thread_goal_statuses_def goal_status_text_def)
  then show thesis by cases (erule that, simp)+
qed

lemma budget_valueE:
  assumes "v = Some JNull \<or> integer_from 1 v"
  obtains b where "v = Some (case b of None \<Rightarrow> JNull | Some n \<Rightarrow> whole n)"
proof (cases "v = Some JNull")
  case True
  then show thesis using that [of None] by simp
next
  case False
  with assms have "integer_from 1 v" by simp
  then obtain i where "v = Some (whole i)" by (rule integer_fromE)
  then show thesis using that [of "Some i"] by simp
qed

lemma goal_value_typed:
  assumes "validateGoalSnapshot (Some w) = None" and "get_prop w ''updatedAt'' = Some (JStr at)"
    and "\<nexists>vs. get_prop w ''createdAt'' = Some (JArr vs)"
  shows "\<exists>g. is_goal_value w g"
proof -
  have k: "hasExactKeys (Some w) goal_keys" and v: "validateGoalValue w = None"
    using assms(1) by (auto simp: validateGoalSnapshot_def split: if_splits)
  note c = v [unfolded validateGoalValue_def first_throw_None goal_throw_if_None not_not first_throw.simps(1) de_Morgan_conj]
  from c obtain ten where ten: "get_prop w ''tenantId'' = Some (JStr ten)" by (blast elim: bounded_textE)
  from c obtain thr where thr: "get_prop w ''threadId'' = Some (JStr thr)" by (blast elim: bounded_textE)
  from c obtain gid where gid: "get_prop w ''goalId'' = Some (JStr gid)" by (blast elim: bounded_textE)
  from c obtain rev where rev: "get_prop w ''revision'' = Some (whole rev)" by (blast elim: integer_fromE)
  from c obtain ob where ob: "get_prop w ''objective'' = Some (JStr ob)" by (blast elim: objective_valueE)
  from c obtain st where st: "get_prop w ''status'' = Some (JStr (goal_status_text st))"
    "case st of OtherGoalStatus _ \<Rightarrow> False | _ \<Rightarrow> True" by (blast elim: status_valueE)
  from c have "get_prop w ''tokenBudget'' = Some JNull \<or> integer_from 1 (get_prop w ''tokenBudget'')" by blast
  then obtain bud where bud: "get_prop w ''tokenBudget'' = Some (case bud of None \<Rightarrow> JNull | Some n \<Rightarrow> whole n)"
    by (rule budget_valueE)
  from c obtain tok where tok: "get_prop w ''tokensUsed'' = Some (whole tok)" by (blast elim: integer_fromE)
  from c obtain tim where tim: "get_prop w ''timeUsedSeconds'' = Some (whole tim)" by (blast elim: integer_fromE)
  from c assms(3) obtain cre where cre: "get_prop w ''createdAt'' = Some (JStr cre)"
    by (blast dest: created_at_string_or_array)
  have "is_goal_value w \<lparr>tg_schemaVersion = js ''crewon.thread-goal.v0'', tg_tenantId = ten, tg_threadId = thr,
      tg_goalId = gid, tg_revision = rev, tg_objective = ob, tg_status = st, tg_tokenBudget = bud, tg_tokensUsed = tok,
      tg_timeUsedSeconds = tim, tg_createdAt = cre, tg_updatedAt = at\<rparr>"
    using k c st(2) assms(2) by (simp add: is_goal_value_def has_fields_def goal_fields_def ten thr gid rev ob st(1) bud tok tim cre)
  then show ?thesis by blast
qed

lemma goal_event_typed:
  assumes "validateThreadGoalEvent v = None" and "\<nexists>vs. goal_prop v ''createdAt'' = Some (JArr vs)"
  shows "\<exists>e. is_goal_event_value v e"
proof -
  note c = assms(1) [unfolded validateThreadGoalEvent_def first_throw_None ge_throw_if_None not_not first_throw.simps(1)
      ge_require_bounded_def ge_require_positive_def ge_require_timestamp_def de_Morgan_disj]
  from c obtain ten where ten: "get_prop v ''tenantId'' = Some (JStr ten)" by (blast elim: bounded_textE)
  from c obtain thr where thr: "get_prop v ''threadId'' = Some (JStr thr)" by (blast elim: bounded_textE)
  from c obtain eid where eid: "get_prop v ''eventId'' = Some (JStr eid)" by (blast elim: bounded_textE)
  from c obtain seq where seq: "get_prop v ''sequence'' = Some (whole seq)" by (blast elim: integer_fromE)
  from c obtain at where at: "get_prop v ''occurredAt'' = Some (JStr at)" by (blast elim: timestamp_valueE)
  define e where "e d = \<lparr>ge_schemaVersion = js ''crewon.thread-goal-event.v0'', ge_tenantId = ten, ge_threadId = thr,
      ge_eventId = eid, ge_sequence = seq, ge_occurredAt = at, ge_data = d\<rparr>" for d
  have env: "has_fields v goal_event_keys (butlast (goal_event_fields (e d)))"
    if "get_prop v ''type'' = Some (JStr (js (goal_event_type (e d))))" for d
    using c that by (simp add: has_fields_def goal_event_fields_def e_def ten thr eid seq at)
  consider (updated) "get_prop v ''type'' = Some (JStr (js ''goal.updated''))" "first_throw (goal_updated_checks v) = None"
    | (cleared) "get_prop v ''type'' = Some (JStr (js ''goal.cleared''))" "first_throw (goal_cleared_checks v) = None"
    using c by (auto split: if_splits)
  then show ?thesis
  proof cases
    case updated
    from updated(2) obtain d where d: "get_prop v ''data'' = Some d" "hasExactKeys (Some d) [''goal'']"
      by (cases "get_prop v ''data''") (auto simp: goal_updated_checks_def hasExactKeys_def)
    from updated(2) obtain w where w: "get_prop d ''goal'' = Some w"
      by (cases "get_prop d ''goal''") (auto simp: goal_updated_checks_def data_prop_def d(1) validateGoalSnapshot_def hasExactKeys_def)
    have "\<exists>g. is_goal_value w g"
      by (rule goal_value_typed) (use updated(2) assms(2) at in \<open>simp_all add: goal_updated_checks_def goal_prop_def data_prop_def d w\<close>)
    then obtain g where "is_goal_value w g" ..
    with d w env [of "GoalUpdated g"] updated(1) have "is_goal_event_value v (e (GoalUpdated g))"
      by (auto simp: is_goal_event_value_def has_fields_def e_def goal_event_type_def)
    then show ?thesis by blast
  next
    case cleared
    note cc = cleared(2) [unfolded goal_cleared_checks_def first_throw_None ge_require_bounded_def ge_require_positive_def
        ge_throw_if_None not_not]
    from cc obtain d where d: "get_prop v ''data'' = Some d" "hasExactKeys (Some d) [''previousGoalId'', ''previousRevision'']"
      by (cases "get_prop v ''data''") (auto simp: hasExactKeys_def)
    from cc obtain i where i: "data_prop v ''previousGoalId'' = Some (JStr i)" by (blast elim: bounded_textE)
    from cc obtain r where r: "data_prop v ''previousRevision'' = Some (whole r)" by (blast elim: integer_fromE)
    have "is_goal_event_value v (e (GoalCleared i r))"
      using d i r env [of "GoalCleared i r"] cleared(1)
      by (auto simp: is_goal_event_value_def has_fields_def e_def goal_event_type_def goal_data_fields_def data_prop_def)
    then show ?thesis by blast
  qed
qed

section \<open>Properties\<close>

text \<open>
  C38: the assertion of the validator is sound up to one field: a JSON value it accepts has exactly the
  declared keys at every level and declared types of their values, so it is a typed event,
  unless the creation time of its goal is an array.
\<close>

theorem goal_event_type_sound:
  assumes "validateThreadGoalEvent v = None"
  shows "(\<exists>e. is_goal_event_value v e) \<or> (\<exists>vs. goal_prop v ''createdAt'' = Some (JArr vs))"
  using goal_event_typed [OF assms] by blast

text \<open>
  In the state of a replayed log the current goal is valid, belongs to the Thread, and is the latest
  one at its revision and time; the next event either clears it by name or
  carries the same goal at the next revision with counters that have not gone down.
\<close>

theorem replayed_goal_state:
  assumes "replayThreadGoalEvents es = Inr s" and "replayThreadGoalEvents (es @ [e]) = Inr t"
  shows "goal_state_ok s \<and> gs_lastSequence s = int (length es) \<and> gs_lastEventId t = ge_eventId e
    \<and> (\<forall>g. gs_currentGoal s = Some g \<longrightarrow> (case gs_currentGoal t of
         None \<Rightarrow> ge_data e = GoalCleared (tg_goalId g) (tg_revision g)
       | Some g' \<Rightarrow> ge_data e = GoalUpdated g' \<and> tg_goalId g' = tg_goalId g \<and> tg_createdAt g' = tg_createdAt g
           \<and> tg_revision g' = tg_revision g + 1 \<and> tg_tokensUsed g \<le> tg_tokensUsed g'
           \<and> tg_timeUsedSeconds g \<le> tg_timeUsedSeconds g'))"
proof -
  from assms have e: "apply_goal_event s e = Inr t"
    by (simp add: replay_goal_Inr replay_append reduce_goal_next)
  then show ?thesis
    using replay_goal_state [OF assms(1)] goal_log.replay_numbers [OF assms(1) [unfolded replay_goal_Inr]] apply_goal_Inr [OF e]
    by (auto simp: apply_goal_event_def validateSnapshotProgress_def when_some_None_iff
        split: goal_event_data.splits option.splits)
qed

text \<open>
  Every page of a log that replays, whatever part of the log it is, passes the check of a page that
  begins after the number of events before it, if no identifier occurs twice in it.
\<close>

theorem goal_pages_accepted:
  assumes "replayThreadGoalEvents (before @ page @ after) = Inr s" and "page \<noteq> []"
    and "distinct (map ge_eventId page)"
  shows "validateThreadGoalEventPageBoundary page
    \<lparr>pb_tenantId = gs_tenantId s, pb_threadId = gs_threadId s, pb_afterSequence = int (length before)\<rparr> = None"
    (is "validateThreadGoalEventPageBoundary page ?b = None")
proof -
  note r = assms(1) [unfolded replay_goal_Inr]
  have p: "page_ok (gs_tenantId s) (gs_threadId s) page" using replay_page [OF r] page_ok_part by blast
  have n: "ge_sequence (page ! i) = int (length before) + 1 + int i" if "i < length page" for i
  proof -
    let ?all = "before @ page @ after"
    have "map ge_sequence ?all ! (length before + i) = map int [1..<length ?all + 1] ! (length before + i)"
      using goal_log.replay_numbers [OF r] by simp
    with that show ?thesis by (simp add: nth_append del: upt_Suc)
  qed
  then have s: "map ge_sequence page = map (\<lambda>i. pb_afterSequence ?b + 0 + 1 + int i) [0..<length page]"
    by (auto intro: nth_equalityI)
  have "page_checks ?b 0 [] None page = None"
    by (rule page_checks_ok [OF _ s]) (use p assms(3) in simp_all)
  moreover have "goal_event_ok (hd page)" "ge_tenantId (hd page) = gs_tenantId s" "ge_threadId (hd page) = gs_threadId s"
    using p assms(2) by (simp_all add: page_ok_def)
  moreover have "ge_sequence (hd page) = int (length before) + 1"
    using n [of 0] assms(2) by (simp add: hd_conv_nth)
  ultimately show ?thesis
    by (simp add: validateThreadGoalEventPageBoundary_def ge_require_bounded_def ge_require_non_negative_def
        goal_event_ok_def safe_integer_defs)
qed

lemma settle_result_ok:
  assumes "settleThreadGoalForRun legacy (Some g) run oc now = Inr (Some g')" and "g' \<noteq> g" and "goal_ok g"
  shows "goal_ok g' \<and> tg_tenantId g' = tg_tenantId g \<and> tg_threadId g' = tg_threadId g \<and> tg_updatedAt g' = now
    \<and> is_timestamp now \<and> \<not> date_less (iso_time now) (iso_time (tg_updatedAt g))
    \<and> validateSnapshotProgress (Some g) g' = None"
proof -
  have at: "is_timestamp (tg_updatedAt g)" and st: "goal_status_ok (settled_status b oc)" for b
    using assms(3) by (simp_all add: goal_ok_def settled_status_def)
  note p = date_parse_timestamp [OF at]
  have t: "is_timestamp now \<and> \<not> date_less (iso_time now) (iso_time (tg_updatedAt g))"
    using assms(1,2) by (auto simp: settleThreadGoalForRun_def goal_require_timestamp_def p split: option.splits if_splits)
  then have later: "\<not> date_less (iso_time now) (iso_time (tg_createdAt g))"
    using assms(3) at by (auto simp: goal_ok_def is_timestamp_iff)
  have "\<exists>c dt st'. 0 \<le> c \<and> 0 \<le> dt \<and> goal_status_ok st' \<and> non_negative_safe_integer (tg_tokensUsed g + c)
      \<and> non_negative_safe_integer (tg_timeUsedSeconds g + dt) \<and> non_negative_safe_integer (tg_revision g + 1)
      \<and> g' = g\<lparr>tg_revision := tg_revision g + 1, tg_status := st', tg_tokensUsed := tg_tokensUsed g + c,
          tg_timeUsedSeconds := tg_timeUsedSeconds g + dt, tg_updatedAt := now\<rparr>"
  proof (cases "tg_status g = GoalActive")
    case True
    with assms(1,2) have a: "settle_active_goal legacy g run oc now = Inr (Some g')"
      by (auto simp: settleThreadGoalForRun_def split: option.splits if_splits)
    then obtain ch dt where ch: "threadGoalChargedTokens (rs_usage run) = Inr ch"
      and dt: "elapsed_seconds (iso_time now) (date_parse legacy (rs_createdAt run)) = Some dt"
      by (auto simp: settle_active_goal_def split: option.splits)
    have "0 \<le> ch" using charged_tokens_Inr [OF ch] charge_bounds by auto
    moreover have "0 \<le> dt" using dt by (rule elapsed_non_negative)
    moreover have "non_negative_safe_integer (tg_tokensUsed g + ch) \<and> non_negative_safe_integer (tg_timeUsedSeconds g + dt)
        \<and> non_negative_safe_integer (tg_revision g + 1)
        \<and> g' = g\<lparr>tg_revision := tg_revision g + 1, tg_status := settled_status (budget_reached g (tg_tokensUsed g + ch)) oc,
          tg_tokensUsed := tg_tokensUsed g + ch, tg_timeUsedSeconds := tg_timeUsedSeconds g + dt, tg_updatedAt := now\<rparr>"
      using a assms(2) by (auto simp: settle_active_goal_def ch dt add_safe_Inr incrementSafeInteger_def split: if_splits)
    ultimately show ?thesis using st by blast
  next
    case False
    with assms(1,2) have "non_negative_safe_integer (tg_revision g + 1)
        \<and> g' = g\<lparr>tg_revision := tg_revision g + 1, tg_status := GoalUsageLimited, tg_tokensUsed := tg_tokensUsed g + 0,
          tg_timeUsedSeconds := tg_timeUsedSeconds g + 0, tg_updatedAt := now\<rparr>"
      by (auto simp: settleThreadGoalForRun_def add_safe_Inr incrementSafeInteger_def split: option.splits if_splits)
    moreover have "non_negative_safe_integer (tg_tokensUsed g + 0)" "non_negative_safe_integer (tg_timeUsedSeconds g + 0)"
      using assms(3) by (simp_all add: goal_ok_def)
    ultimately show ?thesis using known_status_ok(4) by (metis order_refl)
  qed
  then show ?thesis
    using assms(3) t later by (auto simp: goal_ok_def validateSnapshotProgress_def positive_safe_integer_def
        non_negative_safe_integer_def)
qed

text \<open>
  What a Run settles can be logged: if the settlement of the current goal of a replayed log changes
  it, the event that carries the result, under the next number and within the size bound, is
  accepted, and the result is the current goal afterwards.
\<close>

theorem settled_goal_logged:
  assumes "replayThreadGoalEvents es = Inr s" and "gs_currentGoal s = Some g"
    and "settleThreadGoalForRun legacy (Some g) run oc now = Inr (Some g')" and "g' \<noteq> g"
    and "e = \<lparr>ge_schemaVersion = js ''crewon.thread-goal-event.v0'', ge_tenantId = gs_tenantId s,
      ge_threadId = gs_threadId s, ge_eventId = eventId, ge_sequence = int (length es) + 1, ge_occurredAt = now,
      ge_data = GoalUpdated g'\<rparr>"
    and "\<not> is_blank eventId" and "utf8_length eventId \<le> 512" and "int (length es) < max_safe_integer"
    and "utf8_length (stringify (goal_event_value e)) \<le> max_thread_goal_event_bytes"
  shows "\<exists>t. replayThreadGoalEvents (es @ [e]) = Inr t \<and> gs_currentGoal t = Some g'"
proof -
  have s: "goal_ok g" "tg_tenantId g = gs_tenantId s" "tg_threadId g = gs_threadId s" "tg_updatedAt g = gs_updatedAt s"
    "gs_lastSequence s = int (length es)"
    using replay_goal_state [OF assms(1)] assms(2) goal_log.replay_numbers [OF assms(1) [unfolded replay_goal_Inr]]
    by (simp_all add: goal_state_ok_def)
  note g' = settle_result_ok [OF assms(3,4) s(1)]
  have "goal_event_ok e"
    using g' s assms(6-9) by (auto simp: goal_event_ok_def assms(5) goal_ok_def safe_integer_defs)
  moreover have "apply_goal_event s e = Inr (s\<lparr>gs_lastSequence := ge_sequence e, gs_lastEventId := ge_eventId e,
      gs_currentGoal := Some g', gs_latestGoalId := tg_goalId g', gs_latestGoalRevision := tg_revision g',
      gs_updatedAt := ge_occurredAt e\<rparr>)"
    using g' by (simp add: apply_goal_event_def assms(2,5) guarded_pass)
  ultimately have "reduceThreadGoalEvent (Some s) e = Inr (s\<lparr>gs_lastSequence := ge_sequence e, gs_lastEventId := ge_eventId e,
      gs_currentGoal := Some g', gs_latestGoalId := tg_goalId g', gs_latestGoalRevision := tg_revision g',
      gs_updatedAt := ge_occurredAt e\<rparr>)"
    using g' s(4,5) by (simp add: reduce_goal_next) (simp add: assms(5))
  then show ?thesis using assms(1) by (simp add: replay_goal_Inr replay_append)
qed

section \<open>A concrete log\<close>

definition goal_log_event :: "int \<Rightarrow> js_string \<Rightarrow> js_string \<Rightarrow> goal_event_data \<Rightarrow> goal_event" where
  "goal_log_event n i at d = \<lparr>ge_schemaVersion = js ''crewon.thread-goal-event.v0'', ge_tenantId = js ''t'',
     ge_threadId = js ''th'', ge_eventId = i, ge_sequence = n, ge_occurredAt = at, ge_data = d\<rparr>"

definition first_goal_event :: goal_event where
  "first_goal_event = goal_log_event 1 (js ''e1'') (tg_updatedAt sample_goal) (GoalUpdated sample_goal)"

definition clearing_event :: goal_event where
  "clearing_event = goal_log_event 2 (js ''e2'') (tg_updatedAt sample_goal)
     (GoalCleared (tg_goalId sample_goal) (tg_revision sample_goal))"

lemmas goal_value_eval = goal_event_value_def goal_event_fields_def js_object_def goal_event_type_def goal_data_fields_def
  goal_fields_def goal_status_text_def max_thread_goal_event_bytes_def goal_log_event_def sample_goal_def

lemma sample_objective_ok: "validateThreadGoalObjective (js ''Ship & test'') = None"
  by (simp add: validateThreadGoalObjective_def max_thread_goal_objective_chars_def is_lone_surrogate_def string_eval)

lemma sample_goal_time: "iso_time (js ''2026-01-01T00:00:00Z'') = Some 1767225600000"
  by code_simp

lemma sample_goal_ok: "goal_ok sample_goal"
  by (simp add: goal_ok_def sample_goal_def sample_objective_ok sample_goal_time is_timestamp_iff safe_integer_defs)
    (simp add: string_eval)

lemma sample_events_size: "utf8_length (stringify (goal_event_value first_goal_event)) \<le> max_thread_goal_event_bytes"
    "utf8_length (stringify (goal_event_value clearing_event)) \<le> max_thread_goal_event_bytes"
  by (rule stringify_fits, simp add: goal_value_eval first_goal_event_def clearing_event_def number_text_def int_text_def
      nat_text.simps)+

lemma sample_events_ok: "goal_event_ok first_goal_event" "goal_event_ok clearing_event"
  using sample_goal_ok sample_events_size
  by (simp_all add: goal_event_ok_def first_goal_event_def clearing_event_def goal_log_event_def safe_integer_defs)
    (simp_all add: sample_goal_def sample_goal_time is_timestamp_iff, simp_all add: string_eval)

definition logged_goal_state :: goal_event_state where
  "logged_goal_state = stateFromFirstEvent first_goal_event"

lemma first_goal_replays: "replayThreadGoalEvents [first_goal_event] = Inr logged_goal_state"
  using sample_events_ok by (simp add: replay_goal_Inr reduceThreadGoalEvent_def valid_goal_event guarded_pass logged_goal_state_def)
    (simp add: first_goal_event_def goal_log_event_def)

lemma clearing_replays: "\<exists>t. replayThreadGoalEvents ([first_goal_event] @ [clearing_event]) = Inr t
    \<and> gs_currentGoal t = None \<and> gs_tenantId t = js ''t'' \<and> gs_threadId t = js ''th''"
proof -
  have "apply_goal_event logged_goal_state clearing_event = Inr (logged_goal_state\<lparr>gs_lastSequence := 2,
      gs_lastEventId := js ''e2'', gs_currentGoal := None, gs_latestGoalId := tg_goalId sample_goal,
      gs_latestGoalRevision := tg_revision sample_goal, gs_updatedAt := tg_updatedAt sample_goal\<rparr>)"
    by (simp add: apply_goal_event_def clearing_event_def goal_log_event_def logged_goal_state_def stateFromFirstEvent_def
        first_goal_event_def guarded_pass)
  then have "reduceThreadGoalEvent (Some logged_goal_state) clearing_event = Inr (logged_goal_state\<lparr>gs_lastSequence := 2,
      gs_lastEventId := js ''e2'', gs_currentGoal := None, gs_latestGoalId := tg_goalId sample_goal,
      gs_latestGoalRevision := tg_revision sample_goal, gs_updatedAt := tg_updatedAt sample_goal\<rparr>)"
    using sample_events_ok by (simp add: reduce_goal_next) (simp add: clearing_event_def goal_log_event_def
        logged_goal_state_def stateFromFirstEvent_def first_goal_event_def date_less_def split: option.split)
  with first_goal_replays have "replayThreadGoalEvents ([first_goal_event] @ [clearing_event]) = Inr (logged_goal_state\<lparr>gs_lastSequence := 2,
      gs_lastEventId := js ''e2'', gs_currentGoal := None, gs_latestGoalId := tg_goalId sample_goal,
      gs_latestGoalRevision := tg_revision sample_goal, gs_updatedAt := tg_updatedAt sample_goal\<rparr>)"
    unfolding replay_goal_Inr replay_append by simp
  then show ?thesis
    by (simp add: logged_goal_state_def stateFromFirstEvent_def first_goal_event_def goal_log_event_def)
qed

text \<open>
  The field the assertion misses: an array with one timestamp in it passes as the time of creation.
\<close>

definition array_time_event :: json where
  "array_time_event = js_object (butlast (goal_event_fields first_goal_event) @ [(''data'', js_object [(''goal'',
     js_object (map (\<lambda>(k, x). (k, if k = ''createdAt'' then JArr [x] else x)) (goal_fields sample_goal)))])])"

lemma array_created_at_accepted: "validateThreadGoalEvent array_time_event = None
    \<and> goal_prop array_time_event ''createdAt'' = Some (JArr [JStr (tg_createdAt sample_goal)])"
proof -
  have "utf8_length (stringify array_time_event) \<le> max_thread_goal_event_bytes"
    by (rule stringify_fits) (simp add: array_time_event_def goal_value_eval first_goal_event_def number_text_def
        int_text_def nat_text.simps)
  then show ?thesis
    by (simp add: validateThreadGoalEvent_def requireEventSize_def array_time_event_def get_prop_js_object
        goal_updated_checks_def validateGoalSnapshot_def validateGoalValue_def data_prop_def goal_prop_def
        first_goal_event_def goal_log_event_def goal_event_fields_def goal_event_keys_def goal_keys_def goal_fields_def
        hasExactKeys_js_object goal_event_type_def sample_goal_def goal_status_text_def thread_goal_statuses_def
        ge_require_bounded_def ge_require_positive_def ge_require_timestamp_def goal_timestamp_value_def value_time_def
        validateGoalObjectiveValue_def sample_objective_ok is_timestamp_iff sample_goal_time safe_integer_defs)
      (simp add: string_eval)
qed

theorem goal_event_type_sound_witness:
  "\<exists>e. is_goal_event_value (goal_event_value clearing_event) e"
proof -
  have "validateThreadGoalEvent (goal_event_value clearing_event) = None" using sample_events_ok by (simp add: valid_goal_event)
  from goal_event_type_sound [OF this] show ?thesis
    by (auto simp: goal_prop_def data_prop_def goal_event_props clearing_event_def goal_log_event_def goal_data_fields_def
        get_prop_js_object)
qed

theorem replayed_goal_state_witness: "\<exists>t. replayThreadGoalEvents ([first_goal_event] @ [clearing_event]) = Inr t
    \<and> goal_state_ok logged_goal_state \<and> gs_lastEventId t = js ''e2''"
proof -
  obtain t where t: "replayThreadGoalEvents ([first_goal_event] @ [clearing_event]) = Inr t" using clearing_replays by blast
  from replayed_goal_state [OF first_goal_replays this] t show ?thesis
    by (auto simp: clearing_event_def goal_log_event_def)
qed

theorem goal_pages_accepted_witness:
  "validateThreadGoalEventPageBoundary [clearing_event]
    \<lparr>pb_tenantId = js ''t'', pb_threadId = js ''th'', pb_afterSequence = 1\<rparr> = None"
proof -
  obtain t where t: "replayThreadGoalEvents ([first_goal_event] @ [clearing_event] @ []) = Inr t"
    "gs_tenantId t = js ''t''" "gs_threadId t = js ''th''"
    using clearing_replays by auto
  from goal_pages_accepted [OF t(1)] t(2,3) show ?thesis by simp
qed

definition settled_sample_goal :: thread_goal where
  "settled_sample_goal = sample_goal\<lparr>tg_revision := 2, tg_status := GoalBudgetLimited, tg_tokensUsed := 110,
     tg_timeUsedSeconds := 97450, tg_updatedAt := sample_time\<rparr>"

theorem settled_goal_logged_witness:
  "\<exists>t. replayThreadGoalEvents ([first_goal_event] @ [goal_log_event 2 (js ''e2'') sample_time (GoalUpdated settled_sample_goal)]) = Inr t
    \<and> gs_currentGoal t = Some settled_sample_goal"
proof -
  have d: "date_parse (\<lambda>_. None) (js ''2026-01-01T00:00:00Z'') = Some 1767225600000"
    using date_parse_timestamp [of "js ''2026-01-01T00:00:00Z''"] sample_goal_time by (simp add: is_timestamp_iff)
  have s: "settleThreadGoalForRun (\<lambda>_. None) (Some sample_goal) sample_run OutcomeCompleted sample_time = Inr (Some settled_sample_goal)"
    by (simp add: settleThreadGoalForRun_def settle_active_goal_def sample_goal_def sample_run_def d
        sample_binding_def sample_time_value is_timestamp_iff goal_require_timestamp_def threadGoalChargedTokens_def
        addSafeIntegers_def incrementSafeInteger_def safe_integer_defs elapsed_seconds_def guarded_pass
        settled_sample_goal_def budget_reached_def settled_status_def usage_limited_outcome_def)
  have c: "gs_currentGoal logged_goal_state = Some sample_goal" "gs_tenantId logged_goal_state = js ''t''"
    "gs_threadId logged_goal_state = js ''th''"
    by (simp_all add: logged_goal_state_def stateFromFirstEvent_def first_goal_event_def goal_log_event_def)
  have z: "utf8_length (stringify (goal_event_value (goal_log_event 2 (js ''e2'') sample_time (GoalUpdated settled_sample_goal))))
      \<le> max_thread_goal_event_bytes"
    by (rule stringify_fits) (simp add: goal_value_eval settled_sample_goal_def sample_time_def number_text_def
        int_text_def nat_text.simps)
  show ?thesis
    by (rule settled_goal_logged [where eventId = "js ''e2''", OF first_goal_replays c(1) s _ _ _ _ _ z])
      (simp_all add: settled_sample_goal_def sample_goal_def goal_log_event_def c max_safe_integer_def string_eval)
qed

end
