(* ===== verification/Json_Text.thy ===== *)
theory Json_Text
  imports Js_Values
begin

text \<open>
  \<open>JSON.parse\<close> with the order in which an object lists its properties, and that it reads back
  what \<open>JSON.stringify\<close> has written.  A decimal is read as the nearest double with ties to even, and the
  double is kept as its shortest decimal.  The minus of a zero is not kept; no code modelled
  here can tell.
\<close>

section \<open>The order of properties\<close>

text \<open>Array indices come first, in ascending order; a property set twice keeps its first place.\<close>

definition decimal_nat :: "js_string \<Rightarrow> nat" where
  "decimal_nat ds = foldl (\<lambda>n u. 10 * n + (u - 48)) 0 ds"

definition is_array_index :: "js_string \<Rightarrow> bool" where
  "is_array_index k \<longleftrightarrow> k \<noteq> [] \<and> list_all is_digit k \<and> (hd k = 48 \<longrightarrow> length k = 1) \<and> decimal_nat k < 4294967295"

fun put_entry :: "(js_string \<times> 'a) list \<Rightarrow> js_string \<times> 'a \<Rightarrow> (js_string \<times> 'a) list" where
  "put_entry [] e = [e]"
| "put_entry (p # ps) e = (if fst p = fst e then e # ps else p # put_entry ps e)"

definition property_order :: "(js_string \<times> 'a) list \<Rightarrow> (js_string \<times> 'a) list" where
  "property_order ps = sort_key (decimal_nat \<circ> fst) (filter (is_array_index \<circ> fst) ps)
     @ filter (\<lambda>p. \<not> is_array_index (fst p)) ps"

text \<open>\<open>Object.fromEntries\<close>\<close>

definition from_entries :: "(js_string \<times> 'a) list \<Rightarrow> (js_string \<times> 'a) list" where
  "from_entries ps = property_order (foldl put_entry [] ps)"

lemma put_entry_new: "fst e \<notin> fst ` set ps \<Longrightarrow> put_entry ps e = ps @ [e]"
  by (induction ps) auto

lemma foldl_put_entry: "distinct (map fst (qs @ ps)) \<Longrightarrow> foldl put_entry qs ps = qs @ ps"
proof (induction ps arbitrary: qs)
  case (Cons p ps)
  then have "put_entry qs p = qs @ [p]" by (intro put_entry_new) (auto simp: image_iff)
  with Cons show ?case by simp
qed simp

lemma from_entries_order: "distinct (map fst ps) \<Longrightarrow> from_entries ps = property_order ps"
  using foldl_put_entry [of "[]" ps] by (simp add: from_entries_def)

lemma from_entries_plain:
  assumes "distinct (map fst ps)" and "\<forall>k\<in>fst ` set ps. \<not> is_array_index k"
  shows "from_entries ps = ps"
proof -
  have "filter (is_array_index \<circ> fst) ps = []" "filter (\<lambda>p. \<not> is_array_index (fst p)) ps = ps"
    using assms(2) by (simp_all add: filter_empty_conv filter_id_conv)
  with assms(1) show ?thesis by (simp only: from_entries_order property_order_def) simp
qed

section \<open>Reading numbers\<close>

fun bit_length :: "nat \<Rightarrow> nat" where
  "bit_length n = (if n = 0 then 0 else Suc (bit_length (n div 2)))"

declare bit_length.simps [simp del]

text \<open>\<open>n / d\<close> scaled by \<open>2 ^ (- k)\<close>, as numerator and denominator; the same with a power of ten.\<close>

definition scale_by :: "nat \<Rightarrow> int \<Rightarrow> nat \<times> nat \<Rightarrow> nat \<times> nat" where
  "scale_by b k q = (if 0 \<le> k then (fst q, snd q * b ^ nat k) else (fst q * b ^ nat (- k), snd q))"

definition round_even :: "nat \<times> nat \<Rightarrow> nat" where
  "round_even q = (let f = fst q div snd q; r = fst q mod snd q in
     if 2 * r < snd q \<or> 2 * r = snd q \<and> even f then f else f + 1)"

text \<open>
  The double nearest to \<open>n / d\<close> as \<open>m * 2 ^ k\<close>, with 53 bits or, for the smallest ones, \<open>k = -1074\<close>;
  \<open>None\<close> if it is not finite.
\<close>

definition nearest_double :: "nat \<times> nat \<Rightarrow> (nat \<times> int) option" where
  "nearest_double q = (let k0 = int (bit_length (fst q)) - int (bit_length (snd q)) - 53;
       s = scale_by 2 k0 q;
       k = max (-1074) (if 2 ^ 53 \<le> fst s div snd s then k0 + 1 else k0);
       m = round_even (scale_by 2 k q) in
     if 971 < k \<or> k = 971 \<and> 2 ^ 53 \<le> m then None
     else Some (if m = 2 ^ 53 then (2 ^ 52, k + 1) else (m, k)))"

text \<open>Of two neighbouring decimals the one that reads back as the double, the nearer one if both do.\<close>

definition decimal_fraction :: "nat \<Rightarrow> int \<Rightarrow> nat \<times> nat" where
  "decimal_fraction m e = scale_by 10 (- e) (m, 1)"

definition digits_candidate :: "nat \<times> int \<Rightarrow> int \<Rightarrow> (nat \<times> int) option" where
  "digits_candidate x e = (let q = scale_by 2 (- snd x) (fst x, 1); s = scale_by 10 e q;
       f = fst s div snd s; near = round_even s;
       back = (\<lambda>m. 0 < m \<and> nearest_double (decimal_fraction m e) = Some x) in
     if back near then Some (near, e) else if back f then Some (f, e) else if back (f + 1) then Some (f + 1, e) else None)"

text \<open>The number \<open>p\<close> with \<open>10 ^ (p - 1) \<le> n / d < 10 ^ p\<close>, searched from an upper bound.\<close>

fun decimal_position :: "nat \<Rightarrow> int \<Rightarrow> nat \<times> nat \<Rightarrow> int" where
  "decimal_position 0 p q = p"
| "decimal_position (Suc n) p q = (let s = scale_by 10 (p - 1) q in
     if snd s \<le> fst s then p else decimal_position n (p - 1) q)"

fun shortest_from :: "nat \<Rightarrow> nat \<times> int \<Rightarrow> int \<Rightarrow> nat \<times> int" where
  "shortest_from 0 x e = (0, e)"
| "shortest_from (Suc n) x e = (case digits_candidate x e of Some d \<Rightarrow> d | None \<Rightarrow> shortest_from n x (e - 1))"

definition shortest_decimal :: "nat \<times> int \<Rightarrow> nat \<times> int" where
  "shortest_decimal x = shortest_from 17 x (decimal_position 640 310 (scale_by 2 (- snd x) (fst x, 1)) - 1)"

text \<open>A decimal without trailing zeros, and as a number if it is a safe integer.\<close>

function strip_zeros :: "nat \<Rightarrow> int \<Rightarrow> nat \<times> int" where
  "strip_zeros m e = (if m = 0 then (0, 0) else if m mod 10 = 0 then strip_zeros (m div 10) (e + 1) else (m, e))"
  by pat_completeness auto
termination by (relation "measure fst") auto

declare strip_zeros.simps [simp del]

definition as_safe_integer :: "nat \<times> int \<Rightarrow> nat option" where
  "as_safe_integer d = (if 0 \<le> snd d \<and> int (fst d) * 10 ^ nat (snd d) \<le> max_safe_integer
     then Some (fst d * 10 ^ nat (snd d)) else None)"

definition signed :: "bool \<Rightarrow> nat \<Rightarrow> int" where
  "signed neg n = (if neg then - int n else int n)"

definition decimal_number :: "bool \<Rightarrow> nat \<Rightarrow> int \<Rightarrow> js_number" where
  "decimal_number neg m e = (let d = strip_zeros m e in (case as_safe_integer d of
     Some n \<Rightarrow> Whole (signed neg n)
   | None \<Rightarrow> (case nearest_double (decimal_fraction (fst d) (snd d)) of
       None \<Rightarrow> Infinite neg
     | Some x \<Rightarrow> if fst x = 0 then Whole 0
        else (let s = shortest_decimal x; t = strip_zeros (fst s) (snd s) in (case as_safe_integer t of
          Some n \<Rightarrow> Whole (signed neg n) | None \<Rightarrow> Decimal (signed neg (fst t)) (snd t))))))"

definition read_exponent :: "js_string \<Rightarrow> (int \<times> js_string) option" where
  "read_exponent s = (case s of [] \<Rightarrow> Some (0, s) | u # t \<Rightarrow>
     if u = 101 \<or> u = 69 then
       (let neg = (t \<noteq> [] \<and> hd t = 45); r = (if t \<noteq> [] \<and> (hd t = 45 \<or> hd t = 43) then tl t else t);
            ds = takeWhile is_digit r in
        if ds = [] then None else Some (signed neg (decimal_nat ds), dropWhile is_digit r))
     else Some (0, s))"

definition read_fraction :: "js_string \<Rightarrow> (js_string \<times> js_string) option" where
  "read_fraction s = (case s of [] \<Rightarrow> Some ([], s) | u # t \<Rightarrow>
     if u = 46 then (if takeWhile is_digit t = [] then None else Some (takeWhile is_digit t, dropWhile is_digit t))
     else Some ([], s))"

definition read_number :: "js_string \<Rightarrow> (js_number \<times> js_string) option" where
  "read_number s = (let neg = (s \<noteq> [] \<and> hd s = 45); t = (if neg then tl s else s); ds = takeWhile is_digit t in
     if ds = [] \<or> hd ds = 48 \<and> length ds \<noteq> 1 then None
     else (case read_fraction (dropWhile is_digit t) of None \<Rightarrow> None | Some (fs, r) \<Rightarrow>
       (case read_exponent r of None \<Rightarrow> None | Some (e, q) \<Rightarrow>
         Some (decimal_number neg (decimal_nat (ds @ fs)) (e - int (length fs)), q))))"

section \<open>Reading values\<close>

definition hex_value :: "nat \<Rightarrow> nat option" where
  "hex_value u = (if is_digit u then Some (u - 48) else if 97 \<le> u \<and> u \<le> 102 then Some (u - 87)
     else if 65 \<le> u \<and> u \<le> 70 then Some (u - 55) else None)"

definition hex_unit :: "nat \<Rightarrow> nat \<Rightarrow> nat \<Rightarrow> nat \<Rightarrow> nat option" where
  "hex_unit a b c d = (case (hex_value a, hex_value b, hex_value c, hex_value d) of
     (Some w, Some x, Some y, Some z) \<Rightarrow> Some (4096 * w + 256 * x + 16 * y + z) | _ \<Rightarrow> None)"

definition escaped_unit :: "nat \<Rightarrow> nat option" where
  "escaped_unit u = (if u = 34 \<or> u = 92 \<or> u = 47 then Some u else if u = 98 then Some 8 else if u = 102 then Some 12
     else if u = 110 then Some 10 else if u = 114 then Some 13 else if u = 116 then Some 9 else None)"

definition cons_unit :: "nat option \<Rightarrow> (js_string \<times> js_string) option \<Rightarrow> (js_string \<times> js_string) option" where
  "cons_unit u r = (case u of None \<Rightarrow> None | Some v \<Rightarrow> map_option (\<lambda>(s, t). (v # s, t)) r)"

text \<open>The characters of a string after its opening quote.\<close>

fun read_string :: "js_string \<Rightarrow> (js_string \<times> js_string) option" where
  "read_string [] = None"
| "read_string (u # s) = (if u = 34 then Some ([], s) else if u < 32 then None
     else if u \<noteq> 92 then cons_unit (Some u) (read_string s)
     else (case s of [] \<Rightarrow> None | e # t \<Rightarrow>
       if e \<noteq> 117 then cons_unit (escaped_unit e) (read_string t)
       else (case t of a # b # c # d # r \<Rightarrow> cons_unit (hex_unit a b c d) (read_string r) | _ \<Rightarrow> None)))"

definition skip_space :: "js_string \<Rightarrow> js_string" where
  "skip_space s = dropWhile (\<lambda>u. u = 32 \<or> u = 9 \<or> u = 10 \<or> u = 13) s"

definition read_word :: "string \<Rightarrow> json \<Rightarrow> js_string \<Rightarrow> (json \<times> js_string) option" where
  "read_word w v s = (if take (length w) s = js w then Some (v, drop (length w) s) else None)"

text \<open>After an element: the end of the list, or a comma and the next one.\<close>

definition read_next :: "nat \<Rightarrow> 'a \<Rightarrow> (js_string \<Rightarrow> ('a list \<times> js_string) option) \<Rightarrow> js_string \<Rightarrow> ('a list \<times> js_string) option" where
  "read_next close x more s = (case skip_space s of [] \<Rightarrow> None | u # t \<Rightarrow>
     if u = close then Some ([x], t) else if u = 44 then map_option (\<lambda>(xs, r). (x # xs, r)) (more t) else None)"

text \<open>The name of a property and the colon.\<close>

definition read_key :: "js_string \<Rightarrow> (js_string \<times> js_string) option" where
  "read_key s = (case skip_space s of [] \<Rightarrow> None | u # t \<Rightarrow> if u \<noteq> 34 then None
     else (case read_string t of None \<Rightarrow> None | Some (k, r) \<Rightarrow>
       (case skip_space r of [] \<Rightarrow> None | c # q \<Rightarrow> if c \<noteq> 58 then None else Some (k, q))))"

text \<open>The first argument bounds the depth of the calls.\<close>

fun read_value :: "nat \<Rightarrow> js_string \<Rightarrow> (json \<times> js_string) option"
  and read_elements :: "nat \<Rightarrow> js_string \<Rightarrow> (json list \<times> js_string) option"
  and read_members :: "nat \<Rightarrow> js_string \<Rightarrow> ((js_string \<times> json) list \<times> js_string) option" where
  "read_value 0 s = None"
| "read_value (Suc n) s = (case skip_space s of [] \<Rightarrow> None | u # t \<Rightarrow>
     if u = 34 then map_option (\<lambda>(x, r). (JStr x, r)) (read_string t)
     else if u = 91 then (if skip_space t \<noteq> [] \<and> hd (skip_space t) = 93 then Some (JArr [], tl (skip_space t))
       else map_option (\<lambda>(vs, r). (JArr vs, r)) (read_elements n t))
     else if u = 123 then (if skip_space t \<noteq> [] \<and> hd (skip_space t) = 125 then Some (JObj [], tl (skip_space t))
       else map_option (\<lambda>(ps, r). (JObj (from_entries ps), r)) (read_members n t))
     else if u = 110 then read_word ''null'' JNull (u # t)
     else if u = 116 then read_word ''true'' (JBool True) (u # t)
     else if u = 102 then read_word ''false'' (JBool False) (u # t)
     else map_option (\<lambda>(x, r). (JNum x, r)) (read_number (u # t)))"
| "read_elements 0 s = None"
| "read_elements (Suc n) s = (case read_value n s of None \<Rightarrow> None
     | Some (v, r) \<Rightarrow> read_next 93 v (read_elements n) r)"
| "read_members 0 s = None"
| "read_members (Suc n) s = (case read_key s of None \<Rightarrow> None | Some (k, q) \<Rightarrow>
     (case read_value n q of None \<Rightarrow> None | Some (v, z) \<Rightarrow> read_next 125 (k, v) (read_members n) z))"

text \<open>\<open>JSON.parse\<close>; \<open>None\<close> is a \<open>SyntaxError\<close>.  Two calls for every character are enough.\<close>

definition json_parse :: "js_string \<Rightarrow> json option" where
  "json_parse s = (case read_value (2 * length s + 2) s of None \<Rightarrow> None
     | Some (v, r) \<Rightarrow> if skip_space r = [] then Some v else None)"


section \<open>Numbers are read back\<close>

lemma decimal_nat_simps [simp]: "decimal_nat [] = 0" "decimal_nat [u] = u - 48"
  by (simp_all add: decimal_nat_def)

lemma foldl_digits: "foldl (\<lambda>n u. 10 * n + (u - 48)) a ds = a * 10 ^ length ds + decimal_nat ds"
proof (induction ds arbitrary: a)
  case (Cons u ds)
  from Cons [of "10 * a + (u - 48)"] Cons [of "u - 48"] show ?case
    by (simp add: decimal_nat_def algebra_simps)
qed (simp add: decimal_nat_def)

lemma decimal_nat_append: "decimal_nat (ds @ fs) = decimal_nat ds * 10 ^ length fs + decimal_nat fs"
  using foldl_digits [of "decimal_nat ds" fs] by (simp add: decimal_nat_def)

lemma decimal_nat_zeros [simp]: "decimal_nat (replicate n 48) = 0"
  by (induction n) (simp_all add: decimal_nat_def)

lemma nat_text_value [simp]: "decimal_nat (nat_text n) = n"
proof (induction n rule: nat_text.induct)
  case (1 n)
  then show ?case using nat_text.simps [of n] by (simp add: decimal_nat_append)
qed

lemma nat_text_digit: "u \<in> set (nat_text n) \<Longrightarrow> is_digit u"
proof (induction n rule: nat_text.induct)
  case (1 n)
  then show ?case using nat_text.simps [of n] by (auto simp: is_digit_def split: if_splits)
qed

lemma nat_text_not_Nil [simp]: "nat_text n \<noteq> []"
  by (subst nat_text.simps) simp

lemma nat_text_hd: "hd (nat_text n) = 48 \<longleftrightarrow> n = 0"
proof (induction n rule: nat_text.induct)
  case (1 n)
  then show ?case using nat_text.simps [of n] by (auto simp: hd_append)
qed

lemma nat_text_zero: "nat_text 0 = [48]"
  by (simp add: nat_text.simps)

text \<open>What may follow a value: the end of the text, a comma, or the end of an array or object.\<close>

definition delimited :: "js_string \<Rightarrow> bool" where
  "delimited rest \<longleftrightarrow> rest = [] \<or> hd rest \<in> {44, 93, 125}"

lemma take_digits:
  assumes "\<forall>u\<in>set ds. is_digit u" and "rest = [] \<or> \<not> is_digit (hd rest)"
  shows "takeWhile is_digit (ds @ rest) = ds" "dropWhile is_digit (ds @ rest) = rest"
proof -
  have r: "takeWhile is_digit rest = []" "dropWhile is_digit rest = rest" using assms(2) by (cases rest; simp)+
  have d: "takeWhile is_digit ds = ds" "dropWhile is_digit ds = []" using assms(1) by (simp_all add: takeWhile_eq_all_conv)
  show "takeWhile is_digit (ds @ rest) = ds" "dropWhile is_digit (ds @ rest) = rest"
    using assms(1) r by (simp_all add: takeWhile_append2 dropWhile_append2)
qed

lemma delimited_digit: "delimited rest \<Longrightarrow> rest = [] \<or> \<not> is_digit (hd rest)"
  by (auto simp: delimited_def is_digit_def)

lemma strip_shift: "strip_zeros (m * 10 ^ j) e = strip_zeros m (e + int j)"
proof (induction j arbitrary: e)
  case (Suc j)
  show ?case
  proof (cases "m = 0")
    case False
    have m: "m * 10 ^ Suc j = (m * 10 ^ j) * 10" by simp
    have "strip_zeros (m * 10 ^ Suc j) e = strip_zeros (m * 10 ^ j) (e + 1)"
      unfolding m using False by (subst strip_zeros.simps) simp
    then show ?thesis by (simp add: Suc algebra_simps)
  qed (simp add: strip_zeros.simps)
qed simp

lemma decimal_number_shift: "decimal_number neg (m * 10 ^ j) e = decimal_number neg m (e + int j)"
  by (simp add: decimal_number_def strip_shift)

lemma strip_value: "0 < m \<Longrightarrow> strip_zeros m e = (m', e') \<Longrightarrow> e \<le> e' \<and> m = m' * 10 ^ nat (e' - e)"
proof (induction m e arbitrary: m' e' rule: strip_zeros.induct)
  case (1 m e)
  show ?case
  proof (cases "m mod 10 = 0")
    case True
    then have ten: "m = m div 10 * 10" by presburger
    with 1(2) have "0 < m div 10" by (cases "m div 10") simp_all
    with True 1(2,3) ten have "strip_zeros (m div 10) (e + 1) = (m', e')" "0 < m div 10" "m = m div 10 * 10"
      by (simp_all add: strip_zeros.simps [of m e])
    with 1(1) [OF _ True] 1(2) have "e + 1 \<le> e' \<and> m div 10 = m' * 10 ^ nat (e' - (e + 1))" by auto
    then have "e \<le> e'" "m = m' * (10 * 10 ^ nat (e' - (e + 1)))" using \<open>m = m div 10 * 10\<close> by simp_all
    moreover have "10 * 10 ^ nat (e' - (e + 1)) = (10::nat) ^ nat (e' - e)"
      using \<open>e + 1 \<le> e' \<and> _\<close> by (simp flip: power_Suc add: Suc_nat_eq_nat_zadd1)
    ultimately show ?thesis by simp
  next
    case False
    with 1(2,3) show ?thesis by (simp add: strip_zeros.simps [of m e])
  qed
qed

lemma decimal_number_integer:
  assumes "int m \<le> max_safe_integer"
  shows "decimal_number neg m 0 = Whole (signed neg m)"
proof (cases "m = 0")
  case True
  then show ?thesis by (simp add: decimal_number_def strip_zeros.simps as_safe_integer_def max_safe_integer_def)
next
  case False
  obtain m' e' where d: "strip_zeros m 0 = (m', e')" by (cases "strip_zeros m 0")
  with strip_value [OF _ d] False have e: "0 \<le> e'" and m: "m = m' * 10 ^ nat e'" by auto
  have "int m = int m' * 10 ^ nat e'" by (simp add: m)
  with assms e have "as_safe_integer (m', e') = Some m" by (simp add: as_safe_integer_def m [symmetric])
  then show ?thesis by (simp add: decimal_number_def d Let_def)
qed

text \<open>The numbers a program can hold and JSON can write.\<close>

definition number_ok :: "js_number \<Rightarrow> bool" where
  "number_ok n = (case n of Whole i \<Rightarrow> is_safe_integer i
     | Decimal m e \<Rightarrow> decimal_number (m < 0) (nat \<bar>m\<bar>) e = n | _ \<Rightarrow> False)"

lemma read_exponent_none: "rest = [] \<or> hd rest \<notin> {101, 69} \<Longrightarrow> read_exponent rest = Some (0, rest)"
  by (auto simp: read_exponent_def split: list.split)

lemma read_exponent_some:
  assumes "delimited rest"
  shows "read_exponent (101 # (if x < 0 then 45 else 43) # nat_text (nat \<bar>x\<bar>) @ rest) = Some (x, rest)"
proof -
  have d: "\<forall>u\<in>set (nat_text (nat \<bar>x\<bar>)). is_digit u" using nat_text_digit by blast
  have r: "takeWhile is_digit rest = []" "dropWhile is_digit rest = rest"
    using delimited_digit [OF assms] by (cases rest; simp)+
  show ?thesis using take_digits [OF d delimited_digit [OF assms]] d r by (simp add: read_exponent_def Let_def signed_def)
qed

lemma read_fraction_none: "rest = [] \<or> hd rest \<noteq> 46 \<Longrightarrow> read_fraction rest = Some ([], rest)"
  by (auto simp: read_fraction_def split: list.split)

lemma read_fraction_some:
  assumes "\<forall>u\<in>set fs. is_digit u" and "fs \<noteq> []" and "rest = [] \<or> \<not> is_digit (hd rest)"
  shows "read_fraction (46 # fs @ rest) = Some (fs, rest)"
  using take_digits [OF assms(1,3)] assms(2) by (simp add: read_fraction_def)

text \<open>A text of digits, fraction and exponent, without and with a sign.\<close>

lemma read_unsigned:
  assumes "\<forall>u\<in>set ds. is_digit u" and "ds \<noteq> []" and "hd ds = 48 \<longrightarrow> length ds = 1"
    and "s = [] \<or> \<not> is_digit (hd s)" and "read_fraction s = Some (fs, r)" and "read_exponent r = Some (e, q)"
  shows "read_number ((if neg then [45] else []) @ ds @ s)
    = Some (decimal_number neg (decimal_nat (ds @ fs)) (e - int (length fs)), q)"
proof -
  have h: "hd (ds @ s) \<noteq> 45" using assms(1,2) by (cases ds) (auto simp: is_digit_def)
  note t = take_digits [OF assms(1,4)]
  show ?thesis using h assms(2,3) by (cases neg) (simp_all add: read_number_def Let_def t assms(5,6))
qed

lemma read_decimal_text:
  assumes "0 < m" and "delimited rest"
  shows "read_number ((if neg then [45] else []) @ decimal_text m e @ rest) = Some (decimal_number neg m e, rest)"
proof -
  define ds where "ds = nat_text m"
  define k where "k = int (length ds)"
  define n where "n = k + e"
  have d: "\<forall>u\<in>set ds. is_digit u" "ds \<noteq> []" "hd ds \<noteq> 48" "decimal_nat ds = m"
    using nat_text_digit assms(1) by (auto simp: ds_def nat_text_hd)
  have ld: "0 < length ds" using d(2) by simp
  have z: "is_digit 48" by (simp add: is_digit_def)
  note rest = delimited_digit [OF assms(2)]
  have er: "read_exponent rest = Some (0, rest)" by (rule read_exponent_none) (use assms(2) in \<open>auto simp: delimited_def\<close>)
  have fr: "read_fraction rest = Some ([], rest)" by (rule read_fraction_none) (use assms(2) in \<open>auto simp: delimited_def\<close>)
  have txt_eq: "decimal_text m e = (if k \<le> n \<and> n \<le> 21 then ds @ replicate (nat (n - k)) 48
     else if 0 < n \<and> n \<le> 21 then take (nat n) ds @ 46 # drop (nat n) ds
     else if -6 < n \<and> n \<le> 0 then [48, 46] @ replicate (nat (- n)) 48 @ ds
     else (hd ds # (if tl ds = [] then [] else 46 # tl ds)) @ 101 # (if n - 1 < 0 then 45 else 43)
       # nat_text (nat \<bar>n - 1\<bar>))"
    unfolding decimal_text_def Let_def ds_def [symmetric] k_def [symmetric] n_def [symmetric] by (rule refl)
  consider (a) "k \<le> n" "n \<le> 21" | (b) "0 < n" "n < k" "n \<le> 21" | (c) "-6 < n" "n \<le> 0" | (d) "21 < n \<or> n \<le> -6"
    by linarith
  then show ?thesis
  proof cases
    case a
    then have t: "decimal_text m e = ds @ replicate (nat (n - k)) 48" by (simp add: txt_eq)
    have "read_number ((if neg then [45] else []) @ (ds @ replicate (nat (n - k)) 48) @ rest)
        = Some (decimal_number neg (decimal_nat ((ds @ replicate (nat (n - k)) 48) @ [])) (0 - int (length ([]::js_string))), rest)"
      by (rule read_unsigned [OF _ _ _ rest fr er]) (use d z in auto)
    moreover have "decimal_number neg (m * 10 ^ nat (n - k)) 0 = decimal_number neg m e"
      using a by (simp add: decimal_number_shift n_def)
    ultimately show ?thesis by (simp add: t decimal_nat_append d(4))
  next
    case b
    then have t: "decimal_text m e = take (nat n) ds @ 46 # drop (nat n) ds" by (simp add: txt_eq)
    have "nat n < length ds" "0 < nat n" using b by (simp_all add: k_def)
    then have td: "take (nat n) ds \<noteq> []" "drop (nat n) ds \<noteq> []" "hd (take (nat n) ds) \<noteq> 48" using d by auto
    have f: "read_fraction (46 # drop (nat n) ds @ rest) = Some (drop (nat n) ds, rest)"
      by (rule read_fraction_some [OF _ td(2) rest]) (use d(1) in \<open>auto dest: in_set_dropD\<close>)
    have "read_number ((if neg then [45] else []) @ take (nat n) ds @ (46 # drop (nat n) ds @ rest))
        = Some (decimal_number neg (decimal_nat (take (nat n) ds @ drop (nat n) ds)) (0 - int (length (drop (nat n) ds))), rest)"
      by (rule read_unsigned [OF _ td(1) _ _ f er]) (use d(1) td in \<open>auto simp: is_digit_def dest: in_set_takeD\<close>)
    moreover have "0 - int (length (drop (nat n) ds)) = e" using b by (simp add: k_def n_def)
    ultimately show ?thesis by (simp add: t d(4))
  next
    case c
    moreover have "0 < k" using ld by (simp add: k_def)
    ultimately have t: "decimal_text m e = [48] @ 46 # (replicate (nat (- n)) 48 @ ds)" by (simp add: txt_eq)
    have f: "read_fraction (46 # (replicate (nat (- n)) 48 @ ds) @ rest) = Some (replicate (nat (- n)) 48 @ ds, rest)"
      by (rule read_fraction_some [OF _ _ rest]) (use d z in auto)
    have "read_number ((if neg then [45] else []) @ [48] @ (46 # (replicate (nat (- n)) 48 @ ds) @ rest))
        = Some (decimal_number neg (decimal_nat ([48] @ replicate (nat (- n)) 48 @ ds))
            (0 - int (length (replicate (nat (- n)) 48 @ ds))), rest)"
      by (rule read_unsigned [OF _ _ _ _ f er]) (use z in \<open>auto simp: is_digit_def\<close>)
    moreover have "0 - int (length (replicate (nat (- n)) 48 @ ds)) = e" using c by (simp add: k_def n_def)
    moreover have "decimal_nat ([48] @ replicate (nat (- n)) 48 @ ds) = m" by (simp add: decimal_nat_append d(4) del: append_Cons)
    ultimately show ?thesis by (simp add: t)
  next
    case d': d
    let ?x = "101 # (if n - 1 < 0 then 45 else 43) # nat_text (nat \<bar>n - 1\<bar>)"
    have "0 < k" using ld by (simp add: k_def)
    with d' have "(k \<le> n \<and> n \<le> 21) = False" "(0 < n \<and> n \<le> 21) = False" "(-6 < n \<and> n \<le> 0) = False"
      by auto
    then have t: "decimal_text m e = [hd ds] @ (if tl ds = [] then [] else 46 # tl ds) @ ?x"
      by (simp only: txt_eq if_False) simp
    have x: "read_exponent (?x @ rest) = Some (n - 1, rest)" using read_exponent_some [OF assms(2), of "n - 1"] by simp
    have f: "read_fraction ((if tl ds = [] then [] else 46 # tl ds) @ ?x @ rest) = Some (tl ds, ?x @ rest)"
    proof (cases "tl ds = []")
      case False
      have "read_fraction (46 # tl ds @ (?x @ rest)) = Some (tl ds, ?x @ rest)"
        by (rule read_fraction_some [OF _ False]) (use d(1,2) in \<open>auto simp: is_digit_def dest: list.set_sel(2)\<close>)
      with False show ?thesis by simp
    qed (simp add: read_fraction_none)
    have ds: "[hd ds] @ tl ds = ds" using d(2) by simp
    have "read_number ((if neg then [45] else []) @ [hd ds] @ ((if tl ds = [] then [] else 46 # tl ds) @ ?x @ rest))
        = Some (decimal_number neg (decimal_nat ([hd ds] @ tl ds)) (n - 1 - int (length (tl ds))), rest)"
      by (rule read_unsigned [OF _ _ _ _ f x]) (use d in \<open>auto simp: is_digit_def\<close>)
    moreover have "n - 1 - int (length (tl ds)) = e" using ld by (cases ds) (simp_all add: n_def k_def)
    ultimately show ?thesis by (simp only: t ds d(4) append_assoc)
  qed
qed

lemma read_number_text:
  assumes "number_ok n" and "delimited rest"
  shows "read_number (number_text n @ rest) = Some (n, rest)"
proof (cases n)
  case (Whole i)
  note r = delimited_digit [OF assms(2)]
  have er: "read_exponent rest = Some (0, rest)" by (rule read_exponent_none) (use assms(2) in \<open>auto simp: delimited_def\<close>)
  have fr: "read_fraction rest = Some ([], rest)" by (rule read_fraction_none) (use assms(2) in \<open>auto simp: delimited_def\<close>)
  have "read_number ((if i < 0 then [45] else []) @ nat_text (nat \<bar>i\<bar>) @ rest)
      = Some (decimal_number (i < 0) (decimal_nat (nat_text (nat \<bar>i\<bar>) @ [])) (0 - int (length ([]::js_string))), rest)"
    by (rule read_unsigned [OF _ _ _ r fr er]) (auto simp: nat_text_hd nat_text_zero intro: nat_text_digit)
  moreover have "decimal_number (i < 0) (nat \<bar>i\<bar>) 0 = Whole i"
    using assms(1) by (subst decimal_number_integer) (auto simp: Whole number_ok_def is_safe_integer_def signed_def)
  moreover have "int_text i = (if i < 0 then [45] else []) @ nat_text (nat \<bar>i\<bar>)" by (simp add: int_text_def)
  ultimately show ?thesis by (simp add: Whole number_text_def)
next
  case (Decimal m e)
  have "decimal_number False 0 e = Whole 0"
    by (simp add: decimal_number_def strip_zeros.simps [of 0] as_safe_integer_def max_safe_integer_def signed_def)
  then have "m \<noteq> 0" using assms(1) by (auto simp: Decimal number_ok_def)
  then show ?thesis
    using read_decimal_text [OF _ assms(2), of "nat \<bar>m\<bar>" "m < 0" e] assms(1) by (simp add: Decimal number_text_def number_ok_def)
qed (use assms(1) in \<open>simp_all add: number_ok_def\<close>)

section \<open>Strings and values are read back\<close>

lemma hex_digit_value: "d < 16 \<Longrightarrow> hex_value (hex_digit d) = Some d"
  by (auto simp: hex_digit_def hex_value_def is_digit_def)

lemma hex_unit_digits: "w < 16 \<Longrightarrow> x < 16 \<Longrightarrow> y < 16 \<Longrightarrow> z < 16 \<Longrightarrow>
    hex_unit (hex_digit w) (hex_digit x) (hex_digit y) (hex_digit z) = Some (4096 * w + 256 * x + 16 * y + z)"
  by (simp add: hex_unit_def hex_digit_value)

lemma unicode_escape_value:
  assumes "u < 65536"
  shows "hex_unit (hex_digit (u div 4096 mod 16)) (hex_digit (u div 256 mod 16)) (hex_digit (u div 16 mod 16))
    (hex_digit (u mod 16)) = Some u"
proof -
  define a where "a = u div 16"
  define b where "b = a div 16"
  define c where "c = b div 16"
  have "u div 256 = b" "u div 4096 = c" by (simp_all add: a_def b_def c_def div_mult2_eq [symmetric])
  moreover have "c < 16" using assms by (simp add: a_def b_def c_def div_mult2_eq [symmetric] less_mult_imp_div_less)
  moreover have "u = 16 * a + u mod 16" "a = 16 * b + a mod 16" "b = 16 * c + b mod 16"
    by (simp_all add: a_def b_def c_def)
  ultimately have "4096 * (u div 4096 mod 16) + 256 * (u div 256 mod 16) + 16 * (u div 16 mod 16) + u mod 16 = u"
    by (simp add: a_def [symmetric])
  then show ?thesis by (subst hex_unit_digits) (simp_all only: mod_less_divisor zero_less_numeral)
qed

lemma read_string_plain: "u \<noteq> 34 \<Longrightarrow> 32 \<le> u \<Longrightarrow> u \<noteq> 92 \<Longrightarrow> read_string (u # s) = cons_unit (Some u) (read_string s)"
  by simp

lemma read_escaped_unit: "read_string (escape_unit u @ s) = cons_unit (Some u) (read_string s)"
  using unicode_escape_value [of u]
  by (auto simp: escape_unit_def unicode_escape_def escaped_unit_def is_high_surrogate_def is_low_surrogate_def)

lemma read_escaped_string: "read_string (escape_string s @ 34 # rest) = Some (s, rest)"
proof (induction s rule: escape_string.induct)
  case (3 u v s)
  show ?case
  proof (cases "is_high_surrogate u \<and> is_low_surrogate v")
    case True
    then have "32 \<le> u" "u \<noteq> 34" "u \<noteq> 92" "32 \<le> v" "v \<noteq> 34" "v \<noteq> 92"
      by (auto simp: is_high_surrogate_def is_low_surrogate_def)
    with 3(1) [OF True] True show ?thesis
      by (simp add: read_string_plain cons_unit_def del: read_string.simps)
  qed (use 3(2) in \<open>auto simp: read_escaped_unit cons_unit_def simp del: read_string.simps\<close>)
next
  case (2 u)
  have "read_string (34 # rest) = Some ([], rest)" by simp
  then show ?case by (simp add: read_escaped_unit cons_unit_def del: read_string.simps)
qed simp

lemma read_quoted: "read_string (tl (quote_string s) @ rest) = Some (s, rest)" "quote_string s = 34 # tl (quote_string s)"
  using read_escaped_string [of s rest] by (simp_all add: quote_string_def)

text \<open>Values that JSON can write without loss.\<close>

fun json_ok :: "json \<Rightarrow> bool" where
  "json_ok (JNum n) = number_ok n"
| "json_ok (JArr vs) = (\<forall>v\<in>set vs. json_ok v)"
| "json_ok (JObj ps) = (from_entries ps = ps \<and> (\<forall>p\<in>set ps. json_ok (snd p)))"
| "json_ok _ = True"

lemma json_ok_js_object:
  assumes "distinct (map fst ps)" and "\<forall>p\<in>set ps. \<not> is_array_index (js (fst p)) \<and> json_ok (snd p)"
  shows "json_ok (js_object ps)"
proof -
  have "distinct (map js (map fst ps))" unfolding distinct_map [of js] using assms(1) inj_js by (auto intro: inj_on_subset)
  then show ?thesis using assms(2) by (auto simp: js_object_def comp_def intro!: from_entries_plain)
qed

definition is_space_unit :: "nat \<Rightarrow> bool" where
  "is_space_unit u \<longleftrightarrow> u = 32 \<or> u = 9 \<or> u = 10 \<or> u = 13"

lemma skip_space_simps [simp]: "skip_space [] = []" "\<not> is_space_unit u \<Longrightarrow> skip_space (u # s) = u # s"
  by (simp_all add: skip_space_def is_space_unit_def)

lemma number_text_start:
  assumes "number_ok n"
  obtains u t where "number_text n = u # t" "u = 45 \<or> is_digit u"
proof -
  have nt: "\<exists>u t. nat_text m = u # t \<and> is_digit u" for m
    using nat_text_digit [of _ m] nat_text_not_Nil [of m] by (cases "nat_text m") auto
  have "\<exists>u t. number_text n = u # t \<and> (u = 45 \<or> is_digit u)"
  proof (cases n)
    case (Whole i)
    with nt [of "nat i"] show ?thesis by (auto simp: number_text_def int_text_def)
  next
    case (Decimal m e)
    have z: "is_digit 48" by (simp add: is_digit_def)
    obtain u t where u: "nat_text (nat \<bar>m\<bar>) = u # t" "is_digit u" using nt by blast
    then have "\<exists>v r. decimal_text (nat \<bar>m\<bar>) e = v # r \<and> is_digit v"
      using z by (simp add: decimal_text_def Let_def take_Cons split: nat.split)
    with Decimal show ?thesis by (auto simp: number_text_def)
  qed (use assms in \<open>simp_all add: number_ok_def\<close>)
  with that show thesis by blast
qed

lemma stringify_start:
  assumes "json_ok v"
  obtains u t where "stringify v = u # t" "\<not> is_space_unit u" "u \<noteq> 93" "u \<noteq> 125"
proof (cases v)
  case (JNum n)
  with assms obtain u t where "number_text n = u # t" "u = 45 \<or> is_digit u" by (auto elim: number_text_start)
  with that JNum show thesis by (auto simp: is_space_unit_def is_digit_def)
next
  case (JBool b)
  with that show thesis by (cases b) (auto simp: js_def is_space_unit_def)
qed (use that in \<open>auto simp: js_def is_space_unit_def quote_string_def split: if_splits\<close>)

lemma read_next_close: "\<not> is_space_unit close \<Longrightarrow> read_next close x more (close # rest) = Some ([x], rest)"
  by (simp add: read_next_def)

lemma read_next_comma: "close \<noteq> 44 \<Longrightarrow> more r = Some (xs, q) \<Longrightarrow> read_next close x more (44 # r) = Some (x # xs, q)"
  by (simp add: read_next_def is_space_unit_def skip_space_def)

definition member_text :: "js_string \<times> json \<Rightarrow> js_string" where
  "member_text p = quote_string (fst p) @ [58] @ stringify (snd p)"

lemma join_commas_Cons: "xs \<noteq> [] \<Longrightarrow> join_commas (x # xs) = x @ 44 # join_commas xs"
  by (cases xs) simp_all

lemma read_word_stringify: "read_word w v (js w @ rest) = Some (v, rest)"
  by (simp add: read_word_def)

lemma read_value_stringify:
  "json_ok v \<Longrightarrow> delimited rest \<Longrightarrow> 2 * length (stringify v) < n \<Longrightarrow> read_value n (stringify v @ rest) = Some (v, rest)"
proof (induction v arbitrary: n rest)
  case JNull
  then obtain m where "n = Suc m" by (cases n) auto
  with read_word_stringify [of "''null''" JNull rest] show ?case
    by (simp add: js_def is_space_unit_def)
next
  case (JBool b)
  then obtain m where "n = Suc m" by (cases n) auto
  with read_word_stringify [of "''true''" "JBool True" rest] read_word_stringify [of "''false''" "JBool False" rest]
  show ?case by (cases b) (simp_all add: js_def is_space_unit_def)
next
  case (JNum x)
  obtain m where m: "n = Suc m" using JNum.prems by (cases n) auto
  from JNum.prems obtain u t where u: "number_text x = u # t" "u = 45 \<or> is_digit u" by (auto elim: number_text_start)
  then have c: "\<not> is_space_unit u" "u \<noteq> 34" "u \<noteq> 91" "u \<noteq> 123" "u \<noteq> 110" "u \<noteq> 116" "u \<noteq> 102"
    by (auto simp: is_space_unit_def is_digit_def)
  have "read_number (u # t @ rest) = Some (x, rest)"
    using read_number_text [of x rest] JNum.prems by (simp add: u(1))
  with c show ?case by (simp add: m u(1))
next
  case (JStr s)
  then obtain m where "n = Suc m" by (cases n) auto
  with read_escaped_string [of s rest] show ?case by (simp add: quote_string_def is_space_unit_def)
next
  case (JArr vs)
  have elements: "read_elements k (join_commas (map stringify us) @ 93 # rest) = Some (us, rest)"
    if "us \<noteq> []" "set us \<subseteq> set vs" "2 * length (join_commas (map stringify us)) + 1 < k" for us k
    using that
  proof (induction us arbitrary: k)
    case (Cons u us)
    obtain m where m: "k = Suc m" using Cons.prems by (cases k) auto
    have u: "u \<in> set vs" "json_ok u" using Cons.prems(2) JArr.prems(1) by auto
    show ?case
    proof (cases "us = []")
      case True
      then have "read_value m (stringify u @ 93 # rest) = Some (u, 93 # rest)"
        using JArr.IH [OF u, of "93 # rest" m] Cons.prems(3) by (simp add: m delimited_def)
      with True show ?thesis by (simp add: m read_next_close is_space_unit_def)
    next
      case False
      let ?more = "join_commas (map stringify us) @ 93 # rest"
      have j: "join_commas (stringify u # map stringify us) = stringify u @ 44 # join_commas (map stringify us)"
        using False by (simp add: join_commas_Cons)
      have "read_value m (stringify u @ 44 # ?more) = Some (u, 44 # ?more)"
        using JArr.IH [OF u, of "44 # ?more" m] Cons.prems(3) by (simp add: m delimited_def j)
      moreover have "read_elements m ?more = Some (us, rest)"
        using Cons.IH [OF False, of m] Cons.prems(2,3) by (simp add: m j)
      ultimately show ?thesis by (simp add: m j read_next_comma)
    qed
  qed simp
  obtain m where m: "n = Suc m" using JArr.prems by (cases n) auto
  show ?case
  proof (cases "vs = []")
    case True
    then show ?thesis by (simp add: m is_space_unit_def)
  next
    case False
    then obtain v ws where vs: "vs = v # ws" by (cases vs) auto
    have "json_ok v" using JArr.prems(1) vs by simp
    then obtain u t where u: "stringify v = u # t" "\<not> is_space_unit u" "u \<noteq> 93" by (rule stringify_start)
    have "\<exists>t'. join_commas (map stringify vs) = u # t'" using u(1) by (cases ws) (simp_all add: vs)
    then obtain t' where "join_commas (map stringify vs) = u # t'" ..
    moreover have "read_elements m (join_commas (map stringify vs) @ 93 # rest) = Some (vs, rest)"
      by (rule elements [OF False]) (use JArr.prems(3) in \<open>simp_all add: m\<close>)
    ultimately show ?thesis using u(2,3) by (simp add: m is_space_unit_def)
  qed
next
  case (JObj ps)
  have members: "read_members k (join_commas (map member_text us) @ 125 # rest) = Some (us, rest)"
    if "us \<noteq> []" "set us \<subseteq> set ps" "2 * length (join_commas (map member_text us)) + 1 < k" for us k
    using that
  proof (induction us arbitrary: k)
    case (Cons u us)
    obtain m where m: "k = Suc m" using Cons.prems by (cases k) auto
    have u: "u \<in> set ps" "snd u \<in> Basic_BNFs.snds u" "json_ok (snd u)"
      using Cons.prems(2) JObj.prems(1) by (auto simp: snds.simps prod_eq_iff)
    have key: "read_key (member_text u @ z) = Some (fst u, stringify (snd u) @ z)" for z
      using read_escaped_string [of "fst u" "58 # stringify (snd u) @ z"]
      by (simp add: read_key_def member_text_def quote_string_def is_space_unit_def)
    show ?case
    proof (cases "us = []")
      case True
      then have "read_value m (stringify (snd u) @ 125 # rest) = Some (snd u, 125 # rest)"
        using JObj.IH [OF u, of "125 # rest" m] Cons.prems(3) by (simp add: m delimited_def member_text_def)
      with True show ?thesis by (simp add: m key read_next_close is_space_unit_def)
    next
      case False
      let ?more = "join_commas (map member_text us) @ 125 # rest"
      have j: "join_commas (member_text u # map member_text us) = member_text u @ 44 # join_commas (map member_text us)"
        using False by (simp add: join_commas_Cons)
      have "2 * length (member_text u) < m" using Cons.prems(3) by (simp add: m j)
      then have len: "2 * length (stringify (snd u)) < m" by (simp add: member_text_def)
      have "read_value m (stringify (snd u) @ 44 # ?more) = Some (snd u, 44 # ?more)"
        using JObj.IH [OF u, of "44 # ?more" m] len by (simp add: delimited_def)
      moreover have "read_members m ?more = Some (us, rest)"
        using Cons.IH [OF False, of m] Cons.prems(2,3) by (simp add: m j)
      ultimately show ?thesis by (simp add: m j key read_next_comma)
    qed
  qed simp
  obtain m where m: "n = Suc m" using JObj.prems by (cases n) auto
  have sj: "stringify (JObj ps) = [123] @ join_commas (map member_text ps) @ [125]"
    by (simp add: member_text_def [abs_def])
  show ?case
  proof (cases "ps = []")
    case True
    then show ?thesis by (simp add: m is_space_unit_def)
  next
    case False
    then obtain p ws where p: "ps = p # ws" by (cases ps) auto
    have "\<exists>t'. join_commas (map member_text ps) = 34 # t'"
      by (cases ws) (simp_all add: p member_text_def quote_string_def)
    then obtain t' where "join_commas (map member_text ps) = 34 # t'" ..
    moreover have "read_members m (join_commas (map member_text ps) @ 125 # rest) = Some (ps, rest)"
      by (rule members [OF False]) (use JObj.prems(3) in \<open>simp_all add: m sj del: stringify.simps\<close>)
    ultimately show ?thesis using JObj.prems(1) unfolding m sj by (simp add: is_space_unit_def)
  qed
qed

text \<open>\<open>JSON.parse(JSON.stringify(v))\<close> is \<open>v\<close>.\<close>

theorem parse_stringify:
  assumes "json_ok v"
  shows "json_parse (stringify v) = Some v"
  using read_value_stringify [OF assms, of "[]" "2 * length (stringify v) + 2"] by (simp add: json_parse_def delimited_def)

lemma stringify_inject: "json_ok v \<Longrightarrow> json_ok w \<Longrightarrow> stringify v = stringify w \<Longrightarrow> v = w"
  using parse_stringify by (metis option.inject)


section \<open>The bound on the calls\<close>

lemma skip_space_shorter: "length (skip_space s) \<le> length s"
  by (simp add: skip_space_def length_dropWhile_le)

lemma read_string_shorter: "read_string s = Some (x, r) \<Longrightarrow> length r < length s"
  by (induction s arbitrary: x r rule: read_string.induct)
    (fastforce simp: cons_unit_def split: if_splits list.splits option.splits)+

lemma read_key_shorter: "read_key s = Some (k, q) \<Longrightarrow> length q + 3 \<le> length s"
proof -
  assume a: "read_key s = Some (k, q)"
  then obtain t r where t: "skip_space s = 34 # t" "read_string t = Some (k, r)" "skip_space r = 58 # q"
    by (auto simp: read_key_def split: list.splits if_splits option.splits)
  with skip_space_shorter [of s] skip_space_shorter [of r] read_string_shorter [OF t(2)] show ?thesis by simp
qed

lemma read_fraction_shorter: "read_fraction s = Some (fs, q) \<Longrightarrow> length q \<le> length s"
  by (auto simp: read_fraction_def split: list.splits if_splits intro: le_SucI length_dropWhile_le)

lemma read_exponent_shorter: "read_exponent s = Some (e, q) \<Longrightarrow> length q \<le> length s"
proof (cases s)
  case (Cons u t)
  assume a: "read_exponent s = Some (e, q)"
  have "length (dropWhile is_digit r) \<le> Suc (length t)" if "r = t \<or> r = tl t" for r
    using length_dropWhile_le [of is_digit r] that by auto
  with a show ?thesis by (auto simp: read_exponent_def Let_def Cons split: if_splits)
qed (simp add: read_exponent_def)

lemma read_number_shorter: "read_number s = Some (x, r) \<Longrightarrow> length r < length s"
proof -
  assume a: "read_number s = Some (x, r)"
  define t where "t = (if s \<noteq> [] \<and> hd s = 45 then tl s else s)"
  obtain fs q e where t: "takeWhile is_digit t \<noteq> []" and q: "read_fraction (dropWhile is_digit t) = Some (fs, q)"
    and e: "read_exponent q = Some (e, r)"
    using a by (auto simp: read_number_def t_def [symmetric] Let_def split: if_splits option.splits)
  have "length (takeWhile is_digit t) + length (dropWhile is_digit t) = length t"
    by (metis length_append takeWhile_dropWhile_id)
  then have "length (dropWhile is_digit t) < length t" using t by (cases "takeWhile is_digit t") auto
  moreover have "length q \<le> length (dropWhile is_digit t)"
    using q by (rule read_fraction_shorter)
  moreover have "length r \<le> length q"
    using e by (rule read_exponent_shorter)
  moreover have "length t \<le> length s" by (simp add: t_def)
  ultimately show ?thesis by simp
qed

lemma read_word_shorter: "read_word w v s = Some (x, r) \<Longrightarrow> w \<noteq> [] \<Longrightarrow> s \<noteq> [] \<Longrightarrow> length r < length s"
  by (auto simp: read_word_def split: if_splits)

lemma read_next_shorter:
  assumes "read_next close x more s = Some (xs, r)" and "\<And>t ys q. more t = Some (ys, q) \<Longrightarrow> length q < length t"
  shows "length r < length s"
proof -
  obtain u t where u: "skip_space s = u # t" using assms(1) by (cases "skip_space s") (auto simp: read_next_def)
  with skip_space_shorter [of s] have "length t < length s" by simp
  moreover have "length r \<le> length t"
    using assms(1) by (auto simp: read_next_def u split: if_splits dest: assms(2))
  ultimately show ?thesis by simp
qed

lemma read_shorter:
  "read_value n s = Some (v, r) \<Longrightarrow> length r < length s"
  "read_elements n s = Some (vs, r) \<Longrightarrow> length r < length s"
  "read_members n s = Some (ps, r) \<Longrightarrow> length r < length s"
proof (induction n arbitrary: s v vs ps r)
  case (Suc n)
  {
    case 1
    then obtain u t where u: "skip_space s = u # t" by (cases "skip_space s") auto
    have l: "length t < length s" using skip_space_shorter [of s] u by simp
    have tt: "length (tl (skip_space t)) \<le> length t" using skip_space_shorter [of t] by simp
    from 1 l tt have "length r \<le> length t \<or> length r < length (u # t)"
      by (fastforce simp: u split: if_splits dest: read_string_shorter Suc.IH read_word_shorter read_number_shorter)
    with l show ?case using skip_space_shorter [of s] u by auto
  next
    case 2
    then obtain x q where x: "read_value n s = Some (x, q)" "read_next 93 x (read_elements n) q = Some (vs, r)"
      by (auto split: option.splits)
    from Suc.IH(1) [OF x(1)] read_next_shorter [OF x(2)] Suc.IH(2) show ?case by (meson less_trans)
  next
    case 3
    then obtain k q x z where k: "read_key s = Some (k, q)" and x: "read_value n q = Some (x, z)"
      "read_next 125 (k, x) (read_members n) z = Some (ps, r)" by (auto split: option.splits)
    from read_next_shorter [OF x(2)] Suc.IH(3) have "length r < length z" by blast
    with Suc.IH(1) [OF x(1)] read_key_shorter [OF k] show ?case by simp
  }
qed simp_all

lemma read_next_cong:
  assumes "\<And>t. length t < length s \<Longrightarrow> more t = more' t"
  shows "read_next close x more s = read_next close x more' s"
  using assms skip_space_shorter [of s] by (auto simp: read_next_def split: list.split)

text \<open>A greater bound gives the same: the bound of \<open>json_parse\<close> is never reached.\<close>

lemma read_bound_step:
  "2 * length s < n \<Longrightarrow> read_value (Suc n) s = read_value n s"
  "2 * length s + 1 < n \<Longrightarrow> read_elements (Suc n) s = read_elements n s"
  "2 * length s + 1 < n \<Longrightarrow> read_members (Suc n) s = read_members n s"
proof (induction n arbitrary: s)
  case (Suc n)
  {
    case 1
    have "read_elements (Suc n) t = read_elements n t \<and> read_members (Suc n) t = read_members n t"
      if "skip_space s = u # t" for u t
      using Suc.IH(2,3) [of t] skip_space_shorter [of s] 1 that by simp
    then show ?case
      by (simp only: read_value.simps(2)) (auto split: list.split simp del: read_elements.simps read_members.simps)
  next
    case 2
    have v: "read_value (Suc n) s = read_value n s" using Suc.IH(1) [of s] 2 by simp
    have "read_next 93 x (read_elements (Suc n)) r = read_next 93 x (read_elements n) r" if "read_value n s = Some (x, r)" for x r
      by (rule read_next_cong, rule Suc.IH(2)) (use read_shorter(1) [OF that] 2 in simp)
    then show ?case
      by (simp only: read_elements.simps(2) [of "Suc n"] read_elements.simps(2) [of n] v) (simp split: option.split del: read_elements.simps)
  next
    case 3
    show ?case
    proof (cases "read_key s")
      case (Some kq)
      then obtain k q where k: "read_key s = Some (k, q)" by (cases kq) auto
      note l = read_key_shorter [OF k]
      have v: "read_value (Suc n) q = read_value n q" using Suc.IH(1) [of q] l 3 by simp
      have "read_next 125 (k, x) (read_members (Suc n)) z = read_next 125 (k, x) (read_members n) z"
        if "read_value n q = Some (x, z)" for x z
        by (rule read_next_cong, rule Suc.IH(3)) (use read_shorter(1) [OF that] l 3 in simp)
      then show ?thesis
        by (simp only: read_members.simps(2) [of "Suc n"] read_members.simps(2) [of n] k v option.case prod.case)
          (simp split: option.split del: read_members.simps)
    qed simp
  }
qed simp_all

lemma read_bound_enough: "2 * length s < n \<Longrightarrow> n \<le> m \<Longrightarrow> read_value m s = read_value n s"
proof (induction m)
  case (Suc m)
  then show ?case using read_bound_step(1) [of s m] by (cases "n = Suc m") simp_all
qed simp

end
