(* ===== verification/Workflow_Schema.thy ===== *)
theory Workflow_Schema
  imports Json_Text Run_Values "HOL-Library.Multiset"
begin

text \<open>
  The schemas of workflow values: \<open>workflow-schema.ts\<close>, which parses the bounded subset of JSON schema the
  execution of workflows accepts, and \<open>workflow-schema-value.ts\<close>, which validates a value against a parsed
  schema.
\<close>

section \<open>Strings\<close>

definition utf8_bytes :: "nat \<Rightarrow> nat list" where
  "utf8_bytes c = (if c < 128 then [c] else if c < 2048 then [192 + c div 64, 128 + c mod 64]
     else if c < 65536 then [224 + c div 4096, 128 + c div 64 mod 64, 128 + c mod 64]
     else [240 + c div 262144, 128 + c div 4096 mod 64, 128 + c div 64 mod 64, 128 + c mod 64])"

definition unit_bytes :: "nat \<Rightarrow> nat list" where
  "unit_bytes u = utf8_bytes (if is_high_surrogate u \<or> is_low_surrogate u then 65533 else u)"

text \<open>\<open>new TextEncoder().encode(s)\<close>\<close>

fun utf8_encode :: "js_string \<Rightarrow> nat list" where
  "utf8_encode [] = []"
| "utf8_encode [u] = unit_bytes u"
| "utf8_encode (u # v # s) =
     (if is_high_surrogate u \<and> is_low_surrogate v
      then utf8_bytes (65536 + (u - 55296) * 1024 + (v - 56320)) @ utf8_encode s
      else unit_bytes u @ utf8_encode (v # s))"

text \<open>\<open>xs.sort(compareUtf8)\<close>: the bytes are compared as lists, \<open>sort\<close> is stable.\<close>

definition sort_utf8 :: "js_string list \<Rightarrow> js_string list" where
  "sort_utf8 xs = sort_key utf8_encode xs"

definition is_property_tail :: "nat \<Rightarrow> bool" where
  "is_property_tail u \<longleftrightarrow> is_alnum u \<or> u = 95 \<or> u = 46 \<or> u = 45"

definition validPropertyName :: "js_string \<Rightarrow> bool" where
  "validPropertyName s \<longleftrightarrow> utf8_length s \<le> 128 \<and> (case s of [] \<Rightarrow> False
     | u # t \<Rightarrow> (is_upper u \<or> is_lower u \<or> u = 95) \<and> list_all is_property_tail t)"

section \<open>Schemas\<close>

datatype wf_schema =
    StringSchema int "js_string list option"
  | NumberSchema bool "js_number option" "js_number option"
  | BooleanSchema
  | ArraySchema wf_schema int
  | ObjectSchema "(js_string \<times> wf_schema) list" "js_string list"

definition number_or_null :: "js_number option \<Rightarrow> json" where
  "number_or_null n = (case n of None \<Rightarrow> JNull | Some x \<Rightarrow> JNum x)"

definition string_list :: "js_string list \<Rightarrow> json" where
  "string_list xs = JArr (map JStr xs)"

text \<open>A schema as the object the code keeps.\<close>

fun schema_value :: "wf_schema \<Rightarrow> json" where
  "schema_value (StringSchema n e) = JObj [(js ''type'', JStr (js ''string'')), (js ''maxLength'', JNum (Whole n)),
     (js ''enum'', (case e of None \<Rightarrow> JNull | Some xs \<Rightarrow> string_list xs))]"
| "schema_value (NumberSchema i lo hi) = JObj [(js ''type'', JStr (js (if i then ''integer'' else ''number''))),
     (js ''minimum'', number_or_null lo), (js ''maximum'', number_or_null hi)]"
| "schema_value BooleanSchema = JObj [(js ''type'', JStr (js ''boolean''))]"
| "schema_value (ArraySchema s n) = JObj [(js ''type'', JStr (js ''array'')), (js ''items'', schema_value s),
     (js ''maxItems'', JNum (Whole n))]"
| "schema_value (ObjectSchema ps req) = JObj [(js ''type'', JStr (js ''object'')),
     (js ''properties'', JObj (map (\<lambda>p. (fst p, schema_value (snd p))) ps)),
     (js ''required'', string_list req), (js ''additionalProperties'', JBool False)]"

text \<open>\<open>sortJson\<close>, with the order of names its two versions use, and \<open>canonicalJson\<close>.\<close>

fun sort_json :: "(js_string \<Rightarrow> nat list) \<Rightarrow> json \<Rightarrow> json" where
  "sort_json key (JArr vs) = JArr (map (sort_json key) vs)"
| "sort_json key (JObj ps) =
     JObj (from_entries (sort_key (key \<circ> fst) (map (\<lambda>p. (fst p, sort_json key (snd p))) ps)))"
| "sort_json key v = v"

definition canonical_json :: "(js_string \<Rightarrow> nat list) \<Rightarrow> json \<Rightarrow> js_string" where
  "canonical_json key v = stringify (sort_json key v)"

section \<open>Parsing a schema\<close>

definition wf_error :: "string \<Rightarrow> 'a res" where
  "wf_error code = Inl (WorkflowVersionError code)"

definition wf_throw_if :: "bool \<Rightarrow> string \<Rightarrow> check" where
  "wf_throw_if b code = throw_if b (WorkflowVersionError code)"

lemma wf_throw_if_None [simp]: "wf_throw_if b code = None \<longleftrightarrow> \<not> b"
  by (simp add: wf_throw_if_def)

lemma wf_error_Inr [simp]: "wf_error code \<noteq> Inr x"
  by (simp add: wf_error_def)

fun map_res :: "('a \<Rightarrow> 'b res) \<Rightarrow> 'a list \<Rightarrow> 'b list res" where
  "map_res f [] = Inr []"
| "map_res f (x # xs) = then_do (f x) (\<lambda>y. then_do (map_res f xs) (\<lambda>ys. Inr (y # ys)))"

lemma map_res_cong [fundef_cong]:
  "xs = ys \<Longrightarrow> (\<And>x. x \<in> set ys \<Longrightarrow> f x = g x) \<Longrightarrow> map_res f xs = map_res g ys"
  by (induction xs arbitrary: ys) auto

lemma map_res_Inr: "map_res f xs = Inr ys \<longleftrightarrow> list_all2 (\<lambda>x y. f x = Inr y) xs ys"
  by (induction xs arbitrary: ys) (auto simp: list_all2_Cons1)

definition type_is :: "json \<Rightarrow> string \<Rightarrow> bool" where
  "type_is v t \<longleftrightarrow> get_prop v ''type'' = Some (JStr (js t))"

definition wf_positive_integer :: "json \<Rightarrow> int \<Rightarrow> string \<Rightarrow> int res" where
  "wf_positive_integer v maximum code = (case safe_integer_value (Some v) of None \<Rightarrow> wf_error code
     | Some i \<Rightarrow> if i < 1 \<or> maximum < i then wf_error code else Inr i)"

definition optionalFiniteNumber :: "json \<Rightarrow> bool \<Rightarrow> string \<Rightarrow> js_number option res" where
  "optionalFiniteNumber v integer code = (case v of JNull \<Rightarrow> Inr None
     | JNum n \<Rightarrow> if \<not> is_finite_number n \<or> integer \<and> safe_integer_value (Some v) = None then wf_error code else Inr (Some n)
     | _ \<Rightarrow> wf_error code)"

definition schema_require_text :: "json \<Rightarrow> int \<Rightarrow> string \<Rightarrow> js_string res" where
  "schema_require_text v maxBytes code = (case v of
     JStr s \<Rightarrow> if \<not> isWellFormedUnicode s \<or> is_blank s \<or> maxBytes < int (utf8_length s) \<or> list_ex is_control_or_delete s
       then wf_error code else Inr s
   | _ \<Rightarrow> wf_error code)"

definition parse_enum :: "json \<Rightarrow> int \<Rightarrow> string \<Rightarrow> js_string list option res" where
  "parse_enum v maxLength code = (case v of JNull \<Rightarrow> Inr None
     | JArr vs \<Rightarrow> if vs = [] \<or> 64 < length vs then wf_error code
         else then_do (map_res (\<lambda>x. schema_require_text x maxLength code) vs) (\<lambda>xs.
           let enumValues = sort_utf8 (remdups xs) in
           if length enumValues \<noteq> length vs then wf_error code else Inr (Some enumValues))
     | _ \<Rightarrow> wf_error code)"

definition property_name :: "string \<Rightarrow> json \<Rightarrow> js_string res" where
  "property_name code v = (case v of JStr s \<Rightarrow> if validPropertyName s then Inr s else wf_error code | _ \<Rightarrow> wf_error code)"

definition parsePropertyNames :: "json \<Rightarrow> string \<Rightarrow> js_string list res" where
  "parsePropertyNames v code = (case v of
     JArr vs \<Rightarrow> if 64 < length vs then wf_error code
       else then_do (map_res (property_name code) vs) (\<lambda>names.
         if length (remdups names) \<noteq> length names then wf_error code else Inr (sort_utf8 names))
   | _ \<Rightarrow> wf_error code)"

definition parse_string_schema :: "json \<Rightarrow> string \<Rightarrow> wf_schema res" where
  "parse_string_schema v code = guarded [wf_throw_if (\<not> has_exact_keys v [''enum'', ''maxLength'', ''type'']) code]
     (then_do (wf_positive_integer (prop_of v ''maxLength'') 9999 code) (\<lambda>maxLength.
      then_do (parse_enum (prop_of v ''enum'') maxLength code) (\<lambda>e. Inr (StringSchema maxLength e))))"

definition parse_number_schema :: "json \<Rightarrow> bool \<Rightarrow> string \<Rightarrow> wf_schema res" where
  "parse_number_schema v integer code = guarded [wf_throw_if (\<not> has_exact_keys v [''maximum'', ''minimum'', ''type'']) code]
     (then_do (optionalFiniteNumber (prop_of v ''minimum'') integer code) (\<lambda>lo.
      then_do (optionalFiniteNumber (prop_of v ''maximum'') integer code) (\<lambda>hi.
        if (case (lo, hi) of (Some a, Some b) \<Rightarrow> \<not> number_le a b | _ \<Rightarrow> False) then wf_error code
        else Inr (NumberSchema integer lo hi))))"

definition own_entries :: "json \<Rightarrow> (js_string \<times> json) list" where
  "own_entries v = (case v of JObj ps \<Rightarrow> ps | _ \<Rightarrow> [])"

text \<open>The entries of \<open>properties\<close> in the order of their names, with the tests on the names.\<close>

definition property_entries :: "json \<Rightarrow> string \<Rightarrow> (js_string \<times> json) list res" where
  "property_entries v code = (let entries = sort_key (utf8_encode \<circ> fst) (own_entries v) in
     if \<not> is_plain_object v \<or> 64 < length entries \<or> list_ex (\<lambda>p. \<not> validPropertyName (fst p)) entries
     then wf_error code else Inr entries)"

definition object_schema_checks :: "json \<Rightarrow> string \<Rightarrow> check list" where
  "object_schema_checks v code =
     [wf_throw_if (\<not> has_exact_keys v [''additionalProperties'', ''properties'', ''required'', ''type'']) code,
      wf_throw_if (get_prop v ''additionalProperties'' \<noteq> Some (JBool False)) code]"

definition finish_object_schema :: "json \<Rightarrow> string \<Rightarrow> (js_string \<times> wf_schema) list \<times> nat \<Rightarrow> (wf_schema \<times> nat) res" where
  "finish_object_schema v code r = then_do (parsePropertyNames (prop_of v ''required'') code) (\<lambda>req.
     if list_ex (\<lambda>k. k \<notin> fst ` set (fst r)) req then wf_error code
     else Inr (ObjectSchema (from_entries (fst r)) req, snd r))"

text \<open>\<open>nodes\<close> is the counter of the tracker; it is returned with the schema.\<close>

function (sequential) parse_schema :: "string \<Rightarrow> nat \<Rightarrow> nat \<Rightarrow> json \<Rightarrow> (wf_schema \<times> nat) res"
  and parse_properties :: "string \<Rightarrow> nat \<Rightarrow> nat \<Rightarrow> (js_string \<times> json) list \<Rightarrow> ((js_string \<times> wf_schema) list \<times> nat) res" where
  "parse_schema code depth nodes v =
     (if 16 < depth \<or> 4096 < nodes + 1 \<or> \<not> is_plain_object v then wf_error code
      else if type_is v ''string'' then then_do (parse_string_schema v code) (\<lambda>s. Inr (s, nodes + 1))
      else if type_is v ''number'' then then_do (parse_number_schema v False code) (\<lambda>s. Inr (s, nodes + 1))
      else if type_is v ''integer'' then then_do (parse_number_schema v True code) (\<lambda>s. Inr (s, nodes + 1))
      else if type_is v ''boolean'' then guarded [wf_throw_if (\<not> has_exact_keys v [''type'']) code] (Inr (BooleanSchema, nodes + 1))
      else if type_is v ''array'' then
        guarded [wf_throw_if (\<not> has_exact_keys v [''items'', ''maxItems'', ''type'']) code]
          (then_do (parse_schema code (depth + 1) (nodes + 1) (prop_of v ''items'')) (\<lambda>(s, n).
           then_do (wf_positive_integer (prop_of v ''maxItems'') 1024 code) (\<lambda>maxItems. Inr (ArraySchema s maxItems, n))))
      else if \<not> type_is v ''object'' then wf_error code
      else guarded (object_schema_checks v code)
        (case property_entries (prop_of v ''properties'') code of Inl e \<Rightarrow> Inl e
         | Inr entries \<Rightarrow> then_do (parse_properties code (depth + 1) (nodes + 1) entries) (finish_object_schema v code)))"
| "parse_properties code depth nodes [] = Inr ([], nodes)"
| "parse_properties code depth nodes (p # ps) = then_do (parse_schema code depth nodes (snd p)) (\<lambda>(s, n).
     then_do (parse_properties code depth n ps) (\<lambda>(ss, m). Inr ((fst p, s) # ss, m)))"
  by pat_completeness auto
termination
  by (relation "inv_image (less_than <*lex*> less_than) (\<lambda>x. case x of
      Inl (_, depth, _, _) \<Rightarrow> (17 - depth, 0) | Inr (_, depth, _, ps) \<Rightarrow> (17 - depth, Suc (length ps)))") auto

declare parse_schema.simps [simp del] parse_properties.simps(2) [simp del]

definition is_object_schema :: "wf_schema \<Rightarrow> bool" where
  "is_object_schema s = (case s of ObjectSchema _ _ \<Rightarrow> True | _ \<Rightarrow> False)"

definition parseWorkflowObjectSchema :: "json \<Rightarrow> string \<Rightarrow> wf_schema res" where
  "parseWorkflowObjectSchema v code = then_do (parse_schema code 1 0 v) (\<lambda>(s, _). guarded
     [wf_throw_if (\<not> is_object_schema s \<or> 64 * 1024 < utf8_length (canonical_json utf8_encode (schema_value s))) code]
     (Inr s))"

section \<open>Validating a value\<close>

definition mismatch :: "'a res" where
  "mismatch = wf_error ''workflow_value_schema_mismatch''"

definition number_fits :: "js_number \<Rightarrow> bool \<Rightarrow> js_number option \<Rightarrow> js_number option \<Rightarrow> bool" where
  "number_fits n integer lo hi \<longleftrightarrow> is_finite_number n \<and> (integer \<longrightarrow> safe_integer_value (Some (JNum n)) \<noteq> None)
     \<and> (case lo of None \<Rightarrow> True | Some a \<Rightarrow> number_le a n) \<and> (case hi of None \<Rightarrow> True | Some b \<Rightarrow> number_le n b)"

definition string_fits :: "js_string \<Rightarrow> int \<Rightarrow> js_string list option \<Rightarrow> bool" where
  "string_fits s maxLength e \<longleftrightarrow> isWellFormedUnicode s \<and> int (utf8_length s) \<le> maxLength
     \<and> (case e of None \<Rightarrow> True | Some xs \<Rightarrow> s \<in> set xs)"

fun validate_value :: "json \<Rightarrow> wf_schema \<Rightarrow> json res" where
  "validate_value v (StringSchema maxLength e) = (case v of
     JStr s \<Rightarrow> if string_fits s maxLength e then Inr v else mismatch | _ \<Rightarrow> mismatch)"
| "validate_value v (NumberSchema integer lo hi) = (case v of
     JNum n \<Rightarrow> if number_fits n integer lo hi then Inr v else mismatch | _ \<Rightarrow> mismatch)"
| "validate_value v BooleanSchema = (case v of JBool _ \<Rightarrow> Inr v | _ \<Rightarrow> mismatch)"
| "validate_value v (ArraySchema items maxItems) = (case v of
     JArr vs \<Rightarrow> if maxItems < int (length vs) then mismatch
       else then_do (map_res (\<lambda>x. validate_value x items) vs) (\<lambda>ws. Inr (JArr ws))
   | _ \<Rightarrow> mismatch)"
| "validate_value v (ObjectSchema properties required) = (case v of
     JObj ps \<Rightarrow> if list_ex (\<lambda>k. k \<notin> fst ` set ps) required \<or> list_ex (\<lambda>p. map_of properties (fst p) = None) ps
       then mismatch
       else then_do (map_res (\<lambda>p. case map_of properties (fst p) of None \<Rightarrow> mismatch
            | Some s \<Rightarrow> then_do (validate_value (snd p) s) (\<lambda>w. Inr (fst p, w))) ps) (\<lambda>qs. Inr (JObj (from_entries qs)))
   | _ \<Rightarrow> mismatch)"

definition validateWorkflowSchemaValue :: "json \<Rightarrow> wf_schema \<Rightarrow> json res" where
  "validateWorkflowSchemaValue v s = validate_value v s"


section \<open>Objects and their order\<close>

lemma put_entry_distinct: "distinct (map fst ps) \<Longrightarrow> distinct (map fst (put_entry ps e)) \<and> fst ` set (put_entry ps e) = insert (fst e) (fst ` set ps)"
  by (induction ps) force+

lemma property_order_mset [simp]: "mset (property_order ps) = mset ps"
proof -
  have "mset (filter P ps) + mset (filter (\<lambda>p. \<not> P p) ps) = mset ps" for P by (induction ps) auto
  from this [of "\<lambda>p. is_array_index (fst p)"] show ?thesis by (simp add: property_order_def comp_def)
qed

lemma mset_distinct: "mset ps = mset qs \<Longrightarrow> distinct (map fst ps) \<longleftrightarrow> distinct (map fst qs)"
  by (metis mset_map mset_eq_imp_distinct_iff)

lemma property_order_distinct: "distinct (map fst (property_order ps)) \<longleftrightarrow> distinct (map fst ps)"
  by (rule mset_distinct) simp

lemma from_entries_mset: "distinct (map fst ps) \<Longrightarrow> mset (from_entries ps) = mset ps"
  by (simp add: from_entries_order)

lemma from_entries_set: "distinct (map fst ps) \<Longrightarrow> set (from_entries ps) = set ps"
  by (metis from_entries_mset set_mset_mset)

lemma from_entries_keys: "distinct (map fst (from_entries ps))"
proof -
  have "distinct (map fst (foldl put_entry qs ps))" if "distinct (map fst qs)" for qs :: "(js_string \<times> 'a) list"
    using that by (induction ps arbitrary: qs) (simp_all add: put_entry_distinct)
  from this [of "[]"] show ?thesis by (simp add: from_entries_def property_order_distinct)
qed

lemma property_order_idem: "property_order (property_order ps) = property_order ps"
proof -
  let ?i = "\<lambda>p. is_array_index (fst p)"
  let ?s = "sort_key (decimal_nat \<circ> fst) (filter ?i ps)"
  have "filter ?i (property_order ps) = ?s" "filter (\<lambda>p. \<not> ?i p) (property_order ps) = filter (\<lambda>p. \<not> ?i p) ps"
    by (auto simp: property_order_def comp_def filter_id_conv filter_empty_conv)
  moreover have "sort_key (decimal_nat \<circ> fst) ?s = ?s" by (rule sort_key_id_if_sorted) simp
  ultimately show ?thesis by (simp add: property_order_def comp_def)
qed

lemma from_entries_idem: "distinct (map fst ps) \<Longrightarrow> from_entries (from_entries ps) = from_entries ps"
  by (simp add: from_entries_order property_order_distinct property_order_idem)

lemma sort_key_map_values: "sort_key (f \<circ> fst) (map (\<lambda>p. (fst p, g (snd p))) xs)
    = map (\<lambda>p. (fst p, g (snd p))) (sort_key (f \<circ> fst) xs)"
proof -
  have "insort_key (f \<circ> fst) (fst x, g (snd x)) (map (\<lambda>p. (fst p, g (snd p))) ys)
      = map (\<lambda>p. (fst p, g (snd p))) (insort_key (f \<circ> fst) x ys)" for x ys
    by (induction ys) simp_all
  then show ?thesis by (induction xs) simp_all
qed

lemma from_entries_map:
  assumes "distinct (map fst ps)"
  shows "from_entries (map (\<lambda>p. (fst p, f (snd p))) ps) = map (\<lambda>p. (fst p, f (snd p))) (from_entries ps)"
proof -
  have "distinct (map fst (map (\<lambda>p. (fst p, f (snd p))) ps))" using assms by (simp add: comp_def)
  moreover have m: "filter (\<lambda>p. Q (fst p)) (map (\<lambda>p. (fst p, f (snd p))) ps)
      = map (\<lambda>p. (fst p, f (snd p))) (filter (\<lambda>p. Q (fst p)) ps)" for Q by (simp add: filter_map comp_def)
  ultimately show ?thesis
    using assms m [of is_array_index] m [of "\<lambda>k. \<not> is_array_index k"]
      sort_key_map_values [of decimal_nat f "filter (\<lambda>p. is_array_index (fst p)) ps"]
    by (simp add: from_entries_order property_order_def comp_def)
qed

lemma map_of_mset: "distinct (map fst ps) \<Longrightarrow> mset ps = mset qs \<Longrightarrow> map_of ps = map_of qs"
  by (metis map_of_inject_set mset_distinct set_mset_mset)

section \<open>Canonical values\<close>

text \<open>Values with proper numbers, whose objects have no name twice.\<close>

fun plain_ok :: "json \<Rightarrow> bool" where
  "plain_ok (JNum n) = number_ok n"
| "plain_ok (JArr vs) = (\<forall>v\<in>set vs. plain_ok v)"
| "plain_ok (JObj ps) = (distinct (map fst ps) \<and> (\<forall>p\<in>set ps. plain_ok (snd p)))"
| "plain_ok _ = True"

lemma plain_ok_js_object: "plain_ok (js_object ps) \<longleftrightarrow> distinct (map fst ps) \<and> (\<forall>p\<in>set ps. plain_ok (snd p))"
proof -
  have "map (\<lambda>p. js (fst p)) ps = map js (map fst ps)" by simp
  then have "distinct (map (\<lambda>p. js (fst p)) ps) = distinct (map fst ps)"
    using inj_on_subset [OF inj_js] by (simp only: distinct_map) auto
  then show ?thesis by (auto simp: js_object_def comp_def)
qed

lemma json_ok_plain: "json_ok v \<Longrightarrow> plain_ok v"
proof (induction v)
  case (JObj ps)
  have "distinct (map fst ps)" using from_entries_keys [of ps] JObj.prems by simp
  then show ?case using JObj by (fastforce simp: snds.simps)
qed auto

definition sorted_entries :: "(js_string \<Rightarrow> nat list) \<Rightarrow> (js_string \<times> json) list \<Rightarrow> (js_string \<times> json) list" where
  "sorted_entries key ps = sort_key (key \<circ> fst) (map (\<lambda>p. (fst p, sort_json key (snd p))) ps)"

lemma sort_json_JObj: "sort_json key (JObj ps) = JObj (from_entries (sorted_entries key ps))"
  by (simp add: sorted_entries_def)

declare sort_json.simps(2) [simp del]
declare sort_json_JObj [simp]

lemma sorted_entries_mset: "mset (sorted_entries key ps) = mset (map (\<lambda>p. (fst p, sort_json key (snd p))) ps)"
  by (simp add: sorted_entries_def)

lemma sorted_entries_distinct [simp]: "distinct (map fst (sorted_entries key ps)) \<longleftrightarrow> distinct (map fst ps)"
  using mset_distinct [OF sorted_entries_mset [of key ps]] by (simp add: comp_def)

lemma sorted_entries_set: "set (sorted_entries key ps) = (\<lambda>p. (fst p, sort_json key (snd p))) ` set ps"
  by (metis sorted_entries_mset set_mset_mset set_map)

lemma entries_mset: "distinct (map fst ps) \<Longrightarrow>
    mset (from_entries (sorted_entries key ps)) = mset (map (\<lambda>p. (fst p, sort_json key (snd p))) ps)"
  using from_entries_mset [of "sorted_entries key ps"] by (simp add: sorted_entries_mset)

lemma sort_json_ok: "plain_ok v \<Longrightarrow> json_ok (sort_json key v)"
proof (induction v)
  case (JObj ps)
  then have "from_entries (from_entries (sorted_entries key ps)) = from_entries (sorted_entries key ps)"
    by (simp add: from_entries_idem)
  moreover have "set (from_entries (sorted_entries key ps)) = (\<lambda>p. (fst p, sort_json key (snd p))) ` set ps"
    using JObj.prems by (simp add: from_entries_set sorted_entries_set)
  ultimately show ?case using JObj by (fastforce simp: snds.simps)
qed auto

lemma is_plain_object_sort_json [simp]: "is_plain_object (sort_json key v) = is_plain_object v"
  by (cases v) (simp_all add: is_plain_object_def)

lemma get_prop_sort_json: "plain_ok v \<Longrightarrow> get_prop (sort_json key v) k = map_option (sort_json key) (get_prop v k)"
proof (cases v)
  case (JObj ps)
  assume "plain_ok v"
  with JObj have d: "distinct (map fst ps)" by simp
  have "map_of (from_entries (sorted_entries key ps)) = map_of (map (\<lambda>p. (fst p, sort_json key (snd p))) ps)"
    by (rule map_of_mset [OF _ entries_mset [OF d]]) (rule from_entries_keys)
  also have "\<dots> = map_option (sort_json key) \<circ> map_of ps" by (rule ext, induction ps) auto
  finally show ?thesis by (simp add: JObj get_prop_def)
qed (simp_all add: get_prop_def)

lemma own_keys_sort_json: "plain_ok v \<Longrightarrow> mset (own_keys (sort_json key v)) = mset (own_keys v)"
proof (cases v)
  case (JObj ps)
  assume "plain_ok v"
  with JObj have "distinct (map fst ps)" by simp
  from arg_cong [OF entries_mset [OF this, of key], of "image_mset fst"]
  show ?thesis by (simp add: JObj own_keys_def comp_def multiset.map_comp)
qed (simp_all add: own_keys_def)

lemma has_exact_keys_sort_json: "plain_ok v \<Longrightarrow> has_exact_keys (sort_json key v) ks = has_exact_keys v ks"
  using sort_key_eq_sort_key [OF own_keys_sort_json, of v "\<lambda>x. x" key] by (simp add: has_exact_keys_def)

lemma plain_ok_prop: "plain_ok v \<Longrightarrow> get_prop v k = Some x \<Longrightarrow> plain_ok x"
  by (cases v) (auto simp: get_prop_def dest!: map_of_SomeD)

lemma prop_of_sort_json: "plain_ok v \<Longrightarrow> prop_of (sort_json key v) k = sort_json key (prop_of v k)"
  by (simp add: prop_of_def get_prop_sort_json split: option.split)

lemma plain_ok_prop_of: "plain_ok v \<Longrightarrow> plain_ok (prop_of v k)"
  by (simp add: prop_of_def plain_ok_prop split: option.split)

lemma plain_ok_sort_json: "plain_ok v \<Longrightarrow> plain_ok (sort_json key v)"
  using json_ok_plain sort_json_ok by blast

lemma sort_json_string_list [simp]: "sort_json key (string_list xs) = string_list xs"
  by (simp add: string_list_def comp_def)

text \<open>With the order of code units, sorting twice is sorting once.\<close>

definition code_units :: "js_string \<Rightarrow> nat list" where
  "code_units s = s"

lemma sort_json_idem: "plain_ok v \<Longrightarrow> sort_json code_units (sort_json code_units v) = sort_json code_units v"
proof (induction v)
  case (JObj ps)
  then have d: "distinct (map fst ps)" by simp
  let ?es = "sorted_entries code_units ps"
  have same: "map (\<lambda>p. (fst p, sort_json code_units (snd p))) (from_entries ?es) = from_entries ?es"
  proof (rule map_idI)
    fix p assume "p \<in> set (from_entries ?es)"
    then obtain q where "q \<in> set ps" "p = (fst q, sort_json code_units (snd q))"
      using d by (auto simp: from_entries_set sorted_entries_set)
    then show "(fst p, sort_json code_units (snd p)) = p" using JObj by (auto simp: snds.simps prod_eq_iff)
  qed
  have "inj_on (code_units \<circ> fst) (set (from_entries ?es))"
    using from_entries_keys [of ?es] by (simp add: distinct_map comp_def code_units_def)
  then have "sort_key (code_units \<circ> fst) (from_entries ?es) = sort_key (code_units \<circ> fst) ?es"
    using d by (intro sort_key_eq_sort_key from_entries_mset) simp_all
  also have "\<dots> = ?es" by (rule sort_key_id_if_sorted) (simp add: sorted_entries_def)
  finally show ?case by (simp add: sorted_entries_def [of code_units "from_entries ?es"] same)
qed simp_all

section \<open>A parsed schema is parsed to itself\<close>

lemma utf8_ascii: "list_all (\<lambda>u. u < 128) s \<Longrightarrow> utf8_encode s = s"
proof (induction s rule: utf8_encode.induct)
  case (3 u v s)
  then have "\<not> is_high_surrogate u" "utf8_encode (v # s) = v # s" by (simp_all add: is_high_surrogate_def)
  with 3(3) show ?case by (simp add: unit_bytes_def utf8_bytes_def is_high_surrogate_def is_low_surrogate_def)
qed (simp_all add: unit_bytes_def utf8_bytes_def is_high_surrogate_def is_low_surrogate_def)

lemma property_name_ascii: "validPropertyName s \<Longrightarrow> list_all (\<lambda>u. u < 128) s"
  by (auto simp: validPropertyName_def is_property_tail_def is_alnum_def is_digit_def is_upper_def is_lower_def
      list_all_iff split: list.splits)

lemma property_name_encode: "validPropertyName s \<Longrightarrow> utf8_encode s = s"
  by (rule utf8_ascii, rule property_name_ascii)

lemma property_name_no_index: "validPropertyName s \<Longrightarrow> \<not> is_array_index s"
  by (cases s) (auto simp: validPropertyName_def is_array_index_def is_digit_def is_upper_def is_lower_def)

lemma encode_inj: "\<forall>k\<in>K. validPropertyName k \<Longrightarrow> inj_on utf8_encode K"
  by (auto simp: inj_on_def property_name_encode)

lemma sort_utf8_idem [simp]: "sort_utf8 (sort_utf8 xs) = sort_utf8 xs"
  unfolding sort_utf8_def by (rule sort_key_id_if_sorted) simp

lemma sort_utf8_set [simp]: "set (sort_utf8 xs) = set xs" "length (sort_utf8 xs) = length xs" "distinct (sort_utf8 xs) = distinct xs"
  by (simp_all add: sort_utf8_def)

lemma remdups_length_distinct: "length (remdups xs) = length xs \<longleftrightarrow> distinct xs"
  by (metis distinct_remdups length_remdups_card_conv card_distinct distinct_card)

lemma map_res_JStr: "(\<And>x. x \<in> set xs \<Longrightarrow> f (JStr x) = Inr x) \<Longrightarrow> map_res f (map JStr xs) = Inr xs"
  by (induction xs) simp_all

lemma property_name_Inr: "property_name code v = Inr s \<longleftrightarrow> v = JStr s \<and> validPropertyName s"
  by (auto simp: property_name_def split: json.splits)

lemma require_text_Inr: "schema_require_text v n code = Inr s \<longleftrightarrow> v = JStr s \<and> isWellFormedUnicode s \<and> \<not> is_blank s
    \<and> int (utf8_length s) \<le> n \<and> \<not> list_ex is_control_or_delete s"
  by (auto simp: schema_require_text_def not_less split: json.splits)

lemma property_names_parsed:
  assumes "parsePropertyNames v code = Inr names"
  shows "parsePropertyNames (string_list names) code = Inr names \<and> distinct names \<and> (\<forall>s\<in>set names. validPropertyName s)"
proof -
  from assms obtain vs xs where vs: "v = JArr vs" "length vs \<le> 64" "map_res (property_name code) vs = Inr xs" "distinct xs"
    "names = sort_utf8 xs"
    by (auto simp: parsePropertyNames_def remdups_length_distinct split: json.splits if_splits)
  then have ok: "length xs = length vs" "\<forall>s\<in>set xs. validPropertyName s"
    by (auto simp: map_res_Inr property_name_Inr list_all2_conv_all_nth in_set_conv_nth)
  have "map_res (property_name code) (map JStr names) = Inr names"
    by (rule map_res_JStr) (use ok vs(5) in \<open>simp add: property_name_Inr\<close>)
  with ok vs show ?thesis by (simp add: parsePropertyNames_def string_list_def remdups_length_distinct)
qed

lemma enum_parsed:
  assumes "parse_enum v n code = Inr e"
  shows "parse_enum (case e of None \<Rightarrow> JNull | Some xs \<Rightarrow> string_list xs) n code = Inr e"
proof (cases e)
  case None
  then show ?thesis by (simp add: parse_enum_def)
next
  case (Some names)
  with assms obtain vs xs where vs: "v = JArr vs" "vs \<noteq> []" "length vs \<le> 64"
    "map_res (\<lambda>x. schema_require_text x n code) vs = Inr xs" "length (remdups xs) = length vs" "names = sort_utf8 (remdups xs)"
    by (auto simp: parse_enum_def Let_def split: json.splits if_splits)
  then have ok: "\<forall>s\<in>set xs. schema_require_text (JStr s) n code = Inr s"
    by (auto simp: map_res_Inr require_text_Inr list_all2_conv_all_nth in_set_conv_nth)
  have "map_res (\<lambda>x. schema_require_text x n code) (map JStr names) = Inr names"
    by (rule map_res_JStr) (use ok vs(6) in simp)
  moreover have l: "length names = length vs" using vs(5,6) by simp
  moreover have "names \<noteq> []" using l vs(2) by auto
  moreover have "remdups names = names" using vs(6) by (simp add: distinct_remdups_id)
  moreover have "sort_utf8 names = names" using vs(6) by simp
  ultimately show ?thesis using vs(3) by (simp add: Some parse_enum_def string_list_def distinct_remdups_id)
qed

lemma optional_number_parsed:
  "optionalFiniteNumber v i code = Inr n \<Longrightarrow> optionalFiniteNumber (number_or_null n) i code = Inr n \<and> v = number_or_null n"
  by (auto simp: optionalFiniteNumber_def number_or_null_def split: json.splits if_splits)

lemma positive_integer_parsed: "wf_positive_integer v b code = Inr i \<Longrightarrow>
    wf_positive_integer (JNum (Whole i)) b code = Inr i \<and> is_safe_integer i"
  by (auto simp: wf_positive_integer_def safe_integer_value_def split: json.splits js_number.splits option.splits if_splits)

lemma schema_value_plain [simp]: "is_plain_object (schema_value s)"
  by (cases s) (simp_all add: is_plain_object_def)

text \<open>The keys and properties of a schema's object, whatever their order.\<close>

lemma schema_object_props:
  assumes "v = JObj ps" and "distinct (map fst ps)" and "plain_ok v"
  shows "get_prop (sort_json key v) k = map_option (sort_json key) (map_of ps (js k))"
    "is_plain_object (sort_json key v)" "has_exact_keys (sort_json key v) ks = has_exact_keys v ks"
  using assms get_prop_sort_json [OF assms(3), of key k] has_exact_keys_sort_json [OF assms(3)]
  by (simp_all add: get_prop_def is_plain_object_def)

lemma sort_json_case [simp]: "sort_json key (case e of None \<Rightarrow> JNull | Some xs \<Rightarrow> string_list xs)
    = (case e of None \<Rightarrow> JNull | Some xs \<Rightarrow> string_list xs)" "sort_json key (number_or_null n) = number_or_null n"
  by (simp_all add: number_or_null_def split: option.split)

lemma plain_ok_string_list [simp]: "plain_ok (string_list xs)" "plain_ok (case e of None \<Rightarrow> JNull | Some ys \<Rightarrow> string_list ys)"
  by (auto simp: string_list_def split: option.split)

lemma parse_string_canonical:
  assumes "parse_string_schema v code = Inr s"
  shows "plain_ok (schema_value s) \<and> parse_schema code d n (sort_json key (schema_value s))
    = (if 16 < d \<or> 4096 < n + 1 then wf_error code else Inr (s, n + 1))"
proof -
  from assms obtain m e where m: "wf_positive_integer (prop_of v ''maxLength'') 9999 code = Inr m"
    and e: "parse_enum (prop_of v ''enum'') m code = Inr e" and s: "s = StringSchema m e"
    by (auto simp: parse_string_schema_def)
  note p = positive_integer_parsed [OF m]
  have ok: "plain_ok (schema_value s)" using p by (simp add: s number_ok_def)
  note o = schema_object_props [OF schema_value.simps(1) _ ok [unfolded s], of key, folded s]
  have k: "has_exact_keys (schema_value s) [''enum'', ''maxLength'', ''type'']"
    by (simp add: s has_exact_keys_def own_keys_def js_def)
  show ?thesis using ok k p enum_parsed [OF e]
    by (simp add: parse_schema.simps [of code d n "sort_json key (schema_value s)"] o type_is_def parse_string_schema_def
        prop_of_def guarded_pass) (simp add: s)
qed

lemma parse_number_intro:
  assumes "has_exact_keys v [''maximum'', ''minimum'', ''type'']" and "optionalFiniteNumber (prop_of v ''minimum'') i code = Inr lo"
    and "optionalFiniteNumber (prop_of v ''maximum'') i code = Inr hi"
    and "\<not> (case (lo, hi) of (Some a, Some b) \<Rightarrow> \<not> number_le a b | _ \<Rightarrow> False)"
  shows "parse_number_schema v i code = Inr (NumberSchema i lo hi)"
  using assms by (simp add: parse_number_schema_def guarded_pass del: then_do_Inr)

lemma parse_number_canonical:
  assumes "parse_number_schema v i code = Inr s" and "plain_ok v"
  shows "plain_ok (schema_value s) \<and> parse_schema code d n (sort_json key (schema_value s))
    = (if 16 < d \<or> 4096 < n + 1 then wf_error code else Inr (s, n + 1))"
proof -
  from assms obtain lo hi where lo: "optionalFiniteNumber (prop_of v ''minimum'') i code = Inr lo"
    and hi: "optionalFiniteNumber (prop_of v ''maximum'') i code = Inr hi" and s: "s = NumberSchema i lo hi"
    and le: "\<not> (case (lo, hi) of (Some a, Some b) \<Rightarrow> \<not> number_le a b | _ \<Rightarrow> False)"
    by (auto simp: parse_number_schema_def split: if_splits)
  note p = optional_number_parsed [OF lo] optional_number_parsed [OF hi]
  have "plain_ok (number_or_null lo)" "plain_ok (number_or_null hi)"
    using p plain_ok_prop_of [OF assms(2)] by metis+
  then have ok: "plain_ok (schema_value s)" by (simp add: s)
  note o = schema_object_props [OF schema_value.simps(2) _ ok [unfolded s], of key, folded s]
  have k: "has_exact_keys (schema_value s) [''maximum'', ''minimum'', ''type'']"
    by (simp add: s has_exact_keys_def own_keys_def js_def)
  have "parse_number_schema (sort_json key (schema_value s)) i code = Inr (NumberSchema i lo hi)"
    by (rule parse_number_intro) (use k p le in \<open>simp_all add: o prop_of_def\<close>)
  then show ?thesis using ok
    by (simp add: parse_schema.simps [of code d n "sort_json key (schema_value s)"] o type_is_def)
      (cases i; simp add: s)
qed

definition canonical_entries :: "(js_string \<Rightarrow> nat list) \<Rightarrow> (js_string \<times> wf_schema) list \<Rightarrow> (js_string \<times> json) list" where
  "canonical_entries key ss = map (\<lambda>p. (fst p, sort_json key (schema_value (snd p)))) ss"

lemma property_entries_canonical:
  assumes "distinct (map fst ss)" and "\<forall>k\<in>fst ` set ss. validPropertyName k" and "sorted (map (utf8_encode \<circ> fst) ss)"
    and "length ss \<le> 64"
  shows "property_entries (sort_json key (JObj (map (\<lambda>p. (fst p, schema_value (snd p))) ss))) code
    = Inr (canonical_entries key ss)"
proof -
  let ?ps = "map (\<lambda>p. (fst p, schema_value (snd p))) ss"
  let ?es = "from_entries (sorted_entries key ?ps)"
  have d: "distinct (map fst ?ps)" using assms(1) by (simp add: comp_def)
  have m: "mset ?es = mset (canonical_entries key ss)" using entries_mset [OF d, of key] by (simp add: canonical_entries_def comp_def)
  have "fst ` set ?es = fst ` set ss"
    using m by (metis (no_types, lifting) canonical_entries_def image_set list.map_comp set_mset_mset fst_conv comp_apply map_eq_conv)
  then have names: "\<forall>k\<in>fst ` set ?es. validPropertyName k" using assms(2) by simp
  have "inj_on (utf8_encode \<circ> fst) (set ?es)"
    using from_entries_keys [of "sorted_entries key ?ps"] encode_inj [OF names] by (simp add: comp_inj_on distinct_map)
  moreover have "sorted (map (utf8_encode \<circ> fst) (canonical_entries key ss))"
    using assms(3) by (simp add: canonical_entries_def comp_def)
  ultimately have "sort_key (utf8_encode \<circ> fst) ?es = canonical_entries key ss" by (intro sort_key_inj_key_eq m)
  then show ?thesis
    using assms(2,4) by (auto simp: property_entries_def own_entries_def is_plain_object_def list_ex_iff canonical_entries_def)
qed

lemma property_entries_Inr:
  assumes "property_entries v code = Inr es" and "plain_ok v"
  shows "distinct (map fst es)" "\<forall>k\<in>fst ` set es. validPropertyName k" "sorted (map (utf8_encode \<circ> fst) es)"
    "length es \<le> 64" "\<forall>p\<in>set es. plain_ok (snd p)"
proof -
  from assms(1) obtain ps where ps: "v = JObj ps" "es = sort_key (utf8_encode \<circ> fst) ps" "length es \<le> 64"
    "\<forall>p\<in>set es. validPropertyName (fst p)"
    by (cases v) (auto simp: property_entries_def Let_def own_entries_def is_plain_object_def list_ex_iff split: if_splits)
  have "mset es = mset ps" by (simp add: ps(2))
  then show "distinct (map fst es)" using assms(2) mset_distinct [of es ps] by (simp add: ps(1))
  show "sorted (map (utf8_encode \<circ> fst) es)" by (simp add: ps(2))
  show "\<forall>p\<in>set es. plain_ok (snd p)" using assms(2) ps(1,2) by simp
  show "\<forall>k\<in>fst ` set es. validPropertyName k" "length es \<le> 64" using ps(3,4) by simp_all
qed

lemma finish_object_Inr: "finish_object_schema v code r = Inr (s, m) \<longleftrightarrow> (\<exists>req.
    parsePropertyNames (prop_of v ''required'') code = Inr req \<and> set req \<subseteq> fst ` set (fst r)
    \<and> s = ObjectSchema (from_entries (fst r)) req \<and> m = snd r)"
  by (auto simp: finish_object_schema_def list_ex_iff split: if_splits)

lemma parse_canonical:
  "parse_schema code d n v = Inr (s, m) \<Longrightarrow> plain_ok v \<Longrightarrow>
    plain_ok (schema_value s) \<and> parse_schema code d n (sort_json key (schema_value s)) = Inr (s, m)"
  "parse_properties code d n ps = Inr (ss, m) \<Longrightarrow> \<forall>p\<in>set ps. plain_ok (snd p) \<Longrightarrow>
    map fst ss = map fst ps \<and> (\<forall>p\<in>set ss. plain_ok (schema_value (snd p)))
    \<and> parse_properties code d n (canonical_entries key ss) = Inr (ss, m)"
proof (induction code d n v and code d n ps arbitrary: s m and ss m rule: parse_schema_parse_properties.induct)
  case (1 code d n v)
  note parse = 1(3) [unfolded parse_schema.simps [of code d n v]]
  note ok = 1(4)
  have b: "\<not> (16 < d \<or> 4096 < n + 1 \<or> \<not> is_plain_object v)" using parse by (auto split: if_splits)
  then have lim: "\<not> (16 < d \<or> 4096 < n + 1)" by simp
  note parse = parse [unfolded if_not_P [OF b]]
  consider (string) "type_is v ''string''" | (number) "type_is v ''number''" | (integer) "type_is v ''integer''"
    | (boolean) "type_is v ''boolean''" | (arr) "type_is v ''array''" | (object) "type_is v ''object''"
    using parse by (auto split: if_splits)
  then show ?case
  proof cases
    case string
    then show ?thesis using parse parse_string_canonical [of v code s d n key] lim by auto
  next
    case number
    then have "\<not> type_is v ''string''" by (auto simp: type_is_def)
    then show ?thesis using number parse parse_number_canonical [of v False code s d n key] lim ok by auto
  next
    case integer
    then have "\<not> type_is v ''string''" "\<not> type_is v ''number''" by (auto simp: type_is_def)
    then show ?thesis using integer parse parse_number_canonical [of v True code s d n key] lim ok by auto
  next
    case boolean
    then have "\<not> type_is v ''string''" "\<not> type_is v ''number''" "\<not> type_is v ''integer''" by (auto simp: type_is_def)
    then have s: "s = BooleanSchema" "m = n + 1" using boolean parse by auto
    have ok: "plain_ok (schema_value s)" by (simp add: s)
    note o = schema_object_props [OF schema_value.simps(3) _ ok [unfolded s(1)], of key, folded s(1)]
    have "has_exact_keys (schema_value s) [''type'']" by (simp add: s has_exact_keys_def own_keys_def)
    then show ?thesis using lim ok
      by (simp add: parse_schema.simps [of code d n "sort_json key (schema_value s)"] o type_is_def guarded_pass) (simp add: s)
  next
    case arr
    then have t: "\<not> type_is v ''string''" "\<not> type_is v ''number''" "\<not> type_is v ''integer''" "\<not> type_is v ''boolean''"
      by (auto simp: type_is_def)
    with arr parse obtain a k where a: "parse_schema code (d + 1) (n + 1) (prop_of v ''items'') = Inr (a, m)"
      and k: "wf_positive_integer (prop_of v ''maxItems'') 1024 code = Inr k" and s: "s = ArraySchema a k"
      by auto
    from 1(1) [OF b t arr a plain_ok_prop_of [OF ok]] have ih: "plain_ok (schema_value a)"
      "parse_schema code (d + 1) (n + 1) (sort_json key (schema_value a)) = Inr (a, m)" by simp_all
    note p = positive_integer_parsed [OF k]
    have ok: "plain_ok (schema_value s)" using p ih by (simp add: s number_ok_def)
    note o = schema_object_props [OF schema_value.simps(4) _ ok [unfolded s], of key, folded s]
    have keys: "has_exact_keys (schema_value s) [''items'', ''maxItems'', ''type'']"
      by (simp add: s has_exact_keys_def own_keys_def js_def)
    show ?thesis using lim ok keys ih(2) p
      by (simp add: parse_schema.simps [of code d n "sort_json key (schema_value s)"] o type_is_def guarded_pass prop_of_def)
        (simp add: s)
  next
    case object
    then have t: "\<not> type_is v ''string''" "\<not> type_is v ''number''" "\<not> type_is v ''integer''" "\<not> type_is v ''boolean''"
      "\<not> type_is v ''array''" "\<not> \<not> type_is v ''object''" by (auto simp: type_is_def)
    with parse obtain es ss req where es: "property_entries (prop_of v ''properties'') code = Inr es"
      and ss: "parse_properties code (d + 1) (n + 1) es = Inr (ss, m)"
      and req: "parsePropertyNames (prop_of v ''required'') code = Inr req" "set req \<subseteq> fst ` set ss"
      and s': "s = ObjectSchema (from_entries ss) req"
      by (auto simp: finish_object_Inr split: sum.splits)
    note e = property_entries_Inr [OF es plain_ok_prop_of [OF ok]]
    from 1(2) [OF b t es ss e(5)] have ih: "map fst ss = map fst es" "\<forall>p\<in>set ss. plain_ok (schema_value (snd p))"
      "parse_properties code (d + 1) (n + 1) (canonical_entries key ss) = Inr (ss, m)" by simp_all
    have names: "distinct (map fst ss)" "\<forall>k\<in>fst ` set ss. validPropertyName k" "sorted (map (utf8_encode \<circ> fst) ss)" "length ss \<le> 64"
      using e ih(1) by (simp, metis list.set_map, metis map_map, metis length_map)
    have s: "s = ObjectSchema ss req"
      using s' from_entries_plain [OF names(1)] names(2) property_name_no_index by auto
    have ok: "plain_ok (schema_value s)" using ih(2) names(1) by (simp add: s comp_def)
    note o = schema_object_props [OF schema_value.simps(5) _ ok [unfolded s], of key, folded s]
    have keys: "has_exact_keys (schema_value s) [''additionalProperties'', ''properties'', ''required'', ''type'']"
      by (simp add: s has_exact_keys_def own_keys_def js_def)
    have entries: "property_entries (prop_of (sort_json key (schema_value s)) ''properties'') code = Inr (canonical_entries key ss)"
      using property_entries_canonical [OF names, of key code] by (simp add: prop_of_def o)
    have "parsePropertyNames (prop_of (sort_json key (schema_value s)) ''required'') code = Inr req"
      using property_names_parsed [OF req(1)] by (simp add: prop_of_def o)
    then have "finish_object_schema (sort_json key (schema_value s)) code (ss, m) = Inr (s, m)"
      unfolding finish_object_Inr using req(2) s' by auto
    then show ?thesis using lim ok keys ih(3) entries
      by (simp add: parse_schema.simps [of code d n "sort_json key (schema_value s)"] o type_is_def guarded_pass
          object_schema_checks_def)
  qed
next
  case (3 code d n p ps)
  from 3(3) obtain s k ts where s: "parse_schema code d n (snd p) = Inr (s, k)"
    and ts: "parse_properties code d k ps = Inr (ts, m)" and ss: "ss = (fst p, s) # ts"
    by (auto simp: parse_properties.simps(2))
  from 3(1) [OF s] 3(2) [OF ts] s ts 3(4) ss show ?case
    by (auto simp: canonical_entries_def parse_properties.simps(2))
qed (simp add: canonical_entries_def)

lemma object_schema_parsed:
  assumes "parseWorkflowObjectSchema v code = Inr s" and "plain_ok v"
  shows "plain_ok (schema_value s)" "is_object_schema s"
    "parseWorkflowObjectSchema (sort_json key (schema_value s)) code = Inr s"
  using assms parse_canonical(1) [of code 1 0 v s _ key]
  by (auto simp: parseWorkflowObjectSchema_def guarded_pass)

lemma parsed_property_names:
  assumes "parse_schema code d n v = Inr (ObjectSchema ps req, m)" and "plain_ok v"
  shows "\<forall>k\<in>fst ` set ps. validPropertyName k"
proof -
  have b: "\<not> (16 < d \<or> 4096 < n + 1 \<or> \<not> is_plain_object v)" using assms(1) by (auto simp: parse_schema.simps split: if_splits)
  note parse = assms(1) [unfolded parse_schema.simps [of code d n v] if_not_P [OF b]]
  from parse obtain es ss where es: "property_entries (prop_of v ''properties'') code = Inr es"
    and ss: "parse_properties code (d + 1) (n + 1) es = Inr (ss, m)" and ps: "ps = from_entries ss"
    by (auto simp: finish_object_Inr parse_string_schema_def parse_number_schema_def split: sum.splits if_splits)
  note e = property_entries_Inr [OF es plain_ok_prop_of [OF assms(2)]]
  have f: "map fst ss = map fst es" using parse_canonical(2) [OF ss e(5)] by blast
  then have "set (from_entries ss) = set ss" using e(1) by (intro from_entries_set) simp
  then have "fst ` set ps = fst ` set es" using f ps by (metis list.set_map)
  then show ?thesis using e(2) by simp
qed

section \<open>Schemas with the same canonical form\<close>

lemma map_of_sorted_entries:
  assumes "distinct (map fst ps)"
  shows "map_of (from_entries (sorted_entries key ps)) = map_option (sort_json key) \<circ> map_of ps"
proof -
  have "map_of (from_entries (sorted_entries key ps)) = map_of (map (\<lambda>p. (fst p, sort_json key (snd p))) ps)"
    by (rule map_of_mset [OF _ entries_mset [OF assms]]) (rule from_entries_keys)
  also have "\<dots> = map_option (sort_json key) \<circ> map_of ps" by (rule ext, induction ps) auto
  finally show ?thesis .
qed

lemma same_canonical_json:
  assumes "canonical_json key v = canonical_json key w" and "plain_ok v" and "plain_ok w"
  shows "sort_json key v = sort_json key w"
  using assms stringify_inject sort_json_ok unfolding canonical_json_def by blast

lemma string_list_eq [simp]: "string_list xs = string_list ys \<longleftrightarrow> xs = ys"
proof -
  have "map JStr xs = map JStr ys \<longleftrightarrow> xs = ys" by (rule inj_map_eq_map) (simp add: inj_def)
  then show ?thesis by (simp add: string_list_def)
qed

lemma optional_values_eq [simp]: "number_or_null n = number_or_null m \<longleftrightarrow> n = m"
  "(case e of None \<Rightarrow> JNull | Some xs \<Rightarrow> string_list xs) = (case f of None \<Rightarrow> JNull | Some xs \<Rightarrow> string_list xs) \<longleftrightarrow> e = f"
  by (auto simp: number_or_null_def string_list_def inj_map_eq_map inj_def split: option.splits)

text \<open>A value is validated alike against two schemas with the same canonical form.\<close>

lemma validate_same:
  assumes "sort_json key (schema_value s) = sort_json key (schema_value t)" and "plain_ok (schema_value s)"
    and "plain_ok (schema_value t)"
  shows "validate_value v s = validate_value v t"
  using assms
proof (induction s arbitrary: t v)
  case (StringSchema n e)
  have g: "map_option (sort_json key) (get_prop (schema_value (StringSchema n e)) k) = map_option (sort_json key) (get_prop (schema_value t) k)" for k
    using StringSchema.prems by (metis get_prop_sort_json)
  have "t = StringSchema n e"
    using g [of "''type''"] g [of "''maxLength''"] g [of "''enum''"] by (cases t) (auto simp: get_prop_def split: if_splits)
  then show ?case by simp
next
  case (NumberSchema i lo hi)
  have g: "map_option (sort_json key) (get_prop (schema_value (NumberSchema i lo hi)) k) = map_option (sort_json key) (get_prop (schema_value t) k)" for k
    using NumberSchema.prems by (metis get_prop_sort_json)
  have "t = NumberSchema i lo hi"
    using g [of "''type''"] g [of "''minimum''"] g [of "''maximum''"] by (cases t) (auto simp: get_prop_def split: if_splits)
  then show ?case by simp
next
  case BooleanSchema
  have g: "map_option (sort_json key) (get_prop (schema_value BooleanSchema) k) = map_option (sort_json key) (get_prop (schema_value t) k)" for k
    using BooleanSchema.prems by (metis get_prop_sort_json)
  have "t = BooleanSchema" using g [of "''type''"] by (cases t) (auto simp: get_prop_def split: if_splits)
  then show ?case by simp
next
  case (ArraySchema a n)
  have g: "map_option (sort_json key) (get_prop (schema_value (ArraySchema a n)) k) = map_option (sort_json key) (get_prop (schema_value t) k)" for k
    using ArraySchema.prems by (metis get_prop_sort_json)
  obtain b where b: "t = ArraySchema b n" "sort_json key (schema_value a) = sort_json key (schema_value b)"
    using g [of "''type''"] g [of "''maxItems''"] g [of "''items''"] by (cases t) (auto simp: get_prop_def split: if_splits)
  have "validate_value x a = validate_value x b" for x
    by (rule ArraySchema.IH [OF b(2)]) (use ArraySchema.prems b(1) in simp_all)
  then show ?case by (simp add: b(1) split: json.split)
next
  case (ObjectSchema ps req)
  have g: "map_option (sort_json key) (get_prop (schema_value (ObjectSchema ps req)) k) = map_option (sort_json key) (get_prop (schema_value t) k)" for k
    using ObjectSchema.prems by (metis get_prop_sort_json)
  obtain qs where t: "t = ObjectSchema qs req" and
    props: "sort_json key (JObj (map (\<lambda>p. (fst p, schema_value (snd p))) ps)) = sort_json key (JObj (map (\<lambda>p. (fst p, schema_value (snd p))) qs))"
    using g [of "''type''"] g [of "''required''"] g [of "''properties''"] by (cases t) (auto simp: get_prop_def split: if_splits)
  have d: "distinct (map fst (map (\<lambda>p. (fst p, schema_value (snd p))) ps))" "distinct (map fst (map (\<lambda>p. (fst p, schema_value (snd p))) qs))"
    using ObjectSchema.prems(2,3) t by simp_all
  have mo: "map_of (map (\<lambda>p. (fst p, schema_value (snd p))) us) k = map_option schema_value (map_of us k)" for us k
    by (induction us) auto
  have same: "map_option (\<lambda>s. sort_json key (schema_value s)) (map_of ps k) = map_option (\<lambda>s. sort_json key (schema_value s)) (map_of qs k)" for k
    using props map_of_sorted_entries [OF d(1), of key] map_of_sorted_entries [OF d(2), of key]
    by (simp add: fun_eq_iff mo option.map_comp comp_def)
  have cases: "map_of ps k = None \<and> map_of qs k = None
      \<or> (\<exists>a b. map_of ps k = Some a \<and> map_of qs k = Some b \<and> (\<forall>x. validate_value x a = validate_value x b))" for k
  proof (cases "map_of ps k")
    case None
    then show ?thesis using same [of k] by simp
  next
    case (Some a)
    with same [of k] obtain b where b: "map_of qs k = Some b" "sort_json key (schema_value a) = sort_json key (schema_value b)"
      by (cases "map_of qs k") auto
    have m: "(k, a) \<in> set ps" "(k, b) \<in> set qs" using Some b(1) by (simp_all add: map_of_SomeD)
    then have "plain_ok (schema_value a)" "plain_ok (schema_value b)" using ObjectSchema.prems(2,3) t by force+
    then have "validate_value x a = validate_value x b" for x
      using ObjectSchema.IH [OF m(1), of a b x] b(2) by (simp add: snds.simps)
    then show ?thesis using Some b(1) by blast
  qed
  have none: "map_of ps k = None \<longleftrightarrow> map_of qs k = None" for k using cases [of k] by auto
  have some: "(case map_of ps k of None \<Rightarrow> mismatch | Some s \<Rightarrow> then_do (validate_value x s) f)
      = (case map_of qs k of None \<Rightarrow> mismatch | Some s \<Rightarrow> then_do (validate_value x s) f)" for k x f
    using cases [of k] by auto
  show ?case by (simp add: t none some split: json.split)
qed

end
