(* ===== verification/Workflow_Flow.thy ===== *)
theory Workflow_Flow
  imports Workflow_Schema
begin

text \<open>
  The flow of values along a workflow, \<open>workflow-value-flow.ts\<close>: the schema a node's input has by its
  dependencies, and the value composed from what they returned.  A node, \<open>WorkflowNodeDefinition\<close> of
  \<open>workflow-version.ts\<close>, is declared here because the flow uses it.
\<close>

section \<open>Nodes\<close>

datatype node_kind = AgentKind js_string | HumanGateKind js_string | VerificationKind js_string

record wf_node =
  wd_nodeId :: js_string
  wd_title :: js_string
  wd_instruction :: js_string
  wd_dependsOn :: "js_string list"
  wd_inputSchema :: wf_schema
  wd_outputSchema :: wf_schema
  wd_kind :: node_kind

section \<open>Schemas along the edges\<close>

definition requireNode :: "wf_node list \<Rightarrow> js_string \<Rightarrow> wf_node res" where
  "requireNode nodes nodeId = (case find (\<lambda>n. wd_nodeId n = nodeId) nodes of
     None \<Rightarrow> wf_error ''workflow_value_flow_node_not_found'' | Some n \<Rightarrow> Inr n)"

definition source_schema :: "wf_node list \<Rightarrow> js_string \<Rightarrow> (js_string \<times> wf_schema) res" where
  "source_schema nodes nodeId = then_do (requireNode nodes nodeId) (\<lambda>n. Inr (nodeId, wd_outputSchema n))"

definition derivedSchema :: "js_string list \<Rightarrow> wf_schema option \<Rightarrow> wf_node list \<Rightarrow> wf_schema res" where
  "derivedSchema ids emptySchema nodes = (case ids of
     [] \<Rightarrow> (case emptySchema of None \<Rightarrow> wf_error ''workflow_value_flow_invalid'' | Some s \<Rightarrow> Inr s)
   | [i] \<Rightarrow> then_do (requireNode nodes i) (\<lambda>n. Inr (wd_outputSchema n))
   | _ \<Rightarrow> then_do (map_res (source_schema nodes) ids) (\<lambda>ps. Inr (ObjectSchema (from_entries ps) ids)))"

definition workflowNodeInputSchema :: "wf_schema \<Rightarrow> wf_node list \<Rightarrow> js_string \<Rightarrow> wf_schema res" where
  "workflowNodeInputSchema inputSchema nodes nodeId = then_do (requireNode nodes nodeId) (\<lambda>n.
     derivedSchema (wd_dependsOn n) (Some inputSchema) nodes)"

definition workflowOutputSchema :: "wf_node list \<Rightarrow> js_string list \<Rightarrow> wf_schema res" where
  "workflowOutputSchema nodes outputNodeIds = derivedSchema outputNodeIds None nodes"

section \<open>Values along the edges\<close>

text \<open>A list of outputs is a list of pairs \<open>(nodeId, value)\<close>; the empty value may be \<open>null\<close>.\<close>

definition composeValue :: "js_string list \<Rightarrow> json \<Rightarrow> (js_string \<times> json) list \<Rightarrow> json res" where
  "composeValue ids emptyValue outputs =
     (if ids = [] then (if emptyValue = JNull then wf_error ''workflow_value_flow_invalid'' else Inr emptyValue)
      else if length outputs \<noteq> length ids \<or> list_ex (\<lambda>(x, i). fst x \<noteq> i) (zip outputs ids)
      then wf_error ''workflow_value_flow_output_mismatch''
      else (case outputs of [x] \<Rightarrow> Inr (snd x) | _ \<Rightarrow> Inr (JObj (from_entries outputs))))"

definition composeWorkflowNodeInput :: "wf_node list \<Rightarrow> js_string \<Rightarrow> json \<Rightarrow> (js_string \<times> json) list \<Rightarrow> json res" where
  "composeWorkflowNodeInput nodes nodeId rootInput dependencyOutputs = then_do (requireNode nodes nodeId) (\<lambda>n.
     composeValue (wd_dependsOn n) rootInput dependencyOutputs)"

definition composeWorkflowOutput :: "js_string list \<Rightarrow> (js_string \<times> json) list \<Rightarrow> json res" where
  "composeWorkflowOutput outputNodeIds outputValues = composeValue outputNodeIds JNull outputValues"

section \<open>Composed values have the derived schema\<close>

definition accepts :: "wf_schema \<Rightarrow> json \<Rightarrow> bool" where
  "accepts s v \<longleftrightarrow> (\<exists>w. validateWorkflowSchemaValue v s = Inr w)"

lemma accepts_value: "accepts s v \<longleftrightarrow> (\<exists>w. validate_value v s = Inr w)"
  by (simp add: accepts_def validateWorkflowSchemaValue_def)

lemma map_res_total: "(\<And>x. x \<in> set xs \<Longrightarrow> \<exists>y. f x = Inr y) \<Longrightarrow> \<exists>ys. map_res f xs = Inr ys"
  by (induction xs) fastforce+

lemma accepts_object:
  assumes "set req \<subseteq> fst ` set ps" and "\<And>k v. (k, v) \<in> set ps \<Longrightarrow> \<exists>s. map_of props k = Some s \<and> accepts s v"
  shows "accepts (ObjectSchema props req) (JObj ps)"
proof -
  let ?f = "\<lambda>p. case map_of props (fst p) of None \<Rightarrow> mismatch | Some s \<Rightarrow> then_do (validate_value (snd p) s) (\<lambda>w. Inr (fst p, w))"
  have "\<exists>y. ?f p = Inr y" if "p \<in> set ps" for p
    using assms(2) [of "fst p" "snd p"] that by (auto simp: accepts_value)
  then obtain qs where "map_res ?f ps = Inr qs" using map_res_total [of ps ?f] by blast
  moreover have "\<not> list_ex (\<lambda>k. k \<notin> fst ` set ps) req" using assms(1) by (auto simp: list_ex_iff)
  moreover have "map_of props (fst p) \<noteq> None" if "p \<in> set ps" for p
    using assms(2) [of "fst p" "snd p"] that by auto
  then have "\<not> list_ex (\<lambda>p. map_of props (fst p) = None) ps" by (auto simp: list_ex_iff)
  ultimately show ?thesis by (simp add: accepts_value del: not_None_eq)
qed

lemma accepts_same: "sort_json key (schema_value s) = sort_json key (schema_value t) \<Longrightarrow> plain_ok (schema_value s) \<Longrightarrow>
    plain_ok (schema_value t) \<Longrightarrow> accepts s v = accepts t v"
  using validate_same [of key s t v] unfolding accepts_value by simp

lemma requireNode_Inr: "requireNode nodes i = Inr n \<Longrightarrow> n \<in> set nodes \<and> wd_nodeId n = i"
  by (auto simp: requireNode_def find_Some_iff in_set_conv_nth split: option.splits)

lemma requireNode_in:
  assumes "distinct (map wd_nodeId nodes)" and "n \<in> set nodes"
  shows "requireNode nodes (wd_nodeId n) = Inr n"
proof -
  have "find (\<lambda>m. wd_nodeId m = wd_nodeId n) nodes \<noteq> None" using assms(2) by (auto simp: find_None_iff)
  then obtain m where m: "find (\<lambda>m. wd_nodeId m = wd_nodeId n) nodes = Some m" by auto
  then have "m \<in> set nodes" "wd_nodeId m = wd_nodeId n" by (auto simp: find_Some_iff in_set_conv_nth)
  then have "m = n" using assms by (auto simp: distinct_map inj_on_def)
  with m show ?thesis by (simp add: requireNode_def)
qed

lemma zip_same_keys: "length xs = length is \<Longrightarrow> \<not> list_ex (\<lambda>(x, i). fst x \<noteq> i) (zip xs is) \<longleftrightarrow> map fst xs = is"
  by (induction xs "is" rule: list_induct2) auto

text \<open>The outputs of the nodes a value is composed from, each within its node's schema.\<close>

definition outputs_typed :: "wf_node list \<Rightarrow> (js_string \<times> json) list \<Rightarrow> bool" where
  "outputs_typed nodes outputs \<longleftrightarrow> (\<forall>(i, v)\<in>set outputs. \<exists>n\<in>set nodes. wd_nodeId n = i \<and> accepts (wd_outputSchema n) v)"

lemma composed_typed:
  assumes nodes: "distinct (map wd_nodeId nodes)" and s: "derivedSchema ids root nodes = Inr s"
    and ids: "distinct ids" "map fst outputs = ids" and typed: "outputs_typed nodes outputs"
    and base: "\<And>r. root = Some r \<Longrightarrow> accepts r v" "ids = [] \<Longrightarrow> v \<noteq> JNull"
  shows "\<exists>w. composeValue ids v outputs = Inr w \<and> accepts s w"
proof -
  have ok: "length outputs = length ids" "\<not> list_ex (\<lambda>(x, i). fst x \<noteq> i) (zip outputs ids)"
    using ids(2) zip_same_keys [of outputs ids] by auto
  have out: "\<exists>n. requireNode nodes i = Inr n \<and> accepts (wd_outputSchema n) x" if "(i, x) \<in> set outputs" for i x
    using typed that requireNode_in [OF nodes] unfolding outputs_typed_def by fastforce
  consider (none) "ids = []" | (one) i where "ids = [i]" | (many) "1 < length ids"
    by (cases ids; cases "tl ids") auto
  then show ?thesis
  proof cases
    case none
    with s obtain r where "root = Some r" "s = r" by (auto simp: derivedSchema_def split: option.splits)
    with base none show ?thesis by (auto simp: composeValue_def)
  next
    case one
    with ids(2) obtain x where x: "outputs = [(i, x)]" by (cases outputs) auto
    with out [of i x] obtain n where "requireNode nodes i = Inr n" "accepts (wd_outputSchema n) x" by auto
    with s one x show ?thesis by (auto simp: derivedSchema_def composeValue_def)
  next
    case many
    then obtain a b cs where c: "ids = a # b # cs" by (cases ids; cases "tl ids") auto
    with s obtain ps where ps: "map_res (source_schema nodes) ids = Inr ps" and se: "s = ObjectSchema (from_entries ps) ids"
      by (auto simp: derivedSchema_def)
    have nth: "length ps = length ids" "\<And>k. k < length ids \<Longrightarrow> source_schema nodes (ids ! k) = Inr (ps ! k)"
      using ps by (auto simp: map_res_Inr list_all2_conv_all_nth)
    have "fst (ps ! k) = ids ! k" if "k < length ids" for k
      using nth(2) [OF that] by (cases "ps ! k") (auto simp: source_schema_def)
    then have keys: "map fst ps = ids" using nth(1) by (auto intro: nth_equalityI)
    have d: "distinct (map fst ps)" "distinct (map fst outputs)" using ids keys by simp_all
    have "accepts s (JObj (from_entries outputs))"
      unfolding se
    proof (rule accepts_object)
      show "set ids \<subseteq> fst ` set (from_entries outputs)"
        using from_entries_set [OF d(2)] ids(2) by (metis list.set_map order_refl)
    next
      fix k x assume "(k, x) \<in> set (from_entries outputs)"
      then have o: "(k, x) \<in> set outputs" using from_entries_set [OF d(2)] by blast
      then obtain n where n: "requireNode nodes k = Inr n" "accepts (wd_outputSchema n) x" using out by blast
      have "k \<in> set ids" using o ids(2) by force
      then obtain j where j: "j < length ids" "ids ! j = k" by (auto simp: in_set_conv_nth)
      with nth(2) [OF j(1)] n(1) have "ps ! j = (k, wd_outputSchema n)" by (simp add: source_schema_def)
      then have "(k, wd_outputSchema n) \<in> set ps" using j(1) nth(1) by (metis nth_mem)
      then have "map_of (from_entries ps) k = Some (wd_outputSchema n)"
        using from_entries_keys [of ps] from_entries_set [OF d(1)] by (intro map_of_is_SomeI) simp_all
      with n(2) show "\<exists>s. map_of (from_entries ps) k = Some s \<and> accepts s x" by blast
    qed
    moreover have "composeValue ids v outputs = Inr (JObj (from_entries outputs))"
      using ok many by (auto simp: composeValue_def split: list.split)
    ultimately show ?thesis by blast
  qed
qed

end
