(* ===== verification/Workflow_Graph.thy ===== *)
theory Workflow_Graph
  imports Js_Values
begin

text \<open>
  \<open>workflow-version-graph.ts\<close>: the validation of a workflow graph.  The topological order is
  computed by a worklist loop, modelled as \<open>partial_function (option)\<close>, so that a loop that
  does not end would be \<open>None\<close>; that it always ends is proved.  A JavaScript \<open>Map\<close> is a map,
  and \<open>get(k)!\<close> is \<open>the (m k)\<close>.
\<close>

section \<open>Definitions\<close>

datatype workflow_kind = AgentNode js_string | HumanGate | VerificationNode js_string

record workflow_node =
  wn_nodeId :: js_string
  wn_dependsOn :: "js_string list"
  wn_kind :: workflow_kind

definition node_by_id :: "workflow_node list \<Rightarrow> js_string \<Rightarrow> workflow_node option" where
  "node_by_id nodes = map_of (rev (map (\<lambda>n. (wn_nodeId n, n)) nodes))"

definition is_verification :: "workflow_kind \<Rightarrow> bool" where
  "is_verification k = (case k of VerificationNode _ \<Rightarrow> True | _ \<Rightarrow> False)"

text \<open>The body of the first loop over the nodes.\<close>

definition check_node :: "(js_string \<Rightarrow> workflow_node option) \<Rightarrow> workflow_node \<Rightarrow> check" where
  "check_node byId n = first_throw
     [throw_if (length (remdups (wn_dependsOn n)) \<noteq> length (wn_dependsOn n))
        (WorkflowVersionError ''workflow_dependencies_invalid''),
      throw_if (list_ex (\<lambda>d. byId d = None) (wn_dependsOn n))
        (WorkflowVersionError ''workflow_dependency_not_found''),
      throw_if (is_verification (wn_kind n) \<and> length (wn_dependsOn n) = 0)
        (WorkflowVersionError ''workflow_verification_dependency_invalid'')]"

text \<open>The dependents of every node: one push per edge, then each list sorted.\<close>

definition push_node :: "workflow_node \<Rightarrow> (js_string \<Rightarrow> js_string list option) \<Rightarrow> js_string \<Rightarrow> js_string list option" where
  "push_node n m = fold (\<lambda>d m. m(d \<mapsto> the (m d) @ [wn_nodeId n])) (wn_dependsOn n) m"

definition dependents_of :: "workflow_node list \<Rightarrow> js_string \<Rightarrow> js_string list option" where
  "dependents_of nodes = (\<lambda>k. map_option sort
     (fold push_node nodes (map_of (map (\<lambda>n. (wn_nodeId n, [])) nodes)) k))"

definition indegrees :: "workflow_node list \<Rightarrow> js_string \<Rightarrow> int option" where
  "indegrees nodes = map_of (rev (map (\<lambda>n. (wn_nodeId n, int (length (wn_dependsOn n)))) nodes))"

definition graph_roots :: "workflow_node list \<Rightarrow> js_string list" where
  "graph_roots nodes = sort (map wn_nodeId (filter (\<lambda>n. length (wn_dependsOn n) = 0) nodes))"

definition graph_terminals :: "workflow_node list \<Rightarrow> js_string list" where
  "graph_terminals nodes =
     sort (map wn_nodeId (filter (\<lambda>n. length (the (dependents_of nodes (wn_nodeId n))) = 0) nodes))"

text \<open>\<open>findIndex(candidate => candidate > value)\<close> and \<open>splice\<close>.\<close>

fun insertSorted :: "js_string list \<Rightarrow> js_string \<Rightarrow> js_string list" where
  "insertSorted [] v = [v]"
| "insertSorted (c # cs) v = (if c > v then v # c # cs else c # insertSorted cs v)"

text \<open>The inner loop over the dependents of the node taken.\<close>

fun relax :: "js_string list \<Rightarrow> (js_string \<Rightarrow> int option) \<Rightarrow> js_string list
    \<Rightarrow> js_string list \<times> (js_string \<Rightarrow> int option)" where
  "relax ready indegree [] = (ready, indegree)"
| "relax ready indegree (d # ds) = (let remaining = the (indegree d) - 1 in
     relax (if remaining = 0 then insertSorted ready d else ready) (indegree(d \<mapsto> remaining)) ds)"

partial_function (option) kahn_loop ::
    "(js_string \<Rightarrow> js_string list option) \<Rightarrow> js_string list \<Rightarrow> (js_string \<Rightarrow> int option) \<Rightarrow> js_string list
      \<Rightarrow> js_string list option" where
  "kahn_loop dependents ready indegree order = (case ready of
     [] \<Rightarrow> Some order
   | n # rest \<Rightarrow> kahn_loop dependents (fst (relax rest indegree (the (dependents n))))
       (snd (relax rest indegree (the (dependents n)))) (order @ [n]))"

text \<open>The agents above and at every node, in the topological order; a verifier must be new.\<close>

definition inherited_agents :: "(js_string \<Rightarrow> js_string set option) \<Rightarrow> js_string list \<Rightarrow> js_string set" where
  "inherited_agents agents ds = (\<Union>d\<in>set ds. the (agents d))"

fun own_agents :: "workflow_kind \<Rightarrow> js_string set" where
  "own_agents (AgentNode a) = {a}"
| "own_agents HumanGate = {}"
| "own_agents (VerificationNode v) = {v}"

fun check_verifiers :: "(js_string \<Rightarrow> workflow_node option) \<Rightarrow> (js_string \<Rightarrow> js_string set option)
    \<Rightarrow> js_string list \<Rightarrow> check" where
  "check_verifiers byId agents [] = None"
| "check_verifiers byId agents (nodeId # order) =
    (let n = the (byId nodeId); above = inherited_agents agents (wn_dependsOn n) in
     if (case wn_kind n of VerificationNode v \<Rightarrow> v \<in> above | _ \<Rightarrow> False)
     then Some (WorkflowVersionError ''workflow_verifier_not_independent'')
     else check_verifiers byId (agents(nodeId \<mapsto> above \<union> own_agents (wn_kind n))) order)"

definition validateIndependentVerifiers :: "js_string list \<Rightarrow> (js_string \<Rightarrow> workflow_node option) \<Rightarrow> check" where
  "validateIndependentVerifiers order byId = check_verifiers byId (\<lambda>_. None) order"

definition sameStrings :: "js_string list \<Rightarrow> js_string list \<Rightarrow> bool" where
  "sameStrings l r \<longleftrightarrow> length l = length r \<and> list_all (\<lambda>i. l ! i = r ! i) [0..<length l]"

text \<open>What is checked once the loop has ended with an order.\<close>

definition finish_graph :: "workflow_node list \<Rightarrow> js_string list \<Rightarrow> js_string list \<Rightarrow> js_string list \<Rightarrow> js_string list res" where
  "finish_graph nodes entryNodeIds outputNodeIds order = guarded
     [throw_if (length order \<noteq> length nodes) (WorkflowVersionError ''workflow_graph_cycle''),
      validateIndependentVerifiers order (node_by_id nodes),
      throw_if (\<not> sameStrings (graph_roots nodes) entryNodeIds)
        (WorkflowVersionError ''workflow_entry_nodes_invalid''),
      throw_if (\<not> sameStrings (graph_terminals nodes) outputNodeIds)
        (WorkflowVersionError ''workflow_output_nodes_invalid''),
      throw_if (list_ex (\<lambda>k. case node_by_id nodes k of None \<Rightarrow> True | Some n \<Rightarrow> \<not> is_verification (wn_kind n))
          outputNodeIds) (WorkflowVersionError ''workflow_output_verification_required'')]
     (Inr order)"

definition graph_checks :: "workflow_node list \<Rightarrow> js_string list \<Rightarrow> js_string list \<Rightarrow> check list" where
  "graph_checks nodes entryNodeIds outputNodeIds =
     [throw_if (length (remdups (map wn_nodeId nodes)) \<noteq> length nodes)
        (WorkflowVersionError ''workflow_node_id_conflict''),
      throw_if (list_ex (\<lambda>k. node_by_id nodes k = None) entryNodeIds
          \<or> list_ex (\<lambda>k. node_by_id nodes k = None) outputNodeIds)
        (WorkflowVersionError ''workflow_boundary_node_not_found''),
      first_throw (map (check_node (node_by_id nodes)) nodes)]"

definition validateWorkflowGraph ::
    "workflow_node list \<Rightarrow> js_string list \<Rightarrow> js_string list \<Rightarrow> js_string list res option" where
  "validateWorkflowGraph nodes entryNodeIds outputNodeIds =
    (case first_throw (graph_checks nodes entryNodeIds outputNodeIds) of
       Some e \<Rightarrow> Some (Inl e)
     | None \<Rightarrow> map_option (finish_graph nodes entryNodeIds outputNodeIds)
         (kahn_loop (dependents_of nodes) (graph_roots nodes) (indegrees nodes) []))"

section \<open>The worklist loop over an abstract graph\<close>

text \<open>
  \<open>D x\<close> are the nodes \<open>x\<close> depends on.  The map of dependents lists, for every node, the nodes
  that depend on it.
\<close>

definition dependency_graph ::
    "js_string set \<Rightarrow> (js_string \<Rightarrow> js_string set) \<Rightarrow> (js_string \<Rightarrow> js_string list option) \<Rightarrow> bool" where
  "dependency_graph ids D dependents \<longleftrightarrow> finite ids \<and> (\<forall>x\<in>ids. D x \<subseteq> ids)
     \<and> (\<forall>n\<in>ids. \<exists>ds. dependents n = Some ds \<and> distinct ds \<and> set ds = {x \<in> ids. n \<in> D x})"

text \<open>The nodes that may come next after the nodes already placed.\<close>

definition available :: "js_string set \<Rightarrow> (js_string \<Rightarrow> js_string set) \<Rightarrow> js_string set \<Rightarrow> js_string set" where
  "available ids D placed = {x \<in> ids - placed. D x \<subseteq> placed}"

text \<open>Every node placed is the least of those that could have been placed then.\<close>

definition greedy :: "js_string set \<Rightarrow> (js_string \<Rightarrow> js_string set) \<Rightarrow> js_string list \<Rightarrow> bool" where
  "greedy ids D order \<longleftrightarrow> (\<forall>i<length order. order ! i \<in> available ids D (set (take i order))
     \<and> (\<forall>y\<in>available ids D (set (take i order)). order ! i \<le> y))"

definition kahn_inv where
  "kahn_inv ids D order ready indegree \<longleftrightarrow> distinct order \<and> set order \<subseteq> ids \<and> distinct ready \<and> sorted ready
     \<and> set ready = available ids D (set order)
     \<and> (\<forall>x\<in>ids. indegree x = Some (int (card (D x - set order)))) \<and> (\<forall>x\<in>set order. D x \<subseteq> set order)
     \<and> greedy ids D order"

lemma insertSorted_set [simp]: "set (insertSorted cs v) = insert v (set cs)"
  by (induction cs) auto

lemma insertSorted_distinct [simp]: "distinct (insertSorted cs v) \<longleftrightarrow> v \<notin> set cs \<and> distinct cs"
  by (induction cs) auto

lemma insertSorted_sorted: "sorted cs \<Longrightarrow> sorted (insertSorted cs v)"
  by (induction cs) (auto simp: not_less)

lemma relax_spec:
  assumes "distinct ds" and "distinct ready" and "sorted ready" and "set ready \<inter> set ds = {}"
  shows "distinct (fst (relax ready indeg ds)) \<and> sorted (fst (relax ready indeg ds))
    \<and> set (fst (relax ready indeg ds)) = set ready \<union> {d \<in> set ds. the (indeg d) = 1}
    \<and> snd (relax ready indeg ds) = (\<lambda>x. if x \<in> set ds then Some (the (indeg x) - 1) else indeg x)"
  using assms
proof (induction ds arbitrary: ready indeg)
  case (Cons d ds)
  define ready' where "ready' = (if the (indeg d) - 1 = 0 then insertSorted ready d else ready)"
  define indeg' where "indeg' = indeg(d \<mapsto> the (indeg d) - 1)"
  have r: "relax ready indeg (d # ds) = relax ready' indeg' ds"
    by (simp add: ready'_def indeg'_def Let_def)
  have d: "d \<notin> set ds" "d \<notin> set ready" using Cons.prems by auto
  have "distinct ready'" "sorted ready'" "set ready' \<inter> set ds = {}"
    using Cons.prems d by (auto simp: ready'_def insertSorted_sorted)
  from Cons.IH [OF _ this, of indeg'] Cons.prems(1) have ih:
    "distinct (fst (relax ready' indeg' ds))" "sorted (fst (relax ready' indeg' ds))"
    "set (fst (relax ready' indeg' ds)) = set ready' \<union> {d \<in> set ds. the (indeg' d) = 1}"
    "snd (relax ready' indeg' ds) = (\<lambda>x. if x \<in> set ds then Some (the (indeg' x) - 1) else indeg' x)"
    by simp_all
  have m: "indeg' x = indeg x" if "x \<in> set ds" for x using that d by (auto simp: indeg'_def)
  have "set (fst (relax ready' indeg' ds)) = set ready \<union> {x \<in> set (d # ds). the (indeg x) = 1}"
    unfolding ih(3) using m by (auto simp: ready'_def)
  moreover have "snd (relax ready' indeg' ds) = (\<lambda>x. if x \<in> set (d # ds) then Some (the (indeg x) - 1) else indeg x)"
    unfolding ih(4) using m d by (auto simp: indeg'_def fun_eq_iff)
  ultimately show ?case unfolding r using ih(1,2) by blast
qed simp

lemma available_later: "available ids D placed \<subseteq> insert n (available ids D (insert n placed))"
  by (auto simp: available_def)

text \<open>Taking the first ready node keeps the invariant.\<close>

lemma kahn_inv_step:
  assumes "dependency_graph ids D dependents" and "kahn_inv ids D order (n # rest) indeg"
  defines "r \<equiv> relax rest indeg (the (dependents n))"
  shows "kahn_inv ids D (order @ [n]) (fst r) (snd r)"
proof -
  have inv: "distinct order" "set order \<subseteq> ids" "distinct (n # rest)" "sorted (n # rest)"
    "set (n # rest) = available ids D (set order)"
    "\<forall>x\<in>ids. indeg x = Some (int (card (D x - set order)))" "\<forall>x\<in>set order. D x \<subseteq> set order"
    "greedy ids D order"
    using assms(2) by (simp_all add: kahn_inv_def)
  have n: "n \<in> ids" "n \<notin> set order" "D n \<subseteq> set order" using inv(5) by (auto simp: available_def)
  obtain ds where ds: "dependents n = Some ds" "distinct ds" "set ds = {x \<in> ids. n \<in> D x}"
    using assms(1) n(1) by (auto simp: dependency_graph_def)
  have fin: "finite (D x)" if "x \<in> ids" for x
    using assms(1) that by (auto simp: dependency_graph_def intro: finite_subset)
  have placed: "x \<notin> set ds" if "D x \<subseteq> set order" for x using that n(2) ds(3) by auto
  have "set rest \<inter> set ds = {}"
  proof -
    have "D x \<subseteq> set order" if "x \<in> set rest" for x using inv(5) that by (auto simp: available_def)
    then show ?thesis using placed by blast
  qed
  with relax_spec [of ds rest indeg] ds inv have r: "distinct (fst r)" "sorted (fst r)"
    "set (fst r) = set rest \<union> {d \<in> set ds. the (indeg d) = 1}"
    "snd r = (\<lambda>x. if x \<in> set ds then Some (the (indeg x) - 1) else indeg x)"
    by (simp_all add: r_def)
  have less: "D x - set (order @ [n]) = (D x - set order) - {n}" for x by auto
  have counts: "snd r x = Some (int (card (D x - set (order @ [n]))))" if x: "x \<in> ids" for x
  proof (cases "n \<in> D x")
    case True
    then have m: "n \<in> D x - set order" using n(2) by simp
    have "0 < card (D x - set order)" using m fin [OF x] card_gt_0_iff by blast
    then show ?thesis
      using r(4) ds(3) x True inv(6) fin [OF x] m unfolding less
      by (simp add: card_Diff_singleton of_nat_diff)
  next
    case False
    then show ?thesis using r(4) ds(3) x inv(6) unfolding less by simp
  qed
  have one: "the (indeg d) = 1 \<longleftrightarrow> D d \<subseteq> set (order @ [n])" if "d \<in> set ds" for d
  proof -
    have d: "d \<in> ids" "n \<in> D d - set order" using that ds(3) n(2) by auto
    have "the (indeg d) = 1 \<longleftrightarrow> card (D d - set order) = 1" using d(1) inv(6) by simp
    also have "\<dots> \<longleftrightarrow> D d - set order = {n}" using d(2) by (metis card_1_singletonE is_singletonI is_singleton_altdef singletonD)
    also have "\<dots> \<longleftrightarrow> D d \<subseteq> set (order @ [n])" using d(2) by auto
    finally show ?thesis .
  qed
  have ready: "set (fst r) = available ids D (set (order @ [n]))"
  proof -
    have rest: "set rest = available ids D (set order) - {n}" using inv(3,5) by auto
    have new: "{d \<in> set ds. the (indeg d) = 1} = {d \<in> ids. n \<in> D d \<and> D d \<subseteq> insert n (set order)}"
      using one ds(3) by auto
    have "d \<notin> insert n (set order)" if "n \<in> D d" for d using that n(2,3) inv(7) by blast
    then show ?thesis
      unfolding r(3) rest new available_def by (simp, blast)
  qed
  have "greedy ids D (order @ [n])"
    using inv(4,5,8) n by (auto simp: greedy_def nth_append less_Suc_eq)
  then show ?thesis
    unfolding kahn_inv_def using inv n r(1,2) ready counts by auto
qed

lemma kahn_inv_length: "dependency_graph ids D dependents \<Longrightarrow> kahn_inv ids D order ready indeg \<Longrightarrow> length order \<le> card ids"
  by (auto simp: kahn_inv_def dependency_graph_def distinct_card [symmetric] intro: card_mono)

text \<open>The loop ends, and it ends with no node left that could be placed.\<close>

lemma kahn_loop_ends:
  assumes "dependency_graph ids D dependents" and "kahn_inv ids D order ready indeg"
  shows "\<exists>order' indeg'. kahn_loop dependents ready indeg order = Some order' \<and> kahn_inv ids D order' [] indeg'"
  using assms(2)
proof (induction "card ids - length order" arbitrary: order ready indeg rule: less_induct)
  case less
  show ?case
  proof (cases ready)
    case Nil
    then show ?thesis using less.prems by (auto simp: kahn_loop.simps)
  next
    case (Cons n rest)
    note step = kahn_inv_step [OF assms(1) less.prems [unfolded Cons]]
    have "card ids - length (order @ [n]) < card ids - length order"
      using kahn_inv_length [OF assms(1) step] by simp
    from less.hyps [OF this step] show ?thesis
      unfolding Cons kahn_loop.simps [of dependents "n # rest" indeg order] by simp
  qed
qed

section \<open>The graph the program builds\<close>

definition graph_ids :: "workflow_node list \<Rightarrow> js_string set" where
  "graph_ids nodes = wn_nodeId ` set nodes"

definition graph_edges :: "workflow_node list \<Rightarrow> (js_string \<times> js_string) set" where
  "graph_edges nodes = {(d, wn_nodeId n) | d n. n \<in> set nodes \<and> d \<in> set (wn_dependsOn n)}"

definition graph_deps :: "workflow_node list \<Rightarrow> js_string \<Rightarrow> js_string set" where
  "graph_deps nodes x = {d. (d, x) \<in> graph_edges nodes}"

definition nodes_ok :: "workflow_node list \<Rightarrow> bool" where
  "nodes_ok nodes \<longleftrightarrow> distinct (map wn_nodeId nodes)
     \<and> (\<forall>n\<in>set nodes. distinct (wn_dependsOn n) \<and> set (wn_dependsOn n) \<subseteq> graph_ids nodes)"

lemma node_by_id_Some: "node_by_id nodes k = Some n \<Longrightarrow> n \<in> set nodes \<and> wn_nodeId n = k"
  unfolding node_by_id_def by (auto dest!: map_of_SomeD)

lemma node_by_id_dom: "node_by_id nodes k = None \<longleftrightarrow> k \<notin> graph_ids nodes"
  by (auto simp: node_by_id_def map_of_eq_None_iff graph_ids_def image_iff)

lemma map_of_rev_distinct:
  assumes "distinct (map wn_nodeId nodes)" and "n \<in> set nodes"
  shows "map_of (rev (map (\<lambda>n. (wn_nodeId n, f n)) nodes)) (wn_nodeId n) = Some (f n)"
proof -
  have "distinct (map fst (rev (map (\<lambda>n. (wn_nodeId n, f n)) nodes)))"
    using assms(1) by (simp add: rev_map [symmetric] comp_def)
  then show ?thesis using assms(2) by (intro map_of_is_SomeI) auto
qed

lemma node_by_id_node: "nodes_ok nodes \<Longrightarrow> n \<in> set nodes \<Longrightarrow> node_by_id nodes (wn_nodeId n) = Some n"
  using map_of_rev_distinct [of nodes n "\<lambda>n. n"] by (simp add: node_by_id_def nodes_ok_def)

lemma same_node: "nodes_ok nodes \<Longrightarrow> n \<in> set nodes \<Longrightarrow> m \<in> set nodes \<Longrightarrow> wn_nodeId n = wn_nodeId m \<Longrightarrow> n = m"
  using node_by_id_node by (metis option.inject)

lemma graph_deps_node: "nodes_ok nodes \<Longrightarrow> n \<in> set nodes \<Longrightarrow> graph_deps nodes (wn_nodeId n) = set (wn_dependsOn n)"
  by (auto simp: graph_deps_def graph_edges_def dest: same_node)

lemma push_edges:
  assumes "distinct ds" and "set ds \<subseteq> dom m"
  shows "fold (\<lambda>d m. m(d \<mapsto> the (m d) @ [x])) ds m k = (if k \<in> set ds then Some (the (m k) @ [x]) else m k)"
  using assms
proof (induction ds arbitrary: m)
  case (Cons d ds)
  define m' where "m' = m(d \<mapsto> the (m d) @ [x])"
  have "set ds \<subseteq> dom m'" using Cons.prems by (auto simp: m'_def)
  then have ih: "fold (\<lambda>d m. m(d \<mapsto> the (m d) @ [x])) ds m' k = (if k \<in> set ds then Some (the (m' k) @ [x]) else m' k)"
    using Cons.prems(1) by (intro Cons.IH) simp_all
  have "fold (\<lambda>d m. m(d \<mapsto> the (m d) @ [x])) (d # ds) m k = fold (\<lambda>d m. m(d \<mapsto> the (m d) @ [x])) ds m' k"
    by (simp only: fold_simps m'_def)
  also have "\<dots> = (if k \<in> set (d # ds) then Some (the (m k) @ [x]) else m k)"
    unfolding ih using Cons.prems(1) by (auto simp: m'_def)
  finally show ?case .
qed simp

lemma push_nodes:
  assumes "\<forall>n\<in>set ns. distinct (wn_dependsOn n) \<and> set (wn_dependsOn n) \<subseteq> dom m"
  shows "fold push_node ns m k = map_option (\<lambda>l. l @ map wn_nodeId (filter (\<lambda>n. k \<in> set (wn_dependsOn n)) ns)) (m k)"
  using assms
proof (induction ns arbitrary: m)
  case Nil
  then show ?case by (simp add: option.map_id0 option.map_ident)
next
  case (Cons n ns)
  have step: "push_node n m j = (if j \<in> set (wn_dependsOn n) then Some (the (m j) @ [wn_nodeId n]) else m j)" for j
    using push_edges [of "wn_dependsOn n" m "wn_nodeId n" j] Cons.prems by (simp add: push_node_def)
  have "dom (push_node n m) = dom m"
    using Cons.prems step by (auto simp: dom_def split: if_splits)
  then have "fold push_node (n # ns) m k
      = map_option (\<lambda>l. l @ map wn_nodeId (filter (\<lambda>n. k \<in> set (wn_dependsOn n)) ns)) (push_node n m k)"
    using Cons.IH [of "push_node n m"] Cons.prems by simp
  moreover have "k \<in> dom m" if "k \<in> set (wn_dependsOn n)" using that Cons.prems by auto
  ultimately show ?case by (cases "m k") (auto simp: step)
qed

lemma dependents_of_node:
  assumes "nodes_ok nodes"
  shows "dependents_of nodes k = (if k \<in> graph_ids nodes
    then Some (sort (map wn_nodeId (filter (\<lambda>n. k \<in> set (wn_dependsOn n)) nodes))) else None)"
proof -
  define m where "m = map_of (map (\<lambda>n. (wn_nodeId n, [] :: js_string list)) nodes)"
  have m: "m j = (if j \<in> graph_ids nodes then Some [] else None)" for j
    unfolding m_def graph_ids_def by (induction nodes) auto
  have "\<forall>n\<in>set nodes. distinct (wn_dependsOn n) \<and> set (wn_dependsOn n) \<subseteq> dom m"
    using assms by (auto simp: nodes_ok_def m dom_def)
  from push_nodes [OF this, of k] show ?thesis
    by (simp add: dependents_of_def m_def [symmetric] m)
qed

lemma dependents_set:
  assumes "nodes_ok nodes" and "k \<in> graph_ids nodes"
  obtains ds where "dependents_of nodes k = Some ds" "distinct ds" "set ds = {x \<in> graph_ids nodes. k \<in> graph_deps nodes x}"
proof
  show "dependents_of nodes k = Some (sort (map wn_nodeId (filter (\<lambda>n. k \<in> set (wn_dependsOn n)) nodes)))"
    using dependents_of_node [OF assms(1)] assms(2) by simp
  show "distinct (sort (map wn_nodeId (filter (\<lambda>n. k \<in> set (wn_dependsOn n)) nodes)))"
    using assms(1) by (auto simp: nodes_ok_def distinct_map intro: inj_on_subset)
  show "set (sort (map wn_nodeId (filter (\<lambda>n. k \<in> set (wn_dependsOn n)) nodes)))
      = {x \<in> graph_ids nodes. k \<in> graph_deps nodes x}"
    using graph_deps_node [OF assms(1)] by (auto simp: graph_ids_def)
qed

lemma graph_deps_closed: "nodes_ok nodes \<Longrightarrow> graph_deps nodes x \<subseteq> graph_ids nodes"
  by (auto simp: graph_deps_def graph_edges_def nodes_ok_def)

lemma program_graph: "nodes_ok nodes \<Longrightarrow> dependency_graph (graph_ids nodes) (graph_deps nodes) (dependents_of nodes)"
  unfolding dependency_graph_def
proof (intro conjI ballI)
  show "finite (graph_ids nodes)" by (simp add: graph_ids_def)
qed (use graph_deps_closed dependents_set in blast)+

lemma roots_set:
  assumes "nodes_ok nodes"
  shows "graph_roots nodes = sorted_list_of_set {x \<in> graph_ids nodes. graph_deps nodes x = {}}"
proof -
  define rs where "rs = map wn_nodeId (filter (\<lambda>n. length (wn_dependsOn n) = 0) nodes)"
  have "distinct rs" using assms by (auto simp: rs_def nodes_ok_def distinct_map intro: inj_on_subset)
  moreover have "set rs = {x \<in> graph_ids nodes. graph_deps nodes x = {}}"
    using graph_deps_node [OF assms] by (auto simp: rs_def graph_ids_def)
  ultimately show ?thesis
    by (metis rs_def graph_roots_def sorted_list_of_set_sort_remdups distinct_remdups_id)
qed

lemma terminals_set:
  assumes "nodes_ok nodes"
  shows "graph_terminals nodes = sorted_list_of_set {x \<in> graph_ids nodes. \<forall>y. (x, y) \<notin> graph_edges nodes}"
proof -
  define rs where "rs = map wn_nodeId (filter (\<lambda>n. length (the (dependents_of nodes (wn_nodeId n))) = 0) nodes)"
  have "distinct rs" using assms by (auto simp: rs_def nodes_ok_def distinct_map intro: inj_on_subset)
  moreover have "length (the (dependents_of nodes k)) = 0 \<longleftrightarrow> (\<forall>y. (k, y) \<notin> graph_edges nodes)"
    if "k \<in> graph_ids nodes" for k
    using dependents_of_node [OF assms, of k] that by (auto simp: graph_edges_def filter_empty_conv)
  then have "{x \<in> graph_ids nodes. length (the (dependents_of nodes x)) = 0}
      = {x \<in> graph_ids nodes. \<forall>y. (x, y) \<notin> graph_edges nodes}" by blast
  moreover have "set rs = {x \<in> graph_ids nodes. length (the (dependents_of nodes x)) = 0}"
    unfolding rs_def graph_ids_def by (simp only: set_map set_filter) blast
  ultimately have "sort rs = sorted_list_of_set {x \<in> graph_ids nodes. \<forall>y. (x, y) \<notin> graph_edges nodes}"
    by (metis sorted_list_of_set_sort_remdups distinct_remdups_id)
  then show ?thesis by (simp only: graph_terminals_def rs_def)
qed

lemma initial_inv:
  assumes "nodes_ok nodes"
  shows "kahn_inv (graph_ids nodes) (graph_deps nodes) [] (graph_roots nodes) (indegrees nodes)"
proof -
  have fin: "finite {x \<in> graph_ids nodes. graph_deps nodes x = {}}" by (simp add: graph_ids_def)
  have "indegrees nodes x = Some (int (card (graph_deps nodes x)))" if "x \<in> graph_ids nodes" for x
  proof -
    from that obtain n where n: "n \<in> set nodes" "x = wn_nodeId n" by (auto simp: graph_ids_def)
    have "distinct (wn_dependsOn n)" using assms n(1) by (simp add: nodes_ok_def)
    then show ?thesis
      using map_of_rev_distinct [OF _ n(1), of "\<lambda>n. int (length (wn_dependsOn n))"] assms
      by (simp add: indegrees_def n(2) graph_deps_node [OF assms n(1)] distinct_card nodes_ok_def)
  qed
  then show ?thesis
    using fin by (auto simp: kahn_inv_def roots_set [OF assms] available_def greedy_def)
qed

text \<open>The loop of the program returns for every graph that passes the first checks.\<close>

lemma program_loop:
  assumes "nodes_ok nodes"
  obtains order indeg where "kahn_loop (dependents_of nodes) (graph_roots nodes) (indegrees nodes) [] = Some order"
    "kahn_inv (graph_ids nodes) (graph_deps nodes) order [] indeg"
  using kahn_loop_ends [OF program_graph [OF assms] initial_inv [OF assms]] by blast

section \<open>Orders and cycles\<close>

lemma greedy_topological:
  assumes "greedy (graph_ids nodes) (graph_deps nodes) order" and "i < length order"
  shows "graph_deps nodes (order ! i) \<subseteq> set (take i order)"
  using assms by (auto simp: greedy_def available_def)

lemma full_order_acyclic:
  assumes "greedy (graph_ids nodes) (graph_deps nodes) order" and "distinct order"
    and "set order = graph_ids nodes"
  shows "acyclic (graph_edges nodes)"
proof -
  define pos where "pos x = (LEAST i. order ! i = x)" for x
  have pos: "pos (order ! i) = i" if "i < length order" for i
  proof -
    have le: "pos (order ! i) \<le> i" unfolding pos_def by (rule Least_le) simp
    moreover have "order ! pos (order ! i) = order ! i" unfolding pos_def by (rule LeastI) simp
    ultimately show ?thesis using that assms(2) nth_eq_iff_index_eq by (metis le_less_trans)
  qed
  have "graph_edges nodes \<subseteq> inv_image less_than pos"
  proof
    fix p assume p: "p \<in> graph_edges nodes"
    obtain d x where dx: "p = (d, x)" by (cases p)
    then have "x \<in> set order" using p assms(3) by (auto simp: graph_edges_def graph_ids_def)
    then obtain i where i: "i < length order" "x = order ! i" by (metis in_set_conv_nth)
    have "d \<in> set (take i order)"
      using greedy_topological [OF assms(1) i(1)] p dx i(2) by (auto simp: graph_deps_def)
    then obtain j where j: "j < i" "d = order ! j" by (auto simp: in_set_conv_nth)
    then show "p \<in> inv_image less_than pos" using pos i by (simp add: dx)
  qed
  then show ?thesis
    by (rule acyclic_subset [OF wf_acyclic [OF wf_inv_image [OF wf_less_than]]])
qed

lemma acyclic_full_order:
  assumes "acyclic (graph_edges nodes)" and "nodes_ok nodes"
    and "kahn_inv (graph_ids nodes) (graph_deps nodes) order [] indeg"
  shows "set order = graph_ids nodes"
proof (rule ccontr)
  assume "set order \<noteq> graph_ids nodes"
  then obtain x where x: "x \<in> graph_ids nodes - set order" using assms(3) by (auto simp: kahn_inv_def)
  have "finite (graph_edges nodes)"
    by (rule finite_subset [of _ "graph_ids nodes \<times> graph_ids nodes"])
      (use assms(2) in \<open>auto simp: graph_edges_def graph_ids_def nodes_ok_def\<close>)
  then have "wf (graph_edges nodes)" using assms(1) by (rule finite_acyclic_wf)
  from wfE_min [OF this x] obtain z where z: "z \<in> graph_ids nodes - set order"
    and least: "\<And>d. (d, z) \<in> graph_edges nodes \<Longrightarrow> d \<notin> graph_ids nodes - set order" by blast
  have "graph_deps nodes z \<subseteq> set order"
    using least graph_deps_closed [OF assms(2), of z] by (auto simp: graph_deps_def)
  then have "z \<in> available (graph_ids nodes) (graph_deps nodes) (set order)" using z by (simp add: available_def)
  then show False using assms(3) by (simp add: kahn_inv_def)
qed

section \<open>Independent verifiers\<close>

text \<open>The agents and verifiers strictly above a node, and those at or above it.\<close>

definition agents_above :: "workflow_node list \<Rightarrow> js_string \<Rightarrow> js_string set" where
  "agents_above nodes k = (\<Union>m\<in>{m \<in> set nodes. (wn_nodeId m, k) \<in> (graph_edges nodes)\<^sup>+}. own_agents (wn_kind m))"

definition verifier_new :: "workflow_node list \<Rightarrow> workflow_node \<Rightarrow> bool" where
  "verifier_new nodes n = (case wn_kind n of VerificationNode v \<Rightarrow> v \<notin> agents_above nodes (wn_nodeId n) | _ \<Rightarrow> True)"

lemma agents_above_step:
  assumes "nodes_ok nodes" and "n \<in> set nodes"
  shows "agents_above nodes (wn_nodeId n)
    = (\<Union>d\<in>set (wn_dependsOn n). agents_above nodes d \<union> own_agents (wn_kind (the (node_by_id nodes d))))"
proof -
  have edge: "(d, wn_nodeId n) \<in> graph_edges nodes \<longleftrightarrow> d \<in> set (wn_dependsOn n)" for d
    using graph_deps_node [OF assms] by (auto simp: graph_deps_def)
  have path: "(k, wn_nodeId n) \<in> (graph_edges nodes)\<^sup>+
      \<longleftrightarrow> (\<exists>d\<in>set (wn_dependsOn n). k = d \<or> (k, d) \<in> (graph_edges nodes)\<^sup>+)" for k
  proof
    assume "(k, wn_nodeId n) \<in> (graph_edges nodes)\<^sup>+"
    then show "\<exists>d\<in>set (wn_dependsOn n). k = d \<or> (k, d) \<in> (graph_edges nodes)\<^sup>+"
      by (cases rule: tranclE) (use edge in auto)
  next
    assume "\<exists>d\<in>set (wn_dependsOn n). k = d \<or> (k, d) \<in> (graph_edges nodes)\<^sup>+"
    then show "(k, wn_nodeId n) \<in> (graph_edges nodes)\<^sup>+"
      using edge by (auto intro: trancl_into_trancl)
  qed
  have own: "own_agents (wn_kind (the (node_by_id nodes d))) = (\<Union>m\<in>{m \<in> set nodes. wn_nodeId m = d}. own_agents (wn_kind m))"
    if "d \<in> set (wn_dependsOn n)" for d
  proof -
    from that assms obtain m where m: "m \<in> set nodes" "d = wn_nodeId m"
      by (auto simp: nodes_ok_def graph_ids_def)
    have "{m' \<in> set nodes. wn_nodeId m' = d} = {m}" using m same_node [OF assms(1)] by blast
    then show ?thesis using node_by_id_node [OF assms(1) m(1)] m(2) by simp
  qed
  have "agents_above nodes (wn_nodeId n)
      = (\<Union>m\<in>{m \<in> set nodes. \<exists>d\<in>set (wn_dependsOn n). wn_nodeId m = d \<or> (wn_nodeId m, d) \<in> (graph_edges nodes)\<^sup>+}.
          own_agents (wn_kind m))"
    by (simp only: agents_above_def path)
  also have "\<dots> = (\<Union>d\<in>set (wn_dependsOn n). agents_above nodes d
      \<union> (\<Union>m\<in>{m \<in> set nodes. wn_nodeId m = d}. own_agents (wn_kind m)))"
    unfolding agents_above_def by blast
  also have "\<dots> = (\<Union>d\<in>set (wn_dependsOn n). agents_above nodes d \<union> own_agents (wn_kind (the (node_by_id nodes d))))"
    by (rule SUP_cong [OF refl]) (simp only: own)
  finally show ?thesis .
qed

lemma check_verifiers_iff:
  assumes "nodes_ok nodes" and "set order \<subseteq> graph_ids nodes"
    and "\<forall>i<length order. graph_deps nodes (order ! i) \<subseteq> placed \<union> set (take i order)"
    and "\<forall>d\<in>placed. agents d = Some (agents_above nodes d \<union> own_agents (wn_kind (the (node_by_id nodes d))))"
  shows "check_verifiers (node_by_id nodes) agents order = None
    \<longleftrightarrow> (\<forall>k\<in>set order. verifier_new nodes (the (node_by_id nodes k)))"
  using assms(2-)
proof (induction order arbitrary: placed agents)
  case (Cons k order)
  from Cons.prems(1) obtain n where n: "n \<in> set nodes" "k = wn_nodeId n" by (auto simp: graph_ids_def)
  have byId: "node_by_id nodes k = Some n" using node_by_id_node [OF assms(1) n(1)] n(2) by simp
  have deps: "set (wn_dependsOn n) \<subseteq> placed"
    using Cons.prems(2) graph_deps_node [OF assms(1) n(1)] n(2) by (force dest: spec [of _ 0])
  have above: "inherited_agents agents (wn_dependsOn n) = agents_above nodes k"
    unfolding inherited_agents_def n(2) agents_above_step [OF assms(1) n(1)]
    by (rule SUP_cong [OF refl]) (use deps Cons.prems(3) in auto)
  define agents' where "agents' = agents(k \<mapsto> agents_above nodes k \<union> own_agents (wn_kind n))"
  have "check_verifiers (node_by_id nodes) agents' order = None
      \<longleftrightarrow> (\<forall>k\<in>set order. verifier_new nodes (the (node_by_id nodes k)))"
  proof (rule Cons.IH [of "insert k placed"])
    show "\<forall>i<length order. graph_deps nodes (order ! i) \<subseteq> insert k placed \<union> set (take i order)"
    proof (intro allI impI)
      fix i assume "i < length order"
      then show "graph_deps nodes (order ! i) \<subseteq> insert k placed \<union> set (take i order)"
        using Cons.prems(2) [rule_format, of "Suc i"] by simp
    qed
  qed (use Cons.prems byId in \<open>auto simp: agents'_def\<close>)
  then show ?case
    by (auto simp: Let_def byId above agents'_def [symmetric] verifier_new_def n(2) [symmetric] split: workflow_kind.splits)
qed simp

section \<open>What a valid workflow graph is\<close>

definition workflow_ok :: "workflow_node list \<Rightarrow> js_string list \<Rightarrow> js_string list \<Rightarrow> bool" where
  "workflow_ok nodes entry output \<longleftrightarrow> nodes_ok nodes
     \<and> (\<forall>n\<in>set nodes. is_verification (wn_kind n) \<longrightarrow> wn_dependsOn n \<noteq> [])
     \<and> acyclic (graph_edges nodes)
     \<and> (\<forall>n\<in>set nodes. verifier_new nodes n)
     \<and> entry = sorted_list_of_set {x \<in> graph_ids nodes. graph_deps nodes x = {}}
     \<and> output = sorted_list_of_set {x \<in> graph_ids nodes. \<forall>y. (x, y) \<notin> graph_edges nodes}
     \<and> (\<forall>n\<in>set nodes. wn_nodeId n \<in> set output \<longrightarrow> is_verification (wn_kind n))"

lemma sameStrings_iff: "sameStrings l r \<longleftrightarrow> l = r"
  unfolding sameStrings_def list_all_iff list_eq_iff_nth_eq [of l r] by auto

lemma length_remdups_distinct: "length (remdups xs) = length xs \<longleftrightarrow> distinct xs"
  by (simp add: length_remdups_eq)

lemma check_node_None: "check_node (node_by_id nodes) n = None \<longleftrightarrow> distinct (wn_dependsOn n)
    \<and> set (wn_dependsOn n) \<subseteq> graph_ids nodes \<and> (is_verification (wn_kind n) \<longrightarrow> wn_dependsOn n \<noteq> [])"
  by (auto simp: check_node_def length_remdups_distinct list_ex_iff node_by_id_dom)

lemma graph_checks_None: "first_throw (graph_checks nodes entry output) = None \<longleftrightarrow> nodes_ok nodes
    \<and> (\<forall>n\<in>set nodes. is_verification (wn_kind n) \<longrightarrow> wn_dependsOn n \<noteq> [])
    \<and> set entry \<subseteq> graph_ids nodes \<and> set output \<subseteq> graph_ids nodes"
proof -
  have "length (remdups (map wn_nodeId nodes)) = length nodes \<longleftrightarrow> distinct (map wn_nodeId nodes)"
    using length_remdups_distinct [of "map wn_nodeId nodes"] by simp
  then show ?thesis
    unfolding graph_checks_def first_throw_None throw_if_None list_ex_iff node_by_id_dom
      first_throw_map_None check_node_None nodes_ok_def by auto
qed

text \<open>Past the first checks the result is \<open>finish_graph\<close> of the order the loop ends with.\<close>

lemma validate_runs:
  assumes "first_throw (graph_checks nodes entry output) = None"
  obtains order indeg where "validateWorkflowGraph nodes entry output = Some (finish_graph nodes entry output order)"
    "kahn_inv (graph_ids nodes) (graph_deps nodes) order [] indeg"
proof -
  have "nodes_ok nodes" using assms by (simp add: graph_checks_None)
  then obtain order indeg where "kahn_loop (dependents_of nodes) (graph_roots nodes) (indegrees nodes) [] = Some order"
    "kahn_inv (graph_ids nodes) (graph_deps nodes) order [] indeg" by (rule program_loop)
  then show thesis using assms that by (simp add: validateWorkflowGraph_def)
qed

lemma order_length:
  assumes "nodes_ok nodes" and "kahn_inv (graph_ids nodes) (graph_deps nodes) order [] indeg"
  shows "length order = length nodes \<longleftrightarrow> acyclic (graph_edges nodes)"
    "length order = length nodes \<longleftrightarrow> set order = graph_ids nodes"
proof -
  have d: "distinct order" "set order \<subseteq> graph_ids nodes" "greedy (graph_ids nodes) (graph_deps nodes) order"
    using assms(2) by (simp_all add: kahn_inv_def)
  have card: "card (graph_ids nodes) = length nodes"
    using assms(1) distinct_card [of "map wn_nodeId nodes"] by (simp add: nodes_ok_def graph_ids_def)
  have fin: "finite (graph_ids nodes)" by (simp add: graph_ids_def)
  show full: "length order = length nodes \<longleftrightarrow> set order = graph_ids nodes"
    using d(1,2) fin card by (metis card_subset_eq distinct_card)
  show "length order = length nodes \<longleftrightarrow> acyclic (graph_edges nodes)"
    unfolding full using full_order_acyclic [OF d(3,1)] acyclic_full_order [OF _ assms] by blast
qed

lemma graph_finish_Inr:
  assumes "nodes_ok nodes" and "kahn_inv (graph_ids nodes) (graph_deps nodes) order [] indeg"
    and "set output \<subseteq> graph_ids nodes"
  shows "finish_graph nodes entry output order = Inr order' \<longleftrightarrow> order' = order \<and> acyclic (graph_edges nodes)
    \<and> (\<forall>n\<in>set nodes. verifier_new nodes n)
    \<and> entry = sorted_list_of_set {x \<in> graph_ids nodes. graph_deps nodes x = {}}
    \<and> output = sorted_list_of_set {x \<in> graph_ids nodes. \<forall>y. (x, y) \<notin> graph_edges nodes}
    \<and> (\<forall>n\<in>set nodes. wn_nodeId n \<in> set output \<longrightarrow> is_verification (wn_kind n))"
proof -
  have d: "set order \<subseteq> graph_ids nodes" "greedy (graph_ids nodes) (graph_deps nodes) order"
    using assms(2) by (simp_all add: kahn_inv_def)
  have v: "validateIndependentVerifiers order (node_by_id nodes) = None
      \<longleftrightarrow> (\<forall>k\<in>set order. verifier_new nodes (the (node_by_id nodes k)))"
    unfolding validateIndependentVerifiers_def
    by (rule check_verifiers_iff [OF assms(1) d(1), where placed = "{}"]) (use greedy_topological [OF d(2)] in auto)
  have all: "(\<forall>k\<in>graph_ids nodes. verifier_new nodes (the (node_by_id nodes k))) \<longleftrightarrow> (\<forall>n\<in>set nodes. verifier_new nodes n)"
    using node_by_id_node [OF assms(1)] by (simp add: graph_ids_def)
  have out: "(\<forall>k\<in>set output. \<exists>n. node_by_id nodes k = Some n \<and> is_verification (wn_kind n))
      \<longleftrightarrow> (\<forall>n\<in>set nodes. wn_nodeId n \<in> set output \<longrightarrow> is_verification (wn_kind n))"
    using node_by_id_node [OF assms(1)] assms(3) by (auto simp: graph_ids_def)
  have ex: "\<not> list_ex (\<lambda>k. case node_by_id nodes k of None \<Rightarrow> True | Some n \<Rightarrow> \<not> is_verification (wn_kind n)) output
      \<longleftrightarrow> (\<forall>k\<in>set output. \<exists>n. node_by_id nodes k = Some n \<and> is_verification (wn_kind n))"
    by (auto simp: list_ex_iff split: option.splits)
  have "finish_graph nodes entry output order = Inr order' \<longleftrightarrow> order' = order \<and> length order = length nodes
    \<and> (\<forall>k\<in>set order. verifier_new nodes (the (node_by_id nodes k)))
    \<and> graph_roots nodes = entry \<and> graph_terminals nodes = output
    \<and> (\<forall>n\<in>set nodes. wn_nodeId n \<in> set output \<longrightarrow> is_verification (wn_kind n))"
    unfolding finish_graph_def guarded_Inr first_throw_None throw_if_None v sameStrings_iff ex out
    by auto
  then show ?thesis
    using order_length [OF assms(1,2)] all by (auto simp: roots_set [OF assms(1)] terminals_set [OF assms(1)])
qed

lemma accepted_iff:
  "(\<exists>order. validateWorkflowGraph nodes entry output = Some (Inr order)) \<longleftrightarrow> workflow_ok nodes entry output"
proof (cases "first_throw (graph_checks nodes entry output)")
  case None
  then have g: "nodes_ok nodes" "set output \<subseteq> graph_ids nodes"
    "\<forall>n\<in>set nodes. is_verification (wn_kind n) \<longrightarrow> wn_dependsOn n \<noteq> []"
    by (simp_all add: graph_checks_None)
  from None obtain order indeg where
    r: "validateWorkflowGraph nodes entry output = Some (finish_graph nodes entry output order)"
    and inv: "kahn_inv (graph_ids nodes) (graph_deps nodes) order [] indeg" by (rule validate_runs)
  show ?thesis
    unfolding r option.inject graph_finish_Inr [OF g(1) inv g(2)] workflow_ok_def using g(1,3) by auto
next
  case (Some e)
  have "first_throw (graph_checks nodes entry output) = None" if w: "workflow_ok nodes entry output"
  proof -
    have "set entry \<subseteq> graph_ids nodes" "set output \<subseteq> graph_ids nodes"
      using w by (auto simp: workflow_ok_def graph_ids_def)
    then show ?thesis using w by (simp add: graph_checks_None workflow_ok_def)
  qed
  then show ?thesis using Some by (auto simp: validateWorkflowGraph_def)
qed

lemma accepted_order:
  assumes "validateWorkflowGraph nodes entry output = Some (Inr order)"
  shows "distinct order \<and> set order = graph_ids nodes
    \<and> greedy (graph_ids nodes) (graph_deps nodes) order
    \<and> (\<forall>i<length order. graph_deps nodes (order ! i) \<subseteq> set (take i order))"
proof -
  have c: "first_throw (graph_checks nodes entry output) = None"
    using assms by (auto simp: validateWorkflowGraph_def split: option.splits)
  then have g: "nodes_ok nodes" "set output \<subseteq> graph_ids nodes" by (simp_all add: graph_checks_None)
  from c obtain order' indeg where
    r: "validateWorkflowGraph nodes entry output = Some (finish_graph nodes entry output order')"
    and inv: "kahn_inv (graph_ids nodes) (graph_deps nodes) order' [] indeg" by (rule validate_runs)
  have f: "finish_graph nodes entry output order' = Inr order" using assms r by simp
  then have "order' = order" "acyclic (graph_edges nodes)"
    unfolding graph_finish_Inr [OF g(1) inv g(2)] by auto
  then show ?thesis
    using inv acyclic_full_order [OF _ g(1) inv] greedy_topological by (simp add: kahn_inv_def)
qed

lemma greedy_unique:
  assumes "greedy ids D xs" and "greedy ids D ys" and "length xs = length ys"
  shows "xs = ys"
proof -
  have "take i xs = take i ys" if "i \<le> length xs" for i
    using that
  proof (induction i)
    case (Suc i)
    then have t: "take i xs = take i ys" and i: "i < length xs" "i < length ys" using assms(3) by simp_all
    have "xs ! i \<le> ys ! i" "ys ! i \<le> xs ! i"
      using assms(1,2) i t unfolding greedy_def by metis+
    then have "xs ! i = ys ! i" by simp
    then show ?case using t i by (simp add: take_Suc_conv_app_nth)
  qed simp
  from this [of "length xs"] show ?thesis using assms(3) by simp
qed

section \<open>Properties\<close>

text \<open>
  C39: validation always returns: the worklist loop ends on every input, also on cyclic graphs
  and on graphs the first checks reject.
\<close>

theorem workflow_validation_returns: "\<exists>r. validateWorkflowGraph nodes entry output = Some r"
proof (cases "first_throw (graph_checks nodes entry output)")
  case None
  then show ?thesis by (rule validate_runs) blast
next
  case (Some e)
  then show ?thesis by (simp add: validateWorkflowGraph_def)
qed

text \<open>
  C6: a graph is accepted exactly when it is a valid workflow: node identifiers unique,
  dependencies known and without duplicates, no cycle, every verifier with a dependency and
  different from every agent and verifier above it, the entries the sorted roots, the outputs
  the sorted sinks, and every output a verification.
\<close>

theorem workflow_accepted_iff:
  "(\<exists>order. validateWorkflowGraph nodes entry output = Some (Inr order)) \<longleftrightarrow> workflow_ok nodes entry output"
  by (rule accepted_iff)

text \<open>
  C7: the order of an accepted graph has every node exactly once, after all its dependencies,
  and at every position it has the least of the nodes whose dependencies are already placed.
\<close>

theorem workflow_order_least:
  assumes "validateWorkflowGraph nodes entry output = Some (Inr order)"
  shows "distinct order \<and> set order = graph_ids nodes
    \<and> greedy (graph_ids nodes) (graph_deps nodes) order
    \<and> (\<forall>i<length order. graph_deps nodes (order ! i) \<subseteq> set (take i order))"
  by (rule accepted_order [OF assms])

text \<open>
  The result does not depend on how the nodes are listed: a reordering of an accepted graph
  is accepted with the same order.
\<close>

theorem workflow_order_canonical:
  assumes "validateWorkflowGraph nodes entry output = Some (Inr order)"
    and "set nodes' = set nodes" and "length nodes' = length nodes"
  shows "validateWorkflowGraph nodes' entry output = Some (Inr order)"
proof -
  have w: "workflow_ok nodes entry output" using assms(1) accepted_iff by blast
  have same: "graph_ids nodes' = graph_ids nodes" "graph_edges nodes' = graph_edges nodes"
    "graph_deps nodes' = graph_deps nodes"
    by (simp_all add: graph_ids_def graph_edges_def graph_deps_def assms(2) fun_eq_iff)
  have above: "agents_above nodes' = agents_above nodes"
    by (simp add: agents_above_def same assms(2) fun_eq_iff)
  have "distinct (map wn_nodeId nodes')"
  proof -
    have "distinct (map wn_nodeId nodes)" using w by (simp add: workflow_ok_def nodes_ok_def)
    then have "card (set (map wn_nodeId nodes')) = length (map wn_nodeId nodes')"
      using assms(2,3) distinct_card [of "map wn_nodeId nodes"] by simp
    then show ?thesis by (rule card_distinct)
  qed
  then have "workflow_ok nodes' entry output"
    using w by (simp add: workflow_ok_def nodes_ok_def same above assms(2) verifier_new_def cong: workflow_kind.case_cong)
  then obtain order' where o: "validateWorkflowGraph nodes' entry output = Some (Inr order')"
    using accepted_iff by blast
  have x: "distinct order" "set order = graph_ids nodes" "greedy (graph_ids nodes) (graph_deps nodes) order"
    using accepted_order [OF assms(1)] by simp_all
  have y: "distinct order'" "set order' = graph_ids nodes" "greedy (graph_ids nodes) (graph_deps nodes) order'"
    using accepted_order [OF o] same by simp_all
  have "length order' = length order" using x(1,2) y(1,2) by (metis distinct_card)
  with greedy_unique [OF y(3) x(3)] o show ?thesis by simp
qed

text \<open>
  C40: a graph that passes the first checks is reported as cyclic exactly when its dependency
  relation has a cycle.
\<close>

theorem workflow_cycle_reported:
  assumes "first_throw (graph_checks nodes entry output) = None"
  shows "validateWorkflowGraph nodes entry output = Some (Inl (WorkflowVersionError ''workflow_graph_cycle''))
    \<longleftrightarrow> \<not> acyclic (graph_edges nodes)"
proof -
  have g: "nodes_ok nodes" using assms by (simp add: graph_checks_None)
  from assms obtain order indeg where
    r: "validateWorkflowGraph nodes entry output = Some (finish_graph nodes entry output order)"
    and inv: "kahn_inv (graph_ids nodes) (graph_deps nodes) order [] indeg" by (rule validate_runs)
  have v: "check_verifiers byId agents ks \<noteq> Some (WorkflowVersionError ''workflow_graph_cycle'')" for byId agents ks
    by (induction ks arbitrary: agents) (simp_all add: Let_def)
  have "finish_graph nodes entry output order = Inl (WorkflowVersionError ''workflow_graph_cycle'')
      \<longleftrightarrow> length order \<noteq> length nodes"
    using v [of "node_by_id nodes" "\<lambda>_. None" order]
    by (auto simp: finish_graph_def guarded_def first_throw.simps throw_if_def validateIndependentVerifiers_def
        split: option.splits if_splits)
  then show ?thesis unfolding r using order_length(1) [OF g inv] by simp
qed

section \<open>A concrete graph\<close>

definition sample_nodes :: "workflow_node list" where
  "sample_nodes = [\<lparr>wn_nodeId = js ''c'', wn_dependsOn = [js ''b'', js ''a''], wn_kind = VerificationNode (js ''v'')\<rparr>,
     \<lparr>wn_nodeId = js ''b'', wn_dependsOn = [js ''a''], wn_kind = AgentNode (js ''w'')\<rparr>,
     \<lparr>wn_nodeId = js ''a'', wn_dependsOn = [], wn_kind = HumanGate\<rparr>]"

definition sample_nodes' :: "workflow_node list" where
  "sample_nodes' = rev sample_nodes"

definition sample_order :: "js_string list" where
  "sample_order = [js ''a'', js ''b'', js ''c'']"

lemma sample_graph_accepted:
  "validateWorkflowGraph sample_nodes [js ''a''] [js ''c''] = Some (Inr sample_order)"
  by (simp add: validateWorkflowGraph_def graph_checks_def sample_nodes_def node_by_id_def check_node_def
      is_verification_def dependents_of_def push_node_def graph_roots_def indegrees_def kahn_loop.simps
      finish_graph_def validateIndependentVerifiers_def inherited_agents_def sameStrings_def graph_terminals_def
      sample_order_def js_def Let_def)

theorem workflow_order_least_witness:
  "validateWorkflowGraph sample_nodes [js ''a''] [js ''c''] = Some (Inr sample_order)
    \<and> set sample_order = graph_ids sample_nodes"
  using workflow_order_least [OF sample_graph_accepted] sample_graph_accepted by blast

theorem workflow_order_canonical_witness:
  "validateWorkflowGraph sample_nodes' [js ''a''] [js ''c''] = Some (Inr sample_order)"
  by (rule workflow_order_canonical [OF sample_graph_accepted]) (simp_all add: sample_nodes'_def)

definition cyclic_nodes :: "workflow_node list" where
  "cyclic_nodes = [\<lparr>wn_nodeId = js ''a'', wn_dependsOn = [js ''a''], wn_kind = HumanGate\<rparr>]"

theorem workflow_cycle_reported_witness:
  "validateWorkflowGraph cyclic_nodes [] [] = Some (Inl (WorkflowVersionError ''workflow_graph_cycle''))"
proof -
  have c: "first_throw (graph_checks cyclic_nodes [] []) = None"
    by (simp add: graph_checks_def cyclic_nodes_def node_by_id_def check_node_def is_verification_def)
  have "(js ''a'', js ''a'') \<in> graph_edges cyclic_nodes"
    by (simp add: graph_edges_def cyclic_nodes_def)
  then have "\<not> acyclic (graph_edges cyclic_nodes)" by (auto simp: acyclic_def)
  with workflow_cycle_reported [OF c] show ?thesis by simp
qed

end
