(* ===== verification/Workflow_Version.thy ===== *)
theory Workflow_Version
  imports Workflow_Flow Workflow_Graph
begin

text \<open>
  The compilation of a workflow version, \<open>workflow-version.ts\<close>, and its durable text,
  \<open>workflow-version-codec.ts\<close>.  The digest is computed by the caller's \<open>WorkflowContentDigester\<close>, the argument
  \<open>sha256\<close>.
\<close>

section \<open>Data\<close>

record workflow_source =
  sw_workflowId :: js_string
  sw_workflowVersionId :: js_string
  sw_name :: js_string
  sw_description :: js_string
  sw_inputSchema :: wf_schema
  sw_outputSchema :: wf_schema
  sw_entryNodeIds :: "js_string list"
  sw_outputNodeIds :: "js_string list"
  sw_nodes :: "wf_node list"

text \<open>A compiled version has the fields of its source and two more.\<close>

record compiled_workflow =
  cw_source :: workflow_source
  cw_contentDigest :: js_string
  cw_executionOrder :: "js_string list"

definition kind_fields :: "node_kind \<Rightarrow> (string \<times> json) list" where
  "kind_fields k = (case k of
     AgentKind a \<Rightarrow> [(''kind'', JStr (js ''agent'')), (''agentVersionId'', JStr a)]
   | HumanGateKind p \<Rightarrow> [(''kind'', JStr (js ''humanGate'')), (''approvalPolicyId'', JStr p)]
   | VerificationKind a \<Rightarrow> [(''kind'', JStr (js ''verification'')), (''verifierAgentVersionId'', JStr a)])"

definition node_value :: "wf_node \<Rightarrow> json" where
  "node_value n = js_object ([(''nodeId'', JStr (wd_nodeId n)), (''title'', JStr (wd_title n)),
     (''instruction'', JStr (wd_instruction n)), (''dependsOn'', string_list (wd_dependsOn n)),
     (''inputSchema'', schema_value (wd_inputSchema n)), (''outputSchema'', schema_value (wd_outputSchema n))]
     @ kind_fields (wd_kind n))"

definition content_fields :: "workflow_source \<Rightarrow> (string \<times> json) list" where
  "content_fields s = [(''workflowId'', JStr (sw_workflowId s)), (''workflowVersionId'', JStr (sw_workflowVersionId s)),
     (''name'', JStr (sw_name s)), (''description'', JStr (sw_description s)),
     (''inputSchema'', schema_value (sw_inputSchema s)), (''outputSchema'', schema_value (sw_outputSchema s)),
     (''entryNodeIds'', string_list (sw_entryNodeIds s)), (''outputNodeIds'', string_list (sw_outputNodeIds s)),
     (''nodes'', JArr (map node_value (sw_nodes s)))]"

definition source_value :: "workflow_source \<Rightarrow> json" where
  "source_value s = js_object ((''schemaVersion'', JStr (js ''crewon.workflow-version-source.v0'')) # content_fields s)"

definition compiled_value :: "compiled_workflow \<Rightarrow> json" where
  "compiled_value w = js_object ((''schemaVersion'', JStr (js ''crewon.workflow-version.v0''))
     # (''contentDigest'', JStr (cw_contentDigest w)) # content_fields (cw_source w)
     @ [(''executionOrder'', string_list (cw_executionOrder w))])"

section \<open>Fields\<close>

definition version_id :: "json \<Rightarrow> string \<Rightarrow> js_string res" where
  "version_id v code = (case v of JStr s \<Rightarrow> parseWorkflowVersionIdentityId s code | _ \<Rightarrow> wf_error code)"

definition is_node_id_tail :: "nat \<Rightarrow> bool" where
  "is_node_id_tail u \<longleftrightarrow> is_alnum u \<or> u = 95 \<or> u = 45"

definition matches_node_id :: "js_string \<Rightarrow> bool" where
  "matches_node_id s \<longleftrightarrow> utf8_length s \<le> 128 \<and> (case s of [] \<Rightarrow> False | u # t \<Rightarrow> is_alnum u \<and> list_all is_node_id_tail t)"

definition requireNodeId :: "string \<Rightarrow> json \<Rightarrow> js_string res" where
  "requireNodeId code v = (case v of JStr s \<Rightarrow> if matches_node_id s then Inr s else wf_error code | _ \<Rightarrow> wf_error code)"

definition version_text :: "json \<Rightarrow> nat \<Rightarrow> string \<Rightarrow> js_string res" where
  "version_text v maxBytes code = (case v of
     JStr s \<Rightarrow> if \<not> isWellFormedUnicode s \<or> is_blank s \<or> maxBytes < utf8_length s \<or> list_ex is_forbidden_unit s
       then wf_error code else Inr s
   | _ \<Rightarrow> wf_error code)"

definition version_require_digest :: "js_string \<Rightarrow> string \<Rightarrow> check" where
  "version_require_digest s code = wf_throw_if (\<not> matches_digest s) code"

definition normalizeNodeIdSet :: "json \<Rightarrow> string \<Rightarrow> bool \<Rightarrow> js_string list res" where
  "normalizeNodeIdSet v code allowEmpty = (case v of
     JArr vs \<Rightarrow> if \<not> allowEmpty \<and> vs = [] \<or> 64 < length vs then wf_error code
       else then_do (map_res (requireNodeId code) vs) (\<lambda>ids.
         if length (remdups ids) \<noteq> length ids then wf_error code else Inr (sort ids))
   | _ \<Rightarrow> wf_error code)"

section \<open>Nodes\<close>

definition common_node_keys :: "string list" where
  "common_node_keys = [''dependsOn'', ''inputSchema'', ''instruction'', ''kind'', ''nodeId'', ''outputSchema'', ''title'']"

definition kind_is :: "json \<Rightarrow> string \<Rightarrow> bool" where
  "kind_is v k \<longleftrightarrow> get_prop v ''kind'' = Some (JStr (js k))"

definition node_kind_id :: "json \<Rightarrow> string \<Rightarrow> string \<Rightarrow> js_string res" where
  "node_kind_id v key code = guarded
     [wf_throw_if (\<not> has_exact_keys v (common_node_keys @ [key])) ''workflow_shape_invalid'']
     (version_id (prop_of v key) code)"

definition parse_node_kind :: "json \<Rightarrow> node_kind res" where
  "parse_node_kind v =
     (if kind_is v ''agent'' then then_do (node_kind_id v ''agentVersionId'' ''workflow_agent_version_id_invalid'') (\<lambda>a. Inr (AgentKind a))
      else if kind_is v ''humanGate'' then
        then_do (node_kind_id v ''approvalPolicyId'' ''workflow_approval_policy_id_invalid'') (\<lambda>p. Inr (HumanGateKind p))
      else if kind_is v ''verification'' then
        then_do (node_kind_id v ''verifierAgentVersionId'' ''workflow_verifier_agent_version_id_invalid'') (\<lambda>a. Inr (VerificationKind a))
      else wf_error ''workflow_node_kind_invalid'')"

definition normalizeNode :: "json \<Rightarrow> wf_node res" where
  "normalizeNode v = guarded [wf_throw_if (\<not> is_plain_object v) ''workflow_node_invalid'']
     (then_do (requireNodeId ''workflow_node_id_invalid'' (prop_of v ''nodeId'')) (\<lambda>nodeId.
      then_do (version_text (prop_of v ''title'') 256 ''workflow_node_title_invalid'') (\<lambda>title.
      then_do (version_text (prop_of v ''instruction'') 9999 ''workflow_node_instruction_invalid'') (\<lambda>instruction.
      then_do (normalizeNodeIdSet (prop_of v ''dependsOn'') ''workflow_dependencies_invalid'' True) (\<lambda>dependsOn.
      then_do (parseWorkflowObjectSchema (prop_of v ''inputSchema'') ''workflow_node_input_schema_invalid'') (\<lambda>inputSchema.
      then_do (parseWorkflowObjectSchema (prop_of v ''outputSchema'') ''workflow_node_output_schema_invalid'') (\<lambda>outputSchema.
        guarded [wf_throw_if (nodeId \<in> set dependsOn) ''workflow_self_dependency'']
          (then_do (parse_node_kind v) (\<lambda>kind.
            Inr \<lparr>wd_nodeId = nodeId, wd_title = title, wd_instruction = instruction, wd_dependsOn = dependsOn,
              wd_inputSchema = inputSchema, wd_outputSchema = outputSchema, wd_kind = kind\<rparr>)))))))))"

definition edge_count :: "wf_node list \<Rightarrow> nat" where
  "edge_count nodes = sum_list (map (\<lambda>n. length (wd_dependsOn n)) nodes)"

definition normalize_nodes :: "json \<Rightarrow> wf_node list res" where
  "normalize_nodes v = (case v of
     JArr vs \<Rightarrow> if vs = [] \<or> 64 < length vs then wf_error ''workflow_nodes_invalid''
       else then_do (map_res normalizeNode vs) (\<lambda>ns. let nodes = sort_key wd_nodeId ns in guarded
         [wf_throw_if (\<not> distinct (map wd_nodeId nodes)) ''workflow_node_id_conflict'',
          wf_throw_if (256 < edge_count nodes) ''workflow_edges_limit_exceeded'']
         (Inr nodes))
   | _ \<Rightarrow> wf_error ''workflow_nodes_invalid'')"

section \<open>Compilation\<close>

definition source_keys :: "string list" where
  "source_keys = [''description'', ''entryNodeIds'', ''inputSchema'', ''name'', ''nodes'', ''outputNodeIds'',
     ''outputSchema'', ''schemaVersion'', ''workflowId'', ''workflowVersionId'']"

definition parse_workflow_source :: "json \<Rightarrow> workflow_source res" where
  "parse_workflow_source v = guarded
     [wf_throw_if (\<not> is_plain_object v) ''workflow_source_invalid'',
      wf_throw_if (\<not> has_exact_keys v source_keys) ''workflow_shape_invalid'',
      wf_throw_if (get_prop v ''schemaVersion'' \<noteq> Some (JStr (js ''crewon.workflow-version-source.v0''))) ''workflow_source_invalid'']
     (then_do (version_id (prop_of v ''workflowId'') ''workflow_id_invalid'') (\<lambda>workflowId.
      then_do (version_id (prop_of v ''workflowVersionId'') ''workflow_version_id_invalid'') (\<lambda>workflowVersionId.
      then_do (version_text (prop_of v ''name'') 256 ''workflow_name_invalid'') (\<lambda>name.
      then_do (version_text (prop_of v ''description'') (4 * 1024) ''workflow_description_invalid'') (\<lambda>description.
      then_do (parseWorkflowObjectSchema (prop_of v ''inputSchema'') ''workflow_input_schema_invalid'') (\<lambda>inputSchema.
      then_do (parseWorkflowObjectSchema (prop_of v ''outputSchema'') ''workflow_output_schema_invalid'') (\<lambda>outputSchema.
      then_do (normalize_nodes (prop_of v ''nodes'')) (\<lambda>nodes.
      then_do (normalizeNodeIdSet (prop_of v ''entryNodeIds'') ''workflow_entry_nodes_invalid'' False) (\<lambda>entryNodeIds.
      then_do (normalizeNodeIdSet (prop_of v ''outputNodeIds'') ''workflow_output_nodes_invalid'' False) (\<lambda>outputNodeIds.
        Inr \<lparr>sw_workflowId = workflowId, sw_workflowVersionId = workflowVersionId, sw_name = name,
          sw_description = description, sw_inputSchema = inputSchema, sw_outputSchema = outputSchema,
          sw_entryNodeIds = entryNodeIds, sw_outputNodeIds = outputNodeIds, sw_nodes = nodes\<rparr>))))))))))"

text \<open>A node as the validation of the graph sees it.\<close>

definition graph_node :: "wf_node \<Rightarrow> workflow_node" where
  "graph_node n = \<lparr>wn_nodeId = wd_nodeId n, wn_dependsOn = wd_dependsOn n,
     wn_kind = (case wd_kind n of AgentKind a \<Rightarrow> AgentNode a | HumanGateKind _ \<Rightarrow> HumanGate | VerificationKind a \<Rightarrow> VerificationNode a)\<rparr>"

text \<open>The validation of the graph always returns (lemma \<open>graph_order_returns\<close>), so the first case is not reached.\<close>

definition execution_order :: "workflow_source \<Rightarrow> js_string list res" where
  "execution_order s = (case validateWorkflowGraph (map graph_node (sw_nodes s)) (sw_entryNodeIds s) (sw_outputNodeIds s) of
     None \<Rightarrow> Inl (PlainError ''does not return'') | Some r \<Rightarrow> r)"

definition same_schema :: "wf_schema \<Rightarrow> wf_schema \<Rightarrow> bool" where
  "same_schema s t \<longleftrightarrow> canonical_json code_units (schema_value s) = canonical_json code_units (schema_value t)"

definition expect_schema :: "wf_schema \<Rightarrow> wf_schema res \<Rightarrow> string \<Rightarrow> check" where
  "expect_schema s derived code = checked (then_do derived (\<lambda>t. guarded [wf_throw_if (\<not> same_schema s t) code] (Inr ())))"

definition is_gate :: "node_kind \<Rightarrow> bool" where
  "is_gate k = (case k of HumanGateKind _ \<Rightarrow> True | _ \<Rightarrow> False)"

definition flow_checks :: "workflow_source \<Rightarrow> check list" where
  "flow_checks s =
     [first_throw (map (\<lambda>n. expect_schema (wd_inputSchema n) (workflowNodeInputSchema (sw_inputSchema s) (sw_nodes s) (wd_nodeId n))
        ''workflow_node_input_flow_schema_mismatch'') (sw_nodes s)),
      wf_throw_if (list_ex (\<lambda>n. is_gate (wd_kind n) \<and> \<not> same_schema (wd_inputSchema n) (wd_outputSchema n)) (sw_nodes s))
        ''workflow_gate_passthrough_schema_mismatch'',
      expect_schema (sw_outputSchema s) (workflowOutputSchema (sw_nodes s) (sw_outputNodeIds s))
        ''workflow_output_flow_schema_mismatch'']"

definition digest_checks :: "workflow_source \<Rightarrow> js_string \<Rightarrow> js_string option \<Rightarrow> check list" where
  "digest_checks s digest expected =
     [wf_throw_if (1024 * 1024 < utf8_length (canonical_json code_units (source_value s))) ''workflow_source_too_large'',
      version_require_digest digest ''workflow_digest_invalid'',
      when_some expected (\<lambda>e. first_throw
        [version_require_digest e ''workflow_expected_digest_invalid'', wf_throw_if (e \<noteq> digest) ''workflow_digest_mismatch''])]"

definition compileWorkflowVersion :: "json \<Rightarrow> (js_string \<Rightarrow> js_string) \<Rightarrow> js_string option \<Rightarrow> compiled_workflow res" where
  "compileWorkflowVersion v sha256 expectedDigest =
     then_do (parse_workflow_source v) (\<lambda>s.
     then_do (execution_order s) (\<lambda>order. guarded (flow_checks s)
       (let digest = sha256 (canonical_json code_units (source_value s)) in
        guarded (digest_checks s digest expectedDigest)
          (Inr \<lparr>cw_source = s, cw_contentDigest = digest, cw_executionOrder = order\<rparr>))))"

section \<open>The durable text\<close>

definition max_workflow_definition_bytes :: nat where
  "max_workflow_definition_bytes = 2 * 1024 * 1024"

definition serializeCompiledWorkflowVersion :: "compiled_workflow \<Rightarrow> js_string res" where
  "serializeCompiledWorkflowVersion w = (let definitionJson = canonical_json code_units (compiled_value w) in guarded
     [wf_throw_if (max_workflow_definition_bytes < utf8_length definitionJson) ''workflow_definition_too_large'']
     (Inr definitionJson))"

definition definition_keys :: "string list" where
  "definition_keys = [''contentDigest'', ''description'', ''entryNodeIds'', ''executionOrder'', ''inputSchema'', ''name'',
     ''nodes'', ''outputNodeIds'', ''outputSchema'', ''schemaVersion'', ''workflowId'', ''workflowVersionId'']"

text \<open>The source the reader rebuilds from a definition.\<close>

definition source_of_definition :: "json \<Rightarrow> json" where
  "source_of_definition d = js_object ((''schemaVersion'', JStr (js ''crewon.workflow-version-source.v0''))
     # map (\<lambda>k. (k, prop_of d k)) [''workflowId'', ''workflowVersionId'', ''name'', ''description'', ''inputSchema'',
         ''outputSchema'', ''entryNodeIds'', ''outputNodeIds'', ''nodes''])"

definition compile_definition :: "json \<Rightarrow> (js_string \<Rightarrow> js_string) \<Rightarrow> compiled_workflow res" where
  "compile_definition d sha256 = (case get_prop d ''contentDigest'' of
     Some (JStr digest) \<Rightarrow> guarded
       [wf_throw_if (get_prop d ''schemaVersion'' \<noteq> Some (JStr (js ''crewon.workflow-version.v0''))) ''workflow_definition_invalid'']
       (compileWorkflowVersion (source_of_definition d) sha256 (Some digest))
   | _ \<Rightarrow> wf_error ''workflow_definition_invalid'')"

definition parseCompiledWorkflowVersion :: "js_string \<Rightarrow> (js_string \<Rightarrow> js_string) \<Rightarrow> compiled_workflow res" where
  "parseCompiledWorkflowVersion definitionJson sha256 = guarded
     [wf_throw_if (max_workflow_definition_bytes < utf8_length definitionJson) ''workflow_definition_invalid'']
     (case json_parse definitionJson of None \<Rightarrow> wf_error ''workflow_definition_invalid''
      | Some d \<Rightarrow> guarded
         [wf_throw_if (\<not> is_plain_object d) ''workflow_definition_invalid'',
          wf_throw_if (\<not> has_exact_keys d definition_keys) ''workflow_definition_invalid'']
         (then_do (compile_definition d sha256) (\<lambda>w. then_do (serializeCompiledWorkflowVersion w) (\<lambda>t. guarded
           [wf_throw_if (t \<noteq> definitionJson \<or> canonical_json code_units (compiled_value w) \<noteq> canonical_json code_units d)
              ''workflow_definition_invalid'']
           (Inr w)))))"

section \<open>A normal field is read back\<close>

lemma requireNodeId_Inr: "requireNodeId code v = Inr s \<longleftrightarrow> v = JStr s \<and> matches_node_id s"
  by (auto simp: requireNodeId_def split: json.splits if_splits)

lemma version_id_read: "version_id v code = Inr s \<Longrightarrow> version_id (JStr s) code = Inr s"
  by (auto simp: version_id_def parseWorkflowVersionIdentityId_def split: json.splits if_splits)

lemma version_text_read: "version_text v n code = Inr s \<Longrightarrow> version_text (JStr s) n code = Inr s"
  by (auto simp: version_text_def split: json.splits if_splits)

lemma map_res_node_ids: "map_res (requireNodeId code) vs = Inr ids \<Longrightarrow> vs = map JStr ids \<and> list_all matches_node_id ids"
proof (induction vs arbitrary: ids)
  case (Cons v vs)
  then show ?case by (auto simp: requireNodeId_Inr)
qed simp

lemma sort_Nil_iff [simp]: "sort_key f xs = [] \<longleftrightarrow> xs = []"
  by (metis length_0_conv length_sort)

lemma node_id_set_Inr: "normalizeNodeIdSet v code b = Inr ids \<Longrightarrow> distinct ids \<and> sorted ids \<and> list_all matches_node_id ids
    \<and> (b \<or> ids \<noteq> []) \<and> length ids \<le> 64"
  by (auto simp: normalizeNodeIdSet_def length_remdups_eq list_all_iff split: json.splits if_splits dest!: map_res_node_ids)

lemma node_id_set_read:
  assumes "normalizeNodeIdSet v code b = Inr ids"
  shows "normalizeNodeIdSet (string_list ids) code b = Inr ids"
proof -
  have i: "distinct ids" "sorted ids" "list_all matches_node_id ids" "b \<or> ids \<noteq> []" "length ids \<le> 64"
    using node_id_set_Inr [OF assms] by blast+
  have "map_res (requireNodeId code) (map JStr ids) = Inr ids"
    using i(3) by (intro map_res_JStr) (simp add: requireNodeId_Inr list_all_iff)
  with i show ?thesis by (auto simp: normalizeNodeIdSet_def string_list_def distinct_remdups_id sort_key_id_if_sorted)
qed

section \<open>A normal node is read back\<close>

definition kind_keys :: "node_kind \<Rightarrow> string list" where
  "kind_keys k = map fst (kind_fields k)"

definition node_fields :: "wf_node \<Rightarrow> (string \<times> json) list" where
  "node_fields n = [(''nodeId'', JStr (wd_nodeId n)), (''title'', JStr (wd_title n)),
     (''instruction'', JStr (wd_instruction n)), (''dependsOn'', string_list (wd_dependsOn n)),
     (''inputSchema'', schema_value (wd_inputSchema n)), (''outputSchema'', schema_value (wd_outputSchema n))]
     @ kind_fields (wd_kind n)"

lemma node_value_fields: "node_value n = js_object (node_fields n)"
  by (simp add: node_value_def node_fields_def)

lemma node_value_plain [simp]: "is_plain_object (node_value n)"
  by (simp add: node_value_fields)

lemma node_fields_ok:
  assumes "plain_ok (schema_value (wd_inputSchema n))" and "plain_ok (schema_value (wd_outputSchema n))"
  shows "plain_ok (node_value n)"
  unfolding node_value_fields plain_ok_js_object using assms
  by (cases "wd_kind n") (simp_all add: node_fields_def kind_fields_def)

lemma parse_node_kind_read:
  assumes k: "parse_node_kind v = Inr (wd_kind n)" and ok: "plain_ok (node_value n)"
  shows "parse_node_kind (sort_json code_units (node_value n)) = Inr (wd_kind n)"
proof -
  have get: "get_prop (sort_json code_units (node_value n)) p = map_option (sort_json code_units) (map_of (node_fields n) p)" for p
    using get_prop_sort_json [OF ok, of code_units p] by (simp add: node_value_fields)
  have keys: "has_exact_keys (sort_json code_units (node_value n)) ks = has_exact_keys (node_value n) ks" for ks
    by (rule has_exact_keys_sort_json [OF ok])
  show ?thesis
  proof (cases "wd_kind n")
    case (AgentKind a)
    then have "has_exact_keys (node_value n) (common_node_keys @ [''agentVersionId''])"
      unfolding node_value_fields by (intro keys_js_object) (auto simp: node_fields_def kind_fields_def common_node_keys_def)
    moreover have "version_id (JStr a) ''workflow_agent_version_id_invalid'' = Inr a"
      using k AgentKind by (auto simp: parse_node_kind_def node_kind_id_def split: if_splits dest: version_id_read)
    ultimately show ?thesis
      by (simp add: parse_node_kind_def kind_is_def node_kind_id_def prop_of_def get keys node_fields_def kind_fields_def AgentKind)
  next
    case (HumanGateKind a)
    then have "has_exact_keys (node_value n) (common_node_keys @ [''approvalPolicyId''])"
      unfolding node_value_fields by (intro keys_js_object) (auto simp: node_fields_def kind_fields_def common_node_keys_def)
    moreover have "version_id (JStr a) ''workflow_approval_policy_id_invalid'' = Inr a"
      using k HumanGateKind by (auto simp: parse_node_kind_def node_kind_id_def split: if_splits dest: version_id_read)
    ultimately show ?thesis
      by (simp add: parse_node_kind_def kind_is_def node_kind_id_def prop_of_def get keys node_fields_def kind_fields_def HumanGateKind)
  next
    case (VerificationKind a)
    then have "has_exact_keys (node_value n) (common_node_keys @ [''verifierAgentVersionId''])"
      unfolding node_value_fields by (intro keys_js_object) (auto simp: node_fields_def kind_fields_def common_node_keys_def)
    moreover have "version_id (JStr a) ''workflow_verifier_agent_version_id_invalid'' = Inr a"
      using k VerificationKind by (auto simp: parse_node_kind_def node_kind_id_def split: if_splits dest: version_id_read)
    ultimately show ?thesis
      by (simp add: parse_node_kind_def kind_is_def node_kind_id_def prop_of_def get keys node_fields_def kind_fields_def VerificationKind)
  qed
qed

lemma normalizeNode_ok:
  assumes "normalizeNode v = Inr n" and "plain_ok v"
  shows "plain_ok (schema_value (wd_inputSchema n))" "plain_ok (schema_value (wd_outputSchema n))" "plain_ok (node_value n)"
    "wd_nodeId n \<notin> set (wd_dependsOn n)" "distinct (wd_dependsOn n)" "matches_node_id (wd_nodeId n)"
    "list_all matches_node_id (wd_dependsOn n)" "is_object_schema (wd_inputSchema n)" "is_object_schema (wd_outputSchema n)"
proof -
  have p: "parseWorkflowObjectSchema (prop_of v ''inputSchema'') ''workflow_node_input_schema_invalid'' = Inr (wd_inputSchema n)"
    "parseWorkflowObjectSchema (prop_of v ''outputSchema'') ''workflow_node_output_schema_invalid'' = Inr (wd_outputSchema n)"
    "wd_nodeId n \<notin> set (wd_dependsOn n)" "requireNodeId ''workflow_node_id_invalid'' (prop_of v ''nodeId'') = Inr (wd_nodeId n)"
    "normalizeNodeIdSet (prop_of v ''dependsOn'') ''workflow_dependencies_invalid'' True = Inr (wd_dependsOn n)"
    using assms(1) by (auto simp: normalizeNode_def)
  note i = object_schema_parsed [OF p(1) plain_ok_prop_of [OF assms(2)]] object_schema_parsed [OF p(2) plain_ok_prop_of [OF assms(2)]]
  show "plain_ok (schema_value (wd_inputSchema n))" "plain_ok (schema_value (wd_outputSchema n))"
    "is_object_schema (wd_inputSchema n)" "is_object_schema (wd_outputSchema n)" by (fact i)+
  then show "plain_ok (node_value n)" by (intro node_fields_ok)
  from p show "wd_nodeId n \<notin> set (wd_dependsOn n)" "distinct (wd_dependsOn n)" "matches_node_id (wd_nodeId n)"
    "list_all matches_node_id (wd_dependsOn n)"
    by (auto simp: requireNodeId_Inr dest: node_id_set_Inr)
qed

lemma normalizeNode_read:
  assumes n: "normalizeNode v = Inr n" and v: "plain_ok v"
  shows "normalizeNode (sort_json code_units (node_value n)) = Inr n"
proof -
  let ?c = "sort_json code_units (node_value n)"
  note ok = normalizeNode_ok [OF n v]
  have pv: "prop_of ?c k = sort_json code_units (prop_of (node_value n) k)" for k
    by (rule prop_of_sort_json [OF ok(3)])
  have props: "prop_of (node_value n) ''nodeId'' = JStr (wd_nodeId n)" "prop_of (node_value n) ''title'' = JStr (wd_title n)"
    "prop_of (node_value n) ''instruction'' = JStr (wd_instruction n)" "prop_of (node_value n) ''dependsOn'' = string_list (wd_dependsOn n)"
    "prop_of (node_value n) ''inputSchema'' = schema_value (wd_inputSchema n)"
    "prop_of (node_value n) ''outputSchema'' = schema_value (wd_outputSchema n)"
    by (simp_all add: prop_of_def node_value_fields node_fields_def)
  from n have parts: "requireNodeId ''workflow_node_id_invalid'' (JStr (wd_nodeId n)) = Inr (wd_nodeId n)"
    "version_text (JStr (wd_title n)) 256 ''workflow_node_title_invalid'' = Inr (wd_title n)"
    "version_text (JStr (wd_instruction n)) 9999 ''workflow_node_instruction_invalid'' = Inr (wd_instruction n)"
    "normalizeNodeIdSet (string_list (wd_dependsOn n)) ''workflow_dependencies_invalid'' True = Inr (wd_dependsOn n)"
    by (auto simp: normalizeNode_def requireNodeId_Inr dest: version_text_read node_id_set_read)
  from n v have schemas: "parseWorkflowObjectSchema (sort_json code_units (schema_value (wd_inputSchema n))) ''workflow_node_input_schema_invalid'' = Inr (wd_inputSchema n)"
    "parseWorkflowObjectSchema (sort_json code_units (schema_value (wd_outputSchema n))) ''workflow_node_output_schema_invalid'' = Inr (wd_outputSchema n)"
    by (auto simp: normalizeNode_def intro: object_schema_parsed(3) plain_ok_prop_of)
  from n have "parse_node_kind v = Inr (wd_kind n)" by (auto simp: normalizeNode_def)
  from parse_node_kind_read [OF this ok(3)] show ?thesis
    using ok(4) by (simp add: normalizeNode_def pv props parts schemas guarded_pass)
qed

section \<open>A compiled version is read back\<close>

lemma normalize_nodes_Inr:
  assumes "normalize_nodes v = Inr nodes" and "plain_ok v"
  shows "distinct (map wd_nodeId nodes)" "sorted (map wd_nodeId nodes)" "edge_count nodes \<le> 256" "nodes \<noteq> []" "length nodes \<le> 64"
    "\<forall>n\<in>set nodes. \<exists>x. normalizeNode x = Inr n \<and> plain_ok x"
proof -
  from assms(1) obtain vs ns where v: "v = JArr vs" "vs \<noteq> []" "length vs \<le> 64" and ns: "map_res normalizeNode vs = Inr ns"
    and e: "nodes = sort_key wd_nodeId ns" and d: "distinct (map wd_nodeId nodes)" and c: "edge_count nodes \<le> 256"
    by (auto simp: normalize_nodes_def Let_def split: json.splits if_splits)
  show "distinct (map wd_nodeId nodes)" "edge_count nodes \<le> 256" by (fact d c)+
  show "sorted (map wd_nodeId nodes)" by (simp add: e)
  have l: "list_all2 (\<lambda>x y. normalizeNode x = Inr y) vs ns" using ns by (simp add: map_res_Inr)
  then have "length ns = length vs" by (simp add: list_all2_lengthD)
  with v show "nodes \<noteq> []" "length nodes \<le> 64" by (auto simp: e)
  have "\<exists>x\<in>set vs. normalizeNode x = Inr n" if "n \<in> set ns" for n
    using l that by (fastforce simp: list_all2_conv_all_nth in_set_conv_nth)
  moreover have "\<forall>x\<in>set vs. plain_ok x" using assms(2) v(1) by simp
  ultimately show "\<forall>n\<in>set nodes. \<exists>x. normalizeNode x = Inr n \<and> plain_ok x" by (auto simp: e)
qed

lemma normalize_nodes_read:
  assumes "normalize_nodes v = Inr nodes" and "plain_ok v"
  shows "normalize_nodes (sort_json code_units (JArr (map node_value nodes))) = Inr nodes"
proof -
  note i = normalize_nodes_Inr [OF assms]
  have "map_res normalizeNode (map (sort_json code_units \<circ> node_value) nodes) = Inr nodes"
    unfolding map_res_Inr list_all2_map1 using i(6) by (auto simp: list_all2_same intro: normalizeNode_read)
  with i(1-5) show ?thesis by (simp add: normalize_nodes_def Let_def sort_key_id_if_sorted guarded_pass)
qed

lemma parsed_source:
  assumes "parse_workflow_source v = Inr s"
  shows "version_id (prop_of v ''workflowId'') ''workflow_id_invalid'' = Inr (sw_workflowId s)"
    "version_id (prop_of v ''workflowVersionId'') ''workflow_version_id_invalid'' = Inr (sw_workflowVersionId s)"
    "version_text (prop_of v ''name'') 256 ''workflow_name_invalid'' = Inr (sw_name s)"
    "version_text (prop_of v ''description'') 4096 ''workflow_description_invalid'' = Inr (sw_description s)"
    "parseWorkflowObjectSchema (prop_of v ''inputSchema'') ''workflow_input_schema_invalid'' = Inr (sw_inputSchema s)"
    "parseWorkflowObjectSchema (prop_of v ''outputSchema'') ''workflow_output_schema_invalid'' = Inr (sw_outputSchema s)"
    "normalize_nodes (prop_of v ''nodes'') = Inr (sw_nodes s)"
    "normalizeNodeIdSet (prop_of v ''entryNodeIds'') ''workflow_entry_nodes_invalid'' False = Inr (sw_entryNodeIds s)"
    "normalizeNodeIdSet (prop_of v ''outputNodeIds'') ''workflow_output_nodes_invalid'' False = Inr (sw_outputNodeIds s)"
  using assms by (auto simp: parse_workflow_source_def)

lemma parse_source_intro:
  assumes "is_plain_object v" "has_exact_keys v source_keys" "get_prop v ''schemaVersion'' = Some (JStr (js ''crewon.workflow-version-source.v0''))"
    "version_id (prop_of v ''workflowId'') ''workflow_id_invalid'' = Inr (sw_workflowId s)"
    "version_id (prop_of v ''workflowVersionId'') ''workflow_version_id_invalid'' = Inr (sw_workflowVersionId s)"
    "version_text (prop_of v ''name'') 256 ''workflow_name_invalid'' = Inr (sw_name s)"
    "version_text (prop_of v ''description'') 4096 ''workflow_description_invalid'' = Inr (sw_description s)"
    "parseWorkflowObjectSchema (prop_of v ''inputSchema'') ''workflow_input_schema_invalid'' = Inr (sw_inputSchema s)"
    "parseWorkflowObjectSchema (prop_of v ''outputSchema'') ''workflow_output_schema_invalid'' = Inr (sw_outputSchema s)"
    "normalize_nodes (prop_of v ''nodes'') = Inr (sw_nodes s)"
    "normalizeNodeIdSet (prop_of v ''entryNodeIds'') ''workflow_entry_nodes_invalid'' False = Inr (sw_entryNodeIds s)"
    "normalizeNodeIdSet (prop_of v ''outputNodeIds'') ''workflow_output_nodes_invalid'' False = Inr (sw_outputNodeIds s)"
  shows "parse_workflow_source v = Inr s"
  using assms by (simp add: parse_workflow_source_def)

definition compiled_fields :: "compiled_workflow \<Rightarrow> (string \<times> json) list" where
  "compiled_fields w = (''schemaVersion'', JStr (js ''crewon.workflow-version.v0''))
     # (''contentDigest'', JStr (cw_contentDigest w)) # content_fields (cw_source w)
     @ [(''executionOrder'', string_list (cw_executionOrder w))]"

lemma compiled_value_fields: "compiled_value w = js_object (compiled_fields w)"
  by (simp add: compiled_value_def compiled_fields_def)

lemma compiled_value_plain [simp]: "is_plain_object (compiled_value w)"
  by (simp add: compiled_value_fields)

lemma compiled_keys: "has_exact_keys (compiled_value w) definition_keys"
  unfolding compiled_value_fields by (intro keys_js_object) (auto simp: compiled_fields_def content_fields_def definition_keys_def)

lemma compiled_prop: "prop_of (compiled_value w) k = (case map_of (compiled_fields w) k of None \<Rightarrow> JNull | Some x \<Rightarrow> x)"
  by (simp add: prop_of_def compiled_value_fields)

lemma parsed_source_ok:
  assumes "parse_workflow_source v = Inr s" and "plain_ok v"
  shows "plain_ok (schema_value (sw_inputSchema s))" "plain_ok (schema_value (sw_outputSchema s))"
    "\<forall>n\<in>set (sw_nodes s). plain_ok (node_value n) \<and> plain_ok (schema_value (wd_inputSchema n)) \<and> plain_ok (schema_value (wd_outputSchema n))"
proof -
  note p = parsed_source [OF assms(1)] and o = plain_ok_prop_of [OF assms(2)]
  show "plain_ok (schema_value (sw_inputSchema s))" by (rule object_schema_parsed(1) [OF p(5) o])
  show "plain_ok (schema_value (sw_outputSchema s))" by (rule object_schema_parsed(1) [OF p(6) o])
  show "\<forall>n\<in>set (sw_nodes s). plain_ok (node_value n) \<and> plain_ok (schema_value (wd_inputSchema n)) \<and> plain_ok (schema_value (wd_outputSchema n))"
    using normalize_nodes_Inr(6) [OF p(7) o] normalizeNode_ok by blast
qed

lemma compiled_value_ok:
  assumes "parse_workflow_source v = Inr (cw_source w)" and "plain_ok v"
  shows "plain_ok (compiled_value w)"
  unfolding compiled_value_fields plain_ok_js_object using parsed_source_ok [OF assms]
  by (simp add: compiled_fields_def content_fields_def)

lemma rebuilt_source:
  assumes s: "parse_workflow_source v = Inr (cw_source w)" and v: "plain_ok v"
  shows "parse_workflow_source (source_of_definition (sort_json code_units (compiled_value w))) = Inr (cw_source w)"
proof -
  let ?d = "sort_json code_units (compiled_value w)"
  let ?r = "source_of_definition ?d"
  note p = parsed_source [OF s] and o = plain_ok_prop_of [OF v]
  have pv: "prop_of ?d k = sort_json code_units (prop_of (compiled_value w) k)" for k
    by (rule prop_of_sort_json [OF compiled_value_ok [OF s v]])
  show ?thesis
  proof (rule parse_source_intro)
    show "has_exact_keys ?r source_keys"
      unfolding source_of_definition_def by (intro keys_js_object) (auto simp: source_keys_def)
    show "is_plain_object ?r" "get_prop ?r ''schemaVersion'' = Some (JStr (js ''crewon.workflow-version-source.v0''))"
      by (simp_all add: source_of_definition_def)
    have k: "prop_of ?r k = prop_of ?d k" if "k \<in> set [''workflowId'', ''workflowVersionId'', ''name'', ''description'', ''inputSchema'',
         ''outputSchema'', ''entryNodeIds'', ''outputNodeIds'', ''nodes'']" for k
      using that by (auto simp: source_of_definition_def prop_of_def [of "js_object _"])
    note f = k pv compiled_prop compiled_fields_def content_fields_def
    show "version_id (prop_of ?r ''workflowId'') ''workflow_id_invalid'' = Inr (sw_workflowId (cw_source w))"
      using version_id_read [OF p(1)] by (simp add: f)
    show "version_id (prop_of ?r ''workflowVersionId'') ''workflow_version_id_invalid'' = Inr (sw_workflowVersionId (cw_source w))"
      using version_id_read [OF p(2)] by (simp add: f)
    show "version_text (prop_of ?r ''name'') 256 ''workflow_name_invalid'' = Inr (sw_name (cw_source w))"
      using version_text_read [OF p(3)] by (simp add: f)
    show "version_text (prop_of ?r ''description'') 4096 ''workflow_description_invalid'' = Inr (sw_description (cw_source w))"
      using version_text_read [OF p(4)] by (simp add: f)
    show "parseWorkflowObjectSchema (prop_of ?r ''inputSchema'') ''workflow_input_schema_invalid'' = Inr (sw_inputSchema (cw_source w))"
      using object_schema_parsed(3) [OF p(5) o] by (simp add: f)
    show "parseWorkflowObjectSchema (prop_of ?r ''outputSchema'') ''workflow_output_schema_invalid'' = Inr (sw_outputSchema (cw_source w))"
      using object_schema_parsed(3) [OF p(6) o] by (simp add: f)
    have "prop_of ?r ''nodes'' = sort_json code_units (JArr (map node_value (sw_nodes (cw_source w))))" by (simp add: f)
    then show "normalize_nodes (prop_of ?r ''nodes'') = Inr (sw_nodes (cw_source w))"
      using normalize_nodes_read [OF p(7) o] by (simp only:)
    show "normalizeNodeIdSet (prop_of ?r ''entryNodeIds'') ''workflow_entry_nodes_invalid'' False = Inr (sw_entryNodeIds (cw_source w))"
      using node_id_set_read [OF p(8)] by (simp add: f)
    show "normalizeNodeIdSet (prop_of ?r ''outputNodeIds'') ''workflow_output_nodes_invalid'' False = Inr (sw_outputNodeIds (cw_source w))"
      using node_id_set_read [OF p(9)] by (simp add: f)
  qed
qed

lemma compile_Inr: "compileWorkflowVersion v sha256 ex = Inr w \<longleftrightarrow> parse_workflow_source v = Inr (cw_source w)
    \<and> execution_order (cw_source w) = Inr (cw_executionOrder w) \<and> first_throw (flow_checks (cw_source w)) = None
    \<and> first_throw (digest_checks (cw_source w) (cw_contentDigest w) ex) = None
    \<and> cw_contentDigest w = sha256 (canonical_json code_units (source_value (cw_source w)))"
proof -
  have "w = \<lparr>cw_source = cw_source w, cw_contentDigest = cw_contentDigest w, cw_executionOrder = cw_executionOrder w\<rparr>" by simp
  then show ?thesis by (auto simp: compileWorkflowVersion_def Let_def)
qed

lemma expected_digest: "first_throw (digest_checks s d ex) = None \<Longrightarrow> first_throw (digest_checks s d (Some d)) = None"
  by (simp add: digest_checks_def when_some_def version_require_digest_def)

lemma recompiled:
  assumes "compileWorkflowVersion v sha256 ex = Inr w" and "plain_ok v"
  shows "compile_definition (sort_json code_units (compiled_value w)) sha256 = Inr w"
proof -
  have s: "parse_workflow_source v = Inr (cw_source w)" using assms(1) by (simp add: compile_Inr)
  have get: "get_prop (sort_json code_units (compiled_value w)) k = map_option (sort_json code_units) (map_of (compiled_fields w) k)" for k
    using get_prop_sort_json [OF compiled_value_ok [OF s assms(2)], of code_units k] by (simp add: compiled_value_fields)
  have "compileWorkflowVersion (source_of_definition (sort_json code_units (compiled_value w))) sha256 (Some (cw_contentDigest w)) = Inr w"
    using assms(1) rebuilt_source [OF s assms(2)] expected_digest unfolding compile_Inr by blast
  then show ?thesis by (simp add: compile_definition_def get compiled_fields_def guarded_pass)
qed

lemma text_read:
  assumes w: "compileWorkflowVersion v sha256 ex = Inr w" and v: "plain_ok v" and t: "serializeCompiledWorkflowVersion w = Inr t"
  shows "parseCompiledWorkflowVersion t sha256 = Inr w"
proof -
  let ?d = "sort_json code_units (compiled_value w)"
  have s: "parse_workflow_source v = Inr (cw_source w)" using w by (simp add: compile_Inr)
  note ok = compiled_value_ok [OF s v]
  have e: "t = canonical_json code_units (compiled_value w)" and l: "utf8_length t \<le> max_workflow_definition_bytes"
    using t by (auto simp: serializeCompiledWorkflowVersion_def Let_def)
  have "json_parse t = Some ?d" unfolding e canonical_json_def by (rule parse_stringify [OF sort_json_ok [OF ok]])
  moreover have "has_exact_keys ?d definition_keys" using compiled_keys has_exact_keys_sort_json [OF ok] by simp
  moreover have "canonical_json code_units (compiled_value w) = canonical_json code_units ?d"
    unfolding canonical_json_def sort_json_idem [OF ok] ..
  ultimately show ?thesis using recompiled [OF w v] t l by (simp add: parseCompiledWorkflowVersion_def guarded_pass)
qed

lemma text_written: "parseCompiledWorkflowVersion t sha256 = Inr w \<Longrightarrow> serializeCompiledWorkflowVersion w = Inr t"
  by (auto simp: parseCompiledWorkflowVersion_def split: option.splits)


section \<open>Values along a compiled workflow\<close>

lemma derived_plain_ok:
  assumes "derivedSchema ids root nodes = Inr s" and "\<forall>r. root = Some r \<longrightarrow> plain_ok (schema_value r)"
    and "\<forall>n\<in>set nodes. plain_ok (schema_value (wd_outputSchema n))"
  shows "plain_ok (schema_value s)"
proof -
  have one: "plain_ok (schema_value (wd_outputSchema n))" if "requireNode nodes i = Inr n" for i n
    using requireNode_Inr [OF that] assms(3) by simp
  have merged: "plain_ok (schema_value (ObjectSchema (from_entries ps) req))" if "map_res (source_schema nodes) is = Inr ps" for ps "is" req
  proof -
    have put: "\<forall>p\<in>set (foldl put_entry qs ps). plain_ok (schema_value (snd p))"
      if "\<forall>p\<in>set qs. plain_ok (schema_value (snd p))" "\<forall>p\<in>set ps. plain_ok (schema_value (snd p))" for qs ps :: "(js_string \<times> wf_schema) list"
      using that
    proof (induction ps arbitrary: qs)
      case (Cons e ps)
      have "set (put_entry qs e) \<subseteq> insert (fst e, snd e) (set qs)" for qs :: "(js_string \<times> wf_schema) list" by (induction qs) auto
      then have "\<forall>p\<in>set (put_entry qs e). plain_ok (schema_value (snd p))" using Cons.prems by auto
      with Cons show ?case by simp
    qed simp
    have "\<forall>p\<in>set ps. plain_ok (schema_value (snd p))"
      using that one by (fastforce simp: map_res_Inr list_all2_conv_all_nth in_set_conv_nth source_schema_def)
    with put [of "[]" ps] have "\<forall>p\<in>set (from_entries ps). plain_ok (schema_value (snd p))"
      by (simp add: from_entries_def mset_eq_setD [OF property_order_mset])
    then show ?thesis using from_entries_keys [of ps] by (simp add: comp_def)
  qed
  consider (none) "ids = []" | (one) i where "ids = [i]" | (many) ps where "map_res (source_schema nodes) ids = Inr ps" "s = ObjectSchema (from_entries ps) ids"
    using assms(1) by (cases ids; cases "tl ids") (auto simp: derivedSchema_def simp del: map_res.simps)
  then show ?thesis
  proof cases
    case many
    with merged show ?thesis by (simp only:)
  qed (use assms(1,2) one in \<open>auto simp: derivedSchema_def split: option.splits\<close>)
qed

lemma flow_derived:
  assumes c: "compileWorkflowVersion v sha256 ex = Inr w" and v: "plain_ok v"
  shows "n \<in> set (sw_nodes (cw_source w)) \<Longrightarrow> \<exists>s. derivedSchema (wd_dependsOn n) (Some (sw_inputSchema (cw_source w))) (sw_nodes (cw_source w)) = Inr s
      \<and> (\<forall>x. accepts (wd_inputSchema n) x = accepts s x)"
    "\<exists>s. derivedSchema (sw_outputNodeIds (cw_source w)) None (sw_nodes (cw_source w)) = Inr s
      \<and> (\<forall>x. accepts (sw_outputSchema (cw_source w)) x = accepts s x)"
proof -
  let ?s = "cw_source w"
  have p: "parse_workflow_source v = Inr ?s" and f: "first_throw (flow_checks ?s) = None" using c by (simp_all add: compile_Inr)
  note ok = parsed_source_ok [OF p v] and nodes = normalize_nodes_Inr [OF parsed_source(7) [OF p] plain_ok_prop_of [OF v]]
  have same: "accepts a x = accepts b x" if "same_schema a b" "plain_ok (schema_value a)" "plain_ok (schema_value b)" for a b x
    using that accepts_same same_canonical_json unfolding same_schema_def by blast
  {
    assume n: "n \<in> set (sw_nodes ?s)"
    then obtain t where t: "workflowNodeInputSchema (sw_inputSchema ?s) (sw_nodes ?s) (wd_nodeId n) = Inr t" "same_schema (wd_inputSchema n) t"
      using f by (auto simp: flow_checks_def expect_schema_def first_throw_map_None)
    then have d: "derivedSchema (wd_dependsOn n) (Some (sw_inputSchema ?s)) (sw_nodes ?s) = Inr t"
      using requireNode_in [OF nodes(1) n] by (simp add: workflowNodeInputSchema_def)
    moreover have "plain_ok (schema_value t)" using derived_plain_ok [OF d] ok by simp
    ultimately show "\<exists>s. derivedSchema (wd_dependsOn n) (Some (sw_inputSchema ?s)) (sw_nodes ?s) = Inr s
        \<and> (\<forall>x. accepts (wd_inputSchema n) x = accepts s x)" using same t(2) n ok(3) by blast
  }
  obtain t where d: "derivedSchema (sw_outputNodeIds ?s) None (sw_nodes ?s) = Inr t" and t: "same_schema (sw_outputSchema ?s) t"
    using f by (auto simp: flow_checks_def expect_schema_def workflowOutputSchema_def)
  moreover have "plain_ok (schema_value t)" using derived_plain_ok [OF d] ok by simp
  ultimately show "\<exists>s. derivedSchema (sw_outputNodeIds ?s) None (sw_nodes ?s) = Inr s
      \<and> (\<forall>x. accepts (sw_outputSchema ?s) x = accepts s x)" using same ok(2) by blast
qed

lemma root_not_null:
  assumes "parse_workflow_source v = Inr s" and "plain_ok v" and "accepts (sw_inputSchema s) root"
  shows "root \<noteq> JNull"
proof -
  have "is_object_schema (sw_inputSchema s)"
    by (rule object_schema_parsed(2) [OF parsed_source(5) [OF assms(1)] plain_ok_prop_of [OF assms(2)]])
  then show ?thesis using assms(3) by (auto simp: is_object_schema_def accepts_value mismatch_def split: wf_schema.splits)
qed

lemma node_input_typed:
  assumes c: "compileWorkflowVersion v sha256 ex = Inr w" and v: "plain_ok v" and n: "n \<in> set (sw_nodes (cw_source w))"
    and root: "accepts (sw_inputSchema (cw_source w)) root" and outs: "map fst outs = wd_dependsOn n" "outputs_typed (sw_nodes (cw_source w)) outs"
  shows "\<exists>x. composeWorkflowNodeInput (sw_nodes (cw_source w)) (wd_nodeId n) root outs = Inr x \<and> accepts (wd_inputSchema n) x"
proof -
  have p: "parse_workflow_source v = Inr (cw_source w)" using c by (simp add: compile_Inr)
  note nodes = normalize_nodes_Inr [OF parsed_source(7) [OF p] plain_ok_prop_of [OF v]]
  obtain s where s: "derivedSchema (wd_dependsOn n) (Some (sw_inputSchema (cw_source w))) (sw_nodes (cw_source w)) = Inr s"
    "\<And>x. accepts (wd_inputSchema n) x = accepts s x" using flow_derived(1) [OF c v n] by blast
  have "distinct (wd_dependsOn n)" using nodes(6) n normalizeNode_ok(5) by blast
  from composed_typed [OF nodes(1) s(1) this outs, of root] root root_not_null [OF p v root] s(2) show ?thesis
    by (simp add: composeWorkflowNodeInput_def requireNode_in [OF nodes(1) n])
qed

lemma output_typed:
  assumes c: "compileWorkflowVersion v sha256 ex = Inr w" and v: "plain_ok v"
    and outs: "map fst outs = sw_outputNodeIds (cw_source w)" "outputs_typed (sw_nodes (cw_source w)) outs"
  shows "\<exists>x. composeWorkflowOutput (sw_outputNodeIds (cw_source w)) outs = Inr x \<and> accepts (sw_outputSchema (cw_source w)) x"
proof -
  have p: "parse_workflow_source v = Inr (cw_source w)" using c by (simp add: compile_Inr)
  note nodes = normalize_nodes_Inr [OF parsed_source(7) [OF p] plain_ok_prop_of [OF v]]
  obtain s where s: "derivedSchema (sw_outputNodeIds (cw_source w)) None (sw_nodes (cw_source w)) = Inr s"
    "\<And>x. accepts (sw_outputSchema (cw_source w)) x = accepts s x" using flow_derived(2) [OF c v] by blast
  have d: "distinct (sw_outputNodeIds (cw_source w))" "sw_outputNodeIds (cw_source w) \<noteq> []"
    using node_id_set_Inr [OF parsed_source(9) [OF p]] by auto
  from composed_typed [OF nodes(1) s(1) d(1) outs, of JNull] d(2) s(2) show ?thesis by (simp add: composeWorkflowOutput_def)
qed

section \<open>The order of execution\<close>

lemma graph_order_returns: "\<exists>r. validateWorkflowGraph (map graph_node (sw_nodes s)) (sw_entryNodeIds s) (sw_outputNodeIds s) = Some r"
proof (cases "first_throw (graph_checks (map graph_node (sw_nodes s)) (sw_entryNodeIds s) (sw_outputNodeIds s))")
  case None
  then show ?thesis by (rule validate_runs) blast
qed (simp add: validateWorkflowGraph_def)

lemma ordered_nodes:
  assumes "execution_order s = Inr order"
  shows "set order = wd_nodeId ` set (sw_nodes s)"
    "n \<in> set (sw_nodes s) \<Longrightarrow> i < length order \<Longrightarrow> order ! i = wd_nodeId n \<Longrightarrow> set (wd_dependsOn n) \<subseteq> set (take i order)"
    "set (sw_outputNodeIds s) \<subseteq> wd_nodeId ` set (sw_nodes s)"
proof -
  let ?g = "map graph_node (sw_nodes s)"
  have r: "validateWorkflowGraph ?g (sw_entryNodeIds s) (sw_outputNodeIds s) = Some (Inr order)"
    using assms by (auto simp: execution_order_def split: option.splits)
  note o = accepted_order [OF r]
  have g: "graph_ids ?g = wd_nodeId ` set (sw_nodes s)" by (simp add: graph_ids_def graph_node_def image_image)
  show "set order = wd_nodeId ` set (sw_nodes s)" using o by (simp add: g)
  have ok: "workflow_ok ?g (sw_entryNodeIds s) (sw_outputNodeIds s)" using r accepted_iff by blast
  have "sw_outputNodeIds s = sorted_list_of_set {x \<in> graph_ids ?g. \<forall>y. (x, y) \<notin> graph_edges ?g}" using ok by (simp add: workflow_ok_def)
  moreover have "finite (graph_ids ?g)" by (simp add: graph_ids_def)
  ultimately have "set (sw_outputNodeIds s) \<subseteq> graph_ids ?g" by simp
  then show "set (sw_outputNodeIds s) \<subseteq> wd_nodeId ` set (sw_nodes s)" by (simp add: g)
  assume n: "n \<in> set (sw_nodes s)" "i < length order" "order ! i = wd_nodeId n"
  have "nodes_ok ?g" using ok by (simp add: workflow_ok_def)
  then have "graph_deps ?g (wn_nodeId (graph_node n)) = set (wn_dependsOn (graph_node n))" using n(1) by (intro graph_deps_node) simp_all
  moreover have "graph_deps ?g (order ! i) \<subseteq> set (take i order)" using o n(2) by blast
  ultimately show "set (wd_dependsOn n) \<subseteq> set (take i order)" using n(3) by (simp add: graph_node_def)
qed

text \<open>
  A run of the workflow: the nodes in the order of execution, each on the input composed from what the earlier ones
  returned; \<open>f\<close> is what the node with a given identifier returns for an input.
\<close>

definition output_of :: "(js_string \<times> json) list \<Rightarrow> js_string \<Rightarrow> js_string \<times> json" where
  "output_of outs i = (i, case map_of outs i of None \<Rightarrow> JNull | Some v \<Rightarrow> v)"

fun run_nodes :: "workflow_source \<Rightarrow> (js_string \<Rightarrow> json \<Rightarrow> json) \<Rightarrow> json \<Rightarrow> (js_string \<times> json) list \<Rightarrow> js_string list
    \<Rightarrow> (js_string \<times> json) list res" where
  "run_nodes s f root outs [] = Inr outs"
| "run_nodes s f root outs (i # is) = then_do (requireNode (sw_nodes s) i) (\<lambda>n.
     then_do (composeWorkflowNodeInput (sw_nodes s) i root (map (output_of outs) (wd_dependsOn n))) (\<lambda>x.
       run_nodes s f root ((i, f i x) # outs) is))"

definition run_workflow :: "compiled_workflow \<Rightarrow> (js_string \<Rightarrow> json \<Rightarrow> json) \<Rightarrow> json \<Rightarrow> json res" where
  "run_workflow w f root = then_do (run_nodes (cw_source w) f root [] (cw_executionOrder w)) (\<lambda>outs.
     composeWorkflowOutput (sw_outputNodeIds (cw_source w)) (map (output_of outs) (sw_outputNodeIds (cw_source w))))"

definition nodes_typed :: "workflow_source \<Rightarrow> (js_string \<Rightarrow> json \<Rightarrow> json) \<Rightarrow> bool" where
  "nodes_typed s f \<longleftrightarrow> (\<forall>n\<in>set (sw_nodes s). \<forall>x. accepts (wd_inputSchema n) x \<longrightarrow> accepts (wd_outputSchema n) (f (wd_nodeId n) x))"

lemma output_of_typed:
  assumes "outputs_typed nodes outs" and "set is \<subseteq> fst ` set outs"
  shows "map fst (map (output_of outs) is) = is" "outputs_typed nodes (map (output_of outs) is)"
proof -
  show "map fst (map (output_of outs) is) = is" by (simp add: output_of_def comp_def)
  have "output_of outs i \<in> set outs" if i: "i \<in> set is" for i
  proof -
    have "map_of outs i \<noteq> None" using assms(2) i by (auto simp: map_of_eq_None_iff)
    then obtain x where "map_of outs i = Some x" by auto
    then show ?thesis by (simp add: output_of_def map_of_SomeD)
  qed
  then show "outputs_typed nodes (map (output_of outs) is)" using assms(1) unfolding outputs_typed_def by fastforce
qed

lemma run_nodes_typed:
  assumes c: "compileWorkflowVersion v sha256 ex = Inr w" and v: "plain_ok v"
    and root: "accepts (sw_inputSchema (cw_source w)) root" and f: "nodes_typed (cw_source w) f"
  shows "cw_executionOrder w = done @ is \<Longrightarrow> outputs_typed (sw_nodes (cw_source w)) outs \<Longrightarrow> fst ` set outs = set done \<Longrightarrow>
    \<exists>outs'. run_nodes (cw_source w) f root outs is = Inr outs' \<and> outputs_typed (sw_nodes (cw_source w)) outs'
      \<and> fst ` set outs' = set (cw_executionOrder w)"
proof (induction "is" arbitrary: "done" outs)
  case (Cons i "is")
  let ?s = "cw_source w"
  have p: "parse_workflow_source v = Inr ?s" and o: "execution_order ?s = Inr (cw_executionOrder w)" using c by (simp_all add: compile_Inr)
  note nodes = normalize_nodes_Inr [OF parsed_source(7) [OF p] plain_ok_prop_of [OF v]]
  have "i \<in> wd_nodeId ` set (sw_nodes ?s)" using ordered_nodes(1) [OF o] Cons.prems(1) by auto
  then obtain n where n: "n \<in> set (sw_nodes ?s)" "i = wd_nodeId n" by blast
  have "set (wd_dependsOn n) \<subseteq> set (take (length done) (cw_executionOrder w))"
    using Cons.prems(1) n by (intro ordered_nodes(2) [OF o]) simp_all
  then have "set (wd_dependsOn n) \<subseteq> fst ` set outs" using Cons.prems(1,3) by simp
  note outs = output_of_typed [OF Cons.prems(2) this]
  obtain x where x: "composeWorkflowNodeInput (sw_nodes ?s) i root (map (output_of outs) (wd_dependsOn n)) = Inr x" "accepts (wd_inputSchema n) x"
    using node_input_typed [OF c v n(1) root outs] n(2) by blast
  have "outputs_typed (sw_nodes ?s) ((i, f i x) # outs)"
    using Cons.prems(2) f n x(2) by (auto simp: outputs_typed_def nodes_typed_def)
  from Cons.IH [of "done @ [i]", OF _ this] Cons.prems x(1) requireNode_in [OF nodes(1) n(1)] n(2) show ?case by auto
qed auto

lemma schema_names_same:
  assumes "sort_json key (schema_value s) = sort_json key (schema_value (ObjectSchema ps req))" and "plain_ok (schema_value s)"
    and "plain_ok (schema_value (ObjectSchema ps req))" and "is_object_schema s"
  obtains qs r where "s = ObjectSchema qs r" "fst ` set qs = fst ` set ps"
proof -
  obtain qs r where s: "s = ObjectSchema qs r" using assms(4) by (auto simp: is_object_schema_def split: wf_schema.splits)
  let ?props = "\<lambda>ps. JObj (map (\<lambda>p. (fst p, schema_value (snd p))) ps)"
  have "get_prop (sort_json key (schema_value (ObjectSchema qs r))) ''properties'' = get_prop (sort_json key (schema_value (ObjectSchema ps req))) ''properties''"
    using assms(1) s by simp
  then have "sort_json key (?props qs) = sort_json key (?props ps)"
    using assms(2,3) s by (simp only: get_prop_sort_json) (simp add: get_prop_def)
  moreover have "plain_ok (?props qs)" "plain_ok (?props ps)" using assms(2,3) s by auto
  then have "mset (own_keys (sort_json key (?props qs))) = mset (own_keys (?props qs))"
    "mset (own_keys (sort_json key (?props ps))) = mset (own_keys (?props ps))" by (blast intro: own_keys_sort_json)+
  ultimately have "mset (own_keys (?props qs)) = mset (own_keys (?props ps))" by (simp only:)
  then have "mset (map fst qs) = mset (map fst ps)" by (simp add: own_keys_def comp_def)
  then have "set (map fst qs) = set (map fst ps)" by (rule mset_eq_setD)
  then have "fst ` set qs = fst ` set ps" by simp
  with s show thesis by (rule that)
qed

lemma object_schema_names:
  assumes "parseWorkflowObjectSchema v code = Inr s" and "plain_ok v" and "s = ObjectSchema ps req"
  shows "\<forall>k\<in>fst ` set ps. validPropertyName k"
proof -
  obtain m where "parse_schema code 1 0 v = Inr (ObjectSchema ps req, m)" using assms(1,3) by (auto simp: parseWorkflowObjectSchema_def)
  from parsed_property_names [OF this assms(2)] show ?thesis .
qed

lemma joined_names:
  assumes s: "parseWorkflowObjectSchema v code = Inr s" "plain_ok v" and d: "derivedSchema ids root nodes = Inr t" "1 < length ids" "distinct ids"
    and same: "same_schema s t" and t: "plain_ok (schema_value t)"
  shows "list_all validPropertyName ids"
proof -
  obtain ps where ps: "map_res (source_schema nodes) ids = Inr ps" and te: "t = ObjectSchema (from_entries ps) ids"
    using d(1,2) by (cases ids; cases "tl ids") (auto simp: derivedSchema_def simp del: map_res.simps)
  have len: "length ps = length ids" and "\<And>k. k < length ids \<Longrightarrow> source_schema nodes (ids ! k) = Inr (ps ! k)"
    using ps by (auto simp: map_res_Inr list_all2_conv_all_nth)
  with len have *: "\<And>k. k < length ids \<Longrightarrow> source_schema nodes (ids ! k) = Inr (ps ! k)" by blast
  have "fst q = i" if "source_schema nodes i = Inr q" for i q using that by (auto simp: source_schema_def)
  then have "map fst ps ! k = ids ! k" if "k < length ids" for k using * [OF that] that len by simp
  with len have keys: "map fst ps = ids" by (simp add: list_eq_iff_nth_eq)
  then have "fst ` set (from_entries ps) = set ids" using from_entries_set [of ps] d(3) by (metis list.set_map)
  note sok = object_schema_parsed [OF s]
  have "sort_json code_units (schema_value s) = sort_json code_units (schema_value (ObjectSchema (from_entries ps) ids))"
    using same_canonical_json same sok(1) t unfolding same_schema_def te by blast
  from schema_names_same [OF this sok(1) t [unfolded te] sok(2)] obtain qs r where "s = ObjectSchema qs r" "fst ` set qs = set ids"
    using \<open>fst ` set (from_entries ps) = set ids\<close> by metis
  with object_schema_names [OF s] show ?thesis by (metis list_all_iff)
qed

section \<open>Properties\<close>

text \<open>
  C8: a compiled version has exactly one durable text, the one the serialiser writes, and the
  reader recompiles that text to the same version.
\<close>

theorem compiled_text_roundtrip:
  assumes "compileWorkflowVersion v sha256 expected = Inr w" and "plain_ok v"
  shows "parseCompiledWorkflowVersion t sha256 = Inr w \<longleftrightarrow> serializeCompiledWorkflowVersion w = Inr t"
  using text_read [OF assms] text_written by blast

text \<open>
  C9: values that flow along a compiled workflow have the declared schemas.  When every node
  turns an input within its input schema into an output within its output schema, the run of the
  nodes in the order of execution from an input the workflow accepts never fails, and its output is
  within the output schema of the workflow.
\<close>

theorem compiled_workflow_typed:
  assumes "compileWorkflowVersion v sha256 expected = Inr w" and "plain_ok v"
    and "nodes_typed (cw_source w) f" and "accepts (sw_inputSchema (cw_source w)) root"
  shows "\<exists>x. run_workflow w f root = Inr x \<and> accepts (sw_outputSchema (cw_source w)) x"
proof -
  have o: "execution_order (cw_source w) = Inr (cw_executionOrder w)" using assms(1) by (simp add: compile_Inr)
  obtain outs where outs: "run_nodes (cw_source w) f root [] (cw_executionOrder w) = Inr outs"
    "outputs_typed (sw_nodes (cw_source w)) outs" "fst ` set outs = set (cw_executionOrder w)"
    using run_nodes_typed [OF assms(1,2,4,3), of "[]" "cw_executionOrder w" "[]"] by (auto simp: outputs_typed_def)
  then have "set (sw_outputNodeIds (cw_source w)) \<subseteq> fst ` set outs" using ordered_nodes(1,3) [OF o] by simp
  from output_typed [OF assms(1,2) output_of_typed [OF outs(2) this]] outs(1) show ?thesis by (simp add: run_workflow_def)
qed

text \<open>
  In a compiled version the nodes whose outputs are joined, the dependencies of a node that
  has two of them or more, have identifiers that are property names: of the identifiers
  \<open>requireNodeId\<close> allows, those with a leading digit are left out.
\<close>

theorem joined_dependencies_named:
  assumes "compileWorkflowVersion v sha256 expected = Inr w" and "plain_ok v"
    and "n \<in> set (sw_nodes (cw_source w))" and "2 \<le> length (wd_dependsOn n)"
  shows "list_all validPropertyName (wd_dependsOn n)"
proof -
  let ?s = "cw_source w"
  have p: "parse_workflow_source v = Inr ?s" and f: "first_throw (flow_checks ?s) = None" using assms(1) by (simp_all add: compile_Inr)
  note nodes = normalize_nodes_Inr [OF parsed_source(7) [OF p] plain_ok_prop_of [OF assms(2)]] and ok = parsed_source_ok [OF p assms(2)]
  obtain t where t: "workflowNodeInputSchema (sw_inputSchema ?s) (sw_nodes ?s) (wd_nodeId n) = Inr t" "same_schema (wd_inputSchema n) t"
    using f assms(3) by (auto simp: flow_checks_def expect_schema_def first_throw_map_None)
  then have d: "derivedSchema (wd_dependsOn n) (Some (sw_inputSchema ?s)) (sw_nodes ?s) = Inr t"
    using requireNode_in [OF nodes(1) assms(3)] by (simp add: workflowNodeInputSchema_def)
  have t_ok: "plain_ok (schema_value t)" using derived_plain_ok [OF d] ok by simp
  obtain x where x: "normalizeNode x = Inr n" "plain_ok x" using nodes(6) assms(3) by blast
  then have "parseWorkflowObjectSchema (prop_of x ''inputSchema'') ''workflow_node_input_schema_invalid'' = Inr (wd_inputSchema n)"
    by (auto simp: normalizeNode_def)
  then show ?thesis
    using joined_names [OF _ plain_ok_prop_of [OF x(2)] d _ normalizeNode_ok(5) [OF x] t(2) t_ok] assms(4) by simp
qed


section \<open>A concrete workflow\<close>

lemma text_bound_sort_json: "plain_ok v \<Longrightarrow> text_bound (sort_json key v) = text_bound v"
proof (induction v)
  case (JArr vs)
  then have "map ((\<lambda>v. text_bound v + 1) \<circ> sort_json key) vs = map (\<lambda>v. text_bound v + 1) vs" by simp
  then show ?case by (simp only: sort_json.simps text_bound.simps map_map)
next
  case (JObj ps)
  let ?f = "\<lambda>p. 6 * length (fst p) + 4 + text_bound (snd p)"
  have "mset (map ?f (from_entries (sorted_entries key ps))) = mset (map ?f (map (\<lambda>p. (fst p, sort_json key (snd p))) ps))"
    using JObj.prems by (simp only: mset_map entries_mset plain_ok.simps)
  then have "sum_list (map ?f (from_entries (sorted_entries key ps))) = sum_list (map ?f (map (\<lambda>p. (fst p, sort_json key (snd p))) ps))"
    by (simp only: sum_mset_sum_list [symmetric])
  moreover have "text_bound (sort_json key (snd p)) = text_bound (snd p)" if p: "p \<in> set ps" for p
  proof (rule JObj.IH [OF p])
    show "snd p \<in> Basic_BNFs.snds p" by (simp add: snds.simps prod_eq_iff)
    show "plain_ok (snd p)" using JObj.prems p by simp
  qed
  then have "map ?f (map (\<lambda>p. (fst p, sort_json key (snd p))) ps) = map ?f ps" by simp
  ultimately show ?case unfolding sort_json_JObj text_bound.simps by (simp only:)
qed simp_all

lemma canonical_fits: "plain_ok v \<Longrightarrow> 3 * text_bound v \<le> n \<Longrightarrow> utf8_length (canonical_json key v) \<le> n"
  unfolding canonical_json_def by (rule stringify_fits) (simp add: text_bound_sort_json)

definition verdict_schema :: wf_schema where
  "verdict_schema = ObjectSchema [(js ''ok'', BooleanSchema)] [js ''ok'']"

definition joined_schema :: wf_schema where
  "joined_schema = ObjectSchema [(js ''a'', verdict_schema), (js ''b'', verdict_schema)] [js ''a'', js ''b'']"

definition sample_node :: "string \<Rightarrow> js_string list \<Rightarrow> wf_schema \<Rightarrow> node_kind \<Rightarrow> wf_node" where
  "sample_node i ds s k = \<lparr>wd_nodeId = js i, wd_title = js ''t'', wd_instruction = js ''do'', wd_dependsOn = ds,
     wd_inputSchema = s, wd_outputSchema = verdict_schema, wd_kind = k\<rparr>"

definition sample_source :: workflow_source where
  "sample_source = \<lparr>sw_workflowId = js ''w'', sw_workflowVersionId = js ''w1'', sw_name = js ''n'', sw_description = js ''d'',
     sw_inputSchema = verdict_schema, sw_outputSchema = verdict_schema, sw_entryNodeIds = [js ''a'', js ''b''],
     sw_outputNodeIds = [js ''v''],
     sw_nodes = [sample_node ''a'' [] verdict_schema (AgentKind (js ''x'')), sample_node ''b'' [] verdict_schema (AgentKind (js ''y'')),
       sample_node ''v'' [js ''a'', js ''b''] joined_schema (VerificationKind (js ''z''))]\<rparr>"

definition sample_compiled :: compiled_workflow where
  "sample_compiled = \<lparr>cw_source = sample_source, cw_contentDigest = sample_digest, cw_executionOrder = [js ''a'', js ''b'', js ''v'']\<rparr>"

lemma sample_schemas_ok: "plain_ok (schema_value verdict_schema)" "plain_ok (schema_value joined_schema)"
  by (simp_all add: verdict_schema_def joined_schema_def)

lemma object_schema_fields: "schema_value (ObjectSchema ps req) = js_object [(''type'', JStr (js ''object'')),
     (''properties'', JObj (map (\<lambda>p. (fst p, schema_value (snd p))) ps)), (''required'', string_list req),
     (''additionalProperties'', JBool False)]"
  by (simp add: js_object_def)

lemma parse_object_read:
  assumes "d \<le> 16" and "n + 1 \<le> 4096"
  shows "parse_schema code d n (schema_value (ObjectSchema ps req))
    = (case property_entries (JObj (map (\<lambda>p. (fst p, schema_value (snd p))) ps)) code of Inl e \<Rightarrow> Inl e
       | Inr entries \<Rightarrow> then_do (parse_properties code (d + 1) (n + 1) entries) (finish_object_schema (schema_value (ObjectSchema ps req)) code))"
proof -
  have "has_exact_keys (schema_value (ObjectSchema ps req)) [''additionalProperties'', ''properties'', ''required'', ''type'']"
    unfolding object_schema_fields by (intro keys_js_object) auto
  moreover have "get_prop (schema_value (ObjectSchema ps req)) k = map_of [(''type'', JStr (js ''object'')),
     (''properties'', JObj (map (\<lambda>p. (fst p, schema_value (snd p))) ps)), (''required'', string_list req),
     (''additionalProperties'', JBool False)] k" for k
    unfolding object_schema_fields by (rule get_prop_js_object)
  ultimately show ?thesis using assms
    by (subst parse_schema.simps) (simp add: type_is_def object_schema_checks_def prop_of_def guarded_pass del: schema_value.simps(5))
qed

lemma required_read: "get_prop (schema_value (ObjectSchema ps req)) ''required'' = Some (string_list req)"
  unfolding object_schema_fields by simp

lemma verdict_parsed:
  assumes "d < 16" and "n < 4000"
  shows "parse_schema code d n (schema_value verdict_schema) = Inr (verdict_schema, n + 2)"
proof -
  have b: "parse_schema code (d + 1) (n + 1) (JObj [(js ''type'', JStr (js ''boolean''))]) = Inr (BooleanSchema, n + 2)"
    using assms by (subst parse_schema.simps) (simp add: type_is_def get_prop_def has_exact_keys_def own_keys_def)
  have e: "property_entries (JObj [(js ''ok'', v)]) code = Inr [(js ''ok'', v)]" for v
    by (simp add: property_entries_def own_entries_def validPropertyName_def is_property_tail_def is_alnum_def is_lower_def js_def)
  have r: "parsePropertyNames (string_list [js ''ok'']) code = Inr [js ''ok'']"
    by (simp add: parsePropertyNames_def string_list_def property_name_def validPropertyName_def is_property_tail_def is_alnum_def
        is_lower_def sort_utf8_def js_def)
  show ?thesis
    unfolding verdict_schema_def using assms b e r
    by (subst parse_object_read) (simp_all add: parse_properties.simps finish_object_schema_def prop_of_def required_read
        from_entries_def property_order_def is_array_index_def js_def del: schema_value.simps(5))
qed

lemma joined_parsed: "parse_schema code 1 0 (schema_value joined_schema) = Inr (joined_schema, 5)"
proof -
  have e: "property_entries (JObj [(js ''a'', v), (js ''b'', w)]) code = Inr [(js ''a'', v), (js ''b'', w)]" for v w
    by (simp add: property_entries_def own_entries_def validPropertyName_def is_property_tail_def is_alnum_def is_lower_def js_def
        unit_bytes_def utf8_bytes_def is_high_surrogate_def is_low_surrogate_def)
  have r: "parsePropertyNames (string_list [js ''a'', js ''b'']) code = Inr [js ''a'', js ''b'']"
    by (simp add: parsePropertyNames_def string_list_def property_name_def validPropertyName_def is_property_tail_def is_alnum_def
        is_lower_def sort_utf8_def js_def unit_bytes_def utf8_bytes_def is_high_surrogate_def is_low_surrogate_def)
  let ?v = "schema_value verdict_schema"
  have p: "parse_properties code (1 + 1) (0 + 1) [(js ''a'', ?v), (js ''b'', ?v)] = Inr ([(js ''a'', verdict_schema), (js ''b'', verdict_schema)], 5)"
    using verdict_parsed [of 2 1 code] verdict_parsed [of 2 3 code] by (simp add: parse_properties.simps numeral_2_eq_2 numeral_3_eq_3)
  have f: "from_entries [(js ''a'', verdict_schema), (js ''b'', verdict_schema)] = [(js ''a'', verdict_schema), (js ''b'', verdict_schema)]"
    by (simp add: from_entries_def property_order_def is_array_index_def is_digit_def js_def)
  have "parse_schema code 1 0 (schema_value (ObjectSchema [(js ''a'', verdict_schema), (js ''b'', verdict_schema)] [js ''a'', js ''b'']))
      = finish_object_schema (schema_value (ObjectSchema [(js ''a'', verdict_schema), (js ''b'', verdict_schema)] [js ''a'', js ''b'']))
          code ([(js ''a'', verdict_schema), (js ''b'', verdict_schema)], 5)"
    by (subst parse_object_read, simp, simp) (simp only: e p list.map fst_conv snd_conv sum.case then_do_simps)
  then show ?thesis unfolding joined_schema_def
    by (simp add: finish_object_schema_def prop_of_def required_read r f del: schema_value.simps(5))
qed

lemma sample_schemas_parsed: "parseWorkflowObjectSchema (schema_value verdict_schema) code = Inr verdict_schema"
  "parseWorkflowObjectSchema (schema_value joined_schema) code = Inr joined_schema"
proof -
  have "utf8_length (canonical_json utf8_encode (schema_value s)) \<le> 64 * 1024" if "s \<in> {verdict_schema, joined_schema}" for s
    using that sample_schemas_ok by (intro canonical_fits) (auto simp: verdict_schema_def joined_schema_def string_list_def js_def)
  moreover have "is_object_schema verdict_schema" "is_object_schema joined_schema"
    by (simp_all add: is_object_schema_def verdict_schema_def joined_schema_def)
  ultimately show "parseWorkflowObjectSchema (schema_value verdict_schema) code = Inr verdict_schema"
    "parseWorkflowObjectSchema (schema_value joined_schema) code = Inr joined_schema"
    using verdict_parsed [of 1 0 code] joined_parsed [of code]
    by (simp_all add: parseWorkflowObjectSchema_def guarded_pass not_less)
qed

lemma small_names:
  "matches_node_id (js ''a'')" "matches_node_id (js ''b'')" "matches_node_id (js ''v'')"
  "parseWorkflowVersionIdentityId (js ''w'') code = Inr (js ''w'')" "parseWorkflowVersionIdentityId (js ''w1'') code = Inr (js ''w1'')"
  "parseWorkflowVersionIdentityId (js ''x'') code = Inr (js ''x'')" "parseWorkflowVersionIdentityId (js ''y'') code = Inr (js ''y'')"
  "parseWorkflowVersionIdentityId (js ''z'') code = Inr (js ''z'')"
  by (simp_all add: matches_node_id_def is_node_id_tail_def parseWorkflowVersionIdentityId_def matches_opaque_id_def
      is_id_tail_def is_alnum_def is_upper_def is_lower_def is_digit_def js_def)

lemma small_texts: "256 \<le> n \<Longrightarrow> version_text (JStr (js ''t'')) n code = Inr (js ''t'')" "256 \<le> n \<Longrightarrow> version_text (JStr (js ''do'')) n code = Inr (js ''do'')"
  "256 \<le> n \<Longrightarrow> version_text (JStr (js ''n'')) n code = Inr (js ''n'')" "256 \<le> n \<Longrightarrow> version_text (JStr (js ''d'')) n code = Inr (js ''d'')"
  by (simp_all add: version_text_def is_blank_def js_trim_def is_forbidden_unit_def string_eval is_low_surrogate_def)

lemma small_sets: "normalizeNodeIdSet (string_list []) code True = Inr []"
  "normalizeNodeIdSet (string_list [js ''a'', js ''b'']) code b = Inr [js ''a'', js ''b'']"
  "normalizeNodeIdSet (string_list [js ''v'']) code b = Inr [js ''v'']"
  using small_names by (simp_all add: normalizeNodeIdSet_def string_list_def requireNodeId_def) (simp add: js_def)

lemma node_props: "prop_of (node_value n) k = (case map_of (node_fields n) k of None \<Rightarrow> JNull | Some x \<Rightarrow> x)"
  by (simp add: prop_of_def node_value_fields)

lemma node_keys:
  "has_exact_keys (node_value n) (common_node_keys @ [case wd_kind n of AgentKind a \<Rightarrow> ''agentVersionId''
     | HumanGateKind p \<Rightarrow> ''approvalPolicyId'' | VerificationKind a \<Rightarrow> ''verifierAgentVersionId''])"
  unfolding node_value_fields by (intro keys_js_object; cases "wd_kind n") (auto simp: node_fields_def kind_fields_def common_node_keys_def)

lemma sample_nodes_read:
  "normalizeNode (node_value (sample_node ''a'' [] verdict_schema (AgentKind (js ''x'')))) = Inr (sample_node ''a'' [] verdict_schema (AgentKind (js ''x'')))"
  "normalizeNode (node_value (sample_node ''b'' [] verdict_schema (AgentKind (js ''y'')))) = Inr (sample_node ''b'' [] verdict_schema (AgentKind (js ''y'')))"
  "normalizeNode (node_value (sample_node ''v'' [js ''a'', js ''b''] joined_schema (VerificationKind (js ''z''))))
    = Inr (sample_node ''v'' [js ''a'', js ''b''] joined_schema (VerificationKind (js ''z'')))"
  using node_keys [of "sample_node ''a'' [] verdict_schema (AgentKind (js ''x''))"] node_keys [of "sample_node ''b'' [] verdict_schema (AgentKind (js ''y''))"]
    node_keys [of "sample_node ''v'' [js ''a'', js ''b''] joined_schema (VerificationKind (js ''z''))"]
  by (simp_all add: normalizeNode_def node_props node_fields_def kind_fields_def sample_node_def requireNodeId_def small_names small_texts
      small_sets sample_schemas_parsed guarded_pass parse_node_kind_def kind_is_def node_kind_id_def version_id_def
      get_prop_js_object [of "node_fields _", folded node_value_fields])

lemma sample_order_found: "execution_order sample_source = Inr [js ''a'', js ''b'', js ''v'']"
  by (simp add: execution_order_def sample_source_def sample_node_def graph_node_def validateWorkflowGraph_def graph_checks_def
      node_by_id_def check_node_def is_verification_def dependents_of_def push_node_def graph_roots_def indegrees_def kahn_loop.simps
      finish_graph_def validateIndependentVerifiers_def inherited_agents_def sameStrings_def graph_terminals_def js_def Let_def)

lemma sample_flow: "first_throw (flow_checks sample_source) = None"
proof -
  have f: "from_entries [(js ''a'', verdict_schema), (js ''b'', verdict_schema)] = [(js ''a'', verdict_schema), (js ''b'', verdict_schema)]"
    by (simp add: from_entries_def property_order_def is_array_index_def is_digit_def js_def)
  show ?thesis
    by (simp add: flow_checks_def expect_schema_def sample_source_def sample_node_def workflowNodeInputSchema_def workflowOutputSchema_def
        derivedSchema_def requireNode_def source_schema_def same_schema_def is_gate_def f joined_schema_def)
qed

lemma source_value_keys: "has_exact_keys (source_value s) source_keys"
  unfolding source_value_def by (intro keys_js_object) (auto simp: content_fields_def source_keys_def)

lemma sample_source_ok: "plain_ok (source_value sample_source)"
  unfolding source_value_def plain_ok_js_object
  by (simp add: content_fields_def sample_source_def node_fields_ok sample_node_def sample_schemas_ok)

lemma sample_source_read: "parse_workflow_source (source_value sample_source) = Inr sample_source"
proof -
  have nodes: "normalize_nodes (JArr (map node_value (sw_nodes sample_source))) = Inr (sw_nodes sample_source)"
    using sample_nodes_read by (simp add: normalize_nodes_def sample_source_def guarded_pass edge_count_def Let_def)
      (simp add: sample_node_def js_def guarded_pass)
  have get: "get_prop (source_value sample_source) k = map_of ((''schemaVersion'', JStr (js ''crewon.workflow-version-source.v0'')) # content_fields sample_source) k" for k
    by (simp add: source_value_def)
  show ?thesis
  proof (rule parse_source_intro [OF _ source_value_keys])
    show "is_plain_object (source_value sample_source)" by (simp add: source_value_def)
  qed (simp_all add: get prop_of_def content_fields_def nodes, simp_all add: sample_source_def sample_schemas_parsed small_sets small_texts
      version_id_def small_names)
qed

lemma sample_compiles: "compileWorkflowVersion (source_value sample_source) (\<lambda>_. sample_digest) None = Inr sample_compiled"
proof -
  have "utf8_length (canonical_json code_units (source_value sample_source)) \<le> 1024 * 1024"
    by (rule canonical_fits [OF sample_source_ok]) (simp add: source_value_def content_fields_def sample_source_def sample_node_def
        node_value_def kind_fields_def js_object_def verdict_schema_def joined_schema_def string_list_def js_def)
  then show ?thesis
    unfolding compile_Inr using sample_source_read sample_order_found sample_flow
    by (simp add: sample_compiled_def digest_checks_def version_require_digest_def when_some_def not_less)
qed

theorem joined_dependencies_named_witness: "list_all validPropertyName [js ''a'', js ''b'']"
  using joined_dependencies_named [OF sample_compiles sample_source_ok, of "sample_node ''v'' [js ''a'', js ''b''] joined_schema (VerificationKind (js ''z''))"]
  by (simp add: sample_compiled_def sample_source_def) (simp add: sample_node_def)

theorem compiled_text_roundtrip_witness:
  "\<exists>t. serializeCompiledWorkflowVersion sample_compiled = Inr t \<and> parseCompiledWorkflowVersion t (\<lambda>_. sample_digest) = Inr sample_compiled"
proof -
  have "plain_ok (compiled_value sample_compiled)"
    by (rule compiled_value_ok [of "source_value sample_source"]) (simp_all add: sample_compiled_def sample_source_read sample_source_ok)
  then have "utf8_length (canonical_json code_units (compiled_value sample_compiled)) \<le> max_workflow_definition_bytes"
    by (rule canonical_fits) (simp add: max_workflow_definition_bytes_def compiled_value_def sample_compiled_def content_fields_def
        sample_source_def sample_node_def sample_digest_def
        node_value_def kind_fields_def js_object_def verdict_schema_def joined_schema_def string_list_def js_def)
  then obtain t where "serializeCompiledWorkflowVersion sample_compiled = Inr t"
    by (simp add: serializeCompiledWorkflowVersion_def guarded_pass Let_def not_less)
  with compiled_text_roundtrip [OF sample_compiles sample_source_ok] show ?thesis by blast
qed

definition verdict_ok :: json where
  "verdict_ok = JObj [(js ''ok'', JBool True)]"

theorem compiled_workflow_typed_witness:
  "\<exists>x. run_workflow sample_compiled (\<lambda>_ _. verdict_ok) verdict_ok = Inr x \<and> accepts verdict_schema x"
proof -
  have a: "accepts verdict_schema verdict_ok" by (simp add: accepts_value verdict_schema_def verdict_ok_def)
  then have "nodes_typed sample_source (\<lambda>_ _. verdict_ok)" by (simp add: nodes_typed_def sample_source_def sample_node_def)
  with a show ?thesis
    using compiled_workflow_typed [OF sample_compiles sample_source_ok] by (simp add: sample_compiled_def sample_source_def)
qed

end
