(* ===== verification/Versioned_Steps.thy ===== *)
theory Versioned_Steps
  imports Prelude
begin

text \<open>
  Durable objects that are changed by operations checked against their revision: an approval, a
  tool receipt, the current attempt of a step.  The contract \<open>versioned_object\<close> is what the
  operations of such an object promise, \<open>settled_object\<close> adds that they end.
  \<open>Tool_Approval\<close> and \<open>Tool_Receipt\<close> provide the second, \<open>Execution_Lifecycle\<close> the first.
  \<open>retryable_object\<close> is the contract of objects whose operations may be repeated by a caller that does not
  know whether they took effect; \<open>Plugin_Credit\<close> and \<open>Model_Dispatch\<close> provide it.
\<close>

text \<open>A sequence of operations, each applied to the state the one before it returned.\<close>

fun apply_all :: "('s \<Rightarrow> 'o \<Rightarrow> 's res) \<Rightarrow> 's \<Rightarrow> 'o list \<Rightarrow> 's res" where
  "apply_all step s [] = Inr s"
| "apply_all step s (a # as) = then_do (step s a) (\<lambda>t. apply_all step t as)"

lemma apply_all_append: "apply_all step s (as @ bs) = then_do (apply_all step s as) (\<lambda>t. apply_all step t bs)"
  by (induction as arbitrary: s) (simp_all add: then_do_def split: sum.splits)

locale versioned_object =
  fixes step :: "'s \<Rightarrow> 'o \<Rightarrow> 's res"
    and ok :: "'s \<Rightarrow> bool"
    and revision :: "'s \<Rightarrow> int"
    and identity :: "'s \<Rightarrow> 'i"
  assumes keeps: "ok s \<Longrightarrow> step s a = Inr t \<Longrightarrow> ok t"
    and advances: "step s a = Inr t \<Longrightarrow> revision t = revision s + 1 \<and> identity t = identity s"
begin

lemma apply_keeps: "ok s \<Longrightarrow> apply_all step s as = Inr t \<Longrightarrow> ok t"
  by (induction as arbitrary: s) (auto dest: keeps)

lemma apply_advances: "apply_all step s as = Inr t \<Longrightarrow> revision t = revision s + int (length as) \<and> identity t = identity s"
  by (induction as arbitrary: s) (auto dest!: advances)

end

text \<open>An object that settles: every operation uses up one of finitely many steps.\<close>

locale settled_object = versioned_object step ok revision identity
  for step :: "'s \<Rightarrow> 'o \<Rightarrow> 's res" and ok and revision and identity :: "'s \<Rightarrow> 'i" +
  fixes steps_left :: "'s \<Rightarrow> nat"
  assumes shortens: "ok s \<Longrightarrow> step s a = Inr t \<Longrightarrow> steps_left t < steps_left s"
begin

text \<open>No more operations are accepted than the state has steps left.\<close>

lemma apply_bounded: "ok s \<Longrightarrow> apply_all step s as = Inr t \<Longrightarrow> length as + steps_left t \<le> steps_left s"
proof (induction as arbitrary: s)
  case (Cons a as)
  then obtain u where u: "step s a = Inr u" and rest: "apply_all step u as = Inr t" by auto
  from Cons.IH [OF keeps [OF Cons.prems(1) u] rest] shortens [OF Cons.prems(1) u] show ?case by simp
qed simp

end

text \<open>An operation that is repeated returns the state it left, unchanged.\<close>

locale retryable_object =
  fixes step :: "'s \<Rightarrow> 'o \<Rightarrow> 's res"
    and ok :: "'s \<Rightarrow> bool"
    and revision :: "'s \<Rightarrow> int"
    and identity :: "'s \<Rightarrow> 'i"
  assumes keeps: "ok s \<Longrightarrow> step s a = Inr t \<Longrightarrow> ok t"
    and advances: "step s a = Inr t \<Longrightarrow> t = s \<or> revision t = revision s + 1 \<and> identity t = identity s"
    and repeats: "ok s \<Longrightarrow> step s a = Inr t \<Longrightarrow> step t a = Inr t"
begin

lemma apply_keeps: "ok s \<Longrightarrow> apply_all step s as = Inr t \<Longrightarrow> ok t"
  by (induction as arbitrary: s) (auto dest: keeps)

lemma apply_identity: "apply_all step s as = Inr t \<Longrightarrow> identity t = identity s"
  by (induction as arbitrary: s) (auto dest!: advances)

lemma apply_revision: "apply_all step s as = Inr t \<Longrightarrow> revision s \<le> revision t \<and> revision t \<le> revision s + int (length as)"
proof (induction as arbitrary: s)
  case (Cons a as)
  then obtain u where u: "step s a = Inr u" and rest: "apply_all step u as = Inr t" by auto
  with Cons.IH [OF rest] advances [OF u] show ?case by auto
qed simp

lemma retried: "ok s \<Longrightarrow> step s a = Inr t \<Longrightarrow> apply_all step s (replicate (Suc n) a) = Inr t"
proof (induction n)
  case (Suc n)
  then have "apply_all step s (replicate (Suc n) a @ [a]) = Inr t"
    using repeats [of s a t] by (simp only: apply_all_append) simp
  then show ?case by (simp add: replicate_append_same)
qed simp

end

end
