(* ===== verification/Tool_Approval.thy ===== *)
theory Tool_Approval
  imports Timestamps Versioned_Steps
begin

text \<open>
  \<open>tool-approval.ts\<close>: the approval of one tool action, its creation, decision and
  termination, and the validation of a stored approval.  Field prefix \<open>ap\<close> for the state.
  Its timestamps are only tested for a final \<open>Z\<close> and a \<open>Date.parse\<close> that is not
  \<open>NaN\<close>, so the functions take what \<open>Date.parse\<close> does on other forms as \<open>legacy\<close>.
\<close>

section \<open>Data\<close>

datatype approval_outcome = OutcomeApproved | OutcomeRejected | OtherOutcome js_string

datatype approval_status =
    ApprovalRequired | ApprovalApproved | ApprovalRejected | ApprovalExpired | ApprovalSuperseded
  | OtherApprovalStatus js_string

record approval_decision =
  dc_outcome :: approval_outcome
  dc_actorId :: js_string
  dc_comment :: "js_string option"
  dc_decidedAt :: js_string

record approval_identity =
  ap_approvalId :: js_string
  ap_tenantId :: js_string
  ap_spaceId :: js_string
  ap_runId :: js_string
  ap_receiptId :: js_string
  ap_workItemId :: js_string
  ap_actionDigest :: js_string
  ap_policySnapshotId :: js_string
  ap_requestedByActorId :: js_string

record approval_input = approval_identity +
  ap_requiredAt :: js_string
  ap_expiresAt :: "js_string option"

record approval_state = approval_input +
  ap_schemaVersion :: js_string
  ap_status :: approval_status
  ap_revision :: int
  ap_decision :: "approval_decision option"
  ap_terminalReasonCode :: "js_string option"
  ap_updatedAt :: js_string

section \<open>Checks\<close>

definition ap_throw_if :: "bool \<Rightarrow> string \<Rightarrow> check" where
  "ap_throw_if b code = throw_if b (ToolApprovalError code)"

lemma ap_throw_if_None [simp]: "ap_throw_if b code = None \<longleftrightarrow> \<not> b"
  by (simp add: ap_throw_if_def)

definition ap_require_opaque_id :: "js_string \<Rightarrow> string \<Rightarrow> check" where
  "ap_require_opaque_id s code = ap_throw_if (\<not> matches_opaque_id 511 s) code"

definition requireComment :: "js_string option \<Rightarrow> check" where
  "requireComment v = when_some v (\<lambda>s. ap_throw_if (is_blank s \<or> 2048 < utf8_length s) ''approval_comment_invalid'')"

definition ap_require_timestamp :: "(js_string \<Rightarrow> int option) \<Rightarrow> js_string \<Rightarrow> string \<Rightarrow> check" where
  "ap_require_timestamp legacy s code = ap_throw_if (\<not> loose_timestamp legacy s) code"

definition validateIdentity :: "'a approval_identity_scheme \<Rightarrow> check" where
  "validateIdentity i = first_throw
     [ap_require_opaque_id (ap_approvalId i) ''approval_id_invalid'',
      ap_require_opaque_id (ap_tenantId i) ''approval_tenant_id_invalid'',
      ap_require_opaque_id (ap_spaceId i) ''approval_space_id_invalid'',
      ap_require_opaque_id (ap_runId i) ''approval_run_id_invalid'',
      ap_require_opaque_id (ap_receiptId i) ''approval_receipt_id_invalid'',
      ap_require_opaque_id (ap_workItemId i) ''approval_work_item_id_invalid'',
      ap_require_opaque_id (ap_policySnapshotId i) ''approval_policy_snapshot_invalid'',
      ap_require_opaque_id (ap_requestedByActorId i) ''approval_request_actor_invalid'',
      ap_throw_if (\<not> matches_digest (ap_actionDigest i)) ''approval_action_digest_invalid'']"

definition outcome_status :: "approval_outcome \<Rightarrow> approval_status" where
  "outcome_status oc = (case oc of OutcomeApproved \<Rightarrow> ApprovalApproved | OutcomeRejected \<Rightarrow> ApprovalRejected
     | OtherOutcome t \<Rightarrow> OtherApprovalStatus t)"

definition decision_checks :: "(js_string \<Rightarrow> int option) \<Rightarrow> approval_decision \<Rightarrow> check list" where
  "decision_checks legacy d =
     [ap_require_opaque_id (dc_actorId d) ''approval_actor_id_invalid'',
      requireComment (dc_comment d),
      ap_require_timestamp legacy (dc_decidedAt d) ''approval_decided_at_invalid'']"

text \<open>The part of \<open>validateState\<close> that depends on the status.\<close>

definition approval_status_checks :: "(js_string \<Rightarrow> int option) \<Rightarrow> approval_state \<Rightarrow> check" where
  "approval_status_checks legacy s =
    (case ap_status s of
       ApprovalRequired \<Rightarrow> ap_throw_if (ap_revision s \<noteq> 1 \<or> ap_decision s \<noteq> None
         \<or> ap_terminalReasonCode s \<noteq> None \<or> ap_updatedAt s \<noteq> ap_requiredAt s) ''approval_state_invalid''
     | OtherApprovalStatus _ \<Rightarrow> Some (ToolApprovalError ''approval_status_invalid'')
     | st \<Rightarrow> if st = ApprovalApproved \<or> st = ApprovalRejected
         then (case ap_decision s of None \<Rightarrow> Some (ToolApprovalError ''approval_state_invalid'')
           | Some d \<Rightarrow> first_throw (ap_throw_if (ap_revision s \<noteq> 2 \<or> outcome_status (dc_outcome d) \<noteq> st
                 \<or> ap_terminalReasonCode s \<noteq> None \<or> ap_updatedAt s \<noteq> dc_decidedAt d) ''approval_state_invalid''
               # decision_checks legacy d))
         else (case ap_terminalReasonCode s of None \<Rightarrow> Some (ToolApprovalError ''approval_state_invalid'')
           | Some r \<Rightarrow> first_throw [ap_throw_if (ap_revision s \<noteq> 2 \<or> ap_decision s \<noteq> None) ''approval_state_invalid'',
               ap_require_opaque_id r ''approval_terminal_reason_invalid'']))"

definition validateToolApprovalState :: "(js_string \<Rightarrow> int option) \<Rightarrow> approval_state \<Rightarrow> check" where
  "validateToolApprovalState legacy s = first_throw
     [ap_throw_if (ap_schemaVersion s \<noteq> js ''crewon.tool-approval.v0'' \<or> \<not> is_safe_integer (ap_revision s)
        \<or> ap_revision s < 1) ''approval_state_invalid'',
      validateIdentity s,
      ap_require_timestamp legacy (ap_requiredAt s) ''approval_required_at_invalid'',
      ap_require_timestamp legacy (ap_updatedAt s) ''approval_updated_at_invalid'',
      when_some (ap_expiresAt s) (\<lambda>t. ap_require_timestamp legacy t ''approval_expires_at_invalid''),
      approval_status_checks legacy s]"

section \<open>Operations\<close>

definition createToolApproval :: "(js_string \<Rightarrow> int option) \<Rightarrow> approval_input \<Rightarrow> approval_state res" where
  "createToolApproval legacy i = guarded
     [validateIdentity i,
      ap_require_timestamp legacy (ap_requiredAt i) ''approval_required_at_invalid'',
      when_some (ap_expiresAt i) (\<lambda>t. first_throw
        [ap_require_timestamp legacy t ''approval_expires_at_invalid'',
         ap_throw_if (date_le (date_parse legacy t) (date_parse legacy (ap_requiredAt i))) ''approval_expiry_invalid''])]
     (Inr (approval_input.extend i \<lparr>ap_schemaVersion = js ''crewon.tool-approval.v0'', ap_status = ApprovalRequired,
        ap_revision = 1, ap_decision = None, ap_terminalReasonCode = None, ap_updatedAt = ap_requiredAt i\<rparr>))"

definition decideToolApproval ::
    "(js_string \<Rightarrow> int option) \<Rightarrow> approval_state \<Rightarrow> approval_decision \<Rightarrow> int \<Rightarrow> approval_state res" where
  "decideToolApproval legacy s d expectedRevision = guarded
     [validateToolApprovalState legacy s,
      ap_throw_if (ap_status s \<noteq> ApprovalRequired) ''approval_already_terminal'',
      ap_throw_if (expectedRevision \<noteq> ap_revision s) ''approval_revision_conflict'',
      ap_require_opaque_id (dc_actorId d) ''approval_actor_id_invalid'',
      requireComment (dc_comment d),
      ap_require_timestamp legacy (dc_decidedAt d) ''approval_decided_at_invalid'',
      ap_throw_if (date_less (date_parse legacy (dc_decidedAt d)) (date_parse legacy (ap_requiredAt s)))
        ''approval_decision_time_invalid'',
      when_some (ap_expiresAt s) (\<lambda>t. ap_throw_if
        (date_le (date_parse legacy t) (date_parse legacy (dc_decidedAt d))) ''approval_expired''),
      ap_throw_if (dc_outcome d \<noteq> OutcomeApproved \<and> dc_outcome d \<noteq> OutcomeRejected) ''approval_decision_invalid'']
     (Inr (s\<lparr>ap_status := outcome_status (dc_outcome d), ap_revision := ap_revision s + 1,
        ap_decision := Some d, ap_updatedAt := dc_decidedAt d\<rparr>))"

datatype approval_termination = Expire | Supersede

definition termination_status :: "approval_termination \<Rightarrow> approval_status" where
  "termination_status k = (case k of Expire \<Rightarrow> ApprovalExpired | Supersede \<Rightarrow> ApprovalSuperseded)"

definition terminateToolApproval ::
    "(js_string \<Rightarrow> int option) \<Rightarrow> approval_state \<Rightarrow> approval_termination \<Rightarrow> int \<Rightarrow> js_string \<Rightarrow> js_string
      \<Rightarrow> approval_state res" where
  "terminateToolApproval legacy s k expectedRevision reasonCode occurredAt = guarded
     [validateToolApprovalState legacy s,
      ap_throw_if (ap_status s \<noteq> ApprovalRequired) ''approval_already_terminal'',
      ap_throw_if (expectedRevision \<noteq> ap_revision s) ''approval_revision_conflict'',
      ap_require_opaque_id reasonCode ''approval_terminal_reason_invalid'',
      ap_require_timestamp legacy occurredAt ''approval_terminal_at_invalid'',
      ap_throw_if (date_less (date_parse legacy occurredAt) (date_parse legacy (ap_requiredAt s)))
        ''approval_terminal_time_invalid'']
     (Inr (s\<lparr>ap_status := termination_status k, ap_revision := ap_revision s + 1,
        ap_terminalReasonCode := Some reasonCode, ap_updatedAt := occurredAt\<rparr>))"

section \<open>The contract\<close>

datatype approval_operation =
    Decide approval_decision int
  | Terminate approval_termination int js_string js_string

fun approval_step :: "(js_string \<Rightarrow> int option) \<Rightarrow> approval_state \<Rightarrow> approval_operation \<Rightarrow> approval_state res" where
  "approval_step legacy s (Decide d r) = decideToolApproval legacy s d r"
| "approval_step legacy s (Terminate k r reason at) = terminateToolApproval legacy s k r reason at"

fun_cases approval_step_cases: "approval_step legacy s a = Inr t"

definition approval_ok :: "(js_string \<Rightarrow> int option) \<Rightarrow> approval_state \<Rightarrow> bool" where
  "approval_ok legacy s \<longleftrightarrow> validateToolApprovalState legacy s = None"

definition approval_steps_left :: "approval_state \<Rightarrow> nat" where
  "approval_steps_left s = (if ap_status s = ApprovalRequired then 1 else 0)"

definition approval_request :: "approval_state \<Rightarrow> approval_input" where
  "approval_request s = approval_input.truncate s"

lemma request_update [simp]:
  "approval_request (s\<lparr>ap_status := a, ap_revision := b, ap_decision := c, ap_updatedAt := d\<rparr>) = approval_request s"
  "approval_request (s\<lparr>ap_status := a, ap_revision := b, ap_terminalReasonCode := r, ap_updatedAt := d\<rparr>) = approval_request s"
  by (simp_all add: approval_request_def approval_input.defs)

text \<open>A decision gives a valid approval with that decision, made between request and expiry.\<close>

lemma decide_Inr:
  assumes "decideToolApproval legacy s d r = Inr t"
  shows "approval_ok legacy t" "ap_status s = ApprovalRequired" "r = ap_revision s"
    "t = s\<lparr>ap_status := outcome_status (dc_outcome d), ap_revision := ap_revision s + 1,
        ap_decision := Some d, ap_updatedAt := dc_decidedAt d\<rparr>"
    "dc_outcome d = OutcomeApproved \<or> dc_outcome d = OutcomeRejected"
    "\<not> date_less (date_parse legacy (dc_decidedAt d)) (date_parse legacy (ap_requiredAt s))"
    "\<forall>x. ap_expiresAt s = Some x \<longrightarrow> \<not> date_le (date_parse legacy x) (date_parse legacy (dc_decidedAt d))"
proof -
  from assms have v: "validateToolApprovalState legacy s = None"
    and st: "ap_status s = ApprovalRequired" and t: "t = s\<lparr>ap_status := outcome_status (dc_outcome d),
        ap_revision := ap_revision s + 1, ap_decision := Some d, ap_updatedAt := dc_decidedAt d\<rparr>"
    and o: "dc_outcome d = OutcomeApproved \<or> dc_outcome d = OutcomeRejected"
    and c: "first_throw (decision_checks legacy d) = None"
    by (auto simp: decideToolApproval_def decision_checks_def)
  from v st have r1: "ap_revision s = 1" "ap_terminalReasonCode s = None"
    by (auto simp: validateToolApprovalState_def approval_status_checks_def)
  have "approval_status_checks legacy t = None"
    using o c r1 by (auto simp: t approval_status_checks_def outcome_status_def)
  moreover have "ap_require_timestamp legacy (dc_decidedAt d) code = None" for code
    using c by (simp add: decision_checks_def ap_require_timestamp_def)
  ultimately show "approval_ok legacy t"
    using v r1 by (simp add: approval_ok_def validateToolApprovalState_def t validateIdentity_def safe_integer_defs)
  show "ap_status s = ApprovalRequired" "r = ap_revision s"
    "t = s\<lparr>ap_status := outcome_status (dc_outcome d), ap_revision := ap_revision s + 1,
        ap_decision := Some d, ap_updatedAt := dc_decidedAt d\<rparr>"
    "dc_outcome d = OutcomeApproved \<or> dc_outcome d = OutcomeRejected"
    "\<not> date_less (date_parse legacy (dc_decidedAt d)) (date_parse legacy (ap_requiredAt s))"
    "\<forall>x. ap_expiresAt s = Some x \<longrightarrow> \<not> date_le (date_parse legacy x) (date_parse legacy (dc_decidedAt d))"
    using assms by (auto simp: decideToolApproval_def)
qed

lemma terminate_Inr:
  assumes "terminateToolApproval legacy s k r reason at = Inr t"
  shows "approval_ok legacy t" "ap_status s = ApprovalRequired" "r = ap_revision s"
    "t = s\<lparr>ap_status := termination_status k, ap_revision := ap_revision s + 1,
        ap_terminalReasonCode := Some reason, ap_updatedAt := at\<rparr>"
proof -
  from assms have v: "validateToolApprovalState legacy s = None"
    and st: "ap_status s = ApprovalRequired" and t: "t = s\<lparr>ap_status := termination_status k,
        ap_revision := ap_revision s + 1, ap_terminalReasonCode := Some reason, ap_updatedAt := at\<rparr>"
    and c: "ap_require_opaque_id reason ''approval_terminal_reason_invalid'' = None"
    and at: "loose_timestamp legacy at"
    by (auto simp: terminateToolApproval_def ap_require_timestamp_def)
  from v st have r1: "ap_revision s = 1" "ap_decision s = None"
    by (auto simp: validateToolApprovalState_def approval_status_checks_def)
  have "approval_status_checks legacy t = None"
    using c r1 by (cases k) (auto simp: t approval_status_checks_def termination_status_def)
  then show "approval_ok legacy t"
    using v r1 at by (simp add: approval_ok_def validateToolApprovalState_def t validateIdentity_def
        ap_require_timestamp_def safe_integer_defs)
  show "ap_status s = ApprovalRequired" "r = ap_revision s"
    "t = s\<lparr>ap_status := termination_status k, ap_revision := ap_revision s + 1,
        ap_terminalReasonCode := Some reason, ap_updatedAt := at\<rparr>"
    using assms by (auto simp: terminateToolApproval_def)
qed

interpretation approval: settled_object "approval_step legacy" "approval_ok legacy" ap_revision
  approval_request approval_steps_left for legacy
proof
  fix s a t assume step: "approval_step legacy s a = Inr t"
  show "ap_revision t = ap_revision s + 1 \<and> approval_request t = approval_request s"
    using step by (cases a) (auto dest!: decide_Inr(4) terminate_Inr(4))
  assume "approval_ok legacy s"
  show "approval_ok legacy t"
    using step by (rule approval_step_cases) (metis decide_Inr(1), metis terminate_Inr(1))
  show "approval_steps_left t < approval_steps_left s"
    using step
  proof (cases a)
    case (Decide d r)
    with step decide_Inr(2,4,5) [of legacy s d r t] show ?thesis
      by (auto simp: approval_steps_left_def outcome_status_def)
  next
    case (Terminate k r reason at)
    with step terminate_Inr(2,4) [of legacy s k r reason at t] show ?thesis
      by (cases k) (auto simp: approval_steps_left_def termination_status_def)
  qed
qed

lemma create_approval_ok:
  assumes "createToolApproval legacy i = Inr s"
  shows "approval_ok legacy s" "approval_request s = i" "ap_revision s = 1" "approval_steps_left s = 1"
    "ap_status s = ApprovalRequired"
  using assms
  by (auto simp: createToolApproval_def approval_ok_def validateToolApprovalState_def approval_status_checks_def
      validateIdentity_def approval_input.defs approval_request_def approval_steps_left_def ap_require_timestamp_def
      when_some_None_iff safe_integer_defs)

section \<open>Properties\<close>

text \<open>
  An approval is settled at most once: of all operations after its creation at most one is
  accepted, whoever makes it; the approval stays valid, keeps what was requested, and its
  revision counts the accepted operation.
\<close>

theorem approval_settled_once:
  assumes "createToolApproval legacy i = Inr s" and "apply_all (approval_step legacy) s as = Inr t"
  shows "length as \<le> 1 \<and> validateToolApprovalState legacy t = None \<and> approval_request t = i
    \<and> ap_revision t = 1 + int (length as)"
proof -
  note c = create_approval_ok [OF assms(1)]
  have "approval_ok legacy t" using c(1) assms(2) by (rule approval.apply_keeps)
  moreover have "length as \<le> 1" using approval.apply_bounded [OF c(1) assms(2)] c(4) by simp
  ultimately show ?thesis
    using approval.apply_advances [OF assms(2)] c by (simp add: approval_ok_def)
qed

text \<open>
  An approved action was approved by a decision, not before it was requested and strictly
  before the approval expired.
\<close>

theorem approval_granted_in_time:
  assumes "createToolApproval legacy i = Inr s" and "apply_all (approval_step legacy) s as = Inr t"
    and "ap_status t = ApprovalApproved"
  shows "\<exists>d. as = [Decide d 1] \<and> ap_decision t = Some d \<and> dc_outcome d = OutcomeApproved
    \<and> \<not> date_less (date_parse legacy (dc_decidedAt d)) (date_parse legacy (ap_requiredAt i))
    \<and> (\<forall>x. ap_expiresAt i = Some x \<longrightarrow> date_less (date_parse legacy (dc_decidedAt d)) (date_parse legacy x))"
proof -
  note c = create_approval_ok [OF assms(1)]
  have i: "ap_requiredAt s = ap_requiredAt i" "ap_expiresAt s = ap_expiresAt i"
    using c(2) by (auto simp: approval_request_def approval_input.defs)
  have "length as \<le> 1" using approval.apply_bounded [OF c(1) assms(2)] c(4) by simp
  then obtain a where a: "as = [a]"
    using assms(2,3) c(5) by (cases as) auto
  with assms(2) have step: "approval_step legacy s a = Inr t" by simp
  show ?thesis
  proof (cases a)
    case (Terminate k r reason at)
    with step terminate_Inr(4) [of legacy s k r reason at t] assms(3) show ?thesis
      by (cases k) (auto simp: termination_status_def)
  next
    case (Decide d r)
    with step have "decideToolApproval legacy s d r = Inr t" by simp
    note d = decide_Inr [OF this]
    have strict: "date_less (date_parse legacy (dc_decidedAt d)) (date_parse legacy x)" if x: "ap_expiresAt i = Some x" for x
    proof -
      have "loose_timestamp legacy x"
        using c(1) x i by (simp add: approval_ok_def validateToolApprovalState_def ap_require_timestamp_def)
      moreover have "loose_timestamp legacy (dc_decidedAt d)"
        using d(1,4) by (simp add: approval_ok_def validateToolApprovalState_def ap_require_timestamp_def)
      ultimately show ?thesis using d(7) x i by (auto simp: loose_timestamp_def not_le)
    qed
    have "dc_outcome d = OutcomeApproved" using d(4,5) assms(3) by (auto simp: outcome_status_def)
    then show ?thesis using d(3,4,6) strict i c(3) a Decide by simp
  qed
qed

section \<open>A concrete approval\<close>

definition sample_approval_input :: approval_input where
  "sample_approval_input = \<lparr>ap_approvalId = js ''ap'', ap_tenantId = js ''t'', ap_spaceId = js ''s'',
     ap_runId = js ''r'', ap_receiptId = js ''rc'', ap_workItemId = js ''w'', ap_actionDigest = sample_digest,
     ap_policySnapshotId = js ''p'', ap_requestedByActorId = js ''a'',
     ap_requiredAt = js ''2026-01-01T00:00:00Z'', ap_expiresAt = Some (js ''2026-01-02T00:00:00Z'')\<rparr>"

definition sample_decision :: approval_decision where
  "sample_decision = \<lparr>dc_outcome = OutcomeApproved, dc_actorId = js ''boss'', dc_comment = None,
     dc_decidedAt = js ''2026-01-01T12:00:00Z''\<rparr>"

lemma approval_times [simp]:
  "date_parse (\<lambda>_. None) (js ''2026-01-01T00:00:00Z'') = Some 1767225600000"
  "date_parse (\<lambda>_. None) (js ''2026-01-02T00:00:00Z'') = Some 1767312000000"
  "date_parse (\<lambda>_. None) (js ''2026-01-01T12:00:00Z'') = Some 1767268800000"
  by code_simp+

lemma js_last: "js s \<noteq> [] \<longleftrightarrow> s \<noteq> []" "s \<noteq> [] \<Longrightarrow> last (js s) = of_char (last s)"
  by (simp_all add: js_def last_map)

lemma sample_ids [simp]: "matches_opaque_id 511 (js ''ap'')" "matches_opaque_id 511 (js ''t'')"
    "matches_opaque_id 511 (js ''s'')" "matches_opaque_id 511 (js ''r'')" "matches_opaque_id 511 (js ''rc'')"
    "matches_opaque_id 511 (js ''w'')" "matches_opaque_id 511 (js ''p'')" "matches_opaque_id 511 (js ''a'')"
    "matches_opaque_id 511 (js ''boss'')"
  by (simp_all add: js_def matches_opaque_id_def is_alnum_def is_id_tail_def is_digit_def is_lower_def is_upper_def)

lemma sample_loose [simp]: "loose_timestamp (\<lambda>_. None) (js ''2026-01-01T00:00:00Z'')"
    "loose_timestamp (\<lambda>_. None) (js ''2026-01-02T00:00:00Z'')" "loose_timestamp (\<lambda>_. None) (js ''2026-01-01T12:00:00Z'')"
  by (simp_all add: loose_timestamp_def js_last)

lemmas approval_eval = createToolApproval_def decideToolApproval_def validateToolApprovalState_def validateIdentity_def
  ap_require_opaque_id_def ap_require_timestamp_def approval_status_checks_def requireComment_def
  approval_input.defs safe_integer_defs guarded_pass

definition sample_approval :: approval_state where
  "sample_approval = approval_input.extend sample_approval_input \<lparr>ap_schemaVersion = js ''crewon.tool-approval.v0'',
     ap_status = ApprovalRequired, ap_revision = 1, ap_decision = None, ap_terminalReasonCode = None,
     ap_updatedAt = js ''2026-01-01T00:00:00Z''\<rparr>"

definition sample_approved :: approval_state where
  "sample_approved = sample_approval\<lparr>ap_status := ApprovalApproved, ap_revision := 2,
     ap_decision := Some sample_decision, ap_updatedAt := js ''2026-01-01T12:00:00Z''\<rparr>"

lemma sample_approval_created: "createToolApproval (\<lambda>_. None) sample_approval_input = Inr sample_approval"
  by (simp add: approval_eval sample_approval_def sample_approval_input_def)

lemma sample_approval_decided:
  "apply_all (approval_step (\<lambda>_. None)) sample_approval [Decide sample_decision 1] = Inr sample_approved"
  by (simp add: approval_eval sample_approval_def sample_approval_input_def sample_decision_def sample_approved_def
      outcome_status_def)

theorem approval_settled_once_witness:
  "apply_all (approval_step (\<lambda>_. None)) sample_approval [Decide sample_decision 1] = Inr sample_approved
    \<and> validateToolApprovalState (\<lambda>_. None) sample_approved = None \<and> ap_revision sample_approved = 2"
  using approval_settled_once [OF sample_approval_created sample_approval_decided] sample_approval_decided by simp

theorem approval_granted_in_time_witness:
  "\<exists>d. ap_decision sample_approved = Some d
    \<and> date_less (date_parse (\<lambda>_. None) (dc_decidedAt d)) (date_parse (\<lambda>_. None) (js ''2026-01-02T00:00:00Z''))"
proof -
  have "ap_status sample_approved = ApprovalApproved" by (simp add: sample_approved_def)
  from approval_granted_in_time [OF sample_approval_created sample_approval_decided this]
  show ?thesis by (auto simp: sample_approval_input_def)
qed

end
