(* ===== verification/Tool_Receipt.thy ===== *)
theory Tool_Receipt
  imports Run_Events Versioned_Steps
begin

text \<open>
  \<open>tool-execution-receipt.ts\<close>: the durable receipt of one tool execution, its preparation,
  dispatch, unknown outcome and resolution, and its validation with the action intent it
  carries.  Field prefixes: \<open>tr\<close> for the receipt, \<open>cl\<close> for the call, \<open>ti\<close> for the
  intent, \<open>re\<close> for the result.
\<close>

section \<open>Data\<close>

datatype tool_effect = ReadOnly | Mutation | OtherEffect js_string

datatype tool_recovery = ReplaySafe | Reconcilable | OtherRecovery js_string

datatype target_kind = ControlTarget | DeviceTarget | DockerTarget | RemoteTarget | OtherTarget js_string

datatype approval_requirement = NoApproval | PerAction | OtherRequirement js_string

record tool_call =
  cl_segmentId :: js_string
  cl_callId :: js_string
  cl_kind :: tool_kind
  cl_name :: js_string
  cl_inputDigest :: js_string

record action_intent =
  ti_schemaVersion :: js_string
  ti_runId :: js_string
  ti_segmentId :: js_string
  ti_callId :: js_string
  ti_toolKind :: tool_kind
  ti_toolName :: js_string
  ti_toolInputDigest :: js_string
  ti_effect :: tool_effect
  ti_recovery :: tool_recovery
  ti_policySnapshotId :: js_string
  ti_workspaceBindingId :: "js_string option"
  ti_resourceBindingId :: "js_string option"
  ti_credentialBindingId :: "js_string option"
  ti_targetKind :: target_kind
  ti_targetBindingId :: js_string
  ti_capability :: js_string
  ti_approvalRequirement :: approval_requirement
  ti_timeoutMs :: int
  ti_maxOutputBytes :: int
  ti_maxArtifactBytes :: int

datatype receipt_status =
    Prepared | Dispatched | UnknownOutcome | Completed | Canceled | OtherReceiptStatus js_string

record tool_result =
  re_output :: "json option"
  re_outputDigest :: js_string
  re_isError :: "json option"
  re_artifactRef :: "js_string option"
  re_workspaceChanges :: "json option"

record receipt_input =
  tr_receiptId :: js_string
  tr_tenantId :: js_string
  tr_runId :: js_string
  tr_stepId :: js_string
  tr_attemptId :: js_string
  tr_workItemId :: js_string
  tr_executionId :: js_string
  tr_idempotencyKey :: js_string
  tr_actionDigest :: js_string
  tr_actionIntent :: "action_intent option"
  tr_call :: tool_call
  tr_effect :: tool_effect
  tr_recovery :: tool_recovery
  tr_preparedAt :: js_string

record receipt_state = receipt_input +
  tr_schemaVersion :: js_string
  tr_status :: receipt_status
  tr_revision :: int
  tr_providerReceiptId :: "js_string option"
  tr_result :: "tool_result option"
  tr_dispatchedAt :: "js_string option"
  tr_updatedAt :: js_string
  tr_resolvedAt :: "js_string option"

section \<open>Checks\<close>

definition tr_throw_if :: "bool \<Rightarrow> string \<Rightarrow> check" where
  "tr_throw_if b code = throw_if b (ToolExecutionReceiptError code)"

lemma tr_throw_if_None [simp]: "tr_throw_if b code = None \<longleftrightarrow> \<not> b"
  by (simp add: tr_throw_if_def)

definition requireBoundedNonEmpty :: "js_string \<Rightarrow> nat \<Rightarrow> string \<Rightarrow> check" where
  "requireBoundedNonEmpty s maxLength code = tr_throw_if (is_blank s \<or> maxLength < length s) code"

definition requireNullableBoundedNonEmpty :: "js_string option \<Rightarrow> nat \<Rightarrow> string \<Rightarrow> check" where
  "requireNullableBoundedNonEmpty v maxLength code = when_some v (\<lambda>s. requireBoundedNonEmpty s maxLength code)"

definition tr_require_digest :: "js_string \<Rightarrow> string \<Rightarrow> check" where
  "tr_require_digest s code = tr_throw_if (\<not> matches_digest s) code"

definition tr_require_opaque_id :: "js_string \<Rightarrow> string \<Rightarrow> check" where
  "tr_require_opaque_id s code = tr_throw_if (\<not> matches_opaque_id 511 s) code"

definition requireNullableOpaqueId :: "js_string option \<Rightarrow> string \<Rightarrow> check" where
  "requireNullableOpaqueId v code = when_some v (\<lambda>s. tr_require_opaque_id s code)"

definition isPositiveIntegerAtMost :: "int \<Rightarrow> int \<Rightarrow> bool" where
  "isPositiveIntegerAtMost i m \<longleftrightarrow> is_safe_integer i \<and> 1 \<le> i \<and> i \<le> m"

definition tr_require_timestamp :: "js_string \<Rightarrow> string \<Rightarrow> check" where
  "tr_require_timestamp s code = tr_throw_if (\<not> is_timestamp s) code"

text \<open>The value is a timestamp not before \<open>earliest\<close>, a stored and validated timestamp.\<close>

definition requireOrderedTimestamp :: "js_string \<Rightarrow> js_string \<Rightarrow> string \<Rightarrow> check" where
  "requireOrderedTimestamp s earliest code = first_throw
     [tr_require_timestamp s code, tr_throw_if (date_less (iso_time s) (iso_time earliest)) code]"

definition receipt_status_text :: "receipt_status \<Rightarrow> string" where
  "receipt_status_text st = (case st of Prepared \<Rightarrow> ''prepared'' | Dispatched \<Rightarrow> ''dispatched''
     | UnknownOutcome \<Rightarrow> ''unknownOutcome'' | Completed \<Rightarrow> ''completed'' | Canceled \<Rightarrow> ''canceled''
     | OtherReceiptStatus _ \<Rightarrow> '''')"

definition tr_require_status :: "receipt_state \<Rightarrow> receipt_status list \<Rightarrow> check" where
  "tr_require_status r allowed = tr_throw_if (tr_status r \<notin> set allowed)
     (''tool_receipt_invalid_transition:'' @ receipt_status_text (tr_status r))"

text \<open>\<open>/^[A-Za-z0-9_.:-]{1,128}$/\<close>\<close>

definition matches_tool_name :: "js_string \<Rightarrow> bool" where
  "matches_tool_name s \<longleftrightarrow> 1 \<le> length s \<and> length s \<le> 128 \<and> list_all is_id_tail s"

text \<open>
  \<open>/^[a-z][a-z0-9]*(?:[._:-][a-z0-9]+){0,15}$/\<close>: the parts between separators; the first begins
  with a letter, none is empty, and at most fifteen follow the first.
\<close>

definition is_capability_separator :: "nat \<Rightarrow> bool" where
  "is_capability_separator u \<longleftrightarrow> u = 46 \<or> u = 95 \<or> u = 58 \<or> u = 45"

fun capability_parts :: "js_string \<Rightarrow> js_string list" where
  "capability_parts [] = [[]]"
| "capability_parts (u # s) = (if is_capability_separator u then [] # capability_parts s
     else (case capability_parts s of [] \<Rightarrow> [[u]] | p # ps \<Rightarrow> (u # p) # ps))"

definition matches_capability :: "js_string \<Rightarrow> bool" where
  "matches_capability s = (case capability_parts s of [] \<Rightarrow> False | p # ps \<Rightarrow>
     p \<noteq> [] \<and> is_lower (hd p) \<and> list_all (\<lambda>u. is_lower u \<or> is_digit u) p
     \<and> length ps \<le> 15 \<and> list_all (\<lambda>q. q \<noteq> [] \<and> list_all (\<lambda>u. is_lower u \<or> is_digit u) q) ps)"

section \<open>Validation\<close>

definition validateActionIntent :: "action_intent \<Rightarrow> 'a receipt_input_scheme \<Rightarrow> check" where
  "validateActionIntent i r = first_throw
     [tr_throw_if (ti_schemaVersion i \<noteq> js ''crewon.action-intent.v0'' \<or> ti_runId i \<noteq> tr_runId r
        \<or> ti_segmentId i \<noteq> cl_segmentId (tr_call r) \<or> ti_callId i \<noteq> cl_callId (tr_call r)
        \<or> ti_toolKind i \<noteq> cl_kind (tr_call r) \<or> ti_toolName i \<noteq> cl_name (tr_call r)
        \<or> ti_toolInputDigest i \<noteq> cl_inputDigest (tr_call r)
        \<or> ti_effect i \<noteq> tr_effect r \<or> ti_recovery i \<noteq> tr_recovery r) ''tool_action_intent_mismatch'',
      requireBoundedNonEmpty (ti_policySnapshotId i) 512 ''tool_action_policy_snapshot_invalid'',
      requireNullableOpaqueId (ti_workspaceBindingId i) ''tool_action_binding_invalid'',
      requireNullableOpaqueId (ti_resourceBindingId i) ''tool_action_binding_invalid'',
      requireNullableOpaqueId (ti_credentialBindingId i) ''tool_action_binding_invalid'',
      tr_throw_if (case ti_targetKind i of OtherTarget _ \<Rightarrow> True | _ \<Rightarrow> False) ''tool_action_target_invalid'',
      tr_require_opaque_id (ti_targetBindingId i) ''tool_action_target_invalid'',
      tr_throw_if (\<not> matches_capability (ti_capability i) \<or> 128 < length (ti_capability i))
        ''tool_action_capability_invalid'',
      tr_throw_if (case ti_approvalRequirement i of OtherRequirement _ \<Rightarrow> True | _ \<Rightarrow> False)
        ''tool_action_approval_invalid'',
      tr_throw_if (\<not> isPositiveIntegerAtMost (ti_timeoutMs i) 86400000
        \<or> \<not> isPositiveIntegerAtMost (ti_maxOutputBytes i) 1048576
        \<or> \<not> isPositiveIntegerAtMost (ti_maxArtifactBytes i) 1073741824) ''tool_action_limits_invalid'']"

definition validateResult :: "tool_result \<Rightarrow> check" where
  "validateResult v = first_throw
     [tr_throw_if ((case re_output v of Some (JStr s) \<Rightarrow> 256 * 1024 < utf8_length s | _ \<Rightarrow> True)
        \<or> \<not> is_boolean (re_isError v)) ''tool_result_invalid'',
      tr_require_digest (re_outputDigest v) ''tool_output_digest_invalid'',
      requireNullableBoundedNonEmpty (re_artifactRef v) 512 ''tool_artifact_ref_invalid'',
      when_some (re_workspaceChanges v) (\<lambda>w. rethrow
        (\<lambda>_. ToolExecutionReceiptError ''tool_workspace_changes_invalid'') (validateWorkspaceChangeSummary w))]"

definition validateStateShape :: "receipt_state \<Rightarrow> check" where
  "validateStateShape r = (let st = tr_status r;
       dispatchRequired = (st = Dispatched \<or> st = UnknownOutcome \<or> st = Completed);
       resolved = (st = Completed \<or> st = Canceled) in first_throw
     [tr_throw_if (st = Prepared \<and> tr_dispatchedAt r \<noteq> None \<or> dispatchRequired \<and> tr_dispatchedAt r = None
        \<or> resolved \<noteq> (tr_resolvedAt r \<noteq> None) \<or> (st = Completed) \<noteq> (tr_result r \<noteq> None))
        ''tool_receipt_state_invalid'',
      when_some (tr_dispatchedAt r) (\<lambda>t. requireOrderedTimestamp t (tr_preparedAt r) ''tool_receipt_dispatched_at_invalid''),
      when_some (tr_resolvedAt r) (\<lambda>t. requireOrderedTimestamp t (nullish (tr_dispatchedAt r) (tr_preparedAt r))
        ''tool_receipt_resolved_at_invalid''),
      tr_throw_if (date_less (iso_time (tr_updatedAt r)) (iso_time (tr_preparedAt r))) ''tool_receipt_updated_at_invalid'',
      when_some (tr_result r) validateResult])"

text \<open>The checks of the parts that no operation changes.\<close>

definition receipt_input_checks :: "'a receipt_input_scheme \<Rightarrow> check list" where
  "receipt_input_checks r =
     map (\<lambda>v. requireBoundedNonEmpty v 512 ''tool_receipt_identity_invalid'')
       [tr_receiptId r, tr_tenantId r, tr_runId r, tr_stepId r, tr_attemptId r, tr_workItemId r,
        tr_executionId r, tr_idempotencyKey r, cl_segmentId (tr_call r), cl_callId (tr_call r)]
     @ [tr_require_digest (tr_actionDigest r) ''tool_action_digest_invalid'',
        when_some (tr_actionIntent r) (\<lambda>i. validateActionIntent i r),
        tr_require_digest (cl_inputDigest (tr_call r)) ''tool_input_digest_invalid'',
        tr_throw_if ((case cl_kind (tr_call r) of OtherToolKind _ \<Rightarrow> True | _ \<Rightarrow> False)
          \<or> \<not> matches_tool_name (cl_name (tr_call r))) ''tool_call_identity_invalid'',
        tr_throw_if ((case tr_effect r of OtherEffect _ \<Rightarrow> True | _ \<Rightarrow> False)
          \<or> (case tr_recovery r of OtherRecovery _ \<Rightarrow> True | _ \<Rightarrow> False)) ''tool_recovery_policy_invalid'',
        tr_throw_if (tr_effect r = Mutation \<and> tr_recovery r \<noteq> Reconcilable) ''tool_mutation_not_reconcilable'']"

definition validateToolExecutionReceipt :: "receipt_state \<Rightarrow> check" where
  "validateToolExecutionReceipt r = first_throw
     (tr_throw_if (tr_schemaVersion r \<noteq> js ''crewon.tool-execution-receipt.v0'') ''tool_receipt_schema_invalid''
      # receipt_input_checks r
      @ [tr_throw_if ((case tr_status r of OtherReceiptStatus _ \<Rightarrow> True | _ \<Rightarrow> False)
           \<or> \<not> is_safe_integer (tr_revision r) \<or> tr_revision r < 1) ''tool_receipt_state_invalid'',
         tr_require_timestamp (tr_preparedAt r) ''tool_receipt_prepared_at_invalid'',
         tr_require_timestamp (tr_updatedAt r) ''tool_receipt_updated_at_invalid'',
         requireNullableBoundedNonEmpty (tr_providerReceiptId r) 512 ''tool_provider_receipt_id_invalid'',
         validateStateShape r])"

section \<open>Operations\<close>

definition prepareToolExecutionReceipt :: "receipt_input \<Rightarrow> receipt_state res" where
  "prepareToolExecutionReceipt i =
    (let receipt = receipt_input.extend i \<lparr>tr_schemaVersion = js ''crewon.tool-execution-receipt.v0'',
       tr_status = Prepared, tr_revision = 1, tr_providerReceiptId = None, tr_result = None,
       tr_dispatchedAt = None, tr_updatedAt = tr_preparedAt i, tr_resolvedAt = None\<rparr>
     in guarded [validateToolExecutionReceipt receipt] (Inr receipt))"

definition dispatchToolExecutionReceipt :: "receipt_state \<Rightarrow> js_string \<Rightarrow> receipt_state res" where
  "dispatchToolExecutionReceipt r dispatchedAt = guarded
     [validateToolExecutionReceipt r, tr_require_status r [Prepared],
      requireOrderedTimestamp dispatchedAt (tr_updatedAt r) ''tool_receipt_dispatched_at_invalid'']
     (Inr (r\<lparr>tr_status := Dispatched, tr_revision := tr_revision r + 1, tr_dispatchedAt := Some dispatchedAt,
        tr_updatedAt := dispatchedAt\<rparr>))"

definition markToolExecutionUnknownOutcome :: "receipt_state \<Rightarrow> js_string \<Rightarrow> js_string option \<Rightarrow> receipt_state res" where
  "markToolExecutionUnknownOutcome r observedAt providerReceiptId = guarded
     [validateToolExecutionReceipt r, tr_require_status r [Dispatched],
      requireOrderedTimestamp observedAt (tr_updatedAt r) ''tool_receipt_observed_at_invalid'',
      requireNullableBoundedNonEmpty providerReceiptId 512 ''tool_provider_receipt_id_invalid'']
     (Inr (r\<lparr>tr_status := UnknownOutcome, tr_revision := tr_revision r + 1,
        tr_providerReceiptId := providerReceiptId, tr_updatedAt := observedAt\<rparr>))"

datatype receipt_resolution =
    ResolveCompleted js_string js_string tool_result
  | ResolveCanceled js_string "js_string option"

definition resolution_at :: "receipt_resolution \<Rightarrow> js_string" where
  "resolution_at x = (case x of ResolveCompleted at _ _ \<Rightarrow> at | ResolveCanceled at _ \<Rightarrow> at)"

definition resolution_provider :: "receipt_resolution \<Rightarrow> js_string option" where
  "resolution_provider x = (case x of ResolveCompleted _ p _ \<Rightarrow> Some p | ResolveCanceled _ p \<Rightarrow> p)"

definition resolution_result :: "receipt_resolution \<Rightarrow> tool_result option" where
  "resolution_result x = (case x of ResolveCompleted _ _ v \<Rightarrow> Some v | ResolveCanceled _ _ \<Rightarrow> None)"

definition resolved_receipt :: "receipt_state \<Rightarrow> receipt_resolution \<Rightarrow> receipt_state" where
  "resolved_receipt r x = r\<lparr>tr_status := (if resolution_result x = None then Canceled else Completed),
     tr_revision := tr_revision r + 1, tr_providerReceiptId := resolution_provider x,
     tr_result := resolution_result x, tr_updatedAt := resolution_at x, tr_resolvedAt := Some (resolution_at x)\<rparr>"

definition resolveToolExecutionReceipt :: "receipt_state \<Rightarrow> receipt_resolution \<Rightarrow> receipt_state res" where
  "resolveToolExecutionReceipt r x = guarded
     [validateToolExecutionReceipt r, tr_require_status r [Prepared, Dispatched, UnknownOutcome],
      requireOrderedTimestamp (resolution_at x) (tr_updatedAt r) ''tool_receipt_resolved_at_invalid'',
      requireNullableBoundedNonEmpty (resolution_provider x) 512 ''tool_provider_receipt_id_invalid'',
      when_some (resolution_result x) (\<lambda>v. first_throw
        [tr_throw_if (tr_status r = Prepared) ''tool_receipt_not_dispatched'', validateResult v]),
      validateToolExecutionReceipt (resolved_receipt r x)]
     (Inr (resolved_receipt r x))"

section \<open>The contract\<close>

datatype receipt_operation =
    DispatchAt js_string
  | ObserveUnknown js_string "js_string option"
  | Resolve receipt_resolution

fun receipt_step :: "receipt_state \<Rightarrow> receipt_operation \<Rightarrow> receipt_state res" where
  "receipt_step r (DispatchAt at) = dispatchToolExecutionReceipt r at"
| "receipt_step r (ObserveUnknown at p) = markToolExecutionUnknownOutcome r at p"
| "receipt_step r (Resolve x) = resolveToolExecutionReceipt r x"

fun_cases receipt_step_cases: "receipt_step r a = Inr t"

definition receipt_steps_left :: "receipt_state \<Rightarrow> nat" where
  "receipt_steps_left r = (case tr_status r of Prepared \<Rightarrow> 3 | Dispatched \<Rightarrow> 2 | UnknownOutcome \<Rightarrow> 1 | _ \<Rightarrow> 0)"

definition receipt_request :: "receipt_state \<Rightarrow> receipt_input" where
  "receipt_request r = receipt_input.truncate r"

text \<open>
  A stored receipt: valid, with a revision that leaves room for the remaining steps, and last
  updated not before it was dispatched.
\<close>

definition receipt_ok :: "receipt_state \<Rightarrow> bool" where
  "receipt_ok r \<longleftrightarrow> validateToolExecutionReceipt r = None \<and> tr_revision r + int (receipt_steps_left r) \<le> 4
     \<and> (\<forall>d. tr_dispatchedAt r = Some d \<longrightarrow> \<not> date_less (iso_time (tr_updatedAt r)) (iso_time d))"

lemma first_throw_cons_append_None:
  "first_throw (c # cs @ ds) = None \<longleftrightarrow> c = None \<and> first_throw cs = None \<and> first_throw ds = None"
  by (simp add: first_throw_append split: option.splits)

lemma receipt_valid_iff: "validateToolExecutionReceipt r = None \<longleftrightarrow>
    tr_schemaVersion r = js ''crewon.tool-execution-receipt.v0'' \<and> first_throw (receipt_input_checks r) = None
    \<and> (case tr_status r of OtherReceiptStatus _ \<Rightarrow> False | _ \<Rightarrow> True) \<and> positive_safe_integer (tr_revision r)
    \<and> is_timestamp (tr_preparedAt r) \<and> is_timestamp (tr_updatedAt r)
    \<and> requireNullableBoundedNonEmpty (tr_providerReceiptId r) 512 ''tool_provider_receipt_id_invalid'' = None
    \<and> validateStateShape r = None"
  unfolding validateToolExecutionReceipt_def first_throw_cons_append_None
  by (auto simp: tr_require_timestamp_def positive_safe_integer_def split: receipt_status.splits)

lemma receipt_input_checks_cong: "receipt_request r = receipt_request t \<Longrightarrow> receipt_input_checks r = receipt_input_checks t"
  by (simp add: receipt_request_def receipt_input.defs receipt_input_checks_def validateActionIntent_def cong: option.case_cong)

lemma ordered_None: "requireOrderedTimestamp s e code = None \<longleftrightarrow> is_timestamp s \<and> \<not> date_less (iso_time s) (iso_time e)"
  by (simp add: requireOrderedTimestamp_def tr_require_timestamp_def)

lemma date_order_trans:
  assumes "is_timestamp b" and "\<not> date_less (iso_time b) (iso_time a)" and "\<not> date_less (iso_time c) (iso_time b)"
  shows "\<not> date_less (iso_time c) (iso_time a)"
  using assms by (auto simp: is_timestamp_iff date_less_def split: option.splits)

lemma dispatch_Inr:
  assumes "dispatchToolExecutionReceipt r at = Inr t"
  shows "tr_status r = Prepared" "is_timestamp at" "\<not> date_less (iso_time at) (iso_time (tr_updatedAt r))"
    "t = r\<lparr>tr_status := Dispatched, tr_revision := tr_revision r + 1, tr_dispatchedAt := Some at, tr_updatedAt := at\<rparr>"
  using assms by (auto simp: dispatchToolExecutionReceipt_def tr_require_status_def ordered_None)

lemma unknown_Inr:
  assumes "markToolExecutionUnknownOutcome r at p = Inr t"
  shows "tr_status r = Dispatched" "is_timestamp at" "\<not> date_less (iso_time at) (iso_time (tr_updatedAt r))"
    "requireNullableBoundedNonEmpty p 512 ''tool_provider_receipt_id_invalid'' = None"
    "t = r\<lparr>tr_status := UnknownOutcome, tr_revision := tr_revision r + 1, tr_providerReceiptId := p, tr_updatedAt := at\<rparr>"
  using assms by (auto simp: markToolExecutionUnknownOutcome_def tr_require_status_def ordered_None)

lemma resolve_Inr:
  assumes "resolveToolExecutionReceipt r x = Inr t"
  shows "tr_status r \<in> {Prepared, Dispatched, UnknownOutcome}" "is_timestamp (resolution_at x)"
    "\<not> date_less (iso_time (resolution_at x)) (iso_time (tr_updatedAt r))"
    "tr_status r = Prepared \<Longrightarrow> resolution_result x = None"
    "validateToolExecutionReceipt t = None" "t = resolved_receipt r x"
  using assms by (auto simp: resolveToolExecutionReceipt_def tr_require_status_def ordered_None when_some_None_iff)

lemma receipt_keeps:
  assumes "receipt_ok r" and "receipt_step r a = Inr t"
  shows "receipt_ok t"
proof (cases a)
  case (DispatchAt at)
  with assms(2) have "dispatchToolExecutionReceipt r at = Inr t" by simp
  note d = dispatch_Inr [OF this]
  have v: "validateToolExecutionReceipt r = None" using assms(1) by (simp add: receipt_ok_def)
  have req: "receipt_request t = receipt_request r" by (simp add: d(4) receipt_request_def receipt_input.defs)
  have p: "\<not> date_less (iso_time at) (iso_time (tr_preparedAt r))"
    using v d(3) date_order_trans [of "tr_updatedAt r"] by (auto simp: receipt_valid_iff validateStateShape_def Let_def)
  have "validateStateShape t = None"
    using v d(1,2) p by (auto simp: receipt_valid_iff validateStateShape_def Let_def d(4) ordered_None)
  then have "validateToolExecutionReceipt t = None"
    using v d(1,2) assms(1) receipt_input_checks_cong [OF req]
    by (auto simp: receipt_valid_iff d(4) receipt_ok_def receipt_steps_left_def safe_integer_defs)
  then show ?thesis
    using assms(1) d(1) by (simp add: receipt_ok_def receipt_steps_left_def d(4) date_less_def split: option.splits)
next
  case (ObserveUnknown at q)
  with assms(2) have "markToolExecutionUnknownOutcome r at q = Inr t" by simp
  note d = unknown_Inr [OF this]
  have v: "validateToolExecutionReceipt r = None" using assms(1) by (simp add: receipt_ok_def)
  have req: "receipt_request t = receipt_request r" by (simp add: d(5) receipt_request_def receipt_input.defs)
  have p: "\<not> date_less (iso_time at) (iso_time (tr_preparedAt r))"
    using v d(3) date_order_trans [of "tr_updatedAt r"] by (auto simp: receipt_valid_iff validateStateShape_def Let_def)
  have "validateStateShape t = None"
    using v d(1,2) p by (auto simp: receipt_valid_iff validateStateShape_def Let_def d(5) ordered_None when_some_None_iff)
  then have "validateToolExecutionReceipt t = None"
    using v d(1,2,4) assms(1) receipt_input_checks_cong [OF req]
    by (auto simp: receipt_valid_iff d(5) receipt_ok_def receipt_steps_left_def safe_integer_defs)
  moreover have "\<not> date_less (iso_time at) (iso_time x)" if "tr_dispatchedAt r = Some x" for x
    using assms(1) v d(3) that date_order_trans [of "tr_updatedAt r" x at] by (simp add: receipt_ok_def receipt_valid_iff)
  ultimately show ?thesis
    using assms(1) d(1) by (simp add: receipt_ok_def receipt_steps_left_def d(5))
next
  case (Resolve x)
  with assms(2) have "resolveToolExecutionReceipt r x = Inr t" by simp
  note d = resolve_Inr [OF this]
  have v: "validateToolExecutionReceipt r = None" using assms(1) by (simp add: receipt_ok_def)
  have "\<not> date_less (iso_time (resolution_at x)) (iso_time y)" if "tr_dispatchedAt r = Some y" for y
    using assms(1) v d(3) that date_order_trans [of "tr_updatedAt r" y "resolution_at x"]
    by (simp add: receipt_ok_def receipt_valid_iff)
  moreover have "tr_revision r + 1 \<le> 4"
    using assms(1) d(1) by (auto simp: receipt_ok_def receipt_steps_left_def)
  ultimately show ?thesis
    using d(5) by (simp add: receipt_ok_def d(6) resolved_receipt_def receipt_steps_left_def)
qed

interpretation receipt: settled_object receipt_step receipt_ok tr_revision receipt_request receipt_steps_left
proof
  fix r a t assume step: "receipt_step r a = Inr t"
  show "tr_revision t = tr_revision r + 1 \<and> receipt_request t = receipt_request r"
    using step
    by (cases a) (auto simp: receipt_request_def receipt_input.defs resolved_receipt_def
        dest!: dispatch_Inr(4) unknown_Inr(5) resolve_Inr(6))
  assume "receipt_ok r"
  then show "receipt_ok t" using step by (rule receipt_keeps)
  show "receipt_steps_left t < receipt_steps_left r"
  proof (cases a)
    case (DispatchAt at)
    with step dispatch_Inr(1,4) [of r at t] show ?thesis by (simp add: receipt_steps_left_def)
  next
    case (ObserveUnknown at p)
    with step unknown_Inr(1,5) [of r at p t] show ?thesis by (simp add: receipt_steps_left_def)
  next
    case (Resolve x)
    with step resolve_Inr(1,6) [of r x t] show ?thesis by (auto simp: receipt_steps_left_def resolved_receipt_def)
  qed
qed

lemma prepared_ok:
  assumes "prepareToolExecutionReceipt i = Inr r"
  shows "receipt_ok r" "receipt_request r = i" "tr_revision r = 1" "tr_status r = Prepared" "receipt_steps_left r = 3"
  using assms
  by (auto simp: prepareToolExecutionReceipt_def Let_def receipt_ok_def receipt_request_def receipt_input.defs
      receipt_steps_left_def)

section \<open>Histories\<close>

text \<open>The operations that lead from a prepared receipt to each status.\<close>

fun open_history :: "receipt_status \<Rightarrow> receipt_operation list \<Rightarrow> bool" where
  "open_history Prepared as \<longleftrightarrow> as = []"
| "open_history Dispatched as \<longleftrightarrow> (\<exists>d. as = [DispatchAt d])"
| "open_history UnknownOutcome as \<longleftrightarrow> (\<exists>d u p. as = [DispatchAt d, ObserveUnknown u p])"
| "open_history _ as \<longleftrightarrow> False"

definition receipt_history :: "receipt_status \<Rightarrow> receipt_operation list \<Rightarrow> bool" where
  "receipt_history st as \<longleftrightarrow> open_history st as
     \<or> st = Completed \<and> (\<exists>bs at p v. as = bs @ [Resolve (ResolveCompleted at p v)]
          \<and> (open_history Dispatched bs \<or> open_history UnknownOutcome bs))
     \<or> st = Canceled \<and> (\<exists>bs at p. as = bs @ [Resolve (ResolveCanceled at p)]
          \<and> (open_history Prepared bs \<or> open_history Dispatched bs \<or> open_history UnknownOutcome bs))"

lemma history_step:
  assumes "receipt_history (tr_status r) as" and "receipt_step r a = Inr t"
  shows "receipt_history (tr_status t) (as @ [a])"
proof (cases a)
  case (DispatchAt at)
  with assms(2) dispatch_Inr(1,4) [of r at t] assms(1) show ?thesis by (simp add: receipt_history_def)
next
  case (ObserveUnknown at p)
  with assms(2) unknown_Inr(1,5) [of r at p t] assms(1) show ?thesis by (auto simp: receipt_history_def)
next
  case (Resolve x)
  with assms(2) have "resolveToolExecutionReceipt r x = Inr t" by simp
  note d = resolve_Inr [OF this]
  have o: "open_history (tr_status r) as" using assms(1) d(1) by (auto simp: receipt_history_def)
  show ?thesis
  proof (cases x)
    case (ResolveCompleted at p v)
    then have "tr_status r \<noteq> Prepared" using d(4) by (auto simp: resolution_result_def)
    with d(1) o Resolve ResolveCompleted show ?thesis
      by (auto simp: receipt_history_def d(6) resolved_receipt_def resolution_result_def)
  next
    case (ResolveCanceled at p)
    with d(1) o Resolve show ?thesis
      by (auto simp: receipt_history_def d(6) resolved_receipt_def resolution_result_def)
  qed
qed

lemma history_of_replay:
  assumes "prepareToolExecutionReceipt i = Inr r"
  shows "apply_all receipt_step r as = Inr t \<Longrightarrow> receipt_history (tr_status t) as"
proof (induction as arbitrary: t rule: rev_induct)
  case Nil
  then show ?case using prepared_ok(4) [OF assms] by (simp add: receipt_history_def)
next
  case (snoc a as)
  then obtain u where "apply_all receipt_step r as = Inr u" "receipt_step u a = Inr t"
    by (auto simp: apply_all_append)
  with snoc.IH history_step show ?case by blast
qed

section \<open>Properties\<close>

text \<open>
  C32: a tool is dispatched at most once and settled at most once: from its preparation a receipt
  has only the histories listed by \<open>receipt_history\<close>, at most three operations, and it stays
  valid with its revision counting them.
\<close>

theorem receipt_lifecycle:
  assumes "prepareToolExecutionReceipt i = Inr r" and "apply_all receipt_step r as = Inr t"
  shows "receipt_history (tr_status t) as \<and> length as \<le> 3 \<and> tr_revision t = 1 + int (length as)
    \<and> validateToolExecutionReceipt t = None \<and> receipt_request t = i"
proof -
  note p = prepared_ok [OF assms(1)]
  have "receipt_ok t" using p(1) assms(2) by (rule receipt.apply_keeps)
  then show ?thesis
    using receipt.apply_bounded [OF p(1) assms(2)] receipt.apply_advances [OF assms(2)] history_of_replay [OF assms] p
    by (simp add: receipt_ok_def)
qed

text \<open>
  A receipt that says a tool completed has a validated result and was dispatched first: it
  was prepared, then dispatched, then resolved, in the order of its timestamps, and a mutating
  tool is one that can be reconciled.
\<close>

theorem receipt_completed_after_dispatch:
  assumes "prepareToolExecutionReceipt i = Inr r" and "apply_all receipt_step r as = Inr t"
    and "tr_status t = Completed"
  shows "\<exists>d e v rest. as = DispatchAt d # rest \<and> tr_resolvedAt t = Some e \<and> tr_result t = Some v
    \<and> validateResult v = None \<and> \<not> date_less (iso_time d) (iso_time (tr_preparedAt i))
    \<and> \<not> date_less (iso_time e) (iso_time d) \<and> (tr_effect i = Mutation \<longrightarrow> tr_recovery i = Reconcilable)"
proof -
  note p = prepared_ok [OF assms(1)]
  have ok: "validateToolExecutionReceipt t = None"
    using receipt.apply_keeps [OF p(1) assms(2)] by (simp add: receipt_ok_def)
  have "receipt_request t = i" using receipt.apply_advances [OF assms(2)] p(2) by simp
  then have i: "tr_preparedAt t = tr_preparedAt i" "tr_effect t = tr_effect i" "tr_recovery t = tr_recovery i"
    by (auto simp: receipt_request_def receipt_input.defs)
  obtain d rest where as: "as = DispatchAt d # rest"
    using history_of_replay [OF assms(1,2)] assms(3) by (auto simp: receipt_history_def)
  then obtain u where u: "dispatchToolExecutionReceipt r d = Inr u" and rest: "apply_all receipt_step u rest = Inr t"
    using assms(2) by auto
  have kept: "tr_dispatchedAt w' = tr_dispatchedAt w" if "receipt_step w a = Inr w'" "tr_status w \<noteq> Prepared" for w a w'
    using that by (cases a) (auto simp: resolved_receipt_def dest: dispatch_Inr(1) dest!: unknown_Inr(5) resolve_Inr(6))
  have left: "tr_status w' \<noteq> Prepared" if "receipt_step w a = Inr w'" for w a w'
    using that by (cases a) (auto simp: resolved_receipt_def split: if_splits
        dest!: dispatch_Inr(4) unknown_Inr(5) resolve_Inr(6))
  have "apply_all receipt_step w bs = Inr w' \<Longrightarrow> tr_status w \<noteq> Prepared \<Longrightarrow> tr_dispatchedAt w' = tr_dispatchedAt w" for w bs w'
  proof (induction bs arbitrary: w)
    case (Cons a bs)
    then obtain x where x: "receipt_step w a = Inr x" "apply_all receipt_step x bs = Inr w'" by auto
    from Cons.IH [OF x(2) left [OF x(1)]] kept [OF x(1) Cons.prems(2)] show ?case by simp
  qed simp
  with rest dispatch_Inr(4) [OF u] have dt: "tr_dispatchedAt t = Some d" by auto
  have mut: "tr_effect t = Mutation \<longrightarrow> tr_recovery t = Reconcilable"
    using ok unfolding receipt_valid_iff receipt_input_checks_def
    by (simp add: first_throw_append split: option.splits)
  from ok assms(3) obtain e v where "tr_resolvedAt t = Some e" "tr_result t = Some v" "validateResult v = None"
    "\<not> date_less (iso_time d) (iso_time (tr_preparedAt t))" "\<not> date_less (iso_time e) (iso_time d)"
    by (auto simp: receipt_valid_iff validateStateShape_def Let_def dt ordered_None when_some_None_iff)
  with as mut i show ?thesis by auto
qed

text \<open>
  An unresolved receipt can always be canceled, whatever its status, at any timestamp not
  before its last update: the validation of the canceled receipt never refuses it.
\<close>

theorem receipt_cancelable:
  assumes "prepareToolExecutionReceipt i = Inr r" and "apply_all receipt_step r as = Inr t"
    and "tr_status t \<notin> {Completed, Canceled}" and "is_timestamp at"
    and "\<not> date_less (iso_time at) (iso_time (tr_updatedAt t))"
  shows "\<exists>t'. apply_all receipt_step r (as @ [Resolve (ResolveCanceled at None)]) = Inr t' \<and> tr_status t' = Canceled"
proof -
  have ok: "receipt_ok t" using prepared_ok(1) [OF assms(1)] assms(2) by (rule receipt.apply_keeps)
  then have v: "validateToolExecutionReceipt t = None" by (simp add: receipt_ok_def)
  have st: "tr_status t \<in> {Prepared, Dispatched, UnknownOutcome}"
    using assms(3) v by (cases "tr_status t") (auto simp: receipt_valid_iff)
  define x where "x = ResolveCanceled at None"
  have x: "resolution_at x = at" "resolution_provider x = None" "resolution_result x = None"
    by (simp_all add: x_def resolution_at_def resolution_provider_def resolution_result_def)
  have req: "receipt_request (resolved_receipt t x) = receipt_request t"
    by (simp add: receipt_request_def receipt_input.defs resolved_receipt_def)
  have disp: "\<not> date_less (iso_time at) (iso_time d)" if "tr_dispatchedAt t = Some d" for d
    using ok v assms(5) that date_order_trans [of "tr_updatedAt t" d at] by (simp add: receipt_ok_def receipt_valid_iff)
  have prep: "\<not> date_less (iso_time at) (iso_time (tr_preparedAt t))"
    using v assms(5) date_order_trans [of "tr_updatedAt t"] by (auto simp: receipt_valid_iff validateStateShape_def Let_def)
  have "\<not> date_less (iso_time at) (iso_time (nullish (tr_dispatchedAt t) (tr_preparedAt t)))"
    using disp prep by (cases "tr_dispatchedAt t") simp_all
  then have "validateStateShape (resolved_receipt t x) = None"
    using v st assms(4) prep
    by (auto simp: receipt_valid_iff validateStateShape_def Let_def resolved_receipt_def x ordered_None when_some_None_iff)
  then have "validateToolExecutionReceipt (resolved_receipt t x) = None"
    using v st ok assms(4) receipt_input_checks_cong [OF req]
    by (auto simp: receipt_valid_iff resolved_receipt_def x requireNullableBoundedNonEmpty_def
        receipt_ok_def receipt_steps_left_def safe_integer_defs)
  then have "resolveToolExecutionReceipt t x = Inr (resolved_receipt t x)"
    using v st assms(4,5) by (simp add: resolveToolExecutionReceipt_def x tr_require_status_def ordered_None
        requireNullableBoundedNonEmpty_def guarded_pass)
  then show ?thesis
    by (simp add: apply_all_append assms(2) x_def [symmetric] resolved_receipt_def x)
qed

section \<open>A concrete receipt\<close>

definition receipt_time :: js_string where
  "receipt_time = js ''2026-01-01T00:00:00Z''"

lemma receipt_time_value [simp]: "iso_time receipt_time = Some 1767225600000"
  by code_simp

definition sample_call :: tool_call where
  "sample_call = \<lparr>cl_segmentId = js ''s'', cl_callId = js ''c'', cl_kind = FunctionTool, cl_name = js ''ls'',
     cl_inputDigest = sample_digest\<rparr>"

definition sample_receipt_input :: receipt_input where
  "sample_receipt_input = \<lparr>tr_receiptId = js ''r'', tr_tenantId = js ''t'', tr_runId = js ''run'',
     tr_stepId = js ''st'', tr_attemptId = js ''a'', tr_workItemId = js ''w'', tr_executionId = js ''e'',
     tr_idempotencyKey = js ''k'', tr_actionDigest = sample_digest, tr_actionIntent = None, tr_call = sample_call,
     tr_effect = Mutation, tr_recovery = Reconcilable, tr_preparedAt = receipt_time\<rparr>"

definition sample_result :: tool_result where
  "sample_result = \<lparr>re_output = Some (JStr (js ''ok'')), re_outputDigest = sample_digest,
     re_isError = Some (JBool False), re_artifactRef = None, re_workspaceChanges = None\<rparr>"

definition sample_receipt :: receipt_state where
  "sample_receipt = receipt_input.extend sample_receipt_input \<lparr>tr_schemaVersion = js ''crewon.tool-execution-receipt.v0'',
     tr_status = Prepared, tr_revision = 1, tr_providerReceiptId = None, tr_result = None,
     tr_dispatchedAt = None, tr_updatedAt = receipt_time, tr_resolvedAt = None\<rparr>"

definition sample_dispatched :: receipt_state where
  "sample_dispatched = sample_receipt\<lparr>tr_status := Dispatched, tr_revision := 2, tr_dispatchedAt := Some receipt_time\<rparr>"

definition sample_completion :: receipt_resolution where
  "sample_completion = ResolveCompleted receipt_time (js ''p'') sample_result"

lemma sample_checks: "first_throw (receipt_input_checks (receipt_input.extend sample_receipt_input x)) = None"
  by (simp add: receipt_input_checks_def sample_receipt_input_def sample_call_def receipt_input.defs
      requireBoundedNonEmpty_def tr_require_digest_def matches_tool_name_def is_id_tail_def is_alnum_def is_lower_def
      string_eval)

lemma sample_receipt_prepared: "prepareToolExecutionReceipt sample_receipt_input = Inr sample_receipt"
proof -
  have "validateToolExecutionReceipt sample_receipt = None"
    unfolding receipt_valid_iff using sample_checks
    by (simp add: sample_receipt_def)
      (simp add: sample_receipt_input_def receipt_input.defs is_timestamp_iff safe_integer_defs
        requireNullableBoundedNonEmpty_def validateStateShape_def)
  then show ?thesis
    by (simp add: prepareToolExecutionReceipt_def Let_def sample_receipt_def sample_receipt_input_def)
qed

lemma sample_receipt_dispatched: "receipt_step sample_receipt (DispatchAt receipt_time) = Inr sample_dispatched"
  using sample_receipt_prepared prepared_ok(1) [OF sample_receipt_prepared]
  by (simp add: dispatchToolExecutionReceipt_def receipt_ok_def guarded_pass tr_require_status_def ordered_None
      is_timestamp_iff)
    (simp add: sample_receipt_def sample_dispatched_def receipt_input.defs)

lemma sample_result_valid: "validateResult sample_result = None"
  by (simp add: validateResult_def sample_result_def is_boolean_def tr_require_digest_def
      requireNullableBoundedNonEmpty_def string_eval)

lemma sample_receipt_completed:
  "apply_all receipt_step sample_receipt [DispatchAt receipt_time, Resolve sample_completion]
    = Inr (resolved_receipt sample_dispatched sample_completion)"
proof -
  have ok: "receipt_ok sample_dispatched"
    using receipt_keeps [OF prepared_ok(1) [OF sample_receipt_prepared] sample_receipt_dispatched] .
  have req: "receipt_request (resolved_receipt sample_dispatched sample_completion) = receipt_request sample_dispatched"
    by (simp add: receipt_request_def receipt_input.defs resolved_receipt_def)
  have x: "resolution_at sample_completion = receipt_time" "resolution_provider sample_completion = Some (js ''p'')"
    "resolution_result sample_completion = Some sample_result"
    by (simp_all add: sample_completion_def resolution_at_def resolution_provider_def resolution_result_def)
  have f: "tr_status sample_dispatched = Dispatched" "tr_updatedAt sample_dispatched = receipt_time"
    "tr_preparedAt sample_dispatched = receipt_time" "tr_dispatchedAt sample_dispatched = Some receipt_time"
    "tr_revision sample_dispatched = 2"
    by (simp_all add: sample_dispatched_def sample_receipt_def sample_receipt_input_def receipt_input.defs)
  have p: "requireBoundedNonEmpty (js ''p'') 512 c = None" for c
    by (simp add: requireBoundedNonEmpty_def string_eval)
  have v: "validateToolExecutionReceipt (resolved_receipt sample_dispatched sample_completion) = None"
    using ok receipt_input_checks_cong [OF req]
    by (simp add: receipt_ok_def receipt_valid_iff resolved_receipt_def x f p is_timestamp_iff safe_integer_defs
        requireNullableBoundedNonEmpty_def validateStateShape_def ordered_None sample_result_valid)
  then have "resolveToolExecutionReceipt sample_dispatched sample_completion
      = Inr (resolved_receipt sample_dispatched sample_completion)"
    using ok by (simp add: resolveToolExecutionReceipt_def receipt_ok_def guarded_pass tr_require_status_def x f p
        ordered_None is_timestamp_iff requireNullableBoundedNonEmpty_def sample_result_valid)
  then show ?thesis using sample_receipt_dispatched by simp
qed

theorem receipt_lifecycle_witness:
  "\<exists>t. apply_all receipt_step sample_receipt [DispatchAt receipt_time, Resolve sample_completion] = Inr t
    \<and> validateToolExecutionReceipt t = None \<and> tr_revision t = 3"
  using receipt_lifecycle [OF sample_receipt_prepared sample_receipt_completed] sample_receipt_completed
  by (intro exI [of _ "resolved_receipt sample_dispatched sample_completion"]) simp

theorem receipt_completed_after_dispatch_witness:
  "\<exists>t d. apply_all receipt_step sample_receipt [DispatchAt receipt_time, Resolve sample_completion] = Inr t
    \<and> tr_resolvedAt t = Some d \<and> \<not> date_less (iso_time d) (iso_time receipt_time)"
proof -
  have "tr_status (resolved_receipt sample_dispatched sample_completion) = Completed"
    by (simp add: resolved_receipt_def sample_completion_def resolution_result_def)
  from receipt_completed_after_dispatch [OF sample_receipt_prepared sample_receipt_completed this]
  show ?thesis using sample_receipt_completed by auto
qed

theorem receipt_cancelable_witness:
  "\<exists>t. apply_all receipt_step sample_receipt [DispatchAt receipt_time, Resolve (ResolveCanceled receipt_time None)] = Inr t
    \<and> tr_status t = Canceled"
proof -
  have d: "apply_all receipt_step sample_receipt [DispatchAt receipt_time] = Inr sample_dispatched"
    using sample_receipt_dispatched by simp
  have "tr_status sample_dispatched \<notin> {Completed, Canceled}" "is_timestamp receipt_time"
    "\<not> date_less (iso_time receipt_time) (iso_time (tr_updatedAt sample_dispatched))"
    by (simp_all add: sample_dispatched_def sample_receipt_def is_timestamp_iff receipt_input.defs)
  from receipt_cancelable [OF sample_receipt_prepared d this] show ?thesis by simp
qed

end
