(* ===== verification/Execution_Lifecycle.thy ===== *)
theory Execution_Lifecycle
  imports Run_Types Versioned_Steps
begin

text \<open>
  \<open>execution-lifecycle.ts\<close>: a step of a Run and its attempts, the start of an attempt (the first
  one, a retry, or a takeover that abandons a running attempt) and its end.  Field prefixes:
  \<open>se\<close> for a \<open>RunStepState\<close>, \<open>at\<close> for a \<open>RunAttemptState\<close>, \<open>si\<close> for the input of a start.
  Timestamps are tested by \<open>loose_timestamp\<close>, with \<open>Date.parse\<close> on other forms as \<open>legacy\<close>.
\<close>

section \<open>Data\<close>

datatype step_kind =
    ModelStep | ToolStep | AgentStep | WorkflowNodeStep | GateStep | VerificationStep | OtherStepKind js_string

datatype step_status =
    StepPending | StepReady | StepRunning | StepWaitingApproval | StepCompleted | StepFailed | StepSkipped
  | StepCanceled

datatype attempt_status =
    AttemptRunning | AttemptCompleted | AttemptFailed | AttemptCanceled | AttemptAbandoned

record step_state =
  se_schemaVersion :: js_string
  se_stepId :: js_string
  se_tenantId :: js_string
  se_runId :: js_string
  se_kind :: step_kind
  se_status :: step_status
  se_revision :: int
  se_currentAttemptId :: "js_string option"
  se_attemptCount :: int
  se_createdAt :: js_string
  se_updatedAt :: js_string
  se_terminalAt :: "js_string option"

record attempt_state =
  at_schemaVersion :: js_string
  at_attemptId :: js_string
  at_tenantId :: js_string
  at_runId :: js_string
  at_stepId :: js_string
  at_workItemId :: js_string
  at_attemptNumber :: int
  at_retryOfAttemptId :: "js_string option"
  at_leaseEpoch :: int
  at_status :: attempt_status
  at_checkpointDigest :: "js_string option"
  at_providerCheckpoint :: "json option"
  at_providerTurnState :: "js_string option"
  at_failure :: "run_failure option"
  at_startedAt :: js_string
  at_updatedAt :: js_string
  at_terminalAt :: "js_string option"

record start_input =
  si_tenantId :: js_string
  si_runId :: js_string
  si_stepId :: js_string
  si_kind :: step_kind
  si_attemptId :: js_string
  si_workItemId :: js_string
  si_leaseEpoch :: int
  si_startedAt :: js_string

section \<open>Starting an attempt\<close>

definition ex_throw_if :: "bool \<Rightarrow> string \<Rightarrow> check" where
  "ex_throw_if b code = throw_if b (ExecutionLifecycleError code)"

lemma ex_throw_if_None [simp]: "ex_throw_if b code = None \<longleftrightarrow> \<not> b"
  by (simp add: ex_throw_if_def)

definition ex_require_non_empty :: "js_string \<Rightarrow> string \<Rightarrow> check" where
  "ex_require_non_empty s code = ex_throw_if (is_blank s) code"

definition ex_require_timestamp :: "(js_string \<Rightarrow> int option) \<Rightarrow> js_string \<Rightarrow> string \<Rightarrow> check" where
  "ex_require_timestamp legacy s code = ex_throw_if (\<not> loose_timestamp legacy s) code"

definition validateStartInput :: "(js_string \<Rightarrow> int option) \<Rightarrow> start_input \<Rightarrow> check" where
  "validateStartInput legacy i = first_throw
     (map (\<lambda>v. ex_require_non_empty v ''attempt_identity_invalid'')
        [si_tenantId i, si_runId i, si_stepId i, si_attemptId i, si_workItemId i]
      @ [ex_throw_if (case si_kind i of OtherStepKind _ \<Rightarrow> True | _ \<Rightarrow> False) ''step_kind_invalid'',
         ex_throw_if (\<not> is_safe_integer (si_leaseEpoch i) \<or> si_leaseEpoch i < 1) ''attempt_lease_epoch_invalid'',
         ex_require_timestamp legacy (si_startedAt i) ''attempt_started_at_invalid''])"

text \<open>\<open>attempt?.attemptId\<close> is \<open>undefined\<close> without an attempt, which differs from any stored value.\<close>

definition validateCurrent :: "step_state \<Rightarrow> attempt_state option \<Rightarrow> start_input \<Rightarrow> check" where
  "validateCurrent s attempt i = (case attempt of
     None \<Rightarrow> Some (ExecutionLifecycleError ''step_attempt_identity_mismatch'')
   | Some a \<Rightarrow> first_throw
      [ex_throw_if (se_tenantId s \<noteq> si_tenantId i \<or> se_runId s \<noteq> si_runId i \<or> se_stepId s \<noteq> si_stepId i
          \<or> se_kind s \<noteq> si_kind i \<or> se_currentAttemptId s \<noteq> Some (at_attemptId a)
          \<or> se_attemptCount s \<noteq> at_attemptNumber a) ''step_attempt_identity_mismatch'',
       ex_throw_if (se_status s \<noteq> StepRunning \<and> se_status s \<noteq> StepReady) ''step_terminal'',
       ex_throw_if (at_status a \<noteq> AttemptRunning \<and> at_status a \<noteq> AttemptFailed
          \<or> si_leaseEpoch i \<le> at_leaseEpoch a) ''attempt_epoch_not_advanced''])"

definition started_step :: "step_state option \<Rightarrow> start_input \<Rightarrow> step_state" where
  "started_step step i = \<lparr>se_schemaVersion = js ''crewon.run-step.v0'', se_stepId = si_stepId i,
     se_tenantId = si_tenantId i, se_runId = si_runId i, se_kind = si_kind i, se_status = StepRunning,
     se_revision = nullish (map_option se_revision step) 0 + 1, se_currentAttemptId = Some (si_attemptId i),
     se_attemptCount = nullish (map_option se_attemptCount step) 0 + 1,
     se_createdAt = nullish (map_option se_createdAt step) (si_startedAt i),
     se_updatedAt = si_startedAt i, se_terminalAt = None\<rparr>"

definition started_attempt :: "step_state option \<Rightarrow> attempt_state option \<Rightarrow> start_input \<Rightarrow> attempt_state" where
  "started_attempt step attempt i = \<lparr>at_schemaVersion = js ''crewon.run-attempt.v0'', at_attemptId = si_attemptId i,
     at_tenantId = si_tenantId i, at_runId = si_runId i, at_stepId = si_stepId i, at_workItemId = si_workItemId i,
     at_attemptNumber = nullish (map_option se_attemptCount step) 0 + 1,
     at_retryOfAttemptId = map_option at_attemptId attempt, at_leaseEpoch = si_leaseEpoch i,
     at_status = AttemptRunning, at_checkpointDigest = None, at_providerCheckpoint = None,
     at_providerTurnState = None, at_failure = None, at_startedAt = si_startedAt i, at_updatedAt = si_startedAt i,
     at_terminalAt = None\<rparr>"

definition abandoned_attempt :: "attempt_state option \<Rightarrow> start_input \<Rightarrow> attempt_state option" where
  "abandoned_attempt attempt i = (case attempt of None \<Rightarrow> None | Some a \<Rightarrow>
     if at_status a = AttemptRunning
     then Some (a\<lparr>at_status := AttemptAbandoned, at_updatedAt := si_startedAt i, at_terminalAt := Some (si_startedAt i)\<rparr>)
     else None)"

definition startRunAttempt ::
    "(js_string \<Rightarrow> int option) \<Rightarrow> step_state option \<Rightarrow> attempt_state option \<Rightarrow> start_input
      \<Rightarrow> (step_state \<times> attempt_state \<times> attempt_state option) res" where
  "startRunAttempt legacy currentStep currentAttempt i = guarded
     [validateStartInput legacy i,
      (case currentStep of
         Some s \<Rightarrow> validateCurrent s currentAttempt i
       | None \<Rightarrow> ex_throw_if (currentAttempt \<noteq> None) ''attempt_without_step'')]
     (Inr (started_step currentStep i, started_attempt currentStep currentAttempt i,
        abandoned_attempt currentAttempt i))"

section \<open>Finishing an attempt\<close>

datatype finish_outcome = FinishCompleted | FinishCanceled | FinishFailed run_failure

record finish_input =
  fi_outcome :: finish_outcome
  fi_finishedAt :: js_string
  fi_checkpointDigest :: "js_string option"

definition finish_step_status :: "finish_outcome \<Rightarrow> step_status" where
  "finish_step_status oc = (case oc of FinishCompleted \<Rightarrow> StepCompleted | FinishCanceled \<Rightarrow> StepCanceled
     | FinishFailed f \<Rightarrow> if rf_retryable f then StepReady else StepFailed)"

definition finish_attempt_status :: "finish_outcome \<Rightarrow> attempt_status" where
  "finish_attempt_status oc = (case oc of FinishCompleted \<Rightarrow> AttemptCompleted | FinishCanceled \<Rightarrow> AttemptCanceled
     | FinishFailed _ \<Rightarrow> AttemptFailed)"

definition finish_failure :: "finish_outcome \<Rightarrow> run_failure option" where
  "finish_failure oc = (case oc of FinishFailed f \<Rightarrow> Some f | _ \<Rightarrow> None)"

definition finish_checks :: "(js_string \<Rightarrow> int option) \<Rightarrow> step_state \<Rightarrow> attempt_state \<Rightarrow> finish_input \<Rightarrow> check list" where
  "finish_checks legacy s a i =
     [rethrow (\<lambda>_. ExecutionLifecycleError ''attempt_provider_turn_state_invalid'')
        (validateProviderTurnState (at_providerTurnState a)),
      ex_throw_if (se_status s \<noteq> StepRunning \<or> at_status a \<noteq> AttemptRunning
         \<or> se_currentAttemptId s \<noteq> Some (at_attemptId a) \<or> se_stepId s \<noteq> at_stepId a
         \<or> se_runId s \<noteq> at_runId a \<or> se_tenantId s \<noteq> at_tenantId a) ''attempt_not_current'',
      ex_require_timestamp legacy (fi_finishedAt i) ''attempt_finished_at_invalid'',
      when_some (fi_checkpointDigest i) (\<lambda>d. ex_throw_if (\<not> matches_digest d) ''attempt_checkpoint_digest_invalid''),
      when_some (finish_failure (fi_outcome i)) (\<lambda>f. ex_require_non_empty (rf_code f) ''attempt_failure_invalid'')]"

definition finishRunAttempt ::
    "(js_string \<Rightarrow> int option) \<Rightarrow> step_state \<Rightarrow> attempt_state \<Rightarrow> finish_input \<Rightarrow> (step_state \<times> attempt_state) res" where
  "finishRunAttempt legacy s a i = guarded (finish_checks legacy s a i)
     (Inr (s\<lparr>se_status := finish_step_status (fi_outcome i), se_revision := se_revision s + 1,
             se_updatedAt := fi_finishedAt i,
             se_terminalAt := (if finish_step_status (fi_outcome i) = StepReady then None else Some (fi_finishedAt i))\<rparr>,
           a\<lparr>at_status := finish_attempt_status (fi_outcome i), at_checkpointDigest := fi_checkpointDigest i,
             at_failure := finish_failure (fi_outcome i), at_updatedAt := fi_finishedAt i,
             at_terminalAt := Some (fi_finishedAt i)\<rparr>))"

section \<open>The contract\<close>

datatype attempt_operation = Start start_input | Finish finish_input

text \<open>One operation on a step and its current attempt.\<close>

fun attempt_step :: "(js_string \<Rightarrow> int option) \<Rightarrow> step_state \<times> attempt_state \<Rightarrow> attempt_operation
    \<Rightarrow> (step_state \<times> attempt_state) res" where
  "attempt_step legacy (s, a) (Start i) =
     then_do (startRunAttempt legacy (Some s) (Some a) i) (\<lambda>(s', a', _). Inr (s', a'))"
| "attempt_step legacy (s, a) (Finish i) = finishRunAttempt legacy s a i"

text \<open>The status of a step is decided by its current attempt.\<close>

definition status_from_attempt :: "attempt_state \<Rightarrow> step_status" where
  "status_from_attempt a = (case at_status a of AttemptRunning \<Rightarrow> StepRunning | AttemptCompleted \<Rightarrow> StepCompleted
     | AttemptCanceled \<Rightarrow> StepCanceled | AttemptAbandoned \<Rightarrow> StepRunning
     | AttemptFailed \<Rightarrow> (case at_failure a of Some f \<Rightarrow> if rf_retryable f then StepReady else StepFailed
         | None \<Rightarrow> StepFailed))"

definition attempt_ok :: "step_state \<times> attempt_state \<Rightarrow> bool" where
  "attempt_ok p = (case p of (s, a) \<Rightarrow> se_stepId s = at_stepId a \<and> se_runId s = at_runId a
     \<and> se_tenantId s = at_tenantId a \<and> se_currentAttemptId s = Some (at_attemptId a)
     \<and> se_attemptCount s = at_attemptNumber a \<and> at_status a \<noteq> AttemptAbandoned
     \<and> se_status s = status_from_attempt a
     \<and> (at_failure a \<noteq> None \<longleftrightarrow> at_status a = AttemptFailed)
     \<and> (at_terminalAt a = None \<longleftrightarrow> at_status a = AttemptRunning)
     \<and> (se_terminalAt s = None \<longleftrightarrow> se_status s \<in> {StepRunning, StepReady}))"

definition step_identity where
  "step_identity p = (case p of (s :: step_state, a :: attempt_state) \<Rightarrow>
     (se_stepId s, se_tenantId s, se_runId s, se_kind s, se_createdAt s))"

lemma started_ok:
  assumes "startRunAttempt legacy cs ca i = Inr (s, a, b)"
  shows "attempt_ok (s, a)" "s = started_step cs i" "a = started_attempt cs ca i" "b = abandoned_attempt ca i"
  using assms
  by (auto simp: startRunAttempt_def attempt_ok_def started_step_def started_attempt_def status_from_attempt_def)

lemma start_current:
  assumes "startRunAttempt legacy (Some s) (Some a) i = Inr r"
  shows "se_stepId s = si_stepId i" "se_tenantId s = si_tenantId i" "se_runId s = si_runId i" "se_kind s = si_kind i"
    "se_status s = StepRunning \<or> se_status s = StepReady" "at_leaseEpoch a < si_leaseEpoch i"
    "at_status a = AttemptRunning \<or> at_status a = AttemptFailed"
  using assms by (auto simp: startRunAttempt_def validateCurrent_def)

lemma attempt_finish_Inr:
  assumes "finishRunAttempt legacy s a i = Inr (s', a')"
  shows "se_status s = StepRunning" "at_status a = AttemptRunning"
    "s' = s\<lparr>se_status := finish_step_status (fi_outcome i), se_revision := se_revision s + 1,
       se_updatedAt := fi_finishedAt i,
       se_terminalAt := (if finish_step_status (fi_outcome i) = StepReady then None else Some (fi_finishedAt i))\<rparr>"
    "a' = a\<lparr>at_status := finish_attempt_status (fi_outcome i), at_checkpointDigest := fi_checkpointDigest i,
       at_failure := finish_failure (fi_outcome i), at_updatedAt := fi_finishedAt i,
       at_terminalAt := Some (fi_finishedAt i)\<rparr>"
  using assms by (auto simp: finishRunAttempt_def finish_checks_def)

lemma finish_ok:
  assumes "finishRunAttempt legacy s a i = Inr (s', a')" and "attempt_ok (s, a)"
  shows "attempt_ok (s', a')"
  using attempt_finish_Inr [OF assms(1)] assms(2)
  by (cases "fi_outcome i") (auto simp: attempt_ok_def finish_step_status_def finish_attempt_status_def
      finish_failure_def status_from_attempt_def)

interpretation attempts: versioned_object "attempt_step legacy" attempt_ok "\<lambda>p. se_revision (fst p)" step_identity for legacy
proof
  fix p q o' assume step: "attempt_step legacy p o' = Inr q"
  obtain s a s' a' where p: "p = (s, a)" "q = (s', a')" by (cases p; cases q) auto
  show "se_revision (fst q) = se_revision (fst p) + 1 \<and> step_identity q = step_identity p"
  proof (cases o')
    case (Start i)
    with step p obtain b where b: "startRunAttempt legacy (Some s) (Some a) i = Inr (s', a', b)" by auto
    show ?thesis
      using started_ok(2) [OF b] start_current [OF b] by (simp add: p step_identity_def started_step_def)
  next
    case (Finish i)
    with step p have "finishRunAttempt legacy s a i = Inr (s', a')" by simp
    from attempt_finish_Inr(3) [OF this] show ?thesis by (simp add: p step_identity_def)
  qed
  show "attempt_ok q" if "attempt_ok p"
  proof (cases o')
    case (Start i)
    with step p obtain b where b: "startRunAttempt legacy (Some s) (Some a) i = Inr (s', a', b)" by auto
    show ?thesis using started_ok(1) [OF b] by (simp add: p)
  next
    case (Finish i)
    with step p have "finishRunAttempt legacy s a i = Inr (s', a')" by simp
    from finish_ok [OF this] that show ?thesis by (simp add: p)
  qed
qed

section \<open>Properties\<close>

text \<open>The starts among some operations.\<close>

fun starts_of :: "attempt_operation list \<Rightarrow> start_input list" where
  "starts_of [] = []"
| "starts_of (Start i # os) = i # starts_of os"
| "starts_of (Finish i # os) = starts_of os"

lemma attempt_step_lease:
  assumes "attempt_step legacy (s, a) x = Inr (s', a')"
  shows "map si_leaseEpoch (starts_of [x]) = [] \<and> at_leaseEpoch a' = at_leaseEpoch a \<and> se_attemptCount s' = se_attemptCount s
    \<or> map si_leaseEpoch (starts_of [x]) = [at_leaseEpoch a'] \<and> at_leaseEpoch a < at_leaseEpoch a'
      \<and> se_attemptCount s' = se_attemptCount s + 1"
proof (cases x)
  case (Start i)
  with assms obtain b where b: "startRunAttempt legacy (Some s) (Some a) i = Inr (s', a', b)" by auto
  from started_ok(2,3) [OF b] start_current(6) [OF b] show ?thesis
    by (simp add: Start started_step_def started_attempt_def)
next
  case (Finish i)
  with assms have "finishRunAttempt legacy s a i = Inr (s', a')" by simp
  from attempt_finish_Inr(3,4) [OF this] show ?thesis by (simp add: Finish)
qed

lemma starts_cons: "starts_of (x # xs) = starts_of [x] @ starts_of xs"
  by (cases x) simp_all

lemma apply_leases:
  "apply_all (attempt_step legacy) (s, a) xs = Inr (s', a') \<Longrightarrow>
    sorted_wrt (<) (at_leaseEpoch a # map si_leaseEpoch (starts_of xs))
    \<and> at_leaseEpoch a' = last (at_leaseEpoch a # map si_leaseEpoch (starts_of xs))
    \<and> se_attemptCount s' = se_attemptCount s + int (length (starts_of xs))"
proof (induction xs arbitrary: s a)
  case (Cons x xs)
  then obtain u b where step: "attempt_step legacy (s, a) x = Inr (u, b)"
    and rest: "apply_all (attempt_step legacy) (u, b) xs = Inr (s', a')" by auto
  note ih = Cons.IH [OF rest]
  from attempt_step_lease [OF step] show ?case
  proof
    assume "map si_leaseEpoch (starts_of [x]) = [] \<and> at_leaseEpoch b = at_leaseEpoch a \<and> se_attemptCount u = se_attemptCount s"
    then show ?thesis using ih by (simp add: starts_cons [of x xs])
  next
    assume h: "map si_leaseEpoch (starts_of [x]) = [at_leaseEpoch b] \<and> at_leaseEpoch a < at_leaseEpoch b
      \<and> se_attemptCount u = se_attemptCount s + 1"
    then have "length (starts_of [x]) = 1" by (metis length_map length_Cons list.size(3) One_nat_def)
    with h ih show ?thesis by (auto simp: starts_cons [of x xs])
  qed
qed simp

text \<open>
  C35: from its first attempt on, whatever starts and finishes are accepted, the step and its
  current attempt agree; the attempts are counted one by one, and every attempt holds a lease
  newer than all attempts before it.
\<close>

theorem attempts_fenced:
  assumes "startRunAttempt legacy None None i = Inr (s0, a0, b)"
    and "apply_all (attempt_step legacy) (s0, a0) xs = Inr (s, a)"
  shows "attempt_ok (s, a) \<and> se_attemptCount s = 1 + int (length (starts_of xs))
    \<and> sorted_wrt (<) (map si_leaseEpoch (i # starts_of xs))
    \<and> at_leaseEpoch a = last (map si_leaseEpoch (i # starts_of xs))
    \<and> se_revision s = 1 + int (length xs)"
proof -
  note st = started_ok [OF assms(1)]
  have e: "at_leaseEpoch a0 = si_leaseEpoch i" "se_attemptCount s0 = 1" "se_revision s0 = 1"
    by (simp_all add: st started_step_def started_attempt_def)
  have "attempt_ok (s, a)" using st(1) assms(2) by (rule attempts.apply_keeps)
  moreover have "se_revision s = 1 + int (length xs)"
    using attempts.apply_advances [OF assms(2)] e(3) by simp
  ultimately show ?thesis using apply_leases [OF assms(2)] e(1,2) by simp
qed

text \<open>
  A start over an existing attempt succeeds only with a newer lease; it abandons that attempt
  exactly when it was still running, and the new attempt names it as the one it retries.
\<close>

theorem takeover_abandons_running:
  assumes "startRunAttempt legacy (Some s) (Some a) i = Inr (s', a', b)"
  shows "at_leaseEpoch a < at_leaseEpoch a' \<and> at_retryOfAttemptId a' = Some (at_attemptId a)
    \<and> at_attemptNumber a' = at_attemptNumber a + 1 \<and> se_createdAt s' = se_createdAt s
    \<and> (b \<noteq> None \<longleftrightarrow> at_status a = AttemptRunning)
    \<and> (\<forall>x. b = Some x \<longrightarrow> at_attemptId x = at_attemptId a \<and> at_status x = AttemptAbandoned
        \<and> at_terminalAt x = Some (si_startedAt i) \<and> at_leaseEpoch x = at_leaseEpoch a)"
proof -
  note st = started_ok [OF assms]
  have "se_attemptCount s = at_attemptNumber a"
    using assms by (simp add: startRunAttempt_def validateCurrent_def)
  then show ?thesis
    using start_current(6) [OF assms]
    by (auto simp: st(2-) started_step_def started_attempt_def abandoned_attempt_def)
qed

text \<open>
  A step that has completed, failed for good or been canceled accepts neither a further
  attempt nor a second finish, and only a step whose attempt failed retryably waits for a retry.
\<close>

theorem settled_step_closed:
  assumes "startRunAttempt legacy None None i = Inr (s0, a0, b)"
    and "apply_all (attempt_step legacy) (s0, a0) xs = Inr (s, a)"
    and "se_status s \<noteq> StepRunning"
  shows "(se_status s = StepReady \<longleftrightarrow> (\<exists>f. at_failure a = Some f \<and> rf_retryable f))
    \<and> (\<forall>y. se_status s \<noteq> StepReady \<or> (\<exists>j. y = Finish j) \<longrightarrow> (\<exists>e. attempt_step legacy (s, a) y = Inl e))"
proof
  have "attempt_ok (s, a)"
    using started_ok(1) [OF assms(1)] assms(2) by (rule attempts.apply_keeps)
  then show "se_status s = StepReady \<longleftrightarrow> (\<exists>f. at_failure a = Some f \<and> rf_retryable f)"
    using assms(3) by (auto simp: attempt_ok_def status_from_attempt_def split: attempt_status.splits option.splits if_splits)
  have start: "se_status s = StepReady" if "attempt_step legacy (s, a) (Start j) = Inr q" for j q
    using that start_current(5) assms(3) by fastforce
  have finish: False if "attempt_step legacy (s, a) (Finish j) = Inr q" for j q
    using that attempt_finish_Inr(1) assms(3) by (cases q) auto
  show "\<forall>y. se_status s \<noteq> StepReady \<or> (\<exists>j. y = Finish j) \<longrightarrow> (\<exists>e. attempt_step legacy (s, a) y = Inl e)"
  proof (intro allI impI)
    fix y assume y: "se_status s \<noteq> StepReady \<or> (\<exists>j. y = Finish j)"
    show "\<exists>e. attempt_step legacy (s, a) y = Inl e"
      using y start finish
      by (cases y; cases "attempt_step legacy (s, a) y") (simp_all, blast+)
  qed
qed

section \<open>A concrete step\<close>

definition attempt_time :: js_string where
  "attempt_time = js ''2026-01-01T00:00:00Z''"

lemma attempt_time_loose [simp]: "loose_timestamp (\<lambda>_. None) attempt_time"
  by code_simp

definition sample_attempt_start :: "int \<Rightarrow> js_string \<Rightarrow> start_input" where
  "sample_attempt_start epoch attempt = \<lparr>si_tenantId = js ''t'', si_runId = js ''r'', si_stepId = js ''s'', si_kind = ToolStep,
     si_attemptId = attempt, si_workItemId = js ''w'', si_leaseEpoch = epoch, si_startedAt = attempt_time\<rparr>"

definition sample_first :: "step_state \<times> attempt_state" where
  "sample_first = (started_step None (sample_attempt_start 1 (js ''a'')), started_attempt None None (sample_attempt_start 1 (js ''a'')))"

definition sample_second :: "step_state \<times> attempt_state" where
  "sample_second = (started_step (Some (fst sample_first)) (sample_attempt_start 2 (js ''b'')),
     started_attempt (Some (fst sample_first)) (Some (snd sample_first)) (sample_attempt_start 2 (js ''b'')))"

definition sample_finish :: finish_input where
  "sample_finish = \<lparr>fi_outcome = FinishCompleted, fi_finishedAt = attempt_time, fi_checkpointDigest = None\<rparr>"

lemmas attempt_eval = startRunAttempt_def validateStartInput_def ex_require_non_empty_def ex_require_timestamp_def
  validateCurrent_def safe_integer_defs guarded_pass

lemma sample_attempt_start_valid: "validateStartInput (\<lambda>_. None) (sample_attempt_start 1 (js ''a'')) = None"
    "validateStartInput (\<lambda>_. None) (sample_attempt_start 2 (js ''b'')) = None"
  by (simp_all add: attempt_eval sample_attempt_start_def string_eval)

lemma sample_first_started: "startRunAttempt (\<lambda>_. None) None None (sample_attempt_start 1 (js ''a''))
    = Inr (fst sample_first, snd sample_first, None)"
  using sample_attempt_start_valid by (simp add: startRunAttempt_def guarded_pass sample_first_def abandoned_attempt_def)

lemma sample_second_started: "startRunAttempt (\<lambda>_. None) (Some (fst sample_first)) (Some (snd sample_first))
    (sample_attempt_start 2 (js ''b'')) = Inr (fst sample_second, snd sample_second,
      abandoned_attempt (Some (snd sample_first)) (sample_attempt_start 2 (js ''b'')))"
  using sample_attempt_start_valid
  by (simp add: startRunAttempt_def guarded_pass sample_second_def)
    (simp add: validateCurrent_def sample_first_def started_step_def started_attempt_def sample_attempt_start_def guarded_pass)

lemma sample_takeover: "apply_all (attempt_step (\<lambda>_. None)) (fst sample_first, snd sample_first)
    [Start (sample_attempt_start 2 (js ''b''))] = Inr (fst sample_second, snd sample_second)"
  unfolding apply_all.simps attempt_step.simps sample_second_started by simp

theorem attempts_fenced_witness:
  "se_attemptCount (fst sample_second) = 2 \<and> at_leaseEpoch (snd sample_second) = 2 \<and> attempt_ok sample_second"
  using attempts_fenced [OF sample_first_started sample_takeover] by (simp add: sample_attempt_start_def)

theorem takeover_abandons_running_witness:
  "\<exists>x. abandoned_attempt (Some (snd sample_first)) (sample_attempt_start 2 (js ''b'')) = Some x
    \<and> at_status x = AttemptAbandoned \<and> at_retryOfAttemptId (snd sample_second) = Some (js ''a'')"
proof -
  have "at_status (snd sample_first) = AttemptRunning" "at_attemptId (snd sample_first) = js ''a''"
    by (simp_all add: sample_first_def started_attempt_def sample_attempt_start_def)
  with takeover_abandons_running [OF sample_second_started] show ?thesis by auto
qed

theorem settled_step_closed_witness:
  "\<exists>s a. apply_all (attempt_step (\<lambda>_. None)) (fst sample_first, snd sample_first) [Finish sample_finish] = Inr (s, a)
    \<and> se_status s = StepCompleted \<and> (\<forall>y. \<exists>e. attempt_step (\<lambda>_. None) (s, a) y = Inl e)"
proof -
  obtain s a where f: "apply_all (attempt_step (\<lambda>_. None)) (fst sample_first, snd sample_first) [Finish sample_finish]
      = Inr (s, a)" and st: "se_status s = StepCompleted"
    by (simp add: finishRunAttempt_def finish_checks_def sample_first_def started_step_def started_attempt_def
        sample_attempt_start_def sample_finish_def validateProviderTurnState_def finish_failure_def ex_require_timestamp_def
        finish_step_status_def guarded_pass)
  from settled_step_closed [OF sample_first_started f] f st show ?thesis by auto
qed

end
