(* ===== verification/Plugin_Credit.thy ===== *)
theory Plugin_Credit
  imports Json_Text Versioned_Steps
begin

text \<open>
  The ledger of plugin credits, \<open>plugin-credit.ts\<close>: an account with available, reserved and spent credits, and
  the reservations that hold credits of it.  An amount is a string of at most 48 digits, which the code computes on as a
  \<open>BigInt\<close>.
\<close>

section \<open>Data\<close>

record credit_scope =
  cs_tenantId :: js_string
  cs_principalId :: js_string
  cs_poolId :: js_string

record credit_account =
  ca_scope :: credit_scope
  ca_revision :: int
  ca_availableCredits :: js_string
  ca_reservedCredits :: js_string
  ca_spentCredits :: js_string
  ca_grantedCredits :: js_string

record reservation_input =
  ri_scope :: credit_scope
  ri_reservationId :: js_string
  ri_idempotencyKey :: js_string
  ri_requestDigest :: js_string
  ri_pluginId :: js_string
  ri_priceRevision :: int
  ri_quotedCredits :: js_string

datatype reservation_state = Reserved | Settled | Released

record credit_reservation =
  rv_input :: reservation_input
  rv_state :: reservation_state
  rv_settledCredits :: "js_string option"

text \<open>The same as the values the validators read.\<close>

definition scope_value :: "credit_scope \<Rightarrow> json" where
  "scope_value s = js_object [(''tenantId'', JStr (cs_tenantId s)), (''principalId'', JStr (cs_principalId s)),
     (''poolId'', JStr (cs_poolId s))]"

definition account_value :: "credit_account \<Rightarrow> json" where
  "account_value a = js_object [(''schemaVersion'', JStr (js ''crewon.plugin-credit-account.v0'')),
     (''scope'', scope_value (ca_scope a)), (''revision'', JNum (Whole (ca_revision a))),
     (''availableCredits'', JStr (ca_availableCredits a)), (''reservedCredits'', JStr (ca_reservedCredits a)),
     (''spentCredits'', JStr (ca_spentCredits a)), (''grantedCredits'', JStr (ca_grantedCredits a))]"

definition input_fields :: "reservation_input \<Rightarrow> (string \<times> json) list" where
  "input_fields i = [(''scope'', scope_value (ri_scope i)), (''reservationId'', JStr (ri_reservationId i)),
     (''idempotencyKey'', JStr (ri_idempotencyKey i)), (''requestDigest'', JStr (ri_requestDigest i)),
     (''pluginId'', JStr (ri_pluginId i)), (''priceRevision'', JNum (Whole (ri_priceRevision i))),
     (''quotedCredits'', JStr (ri_quotedCredits i))]"

definition reservation_state_text :: "reservation_state \<Rightarrow> string" where
  "reservation_state_text s = (case s of Reserved \<Rightarrow> ''reserved'' | Settled \<Rightarrow> ''settled'' | Released \<Rightarrow> ''released'')"

definition reservation_value :: "credit_reservation \<Rightarrow> json" where
  "reservation_value r = js_object (input_fields (rv_input r) @
     [(''schemaVersion'', JStr (js ''crewon.plugin-credit-reservation.v0'')),
      (''state'', JStr (js (reservation_state_text (rv_state r)))),
      (''settledCredits'', (case rv_settledCredits r of None \<Rightarrow> JNull | Some s \<Rightarrow> JStr s))])"

section \<open>Fields\<close>

definition credit_error :: "string \<Rightarrow> 'a res" where
  "credit_error code = Inl (CreditLedgerError code)"

definition credit_throw_if :: "bool \<Rightarrow> string \<Rightarrow> check" where
  "credit_throw_if b code = throw_if b (CreditLedgerError code)"

definition credit_fields :: "json \<Rightarrow> string list \<Rightarrow> check list" where
  "credit_fields v ks =
     [credit_throw_if (\<not> is_plain_object v) ''plugin_credit_object_invalid'',
      credit_throw_if (length (own_keys v) \<noteq> length ks \<or> list_ex (\<lambda>k. k \<notin> js ` set ks) (own_keys v))
        ''plugin_credit_fields_invalid'']"

definition is_credit_text :: "js_string \<Rightarrow> bool" where
  "is_credit_text s \<longleftrightarrow> s = [48] \<or> s \<noteq> [] \<and> length s \<le> 48 \<and> list_all is_digit s \<and> hd s \<noteq> 48"

definition credits :: "json \<Rightarrow> bool \<Rightarrow> js_string res" where
  "credits v positive = (case v of
     JStr s \<Rightarrow> if \<not> is_credit_text s \<or> positive \<and> s = js ''0'' then credit_error ''plugin_credit_amount_invalid'' else Inr s
   | _ \<Rightarrow> credit_error ''plugin_credit_amount_invalid'')"

definition credit_identifier :: "json \<Rightarrow> js_string res" where
  "credit_identifier v = (case v of
     JStr s \<Rightarrow> if s = [] \<or> js_trim s \<noteq> s \<or> 128 < length s \<or> list_ex is_control_or_delete s \<or> \<not> isWellFormedUnicode s
       then credit_error ''plugin_credit_identity_invalid'' else Inr s
   | _ \<Rightarrow> credit_error ''plugin_credit_identity_invalid'')"

definition credit_revision :: "json \<Rightarrow> int res" where
  "credit_revision v = (case safe_integer_value (Some v) of
     Some i \<Rightarrow> if i < 1 \<or> 2147483647 < i then credit_error ''plugin_credit_revision_invalid'' else Inr i
   | None \<Rightarrow> credit_error ''plugin_credit_revision_invalid'')"

text \<open>\<open>/^[a-z][a-z0-9]*(?:[.-][a-z0-9]+)+$/\<close>\<close>

fun plugin_id_tail :: "bool \<Rightarrow> bool \<Rightarrow> js_string \<Rightarrow> bool" where
  "plugin_id_tail afterSeparator seen [] \<longleftrightarrow> seen \<and> \<not> afterSeparator"
| "plugin_id_tail afterSeparator seen (u # s) \<longleftrightarrow>
     (if is_lower u \<or> is_digit u then plugin_id_tail False seen s
      else (u = 46 \<or> u = 45) \<and> \<not> afterSeparator \<and> plugin_id_tail True True s)"

definition is_plugin_id :: "js_string \<Rightarrow> bool" where
  "is_plugin_id s \<longleftrightarrow> length s \<le> 48 \<and> (case s of [] \<Rightarrow> False | u # t \<Rightarrow> is_lower u \<and> plugin_id_tail False False t)"

section \<open>Validation\<close>

definition validateCreditScope :: "json \<Rightarrow> credit_scope res" where
  "validateCreditScope v = guarded (credit_fields v [''tenantId'', ''principalId'', ''poolId''])
     (then_do (credit_identifier (prop_of v ''tenantId'')) (\<lambda>t.
      then_do (credit_identifier (prop_of v ''principalId'')) (\<lambda>p.
      then_do (credit_identifier (prop_of v ''poolId'')) (\<lambda>q.
        Inr \<lparr>cs_tenantId = t, cs_principalId = p, cs_poolId = q\<rparr>))))"

definition amount :: "js_string \<Rightarrow> int" where
  "amount s = int (decimal_nat s)"

definition validateCreditAccount :: "json \<Rightarrow> credit_account res" where
  "validateCreditAccount v = guarded
     (credit_fields v [''schemaVersion'', ''scope'', ''revision'', ''availableCredits'', ''reservedCredits'',
         ''spentCredits'', ''grantedCredits'']
      @ [credit_throw_if (get_prop v ''schemaVersion'' \<noteq> Some (JStr (js ''crewon.plugin-credit-account.v0'')))
           ''plugin_credit_account_schema_unsupported''])
     (then_do (credits (prop_of v ''availableCredits'') False) (\<lambda>available.
      then_do (credits (prop_of v ''reservedCredits'') False) (\<lambda>reserved.
      then_do (credits (prop_of v ''spentCredits'') False) (\<lambda>spent.
      then_do (credits (prop_of v ''grantedCredits'') False) (\<lambda>granted.
        guarded [credit_throw_if (amount available + amount reserved + amount spent \<noteq> amount granted)
                   ''plugin_credit_account_invariant_invalid'']
          (then_do (validateCreditScope (prop_of v ''scope'')) (\<lambda>scope.
           then_do (credit_revision (prop_of v ''revision'')) (\<lambda>revision.
             Inr \<lparr>ca_scope = scope, ca_revision = revision, ca_availableCredits = available,
               ca_reservedCredits = reserved, ca_spentCredits = spent, ca_grantedCredits = granted\<rparr>))))))))"

definition reservation_input_fields :: "string list" where
  "reservation_input_fields = [''scope'', ''reservationId'', ''idempotencyKey'', ''requestDigest'', ''pluginId'',
     ''priceRevision'', ''quotedCredits'']"

definition requestDigest_of :: "json \<Rightarrow> js_string res" where
  "requestDigest_of v = (case v of
     JStr s \<Rightarrow> if matches_digest s then Inr s else credit_error ''plugin_credit_request_digest_invalid''
   | _ \<Rightarrow> credit_error ''plugin_credit_request_digest_invalid'')"

definition reservationFields :: "json \<Rightarrow> reservation_input res" where
  "reservationFields v =
     then_do (requestDigest_of (prop_of v ''requestDigest'')) (\<lambda>digest.
     then_do (credit_identifier (prop_of v ''pluginId'')) (\<lambda>pluginId.
       guarded [credit_throw_if (\<not> is_plugin_id pluginId) ''plugin_credit_plugin_id_invalid'']
         (then_do (validateCreditScope (prop_of v ''scope'')) (\<lambda>scope.
          then_do (credit_identifier (prop_of v ''reservationId'')) (\<lambda>reservationId.
          then_do (credit_identifier (prop_of v ''idempotencyKey'')) (\<lambda>key.
          then_do (credit_revision (prop_of v ''priceRevision'')) (\<lambda>price.
          then_do (credits (prop_of v ''quotedCredits'') True) (\<lambda>quoted.
            Inr \<lparr>ri_scope = scope, ri_reservationId = reservationId, ri_idempotencyKey = key, ri_requestDigest = digest,
              ri_pluginId = pluginId, ri_priceRevision = price, ri_quotedCredits = quoted\<rparr>))))))))"

definition validateCreditReservationInput :: "json \<Rightarrow> reservation_input res" where
  "validateCreditReservationInput v = guarded (credit_fields v reservation_input_fields) (reservationFields v)"

text \<open>The state and the settled credits that are allowed with it.\<close>

definition settlement :: "json \<Rightarrow> reservation_input \<Rightarrow> (reservation_state \<times> js_string option) res" where
  "settlement v i =
     (if get_prop v ''state'' = Some (JStr (js ''reserved'')) then
        (if prop_of v ''settledCredits'' = JNull then Inr (Reserved, None)
         else credit_error ''plugin_credit_reservation_settlement_invalid'')
      else if get_prop v ''state'' = Some (JStr (js ''settled'')) then
        then_do (credits (prop_of v ''settledCredits'') False) (\<lambda>s.
          if amount (ri_quotedCredits i) < amount s then credit_error ''plugin_credit_quote_exceeded''
          else Inr (Settled, Some s))
      else if get_prop v ''state'' = Some (JStr (js ''released'')) then
        (if prop_of v ''settledCredits'' = JStr (js ''0'') then Inr (Released, Some (js ''0''))
         else credit_error ''plugin_credit_reservation_settlement_invalid'')
      else credit_error ''plugin_credit_reservation_state_invalid'')"

definition validateCreditReservation :: "json \<Rightarrow> credit_reservation res" where
  "validateCreditReservation v = guarded
     (credit_fields v (reservation_input_fields @ [''schemaVersion'', ''state'', ''settledCredits''])
      @ [credit_throw_if (get_prop v ''schemaVersion'' \<noteq> Some (JStr (js ''crewon.plugin-credit-reservation.v0'')))
           ''plugin_credit_reservation_schema_unsupported''])
     (then_do (reservationFields v) (\<lambda>fields. then_do (settlement v fields) (\<lambda>(state, settled).
        Inr \<lparr>rv_input = fields, rv_state = state, rv_settledCredits = settled\<rparr>)))"

section \<open>Operations\<close>

definition createCreditAccount :: "credit_scope \<Rightarrow> credit_account res" where
  "createCreditAccount scope = validateCreditAccount (account_value \<lparr>ca_scope = scope, ca_revision = 1,
     ca_availableCredits = js ''0'', ca_reservedCredits = js ''0'', ca_spentCredits = js ''0'', ca_grantedCredits = js ''0''\<rparr>)"

definition nextRevision :: "int \<Rightarrow> int res" where
  "nextRevision current = credit_revision (JNum (Whole (current + 1)))"

definition grantCreditAccount :: "credit_account \<Rightarrow> js_string \<Rightarrow> credit_account res" where
  "grantCreditAccount account positiveCredits =
     then_do (validateCreditAccount (account_value account)) (\<lambda>current.
     then_do (credits (JStr positiveCredits) True) (\<lambda>given.
     then_do (nextRevision (ca_revision current)) (\<lambda>revision.
       validateCreditAccount (account_value (current\<lparr>ca_revision := revision,
         ca_availableCredits := int_text (amount (ca_availableCredits current) + amount given),
         ca_grantedCredits := int_text (amount (ca_grantedCredits current) + amount given)\<rparr>)))))"

definition matchScope :: "credit_scope \<Rightarrow> credit_scope \<Rightarrow> check" where
  "matchScope l r = credit_throw_if (cs_tenantId l \<noteq> cs_tenantId r \<or> cs_principalId l \<noteq> cs_principalId r
     \<or> cs_poolId l \<noteq> cs_poolId r) ''plugin_credit_scope_mismatch''"

definition reserveCreditAccount :: "credit_account \<Rightarrow> reservation_input \<Rightarrow> (credit_account \<times> credit_reservation) res" where
  "reserveCreditAccount account input =
     then_do (validateCreditAccount (account_value account)) (\<lambda>current.
     then_do (validateCreditReservationInput (js_object (input_fields input))) (\<lambda>fields.
     then_do (validateCreditReservation (reservation_value
         \<lparr>rv_input = fields, rv_state = Reserved, rv_settledCredits = None\<rparr>)) (\<lambda>reservation.
       let quoted = amount (ri_quotedCredits (rv_input reservation)) in guarded
         [matchScope (ca_scope current) (ri_scope (rv_input reservation)),
          credit_throw_if (amount (ca_availableCredits current) < quoted) ''plugin_credit_insufficient_balance'']
         (then_do (nextRevision (ca_revision current)) (\<lambda>revision.
          then_do (validateCreditAccount (account_value (current\<lparr>ca_revision := revision,
            ca_availableCredits := int_text (amount (ca_availableCredits current) - quoted),
            ca_reservedCredits := int_text (amount (ca_reservedCredits current) + quoted)\<rparr>))) (\<lambda>next.
            Inr (next, reservation)))))))"

definition reservedAmount :: "credit_account \<Rightarrow> credit_reservation \<Rightarrow> int res" where
  "reservedAmount account reservation = (let quoted = amount (ri_quotedCredits (rv_input reservation)) in guarded
     [credit_throw_if (amount (ca_reservedCredits account) < quoted) ''plugin_credit_reserved_balance_mismatch''] (Inr quoted))"

definition settle_reserved :: "credit_account \<Rightarrow> credit_reservation \<Rightarrow> js_string \<Rightarrow> (credit_account \<times> credit_reservation) res" where
  "settle_reserved current hold actual =
     then_do (reservedAmount current hold) (\<lambda>quoted.
     then_do (nextRevision (ca_revision current)) (\<lambda>revision.
     then_do (validateCreditAccount (account_value (current\<lparr>ca_revision := revision,
         ca_availableCredits := int_text (amount (ca_availableCredits current) + quoted - amount actual),
         ca_reservedCredits := int_text (amount (ca_reservedCredits current) - quoted),
         ca_spentCredits := int_text (amount (ca_spentCredits current) + amount actual)\<rparr>))) (\<lambda>next.
     then_do (validateCreditReservation (reservation_value (hold\<lparr>rv_state := Settled, rv_settledCredits := Some actual\<rparr>))) (\<lambda>settled.
       Inr (next, settled)))))"

definition settleCreditReservation ::
    "credit_account \<Rightarrow> credit_reservation \<Rightarrow> js_string \<Rightarrow> (credit_account \<times> credit_reservation) res" where
  "settleCreditReservation account reservation actualCredits =
     then_do (validateCreditAccount (account_value account)) (\<lambda>current.
     then_do (validateCreditReservation (reservation_value reservation)) (\<lambda>hold.
       guarded [matchScope (ca_scope current) (ri_scope (rv_input hold))]
         (then_do (credits (JStr actualCredits) False) (\<lambda>actual.
           guarded [credit_throw_if (amount (ri_quotedCredits (rv_input hold)) < amount actual) ''plugin_credit_quote_exceeded'']
             (case rv_state hold of
                Settled \<Rightarrow> if rv_settledCredits hold \<noteq> Some actual then credit_error ''plugin_credit_settlement_conflict''
                  else Inr (current, hold)
              | Released \<Rightarrow> credit_error ''plugin_credit_reservation_terminal_conflict''
              | Reserved \<Rightarrow> settle_reserved current hold actual)))))"

definition release_reserved :: "credit_account \<Rightarrow> credit_reservation \<Rightarrow> (credit_account \<times> credit_reservation) res" where
  "release_reserved current hold =
     then_do (reservedAmount current hold) (\<lambda>quoted.
     then_do (nextRevision (ca_revision current)) (\<lambda>revision.
     then_do (validateCreditAccount (account_value (current\<lparr>ca_revision := revision,
         ca_availableCredits := int_text (amount (ca_availableCredits current) + quoted),
         ca_reservedCredits := int_text (amount (ca_reservedCredits current) - quoted)\<rparr>))) (\<lambda>next.
     then_do (validateCreditReservation (reservation_value (hold\<lparr>rv_state := Released, rv_settledCredits := Some (js ''0'')\<rparr>))) (\<lambda>released.
       Inr (next, released)))))"

definition releaseCreditReservation ::
    "credit_account \<Rightarrow> credit_reservation \<Rightarrow> (credit_account \<times> credit_reservation) res" where
  "releaseCreditReservation account reservation =
     then_do (validateCreditAccount (account_value account)) (\<lambda>current.
     then_do (validateCreditReservation (reservation_value reservation)) (\<lambda>hold.
       guarded [matchScope (ca_scope current) (ri_scope (rv_input hold))]
         (case rv_state hold of
            Released \<Rightarrow> Inr (current, hold)
          | Settled \<Rightarrow> credit_error ''plugin_credit_reservation_terminal_conflict''
          | Reserved \<Rightarrow> release_reserved current hold)))"


section \<open>Amounts\<close>

lemma decimal_nat_bound: "list_all is_digit s \<Longrightarrow> decimal_nat s < 10 ^ length s"
proof (induction s rule: rev_induct)
  case (snoc u s)
  have "decimal_nat (s @ [u]) = decimal_nat s * 10 + (u - 48)" by (simp add: decimal_nat_append)
  moreover have "u - 48 \<le> 9" using snoc.prems by (auto simp: is_digit_def)
  moreover have "decimal_nat s + 1 \<le> 10 ^ length s" using snoc by simp
  then have "(decimal_nat s + 1) * 10 \<le> 10 ^ length s * 10" by (rule mult_le_mono1)
  ultimately show ?case by simp
qed (simp add: decimal_nat_def)

lemma nat_text_decimal: "list_all is_digit s \<Longrightarrow> s \<noteq> [] \<Longrightarrow> s = [48] \<or> hd s \<noteq> 48 \<Longrightarrow> nat_text (decimal_nat s) = s"
proof (induction s rule: rev_induct)
  case (snoc u s)
  have u: "48 \<le> u" "u \<le> 57" using snoc.prems by (simp_all add: is_digit_def)
  show ?case
  proof (cases "s = []")
    case True
    then show ?thesis using u by (simp add: nat_text.simps)
  next
    case False
    then have s: "list_all is_digit s" "hd s \<noteq> 48" using snoc.prems by auto
    then have t: "nat_text (decimal_nat s) = s" using snoc.IH False by blast
    then have "decimal_nat s \<noteq> 0" using s(2) nat_text_zero by (metis list.sel(1))
    moreover obtain d where d: "u = d + 48" "d \<le> 9" using u that [of "u - 48"] by simp
    ultimately have "10 \<le> decimal_nat s * 10 + d" "decimal_nat (s @ [u]) = decimal_nat s * 10 + d" by (simp_all add: decimal_nat_append)
    then show ?thesis using t d by (subst nat_text.simps) simp
  qed
qed simp

lemma nat_text_length: "n < 10 ^ k \<Longrightarrow> 0 < k \<Longrightarrow> length (nat_text n) \<le> k"
proof (induction k arbitrary: n)
  case (Suc k)
  show ?case
  proof (cases "n < 10")
    case False
    then have "0 < k" using Suc.prems(1) by (cases k) auto
    moreover have "n div 10 < 10 ^ k" using Suc.prems(1) by (simp add: less_mult_imp_div_less)
    ultimately show ?thesis using Suc.IH [of "n div 10"] False by (subst nat_text.simps) simp
  qed (simp add: nat_text.simps)
qed simp

text \<open>The largest amount plus one.\<close>

definition credit_limit :: int where
  "credit_limit = 10 ^ 48"

lemma amount_bounds: "is_credit_text s \<Longrightarrow> 0 \<le> amount s \<and> amount s < credit_limit"
proof -
  assume s: "is_credit_text s"
  then have d: "list_all is_digit s" "length s \<le> 48" by (auto simp: is_credit_text_def is_digit_def)
  then have "decimal_nat s < 10 ^ length s" by (intro decimal_nat_bound)
  also have "(10::nat) ^ length s \<le> 10 ^ 48" using d(2) by (intro power_increasing) simp_all
  finally have "int (decimal_nat s) < int (10 ^ 48)" by (simp only: of_nat_less_iff)
  then show ?thesis unfolding amount_def credit_limit_def by (simp del: power_numeral)
qed

lemma amount_int_text [simp]: "0 \<le> i \<Longrightarrow> amount (int_text i) = i"
  by (simp add: amount_def int_text_def)

lemma int_text_amount: "is_credit_text s \<Longrightarrow> int_text (amount s) = s"
  using nat_text_decimal [of s] by (auto simp: is_credit_text_def int_text_def amount_def is_digit_def)

lemma amount_inject: "is_credit_text s \<Longrightarrow> is_credit_text t \<Longrightarrow> amount s = amount t \<longleftrightarrow> s = t"
  using int_text_amount by metis

lemma credit_int_text: "is_credit_text (int_text i) \<longleftrightarrow> 0 \<le> i \<and> i < credit_limit"
proof
  assume t: "is_credit_text (int_text i)"
  then have "0 \<le> i" by (auto simp: is_credit_text_def int_text_def is_digit_def split: if_splits)
  with amount_bounds [OF t] show "0 \<le> i \<and> i < credit_limit" by simp
next
  assume i: "0 \<le> i \<and> i < credit_limit"
  then have "int (nat i) < int (10 ^ 48)" by (simp add: credit_limit_def)
  then have "nat i < 10 ^ 48" by (simp only: of_nat_less_iff)
  then have "length (nat_text (nat i)) \<le> 48" by (rule nat_text_length) simp
  moreover have "list_all is_digit (nat_text (nat i))" using nat_text_digit by (auto simp: list_all_iff)
  moreover have "nat_text (nat i) = [48] \<or> hd (nat_text (nat i)) \<noteq> 48" using nat_text_hd [of "nat i"] nat_text_zero by auto
  ultimately show "is_credit_text (int_text i)" using i by (auto simp: is_credit_text_def int_text_def)
qed

lemma credits_Inr: "credits v b = Inr s \<longleftrightarrow> v = JStr s \<and> is_credit_text s \<and> (b \<longrightarrow> 0 < amount s)"
proof -
  have "amount s = 0 \<longleftrightarrow> s = [48]" if "is_credit_text s" for s
    using int_text_amount [OF that] by (auto simp: int_text_def nat_text_zero amount_def)
  then have "amount s = 0 \<longleftrightarrow> s = js ''0''" if "is_credit_text s" for s using that by (simp add: js_def)
  then have "0 < amount s \<longleftrightarrow> s \<noteq> js ''0''" if "is_credit_text s" for s using amount_bounds [OF that] that by force
  then show ?thesis by (auto simp: credits_def credit_error_def split: json.splits if_splits)
qed

section \<open>What the validators accept\<close>

lemma credit_throw_if_None [simp]: "credit_throw_if b code = None \<longleftrightarrow> \<not> b"
  by (simp add: credit_throw_if_def)

lemma credit_error_Inr [simp]: "credit_error code \<noteq> Inr x"
  by (simp add: credit_error_def)

lemma credit_fields_None [simp]: "set (map fst ps) \<subseteq> set ks \<Longrightarrow> length ps = length ks \<Longrightarrow> first_throw (credit_fields (js_object ps) ks) = None"
  by (auto simp: credit_fields_def own_keys_js_object list_ex_iff)

definition identifier_ok :: "js_string \<Rightarrow> bool" where
  "identifier_ok s \<longleftrightarrow> s \<noteq> [] \<and> js_trim s = s \<and> length s \<le> 128 \<and> \<not> list_ex is_control_or_delete s \<and> isWellFormedUnicode s"

definition revision_ok :: "int \<Rightarrow> bool" where
  "revision_ok i \<longleftrightarrow> 1 \<le> i \<and> i \<le> 2147483647"

definition scope_ok :: "credit_scope \<Rightarrow> bool" where
  "scope_ok s \<longleftrightarrow> identifier_ok (cs_tenantId s) \<and> identifier_ok (cs_principalId s) \<and> identifier_ok (cs_poolId s)"

definition account_ok :: "credit_account \<Rightarrow> bool" where
  "account_ok a \<longleftrightarrow> scope_ok (ca_scope a) \<and> revision_ok (ca_revision a) \<and> is_credit_text (ca_availableCredits a)
     \<and> is_credit_text (ca_reservedCredits a) \<and> is_credit_text (ca_spentCredits a) \<and> is_credit_text (ca_grantedCredits a)
     \<and> amount (ca_availableCredits a) + amount (ca_reservedCredits a) + amount (ca_spentCredits a) = amount (ca_grantedCredits a)"

definition input_ok :: "reservation_input \<Rightarrow> bool" where
  "input_ok i \<longleftrightarrow> scope_ok (ri_scope i) \<and> identifier_ok (ri_reservationId i) \<and> identifier_ok (ri_idempotencyKey i)
     \<and> matches_digest (ri_requestDigest i) \<and> identifier_ok (ri_pluginId i) \<and> is_plugin_id (ri_pluginId i)
     \<and> revision_ok (ri_priceRevision i) \<and> is_credit_text (ri_quotedCredits i) \<and> 0 < amount (ri_quotedCredits i)"

definition reservation_ok :: "credit_reservation \<Rightarrow> bool" where
  "reservation_ok r \<longleftrightarrow> input_ok (rv_input r) \<and> (case rv_state r of
     Reserved \<Rightarrow> rv_settledCredits r = None
   | Settled \<Rightarrow> (\<exists>s. rv_settledCredits r = Some s \<and> is_credit_text s \<and> amount s \<le> amount (ri_quotedCredits (rv_input r)))
   | Released \<Rightarrow> rv_settledCredits r = Some (js ''0''))"

lemma credit_identifier_Inr: "credit_identifier v = Inr s \<longleftrightarrow> v = JStr s \<and> identifier_ok s"
  by (auto simp: credit_identifier_def identifier_ok_def split: json.splits if_splits)

lemma credit_revision_Inr: "credit_revision v = Inr i \<longleftrightarrow> v = JNum (Whole i) \<and> revision_ok i"
  by (auto simp: credit_revision_def safe_integer_value_def revision_ok_def is_safe_integer_def max_safe_integer_def
      split: option.splits json.splits js_number.splits if_splits)

lemma requestDigest_Inr: "requestDigest_of v = Inr s \<longleftrightarrow> v = JStr s \<and> matches_digest s"
  by (auto simp: requestDigest_of_def split: json.splits if_splits)

lemma validate_scope: "validateCreditScope v = Inr s \<Longrightarrow> scope_ok s"
  "validateCreditScope (scope_value s) = Inr t \<longleftrightarrow> t = s \<and> scope_ok s"
proof -
  show "validateCreditScope v = Inr s \<Longrightarrow> scope_ok s"
    by (auto simp: validateCreditScope_def credit_identifier_Inr scope_ok_def)
  show "validateCreditScope (scope_value s) = Inr t \<longleftrightarrow> t = s \<and> scope_ok s"
    by (cases s) (auto simp: validateCreditScope_def scope_value_def prop_of_def credit_identifier_Inr scope_ok_def guarded_pass)
qed

lemma validate_account: "validateCreditAccount v = Inr a \<Longrightarrow> account_ok a"
  by (auto simp: validateCreditAccount_def credits_Inr credit_revision_Inr account_ok_def dest: validate_scope(1))

lemma validate_own_account: "validateCreditAccount (account_value a) = Inr b \<longleftrightarrow> b = a \<and> account_ok a"
proof -
  have "first_throw (credit_fields (account_value a) [''schemaVersion'', ''scope'', ''revision'', ''availableCredits'', ''reservedCredits'',
         ''spentCredits'', ''grantedCredits'']) = None"
    unfolding account_value_def by (rule credit_fields_None) auto
  then show ?thesis
    by (cases a) (auto simp: validateCreditAccount_def first_throw_append_None prop_of_def account_value_def credits_Inr credit_revision_Inr
        account_ok_def validate_scope(2))
qed

lemma reservation_fields_ok: "reservationFields v = Inr i \<Longrightarrow> input_ok i"
  by (auto simp: reservationFields_def requestDigest_Inr credit_identifier_Inr credit_revision_Inr credits_Inr input_ok_def
      dest: validate_scope(1))

lemma own_reservation_fields:
  assumes "\<And>k x. map_of (input_fields i) k = Some x \<Longrightarrow> get_prop v k = Some x"
  shows "reservationFields v = Inr j \<longleftrightarrow> j = i \<and> input_ok i"
proof -
  have p: "prop_of v ''scope'' = scope_value (ri_scope i)" "prop_of v ''reservationId'' = JStr (ri_reservationId i)"
    "prop_of v ''idempotencyKey'' = JStr (ri_idempotencyKey i)" "prop_of v ''requestDigest'' = JStr (ri_requestDigest i)"
    "prop_of v ''pluginId'' = JStr (ri_pluginId i)" "prop_of v ''priceRevision'' = JNum (Whole (ri_priceRevision i))"
    "prop_of v ''quotedCredits'' = JStr (ri_quotedCredits i)"
    unfolding prop_of_def by (subst assms, simp add: input_fields_def, simp)+
  show ?thesis
    by (cases i) (auto simp: reservationFields_def p requestDigest_Inr credit_identifier_Inr credit_revision_Inr credits_Inr input_ok_def
        validate_scope(2))
qed

lemma validate_own_input: "validateCreditReservationInput (js_object (input_fields i)) = Inr j \<longleftrightarrow> j = i \<and> input_ok i"
proof -
  have "first_throw (credit_fields (js_object (input_fields i)) reservation_input_fields) = None"
    by (rule credit_fields_None) (auto simp: input_fields_def reservation_input_fields_def)
  then show ?thesis using own_reservation_fields [of i "js_object (input_fields i)" j]
    by (simp add: validateCreditReservationInput_def)
qed

lemma settlement_ok: "settlement v i = Inr (st, s) \<Longrightarrow> input_ok i \<Longrightarrow>
    reservation_ok \<lparr>rv_input = i, rv_state = st, rv_settledCredits = s\<rparr>"
  by (auto simp: settlement_def reservation_ok_def credits_Inr split: if_splits)

lemma validate_reservation: "validateCreditReservation v = Inr r \<Longrightarrow> reservation_ok r"
  by (auto simp: validateCreditReservation_def dest!: reservation_fields_ok settlement_ok)

lemma validate_own_reservation: "validateCreditReservation (reservation_value r) = Inr s \<longleftrightarrow> s = r \<and> reservation_ok r"
proof -
  let ?v = "reservation_value r"
  have f: "first_throw (credit_fields ?v (reservation_input_fields @ [''schemaVersion'', ''state'', ''settledCredits''])) = None"
    unfolding reservation_value_def by (rule credit_fields_None) (auto simp: input_fields_def reservation_input_fields_def)
  have i: "reservationFields ?v = Inr j \<longleftrightarrow> j = rv_input r \<and> input_ok (rv_input r)" for j
    by (rule own_reservation_fields) (simp add: reservation_value_def map_add_def)
  have g: "get_prop ?v ''schemaVersion'' = Some (JStr (js ''crewon.plugin-credit-reservation.v0''))"
    "get_prop ?v ''state'' = Some (JStr (js (reservation_state_text (rv_state r))))"
    "prop_of ?v ''settledCredits'' = (case rv_settledCredits r of None \<Rightarrow> JNull | Some s \<Rightarrow> JStr s)"
    by (simp_all add: reservation_value_def prop_of_def input_fields_def)
  have t: "settlement ?v (rv_input r) = Inr (st, x) \<longleftrightarrow> st = rv_state r \<and> x = rv_settledCredits r \<and> reservation_ok r"
    if "input_ok (rv_input r)" for st x
    using that by (cases "rv_state r"; cases "rv_settledCredits r")
      (auto simp: settlement_def g reservation_state_text_def reservation_ok_def credits_Inr)
  have ok: "reservation_ok r \<Longrightarrow> input_ok (rv_input r)" by (simp add: reservation_ok_def)
  have "validateCreditReservation ?v = Inr s \<longleftrightarrow> (\<exists>j st x. reservationFields ?v = Inr j \<and> settlement ?v j = Inr (st, x)
      \<and> s = \<lparr>rv_input = j, rv_state = st, rv_settledCredits = x\<rparr>)"
    using f g(1) by (auto simp: validateCreditReservation_def first_throw_append_None)
  also have "\<dots> \<longleftrightarrow> s = \<lparr>rv_input = rv_input r, rv_state = rv_state r, rv_settledCredits = rv_settledCredits r\<rparr> \<and> reservation_ok r"
    unfolding i using t ok by blast
  also have "\<lparr>rv_input = rv_input r, rv_state = rv_state r, rv_settledCredits = rv_settledCredits r\<rparr> = r" by simp
  finally show ?thesis .
qed

section \<open>What the operations do\<close>

lemma nextRevision_Inr: "nextRevision i = Inr j \<longleftrightarrow> j = i + 1 \<and> revision_ok (i + 1)"
  by (auto simp: nextRevision_def credit_revision_Inr)

text \<open>The account with new balances, as an operation writes it.\<close>

definition moved :: "credit_account \<Rightarrow> int \<Rightarrow> int \<Rightarrow> int \<Rightarrow> int \<Rightarrow> credit_account" where
  "moved a available reserved spent granted = a\<lparr>ca_revision := ca_revision a + 1, ca_availableCredits := int_text available,
     ca_reservedCredits := int_text reserved, ca_spentCredits := int_text spent, ca_grantedCredits := int_text granted\<rparr>"

lemma moved_ok: "account_ok (moved a available reserved spent granted) \<longleftrightarrow> scope_ok (ca_scope a) \<and> revision_ok (ca_revision a + 1)
    \<and> 0 \<le> available \<and> 0 \<le> reserved \<and> 0 \<le> spent \<and> granted < credit_limit \<and> available + reserved + spent = granted"
  by (auto simp: account_ok_def moved_def credit_int_text)

abbreviation available_of :: "credit_account \<Rightarrow> int" where "available_of a \<equiv> amount (ca_availableCredits a)"
abbreviation reserved_of :: "credit_account \<Rightarrow> int" where "reserved_of a \<equiv> amount (ca_reservedCredits a)"
abbreviation spent_of :: "credit_account \<Rightarrow> int" where "spent_of a \<equiv> amount (ca_spentCredits a)"
abbreviation granted_of :: "credit_account \<Rightarrow> int" where "granted_of a \<equiv> amount (ca_grantedCredits a)"
abbreviation quoted_of :: "credit_reservation \<Rightarrow> int" where "quoted_of r \<equiv> amount (ri_quotedCredits (rv_input r))"

lemma account_bounds:
  assumes "account_ok a"
  shows "0 \<le> available_of a" "0 \<le> reserved_of a" "0 \<le> spent_of a" "granted_of a < credit_limit"
    "available_of a + reserved_of a + spent_of a = granted_of a"
    "int_text (available_of a) = ca_availableCredits a" "int_text (reserved_of a) = ca_reservedCredits a"
    "int_text (spent_of a) = ca_spentCredits a" "int_text (granted_of a) = ca_grantedCredits a"
    "scope_ok (ca_scope a)" "revision_ok (ca_revision a)"
  using assms amount_bounds int_text_amount by (auto simp: account_ok_def)

lemma grant_Inr: "grantCreditAccount a p = Inr b \<longleftrightarrow> account_ok a \<and> is_credit_text p \<and> 0 < amount p
    \<and> granted_of a + amount p < credit_limit \<and> revision_ok (ca_revision a + 1)
    \<and> b = moved a (available_of a + amount p) (reserved_of a) (spent_of a) (granted_of a + amount p)"
proof (cases "account_ok a")
  case True
  note o = account_bounds [OF True]
  have m: "a\<lparr>ca_revision := ca_revision a + 1, ca_availableCredits := int_text (available_of a + amount p),
      ca_grantedCredits := int_text (granted_of a + amount p)\<rparr> = moved a (available_of a + amount p) (reserved_of a) (spent_of a) (granted_of a + amount p)"
    using o(7,8) by (simp add: moved_def)
  show ?thesis using True o(1-5,10) amount_bounds [of p]
    by (auto simp: grantCreditAccount_def validate_own_account credits_Inr nextRevision_Inr m moved_ok)
qed (simp add: grantCreditAccount_def validate_own_account)

lemma matchScope_None [simp]: "matchScope s t = None \<longleftrightarrow> s = t"
  by (cases s; cases t) (auto simp: matchScope_def)

lemma reserve_Inr: "reserveCreditAccount a i = Inr (b, r) \<longleftrightarrow> account_ok a \<and> input_ok i \<and> ca_scope a = ri_scope i
    \<and> amount (ri_quotedCredits i) \<le> available_of a \<and> revision_ok (ca_revision a + 1)
    \<and> b = moved a (available_of a - amount (ri_quotedCredits i)) (reserved_of a + amount (ri_quotedCredits i)) (spent_of a) (granted_of a)
    \<and> r = \<lparr>rv_input = i, rv_state = Reserved, rv_settledCredits = None\<rparr>"
proof (cases "account_ok a \<and> input_ok i")
  case True
  let ?q = "amount (ri_quotedCredits i)"
  note o = account_bounds [OF True [THEN conjunct1]]
  have m: "a\<lparr>ca_revision := ca_revision a + 1, ca_availableCredits := int_text (available_of a - ?q),
      ca_reservedCredits := int_text (reserved_of a + ?q)\<rparr> = moved a (available_of a - ?q) (reserved_of a + ?q) (spent_of a) (granted_of a)"
    using o(8,9) by (simp add: moved_def)
  have n: "reservation_ok \<lparr>rv_input = i, rv_state = Reserved, rv_settledCredits = None\<rparr>" "0 < ?q"
    using True by (simp_all add: reservation_ok_def input_ok_def)
  show ?thesis using True o(1-5,10) n
    by (auto simp: reserveCreditAccount_def validate_own_account validate_own_input validate_own_reservation nextRevision_Inr m moved_ok Let_def)
qed (auto simp: reserveCreditAccount_def validate_own_account validate_own_input)

lemma settle_reserved_Inr:
  assumes "account_ok a" and "reservation_ok r" and "is_credit_text x" and "amount x \<le> quoted_of r"
  shows "settle_reserved a r x = Inr (b, s) \<longleftrightarrow> quoted_of r \<le> reserved_of a \<and> revision_ok (ca_revision a + 1)
    \<and> b = moved a (available_of a + quoted_of r - amount x) (reserved_of a - quoted_of r) (spent_of a + amount x) (granted_of a)
    \<and> s = r\<lparr>rv_state := Settled, rv_settledCredits := Some x\<rparr>"
proof -
  note o = account_bounds [OF assms(1)] and x = amount_bounds [OF assms(3)]
  have m: "a\<lparr>ca_revision := ca_revision a + 1, ca_availableCredits := int_text (available_of a + quoted_of r - amount x),
      ca_reservedCredits := int_text (reserved_of a - quoted_of r), ca_spentCredits := int_text (spent_of a + amount x)\<rparr>
    = moved a (available_of a + quoted_of r - amount x) (reserved_of a - quoted_of r) (spent_of a + amount x) (granted_of a)"
    using o(9) by (simp add: moved_def)
  have n: "reservation_ok (r\<lparr>rv_state := Settled, rv_settledCredits := Some x\<rparr>)" using assms(2-4) by (simp add: reservation_ok_def)
  show ?thesis using o(1-5,10) x assms(4) n
    by (auto simp: settle_reserved_def reservedAmount_def Let_def nextRevision_Inr m moved_ok validate_own_account validate_own_reservation)
qed

lemma release_reserved_Inr:
  assumes "account_ok a" and "reservation_ok r"
  shows "release_reserved a r = Inr (b, s) \<longleftrightarrow> quoted_of r \<le> reserved_of a \<and> revision_ok (ca_revision a + 1)
    \<and> b = moved a (available_of a + quoted_of r) (reserved_of a - quoted_of r) (spent_of a) (granted_of a)
    \<and> s = r\<lparr>rv_state := Released, rv_settledCredits := Some (js ''0'')\<rparr>"
proof -
  note o = account_bounds [OF assms(1)]
  have m: "a\<lparr>ca_revision := ca_revision a + 1, ca_availableCredits := int_text (available_of a + quoted_of r),
      ca_reservedCredits := int_text (reserved_of a - quoted_of r)\<rparr>
    = moved a (available_of a + quoted_of r) (reserved_of a - quoted_of r) (spent_of a) (granted_of a)"
    using o(8,9) by (simp add: moved_def)
  have n: "reservation_ok (r\<lparr>rv_state := Released, rv_settledCredits := Some (js ''0'')\<rparr>)" "0 < quoted_of r"
    using assms(2) by (simp_all add: reservation_ok_def input_ok_def)
  show ?thesis using o(1-5,10) n
    by (auto simp: release_reserved_def reservedAmount_def Let_def nextRevision_Inr m moved_ok validate_own_account validate_own_reservation)
qed

lemma settle_Inr: "settleCreditReservation a r x = Inr (b, s) \<longleftrightarrow> account_ok a \<and> reservation_ok r
    \<and> ca_scope a = ri_scope (rv_input r) \<and> is_credit_text x \<and> amount x \<le> quoted_of r
    \<and> (case rv_state r of
         Settled \<Rightarrow> rv_settledCredits r = Some x \<and> b = a \<and> s = r
       | Released \<Rightarrow> False
       | Reserved \<Rightarrow> quoted_of r \<le> reserved_of a \<and> revision_ok (ca_revision a + 1)
           \<and> b = moved a (available_of a + quoted_of r - amount x) (reserved_of a - quoted_of r) (spent_of a + amount x) (granted_of a)
           \<and> s = r\<lparr>rv_state := Settled, rv_settledCredits := Some x\<rparr>)"
  by (cases "rv_state r") (auto simp: settleCreditReservation_def validate_own_account validate_own_reservation credits_Inr
      settle_reserved_Inr)

lemma release_Inr: "releaseCreditReservation a r = Inr (b, s) \<longleftrightarrow> account_ok a \<and> reservation_ok r
    \<and> ca_scope a = ri_scope (rv_input r)
    \<and> (case rv_state r of
         Released \<Rightarrow> b = a \<and> s = r
       | Settled \<Rightarrow> False
       | Reserved \<Rightarrow> quoted_of r \<le> reserved_of a \<and> revision_ok (ca_revision a + 1)
           \<and> b = moved a (available_of a + quoted_of r) (reserved_of a - quoted_of r) (spent_of a) (granted_of a)
           \<and> s = r\<lparr>rv_state := Released, rv_settledCredits := Some (js ''0'')\<rparr>)"
  by (cases "rv_state r") (auto simp: releaseCreditReservation_def validate_own_account validate_own_reservation release_reserved_Inr)

section \<open>The ledger\<close>

text \<open>
  An account with the reservations made on it and the amounts granted to it, as the store keeps what the operations
  return: a new reservation is added, a settled or released one replaces the one it was.
\<close>

inductive credit_ledger :: "credit_account \<Rightarrow> credit_reservation list \<Rightarrow> js_string list \<Rightarrow> bool" where
  opened: "createCreditAccount scope = Inr a \<Longrightarrow> credit_ledger a [] []"
| granted: "credit_ledger a rs gs \<Longrightarrow> grantCreditAccount a p = Inr b \<Longrightarrow> credit_ledger b rs (p # gs)"
| reserved: "credit_ledger a rs gs \<Longrightarrow> reserveCreditAccount a i = Inr (b, r) \<Longrightarrow> credit_ledger b (r # rs) gs"
| settled: "credit_ledger a rs gs \<Longrightarrow> k < length rs \<Longrightarrow> settleCreditReservation a (rs ! k) x = Inr (b, r) \<Longrightarrow>
    credit_ledger b (rs[k := r]) gs"
| released: "credit_ledger a rs gs \<Longrightarrow> k < length rs \<Longrightarrow> releaseCreditReservation a (rs ! k) = Inr (b, r) \<Longrightarrow>
    credit_ledger b (rs[k := r]) gs"

definition hold_of :: "credit_reservation \<Rightarrow> int" where
  "hold_of r = (if rv_state r = Reserved then quoted_of r else 0)"

definition charge_of :: "credit_reservation \<Rightarrow> int" where
  "charge_of r = (case rv_settledCredits r of None \<Rightarrow> 0 | Some x \<Rightarrow> amount x)"

definition ledger_ok :: "credit_account \<Rightarrow> credit_reservation list \<Rightarrow> js_string list \<Rightarrow> bool" where
  "ledger_ok a rs gs \<longleftrightarrow> account_ok a \<and> (\<forall>r\<in>set rs. reservation_ok r \<and> ri_scope (rv_input r) = ca_scope a)
     \<and> reserved_of a = sum_list (map hold_of rs) \<and> spent_of a = sum_list (map charge_of rs)
     \<and> granted_of a = sum_list (map amount gs)"

lemma sum_list_replace: "k < length xs \<Longrightarrow> sum_list (map f (xs[k := y])) = sum_list (map f xs) - f (xs ! k) + (f y :: int)"
  by (induction xs arbitrary: k) (auto simp: nth_Cons split: nat.splits)

lemma set_replace: "k < length xs \<Longrightarrow> \<forall>x\<in>set xs. P x \<Longrightarrow> P y \<Longrightarrow> \<forall>x\<in>set (xs[k := y]). P x"
  using set_update_subset_insert [of xs k y] by blast

lemma moved_balances [simp]:
  assumes "account_ok (moved a v r s g)"
  shows "available_of (moved a v r s g) = v" "reserved_of (moved a v r s g) = r" "spent_of (moved a v r s g) = s"
    "granted_of (moved a v r s g) = g" "ca_scope (moved a v r s g) = ca_scope a"
  using assms unfolding moved_ok by (auto simp: moved_def)

lemma settled_reservation_ok: "reservation_ok r \<Longrightarrow> is_credit_text x \<Longrightarrow> amount x \<le> quoted_of r \<Longrightarrow>
    reservation_ok (r\<lparr>rv_state := Settled, rv_settledCredits := Some x\<rparr>)"
  "reservation_ok r \<Longrightarrow> reservation_ok (r\<lparr>rv_state := Released, rv_settledCredits := Some (js ''0'')\<rparr>)"
  by (simp_all add: reservation_ok_def)

lemma zero_amount [simp]: "amount (js ''0'') = 0"
  by (simp add: amount_def js_def)

lemma ledger_step:
  assumes l: "ledger_ok a rs gs" and k: "k < length rs" and m: "account_ok b"
    and r: "reservation_ok r" "ri_scope (rv_input r) = ca_scope a" and s: "ca_scope b = ca_scope a" "granted_of b = granted_of a"
    and h: "reserved_of b = reserved_of a - hold_of (rs ! k) + hold_of r"
    and c: "spent_of b = spent_of a - charge_of (rs ! k) + charge_of r"
  shows "ledger_ok b (rs[k := r]) gs"
proof -
  have "\<forall>r'\<in>set (rs[k := r]). reservation_ok r' \<and> ri_scope (rv_input r') = ca_scope a"
    using l r by (intro set_replace [OF k]) (auto simp: ledger_ok_def)
  then show ?thesis using l m s h c by (simp add: ledger_ok_def sum_list_replace [OF k])
qed

lemma ledger_invariant: "credit_ledger a rs gs \<Longrightarrow> ledger_ok a rs gs"
proof (induction rule: credit_ledger.induct)
  case (opened scope a)
  then have "account_ok a" "a = \<lparr>ca_scope = scope, ca_revision = 1, ca_availableCredits = js ''0'', ca_reservedCredits = js ''0'',
      ca_spentCredits = js ''0'', ca_grantedCredits = js ''0''\<rparr>"
    unfolding createCreditAccount_def validate_own_account by auto
  then show ?case by (simp add: ledger_ok_def)
next
  case (granted a rs gs p b)
  let ?b = "moved a (available_of a + amount p) (reserved_of a) (spent_of a) (granted_of a + amount p)"
  have b: "b = ?b" "granted_of a + amount p < credit_limit" "revision_ok (ca_revision a + 1)" "0 < amount p" "account_ok a"
    using granted(2) by (simp_all add: grant_Inr)
  have "account_ok ?b" using account_bounds [OF b(5)] b(2-4) by (simp add: moved_ok)
  then show ?case unfolding b(1) using granted.IH by (simp add: ledger_ok_def)
next
  case (reserved a rs gs i b r)
  let ?q = "amount (ri_quotedCredits i)"
  let ?b = "moved a (available_of a - ?q) (reserved_of a + ?q) (spent_of a) (granted_of a)"
  have b: "b = ?b" "r = \<lparr>rv_input = i, rv_state = Reserved, rv_settledCredits = None\<rparr>" "account_ok a" "input_ok i"
    "ca_scope a = ri_scope i" "?q \<le> available_of a" "revision_ok (ca_revision a + 1)"
    using reserved(2) by (simp_all add: reserve_Inr)
  have "account_ok ?b" using account_bounds [OF b(3)] b(4,6,7) by (simp add: moved_ok input_ok_def)
  then show ?case unfolding b(1,2) using reserved.IH b(4,5)
    by (simp add: ledger_ok_def reservation_ok_def hold_of_def charge_of_def)
next
  case (settled a rs gs k x b r)
  let ?r = "rs ! k"
  note s = settled(3) [unfolded settle_Inr]
  show ?case
  proof (cases "rv_state ?r")
    case Reserved
    let ?b = "moved a (available_of a + quoted_of ?r - amount x) (reserved_of a - quoted_of ?r) (spent_of a + amount x) (granted_of a)"
    from s Reserved have b: "b = ?b" "r = ?r\<lparr>rv_state := Settled, rv_settledCredits := Some x\<rparr>" and n: "rv_settledCredits ?r = None"
      by (simp_all add: reservation_ok_def)
    have ok: "account_ok ?b" using s Reserved account_bounds [of a] amount_bounds [of x] by (simp add: moved_ok)
    show ?thesis
      by (rule ledger_step [OF settled.IH settled(2)]) (use s ok Reserved n settled_reservation_ok(1) [of ?r x] in
        \<open>simp_all add: b hold_of_def charge_of_def\<close>)
  qed (use s settled in \<open>simp_all add: list_update_id\<close>)
next
  case (released a rs gs k b r)
  let ?r = "rs ! k"
  note s = released(3) [unfolded release_Inr]
  show ?case
  proof (cases "rv_state ?r")
    case Reserved
    let ?b = "moved a (available_of a + quoted_of ?r) (reserved_of a - quoted_of ?r) (spent_of a) (granted_of a)"
    from s Reserved have b: "b = ?b" "r = ?r\<lparr>rv_state := Released, rv_settledCredits := Some (js ''0'')\<rparr>" and n: "rv_settledCredits ?r = None"
      "0 < quoted_of ?r" by (simp_all add: reservation_ok_def input_ok_def)
    have ok: "account_ok ?b" using s Reserved account_bounds [of a] n(2) by (simp add: moved_ok)
    show ?thesis
      by (rule ledger_step [OF released.IH released(2)]) (use s ok Reserved n(1) settled_reservation_ok(2) [of ?r] in
        \<open>simp_all add: b hold_of_def charge_of_def\<close>)
  qed (use s released in \<open>simp_all add: list_update_id\<close>)
qed

section \<open>Repeated settlements\<close>

datatype hold_operation = Settle js_string | Release

fun hold_step :: "credit_account \<times> credit_reservation \<Rightarrow> hold_operation \<Rightarrow> (credit_account \<times> credit_reservation) res" where
  "hold_step (a, r) (Settle x) = settleCreditReservation a r x"
| "hold_step (a, r) Release = releaseCreditReservation a r"

definition hold_ok :: "credit_account \<times> credit_reservation \<Rightarrow> bool" where
  "hold_ok s \<longleftrightarrow> account_ok (fst s) \<and> reservation_ok (snd s) \<and> ca_scope (fst s) = ri_scope (rv_input (snd s))"

definition hold_identity :: "credit_account \<times> credit_reservation \<Rightarrow> credit_scope \<times> js_string \<times> reservation_input" where
  "hold_identity s = (ca_scope (fst s), ca_grantedCredits (fst s), rv_input (snd s))"

lemma settled_ok:
  assumes "settleCreditReservation a r x = Inr (b, s)"
  shows "account_ok b" "reservation_ok s" "ca_scope b = ri_scope (rv_input s)" "rv_input s = rv_input r" "rv_state s = Settled"
    "rv_settledCredits s = Some x" "is_credit_text x" "amount x \<le> quoted_of s"
    "b = a \<and> s = r \<or> rv_state r = Reserved \<and> ca_revision b = ca_revision a + 1 \<and> ca_scope b = ca_scope a \<and> ca_grantedCredits b = ca_grantedCredits a"
proof -
  note s = assms [unfolded settle_Inr]
  from s have "account_ok b \<and> reservation_ok s \<and> ca_scope b = ri_scope (rv_input s) \<and> rv_input s = rv_input r \<and> rv_state s = Settled
    \<and> rv_settledCredits s = Some x \<and> (b = a \<and> s = r \<or> rv_state r = Reserved \<and> ca_revision b = ca_revision a + 1
      \<and> ca_scope b = ca_scope a \<and> ca_grantedCredits b = ca_grantedCredits a)"
  proof (cases "rv_state r")
    case Reserved
    let ?b = "moved a (available_of a + quoted_of r - amount x) (reserved_of a - quoted_of r) (spent_of a + amount x) (granted_of a)"
    have ok: "account_ok ?b" using s Reserved account_bounds [of a] amount_bounds [of x] by (simp add: moved_ok)
    have "ca_revision ?b = ca_revision a + 1" "ca_scope ?b = ca_scope a" "ca_grantedCredits ?b = ca_grantedCredits a"
      using s account_bounds(9) [of a] by (simp_all add: moved_def)
    with s Reserved ok show ?thesis using settled_reservation_ok(1) [of r x] by auto
  qed (use s in auto)
  then show "account_ok b" "reservation_ok s" "ca_scope b = ri_scope (rv_input s)" "rv_input s = rv_input r" "rv_state s = Settled"
    "rv_settledCredits s = Some x" "b = a \<and> s = r \<or> rv_state r = Reserved \<and> ca_revision b = ca_revision a + 1
      \<and> ca_scope b = ca_scope a \<and> ca_grantedCredits b = ca_grantedCredits a" by blast+
  then show "is_credit_text x" "amount x \<le> quoted_of s" using s by simp_all
qed

lemma released_ok:
  assumes "releaseCreditReservation a r = Inr (b, s)"
  shows "account_ok b" "reservation_ok s" "ca_scope b = ri_scope (rv_input s)" "rv_input s = rv_input r" "rv_state s = Released"
    "b = a \<and> s = r \<or> rv_state r = Reserved \<and> ca_revision b = ca_revision a + 1 \<and> ca_scope b = ca_scope a \<and> ca_grantedCredits b = ca_grantedCredits a"
proof -
  note s = assms [unfolded release_Inr]
  from s have "account_ok b \<and> reservation_ok s \<and> ca_scope b = ri_scope (rv_input s) \<and> rv_input s = rv_input r \<and> rv_state s = Released
    \<and> (b = a \<and> s = r \<or> rv_state r = Reserved \<and> ca_revision b = ca_revision a + 1
      \<and> ca_scope b = ca_scope a \<and> ca_grantedCredits b = ca_grantedCredits a)"
  proof (cases "rv_state r")
    case Reserved
    let ?b = "moved a (available_of a + quoted_of r) (reserved_of a - quoted_of r) (spent_of a) (granted_of a)"
    have "0 < quoted_of r" using s by (simp add: reservation_ok_def input_ok_def)
    then have ok: "account_ok ?b" using s Reserved account_bounds [of a] by (simp add: moved_ok)
    have "ca_revision ?b = ca_revision a + 1" "ca_scope ?b = ca_scope a" "ca_grantedCredits ?b = ca_grantedCredits a"
      using s account_bounds(9) [of a] by (simp_all add: moved_def)
    with s Reserved ok show ?thesis using settled_reservation_ok(2) [of r] by auto
  qed (use s in auto)
  then show "account_ok b" "reservation_ok s" "ca_scope b = ri_scope (rv_input s)" "rv_input s = rv_input r" "rv_state s = Released"
    "b = a \<and> s = r \<or> rv_state r = Reserved \<and> ca_revision b = ca_revision a + 1
      \<and> ca_scope b = ca_scope a \<and> ca_grantedCredits b = ca_grantedCredits a" by blast+
qed

interpretation hold: retryable_object hold_step hold_ok "\<lambda>s. ca_revision (fst s)" hold_identity
proof
  fix s o' t assume step: "hold_step s o' = Inr t"
  obtain a r b q where s: "s = (a, r)" "t = (b, q)" by fastforce
  show "hold_ok t" using step unfolding s by (cases o') (auto simp: hold_ok_def dest: settled_ok released_ok)
  show "t = s \<or> ca_revision (fst t) = ca_revision (fst s) + 1 \<and> hold_identity t = hold_identity s"
    using step unfolding s by (cases o') (auto simp: hold_identity_def dest: settled_ok released_ok)
  show "hold_step t o' = Inr t"
  proof (cases o')
    case (Settle x)
    with step have x: "settleCreditReservation a r x = Inr (b, q)" by (simp add: s)
    show ?thesis using settled_ok [OF x] by (simp add: s Settle settle_Inr)
  next
    case Release
    with step have x: "releaseCreditReservation a r = Inr (b, q)" by (simp add: s)
    show ?thesis using released_ok [OF x] by (simp add: s Release release_Inr)
  qed
qed

section \<open>Properties\<close>

text \<open>
  C33: the ledger balances.  After any sequence of accepted operations the credits reserved on the
  account are those of the reservations still held, the credits spent are those of the settled
  reservations, no settlement exceeds its quote, and available, reserved and spent credits add up
  to what was granted.
\<close>

theorem credit_ledger_balanced:
  assumes "credit_ledger a rs gs"
  shows "reserved_of a = (\<Sum>r\<leftarrow>rs. if rv_state r = Reserved then quoted_of r else 0)
    \<and> spent_of a = (\<Sum>r\<leftarrow>rs. case rv_settledCredits r of None \<Rightarrow> 0 | Some x \<Rightarrow> amount x)
    \<and> available_of a + reserved_of a + spent_of a = (\<Sum>g\<leftarrow>gs. amount g) \<and> 0 \<le> available_of a
    \<and> (\<forall>r\<in>set rs. \<forall>x. rv_settledCredits r = Some x \<longrightarrow> amount x \<le> quoted_of r)"
proof -
  have l: "ledger_ok a rs gs" by (rule ledger_invariant [OF assms])
  then have ok: "account_ok a" and rs: "\<forall>r\<in>set rs. reservation_ok r" by (auto simp: ledger_ok_def)
  have "amount x \<le> quoted_of r" if "reservation_ok r" "rv_settledCredits r = Some x" for r x
    using that by (cases "rv_state r") (auto simp: reservation_ok_def input_ok_def)
  with rs account_bounds [OF ok] l show ?thesis
    by (auto simp: ledger_ok_def hold_of_def [abs_def] charge_of_def [abs_def])
qed

lemma held_covered:
  assumes "credit_ledger a rs gs" and "r \<in> set rs" and "rv_state r = Reserved"
  shows "quoted_of r \<le> reserved_of a" "account_ok a" "reservation_ok r" "ca_scope a = ri_scope (rv_input r)"
proof -
  have l: "ledger_ok a rs gs" by (rule ledger_invariant [OF assms(1)])
  have "0 \<le> hold_of s" if "s \<in> set rs" for s
    using l that by (auto simp: ledger_ok_def hold_of_def reservation_ok_def input_ok_def)
  then have "hold_of r \<le> sum_list (map hold_of rs)" using assms(2) by (intro member_le_sum_list) auto
  then show "quoted_of r \<le> reserved_of a" using l assms(3) by (simp add: ledger_ok_def hold_of_def)
  show "account_ok a" "reservation_ok r" "ca_scope a = ri_scope (rv_input r)" using l assms(2) by (auto simp: ledger_ok_def)
qed

text \<open>
  A reservation that is held can always be settled at any amount up to its quote, and can
  always be released, whatever happened to the account in between; the only limit is the number of
  revisions.
\<close>

theorem credit_hold_settles:
  assumes "credit_ledger a rs gs" and "r \<in> set rs" and "rv_state r = Reserved"
    and "is_credit_text x" and "amount x \<le> quoted_of r" and "ca_revision a < 2147483647"
  shows "(\<exists>b s. settleCreditReservation a r x = Inr (b, s) \<and> rv_state s = Settled \<and> available_of b = available_of a + quoted_of r - amount x)
    \<and> (\<exists>b s. releaseCreditReservation a r = Inr (b, s) \<and> rv_state s = Released \<and> available_of b = available_of a + quoted_of r)"
proof -
  note h = held_covered [OF assms(1-3)]
  have rev: "revision_ok (ca_revision a + 1)" using account_bounds(11) [OF h(2)] assms(6) by (simp add: revision_ok_def)
  have "0 \<le> available_of a + quoted_of r - amount x" "0 \<le> available_of a + quoted_of r"
    using account_bounds(1) [OF h(2)] assms(5) amount_bounds [OF assms(4)] by simp_all
  then show ?thesis using h rev assms(3-5) by (simp add: settle_Inr release_Inr) (simp add: moved_def)
qed

text \<open>
  A settlement may be repeated, by a caller that does not know whether it took effect, and
  charges once: the repetition returns the account and the reservation it left.  The settled
  reservation accepts no other amount and no release on any account.
\<close>

theorem credit_settled_once:
  assumes "settleCreditReservation a r x = Inr (b, s)"
  shows "apply_all hold_step (a, r) (replicate (Suc n) (Settle x)) = Inr (b, s)
    \<and> (\<forall>c y d t. settleCreditReservation c s y = Inr (d, t) \<longrightarrow> y = x \<and> d = c \<and> t = s)
    \<and> (\<forall>c d t. releaseCreditReservation c s \<noteq> Inr (d, t))"
proof -
  have "hold_ok (a, r)" "hold_step (a, r) (Settle x) = Inr (b, s)" using assms by (simp_all add: hold_ok_def settle_Inr)
  from hold.retried [OF this] show ?thesis using settled_ok [OF assms] by (auto simp: settle_Inr release_Inr)
qed

section \<open>A concrete ledger\<close>

definition sample_scope :: credit_scope where
  "sample_scope = \<lparr>cs_tenantId = js ''t'', cs_principalId = js ''u'', cs_poolId = js ''p''\<rparr>"

definition sample_input :: reservation_input where
  "sample_input = \<lparr>ri_scope = sample_scope, ri_reservationId = js ''r'', ri_idempotencyKey = js ''k'',
     ri_requestDigest = sample_digest, ri_pluginId = js ''a.b'', ri_priceRevision = 1, ri_quotedCredits = int_text 7\<rparr>"

definition granted_account :: credit_account where
  "granted_account = moved \<lparr>ca_scope = sample_scope, ca_revision = 1, ca_availableCredits = js ''0'', ca_reservedCredits = js ''0'',
     ca_spentCredits = js ''0'', ca_grantedCredits = js ''0''\<rparr> 10 0 0 10"

definition sample_hold :: credit_reservation where
  "sample_hold = \<lparr>rv_input = sample_input, rv_state = Reserved, rv_settledCredits = None\<rparr>"

definition holding_account :: credit_account where
  "holding_account = moved granted_account 3 7 0 10"

lemma sample_scope_ok: "scope_ok sample_scope"
  by (simp add: scope_ok_def sample_scope_def identifier_ok_def js_trim_def is_control_or_delete_def string_eval is_low_surrogate_def)

lemma sample_input_ok: "input_ok sample_input"
  using sample_scope_ok credit_int_text [of 7]
  by (simp add: input_ok_def sample_input_def revision_ok_def credit_limit_def)
    (simp add: identifier_ok_def is_plugin_id_def js_trim_def is_control_or_delete_def is_lower_def is_digit_def js_def is_js_space_def
      is_high_surrogate_def is_low_surrogate_def)

lemma granted_account_ok: "account_ok granted_account" "account_ok holding_account"
  using sample_scope_ok by (simp_all add: holding_account_def granted_account_def moved_ok credit_limit_def revision_ok_def)
    (simp_all add: moved_def)

lemma sample_balances: "available_of granted_account = 10" "reserved_of granted_account = 0" "spent_of granted_account = 0"
  "granted_of granted_account = 10" "ca_scope granted_account = sample_scope" "ca_revision granted_account = 2"
  by (simp_all add: granted_account_def moved_def)

lemma sample_reserved: "reserveCreditAccount granted_account sample_input = Inr (holding_account, sample_hold)"
  using granted_account_ok(1) sample_input_ok sample_balances
  by (simp add: reserve_Inr holding_account_def sample_hold_def revision_ok_def) (simp add: sample_input_def)

lemma sample_ledger: "credit_ledger holding_account [sample_hold] [int_text 10]"
proof -
  let ?z = "\<lparr>ca_scope = sample_scope, ca_revision = 1, ca_availableCredits = js ''0'', ca_reservedCredits = js ''0'',
     ca_spentCredits = js ''0'', ca_grantedCredits = js ''0''\<rparr>"
  have z: "account_ok ?z" using sample_scope_ok credit_int_text [of 0] by (simp add: account_ok_def revision_ok_def is_credit_text_def)
      (simp add: js_def)
  then have "createCreditAccount sample_scope = Inr ?z" by (simp add: createCreditAccount_def validate_own_account)
  then have "credit_ledger ?z [] []" by (rule opened)
  moreover have "grantCreditAccount ?z (int_text 10) = Inr granted_account"
    using z credit_int_text [of 10] by (simp add: grant_Inr granted_account_def credit_limit_def revision_ok_def)
  ultimately have "credit_ledger granted_account [] [int_text 10]" by (rule granted)
  then show ?thesis using sample_reserved by (rule reserved)
qed

theorem credit_ledger_balanced_witness: "reserved_of holding_account = 7 \<and> 0 \<le> available_of holding_account"
  using credit_ledger_balanced [OF sample_ledger] by (simp add: sample_hold_def sample_input_def)

theorem credit_hold_settles_witness:
  "\<exists>b s. settleCreditReservation holding_account sample_hold (int_text 5) = Inr (b, s) \<and> rv_state s = Settled \<and> available_of b = 5"
proof -
  have "is_credit_text (int_text 5)" by (simp add: credit_int_text credit_limit_def)
  with credit_hold_settles [OF sample_ledger, of sample_hold "int_text 5"] show ?thesis
    by (simp add: sample_hold_def sample_input_def) (simp add: holding_account_def granted_account_def moved_def)
qed

theorem credit_settled_once_witness:
  "\<exists>b s. settleCreditReservation holding_account sample_hold (int_text 5) = Inr (b, s) \<and> releaseCreditReservation b s \<noteq> Inr (b, s)"
proof -
  have "\<exists>b s. settleCreditReservation holding_account sample_hold (int_text 5) = Inr (b, s)"
    using granted_account_ok(2) sample_input_ok credit_int_text [of 5]
    by (simp add: settle_Inr reservation_ok_def sample_hold_def)
      (simp add: holding_account_def granted_account_def moved_def sample_input_def credit_limit_def revision_ok_def)
  then obtain b s where "settleCreditReservation holding_account sample_hold (int_text 5) = Inr (b, s)" by blast
  with credit_settled_once [OF this] show ?thesis by blast
qed

end
