(* ===== verification/Model_Dispatch.thy ===== *)
theory Model_Dispatch
  imports Timestamps Versioned_Steps
begin

text \<open>
  \<open>model-dispatch-receipt.ts\<close>: the durable evidence of one request to a model.  A receipt is prepared before the
  request, marked before the bytes may leave, given the digest of the response, and terminated; every operation may be
  repeated.  Field prefix \<open>md\<close>.  Timestamps are only tested for a finite \<open>Date.parse\<close>.
\<close>

section \<open>Data\<close>

datatype dispatch_status = Prepared | PossiblySent | ResponseObserved | Terminal

record provider_identity =
  mp_agentVersionId :: js_string
  mp_adapterName :: js_string
  mp_adapterVersion :: js_string
  mp_modelId :: js_string

datatype dispatch_operation = Dispatch | Retrieve

datatype terminal_kind = TerminalCompleted | TerminalFailed | TerminalCanceled

datatype terminal_certainty = NotSent | CertainlyObserved

record dispatch_outcome =
  mo_kind :: terminal_kind
  mo_code :: "js_string option"
  mo_certainty :: terminal_certainty

record dispatch_identity =
  md_tenantId :: js_string
  md_runId :: js_string
  md_stepId :: js_string
  md_attemptId :: js_string
  md_operationId :: js_string
  md_requestSequence :: int
  md_operation :: dispatch_operation
  md_workItemId :: js_string
  md_leaseEpoch :: int
  md_requestDigest :: js_string
  md_provider :: provider_identity

record dispatch_input = dispatch_identity +
  md_preparedAt :: js_string

record dispatch_receipt = dispatch_input +
  md_status :: dispatch_status
  md_revision :: int
  md_possiblySentAt :: "js_string option"
  md_responseObservedAt :: "js_string option"
  md_responseCheckpointDigest :: "js_string option"
  md_terminalAt :: "js_string option"
  md_terminalOutcome :: "dispatch_outcome option"
  md_updatedAt :: js_string

section \<open>Checks\<close>

definition md_throw_if :: "bool \<Rightarrow> string \<Rightarrow> check" where
  "md_throw_if b code = throw_if b (ModelDispatchReceiptError code)"

lemma md_throw_if_None [simp]: "md_throw_if b code = None \<longleftrightarrow> \<not> b"
  by (simp add: md_throw_if_def)

definition md_require_digest :: "js_string \<Rightarrow> string \<Rightarrow> check" where
  "md_require_digest s code = md_throw_if (\<not> matches_digest s) code"

definition md_require_timestamp :: "(js_string \<Rightarrow> int option) \<Rightarrow> js_string \<Rightarrow> string \<Rightarrow> check" where
  "md_require_timestamp legacy s code = md_throw_if (date_parse legacy s = None) code"

definition invalidStored :: "bool \<Rightarrow> check" where
  "invalidStored b = md_throw_if b ''stored_model_dispatch_receipt_invalid''"

definition dispatch_identity_checks :: "'a dispatch_identity_scheme \<Rightarrow> check list" where
  "dispatch_identity_checks i = (let p = md_provider i in
     [md_throw_if (list_ex is_blank [md_tenantId i, md_runId i, md_stepId i, md_attemptId i, md_operationId i, md_workItemId i,
        mp_agentVersionId p, mp_adapterName p, mp_adapterVersion p, mp_modelId p]) ''model_dispatch_identity_invalid'',
      md_throw_if (\<not> is_safe_integer (md_leaseEpoch i) \<or> md_leaseEpoch i < 1) ''model_dispatch_identity_invalid'',
      md_throw_if (\<not> is_safe_integer (md_requestSequence i) \<or> md_requestSequence i < 1) ''model_dispatch_identity_invalid''])"

definition sameAuthority :: "'a dispatch_identity_scheme \<Rightarrow> 'b dispatch_identity_scheme \<Rightarrow> bool" where
  "sameAuthority r i \<longleftrightarrow> md_tenantId r = md_tenantId i \<and> md_runId r = md_runId i \<and> md_stepId r = md_stepId i
     \<and> md_attemptId r = md_attemptId i \<and> md_operationId r = md_operationId i \<and> md_requestSequence r = md_requestSequence i
     \<and> md_operation r = md_operation i \<and> md_workItemId r = md_workItemId i \<and> md_leaseEpoch r = md_leaseEpoch i
     \<and> md_requestDigest r = md_requestDigest i
     \<and> mp_agentVersionId (md_provider r) = mp_agentVersionId (md_provider i)
     \<and> mp_adapterName (md_provider r) = mp_adapterName (md_provider i)
     \<and> mp_adapterVersion (md_provider r) = mp_adapterVersion (md_provider i)
     \<and> mp_modelId (md_provider r) = mp_modelId (md_provider i)"

definition validateOutcome :: "dispatch_outcome \<Rightarrow> check" where
  "validateOutcome oc = md_throw_if (mo_kind oc = TerminalCompleted \<and> mo_code oc \<noteq> None
     \<or> mo_kind oc \<noteq> TerminalCompleted \<and> (case mo_code oc of None \<Rightarrow> True | Some c \<Rightarrow> is_blank c)) ''model_dispatch_outcome_invalid''"

definition sameOutcome :: "dispatch_outcome \<Rightarrow> dispatch_outcome \<Rightarrow> bool" where
  "sameOutcome l r \<longleftrightarrow> mo_kind l = mo_kind r \<and> mo_code l = mo_code r \<and> mo_certainty l = mo_certainty r"

definition observed_checks :: "(js_string \<Rightarrow> int option) \<Rightarrow> dispatch_receipt \<Rightarrow> check" where
  "observed_checks legacy r = (case (md_responseObservedAt r, md_responseCheckpointDigest r) of
     (Some t, d) \<Rightarrow> first_throw [md_require_timestamp legacy t ''model_dispatch_observed_at_invalid'',
       invalidStored (md_operation r = Dispatch \<and> md_possiblySentAt r = None \<or> d = None),
       when_some d (\<lambda>d. md_require_digest d ''model_dispatch_checkpoint_digest_invalid'')]
   | (None, d) \<Rightarrow> invalidStored (d \<noteq> None))"

definition terminal_checks :: "(js_string \<Rightarrow> int option) \<Rightarrow> dispatch_receipt \<Rightarrow> check" where
  "terminal_checks legacy r = (case md_terminalAt r of
     Some t \<Rightarrow> first_throw [md_require_timestamp legacy t ''model_dispatch_terminal_at_invalid'',
       invalidStored (md_terminalOutcome r = None), when_some (md_terminalOutcome r) validateOutcome]
   | None \<Rightarrow> invalidStored (md_terminalOutcome r \<noteq> None))"

definition dispatch_status_bad :: "dispatch_receipt \<Rightarrow> bool" where
  "dispatch_status_bad r \<longleftrightarrow> (let sent = md_possiblySentAt r \<noteq> None; observed = md_responseObservedAt r \<noteq> None; terminal = md_terminalAt r \<noteq> None in
     md_status r = Prepared \<and> (sent \<or> observed \<or> terminal) \<or> md_status r = PossiblySent \<and> (\<not> sent \<or> observed \<or> terminal)
     \<or> md_status r = ResponseObserved \<and> (\<not> observed \<or> terminal) \<or> md_status r = Terminal \<and> \<not> terminal)"

definition validateModelDispatchReceipt :: "(js_string \<Rightarrow> int option) \<Rightarrow> dispatch_receipt \<Rightarrow> check" where
  "validateModelDispatchReceipt legacy r = first_throw (dispatch_identity_checks r @
     [md_require_digest (md_requestDigest r) ''model_dispatch_request_digest_invalid'',
      md_require_timestamp legacy (md_preparedAt r) ''model_dispatch_prepared_at_invalid'',
      md_throw_if (\<not> is_safe_integer (md_revision r) \<or> md_revision r < 1) ''model_dispatch_revision_invalid'',
      when_some (md_possiblySentAt r) (\<lambda>t. md_require_timestamp legacy t ''model_dispatch_sent_at_invalid''),
      observed_checks legacy r, terminal_checks legacy r, invalidStored (dispatch_status_bad r)])"

section \<open>Operations\<close>

definition prepareModelDispatchReceipt ::
    "(js_string \<Rightarrow> int option) \<Rightarrow> dispatch_receipt option \<Rightarrow> dispatch_input \<Rightarrow> dispatch_receipt res" where
  "prepareModelDispatchReceipt legacy current i = guarded
     (dispatch_identity_checks i @ [md_require_digest (md_requestDigest i) ''model_dispatch_request_digest_invalid'',
        md_require_timestamp legacy (md_preparedAt i) ''model_dispatch_prepared_at_invalid''])
     (case current of
        Some r \<Rightarrow> guarded [validateModelDispatchReceipt legacy r,
          md_throw_if (\<not> sameAuthority r i) ''model_dispatch_receipt_conflict''] (Inr r)
      | None \<Rightarrow> Inr (dispatch_input.extend i \<lparr>md_status = Prepared, md_revision = 1, md_possiblySentAt = None,
          md_responseObservedAt = None, md_responseCheckpointDigest = None, md_terminalAt = None, md_terminalOutcome = None,
          md_updatedAt = md_preparedAt i\<rparr>))"

definition markModelDispatchPossiblySent ::
    "(js_string \<Rightarrow> int option) \<Rightarrow> dispatch_receipt \<Rightarrow> js_string \<Rightarrow> dispatch_receipt res" where
  "markModelDispatchPossiblySent legacy r sentAt = guarded
     [validateModelDispatchReceipt legacy r, md_require_timestamp legacy sentAt ''model_dispatch_sent_at_invalid'',
      md_throw_if (md_operation r \<noteq> Dispatch) ''model_dispatch_transition_conflict'']
     (if md_possiblySentAt r \<noteq> None then Inr r
      else guarded [md_throw_if (md_status r \<noteq> Prepared) ''model_dispatch_transition_conflict'']
        (Inr (r\<lparr>md_status := PossiblySent, md_revision := md_revision r + 1, md_possiblySentAt := Some sentAt,
           md_updatedAt := sentAt\<rparr>)))"

definition observeModelDispatchResponse ::
    "(js_string \<Rightarrow> int option) \<Rightarrow> dispatch_receipt \<Rightarrow> js_string \<Rightarrow> js_string \<Rightarrow> dispatch_receipt res" where
  "observeModelDispatchResponse legacy r checkpointDigest observedAt = guarded
     [validateModelDispatchReceipt legacy r, md_require_digest checkpointDigest ''model_dispatch_checkpoint_digest_invalid'',
      md_require_timestamp legacy observedAt ''model_dispatch_observed_at_invalid'']
     (case md_responseCheckpointDigest r of
        Some d \<Rightarrow> guarded [md_throw_if (d \<noteq> checkpointDigest) ''model_dispatch_response_conflict''] (Inr r)
      | None \<Rightarrow> guarded [md_throw_if (md_operation r = Dispatch \<and> md_status r \<noteq> PossiblySent
            \<or> md_operation r = Retrieve \<and> md_status r \<noteq> Prepared) ''model_dispatch_transition_conflict'']
          (Inr (r\<lparr>md_status := ResponseObserved, md_revision := md_revision r + 1, md_responseObservedAt := Some observedAt,
             md_responseCheckpointDigest := Some checkpointDigest, md_updatedAt := observedAt\<rparr>)))"

definition terminateModelDispatchReceipt ::
    "(js_string \<Rightarrow> int option) \<Rightarrow> dispatch_receipt \<Rightarrow> dispatch_outcome \<Rightarrow> js_string \<Rightarrow> dispatch_receipt res" where
  "terminateModelDispatchReceipt legacy r oc terminalAt = guarded
     [validateModelDispatchReceipt legacy r, md_require_timestamp legacy terminalAt ''model_dispatch_terminal_at_invalid'',
      validateOutcome oc]
     (case md_terminalOutcome r of
        Some o' \<Rightarrow> guarded [md_throw_if (\<not> sameOutcome o' oc) ''model_dispatch_terminal_conflict''] (Inr r)
      | None \<Rightarrow> guarded [md_throw_if (mo_certainty oc = NotSent \<and> md_status r \<noteq> Prepared
            \<or> mo_certainty oc = CertainlyObserved \<and> md_status r \<noteq> ResponseObserved
            \<or> mo_kind oc = TerminalCompleted \<and> mo_certainty oc \<noteq> CertainlyObserved) ''model_dispatch_transition_conflict'']
          (Inr (r\<lparr>md_status := Terminal, md_revision := md_revision r + 1, md_terminalAt := Some terminalAt,
             md_terminalOutcome := Some oc, md_updatedAt := terminalAt\<rparr>)))"

section \<open>The contract of the operations\<close>

datatype dispatch_action = MarkSent js_string | Observe js_string js_string | Terminate_with dispatch_outcome js_string

fun dispatch_step :: "(js_string \<Rightarrow> int option) \<Rightarrow> dispatch_receipt \<Rightarrow> dispatch_action \<Rightarrow> dispatch_receipt res" where
  "dispatch_step legacy r (MarkSent t) = markModelDispatchPossiblySent legacy r t"
| "dispatch_step legacy r (Observe d t) = observeModelDispatchResponse legacy r d t"
| "dispatch_step legacy r (Terminate_with oc t) = terminateModelDispatchReceipt legacy r oc t"


lemma md_checks_None [simp]: "md_require_digest s code = None \<longleftrightarrow> matches_digest s"
  "md_require_timestamp legacy s code = None \<longleftrightarrow> date_parse legacy s \<noteq> None" "invalidStored b = None \<longleftrightarrow> \<not> b"
  by (simp_all add: md_require_digest_def md_require_timestamp_def invalidStored_def)

lemma sameAuthority_iff: "sameAuthority r i \<longleftrightarrow> dispatch_identity.truncate r = dispatch_identity.truncate i"
  by (cases r; cases i; cases "md_provider r"; cases "md_provider i") (auto simp: sameAuthority_def dispatch_identity.defs)

lemma sameOutcome_iff [simp]: "sameOutcome l r \<longleftrightarrow> l = r"
  by (cases l; cases r) (auto simp: sameOutcome_def)

definition request_ok :: "(js_string \<Rightarrow> int option) \<Rightarrow> 'a dispatch_input_scheme \<Rightarrow> bool" where
  "request_ok legacy i \<longleftrightarrow> first_throw (dispatch_identity_checks i) = None \<and> matches_digest (md_requestDigest i)
     \<and> date_parse legacy (md_preparedAt i) \<noteq> None"

definition outcome_ok :: "dispatch_outcome \<Rightarrow> bool" where
  "outcome_ok oc \<longleftrightarrow> (if mo_kind oc = TerminalCompleted then mo_code oc = None else \<exists>c. mo_code oc = Some c \<and> \<not> is_blank c)"

lemma validateOutcome_None [simp]: "validateOutcome oc = None \<longleftrightarrow> outcome_ok oc"
  by (auto simp: validateOutcome_def outcome_ok_def split: option.splits)

text \<open>What each field of a receipt may be in each status.\<close>

definition evidence_ok :: "(js_string \<Rightarrow> int option) \<Rightarrow> dispatch_receipt \<Rightarrow> bool" where
  "evidence_ok legacy r \<longleftrightarrow>
     (\<forall>t. md_possiblySentAt r = Some t \<longrightarrow> date_parse legacy t \<noteq> None)
     \<and> (\<forall>t. md_responseObservedAt r = Some t \<longrightarrow> date_parse legacy t \<noteq> None)
     \<and> (\<forall>d. md_responseCheckpointDigest r = Some d \<longrightarrow> matches_digest d)
     \<and> (\<forall>t. md_terminalAt r = Some t \<longrightarrow> date_parse legacy t \<noteq> None)
     \<and> (\<forall>oc. md_terminalOutcome r = Some oc \<longrightarrow> outcome_ok oc)
     \<and> (md_responseCheckpointDigest r \<noteq> None \<longleftrightarrow> md_responseObservedAt r \<noteq> None)
     \<and> (md_terminalOutcome r \<noteq> None \<longleftrightarrow> md_terminalAt r \<noteq> None)
     \<and> (md_responseObservedAt r \<noteq> None \<and> md_operation r = Dispatch \<longrightarrow> md_possiblySentAt r \<noteq> None)
     \<and> \<not> dispatch_status_bad r"

lemma receipt_valid: "validateModelDispatchReceipt legacy r = None \<longleftrightarrow> request_ok legacy r \<and> evidence_ok legacy r
    \<and> is_safe_integer (md_revision r) \<and> 1 \<le> md_revision r"
  unfolding validateModelDispatchReceipt_def first_throw_append_None request_ok_def evidence_ok_def observed_checks_def terminal_checks_def
  by (cases "md_possiblySentAt r"; cases "md_responseObservedAt r"; cases "md_responseCheckpointDigest r"; cases "md_terminalAt r";
      cases "md_terminalOutcome r") (auto simp: when_some_def)

definition dispatch_steps_left :: "dispatch_receipt \<Rightarrow> int" where
  "dispatch_steps_left r = (case md_status r of Prepared \<Rightarrow> 3 | PossiblySent \<Rightarrow> 2 | ResponseObserved \<Rightarrow> 1 | Terminal \<Rightarrow> 0)"

text \<open>The invariant: a valid receipt whose outcome says what its evidence says, and whose revision counts its operations.\<close>

definition dispatch_ok :: "(js_string \<Rightarrow> int option) \<Rightarrow> dispatch_receipt \<Rightarrow> bool" where
  "dispatch_ok legacy r \<longleftrightarrow> request_ok legacy r \<and> evidence_ok legacy r \<and> 1 \<le> md_revision r
     \<and> md_revision r + dispatch_steps_left r \<le> 4
     \<and> (md_operation r = Retrieve \<longrightarrow> md_possiblySentAt r = None)
     \<and> (\<forall>oc. md_terminalOutcome r = Some oc \<longrightarrow> (mo_kind oc = TerminalCompleted \<longrightarrow> mo_certainty oc = CertainlyObserved)
         \<and> (if mo_certainty oc = NotSent then md_possiblySentAt r = None \<and> md_responseObservedAt r = None
            else md_responseObservedAt r \<noteq> None))"

lemma dispatch_ok_valid: "dispatch_ok legacy r \<Longrightarrow> validateModelDispatchReceipt legacy r = None"
  by (auto simp: receipt_valid dispatch_ok_def dispatch_steps_left_def is_safe_integer_def max_safe_integer_def split: dispatch_status.splits)

text \<open>What each operation does to a receipt that satisfies it.\<close>

lemma mark_Inr: "markModelDispatchPossiblySent legacy r t = Inr s \<longleftrightarrow> validateModelDispatchReceipt legacy r = None
    \<and> date_parse legacy t \<noteq> None \<and> md_operation r = Dispatch
    \<and> (if md_possiblySentAt r \<noteq> None then s = r else md_status r = Prepared \<and> s = r\<lparr>md_status := PossiblySent,
        md_revision := md_revision r + 1, md_possiblySentAt := Some t, md_updatedAt := t\<rparr>)"
  by (auto simp: markModelDispatchPossiblySent_def)

lemma observe_Inr: "observeModelDispatchResponse legacy r d t = Inr s \<longleftrightarrow> validateModelDispatchReceipt legacy r = None
    \<and> matches_digest d \<and> date_parse legacy t \<noteq> None
    \<and> (if md_responseCheckpointDigest r \<noteq> None then md_responseCheckpointDigest r = Some d \<and> s = r
       else md_status r = (if md_operation r = Dispatch then PossiblySent else Prepared)
         \<and> s = r\<lparr>md_status := ResponseObserved, md_revision := md_revision r + 1, md_responseObservedAt := Some t,
             md_responseCheckpointDigest := Some d, md_updatedAt := t\<rparr>)"
  by (cases "md_operation r") (auto simp: observeModelDispatchResponse_def split: option.splits)

lemma terminate_Inr_dispatch: "terminateModelDispatchReceipt legacy r oc t = Inr s \<longleftrightarrow> validateModelDispatchReceipt legacy r = None
    \<and> date_parse legacy t \<noteq> None \<and> outcome_ok oc
    \<and> (if md_terminalOutcome r \<noteq> None then md_terminalOutcome r = Some oc \<and> s = r
       else md_status r = (if mo_certainty oc = NotSent then Prepared else ResponseObserved)
         \<and> (mo_kind oc = TerminalCompleted \<longrightarrow> mo_certainty oc = CertainlyObserved)
         \<and> s = r\<lparr>md_status := Terminal, md_revision := md_revision r + 1, md_terminalAt := Some t, md_terminalOutcome := Some oc,
             md_updatedAt := t\<rparr>)"
  by (cases "mo_certainty oc") (auto simp: terminateModelDispatchReceipt_def split: option.splits)

lemma request_ok_update [simp]: "request_ok legacy (r\<lparr>md_status := x\<rparr>) = request_ok legacy r"
  "request_ok legacy (r\<lparr>md_revision := n\<rparr>) = request_ok legacy r" "request_ok legacy (r\<lparr>md_possiblySentAt := y\<rparr>) = request_ok legacy r"
  "request_ok legacy (r\<lparr>md_responseObservedAt := y\<rparr>) = request_ok legacy r" "request_ok legacy (r\<lparr>md_responseCheckpointDigest := y\<rparr>) = request_ok legacy r"
  "request_ok legacy (r\<lparr>md_terminalAt := y\<rparr>) = request_ok legacy r" "request_ok legacy (r\<lparr>md_terminalOutcome := oc\<rparr>) = request_ok legacy r"
  "request_ok legacy (r\<lparr>md_updatedAt := u\<rparr>) = request_ok legacy r"
  by (simp_all add: request_ok_def dispatch_identity_checks_def)

lemma status_evidence:
  assumes "evidence_ok legacy r"
  shows "md_status r = Prepared \<Longrightarrow> md_possiblySentAt r = None \<and> md_responseObservedAt r = None \<and> md_responseCheckpointDigest r = None
      \<and> md_terminalAt r = None \<and> md_terminalOutcome r = None"
    "md_status r = PossiblySent \<Longrightarrow> md_possiblySentAt r \<noteq> None \<and> md_responseObservedAt r = None \<and> md_responseCheckpointDigest r = None
      \<and> md_terminalAt r = None \<and> md_terminalOutcome r = None"
    "md_status r = ResponseObserved \<Longrightarrow> md_responseObservedAt r \<noteq> None \<and> md_responseCheckpointDigest r \<noteq> None
      \<and> md_terminalAt r = None \<and> md_terminalOutcome r = None"
    "md_status r = Terminal \<Longrightarrow> md_terminalAt r \<noteq> None \<and> md_terminalOutcome r \<noteq> None"
  using assms unfolding evidence_ok_def dispatch_status_bad_def Let_def by (metis dispatch_status.distinct)+

text \<open>The three updates, each from the status it needs.\<close>

lemma evidence_dest:
  assumes "evidence_ok legacy r"
  shows "md_possiblySentAt r = Some t \<Longrightarrow> date_parse legacy t \<noteq> None" "md_responseObservedAt r = Some t \<Longrightarrow> date_parse legacy t \<noteq> None"
    "md_responseCheckpointDigest r = Some d \<Longrightarrow> matches_digest d"
    "md_responseObservedAt r \<noteq> None \<Longrightarrow> md_operation r = Dispatch \<Longrightarrow> md_possiblySentAt r \<noteq> None"
  using assms unfolding evidence_ok_def by blast+

lemmas dispatch_ok_defs = dispatch_ok_def evidence_ok_def dispatch_status_bad_def dispatch_steps_left_def

lemma sent_ok:
  assumes "dispatch_ok legacy r" and "md_status r = Prepared" and "md_operation r = Dispatch" and "date_parse legacy t \<noteq> None"
  shows "dispatch_ok legacy (r\<lparr>md_status := PossiblySent, md_revision := md_revision r + 1, md_possiblySentAt := Some t, md_updatedAt := t\<rparr>)"
proof -
  from assms(1,2) have k: "request_ok legacy r" "evidence_ok legacy r" "1 \<le> md_revision r" "md_revision r + 3 \<le> 4"
    by (simp_all add: dispatch_ok_def dispatch_steps_left_def)
  show ?thesis using k(1,3,4) status_evidence(1) [OF k(2) assms(2)] assms(3,4) by (simp add: dispatch_ok_defs)
qed

lemma observed_ok:
  assumes "dispatch_ok legacy r" and "md_status r = (if md_operation r = Dispatch then PossiblySent else Prepared)"
    and "matches_digest d" and "date_parse legacy t \<noteq> None"
  shows "dispatch_ok legacy (r\<lparr>md_status := ResponseObserved, md_revision := md_revision r + 1, md_responseObservedAt := Some t,
             md_responseCheckpointDigest := Some d, md_updatedAt := t\<rparr>)"
proof (cases "md_operation r")
  case Dispatch
  from assms(1,2) Dispatch have k: "request_ok legacy r" "evidence_ok legacy r" "1 \<le> md_revision r" "md_revision r + 2 \<le> 4"
    and st: "md_status r = PossiblySent" by (simp_all add: dispatch_ok_def dispatch_steps_left_def)
  from status_evidence(2) [OF k(2) st] obtain x where "md_possiblySentAt r = Some x" by blast
  then show ?thesis using k(1,3,4) status_evidence(2) [OF k(2) st] evidence_dest(1) [OF k(2), of x] assms(3,4) Dispatch
    by (simp add: dispatch_ok_defs)
next
  case Retrieve
  from assms(1,2) Retrieve have k: "request_ok legacy r" "evidence_ok legacy r" "1 \<le> md_revision r" "md_revision r + 3 \<le> 4"
    and st: "md_status r = Prepared" by (simp_all add: dispatch_ok_def dispatch_steps_left_def)
  show ?thesis using k(1,3,4) status_evidence(1) [OF k(2) st] assms(3,4) Retrieve by (simp add: dispatch_ok_defs)
qed

lemma terminated_ok:
  assumes "dispatch_ok legacy r" and "md_status r = (if mo_certainty oc = NotSent then Prepared else ResponseObserved)"
    and "mo_kind oc = TerminalCompleted \<longrightarrow> mo_certainty oc = CertainlyObserved" and "outcome_ok oc" and "date_parse legacy t \<noteq> None"
  shows "dispatch_ok legacy (r\<lparr>md_status := Terminal, md_revision := md_revision r + 1, md_terminalAt := Some t, md_terminalOutcome := Some oc,
             md_updatedAt := t\<rparr>)"
proof (cases "mo_certainty oc")
  case NotSent
  with assms(1,2) have k: "request_ok legacy r" "evidence_ok legacy r" "1 \<le> md_revision r" "md_revision r + 3 \<le> 4"
    and st: "md_status r = Prepared" by (simp_all add: dispatch_ok_def dispatch_steps_left_def)
  show ?thesis using k(1,3,4) status_evidence(1) [OF k(2) st] assms(3-5) NotSent by (simp add: dispatch_ok_defs)
next
  case CertainlyObserved
  with assms(1,2) have k: "request_ok legacy r" "evidence_ok legacy r" "1 \<le> md_revision r" "md_revision r + 1 \<le> 4"
    and rt: "md_operation r = Retrieve \<longrightarrow> md_possiblySentAt r = None"
    and st: "md_status r = ResponseObserved" by (simp_all add: dispatch_ok_def dispatch_steps_left_def)
  from status_evidence(3) [OF k(2) st] obtain x d where x: "md_responseObservedAt r = Some x" "md_responseCheckpointDigest r = Some d" by blast
  then show ?thesis
    using k(1,3,4) rt status_evidence(3) [OF k(2) st] evidence_dest [OF k(2)] assms(3-5) CertainlyObserved
    by (cases "md_operation r"; cases "md_possiblySentAt r"; simp add: dispatch_ok_defs)
qed

lemma dispatch_step_ok:
  assumes "dispatch_ok legacy r" and "dispatch_step legacy r a = Inr s"
  shows "dispatch_ok legacy s"
proof (cases a)
  case (MarkSent t)
  with assms(2) have "s = r \<or> md_status r = Prepared \<and> md_operation r = Dispatch \<and> date_parse legacy t \<noteq> None \<and> s = r\<lparr>md_status := PossiblySent,
      md_revision := md_revision r + 1, md_possiblySentAt := Some t, md_updatedAt := t\<rparr>"
    unfolding MarkSent dispatch_step.simps mark_Inr by (metis (no_types))
  then show ?thesis using assms(1) sent_ok by blast
next
  case (Observe d t)
  from assms(2) have "s = r \<or> md_status r = (if md_operation r = Dispatch then PossiblySent else Prepared) \<and> matches_digest d
      \<and> date_parse legacy t \<noteq> None \<and> s = r\<lparr>md_status := ResponseObserved, md_revision := md_revision r + 1, md_responseObservedAt := Some t,
             md_responseCheckpointDigest := Some d, md_updatedAt := t\<rparr>"
    unfolding Observe dispatch_step.simps observe_Inr by (metis (no_types))
  then show ?thesis using assms(1) observed_ok by blast
next
  case (Terminate_with oc t)
  from assms(2) have "s = r \<or> md_status r = (if mo_certainty oc = NotSent then Prepared else ResponseObserved)
      \<and> (mo_kind oc = TerminalCompleted \<longrightarrow> mo_certainty oc = CertainlyObserved) \<and> outcome_ok oc \<and> date_parse legacy t \<noteq> None
      \<and> s = r\<lparr>md_status := Terminal, md_revision := md_revision r + 1, md_terminalAt := Some t, md_terminalOutcome := Some oc,
             md_updatedAt := t\<rparr>"
    unfolding Terminate_with dispatch_step.simps terminate_Inr_dispatch by (metis (no_types))
  then show ?thesis using assms(1) terminated_ok by blast
qed

lemma dispatch_step_repeats:
  assumes "dispatch_step legacy r a = Inr s" and "dispatch_ok legacy s"
  shows "dispatch_step legacy s a = Inr s"
proof (cases a)
  case (MarkSent t)
  from assms(1) have "date_parse legacy t \<noteq> None" "md_operation s = Dispatch" "md_possiblySentAt s \<noteq> None"
    unfolding MarkSent dispatch_step.simps mark_Inr by (auto split: if_splits)
  then show ?thesis using dispatch_ok_valid [OF assms(2)] by (simp add: MarkSent mark_Inr)
next
  case (Observe d t)
  from assms(1) have "date_parse legacy t \<noteq> None" "matches_digest d" "md_responseCheckpointDigest s = Some d"
    unfolding Observe dispatch_step.simps observe_Inr by (auto split: if_splits)
  then show ?thesis using dispatch_ok_valid [OF assms(2)] by (simp add: Observe observe_Inr)
next
  case (Terminate_with oc t)
  from assms(1) have "date_parse legacy t \<noteq> None" "outcome_ok oc" "md_terminalOutcome s = Some oc"
    unfolding Terminate_with dispatch_step.simps terminate_Inr_dispatch by (auto split: if_splits)
  then show ?thesis using dispatch_ok_valid [OF assms(2)] by (simp add: Terminate_with terminate_Inr_dispatch)
qed

interpretation dispatch: retryable_object "dispatch_step legacy" "dispatch_ok legacy" md_revision dispatch_input.truncate for legacy
proof
  fix r a s assume step: "dispatch_step legacy r a = Inr s"
  show "s = r \<or> md_revision s = md_revision r + 1 \<and> dispatch_input.truncate s = dispatch_input.truncate r"
    using step by (cases a) (simp_all add: mark_Inr observe_Inr terminate_Inr_dispatch dispatch_input.defs split: if_splits)
  assume ok: "dispatch_ok legacy r"
  then show s: "dispatch_ok legacy s" using step by (rule dispatch_step_ok)
  show "dispatch_step legacy s a = Inr s" using step s by (rule dispatch_step_repeats)
qed

section \<open>Properties\<close>

lemma prepared_Inr: "prepareModelDispatchReceipt legacy None i = Inr r \<longleftrightarrow> request_ok legacy i
    \<and> r = dispatch_input.extend i \<lparr>md_status = Prepared, md_revision = 1, md_possiblySentAt = None, md_responseObservedAt = None,
        md_responseCheckpointDigest = None, md_terminalAt = None, md_terminalOutcome = None, md_updatedAt = md_preparedAt i\<rparr>"
  by (auto simp: prepareModelDispatchReceipt_def request_ok_def first_throw_append_None)

lemma prepared_again: "prepareModelDispatchReceipt legacy (Some r) i = Inr s \<longleftrightarrow> request_ok legacy i
    \<and> validateModelDispatchReceipt legacy r = None \<and> dispatch_identity.truncate r = dispatch_identity.truncate i \<and> s = r"
  by (auto simp: prepareModelDispatchReceipt_def request_ok_def first_throw_append_None sameAuthority_iff)

lemma dispatch_prepared_ok:
  assumes "prepareModelDispatchReceipt legacy None i = Inr r"
  shows "dispatch_ok legacy r" "dispatch_input.truncate r = i"
  using assms unfolding prepared_Inr
  by (cases i, simp_all add: dispatch_ok_def request_ok_def dispatch_identity_checks_def evidence_ok_def dispatch_status_bad_def
      dispatch_steps_left_def dispatch_input.defs)

definition evidence_kept :: "dispatch_receipt \<Rightarrow> dispatch_receipt \<Rightarrow> bool" where
  "evidence_kept r s \<longleftrightarrow> (\<forall>f\<in>{md_possiblySentAt, md_responseObservedAt, md_responseCheckpointDigest, md_terminalAt}.
     f r \<noteq> None \<longrightarrow> f s = f r) \<and> (md_terminalOutcome r \<noteq> None \<longrightarrow> md_terminalOutcome s = md_terminalOutcome r)"

lemma step_keeps_evidence:
  assumes "dispatch_ok legacy r" and "dispatch_step legacy r a = Inr s"
  shows "evidence_kept r s"
proof -
  from assms(1) have e: "evidence_ok legacy r" by (simp add: dispatch_ok_def)
  show ?thesis
  proof (cases a)
    case (MarkSent t)
    then show ?thesis using assms(2) by (auto simp: mark_Inr evidence_kept_def split: if_splits)
  next
    case (Observe d t)
    have "md_responseCheckpointDigest r = None \<Longrightarrow> md_responseObservedAt r = None" using e by (simp add: evidence_ok_def)
    then show ?thesis using assms(2) Observe by (auto simp: observe_Inr evidence_kept_def split: if_splits)
  next
    case (Terminate_with oc t)
    have "md_terminalOutcome r = None \<Longrightarrow> md_terminalAt r = None" using e by (simp add: evidence_ok_def)
    then show ?thesis using assms(2) Terminate_with by (auto simp: terminate_Inr_dispatch evidence_kept_def split: if_splits)
  qed
qed

text \<open>
  The outcome of a receipt is supported by its evidence.  Whatever operations followed the
  preparation, a receipt that says nothing was sent was never marked as sent and has no response,
  one that says a response was observed has the digest of it, and a new request was marked as sent
  before; a completed outcome always has a response.
\<close>

theorem dispatch_outcome_supported:
  assumes "prepareModelDispatchReceipt legacy None i = Inr r" and "apply_all (dispatch_step legacy) r as = Inr s"
    and "md_terminalOutcome s = Some oc"
  shows "if mo_certainty oc = NotSent
    then md_possiblySentAt s = None \<and> md_responseObservedAt s = None \<and> mo_kind oc \<noteq> TerminalCompleted
    else md_responseObservedAt s \<noteq> None \<and> (\<exists>d. md_responseCheckpointDigest s = Some d \<and> matches_digest d)
      \<and> (md_operation s = Dispatch \<longrightarrow> md_possiblySentAt s \<noteq> None)"
proof -
  have "dispatch_ok legacy s" by (rule dispatch.apply_keeps [OF dispatch_prepared_ok(1) [OF assms(1)] assms(2)])
  then show ?thesis using assms(3) by (auto simp: dispatch_ok_def evidence_ok_def)
qed

text \<open>
  Evidence is durable and operations may be repeated.  Over any accepted operations every
  timestamp, digest and outcome once recorded stays, the request stays, the revision is at most 4;
  preparing the request again returns the receipt as it is, and so does the last operation.
\<close>

theorem dispatch_evidence_durable:
  assumes "prepareModelDispatchReceipt legacy None i = Inr r" and "apply_all (dispatch_step legacy) r as = Inr s"
    and "dispatch_step legacy s a = Inr t"
  shows "evidence_kept s t \<and> dispatch_input.truncate t = i \<and> md_revision t \<le> 4
    \<and> prepareModelDispatchReceipt legacy (Some t) i = Inr t
    \<and> apply_all (dispatch_step legacy) s (replicate (Suc n) a) = Inr t"
proof -
  note p = dispatch_prepared_ok [OF assms(1)]
  have s: "dispatch_ok legacy s" by (rule dispatch.apply_keeps [OF p(1) assms(2)])
  have t: "dispatch_ok legacy t" by (rule dispatch_step_ok [OF s assms(3)])
  have "apply_all (dispatch_step legacy) r (as @ [a]) = Inr t" using assms(2,3) by (simp add: apply_all_append)
  from dispatch.apply_identity [OF this] have i: "dispatch_input.truncate t = i" using p(2) by simp
  then have "dispatch_identity.truncate t = dispatch_identity.truncate i" by (auto simp: dispatch_input.defs dispatch_identity.defs)
  moreover have "request_ok legacy i" using assms(1) by (simp add: prepared_Inr)
  ultimately have "prepareModelDispatchReceipt legacy (Some t) i = Inr t" using dispatch_ok_valid [OF t] by (simp add: prepared_again)
  moreover have "md_revision t \<le> 4" using t by (auto simp: dispatch_ok_def dispatch_steps_left_def split: dispatch_status.splits)
  ultimately show ?thesis using step_keeps_evidence [OF s assms(3)] i dispatch.retried [OF s assms(3)] by blast
qed

text \<open>
  A receipt can always be terminated: at most two more operations end it with a failure, the
  second after the response has been observed when the request may have been sent.
\<close>

theorem dispatch_terminable:
  assumes "prepareModelDispatchReceipt legacy None i = Inr r" and "apply_all (dispatch_step legacy) r as = Inr s"
    and "date_parse legacy t \<noteq> None" and "matches_digest d" and "\<not> is_blank c"
  shows "\<exists>bs u oc. length bs \<le> 2 \<and> apply_all (dispatch_step legacy) s bs = Inr u \<and> md_status u = Terminal \<and> md_terminalOutcome u = Some oc"
proof -
  have s: "dispatch_ok legacy s" by (rule dispatch.apply_keeps [OF dispatch_prepared_ok(1) [OF assms(1)] assms(2)])
  note v = dispatch_ok_valid [OF s] and ev = status_evidence [of legacy s]
  define failed where "failed e = \<lparr>mo_kind = TerminalFailed, mo_code = Some c, mo_certainty = e\<rparr>" for e
  have "\<exists>u oc. dispatch_step legacy s' (Terminate_with (failed e) t) = Inr u
      \<and> md_status u = Terminal \<and> md_terminalOutcome u = Some oc"
    if "dispatch_ok legacy s'" "md_status s' = (if e = NotSent then Prepared else ResponseObserved)" for s' e
  proof -
    have "md_terminalOutcome s' = None" using that status_evidence(1,3) [of legacy s'] by (cases e) (simp_all add: dispatch_ok_def)
    then show ?thesis using dispatch_ok_valid [OF that(1)] that(2) assms(3,5) by (simp add: terminate_Inr_dispatch outcome_ok_def failed_def)
  qed
  note fail = this
  show ?thesis
  proof (cases "md_status s")
    case Terminal
    then show ?thesis using s ev(4) by (intro exI [of _ "[]"]) (auto simp: dispatch_ok_def)
  next
    case Prepared
    with fail [OF s, of NotSent] obtain u oc where "dispatch_step legacy s (Terminate_with (failed NotSent) t) = Inr u"
      "md_status u = Terminal" "md_terminalOutcome u = Some oc" by auto
    then show ?thesis by (intro exI [of _ "[Terminate_with (failed NotSent) t]"]) simp
  next
    case ResponseObserved
    with fail [OF s, of CertainlyObserved] obtain u oc where "dispatch_step legacy s (Terminate_with (failed CertainlyObserved) t) = Inr u"
      "md_status u = Terminal" "md_terminalOutcome u = Some oc" by auto
    then show ?thesis by (intro exI [of _ "[Terminate_with (failed CertainlyObserved) t]"]) simp
  next
    case PossiblySent
    let ?s = "s\<lparr>md_status := ResponseObserved, md_revision := md_revision s + 1, md_responseObservedAt := Some t,
             md_responseCheckpointDigest := Some d, md_updatedAt := t\<rparr>"
    have "md_operation s = Dispatch" "md_responseCheckpointDigest s = None"
      using s PossiblySent ev(2) by (cases "md_operation s"; simp add: dispatch_ok_def)+
    then have o: "dispatch_step legacy s (Observe d t) = Inr ?s" using v assms(3,4) PossiblySent by (simp add: observe_Inr)
    from fail [OF dispatch_step_ok [OF s o], of CertainlyObserved] obtain u oc where
      "dispatch_step legacy ?s (Terminate_with (failed CertainlyObserved) t) = Inr u"
      "md_status u = Terminal" "md_terminalOutcome u = Some oc" by auto
    then show ?thesis using o by (intro exI [of _ "[Observe d t, Terminate_with (failed CertainlyObserved) t]"]) simp
  qed
qed

section \<open>A concrete receipt\<close>

definition sample_dispatch :: dispatch_input where
  "sample_dispatch = \<lparr>md_tenantId = js ''t'', md_runId = js ''r'', md_stepId = js ''s'', md_attemptId = js ''a'', md_operationId = js ''o'',
     md_requestSequence = 1, md_operation = Dispatch, md_workItemId = js ''w'', md_leaseEpoch = 1, md_requestDigest = sample_digest,
     md_provider = \<lparr>mp_agentVersionId = js ''v'', mp_adapterName = js ''n'', mp_adapterVersion = js ''1'', mp_modelId = js ''m''\<rparr>,
     md_preparedAt = js ''2026-01-01T00:00:00Z''\<rparr>"

definition prepared_sample :: dispatch_receipt where
  "prepared_sample = dispatch_input.extend sample_dispatch \<lparr>md_status = Prepared, md_revision = 1, md_possiblySentAt = None,
     md_responseObservedAt = None, md_responseCheckpointDigest = None, md_terminalAt = None, md_terminalOutcome = None, md_updatedAt = js ''2026-01-01T00:00:00Z''\<rparr>"

lemma sample_dates [simp]:
  "date_parse legacy (js ''2026-01-01T00:00:00Z'') = Some 1767225600000"
  "date_parse legacy (js ''2026-01-01T00:00:01Z'') = Some 1767225601000"
proof -
  have "iso_time (js ''2026-01-01T00:00:00Z'') = Some 1767225600000" "iso_time (js ''2026-01-01T00:00:01Z'') = Some 1767225601000"
    by code_simp+
  then show "date_parse legacy (js ''2026-01-01T00:00:00Z'') = Some 1767225600000"
    "date_parse legacy (js ''2026-01-01T00:00:01Z'') = Some 1767225601000"
    by (simp_all add: date_parse_timestamp is_timestamp_iff)
qed

lemma sample_blank: "\<not> is_blank (js ''t'')" "\<not> is_blank (js ''r'')" "\<not> is_blank (js ''s'')" "\<not> is_blank (js ''a'')" "\<not> is_blank (js ''o'')"
    "\<not> is_blank (js ''w'')" "\<not> is_blank (js ''v'')" "\<not> is_blank (js ''n'')" "\<not> is_blank (js ''1'')" "\<not> is_blank (js ''m'')" "\<not> is_blank (js ''x'')"
  by (simp_all add: is_blank_def js_trim_def js_def is_js_space_def)

lemma sample_prepared: "prepareModelDispatchReceipt (\<lambda>_. None) None sample_dispatch = Inr prepared_sample"
  unfolding prepared_Inr
  by (simp add: request_ok_def sample_dispatch_def prepared_sample_def dispatch_identity_checks_def is_safe_integer_def
      max_safe_integer_def sample_blank)

definition sent_sample :: dispatch_receipt where
  "sent_sample = prepared_sample\<lparr>md_status := PossiblySent, md_revision := 2, md_possiblySentAt := Some (js ''2026-01-01T00:00:01Z''), md_updatedAt := js ''2026-01-01T00:00:01Z''\<rparr>"

lemma sample_sent: "dispatch_step (\<lambda>_. None) prepared_sample (MarkSent (js ''2026-01-01T00:00:01Z'')) = Inr sent_sample"
  using dispatch_ok_valid [OF dispatch_prepared_ok(1) [OF sample_prepared]]
  by (simp add: mark_Inr sent_sample_def) (simp add: prepared_sample_def sample_dispatch_def dispatch_input.defs)

definition sample_failure :: dispatch_outcome where
  "sample_failure = \<lparr>mo_kind = TerminalFailed, mo_code = Some (js ''x''), mo_certainty = NotSent\<rparr>"

theorem dispatch_outcome_supported_witness:
  "\<exists>s. dispatch_step (\<lambda>_. None) prepared_sample (Terminate_with sample_failure (js ''2026-01-01T00:00:01Z'')) = Inr s \<and> md_possiblySentAt s = None"
proof -
  have "\<exists>s. dispatch_step (\<lambda>_. None) prepared_sample (Terminate_with sample_failure (js ''2026-01-01T00:00:01Z'')) = Inr s \<and> md_terminalOutcome s = Some sample_failure"
    using dispatch_ok_valid [OF dispatch_prepared_ok(1) [OF sample_prepared]]
    by (simp add: terminate_Inr_dispatch) (simp add: prepared_sample_def sample_dispatch_def dispatch_input.defs
      sample_failure_def outcome_ok_def sample_blank)
  then obtain s where s: "dispatch_step (\<lambda>_. None) prepared_sample (Terminate_with sample_failure (js ''2026-01-01T00:00:01Z'')) = Inr s"
    "md_terminalOutcome s = Some sample_failure" by blast
  then have "apply_all (dispatch_step (\<lambda>_. None)) prepared_sample [Terminate_with sample_failure (js ''2026-01-01T00:00:01Z'')] = Inr s" by simp
  from dispatch_outcome_supported [OF sample_prepared this s(2)] s(1) show ?thesis by (simp add: sample_failure_def)
qed

theorem dispatch_evidence_durable_witness:
  "apply_all (dispatch_step (\<lambda>_. None)) prepared_sample [MarkSent (js ''2026-01-01T00:00:01Z''), MarkSent (js ''2026-01-01T00:00:01Z'')] = Inr sent_sample \<and> md_revision sent_sample \<le> 4"
proof -
  have "apply_all (dispatch_step (\<lambda>_. None)) prepared_sample [] = Inr prepared_sample" by simp
  from dispatch_evidence_durable [OF sample_prepared this sample_sent, of 1] show ?thesis by simp
qed

theorem dispatch_terminable_witness:
  "\<exists>bs u. length bs \<le> 2 \<and> apply_all (dispatch_step (\<lambda>_. None)) sent_sample bs = Inr u \<and> md_status u = Terminal"
proof -
  have "apply_all (dispatch_step (\<lambda>_. None)) prepared_sample [MarkSent (js ''2026-01-01T00:00:01Z'')] = Inr sent_sample" using sample_sent by simp
  moreover have "date_parse (\<lambda>_. None) (js ''2026-01-01T00:00:01Z'') \<noteq> None" by simp
  moreover have "\<not> is_blank (js ''x'')" by (rule sample_blank)
  ultimately show ?thesis using dispatch_terminable [OF sample_prepared _ _ sample_digest_ok] by blast
qed

end
