(* ===== verification/Automations.thy ===== *)
theory Automations
  imports Timestamps Run_Values Json_Text
begin

text \<open>
  Automations, \<open>automation.ts\<close>: a definition is a prompt and a schedule that a person writes and the server runs
  as an instruction to the model.  Definitions and schedules are parsed from dynamic values; the invocation binding a
  Run carries is in \<open>Run_Values\<close>.  Field prefixes \<open>sch\<close> and \<open>au\<close>.  The revision of a definition is always 1 and has
  no field.
\<close>

section \<open>Data\<close>

datatype schedule_type = Daily | Weekly | Interval | Once

record automation_schedule =
  sch_scheduleType :: schedule_type
  sch_nextRunAt :: js_string
  sch_intervalSeconds :: int
  sch_time :: js_string
  sch_weekday :: int
  sch_timezone :: js_string

datatype execution_mode = ManualOnly | Scheduled

record automation_definition =
  au_automationId :: js_string
  au_tenantId :: js_string
  au_spaceId :: js_string
  au_createdByPrincipalId :: "js_string option"
  au_createdByActorId :: js_string
  au_threadId :: js_string
  au_title :: js_string
  au_prompt :: js_string
  au_agentVersionId :: js_string
  au_schedule :: automation_schedule
  au_executionMode :: execution_mode
  au_createdAt :: js_string
  au_updatedAt :: js_string

definition schedule_type_text :: "schedule_type \<Rightarrow> string" where
  "schedule_type_text t = (case t of Daily \<Rightarrow> ''daily'' | Weekly \<Rightarrow> ''weekly'' | Interval \<Rightarrow> ''interval'' | Once \<Rightarrow> ''once'')"

definition execution_mode_text :: "execution_mode \<Rightarrow> string" where
  "execution_mode_text m = (case m of ManualOnly \<Rightarrow> ''manualOnly'' | Scheduled \<Rightarrow> ''scheduled'')"

section \<open>Fields\<close>

definition automation_error :: "string \<Rightarrow> 'a res" where
  "automation_error code = Inl (AutomationDefinitionError code)"

definition au_throw_if :: "bool \<Rightarrow> string \<Rightarrow> check" where
  "au_throw_if b code = throw_if b (AutomationDefinitionError code)"

definition au_object_checks :: "json \<Rightarrow> string list \<Rightarrow> string \<Rightarrow> check list" where
  "au_object_checks v ks code = [au_throw_if (\<not> is_plain_object v) code, au_throw_if (\<not> has_exact_keys v ks) code]"

definition requireBoundedText :: "json option \<Rightarrow> nat \<Rightarrow> string \<Rightarrow> js_string res" where
  "requireBoundedText v maximumBytes code = (case v of
     Some (JStr s) \<Rightarrow> if is_blank s \<or> maximumBytes < utf8_length s \<or> list_ex is_forbidden_unit s
       then automation_error code else Inr s
   | _ \<Rightarrow> automation_error code)"

text \<open>The date a time shows in UTC, field by field, without its milliseconds.\<close>

definition utc_date :: "int \<Rightarrow> int list" where
  "utc_date ms = (let n = ms div ms_per_day; r = ms mod ms_per_day; y = year_from_day n; k = n - day_from_year y;
       m = month_from_day y k in
     [y, m, k - month_start y m + 1, r div 3600000, r div 60000 mod 60, r div 1000 mod 60])"

definition written_date :: "iso_date \<Rightarrow> int list" where
  "written_date f = [iso_year f, iso_month f, iso_day f, iso_hour f, iso_minute f, iso_second f]"

definition automation_timestamp :: "json option \<Rightarrow> string \<Rightarrow> js_string res" where
  "automation_timestamp v code = (case v of
     Some (JStr s) \<Rightarrow> (case (iso_fields s, iso_time s) of
        (Some f, Some ms) \<Rightarrow> if 3 < length (iso_frac f) \<or> utc_date ms \<noteq> written_date f then automation_error code else Inr s
      | _ \<Rightarrow> automation_error code)
   | _ \<Rightarrow> automation_error code)"

section \<open>Schedules\<close>

definition schedule_type_of :: "json option \<Rightarrow> schedule_type option" where
  "schedule_type_of v = find (\<lambda>t. v = Some (JStr (js (schedule_type_text t)))) [Daily, Weekly, Interval, Once]"

text \<open>\<open>/^([01]\d|2[0-3]):[0-5]\d$/\<close>\<close>

definition matches_time :: "js_string \<Rightarrow> bool" where
  "matches_time s = (case s of
     [h, i, c, m, n] \<Rightarrow> ((h = 48 \<or> h = 49) \<and> is_digit i \<or> h = 50 \<and> 48 \<le> i \<and> i \<le> 51) \<and> c = 58 \<and> 48 \<le> m \<and> m \<le> 53 \<and> is_digit n
   | _ \<Rightarrow> False)"

definition integer_within :: "json option \<Rightarrow> int \<Rightarrow> bool" where
  "integer_within v n = (case safe_integer_value v of None \<Rightarrow> False | Some i \<Rightarrow> 0 \<le> i \<and> i \<le> n)"

definition time_value :: "json option \<Rightarrow> js_string option" where
  "time_value v = (case v of Some (JStr s) \<Rightarrow> if matches_time s then Some s else None | _ \<Rightarrow> None)"

definition schedule_bad :: "json \<Rightarrow> bool" where
  "schedule_bad v \<longleftrightarrow> schedule_type_of (get_prop v ''scheduleType'') = None
     \<or> \<not> integer_within (get_prop v ''intervalSeconds'') (366 * 24 * 60 * 60)
     \<or> \<not> integer_within (get_prop v ''weekday'') 6
     \<or> time_value (get_prop v ''time'') = None
     \<or> schedule_type_of (get_prop v ''scheduleType'') = Some Interval
       \<and> the (safe_integer_value (get_prop v ''intervalSeconds'')) < 5 * 60"

definition parseAutomationSchedule :: "json \<Rightarrow> automation_schedule res" where
  "parseAutomationSchedule v = guarded
     (au_object_checks v [''intervalSeconds'', ''nextRunAt'', ''scheduleType'', ''time'', ''timezone'', ''weekday''] ''automation_schedule_invalid''
      @ [au_throw_if (schedule_bad v) ''automation_schedule_invalid''])
     (then_do (automation_timestamp (get_prop v ''nextRunAt'') ''automation_next_run_at_invalid'') (\<lambda>nextRunAt.
      then_do (requireBoundedText (get_prop v ''timezone'') 256 ''automation_schedule_invalid'') (\<lambda>timezone.
        Inr \<lparr>sch_scheduleType = the (schedule_type_of (get_prop v ''scheduleType'')), sch_nextRunAt = nextRunAt,
          sch_intervalSeconds = the (safe_integer_value (get_prop v ''intervalSeconds'')),
          sch_time = the (time_value (get_prop v ''time'')),
          sch_weekday = the (safe_integer_value (get_prop v ''weekday'')), sch_timezone = timezone\<rparr>)))"

definition schedule_value :: "automation_schedule \<Rightarrow> json" where
  "schedule_value s = js_object [(''scheduleType'', JStr (js (schedule_type_text (sch_scheduleType s)))),
     (''nextRunAt'', JStr (sch_nextRunAt s)), (''intervalSeconds'', JNum (Whole (sch_intervalSeconds s))),
     (''time'', JStr (sch_time s)), (''weekday'', JNum (Whole (sch_weekday s))), (''timezone'', JStr (sch_timezone s))]"

section \<open>The instruction\<close>

definition xmlEscape :: "js_string \<Rightarrow> js_string" where
  "xmlEscape s = replace_all 39 (js ''&apos;'') (replace_all 34 (js ''&quot;'') (replace_all 62 (js ''&gt;'')
     (replace_all 60 (js ''&lt;'') (replace_all 38 (js ''&amp;'') s))))"

definition renderAutomationInstructionUnchecked :: "automation_definition \<Rightarrow> js_string" where
  "renderAutomationInstructionUnchecked d = join_with 10
     [js ''<automation_run automation_id=\"'' @ xmlEscape (au_automationId d) @ js ''\" automation_revision=\"'' @ int_text 1 @ js ''\">'',
      js ''<title>'' @ xmlEscape (au_title d) @ js ''</title>'',
      js ''<task>'' @ xmlEscape (au_prompt d) @ js ''</task>'',
      js ''Record the result, next steps, and risks in this Automation result thread.'',
      js ''</automation_run>'']"

section \<open>Definitions\<close>

definition execution_mode_of :: "json option \<Rightarrow> execution_mode option" where
  "execution_mode_of v = find (\<lambda>m. v = Some (JStr (js (execution_mode_text m)))) [ManualOnly, Scheduled]"

definition definition_header_bad :: "json \<Rightarrow> bool" where
  "definition_header_bad v \<longleftrightarrow> get_prop v ''schemaVersion'' \<noteq> Some (JStr (js ''crewon.automation.v0''))
     \<or> execution_mode_of (get_prop v ''executionMode'') = None \<or> get_prop v ''revision'' \<noteq> Some (JNum (Whole 1))"

definition principal_value :: "json \<Rightarrow> js_string option res" where
  "principal_value v = (if get_prop v ''createdByPrincipalId'' = None then Inr None
     else then_do (require_opaque_id_value (get_prop v ''createdByPrincipalId'') ''automation_principal_id_invalid'') (\<lambda>p. Inr (Some p)))"

definition definition_state_keys :: "json \<Rightarrow> string list" where
  "definition_state_keys v = [''agentVersionId'', ''automationId'', ''createdAt'', ''createdByActorId'']
     @ (if get_prop v ''createdByPrincipalId'' = None then [] else [''createdByPrincipalId''])
     @ [''executionMode'', ''prompt'', ''revision'', ''schedule'', ''schemaVersion'', ''spaceId'', ''tenantId'', ''threadId'',
        ''title'', ''updatedAt'']"

definition parseAutomationDefinition :: "json \<Rightarrow> automation_definition res" where
  "parseAutomationDefinition v = guarded
     (au_object_checks v (definition_state_keys v) ''automation_state_invalid''
      @ [au_throw_if (definition_header_bad v) ''automation_state_invalid''])
     (then_do (require_opaque_id_value (get_prop v ''automationId'') ''automation_id_invalid'') (\<lambda>automationId.
      then_do (require_opaque_id_value (get_prop v ''tenantId'') ''automation_tenant_id_invalid'') (\<lambda>tenantId.
      then_do (require_opaque_id_value (get_prop v ''spaceId'') ''automation_space_id_invalid'') (\<lambda>spaceId.
      then_do (require_opaque_id_value (get_prop v ''createdByActorId'') ''automation_actor_id_invalid'') (\<lambda>actorId.
      then_do (principal_value v) (\<lambda>principalId.
      then_do (require_opaque_id_value (get_prop v ''threadId'') ''automation_thread_id_invalid'') (\<lambda>threadId.
      then_do (requireBoundedText (get_prop v ''title'') 256 ''automation_title_invalid'') (\<lambda>title.
      then_do (requireBoundedText (get_prop v ''prompt'') max_automation_instruction_bytes ''automation_prompt_invalid'') (\<lambda>prompt.
      then_do (require_opaque_id_value (get_prop v ''agentVersionId'') ''automation_agent_version_id_invalid'') (\<lambda>agentVersionId.
      then_do (parseAutomationSchedule (prop_of v ''schedule'')) (\<lambda>schedule.
      then_do (automation_timestamp (get_prop v ''createdAt'') ''automation_created_at_invalid'') (\<lambda>createdAt.
      then_do (automation_timestamp (get_prop v ''updatedAt'') ''automation_updated_at_invalid'') (\<lambda>updatedAt.
      let d = \<lparr>au_automationId = automationId, au_tenantId = tenantId, au_spaceId = spaceId, au_createdByPrincipalId = principalId,
           au_createdByActorId = actorId, au_threadId = threadId, au_title = title, au_prompt = prompt,
           au_agentVersionId = agentVersionId, au_schedule = schedule,
           au_executionMode = the (execution_mode_of (get_prop v ''executionMode'')), au_createdAt = createdAt, au_updatedAt = updatedAt\<rparr> in
      guarded [au_throw_if (createdAt \<noteq> updatedAt) ''automation_state_invalid'',
          au_throw_if (max_automation_instruction_bytes < utf8_length (renderAutomationInstructionUnchecked d)) ''automation_instruction_too_large'']
        (Inr d))))))))))))))"

definition optional_entry :: "string \<Rightarrow> json option \<Rightarrow> (string \<times> json) list" where
  "optional_entry k v = (case v of None \<Rightarrow> [] | Some x \<Rightarrow> [(k, x)])"

definition automation_value :: "automation_definition \<Rightarrow> json" where
  "automation_value d = js_object ([(''schemaVersion'', JStr (js ''crewon.automation.v0'')), (''automationId'', JStr (au_automationId d)),
       (''tenantId'', JStr (au_tenantId d)), (''spaceId'', JStr (au_spaceId d))]
     @ optional_entry ''createdByPrincipalId'' (map_option JStr (au_createdByPrincipalId d))
     @ [(''createdByActorId'', JStr (au_createdByActorId d)), (''threadId'', JStr (au_threadId d)), (''title'', JStr (au_title d)),
        (''prompt'', JStr (au_prompt d)), (''agentVersionId'', JStr (au_agentVersionId d)),
        (''schedule'', schedule_value (au_schedule d)),
        (''executionMode'', JStr (js (execution_mode_text (au_executionMode d)))), (''revision'', JNum (Whole 1)),
        (''createdAt'', JStr (au_createdAt d)), (''updatedAt'', JStr (au_updatedAt d))])"

definition renderAutomationInstruction :: "automation_definition \<Rightarrow> js_string res" where
  "renderAutomationInstruction d = then_do (parseAutomationDefinition (automation_value d)) (\<lambda>parsed.
     Inr (renderAutomationInstructionUnchecked parsed))"

definition definition_input_keys :: "json \<Rightarrow> string list" where
  "definition_input_keys v = (if get_prop v ''executionMode'' = None \<and> get_prop v ''createdByPrincipalId'' = None
     then [''agentVersionId'', ''automationId'', ''createdAt'', ''createdByActorId'', ''prompt'', ''schedule'', ''spaceId'', ''tenantId'',
       ''threadId'', ''title'']
     else [''agentVersionId'', ''automationId'', ''createdAt'', ''createdByActorId'']
       @ (if get_prop v ''createdByPrincipalId'' = None then [] else [''createdByPrincipalId''])
       @ (if get_prop v ''executionMode'' = None then [] else [''executionMode''])
       @ [''prompt'', ''schedule'', ''spaceId'', ''tenantId'', ''threadId'', ''title''])"

definition execution_mode_input :: "json \<Rightarrow> json" where
  "execution_mode_input v = (case get_prop v ''executionMode'' of None \<Rightarrow> JStr (js ''manualOnly'')
     | Some x \<Rightarrow> if x = JNull then JStr (js ''manualOnly'') else x)"

definition createAutomationDefinition :: "json \<Rightarrow> automation_definition res" where
  "createAutomationDefinition v = guarded (au_object_checks v (definition_input_keys v) ''automation_definition_input_invalid'')
     (then_do (automation_timestamp (get_prop v ''createdAt'') ''automation_created_at_invalid'') (\<lambda>createdAt.
      parseAutomationDefinition (js_object ([(''schemaVersion'', JStr (js ''crewon.automation.v0'')),
          (''automationId'', prop_of v ''automationId''), (''tenantId'', prop_of v ''tenantId''), (''spaceId'', prop_of v ''spaceId'')]
        @ optional_entry ''createdByPrincipalId'' (get_prop v ''createdByPrincipalId'')
        @ [(''createdByActorId'', prop_of v ''createdByActorId''), (''threadId'', prop_of v ''threadId''), (''title'', prop_of v ''title''),
           (''prompt'', prop_of v ''prompt''), (''agentVersionId'', prop_of v ''agentVersionId''), (''schedule'', prop_of v ''schedule''),
           (''executionMode'', execution_mode_input v), (''revision'', JNum (Whole 1)),
           (''createdAt'', JStr createdAt), (''updatedAt'', JStr createdAt)]))))"


section \<open>Escaped text\<close>

definition xml_unit :: "nat \<Rightarrow> js_string" where
  "xml_unit u = (if u = 38 then js ''&amp;'' else if u = 60 then js ''&lt;'' else if u = 62 then js ''&gt;''
     else if u = 34 then js ''&quot;'' else if u = 39 then js ''&apos;'' else [u])"

lemma replace_all_append: "replace_all c t (a @ b) = replace_all c t a @ replace_all c t b"
  by (simp add: replace_all_def)

lemma replace_all_absent: "c \<notin> set s \<Longrightarrow> replace_all c t s = s"
  by (induction s) (simp_all add: replace_all_def)

text \<open>The five replacements in sequence are one pass.\<close>

lemma xmlEscape_units: "xmlEscape s = concat (map xml_unit s)"
proof (induction s)
  case (Cons u s)
  have "xmlEscape (u # s) = xmlEscape [u] @ xmlEscape s"
    using replace_all_append [of _ _ "[_]"] by (simp add: xmlEscape_def replace_all_append replace_all_def)
  moreover have "xmlEscape [u] = xml_unit u"
    by (simp add: xmlEscape_def xml_unit_def replace_all_def js_def)
  ultimately show ?case using Cons by simp
qed (simp add: xmlEscape_def replace_all_def)

lemma xml_unit_safe: "c \<in> {60, 62, 34, 39} \<Longrightarrow> c \<notin> set (xml_unit u)"
  by (auto simp: xml_unit_def js_def)

lemma xmlEscape_safe: "c \<in> {60, 62, 34, 39} \<Longrightarrow> c \<notin> set (xmlEscape s)"
  using xml_unit_safe by (auto simp: xmlEscape_units)

text \<open>No escaped unit is the beginning of another, so an escaped text says what was escaped.\<close>

lemma xml_unit_prefix: "xml_unit u @ s = xml_unit v @ t \<Longrightarrow> u = v \<and> s = t"
  by (auto simp: xml_unit_def js_def split: if_splits)

lemma xml_unit_not_Nil: "xml_unit u \<noteq> []"
  by (simp add: xml_unit_def js_def)

lemma xmlEscape_inject: "xmlEscape s = xmlEscape t \<Longrightarrow> s = t"
proof (induction s arbitrary: t)
  case Nil
  then show ?case using xml_unit_not_Nil by (cases t) (auto simp: xmlEscape_units)
next
  case (Cons u s)
  then obtain v r where t: "t = v # r" using xml_unit_not_Nil by (cases t) (auto simp: xmlEscape_units)
  with Cons.prems have "xml_unit u @ xmlEscape s = xml_unit v @ xmlEscape r" by (simp add: xmlEscape_units)
  from xml_unit_prefix [OF this] Cons.IH [of r] show ?case by (simp add: t)
qed

lemma split_at_absent: "c \<notin> set a \<Longrightarrow> c \<notin> set b \<Longrightarrow> a @ c # r = b @ c # q \<Longrightarrow> a = b \<and> r = q"
proof (induction a arbitrary: b)
  case Nil
  then show ?case by (cases b) auto
next
  case (Cons u a)
  then show ?case by (cases b) auto
qed

text \<open>The parts of an instruction.\<close>

lemma instruction_shape: "renderAutomationInstructionUnchecked d = js ''<automation_run automation_id=\"'' @ xmlEscape (au_automationId d)
    @ 34 # (js '' automation_revision=\"1\">'' @ 10 # js ''<title>'') @ xmlEscape (au_title d)
    @ 60 # (js ''/title>'' @ 10 # js ''<task>'') @ xmlEscape (au_prompt d)
    @ 60 # js ''/task>'' @ 10 # js ''Record the result, next steps, and risks in this Automation result thread.'' @ 10 # js ''</automation_run>''"
  by (simp add: renderAutomationInstructionUnchecked_def js_def int_text_def nat_text.simps)

lemma instruction_inject:
  assumes "renderAutomationInstructionUnchecked d = renderAutomationInstructionUnchecked e"
  shows "au_automationId d = au_automationId e \<and> au_title d = au_title e \<and> au_prompt d = au_prompt e"
proof -
  have q: "34 \<notin> set (xmlEscape s)" and l: "60 \<notin> set (xmlEscape s)" for s by (simp_all add: xmlEscape_safe)
  note r = assms [unfolded instruction_shape same_append_eq]
  note a = split_at_absent [OF q q r]
  note b = split_at_absent [OF l l a [THEN conjunct2, unfolded same_append_eq]]
  note c = split_at_absent [OF l l b [THEN conjunct2, unfolded same_append_eq]]
  from a b c show ?thesis using xmlEscape_inject by blast
qed

lemma instruction_tags: "count_list (renderAutomationInstructionUnchecked d) 60 = 6"
proof -
  have z: "count_list (xmlEscape s) 60 = 0" for s using xmlEscape_safe [of 60 s] by (simp add: count_list_0_iff)
  have n: "count_list (int_text 1) 60 = 0" by (simp add: int_text_def nat_text.simps)
  show ?thesis by (simp add: renderAutomationInstructionUnchecked_def z n js_def)
qed

section \<open>Dates\<close>

definition month_length :: "int \<Rightarrow> int \<Rightarrow> int" where
  "month_length y m = (if m = 2 then (if is_leap y then 29 else 28) else if m \<in> {4, 6, 9, 11} then 30 else 31)"

definition real_date :: "iso_date \<Rightarrow> bool" where
  "real_date f \<longleftrightarrow> 1 \<le> iso_month f \<and> iso_month f \<le> 12 \<and> 1 \<le> iso_day f \<and> iso_day f \<le> month_length (iso_year f) (iso_month f)
     \<and> iso_hour f \<le> 23 \<and> iso_minute f \<le> 59 \<and> iso_second f \<le> 59"

text \<open>The month that contains a day, and the day within it.\<close>

lemma month_from_day_length:
  assumes "0 \<le> k" and "k < year_length y"
  shows "k - month_start y (month_from_day y k) < month_length y (month_from_day y k)"
proof -
  define l where "l = (if is_leap y then 1 else 0 :: int)"
  have l: "0 \<le> l" "l \<le> 1" "k < 365 + l" "month_length y 2 = 28 + l"
    using assms by (auto simp: l_def year_length_def month_length_def)
  have e: "[1..12] = [1, 2, 3, 4, 5, 6, 7, 8, 9, 10, 11, 12 :: int]"
    by (simp add: upto.simps)
  note evaluate = month_from_day_def e month_starts [of y, folded l_def]
  consider "k < 31" | "31 \<le> k" "k < 59 + l" | "59 + l \<le> k" "k < 90 + l" | "90 + l \<le> k" "k < 120 + l"
    | "120 + l \<le> k" "k < 151 + l" | "151 + l \<le> k" "k < 181 + l" | "181 + l \<le> k" "k < 212 + l"
    | "212 + l \<le> k" "k < 243 + l" | "243 + l \<le> k" "k < 273 + l" | "273 + l \<le> k" "k < 304 + l"
    | "304 + l \<le> k" "k < 334 + l" | "334 + l \<le> k"
    by linarith
  then show ?thesis
    by cases (use assms(1) l in \<open>simp_all add: evaluate\<close>, simp_all add: month_length_def)
qed

lemma month_from_day_start:
  assumes "1 \<le> m" and "m \<le> 12" and "0 \<le> j" and "j < month_length y m"
  shows "month_from_day y (month_start y m + j) = m" "month_start y m + j < year_length y"
proof -
  define l where "l = (if is_leap y then 1 else 0 :: int)"
  have l: "0 \<le> l" "l \<le> 1" "month_length y 2 = 28 + l" "year_length y = 365 + l"
    by (auto simp: l_def year_length_def month_length_def)
  have e: "[1..12] = [1, 2, 3, 4, 5, 6, 7, 8, 9, 10, 11, 12 :: int]"
    by (simp add: upto.simps)
  note evaluate = month_from_day_def e month_starts [of y, folded l_def] l(4)
  have "m = 1 \<or> m = 2 \<or> m = 3 \<or> m = 4 \<or> m = 5 \<or> m = 6 \<or> m = 7 \<or> m = 8 \<or> m = 9 \<or> m = 10 \<or> m = 11 \<or> m = 12"
    using assms(1,2) by presburger
  then have "month_from_day y (month_start y m + j) = m \<and> month_start y m + j < year_length y"
    by (elim disjE; use assms(3,4) l in \<open>simp add: evaluate\<close>; (simp add: month_length_def)?)
  then show "month_from_day y (month_start y m + j) = m" "month_start y m + j < year_length y" by simp_all
qed

lemma year_from_day_unique: "day_from_year y \<le> n \<Longrightarrow> n < day_from_year (y + 1) \<Longrightarrow> year_from_day n = y"
  using year_from_day_bounds [of n] day_from_year_mono [of "y + 1" "year_from_day n"] day_from_year_mono [of "year_from_day n + 1" y]
  by (cases "year_from_day n" y rule: linorder_cases) simp_all

text \<open>The year, the month and the day of the day number of a written date are those written iff the date exists.\<close>

lemma civil_date:
  assumes "1 \<le> m" and "m \<le> 12" and "1 \<le> d" and "n = day_number y m d"
  defines "k \<equiv> n - day_from_year (year_from_day n)"
  shows "year_from_day n = y \<and> month_from_day y k = m \<and> k - month_start y m + 1 = d \<longleftrightarrow> d \<le> month_length y m"
proof
  assume "d \<le> month_length y m"
  with assms(1-3) have s: "month_from_day y (month_start y m + (d - 1)) = m" "month_start y m + (d - 1) < year_length y"
    by (simp_all add: month_from_day_start)
  moreover have "0 \<le> month_start y m + (d - 1)" using month_start_nonneg [OF assms(1,2), of y] assms(3) by simp
  ultimately have "year_from_day n = y"
    using day_from_year_step [of y] by (intro year_from_day_unique) (simp_all add: assms(4) day_number_def year_length_def)
  with s(1) show "year_from_day n = y \<and> month_from_day y k = m \<and> k - month_start y m + 1 = d"
    by (simp add: k_def assms(4) day_number_def)
next
  assume c: "year_from_day n = y \<and> month_from_day y k = m \<and> k - month_start y m + 1 = d"
  have "0 \<le> k" "k < year_length y"
    using year_from_day_bounds [of n] c day_from_year_step [of y] by (auto simp: k_def year_length_def)
  from month_from_day_length [OF this] c show "d \<le> month_length y m" by simp
qed

lemma decimal_value_less: "list_all is_digit s \<Longrightarrow> 0 \<le> a \<Longrightarrow> decimal_value a s < (a + 1) * 10 ^ length s"
proof (induction s arbitrary: a)
  case (Cons u s)
  then have "digit_value u \<le> 9" "0 \<le> digit_value u" by (simp_all add: is_digit_def digit_value_def)
  with Cons.IH [of "10 * a + digit_value u"] Cons.prems have "decimal_value a (u # s) < (10 * a + digit_value u + 1) * 10 ^ length s" by simp
  also have "\<dots> \<le> (10 * a + 10) * 10 ^ length s" using \<open>digit_value u \<le> 9\<close> by (intro mult_right_mono) simp_all
  finally show ?case by (simp add: algebra_simps)
qed simp

lemma short_fraction: "list_all is_digit ds \<Longrightarrow> length ds \<le> 3 \<Longrightarrow> 0 \<le> fraction_ms ds \<and> fraction_ms ds < 1000"
proof -
  assume d: "list_all is_digit ds" "length ds \<le> 3"
  define es where "es = take 9 (dropWhile (\<lambda>u. u = 48) ds)"
  have es: "list_all is_digit es" "length es \<le> length ds"
    using d length_dropWhile_le [of "\<lambda>u. u = 48" ds] by (auto simp: es_def list_all_iff dest!: in_set_takeD set_dropWhileD)
  have "decimal_value 0 es < 10 ^ length es" using decimal_value_less [OF es(1), of 0] by simp
  also have "\<dots> \<le> 10 ^ length ds" using es(2) by (intro power_increasing) simp_all
  finally have "decimal_value 0 es < 10 ^ length ds" .
  moreover have "length ds = 0 \<or> length ds = 1 \<or> length ds = 2 \<or> length ds = 3" using d(2) by linarith
  ultimately show ?thesis using fraction_ms_nonneg [OF d(1)] by (auto simp: fraction_ms_def Let_def es_def [symmetric])
qed

lemma utc_time:
  fixes N h mi s fr :: int
  assumes "0 \<le> h" "h \<le> 23" "0 \<le> mi" "mi \<le> 59" "0 \<le> s" "s \<le> 59" "0 \<le> fr" "fr < 1000"
    and "t = ms_per_day * N + 3600000 * h + 60000 * mi + 1000 * s + fr"
  shows "t div ms_per_day = N" "t mod ms_per_day div 3600000 = h" "t mod ms_per_day div 60000 mod 60 = mi"
    "t mod ms_per_day div 1000 mod 60 = s"
proof -
  define r where "r = 3600000 * h + 60000 * mi + 1000 * s + fr"
  have r: "0 \<le> r" "r < ms_per_day" using assms(1-8) by (simp_all add: r_def ms_per_day_def)
  have t: "t = ms_per_day * N + r" by (simp add: assms(9) r_def)
  show "t div ms_per_day = N" using r by (simp add: t)
  have m: "t mod ms_per_day = r" using r by (simp add: t)
  have "r = 3600000 * h + (60000 * mi + 1000 * s + fr)" by (simp add: r_def)
  then show "t mod ms_per_day div 3600000 = h" unfolding m using assms(3-8) by simp
  have "r = 60000 * (60 * h + mi) + (1000 * s + fr)" by (simp add: r_def)
  then have "r div 60000 = 60 * h + mi" using assms(5-8) by simp
  then show "t mod ms_per_day div 60000 mod 60 = mi" unfolding m using assms(3,4) by simp
  have "r = 1000 * (60 * (60 * h + mi) + s) + fr" by (simp add: r_def)
  then have d: "r div 1000 = 60 * (60 * h + mi) + s" using assms(7,8) by simp
  have "(60 * x + s) mod 60 = s" for x using assms(5,6) by simp
  then show "t mod ms_per_day div 1000 mod 60 = s" unfolding m d by this
qed

lemma shown_as_written:
  assumes "iso_fields s = Some f" and "iso_valid f" and "length (iso_frac f) \<le> 3"
  shows "utc_date (iso_value f) = written_date f \<longleftrightarrow> real_date f"
proof (cases "iso_hour f \<le> 23")
  case True
  note n = iso_fields_nonneg [OF assms(1)]
  have v: "1 \<le> iso_month f" "iso_month f \<le> 12" "1 \<le> iso_day f" "iso_minute f \<le> 59" "iso_second f \<le> 59"
    using assms(2) by (auto simp: iso_valid_def)
  note t = utc_time [OF n(2) True n(3) v(4) n(4) v(5), of "fraction_ms (iso_frac f)" "iso_value f"
      "day_number (iso_year f) (iso_month f) (iso_day f)"]
  define N where "N = day_number (iso_year f) (iso_month f) (iso_day f)"
  have e: "iso_value f = ms_per_day * N + 3600000 * iso_hour f + 60000 * iso_minute f + 1000 * iso_second f + fraction_ms (iso_frac f)"
    by (simp add: iso_value_def N_def)
  note t = utc_time [OF n(2) True n(3) v(4) n(4) v(5) short_fraction [OF n(5) assms(3), THEN conjunct1]
      short_fraction [OF n(5) assms(3), THEN conjunct2] e]
  have "utc_date (iso_value f) = written_date f \<longleftrightarrow> iso_day f \<le> month_length (iso_year f) (iso_month f)"
    unfolding civil_date [OF v(1-3) N_def, symmetric] utc_date_def written_date_def Let_def t by auto
  then show ?thesis using v True by (simp add: real_date_def)
next
  case False
  have "iso_value f mod ms_per_day div 3600000 \<le> 23"
    using zdiv_mono1 [of "iso_value f mod ms_per_day" 86399999 3600000] pos_mod_bound [of ms_per_day "iso_value f"] by (simp add: ms_per_day_def)
  then show ?thesis using False by (auto simp: utc_date_def written_date_def Let_def real_date_def)
qed

definition calendar_timestamp :: "js_string \<Rightarrow> bool" where
  "calendar_timestamp s \<longleftrightarrow> (\<exists>f. iso_fields s = Some f \<and> length (iso_frac f) \<le> 3 \<and> real_date f)"

text \<open>A timestamp is accepted iff it names a day of the calendar and a time of that day.\<close>

lemma automation_timestamp_Inr: "automation_timestamp v code = Inr s \<longleftrightarrow> v = Some (JStr s) \<and> calendar_timestamp s"
proof -
  have "iso_valid f" if "real_date f" for f
    using that by (auto simp: real_date_def iso_valid_def month_length_def split: if_splits)
  then have "automation_timestamp (Some (JStr s)) code = Inr s \<longleftrightarrow> calendar_timestamp s" for s
    using shown_as_written [of s]
    by (cases "iso_fields s") (auto simp: automation_timestamp_def calendar_timestamp_def iso_time_def automation_error_def)
  moreover have "automation_timestamp v code = Inr s \<Longrightarrow> v = Some (JStr s)"
    by (auto simp: automation_timestamp_def automation_error_def split: option.splits json.splits if_splits)
  ultimately show ?thesis by auto
qed

section \<open>Accepted values\<close>

lemma automation_errors [simp]: "automation_error code \<noteq> Inr x" "au_throw_if b code = None \<longleftrightarrow> \<not> b"
  by (simp_all add: automation_error_def au_throw_if_def)

lemma opaque_id_value_Inr: "require_opaque_id_value v code = Inr s \<longleftrightarrow> v = Some (JStr s) \<and> matches_opaque_id 511 s"
  by (auto simp: require_opaque_id_value_def split: option.splits json.splits)

definition instruction_text_ok :: "nat \<Rightarrow> js_string \<Rightarrow> bool" where
  "instruction_text_ok n s \<longleftrightarrow> \<not> is_blank s \<and> utf8_length s \<le> n \<and> \<not> list_ex is_forbidden_unit s"

lemma bounded_text_Inr: "requireBoundedText v n code = Inr s \<longleftrightarrow> v = Some (JStr s) \<and> instruction_text_ok n s"
  by (auto simp: requireBoundedText_def instruction_text_ok_def split: option.splits json.splits)

lemma text_inject [simp]: "schedule_type_text s = schedule_type_text t \<longleftrightarrow> s = t"
    "execution_mode_text m = execution_mode_text n \<longleftrightarrow> m = n"
  by (cases s; cases t; simp add: schedule_type_text_def) (cases m; cases n; simp add: execution_mode_text_def)

lemma schedule_type_Some: "schedule_type_of v = Some t \<longleftrightarrow> v = Some (JStr (js (schedule_type_text t)))"
  by (cases t) (auto simp: schedule_type_of_def schedule_type_text_def)

lemma execution_mode_Some: "execution_mode_of v = Some m \<longleftrightarrow> v = Some (JStr (js (execution_mode_text m)))"
  by (cases m) (auto simp: execution_mode_of_def execution_mode_text_def)

lemma time_value_Some: "time_value v = Some s \<longleftrightarrow> v = Some (JStr s) \<and> matches_time s"
  by (auto simp: time_value_def split: option.splits json.splits)

lemma safe_integer_value_Some: "safe_integer_value v = Some i \<longleftrightarrow> v = Some (JNum (Whole i)) \<and> is_safe_integer i"
  by (auto simp: safe_integer_value_def split: option.splits json.splits js_number.splits)

lemma integer_within_iff: "n \<le> max_safe_integer \<Longrightarrow> integer_within v n \<longleftrightarrow> (\<exists>i. v = Some (JNum (Whole i)) \<and> 0 \<le> i \<and> i \<le> n)"
  by (auto simp: integer_within_def safe_integer_value_def is_safe_integer_def split: option.splits json.splits js_number.splits)

lemma get_prop_absent: "has_exact_keys v ks \<Longrightarrow> k \<notin> set ks \<Longrightarrow> get_prop v k = None"
  using has_exact_keys_set [of v ks] by (cases v) (auto simp: get_prop_def own_keys_def map_of_eq_None_iff)

definition schedule_ok :: "automation_schedule \<Rightarrow> bool" where
  "schedule_ok s \<longleftrightarrow> calendar_timestamp (sch_nextRunAt s) \<and> 0 \<le> sch_intervalSeconds s \<and> sch_intervalSeconds s \<le> 31622400
     \<and> (sch_scheduleType s = Interval \<longrightarrow> 300 \<le> sch_intervalSeconds s) \<and> matches_time (sch_time s)
     \<and> 0 \<le> sch_weekday s \<and> sch_weekday s \<le> 6 \<and> instruction_text_ok 256 (sch_timezone s)"

abbreviation schedule_keys :: "string list" where
  "schedule_keys \<equiv> [''intervalSeconds'', ''nextRunAt'', ''scheduleType'', ''time'', ''timezone'', ''weekday'']"

lemma schedule_Inr: "parseAutomationSchedule v = Inr s \<longleftrightarrow> is_plain_object v \<and> has_exact_keys v schedule_keys \<and> schedule_ok s
    \<and> (\<forall>k\<in>set schedule_keys. get_prop v k = get_prop (schedule_value s) k)"
proof -
  have n: "(31622400 :: int) \<le> max_safe_integer" "(6 :: int) \<le> max_safe_integer" by (simp_all add: max_safe_integer_def)
  have good: "\<not> schedule_bad v \<longleftrightarrow> (\<exists>t i w x. get_prop v ''scheduleType'' = Some (JStr (js (schedule_type_text t)))
      \<and> get_prop v ''intervalSeconds'' = Some (JNum (Whole i)) \<and> 0 \<le> i \<and> i \<le> 31622400 \<and> (t = Interval \<longrightarrow> 300 \<le> i)
      \<and> get_prop v ''weekday'' = Some (JNum (Whole w)) \<and> 0 \<le> w \<and> w \<le> 6 \<and> get_prop v ''time'' = Some (JStr x) \<and> matches_time x)"
    using n by (auto simp: schedule_bad_def integer_within_iff schedule_type_Some time_value_Some is_safe_integer_def
        safe_integer_value_def not_less)
  show ?thesis
  proof
    assume p: "parseAutomationSchedule v = Inr s"
    then have "\<not> schedule_bad v" by (simp add: parseAutomationSchedule_def first_throw_append_None)
    then obtain t i w x where g: "get_prop v ''scheduleType'' = Some (JStr (js (schedule_type_text t)))"
      "get_prop v ''intervalSeconds'' = Some (JNum (Whole i))" "0 \<le> i" "i \<le> 31622400" "t = Interval \<longrightarrow> 300 \<le> i"
      "get_prop v ''weekday'' = Some (JNum (Whole w))" "0 \<le> w" "w \<le> 6" "get_prop v ''time'' = Some (JStr x)" "matches_time x"
      using good by blast
    have r: "schedule_type_of (get_prop v ''scheduleType'') = Some t" "safe_integer_value (get_prop v ''intervalSeconds'') = Some i"
      "safe_integer_value (get_prop v ''weekday'') = Some w" "time_value (get_prop v ''time'') = Some x"
      using g n by (simp_all add: schedule_type_Some safe_integer_value_Some time_value_Some is_safe_integer_def)
    from p g show "is_plain_object v \<and> has_exact_keys v schedule_keys \<and> schedule_ok s
        \<and> (\<forall>k\<in>set schedule_keys. get_prop v k = get_prop (schedule_value s) k)"
      by (auto simp: parseAutomationSchedule_def first_throw_append_None au_object_checks_def r [unfolded g(1,2,6,9)] automation_timestamp_Inr
          bounded_text_Inr schedule_ok_def schedule_value_def)
  next
    assume a: "is_plain_object v \<and> has_exact_keys v schedule_keys \<and> schedule_ok s
        \<and> (\<forall>k\<in>set schedule_keys. get_prop v k = get_prop (schedule_value s) k)"
    then have "\<not> schedule_bad v" unfolding good by (auto simp: schedule_value_def schedule_ok_def)
    moreover have r: "schedule_type_of (get_prop v ''scheduleType'') = Some (sch_scheduleType s)"
      "safe_integer_value (get_prop v ''intervalSeconds'') = Some (sch_intervalSeconds s)"
      "safe_integer_value (get_prop v ''weekday'') = Some (sch_weekday s)" "time_value (get_prop v ''time'') = Some (sch_time s)"
      using a n by (simp_all add: schedule_type_Some safe_integer_value_Some time_value_Some is_safe_integer_def schedule_value_def schedule_ok_def)
    ultimately show "parseAutomationSchedule v = Inr s" using a
      by (simp add: parseAutomationSchedule_def first_throw_append_None au_object_checks_def r)
        (simp add: automation_timestamp_Inr bounded_text_Inr schedule_ok_def schedule_value_def)
  qed
qed

definition definition_ok :: "automation_definition \<Rightarrow> bool" where
  "definition_ok d \<longleftrightarrow> matches_opaque_id 511 (au_automationId d) \<and> matches_opaque_id 511 (au_tenantId d) \<and> matches_opaque_id 511 (au_spaceId d)
     \<and> matches_opaque_id 511 (au_createdByActorId d) \<and> (\<forall>p. au_createdByPrincipalId d = Some p \<longrightarrow> matches_opaque_id 511 p)
     \<and> matches_opaque_id 511 (au_threadId d) \<and> instruction_text_ok 256 (au_title d) \<and> instruction_text_ok 9999 (au_prompt d)
     \<and> matches_opaque_id 511 (au_agentVersionId d) \<and> schedule_ok (au_schedule d) \<and> calendar_timestamp (au_createdAt d)
     \<and> au_updatedAt d = au_createdAt d \<and> utf8_length (renderAutomationInstructionUnchecked d) \<le> 9999"

lemma map_JStr [simp]: "map_option JStr p = map_option JStr q \<longleftrightarrow> p = q"
  by (cases p; cases q) auto

lemma principal_Inr: "principal_value v = Inr p \<longleftrightarrow> get_prop v ''createdByPrincipalId'' = map_option JStr p
    \<and> (\<forall>x. p = Some x \<longrightarrow> matches_opaque_id 511 x)"
  by (cases p) (auto simp: principal_value_def opaque_id_value_Inr)

text \<open>The properties of an accepted value, other than its schedule.\<close>

definition definition_fields :: "automation_definition \<Rightarrow> (string \<times> json option) list" where
  "definition_fields d = [(''schemaVersion'', Some (JStr (js ''crewon.automation.v0''))), (''automationId'', Some (JStr (au_automationId d))),
     (''tenantId'', Some (JStr (au_tenantId d))), (''spaceId'', Some (JStr (au_spaceId d))),
     (''createdByPrincipalId'', map_option JStr (au_createdByPrincipalId d)), (''createdByActorId'', Some (JStr (au_createdByActorId d))),
     (''threadId'', Some (JStr (au_threadId d))), (''title'', Some (JStr (au_title d))), (''prompt'', Some (JStr (au_prompt d))),
     (''agentVersionId'', Some (JStr (au_agentVersionId d))),
     (''executionMode'', Some (JStr (js (execution_mode_text (au_executionMode d))))), (''revision'', Some (JNum (Whole 1))),
     (''createdAt'', Some (JStr (au_createdAt d))), (''updatedAt'', Some (JStr (au_updatedAt d)))]"

definition has_definition_fields :: "json \<Rightarrow> automation_definition \<Rightarrow> bool" where
  "has_definition_fields v d \<longleftrightarrow> list_all (\<lambda>(k, x). get_prop v k = x) (definition_fields d)"

lemmas has_fields_simps = has_definition_fields_def definition_fields_def

lemma definition_Inr: "parseAutomationDefinition v = Inr d \<longleftrightarrow> is_plain_object v \<and> has_exact_keys v (definition_state_keys v)
    \<and> definition_ok d \<and> parseAutomationSchedule (prop_of v ''schedule'') = Inr (au_schedule d) \<and> has_definition_fields v d"
    (is "_ \<longleftrightarrow> ?ok")
proof
  assume p: "parseAutomationDefinition v = Inr d"
  then have h: "get_prop v ''schemaVersion'' = Some (JStr (js ''crewon.automation.v0''))" "get_prop v ''revision'' = Some (JNum (Whole 1))"
    "execution_mode_of (get_prop v ''executionMode'') \<noteq> None"
    by (simp_all add: parseAutomationDefinition_def first_throw_append_None definition_header_bad_def)
  then obtain m where m: "execution_mode_of (get_prop v ''executionMode'') = Some m" by auto
  from p obtain s where s: "parseAutomationSchedule (prop_of v ''schedule'') = Inr s" by (auto simp: parseAutomationDefinition_def)
  then have "schedule_ok s" by (simp add: schedule_Inr)
  with p s h m m [unfolded execution_mode_Some] show ?ok
    by (auto simp: parseAutomationDefinition_def first_throw_append_None au_object_checks_def
        automation_timestamp_Inr bounded_text_Inr opaque_id_value_Inr principal_Inr definition_ok_def has_fields_simps Let_def
        max_automation_instruction_bytes_def)
next
  assume a: ?ok
  then have m: "execution_mode_of (get_prop v ''executionMode'') = Some (au_executionMode d)"
    by (simp add: execution_mode_Some has_fields_simps)
  with a show "parseAutomationDefinition v = Inr d"
    by (cases d) (simp add: parseAutomationDefinition_def first_throw_append_None au_object_checks_def definition_header_bad_def
        automation_timestamp_Inr bounded_text_Inr opaque_id_value_Inr principal_Inr definition_ok_def has_fields_simps
        max_automation_instruction_bytes_def)
qed

text \<open>The value of an accepted definition is read back.\<close>

lemma schedule_value_keys: "has_exact_keys (schedule_value s) schedule_keys"
  unfolding schedule_value_def by (rule keys_js_object) auto

lemma own_schedule: "parseAutomationSchedule (schedule_value s) = Inr s \<longleftrightarrow> schedule_ok s"
  unfolding schedule_Inr using schedule_value_keys [of s] by (auto simp: schedule_value_def)

lemma automation_value_fields: "has_definition_fields (automation_value d) d" "prop_of (automation_value d) ''schedule'' = schedule_value (au_schedule d)"
  by (cases "au_createdByPrincipalId d"; simp add: has_fields_simps automation_value_def optional_entry_def prop_of_def)+

lemma automation_value_keys: "has_exact_keys (automation_value d) (definition_state_keys (automation_value d))"
proof (cases "au_createdByPrincipalId d")
  case None
  then have k: "get_prop (automation_value d) ''createdByPrincipalId'' = None" by (simp add: automation_value_def optional_entry_def)
  show ?thesis unfolding definition_state_keys_def k unfolding automation_value_def None option.map
    by (rule keys_js_object) (auto simp: optional_entry_def)
next
  case (Some p)
  then have k: "get_prop (automation_value d) ''createdByPrincipalId'' = Some (JStr p)" by (simp add: automation_value_def optional_entry_def)
  show ?thesis unfolding definition_state_keys_def k unfolding automation_value_def Some option.map
    by (rule keys_js_object) (auto simp: optional_entry_def)
qed

lemma own_definition: "parseAutomationDefinition (automation_value d) = Inr d \<longleftrightarrow> definition_ok d"
  unfolding definition_Inr using automation_value_fields [of d] automation_value_keys [of d] own_schedule [of "au_schedule d"]
  by (auto simp: definition_ok_def automation_value_def)

lemma automation_value_json: "definition_ok d \<Longrightarrow> json_ok (automation_value d)"
proof -
  assume d: "definition_ok d"
  have names: "\<not> is_array_index (js (c # s))" if "\<not> is_digit (of_char c)" for c s using that by (simp add: is_array_index_def js_def)
  have "json_ok (schedule_value (au_schedule d))"
    using d unfolding schedule_value_def by (intro json_ok_js_object)
      (auto simp: names is_digit_def number_ok_def is_safe_integer_def max_safe_integer_def definition_ok_def schedule_ok_def)
  then show ?thesis unfolding automation_value_def by (intro json_ok_js_object)
      (auto simp: names is_digit_def number_ok_def is_safe_integer_def max_safe_integer_def optional_entry_def split: option.splits)
qed

lemma accepted_definition_ok: "parseAutomationDefinition v = Inr d \<Longrightarrow> definition_ok d"
  by (simp add: definition_Inr)

lemma same_properties:
  assumes "has_exact_keys v ks" and "has_exact_keys w ks" and "\<And>k. k \<in> set ks \<Longrightarrow> get_prop v k = get_prop w k"
  shows "get_prop v k = get_prop w k"
  using assms get_prop_absent [of v ks k] get_prop_absent [of w ks k] by (cases "k \<in> set ks") simp_all

section \<open>Properties\<close>

text \<open>
  An accepted definition is kept.  The record the parser returns has the properties of the
  value it was read from, those of the schedule included; its JSON text is read back to the same
  value, and that value is accepted again as the same definition.
\<close>

theorem automation_definition_roundtrip:
  assumes "parseAutomationDefinition v = Inr d"
  shows "map_option parseAutomationDefinition (json_parse (stringify (automation_value d))) = Some (Inr d)
    \<and> (\<forall>k. k \<noteq> ''schedule'' \<longrightarrow> get_prop (automation_value d) k = get_prop v k)
    \<and> (\<forall>k. get_prop (prop_of (automation_value d) ''schedule'') k = get_prop (prop_of v ''schedule'') k)"
proof -
  note d = assms [unfolded definition_Inr]
  note w = automation_value_fields [of d]
  have ok: "definition_ok d" using d by simp
  have keys: "definition_state_keys v = definition_state_keys (automation_value d)"
    using d w(1) by (simp add: definition_state_keys_def has_fields_simps)
  have "get_prop (automation_value d) k = get_prop v k" if k: "k \<noteq> ''schedule''" for k
  proof (cases "k \<in> set (definition_state_keys v)")
    case True
    then have "k \<in> fst ` set (definition_fields d)"
      using k by (auto simp: definition_state_keys_def definition_fields_def split: if_splits)
    then obtain x where x: "(k, x) \<in> set (definition_fields d)" by auto
    have "get_prop u k = x" if "has_definition_fields u d" for u using bspec [OF that [unfolded has_definition_fields_def list_all_iff] x] by simp
    then show ?thesis using d w(1) by simp
  next
    case False
    then show ?thesis using get_prop_absent [of v "definition_state_keys v" k] get_prop_absent [of "automation_value d" "definition_state_keys v" k]
        d automation_value_keys [of d] keys by simp
  qed
  moreover have "get_prop (schedule_value (au_schedule d)) k = get_prop (prop_of v ''schedule'') k" for k
  proof (rule same_properties [OF schedule_value_keys])
    show "has_exact_keys (prop_of v ''schedule'') schedule_keys" using d by (simp add: schedule_Inr)
    show "get_prop (schedule_value (au_schedule d)) k = get_prop (prop_of v ''schedule'') k" if "k \<in> set schedule_keys" for k
      using d that unfolding schedule_Inr by metis
  qed
  moreover have "map_option parseAutomationDefinition (json_parse (stringify (automation_value d))) = Some (Inr d)"
    using parse_stringify [OF automation_value_json [OF ok]] ok by (simp add: own_definition)
  ultimately show ?thesis using w(2) by simp
qed

lemma render_Inr: "renderAutomationInstruction d = Inr x \<longleftrightarrow> definition_ok d \<and> x = renderAutomationInstructionUnchecked d"
proof -
  have "parseAutomationDefinition (automation_value d) = Inr e \<Longrightarrow> e = d" for e
  proof -
    assume e: "parseAutomationDefinition (automation_value d) = Inr e"
    then have "schedule_ok (au_schedule e)" "parseAutomationSchedule (schedule_value (au_schedule d)) = Inr (au_schedule e)"
      using automation_value_fields(2) [of d] by (simp_all add: definition_Inr definition_ok_def)
    then have "au_schedule e = au_schedule d"
      by (cases "au_schedule d"; cases "au_schedule e") (simp add: schedule_Inr schedule_value_def)
    then show "e = d" using e automation_value_fields(1) [of d] by (cases d; cases e) (simp add: definition_Inr has_fields_simps)
  qed
  then show ?thesis using own_definition [of d] by (auto simp: renderAutomationInstruction_def)
qed

text \<open>
  C31: an instruction is unambiguous.  Whatever the title and the prompt say, two definitions with
  the same instruction have the same identifier, title and prompt; the only tags in it are the
  six of the frame, and it has at most 9999 bytes.
\<close>

theorem automation_instruction_unambiguous:
  assumes "renderAutomationInstruction d = Inr x" and "renderAutomationInstruction e = Inr x"
  shows "au_automationId d = au_automationId e \<and> au_title d = au_title e \<and> au_prompt d = au_prompt e
    \<and> count_list x 60 = 6 \<and> utf8_length x \<le> 9999"
proof -
  have "definition_ok d" "x = renderAutomationInstructionUnchecked d" "x = renderAutomationInstructionUnchecked e"
    using assms by (simp_all add: render_Inr)
  then show ?thesis using instruction_inject [of d e] instruction_tags [of d] by (simp add: definition_ok_def)
qed

text \<open>
  A created definition is manual unless the input says otherwise, was last changed when it was
  created, has what the input says, and its instruction can always be rendered, also after the
  definition was stored and read.
\<close>

theorem automation_created:
  assumes "createAutomationDefinition v = Inr d"
  shows "au_executionMode d = (if get_prop v ''executionMode'' = Some (JStr (js ''scheduled'')) then Scheduled else ManualOnly)
    \<and> get_prop v ''createdAt'' = Some (JStr (au_createdAt d)) \<and> au_updatedAt d = au_createdAt d
    \<and> get_prop v ''prompt'' = Some (JStr (au_prompt d)) \<and> get_prop v ''title'' = Some (JStr (au_title d))
    \<and> (\<exists>x. renderAutomationInstruction d = Inr x)
    \<and> map_option parseAutomationDefinition (json_parse (stringify (automation_value d))) = Some (Inr d)"
proof -
  define w where "w c = js_object ([(''schemaVersion'', JStr (js ''crewon.automation.v0'')),
          (''automationId'', prop_of v ''automationId''), (''tenantId'', prop_of v ''tenantId''), (''spaceId'', prop_of v ''spaceId'')]
        @ optional_entry ''createdByPrincipalId'' (get_prop v ''createdByPrincipalId'')
        @ [(''createdByActorId'', prop_of v ''createdByActorId''), (''threadId'', prop_of v ''threadId''), (''title'', prop_of v ''title''),
           (''prompt'', prop_of v ''prompt''), (''agentVersionId'', prop_of v ''agentVersionId''), (''schedule'', prop_of v ''schedule''),
           (''executionMode'', execution_mode_input v), (''revision'', JNum (Whole 1)),
           (''createdAt'', JStr c), (''updatedAt'', JStr c)])" for c
  from assms obtain c where c: "get_prop v ''createdAt'' = Some (JStr c)" and p: "parseAutomationDefinition (w c) = Inr d"
    and keys: "is_plain_object v" "has_exact_keys v (definition_input_keys v)"
    by (auto simp: createAutomationDefinition_def w_def au_object_checks_def automation_timestamp_Inr)
  have w: "get_prop (w c) ''title'' = Some (prop_of v ''title'')" "get_prop (w c) ''prompt'' = Some (prop_of v ''prompt'')"
    "get_prop (w c) ''executionMode'' = Some (execution_mode_input v)" "get_prop (w c) ''createdAt'' = Some (JStr c)"
    by (cases "get_prop v ''createdByPrincipalId''"; simp add: w_def optional_entry_def)+
  have there: "get_prop v k = Some (prop_of v k)" if "k \<in> {''title'', ''prompt''}" for k
  proof -
    have "k \<in> set (definition_input_keys v)" using that by (auto simp: definition_input_keys_def)
    from prop_of_exact_keys [OF keys this] show ?thesis by (auto simp: prop_of_def)
  qed
  have ok: "definition_ok d" and f: "has_definition_fields (w c) d" using p by (simp_all add: definition_Inr)
  have mode: "au_executionMode d = (if get_prop v ''executionMode'' = Some (JStr (js ''scheduled'')) then Scheduled else ManualOnly)"
    using f w(3) by (cases "au_executionMode d")
      (auto simp: has_fields_simps execution_mode_input_def execution_mode_text_def split: option.splits if_splits)
  have "get_prop v ''createdAt'' = Some (JStr (au_createdAt d))" using f w(4) c by (simp add: has_fields_simps)
  moreover have "get_prop v ''prompt'' = Some (JStr (au_prompt d))" "get_prop v ''title'' = Some (JStr (au_title d))"
    using f w(1,2) there by (simp_all add: has_fields_simps)
  moreover have "map_option parseAutomationDefinition (json_parse (stringify (automation_value d))) = Some (Inr d)"
    using parse_stringify [OF automation_value_json [OF ok]] ok by (simp add: own_definition)
  ultimately show ?thesis using mode ok by (simp add: render_Inr definition_ok_def)
qed

text \<open>
  The times of an automation exist.  The check that reads the date back field by field accepts
  exactly the strings of the format that name a day of the calendar and a time of that day.
\<close>

theorem automation_timestamp_exact:
  "automation_timestamp (Some (JStr s)) code = Inr t \<longleftrightarrow> t = s \<and> (\<exists>f. iso_fields s = Some f \<and> length (iso_frac f) \<le> 3
     \<and> 1 \<le> iso_month f \<and> iso_month f \<le> 12 \<and> 1 \<le> iso_day f \<and> iso_day f \<le> month_length (iso_year f) (iso_month f)
     \<and> iso_hour f \<le> 23 \<and> iso_minute f \<le> 59 \<and> iso_second f \<le> 59)"
  by (auto simp: automation_timestamp_Inr calendar_timestamp_def real_date_def)

section \<open>A concrete definition\<close>

definition sample_automation :: automation_definition where
  "sample_automation = \<lparr>au_automationId = js ''a'', au_tenantId = js ''t'', au_spaceId = js ''s'', au_createdByPrincipalId = None,
     au_createdByActorId = js ''u'', au_threadId = js ''h'', au_title = js ''News'', au_prompt = js ''<b> & c'', au_agentVersionId = js ''v'',
     au_schedule = \<lparr>sch_scheduleType = Daily, sch_nextRunAt = js ''2028-02-29T08:30:00Z'', sch_intervalSeconds = 0, sch_time = js ''08:30'',
       sch_weekday = 0, sch_timezone = js ''UTC''\<rparr>,
     au_executionMode = Scheduled, au_createdAt = js ''2026-01-01T00:00:00Z'', au_updatedAt = js ''2026-01-01T00:00:00Z''\<rparr>"

lemma sample_calendar: "calendar_timestamp (js ''2028-02-29T08:30:00Z'')" "calendar_timestamp (js ''2026-01-01T00:00:00Z'')"
  by (simp_all add: calendar_timestamp_def iso_fields_def iso_fraction_def real_date_def month_length_def is_leap_def is_digit_def
      digit_value_def js_def)

lemma sample_texts: "instruction_text_ok 256 (js ''News'')" "instruction_text_ok 256 (js ''UTC'')" "instruction_text_ok 9999 (js ''<b> & c'')"
    "matches_time (js ''08:30'')" "matches_opaque_id 511 (js ''a'')" "matches_opaque_id 511 (js ''t'')" "matches_opaque_id 511 (js ''s'')"
    "matches_opaque_id 511 (js ''u'')" "matches_opaque_id 511 (js ''h'')" "matches_opaque_id 511 (js ''v'')"
  by (simp_all add: instruction_text_ok_def matches_opaque_id_def matches_time_def is_forbidden_unit_def is_alnum_def is_id_tail_def is_digit_def
      is_lower_def is_upper_def is_blank_def js_trim_def string_eval)

lemma sample_automation_ok: "definition_ok sample_automation"
proof -
  have "length (renderAutomationInstructionUnchecked sample_automation) \<le> 3333"
    unfolding instruction_shape by (simp add: sample_automation_def xmlEscape_units xml_unit_def js_def)
  then have "utf8_length (renderAutomationInstructionUnchecked sample_automation) \<le> 9999"
    using utf8_le_units [of "renderAutomationInstructionUnchecked sample_automation"] by simp
  moreover have "schedule_ok (au_schedule sample_automation)"
    using sample_calendar(1) by (simp add: sample_automation_def schedule_ok_def sample_texts)
  ultimately show ?thesis
    using sample_calendar(2) unfolding definition_ok_def by (simp add: sample_automation_def sample_texts)
qed

theorem automation_definition_roundtrip_witness:
  "map_option parseAutomationDefinition (json_parse (stringify (automation_value sample_automation))) = Some (Inr sample_automation)"
  using automation_definition_roundtrip [of "automation_value sample_automation" sample_automation] sample_automation_ok
  by (simp add: own_definition)

theorem automation_instruction_unambiguous_witness:
  "count_list (renderAutomationInstructionUnchecked sample_automation) 60 = 6"
  using automation_instruction_unambiguous [of sample_automation "renderAutomationInstructionUnchecked sample_automation" sample_automation]
    sample_automation_ok by (simp add: render_Inr)

definition sample_automation_input :: json where
  "sample_automation_input = js_object [(''automationId'', JStr (js ''a'')), (''tenantId'', JStr (js ''t'')), (''spaceId'', JStr (js ''s'')),
     (''createdByActorId'', JStr (js ''u'')), (''threadId'', JStr (js ''h'')), (''title'', JStr (js ''News'')), (''prompt'', JStr (js ''<b> & c'')),
     (''agentVersionId'', JStr (js ''v'')), (''schedule'', schedule_value (au_schedule sample_automation)),
     (''executionMode'', JStr (js ''scheduled'')), (''createdAt'', JStr (js ''2026-01-01T00:00:00Z''))]"

theorem automation_created_witness:
  "createAutomationDefinition sample_automation_input = Inr sample_automation \<and> (\<exists>x. renderAutomationInstruction sample_automation = Inr x)"
proof -
  have keys: "has_exact_keys sample_automation_input (definition_input_keys sample_automation_input)"
    unfolding sample_automation_input_def by (rule keys_js_object) (auto simp: definition_input_keys_def)
  have t: "automation_timestamp (get_prop sample_automation_input ''createdAt'') ''automation_created_at_invalid'' = Inr (js ''2026-01-01T00:00:00Z'')"
    by (simp add: automation_timestamp_Inr sample_calendar sample_automation_input_def)
  have "createAutomationDefinition sample_automation_input = parseAutomationDefinition (automation_value sample_automation)"
    unfolding createAutomationDefinition_def t then_do_simps using keys
    by (simp add: au_object_checks_def guarded_pass sample_automation_input_def [THEN arg_cong [of _ _ is_plain_object]])
      (simp add: automation_value_def sample_automation_def sample_automation_input_def prop_of_def execution_mode_input_def
        execution_mode_text_def optional_entry_def)
  then have "createAutomationDefinition sample_automation_input = Inr sample_automation" using sample_automation_ok by (simp add: own_definition)
  with automation_created [OF this] show ?thesis by blast
qed

end
