(* ===== verification/Sse_Stream.thy ===== *)
theory Sse_Stream
  imports Json_Text
begin

text \<open>
  The reader of a model's response, \<open>responses-sse.ts\<close>: bytes that arrive in chunks are decoded, cut into server-sent
  events and parsed.  The body is the list of the answers its reader gives until it is exhausted; the result is the
  list of the items that were yielded and the error that was thrown after them, if any.  An abort by the caller makes the
  reader exhausted and is the end of the list.  The consumer's \<open>stopAfterBufferedFrames\<close> is a predicate on the items
  yielded so far.
\<close>

section \<open>\<open>TextDecoder\<close>\<close>

text \<open>
  The decoder of UTF-8 as the encoding standard gives it, in fatal mode: between two bytes it is idle or has read a part
  of a character, of which \<open>remaining\<close> bytes are missing and the next must lie between two bounds.  A byte order
  mark at the start is dropped.
\<close>

datatype utf8_part = Idle | Partial (remaining: nat) (lower: nat) (upper: nat) (bits: nat)

record decoder_state =
  dc_part :: utf8_part
  dc_started :: bool

definition new_decoder :: decoder_state where
  "new_decoder = \<lparr>dc_part = Idle, dc_started = False\<rparr>"

text \<open>The code units of a code point.\<close>

definition utf16_units :: "nat \<Rightarrow> js_string" where
  "utf16_units c = (if c < 65536 then [c] else [55296 + (c - 65536) div 1024, 56320 + (c - 65536) mod 1024])"

definition lead_byte :: "nat \<Rightarrow> utf8_part option" where
  "lead_byte b =
     (if 194 \<le> b \<and> b \<le> 223 then Some (Partial 1 128 191 (b - 192))
      else if b = 224 then Some (Partial 2 160 191 0)
      else if b = 237 then Some (Partial 2 128 159 13)
      else if 225 \<le> b \<and> b \<le> 239 then Some (Partial 2 128 191 (b - 224))
      else if b = 240 then Some (Partial 3 144 191 0)
      else if b = 244 then Some (Partial 3 128 143 4)
      else if 241 \<le> b \<and> b \<le> 243 then Some (Partial 3 128 191 (b - 240))
      else None)"

text \<open>One byte: the next state and the code point it completes; \<open>None\<close> if the input is not UTF-8.\<close>

fun utf8_byte :: "utf8_part \<Rightarrow> nat \<Rightarrow> (utf8_part \<times> nat option) option" where
  "utf8_byte Idle b = (if b < 128 then Some (Idle, Some b) else map_option (\<lambda>p. (p, None)) (lead_byte b))"
| "utf8_byte (Partial n lo hi c) b =
     (if b < lo \<or> hi < b then None
      else if n = 1 then Some (Idle, Some (64 * c + (b - 128)))
      else Some (Partial (n - 1) 128 191 (64 * c + (b - 128)), None))"

definition decoded :: "decoder_state \<Rightarrow> utf8_part \<Rightarrow> nat option \<Rightarrow> decoder_state \<times> js_string" where
  "decoded s p out = (case out of
     None \<Rightarrow> (s\<lparr>dc_part := p\<rparr>, [])
   | Some c \<Rightarrow> (\<lparr>dc_part = p, dc_started = True\<rparr>, if \<not> dc_started s \<and> c = 65279 then [] else utf16_units c))"

text \<open>\<open>decode(bytes, { stream: true })\<close>\<close>

fun decode_stream :: "decoder_state \<Rightarrow> nat list \<Rightarrow> (decoder_state \<times> js_string) option" where
  "decode_stream s [] = Some (s, [])"
| "decode_stream s (b # bs) = (case utf8_byte (dc_part s) b of
     None \<Rightarrow> None
   | Some (p, out) \<Rightarrow> (let (t, x) = decoded s p out in map_option (\<lambda>(u, y). (u, x @ y)) (decode_stream t bs)))"

section \<open>Frames\<close>

datatype sse_item = SseEvent json | SseDone

definition protocolError :: "string \<Rightarrow> js_error" where
  "protocolError code = ModelTransportError code"

definition assertBounded :: "js_string \<Rightarrow> int \<Rightarrow> check" where
  "assertBounded s maxEventBytes = throw_if (maxEventBytes < int (utf8_length s)) (protocolError ''responses_event_too_large'')"

text \<open>\<open>s.indexOf(p)\<close> for a non-empty \<open>p\<close>\<close>

fun index_of :: "js_string \<Rightarrow> js_string \<Rightarrow> nat option" where
  "index_of p [] = None"
| "index_of p (u # s) = (if take (length p) (u # s) = p then Some 0 else map_option Suc (index_of p s))"

definition findEventBoundary :: "js_string \<Rightarrow> (nat \<times> nat) option" where
  "findEventBoundary s =
     (case sort_key fst (List.map_filter (\<lambda>p. map_option (\<lambda>i. (i, length p)) (index_of p s)) [[10, 10], [13, 10, 13, 10], [13, 13]]) of
        [] \<Rightarrow> None | m # _ \<Rightarrow> Some m)"

text \<open>\<open>s.split(/\r\n|\r|\n/)\<close>\<close>

fun add_unit :: "nat \<Rightarrow> js_string list \<Rightarrow> js_string list" where
  "add_unit u [] = [[u]]"
| "add_unit u (l # ls) = (u # l) # ls"

fun split_lines :: "js_string \<Rightarrow> js_string list" where
  "split_lines [] = [[]]"
| "split_lines (u # s) = (if u = 13 \<and> s \<noteq> [] \<and> hd s = 10 then [] # split_lines (tl s)
     else if u = 13 \<or> u = 10 then [] # split_lines s
     else add_unit u (split_lines s))"

definition line_field :: "js_string \<Rightarrow> js_string" where
  "line_field l = takeWhile (\<lambda>u. u \<noteq> 58) l"

definition line_value :: "js_string \<Rightarrow> js_string" where
  "line_value l = (let v = drop 1 (dropWhile (\<lambda>u. u \<noteq> 58) l) in if v \<noteq> [] \<and> hd v = 32 then tl v else v)"

definition data_lines :: "js_string \<Rightarrow> js_string list" where
  "data_lines frame = map line_value (filter (\<lambda>l. line_field l = js ''data'')
     (filter (\<lambda>l. \<not> (l = [] \<or> hd l = 58)) (split_lines frame)))"

definition parseFrame :: "js_string \<Rightarrow> int \<Rightarrow> sse_item option res" where
  "parseFrame frame maxEventBytes = guarded [assertBounded frame maxEventBytes]
     (if data_lines frame = [] then Inr None
      else let data = join_with 10 (data_lines frame) in
        if data = js ''[DONE]'' then Inr (Some SseDone)
        else case json_parse data of
          None \<Rightarrow> Inl (protocolError ''responses_event_json_invalid'')
        | Some v \<Rightarrow> guarded [throw_if (\<not> is_plain_object v) (protocolError ''responses_event_not_object'')] (Inr (Some (SseEvent v))))"

text \<open>\<open>/^data: ?(.*)$/u\<close> on a line without line ends; \<open>.\<close> does not match the two line separators.\<close>

definition isOptionalDonePrefix :: "js_string \<Rightarrow> bool" where
  "isOptionalDonePrefix frame = (case filter (\<lambda>l. l \<noteq> [] \<and> hd l \<noteq> 58) (split_lines frame) of
     [l] \<Rightarrow> (take 5 l = js ''data:'' \<and> \<not> list_ex (\<lambda>u. u = 8232 \<or> u = 8233) l
       \<and> (let p = line_value l in p \<noteq> [] \<and> hd p = 91 \<and> take (length p) (js ''[DONE]'') = p))
   | _ \<Rightarrow> False)"

section \<open>The loop\<close>

text \<open>The frames that are complete in the buffer; what is left of it, or the error.\<close>

lemma index_of_less: "index_of p s = Some i \<Longrightarrow> i < length s"
  by (induction s arbitrary: i) (auto split: if_splits)

lemma first_sorted: "(case sort_key f ms of [] \<Rightarrow> None | m # _ \<Rightarrow> Some m) = Some x \<Longrightarrow> x \<in> set ms"
  by (cases "sort_key f ms") (auto dest: arg_cong [of _ _ set])

lemma boundary_less: "findEventBoundary s = Some (i, n) \<Longrightarrow> i < length s \<and> 2 \<le> n"
  unfolding findEventBoundary_def by (drule first_sorted) (auto dest: index_of_less split: option.splits)

function drain_frames :: "int \<Rightarrow> js_string \<Rightarrow> sse_item list \<times> js_string res" where
  "drain_frames maxEventBytes s = (case findEventBoundary s of
     None \<Rightarrow> ([], Inr s)
   | Some (i, n) \<Rightarrow> (case parseFrame (take i s) maxEventBytes of
       Inl e \<Rightarrow> ([], Inl e)
     | Inr item \<Rightarrow> (let (items, r) = drain_frames maxEventBytes (drop (i + n) s) in
         (case item of None \<Rightarrow> items | Some x \<Rightarrow> x # items, r))))"
  by pat_completeness auto
termination
  by (relation "measure (\<lambda>(_, s). length s)") (auto dest: boundary_less)

declare drain_frames.simps [simp del]

datatype body_read = Chunk "nat list" | ReadFailed "js_error option"

text \<open>What is left of the text when the body ends.\<close>

definition last_frame :: "int \<Rightarrow> js_string \<Rightarrow> sse_item list \<times> check" where
  "last_frame maxEventBytes s = (if is_blank s then ([], None)
     else case parseFrame s maxEventBytes of
       Inl e \<Rightarrow> ([], Some e) | Inr None \<Rightarrow> ([], None) | Inr (Some x) \<Rightarrow> ([x], None))"

definition decode_failed :: js_error where
  "decode_failed = protocolError ''responses_stream_decode_failed''"

definition read_error :: "js_error option \<Rightarrow> js_error" where
  "read_error cause = (case cause of Some e \<Rightarrow> e | None \<Rightarrow> ModelTransportError ''responses_stream_read_failed'')"

definition stopped_tail :: "int \<Rightarrow> decoder_state \<Rightarrow> js_string \<Rightarrow> sse_item list \<times> check" where
  "stopped_tail maxEventBytes d buffer = (if dc_part d \<noteq> Idle then ([], Some decode_failed)
     else if isOptionalDonePrefix buffer then ([], None) else last_frame maxEventBytes buffer)"

fun read_loop :: "int \<Rightarrow> (sse_item list \<Rightarrow> bool) \<Rightarrow> decoder_state \<Rightarrow> js_string \<Rightarrow> sse_item list \<Rightarrow> body_read list \<Rightarrow> sse_item list \<times> check" where
  "read_loop maxEventBytes stop d buffer items [] =
     (if dc_part d \<noteq> Idle then (items, Some decode_failed)
      else let (xs, e) = last_frame maxEventBytes buffer in (items @ xs, e))"
| "read_loop maxEventBytes stop d buffer items (ReadFailed cause # reads) = (items, Some (read_error cause))"
| "read_loop maxEventBytes stop d buffer items (Chunk bs # reads) = (case decode_stream d bs of
     None \<Rightarrow> (items, Some decode_failed)
   | Some (d', t) \<Rightarrow> (case drain_frames maxEventBytes (buffer @ t) of
       (xs, Inl e) \<Rightarrow> (items @ xs, Some e)
     | (xs, Inr rest) \<Rightarrow> (case assertBounded rest maxEventBytes of
         Some e \<Rightarrow> (items @ xs, Some e)
       | None \<Rightarrow> if stop (items @ xs) then (let (ys, e) = stopped_tail maxEventBytes d' rest in (items @ xs @ ys, e))
           else read_loop maxEventBytes stop d' rest (items @ xs) reads)))"

definition parseResponsesSse :: "int \<Rightarrow> (sse_item list \<Rightarrow> bool) \<Rightarrow> body_read list \<Rightarrow> sse_item list \<times> check" where
  "parseResponsesSse maxEventBytes stop reads =
     (if \<not> is_safe_integer maxEventBytes \<or> maxEventBytes < 1 then ([], Some (protocolError ''responses_event_limit_invalid''))
      else read_loop maxEventBytes stop new_decoder [] [] reads)"


section \<open>The decoder over chunks\<close>

lemma decode_append: "decode_stream s (a @ b) = (case decode_stream s a of None \<Rightarrow> None
    | Some (t, x) \<Rightarrow> map_option (\<lambda>(u, y). (u, x @ y)) (decode_stream t b))"
proof (induction a arbitrary: s)
  case Nil
  show ?case by (cases "decode_stream s b") auto
next
  case (Cons c a)
  show ?case
  proof (cases "utf8_byte (dc_part s) c")
    case (Some po)
    obtain p out where po: "po = (p, out)" by (cases po)
    obtain t x where d: "decoded s p out = (t, x)" by (cases "decoded s p out")
    show ?thesis using Cons [of t] by (cases "decode_stream t a") (simp_all add: Some po d option.map_comp comp_def case_prod_unfold)
  qed simp
qed

section \<open>The boundary of a frame\<close>

text \<open>The boundary found by searching for each separator is the first place where one of them stands.\<close>

definition separator :: "js_string \<Rightarrow> nat option" where
  "separator s = (case s of
     u # v # r \<Rightarrow> if u = 10 \<and> v = 10 \<or> u = 13 \<and> v = 13 then Some 2
       else if u = 13 \<and> v = 10 then (case r of w # x # _ \<Rightarrow> if w = 13 \<and> x = 10 then Some 4 else None | _ \<Rightarrow> None)
       else None
   | _ \<Rightarrow> None)"

lemma separator_take: "separator s = (if take 2 s = [10, 10] then Some 2 else if take 4 s = [13, 10, 13, 10] then Some 4
     else if take 2 s = [13, 13] then Some 2 else None)"
  by (auto simp: separator_def take_Cons' split: list.splits)

lemma boundary_rec: "findEventBoundary [] = None"
    "findEventBoundary (u # s) = (case separator (u # s) of Some n \<Rightarrow> Some (0, n)
       | None \<Rightarrow> map_option (\<lambda>(i, n). (Suc i, n)) (findEventBoundary s))"
proof -
  show "findEventBoundary [] = None" by (simp add: findEventBoundary_def map_filter_simps)
  have shift: "(case sort_key fst (map (\<lambda>(i, n). (Suc i, n)) ms) of [] \<Rightarrow> None | m # _ \<Rightarrow> Some m)
      = map_option (\<lambda>(i, n). (Suc i, n)) (case sort_key fst ms of [] \<Rightarrow> None | m # _ \<Rightarrow> Some m)" for ms :: "(nat \<times> nat) list"
  proof -
    have "sort_key fst (map (\<lambda>(i, n). (Suc i, n)) ms) = map (\<lambda>(i, n). (Suc i, n)) (sort_key fst ms)"
    proof (induction ms)
      case (Cons m ms)
      have "insort_key fst (case m of (i, n) \<Rightarrow> (Suc i, n)) (map (\<lambda>(i, n). (Suc i, n)) xs) = map (\<lambda>(i, n). (Suc i, n)) (insort_key fst m xs)" for xs :: "(nat \<times> nat) list"
        by (induction xs) (auto split: prod.splits)
      with Cons show ?case by simp
    qed simp
    then show ?thesis by (simp split: list.splits)
  qed
  let ?m = "take 2 (u # s) = [10, 10]" and ?n = "take 4 (u # s) = [13, 10, 13, 10]" and ?o = "take 2 (u # s) = [13, 13]"
  have x: "?m \<Longrightarrow> u = 10" "?n \<Longrightarrow> u = 13 \<and> s \<noteq> [] \<and> hd s = 10" "?o \<Longrightarrow> u = 13 \<and> s \<noteq> [] \<and> hd s = 13"
    by (cases s; simp add: numeral_eq_Suc)+
  have i: "index_of [10, 10] (u # s) = (if ?m then Some 0 else map_option Suc (index_of [10, 10] s))"
    "index_of [13, 10, 13, 10] (u # s) = (if ?n then Some 0 else map_option Suc (index_of [13, 10, 13, 10] s))"
    "index_of [13, 13] (u # s) = (if ?o then Some 0 else map_option Suc (index_of [13, 13] s))"
    by (simp_all add: eval_nat_numeral)
  show "findEventBoundary (u # s) = (case separator (u # s) of Some n \<Rightarrow> Some (0, n)
       | None \<Rightarrow> map_option (\<lambda>(i, n). (Suc i, n)) (findEventBoundary s))"
  proof (cases "separator (u # s)")
    case None
    then have n: "\<not> ?m" "\<not> ?n" "\<not> ?o" by (auto simp: separator_take split: if_splits)
    have "List.map_filter (\<lambda>p. map_option (\<lambda>i. (i, length p)) (index_of p (u # s))) [[10, 10], [13, 10, 13, 10], [13, 13]]
      = map (\<lambda>(i, n). (Suc i, n)) (List.map_filter (\<lambda>p. map_option (\<lambda>i. (i, length p)) (index_of p s)) [[10, 10], [13, 10, 13, 10], [13, 13]])"
      unfolding map_filter_simps i using n by (simp split: option.splits)
    then show ?thesis using shift unfolding findEventBoundary_def None by simp
  next
    case (Some n)
    have "\<not> (?m \<and> ?n)" "\<not> (?m \<and> ?o)" "\<not> (?n \<and> ?o)" using x by auto
    then consider "?m" "\<not> ?n" "\<not> ?o" "n = 2" | "?n" "\<not> ?m" "\<not> ?o" "n = 4" | "?o" "\<not> ?m" "\<not> ?n" "n = 2"
      using Some unfolding separator_take by (simp only: split: if_split_asm) (blast dest: option.inject [THEN iffD1])+
    then show ?thesis
    proof cases
      case 1
      have e: "index_of [10, 10] (u # s) = Some 0" "index_of [13, 10, 13, 10] (u # s) = map_option Suc (index_of [13, 10, 13, 10] s)" "index_of [13, 13] (u # s) = map_option Suc (index_of [13, 13] s)"
        unfolding i if_P [OF 1(1)] if_not_P [OF 1(2)] if_not_P [OF 1(3)] by (rule refl)+
      show ?thesis unfolding findEventBoundary_def map_filter_simps e Some 1(4)
        by (cases "index_of [13, 10, 13, 10] s"; cases "index_of [13, 13] s") simp_all
    next
      case 2
      have e: "index_of [10, 10] (u # s) = map_option Suc (index_of [10, 10] s)" "index_of [13, 10, 13, 10] (u # s) = Some 0" "index_of [13, 13] (u # s) = map_option Suc (index_of [13, 13] s)"
        unfolding i if_P [OF 2(1)] if_not_P [OF 2(2)] if_not_P [OF 2(3)] by (rule refl)+
      show ?thesis unfolding findEventBoundary_def map_filter_simps e Some 2(4)
        by (cases "index_of [10, 10] s"; cases "index_of [13, 13] s") simp_all
    next
      case 3
      have e: "index_of [10, 10] (u # s) = map_option Suc (index_of [10, 10] s)" "index_of [13, 10, 13, 10] (u # s) = map_option Suc (index_of [13, 10, 13, 10] s)" "index_of [13, 13] (u # s) = Some 0"
        unfolding i if_P [OF 3(1)] if_not_P [OF 3(2)] if_not_P [OF 3(3)] by (rule refl)+
      show ?thesis unfolding findEventBoundary_def map_filter_simps e Some 3(4)
        by (cases "index_of [10, 10] s"; cases "index_of [13, 10, 13, 10] s") simp_all
    qed
  qed
qed

lemma boundary_Cons: "findEventBoundary (u # s) = Some (i, n) \<longleftrightarrow>
    (case separator (u # s) of Some m \<Rightarrow> i = 0 \<and> n = m | None \<Rightarrow> \<exists>j. i = Suc j \<and> findEventBoundary s = Some (j, n))"
  by (auto simp: boundary_rec(2) split: option.splits)

lemma separator_append: "separator s = Some n \<Longrightarrow> separator (s @ t) = Some n"
  by (auto simp: separator_def split: list.splits if_splits)

text \<open>A separator that is still incomplete contains no other.\<close>

lemma separator_later: "separator s = None \<Longrightarrow> separator (s @ t) \<noteq> None \<Longrightarrow> findEventBoundary s = None \<and> length s \<le> 3 \<and> (\<forall>u\<in>set s. u < 128)"
  by (auto simp: separator_def boundary_rec Cons_eq_append_conv append_eq_Cons_conv split: list.splits if_splits)

lemma boundary_append: "findEventBoundary a = Some (i, n) \<Longrightarrow> findEventBoundary (a @ b) = Some (i, n)"
proof (induction a arbitrary: i)
  case Nil
  then show ?case by (simp add: boundary_rec)
next
  case (Cons u a)
  show ?case
  proof (cases "separator (u # a)")
    case (Some m)
    with Cons.prems separator_append [OF Some, of b] show ?thesis by (simp add: boundary_rec)
  next
    case None
    moreover have "separator (u # a @ b) = None" using separator_later [OF None, of b] Cons.prems by (cases "separator (u # a @ b)") auto
    ultimately show ?thesis using Cons.prems Cons.IH by (auto simp: boundary_rec split: option.splits)
  qed
qed

lemma boundary_fits: "findEventBoundary s = Some (i, n) \<Longrightarrow> i + n \<le> length s"
proof (induction s arbitrary: i)
  case Nil
  then show ?case by (simp add: boundary_rec)
next
  case (Cons u s)
  have "separator (u # s) = Some m \<Longrightarrow> m \<le> length (u # s)" for m
    by (auto simp: separator_def split: list.splits if_splits)
  with Cons show ?case by (cases "separator (u # s)") (auto simp: boundary_Cons)
qed

text \<open>What was in the buffer when a frame was completed is the frame up to three separator units.\<close>

lemma boundary_late: "findEventBoundary a = None \<Longrightarrow> findEventBoundary (a @ b) = Some (i, n) \<Longrightarrow>
    \<exists>c. a = take i (a @ b) @ c \<and> length c \<le> 3 \<and> (\<forall>u\<in>set c. u < 128) \<or> length a \<le> i"
proof (induction a arbitrary: i)
  case (Cons u a)
  have n: "separator (u # a) = None" "findEventBoundary a = None"
    using Cons.prems(1) by (auto simp: boundary_rec split: option.splits)
  show ?case
  proof (cases "separator (u # a @ b)")
    case (Some m)
    then have "i = 0" using Cons.prems(2) by (simp add: boundary_rec)
    then show ?thesis using separator_later [OF n(1), of b] Some by (intro exI [of _ "u # a"]) simp
  next
    case None
    then obtain j where j: "i = Suc j" "findEventBoundary (a @ b) = Some (j, n)" using Cons.prems(2) by (auto simp: boundary_rec)
    from Cons.IH [OF n(2) j(2)] obtain c where "a = take j (a @ b) @ c \<and> length c \<le> 3 \<and> (\<forall>u\<in>set c. u < 128) \<or> length a \<le> j" by blast
    then show ?thesis using j(1) by (intro exI [of _ c]) auto
  qed
qed simp

section \<open>Sizes\<close>

lemma utf8_append_le: "utf8_length (a @ b) \<le> utf8_length a + utf8_length b"
proof (induction a rule: utf8_length.induct)
  case (2 u)
  then show ?case by (cases b rule: utf8_length.cases) (auto simp: is_high_surrogate_def is_low_surrogate_def)
qed auto

lemma utf8_prefix_le: "utf8_length a \<le> utf8_length (a @ b)"
proof (induction a rule: utf8_length.induct)
  case (2 u)
  then show ?case by (cases b rule: utf8_length.cases) (auto simp: is_high_surrogate_def is_low_surrogate_def)
qed auto

lemma utf8_ascii_le: "\<forall>u\<in>set s. u < 128 \<Longrightarrow> utf8_length s \<le> length s"
  by (induction s rule: utf8_length.induct) (auto simp: is_high_surrogate_def)

section \<open>Frames over chunks\<close>

function sse_frames :: "js_string \<Rightarrow> js_string list" where
  "sse_frames s = (case findEventBoundary s of None \<Rightarrow> [s] | Some (i, n) \<Rightarrow> take i s # sse_frames (drop (i + n) s))"
  by pat_completeness auto
termination
  by (relation "measure length") (auto dest: boundary_less)

declare sse_frames.simps [simp del]

lemma drain_Some: "findEventBoundary s = Some (i, n) \<Longrightarrow> drain_frames m s = (case parseFrame (take i s) m of
    Inl e \<Rightarrow> ([], Inl e)
  | Inr item \<Rightarrow> (let (items, r) = drain_frames m (drop (i + n) s) in (case item of None \<Rightarrow> items | Some x \<Rightarrow> x # items, r)))"
  by (subst drain_frames.simps) simp

lemma drain_None: "findEventBoundary s = None \<Longrightarrow> drain_frames m s = ([], Inr s)"
  by (subst drain_frames.simps) simp

lemma frames_Some: "findEventBoundary s = Some (i, n) \<Longrightarrow> sse_frames s = take i s # sse_frames (drop (i + n) s)"
  by (subst sse_frames.simps) simp

lemma frames_None: "findEventBoundary s = None \<Longrightarrow> sse_frames s = [s]"
  by (subst sse_frames.simps) simp

text \<open>The frames of a text are those complete in a first part of it, then those of what the first part leaves and the rest.\<close>

lemma drain_append:
  "drain_frames m a = (xs, Inl e) \<Longrightarrow> drain_frames m (a @ b) = (xs, Inl e)"
  "drain_frames m a = (xs, Inr rest) \<Longrightarrow> findEventBoundary rest = None
     \<and> drain_frames m (a @ b) = (xs @ fst (drain_frames m (rest @ b)), snd (drain_frames m (rest @ b)))
     \<and> set (sse_frames (rest @ b)) \<subseteq> set (sse_frames (a @ b))"
proof (induction m a arbitrary: xs rule: drain_frames.induct)
  case (1 m a)
  {
    case 1
    then obtain i n where s: "findEventBoundary a = Some (i, n)" by (cases "findEventBoundary a") (auto simp: drain_None)
    note t = boundary_append [OF s, of b] and l = boundary_fits [OF s]
    show ?case
    proof (cases "parseFrame (take i a) m")
      case (Inr item)
      obtain ys r where d: "drain_frames m (drop (i + n) a) = (ys, r)" by (cases "drain_frames m (drop (i + n) a)")
      with 1 Inr have r: "r = Inl e" "xs = (case item of None \<Rightarrow> ys | Some x \<Rightarrow> x # ys)" by (simp_all add: drain_Some [OF s])
      from "1.IH"(1) [OF s refl Inr d [unfolded r]] show ?thesis using l by (simp add: drain_Some [OF t] Inr r)
    qed (use 1 l in \<open>simp add: drain_Some [OF s] drain_Some [OF t]\<close>)
  next
    case 2
    show ?case
    proof (cases "findEventBoundary a")
      case None
      with 2 show ?thesis by (simp add: drain_None)
    next
      case (Some p)
      then obtain i n where s: "findEventBoundary a = Some (i, n)" by (cases p) simp
      note t = boundary_append [OF s, of b] and l = boundary_fits [OF s]
      obtain item ys r where p: "parseFrame (take i a) m = Inr item" and d: "drain_frames m (drop (i + n) a) = (ys, r)"
        using 2 by (cases "parseFrame (take i a) m"; cases "drain_frames m (drop (i + n) a)") (auto simp: drain_Some [OF s])
      with 2 have r: "r = Inr rest" "xs = (case item of None \<Rightarrow> ys | Some x \<Rightarrow> x # ys)" by (simp_all add: drain_Some [OF s])
      from "1.IH"(2) [OF s refl p d [unfolded r]] show ?thesis
        using l by (cases item) (auto simp: drain_Some [OF t] frames_Some [OF t] p r split: prod.splits)
    qed
  }
qed

text \<open>What is left in the buffer is not larger than its frame by more than the three units of an incomplete separator.\<close>

lemma rest_bounded:
  assumes "findEventBoundary a = None" and "\<forall>f\<in>set (sse_frames (a @ b)). int (utf8_length f) + 3 \<le> m"
  shows "int (utf8_length a) \<le> m"
proof (cases "findEventBoundary (a @ b)")
  case None
  then show ?thesis using assms(2) utf8_prefix_le [of a b] by (simp add: frames_None)
next
  case (Some p)
  then obtain i n where s: "findEventBoundary (a @ b) = Some (i, n)" by (cases p) simp
  then have f: "int (utf8_length (take i (a @ b))) + 3 \<le> m" using assms(2) by (simp add: frames_Some)
  from boundary_late [OF assms(1) s] obtain c where "a = take i (a @ b) @ c \<and> length c \<le> 3 \<and> (\<forall>u\<in>set c. u < 128) \<or> length a \<le> i"
    by blast
  then show ?thesis
  proof
    assume c: "a = take i (a @ b) @ c \<and> length c \<le> 3 \<and> (\<forall>u\<in>set c. u < 128)"
    then have "utf8_length c \<le> 3" using utf8_ascii_le [of c] by simp
    then show ?thesis using f utf8_append_le [of "take i (a @ b)" c] c by (metis (no_types, lifting) add_left_mono of_nat_add of_nat_le_iff of_nat_numeral order_trans)
  next
    assume "length a \<le> i"
    then have "take i (a @ b) = a @ take (i - length a) b" by simp
    then show ?thesis using f utf8_prefix_le [of a "take (i - length a) b"] by simp
  qed
qed

definition body_outcome :: "int \<Rightarrow> decoder_state \<Rightarrow> js_string \<Rightarrow> sse_item list \<times> check" where
  "body_outcome m d s = (case drain_frames m s of
     (xs, Inl e) \<Rightarrow> (xs, Some e)
   | (xs, Inr rest) \<Rightarrow> (if dc_part d \<noteq> Idle then (xs, Some decode_failed)
       else (xs @ fst (last_frame m rest), snd (last_frame m rest))))"

lemma loop_outcome:
  assumes "decode_stream d (concat css) = Some (d', t)" and "findEventBoundary buffer = None"
    and "\<forall>f\<in>set (sse_frames (buffer @ t)). int (utf8_length f) + 3 \<le> m"
  shows "read_loop m (\<lambda>_. False) d buffer items (map Chunk css)
    = (items @ fst (body_outcome m d' (buffer @ t)), snd (body_outcome m d' (buffer @ t)))"
  using assms
proof (induction css arbitrary: d t buffer items)
  case Nil
  then show ?case by (simp add: body_outcome_def drain_None split: prod.splits)
next
  case (Cons bs css)
  then obtain e u v where d: "decode_stream d bs = Some (e, u)" "decode_stream e (concat css) = Some (d', v)" and t: "t = u @ v"
    by (auto simp: decode_append split: option.splits)
  obtain xs r where r: "drain_frames m (buffer @ u) = (xs, r)" by (cases "drain_frames m (buffer @ u)")
  show ?case
  proof (cases r)
    case (Inl x)
    with drain_append(1) [OF r [unfolded Inl], of v] show ?thesis by (simp add: d t r body_outcome_def)
  next
    case (Inr rest)
    note a = drain_append(2) [OF r [unfolded Inr], of v]
    have small: "\<forall>f\<in>set (sse_frames (rest @ v)). int (utf8_length f) + 3 \<le> m" using a Cons.prems(3) by (auto simp: t)
    have "int (utf8_length rest) \<le> m" using a small by (intro rest_bounded) blast+
    moreover have "findEventBoundary rest = None" using a by blast
    ultimately show ?thesis using Cons.IH [OF d(2) _ small, of "items @ xs"] a
      by (simp add: d t r Inr assertBounded_def body_outcome_def split: prod.splits sum.splits)
  qed
qed

section \<open>Printed values in a stream\<close>

text \<open>\<open>JSON.stringify\<close> writes no control characters.\<close>

lemma escape_printable: "\<forall>u\<in>set (escape_string s). 32 \<le> u"
proof -
  have "\<forall>u\<in>set (escape_unit u). 32 \<le> u" for u
    by (auto simp: escape_unit_def unicode_escape_def hex_digit_def)
  then show ?thesis
    by (induction s rule: escape_string.induct) (auto simp: is_high_surrogate_def is_low_surrogate_def)
qed

lemma nat_text_printable: "u \<in> set (nat_text n) \<Longrightarrow> 32 \<le> u"
  using nat_text_digit [of u n] by (simp add: is_digit_def)

lemma number_text_printable: "\<forall>u\<in>set (number_text n). 32 \<le> u"
proof -
  have "\<forall>u\<in>set (decimal_text m e). 32 \<le> u" for m e
    using nat_text_printable nat_text_printable [OF hd_in_set [OF nat_text_not_Nil]]
    by (auto simp: decimal_text_def Let_def dest: in_set_takeD in_set_dropD list.set_sel(2) [OF nat_text_not_Nil])
  then show ?thesis using nat_text_printable by (auto simp: number_text_def int_text_def js_def split: js_number.splits)
qed

lemma join_commas_printable: "\<forall>x\<in>set xs. \<forall>u\<in>set x. 32 \<le> u \<Longrightarrow> \<forall>u\<in>set (join_commas xs). 32 \<le> u"
  by (induction xs rule: join_commas.induct) auto

lemma stringify_printable: "\<forall>u\<in>set (stringify v). 32 \<le> u"
proof (induction v)
  case (JArr vs)
  then have "\<forall>x\<in>set (map stringify vs). \<forall>u\<in>set x. 32 \<le> u" by simp
  from join_commas_printable [OF this] show ?case by (simp add: ball_Un)
next
  case (JObj ps)
  let ?f = "\<lambda>p. quote_string (fst p) @ [58] @ stringify (snd p)"
  have "\<forall>u\<in>set (?f p). 32 \<le> u" if "p \<in> set ps" for p
  proof -
    have "\<forall>u\<in>set (stringify (snd p)). 32 \<le> u" using JObj [of p "snd p"] that by (auto simp: snds.simps prod_eq_iff)
    then show ?thesis using escape_printable [of "fst p"] by (simp add: quote_string_def ball_Un)
  qed
  then have "\<forall>x\<in>set (map ?f ps). \<forall>u\<in>set x. 32 \<le> u" unfolding set_map by blast
  from join_commas_printable [OF this] show ?case by (simp add: ball_Un)
qed (simp_all add: number_text_printable escape_printable js_def quote_string_def ball_Un)

definition sse_line :: "js_string \<Rightarrow> js_string" where
  "sse_line data = js ''data: '' @ data"

text \<open>A stream as a server writes it: one event for each value, and the trailer.\<close>

definition sse_body :: "json list \<Rightarrow> js_string" where
  "sse_body vs = concat (map (\<lambda>v. sse_line (stringify v) @ [10, 10]) vs) @ sse_line (js ''[DONE]'') @ [10, 10]"

definition one_line :: "js_string \<Rightarrow> bool" where
  "one_line s \<longleftrightarrow> (\<forall>u\<in>set s. u \<noteq> 10 \<and> u \<noteq> 13)"

lemma boundary_line: "one_line s \<Longrightarrow> findEventBoundary (s @ 10 # 10 # r) = Some (length s, 2)"
proof (induction s)
  case Nil
  show ?case by (simp add: boundary_rec separator_def)
next
  case (Cons u s)
  then have "separator (u # s @ 10 # 10 # r) = None" by (auto simp: separator_def one_line_def split: list.splits)
  with Cons show ?case by (simp add: boundary_rec one_line_def)
qed

lemma split_one_line: "one_line s \<Longrightarrow> split_lines s = [s]"
  by (induction s) (auto simp: one_line_def)

lemma parse_line:
  assumes "one_line data" and "int (utf8_length data) + 6 \<le> m"
  shows "parseFrame (sse_line data) m = (if data = js ''[DONE]'' then Inr (Some SseDone)
    else case json_parse data of None \<Rightarrow> Inl (protocolError ''responses_event_json_invalid'')
      | Some v \<Rightarrow> guarded [throw_if (\<not> is_plain_object v) (protocolError ''responses_event_not_object'')] (Inr (Some (SseEvent v))))"
proof -
  have l: "sse_line data = 100 # 97 # 116 # 97 # 58 # 32 # data" by (simp add: sse_line_def js_def)
  have "utf8_length (js ''data: '' @ data) \<le> utf8_length (js ''data: '') + utf8_length data" by (rule utf8_append_le)
  moreover have "utf8_length (js ''data: '') = 6" by (simp add: js_def is_high_surrogate_def)
  ultimately have "int (utf8_length (sse_line data)) \<le> m" using assms(2) by (simp add: sse_line_def)
  moreover have "data_lines (sse_line data) = [data]"
  proof -
    have "one_line (sse_line data)" using assms(1) by (simp add: l one_line_def)
    from split_one_line [OF this] show ?thesis by (simp add: data_lines_def l line_field_def line_value_def js_def)
  qed
  ultimately show ?thesis by (simp add: parseFrame_def assertBounded_def)
qed

lemma drain_line:
  assumes "one_line data" and "parseFrame (sse_line data) m = Inr (Some x)"
  shows "drain_frames m (sse_line data @ 10 # 10 # r) = (x # fst (drain_frames m r), snd (drain_frames m r))"
    "sse_frames (sse_line data @ 10 # 10 # r) = sse_line data # sse_frames r"
proof -
  have "one_line (sse_line data)" using assms(1) by (simp add: sse_line_def js_def one_line_def)
  from boundary_line [OF this, of r]
  show "drain_frames m (sse_line data @ 10 # 10 # r) = (x # fst (drain_frames m r), snd (drain_frames m r))"
    "sse_frames (sse_line data @ 10 # 10 # r) = sse_line data # sse_frames r"
    by (simp_all add: drain_Some frames_Some assms(2) split: prod.splits)
qed

lemma drain_body:
  assumes "\<forall>v\<in>set vs. json_ok v \<and> is_plain_object v \<and> int (utf8_length (stringify v)) + 9 \<le> m" and "15 \<le> m"
  shows "drain_frames m (sse_body vs) = (map SseEvent vs @ [SseDone], Inr [])
    \<and> (\<forall>f\<in>set (sse_frames (sse_body vs)). int (utf8_length f) + 3 \<le> m)"
  using assms(1)
proof (induction vs)
  case Nil
  have d: "one_line (js ''[DONE]'')" "int (utf8_length (js ''[DONE]'')) + 6 \<le> m" "utf8_length (sse_line (js ''[DONE]'')) = 12"
    using assms(2) by (simp_all add: sse_line_def js_def one_line_def is_high_surrogate_def)
  have p: "parseFrame (sse_line (js ''[DONE]'')) m = Inr (Some SseDone)" using parse_line [OF d(1,2)] by simp
  have e: "findEventBoundary [] = None" by (simp add: boundary_rec)
  from drain_line [OF d(1) p, of "[]"] show ?case using d(3) assms(2)
    by (simp add: sse_body_def drain_None [OF e] frames_None [OF e])
next
  case (Cons v vs)
  then have v: "json_ok v" "is_plain_object v" "int (utf8_length (stringify v)) + 9 \<le> m" by simp_all
  have l: "one_line (stringify v)" using stringify_printable [of v] by (auto simp: one_line_def)
  have n: "stringify v \<noteq> js ''[DONE]''" using v(2) by (cases v) (simp_all add: is_plain_object_def js_def)
  have "utf8_length (js ''data: '' @ stringify v) \<le> utf8_length (js ''data: '') + utf8_length (stringify v)" by (rule utf8_append_le)
  moreover have "utf8_length (js ''data: '') = 6" by (simp add: js_def is_high_surrogate_def)
  ultimately have s: "int (utf8_length (sse_line (stringify v))) + 3 \<le> m" using v(3) by (simp add: sse_line_def)
  have p: "parseFrame (sse_line (stringify v)) m = Inr (Some (SseEvent v))"
    using parse_line [OF l] v n parse_stringify [OF v(1)] by simp
  have b: "sse_body (v # vs) = sse_line (stringify v) @ 10 # 10 # sse_body vs" by (simp add: sse_body_def)
  show ?case using drain_line [OF l p, of "sse_body vs"] Cons s by (simp add: b)
qed

section \<open>Properties\<close>

text \<open>The text of the bytes up to the first that cannot be decoded.\<close>

fun decodable :: "decoder_state \<Rightarrow> nat list \<Rightarrow> js_string" where
  "decodable s [] = []"
| "decodable s (b # bs) = (case utf8_byte (dc_part s) b of
     None \<Rightarrow> []
   | Some (p, out) \<Rightarrow> snd (decoded s p out) @ decodable (fst (decoded s p out)) bs)"

lemma decodable_append: "decode_stream s a = Some (e, u) \<Longrightarrow> decodable s (a @ b) = u @ decodable e b"
proof (induction a arbitrary: s u)
  case (Cons c a)
  then obtain p out where p: "utf8_byte (dc_part s) c = Some (p, out)" by (auto split: option.splits)
  obtain t x where d: "decoded s p out = (t, x)" by (cases "decoded s p out")
  from Cons.prems obtain v where "decode_stream t a = Some (e, v)" "u = x @ v" by (auto simp: p d)
  with Cons.IH [OF this(1)] show ?case by (simp add: p d)
qed simp

text \<open>All items that a body has: what every division of it yields, until an error stops it.\<close>

definition body_items :: "int \<Rightarrow> decoder_state \<Rightarrow> js_string \<Rightarrow> nat list \<Rightarrow> sse_item list" where
  "body_items m d buffer bs = (case decode_stream d bs of
     Some (e, t) \<Rightarrow> fst (body_outcome m e (buffer @ t))
   | None \<Rightarrow> fst (drain_frames m (buffer @ decodable d bs)))"

lemma body_outcome_error: "drain_frames m s = (xs, Inl e) \<Longrightarrow> body_outcome m d s = (xs, Some e)"
  by (simp add: body_outcome_def)

lemma body_items_step:
  assumes "decode_stream d bs = Some (e, u)"
  shows "drain_frames m (buffer @ u) = (xs, Inl x) \<Longrightarrow> body_items m d buffer (bs @ cs) = xs"
    "drain_frames m (buffer @ u) = (xs, Inr rest) \<Longrightarrow> body_items m d buffer (bs @ cs) = xs @ body_items m e rest cs"
proof -
  note a = decodable_append [OF assms, of cs]
  {
    assume r: "drain_frames m (buffer @ u) = (xs, Inl x)"
    show "body_items m d buffer (bs @ cs) = xs"
    proof (cases "decode_stream e cs")
      case None
      then show ?thesis using drain_append(1) [OF r, of "decodable e cs"] by (simp add: body_items_def decode_append assms a)
    next
      case (Some y)
      then show ?thesis using drain_append(1) [OF r, of "snd y"]
        by (cases y) (simp add: body_items_def decode_append assms body_outcome_error)
    qed
  next
    assume r: "drain_frames m (buffer @ u) = (xs, Inr rest)"
    show "body_items m d buffer (bs @ cs) = xs @ body_items m e rest cs"
    proof (cases "decode_stream e cs")
      case None
      then show ?thesis using drain_append(2) [OF r, of "decodable e cs"] by (simp add: body_items_def decode_append assms a)
    next
      case (Some y)
      then show ?thesis using drain_append(2) [OF r, of "snd y"]
        by (cases y) (simp add: body_items_def decode_append assms body_outcome_def split: prod.splits sum.splits)
    qed
  }
qed

lemma loop_items:
  assumes "findEventBoundary buffer = None" and "read_loop m (\<lambda>_. False) d buffer items (map Chunk css) = (r, c)"
  shows "\<exists>ys zs. r = items @ ys \<and> body_items m d buffer (concat css) = ys @ zs
    \<and> (c = None \<longrightarrow> zs = [] \<and> decode_stream d (concat css) \<noteq> None)"
  using assms
proof (induction css arbitrary: d buffer items)
  case Nil
  then show ?case by (auto simp: body_items_def body_outcome_def drain_None split: if_splits prod.splits)
next
  case (Cons bs css)
  show ?case
  proof (cases "decode_stream d bs")
    case None
    with Cons.prems show ?thesis by auto
  next
    case (Some y)
    then obtain e u where d: "decode_stream d bs = Some (e, u)" by (cases y) simp
    note step = body_items_step [OF d, of m buffer _ _ "concat css"]
    obtain xs x where x: "drain_frames m (buffer @ u) = (xs, x)" by (cases "drain_frames m (buffer @ u)")
    show ?thesis
    proof (cases x)
      case (Inl f)
      with Cons.prems x d show ?thesis using step(1) [OF x [unfolded Inl]] by auto
    next
      case (Inr rest)
      note s = step(2) [OF x [unfolded Inr]]
      show ?thesis
      proof (cases "assertBounded rest m")
        case (Some f)
        with Cons.prems x d Inr s show ?thesis by auto
      next
        case None
        have "findEventBoundary rest = None" using drain_append(2) [OF x [unfolded Inr]] by blast
        moreover have "read_loop m (\<lambda>_. False) e rest (items @ xs) (map Chunk css) = (r, c)" using Cons.prems(2) x d Inr None by simp
        ultimately obtain ys zs where "r = (items @ xs) @ ys" "body_items m e rest (concat css) = ys @ zs"
          "c = None \<longrightarrow> zs = [] \<and> decode_stream e (concat css) \<noteq> None" using Cons.IH by blast
        then show ?thesis using s d by (intro exI [of _ "xs @ ys"] exI [of _ zs]) (auto simp: decode_append)
      qed
    qed
  qed
qed


text \<open>
  C22: what a server sends is received.  If the bytes of the chunks are the UTF-8 of a stream with
  one event for each of a list of objects and the trailer, then the reader yields exactly these
  objects, in order, and the end, and throws nothing.
\<close>

theorem stream_roundtrip:
  assumes "decode_stream new_decoder (concat css) = Some (d, sse_body vs)" and "dc_part d = Idle"
    and "\<forall>v\<in>set vs. json_ok v \<and> is_plain_object v \<and> int (utf8_length (stringify v)) + 9 \<le> maxEventBytes"
    and "15 \<le> maxEventBytes" and "maxEventBytes \<le> max_safe_integer"
  shows "parseResponsesSse maxEventBytes (\<lambda>_. False) (map Chunk css) = (map SseEvent vs @ [SseDone], None)"
proof -
  have e: "findEventBoundary [] = None" by (simp add: boundary_rec)
  note b = drain_body [OF assms(3,4)]
  from loop_outcome [OF assms(1) e, of maxEventBytes "[]"] b assms(2,4,5) show ?thesis
    by (simp add: parseResponsesSse_def body_outcome_def last_frame_def is_safe_integer_def max_safe_integer_def)
qed

definition limit_event :: js_string where
  "limit_event = js ''data:{}''"

text \<open>
  An event at the limit depends on the network.  The buffer is compared with the limit when it
  holds an event and a part of its separator; so a body whose event is exactly as large as the limit
  is accepted in one chunk, and refused when a chunk ends within the separator.
\<close>

theorem event_at_limit_depends_on_chunks:
  "parseResponsesSse 7 (\<lambda>_. False) [Chunk (limit_event @ [10, 10])] = ([SseEvent (JObj [])], None)
    \<and> parseResponsesSse 7 (\<lambda>_. False) [Chunk (limit_event @ [10]), Chunk [10]] = ([], Some (protocolError ''responses_event_too_large''))"
proof -
  have d: "decode_stream new_decoder (limit_event @ [10, 10]) = Some (\<lparr>dc_part = Idle, dc_started = True\<rparr>, limit_event @ [10, 10])"
    "decode_stream new_decoder (limit_event @ [10]) = Some (\<lparr>dc_part = Idle, dc_started = True\<rparr>, limit_event @ [10])"
    by (simp_all add: limit_event_def new_decoder_def decoded_def utf16_units_def js_def)
  have l: "one_line limit_event" by (simp add: limit_event_def one_line_def js_def)
  have p: "parseFrame limit_event 7 = Inr (Some (SseEvent (JObj [])))"
    using split_one_line [OF l] parse_stringify [of "JObj []"]
    by (simp add: parseFrame_def assertBounded_def data_lines_def limit_event_def line_field_def line_value_def js_def is_high_surrogate_def
        from_entries_def property_order_def)
  have e: "findEventBoundary [] = None" "findEventBoundary (limit_event @ [10]) = None"
    by (simp_all add: boundary_rec limit_event_def js_def separator_def)
  from boundary_line [OF l, of "[]"] have "drain_frames 7 (limit_event @ [10, 10]) = ([SseEvent (JObj [])], Inr [])"
    by (simp add: drain_Some p drain_None [OF e(1)])
  then show ?thesis using drain_None [OF e(2)]
    by (simp add: parseResponsesSse_def d assertBounded_def last_frame_def is_safe_integer_def max_safe_integer_def)
      (simp add: limit_event_def js_def is_high_surrogate_def)
qed

section \<open>A concrete stream\<close>

definition sample_body :: "nat list" where
  "sample_body = sse_body [JObj []]"

lemma sample_body_decodes: "decode_stream new_decoder sample_body = Some (\<lparr>dc_part = Idle, dc_started = True\<rparr>, sse_body [JObj []])"
  by (simp add: sample_body_def sse_body_def sse_line_def new_decoder_def decoded_def utf16_units_def js_def)


text \<open>The error that comes first depends on the chunks: an event before a byte that is not UTF-8 is yielded only from a chunk of its own.\<close>

lemma undecodable_chunks:
  "fst (parseResponsesSse 100 (\<lambda>_. False) [Chunk sample_body, Chunk [255]]) = [SseEvent (JObj []), SseDone]"
  "parseResponsesSse 100 (\<lambda>_. False) [Chunk (sample_body @ [255])] = ([], Some decode_failed)"
proof -
  have d: "drain_frames 100 (sse_body [JObj []]) = (map SseEvent [JObj []] @ [SseDone], Inr [])"
    using drain_body [of "[JObj []]" 100] by (simp add: from_entries_def property_order_def is_high_surrogate_def)
  have l: "lead_byte 255 = None" by (simp add: lead_byte_def)
  show "fst (parseResponsesSse 100 (\<lambda>_. False) [Chunk sample_body, Chunk [255]]) = [SseEvent (JObj []), SseDone]"
    by (simp add: parseResponsesSse_def is_safe_integer_def max_safe_integer_def sample_body_decodes d assertBounded_def l)
  show "parseResponsesSse 100 (\<lambda>_. False) [Chunk (sample_body @ [255])] = ([], Some decode_failed)"
    by (simp add: parseResponsesSse_def is_safe_integer_def max_safe_integer_def decode_append sample_body_decodes l)
qed

theorem stream_roundtrip_witness:
  "parseResponsesSse 100 (\<lambda>_. False) (map Chunk [take 9 sample_body, drop 9 sample_body]) = ([SseEvent (JObj []), SseDone], None)"
  using stream_roundtrip [of "[take 9 sample_body, drop 9 sample_body]" _ "[JObj []]" 100] sample_body_decodes
  by (simp add: from_entries_def property_order_def is_high_surrogate_def max_safe_integer_def)

end
