(* ===== verification/Context_History.thy ===== *)
theory Context_History
  imports Run_Events
begin

text \<open>
  The context a model is given, \<open>normalize-context-history.ts\<close>: messages, tool calls and tool results within bounds on
  their number and size.  A provider accepts a context only if every call is answered; normalisation drops results
  without a call and answers calls without a result.  Field prefixes \<open>pe\<close> for an entry with its place in the history
  and \<open>nc\<close> for what normalisation returns.
\<close>

section \<open>Data\<close>

datatype context_role = UserRole | AssistantRole | DeveloperRole | SystemRole | OtherRole js_string

datatype context_item =
    ContextMessage context_role js_string
  | ContextCall tool_kind js_string js_string js_string
  | ContextResult tool_kind js_string js_string

datatype repair_kind = MissingToolResultInserted | OrphanToolResultDropped

record context_repair =
  cr_kind :: repair_kind
  cr_toolKind :: tool_kind
  cr_callId :: js_string

record projection_entry =
  pe_sourceSequence :: int
  pe_item :: context_item

record normalized_context =
  nc_items :: "context_item list"
  nc_sourceSequences :: "int list"
  nc_repairs :: "context_repair list"
  nc_historyRewritten :: bool
  nc_byteLength :: nat

definition default_max_items :: int where
  "default_max_items = 256"

definition max_context_bytes :: int where
  "max_context_bytes = 512 * 1024"

definition missing_tool_result_output :: js_string where
  "missing_tool_result_output = js ''aborted''"

section \<open>Checks\<close>

definition ch_throw_if :: "bool \<Rightarrow> string \<Rightarrow> check" where
  "ch_throw_if b code = throw_if b (ContextHistoryError code)"

lemma ch_throw_if_None [simp]: "ch_throw_if b code = None \<longleftrightarrow> \<not> b"
  by (simp add: ch_throw_if_def)

definition validateLimits :: "int \<Rightarrow> int \<Rightarrow> check" where
  "validateLimits maxItems maxBytes = first_throw
     [ch_throw_if (\<not> is_safe_integer maxItems \<or> maxItems < 1 \<or> 10000 < maxItems) ''context_item_limit_invalid'',
      ch_throw_if (\<not> is_safe_integer maxBytes \<or> maxBytes < 1 \<or> 64 * 1024 * 1024 < maxBytes) ''context_byte_limit_invalid'']"

definition validateSourceSequence :: "int \<Rightarrow> check" where
  "validateSourceSequence n = ch_throw_if (\<not> is_safe_integer n \<or> n < 1) ''context_source_sequence_invalid''"

definition isToolKind :: "tool_kind \<Rightarrow> bool" where
  "isToolKind k = (case k of OtherToolKind _ \<Rightarrow> False | _ \<Rightarrow> True)"

definition isBoundedString :: "js_string \<Rightarrow> nat \<Rightarrow> bool" where
  "isBoundedString s maxBytes \<longleftrightarrow> 0 < length s \<and> utf8_length s \<le> maxBytes"

text \<open>The size of an item, or the error.\<close>

fun validateItem :: "context_item \<Rightarrow> nat res" where
  "validateItem (ContextMessage role content) =
     (if (case role of OtherRole _ \<Rightarrow> True | _ \<Rightarrow> False) \<or> \<not> isBoundedString content (64 * 1024)
      then Inl (ContextHistoryError ''context_message_invalid'') else Inr (utf8_length content))"
| "validateItem (ContextCall kind callId name input) =
     (if \<not> isToolKind kind \<or> \<not> isBoundedString callId 512 \<or> \<not> isBoundedString name 256 \<or> 32 * 1024 < utf8_length input
      then Inl (ContextHistoryError ''context_tool_call_invalid'') else Inr (utf8_length input))"
| "validateItem (ContextResult kind callId out) =
     (if \<not> isToolKind kind \<or> \<not> isBoundedString callId 512 \<or> 40000 < utf8_length out
      then Inl (ContextHistoryError ''context_tool_result_invalid'') else Inr (utf8_length out))"

section \<open>Normalisation\<close>

text \<open>The first loop: the sizes, and the calls with their index and kind.\<close>

fun collect_calls :: "nat \<Rightarrow> (js_string \<rightharpoonup> nat \<times> tool_kind) \<Rightarrow> nat \<Rightarrow> projection_entry list
    \<Rightarrow> ((js_string \<rightharpoonup> nat \<times> tool_kind) \<times> nat) res" where
  "collect_calls index calls totalBytes [] = Inr (calls, totalBytes)"
| "collect_calls index calls totalBytes (e # es) = guarded [validateSourceSequence (pe_sourceSequence e)]
     (then_do (validateItem (pe_item e)) (\<lambda>bytes. case pe_item e of
        ContextCall kind callId name input \<Rightarrow> guarded [ch_throw_if (calls callId \<noteq> None) ''context_tool_call_duplicate'']
          (collect_calls (Suc index) (calls(callId \<mapsto> (index, kind))) (totalBytes + bytes) es)
      | _ \<Rightarrow> collect_calls (Suc index) calls (totalBytes + bytes) es))"

text \<open>The second loop: the results that answer an earlier call of their kind first, and the calls they answer.\<close>

definition answers :: "(js_string \<rightharpoonup> nat \<times> tool_kind) \<Rightarrow> js_string set \<Rightarrow> nat \<Rightarrow> context_item \<Rightarrow> js_string option" where
  "answers calls matchedCalls index item = (case item of
     ContextResult kind callId out \<Rightarrow> (case calls callId of
        None \<Rightarrow> None
      | Some (i, k) \<Rightarrow> if i < index \<and> k = kind \<and> callId \<notin> matchedCalls then Some callId else None)
   | _ \<Rightarrow> None)"

fun match_results :: "(js_string \<rightharpoonup> nat \<times> tool_kind) \<Rightarrow> nat \<Rightarrow> nat set \<Rightarrow> js_string set \<Rightarrow> projection_entry list \<Rightarrow> nat set \<times> js_string set" where
  "match_results calls index matchedResults matchedCalls [] = (matchedResults, matchedCalls)"
| "match_results calls index matchedResults matchedCalls (e # es) = (case answers calls matchedCalls index (pe_item e) of
     Some callId \<Rightarrow> match_results calls (Suc index) (insert index matchedResults) (insert callId matchedCalls) es
   | None \<Rightarrow> match_results calls (Suc index) matchedResults matchedCalls es)"

text \<open>The third loop: the entries and the repairs.\<close>

fun repair_entries :: "nat set \<Rightarrow> js_string set \<Rightarrow> nat \<Rightarrow> projection_entry list \<Rightarrow> projection_entry list \<times> context_repair list" where
  "repair_entries matchedResults matchedCalls index [] = ([], [])"
| "repair_entries matchedResults matchedCalls index (e # es) =
     (let (entries, repairs) = repair_entries matchedResults matchedCalls (Suc index) es in
      case pe_item e of
        ContextResult kind callId out \<Rightarrow> if index \<notin> matchedResults
          then (entries, \<lparr>cr_kind = OrphanToolResultDropped, cr_toolKind = kind, cr_callId = callId\<rparr> # repairs)
          else (e # entries, repairs)
      | ContextCall kind callId name input \<Rightarrow> if callId \<notin> matchedCalls
          then (e # \<lparr>pe_sourceSequence = pe_sourceSequence e, pe_item = ContextResult kind callId missing_tool_result_output\<rparr> # entries,
                \<lparr>cr_kind = MissingToolResultInserted, cr_toolKind = kind, cr_callId = callId\<rparr> # repairs)
          else (e # entries, repairs)
      | ContextMessage role content \<Rightarrow> (e # entries, repairs))"

fun sum_items :: "nat \<Rightarrow> context_item list \<Rightarrow> nat res" where
  "sum_items bytes [] = Inr bytes"
| "sum_items bytes (i # is) = then_do (validateItem i) (\<lambda>b. sum_items (bytes + b) is)"

definition normalizeContextHistoryEntries :: "projection_entry list \<Rightarrow> int option \<Rightarrow> int option \<Rightarrow> normalized_context res" where
  "normalizeContextHistoryEntries input maxItemsOption maxBytesOption = (let maxItems = nullish maxItemsOption default_max_items;
       maxBytes = nullish maxBytesOption max_context_bytes in guarded
     [validateLimits maxItems maxBytes,
      ch_throw_if (input = []) ''context_history_empty'',
      ch_throw_if (maxItems < int (length input)) ''context_history_item_limit_exceeded'']
     (then_do (collect_calls 0 Map.empty 0 input) (\<lambda>(calls, totalBytes). guarded
        [ch_throw_if (maxBytes < int totalBytes) ''context_history_byte_limit_exceeded'']
        (let (matchedResults, matchedCalls) = match_results calls 0 {} {} input;
             (entries, repairs) = repair_entries matchedResults matchedCalls 0 input in
         guarded [ch_throw_if (maxItems < int (length entries)) ''normalized_context_item_limit_exceeded'']
           (then_do (sum_items 0 (map pe_item entries)) (\<lambda>normalizedBytes. guarded
              [ch_throw_if (maxBytes < int normalizedBytes) ''normalized_context_byte_limit_exceeded'']
              (Inr \<lparr>nc_items = map pe_item entries, nc_sourceSequences = map pe_sourceSequence entries, nc_repairs = repairs,
                 nc_historyRewritten = (0 < length repairs), nc_byteLength = normalizedBytes\<rparr>)))))))"

definition numbered_entries :: "context_item list \<Rightarrow> projection_entry list" where
  "numbered_entries items = map (\<lambda>(n, i). \<lparr>pe_sourceSequence = int n, pe_item = i\<rparr>) (zip [1..<Suc (length items)] items)"

definition normalizeContextHistory :: "context_item list \<Rightarrow> int option \<Rightarrow> int option \<Rightarrow> normalized_context res" where
  "normalizeContextHistory input maxItems maxBytes =
     then_do (normalizeContextHistoryEntries (numbered_entries input) maxItems maxBytes) (\<lambda>normalized.
       Inr (if nc_historyRewritten normalized then normalized else normalized\<lparr>nc_items := input\<rparr>))"

text \<open>The loop of \<open>boundedContextTail\<close> from the newest item: how many items are kept.\<close>

fun tail_count :: "int \<Rightarrow> int \<Rightarrow> nat \<Rightarrow> nat \<Rightarrow> context_item list \<Rightarrow> nat res" where
  "tail_count maxItems maxBytes kept bytes [] = Inr kept"
| "tail_count maxItems maxBytes kept bytes (i # older) =
     (if int kept < maxItems - 1 then
        then_do (validateItem i) (\<lambda>b.
          let next = b + (case i of ContextCall _ _ _ _ \<Rightarrow> utf8_length missing_tool_result_output | _ \<Rightarrow> 0) in
          if maxBytes < int (bytes + next) then Inr kept
          else tail_count maxItems maxBytes (Suc kept) (bytes + next) older)
      else Inr kept)"

definition boundedContextTail :: "context_item list \<Rightarrow> int \<Rightarrow> int \<Rightarrow> normalized_context res" where
  "boundedContextTail input maxItems maxBytes = guarded [validateLimits maxItems maxBytes]
     (then_do (sum_items 0 input) (\<lambda>inputBytes.
        if int (length input) \<le> maxItems \<and> int inputBytes \<le> maxBytes then normalizeContextHistory input (Some maxItems) (Some maxBytes)
        else then_do (tail_count maxItems maxBytes 0 0 (rev input)) (\<lambda>kept.
          then_do (normalizeContextHistory (drop (length input - kept) input) (Some maxItems) (Some maxBytes)) (\<lambda>normalized.
            Inr (normalized\<lparr>nc_historyRewritten := True\<rparr>)))))"


section \<open>Answered contexts\<close>

text \<open>
  The protocol of tool calls: every call is open until the one result with its identifier and kind that comes after it,
  and at the end no call is open.
\<close>

fun balanced :: "(js_string \<times> tool_kind) set \<Rightarrow> context_item list \<Rightarrow> bool" where
  "balanced pending [] \<longleftrightarrow> pending = {}"
| "balanced pending (ContextMessage role content # is) \<longleftrightarrow> balanced pending is"
| "balanced pending (ContextCall kind callId name input # is) \<longleftrightarrow> callId \<notin> fst ` pending \<and> balanced (insert (callId, kind) pending) is"
| "balanced pending (ContextResult kind callId out # is) \<longleftrightarrow> (callId, kind) \<in> pending \<and> balanced (pending - {(callId, kind)}) is"

fun call_ids :: "context_item list \<Rightarrow> js_string list" where
  "call_ids [] = []"
| "call_ids (ContextCall kind callId name input # is) = callId # call_ids is"
| "call_ids (_ # is) = call_ids is"

definition answered :: "context_item list \<Rightarrow> bool" where
  "answered is \<longleftrightarrow> balanced {} is \<and> distinct (call_ids is)"

text \<open>What the map of calls says of the entries from an index on.\<close>

definition calls_from :: "(js_string \<rightharpoonup> nat \<times> tool_kind) \<Rightarrow> nat \<Rightarrow> context_item list \<Rightarrow> bool" where
  "calls_from calls index is \<longleftrightarrow> (\<forall>c j k. calls c = Some (j, k) \<and> index \<le> j \<longleftrightarrow> index \<le> j \<and> j < index + length is
     \<and> (\<exists>n x. is ! (j - index) = ContextCall k c n x))"

lemma calls_from_Cons: "calls_from calls index (i # is) \<Longrightarrow> calls_from calls (Suc index) is
    \<and> (\<forall>c k. calls c = Some (index, k) \<longleftrightarrow> (\<exists>n x. i = ContextCall k c n x))"
proof -
  assume a: "calls_from calls index (i # is)"
  have "calls c = Some (j, k) \<and> Suc index \<le> j \<longleftrightarrow> Suc index \<le> j \<and> j < Suc index + length is
      \<and> (\<exists>n x. is ! (j - Suc index) = ContextCall k c n x)" for c j k
  proof (cases "Suc index \<le> j")
    case True
    then have "(i # is) ! (j - index) = is ! (j - Suc index)" by (simp add: nth_Cons' Suc_diff_Suc)
    with a [unfolded calls_from_def, rule_format, of c j k] True show ?thesis by simp
  qed simp
  moreover have "calls c = Some (index, k) \<longleftrightarrow> (\<exists>n x. i = ContextCall k c n x)" for c k
    using a [unfolded calls_from_def, rule_format, of c index k] by simp
  ultimately show ?thesis unfolding calls_from_def by blast
qed

lemma calls_from_call: "calls_from calls index (ContextCall k c n x # is) \<Longrightarrow> calls c = Some (index, k)"
  using calls_from_Cons by blast

text \<open>The first loop succeeds on valid items with distinct calls, and returns the map of the calls and the size.\<close>

fun item_bytes :: "context_item \<Rightarrow> nat" where
  "item_bytes (ContextMessage role content) = utf8_length content"
| "item_bytes (ContextCall kind callId name input) = utf8_length input"
| "item_bytes (ContextResult kind callId out) = utf8_length out"

definition item_ok :: "context_item \<Rightarrow> bool" where
  "item_ok i \<longleftrightarrow> (\<exists>n. validateItem i = Inr n)"

lemma validateItem_Inr: "validateItem i = Inr n \<longleftrightarrow> item_ok i \<and> n = item_bytes i"
  by (cases i) (auto simp: item_ok_def)

definition total_bytes :: "context_item list \<Rightarrow> nat" where
  "total_bytes is = (\<Sum>i\<leftarrow>is. item_bytes i)"

lemma sum_items_Inr: "sum_items b is = Inr n \<longleftrightarrow> (\<forall>i\<in>set is. item_ok i) \<and> n = b + total_bytes is"
  by (induction "is" arbitrary: b) (auto simp: validateItem_Inr total_bytes_def)

fun calls_map :: "nat \<Rightarrow> (js_string \<rightharpoonup> nat \<times> tool_kind) \<Rightarrow> context_item list \<Rightarrow> (js_string \<rightharpoonup> nat \<times> tool_kind)" where
  "calls_map index calls [] = calls"
| "calls_map index calls (ContextCall kind callId name input # is) = calls_map (Suc index) (calls(callId \<mapsto> (index, kind))) is"
| "calls_map index calls (_ # is) = calls_map (Suc index) calls is"

lemma collect_Inr: "collect_calls index calls b es = Inr (m, n) \<longleftrightarrow>
    (\<forall>e\<in>set es. positive_safe_integer (pe_sourceSequence e) \<and> item_ok (pe_item e))
    \<and> distinct (call_ids (map pe_item es)) \<and> (\<forall>c\<in>set (call_ids (map pe_item es)). calls c = None)
    \<and> n = b + total_bytes (map pe_item es) \<and> m = calls_map index calls (map pe_item es)"
proof (induction es arbitrary: index calls b)
  case (Cons e es)
  have p: "validateSourceSequence (pe_sourceSequence e) = None \<longleftrightarrow> positive_safe_integer (pe_sourceSequence e)"
    by (simp add: validateSourceSequence_def positive_safe_integer_def not_less)
  show ?case by (cases "pe_item e") (auto simp: Cons p validateItem_Inr total_bytes_def fun_upd_def split: if_splits simp del: validateItem.simps not_None_eq)
qed (auto simp: total_bytes_def)

lemma calls_map_Some:
  assumes "distinct (call_ids is)" and "\<forall>c\<in>set (call_ids is). calls c = None"
  shows "calls_map index calls is c = Some (j, k) \<longleftrightarrow> calls c = Some (j, k)
    \<or> index \<le> j \<and> j < index + length is \<and> (\<exists>n x. is ! (j - index) = ContextCall k c n x)"
  using assms
proof (induction "is" arbitrary: index calls)
  case (Cons i "is")
  have nth: "index \<le> j \<and> j < index + length (i # is) \<and> (\<exists>n x. (i # is) ! (j - index) = ContextCall k c n x) \<longleftrightarrow>
      j = index \<and> (\<exists>n x. i = ContextCall k c n x)
      \<or> Suc index \<le> j \<and> j < Suc index + length is \<and> (\<exists>n x. is ! (j - Suc index) = ContextCall k c n x)" for i
    by (cases "j = index") (auto simp: nth_Cons' Suc_le_eq)
  show ?case
  proof (cases i)
    case (ContextCall k' c' n x)
    with Cons.prems have "distinct (call_ids is)" "\<forall>d\<in>set (call_ids is). (calls(c' \<mapsto> (index, k'))) d = None" by auto
    note ih = Cons.IH [OF this, of "Suc index"]
    have "calls c' = None" using Cons.prems ContextCall by simp
    then show ?thesis unfolding nth unfolding ContextCall calls_map.simps ih by auto
  next
    case (ContextMessage r x)
    then show ?thesis using Cons.IH [of calls "Suc index"] Cons.prems unfolding nth by simp
  next
    case (ContextResult r c' x)
    then show ?thesis using Cons.IH [of calls "Suc index"] Cons.prems unfolding nth by simp
  qed
qed auto

lemma calls_map_from: "distinct (call_ids is) \<Longrightarrow> calls_from (calls_map 0 Map.empty is) 0 is"
  unfolding calls_from_def by (auto simp: calls_map_Some)

section \<open>The repaired context is answered\<close>

lemma match_grows:
  assumes "match_results calls index mr mc es = (MR, MC)"
  shows "mr \<subseteq> MR" "mc \<subseteq> MC" "x \<in> MR \<Longrightarrow> x \<in> mr \<or> index \<le> x"
proof -
  have "mr \<subseteq> MR \<and> mc \<subseteq> MC \<and> (\<forall>x\<in>MR. x \<in> mr \<or> index \<le> x)"
    using assms by (induction es arbitrary: index mr mc) (fastforce split: option.splits)+
  then show "mr \<subseteq> MR" "mc \<subseteq> MC" "x \<in> MR \<Longrightarrow> x \<in> mr \<or> index \<le> x" by auto
qed

text \<open>The calls before an index that wait for their result there; \<open>MC\<close> are the calls that have one.\<close>

definition waiting :: "(js_string \<rightharpoonup> nat \<times> tool_kind) \<Rightarrow> nat \<Rightarrow> js_string set \<Rightarrow> (js_string \<times> tool_kind) set" where
  "waiting calls index S = {(c, k). \<exists>i<index. calls c = Some (i, k) \<and> c \<in> S}"

lemma waiting_call: "calls c = Some (index, k) \<Longrightarrow> \<forall>a b. calls a = Some (index, b) \<longrightarrow> a = c \<Longrightarrow>
    waiting calls (Suc index) S = (if c \<in> S then insert (c, k) (waiting calls index S) else waiting calls index S)
    \<and> c \<notin> fst ` waiting calls index S"
  by (auto simp: waiting_def less_Suc_eq)

lemma waiting_other: "\<forall>c k. calls c \<noteq> Some (index, k) \<Longrightarrow> waiting calls (Suc index) S = waiting calls index S"
  by (auto simp: waiting_def less_Suc_eq)

lemma repaired_balanced:
  assumes "calls_from calls index (map pe_item es)" and "match_results calls index mr mc es = (MR, MC)"
    and "\<forall>x\<in>mr. x < index" and "\<forall>c\<in>mc. \<exists>i<index. \<exists>k. calls c = Some (i, k)"
  shows "balanced (waiting calls index (MC - mc)) (map pe_item (fst (repair_entries MR MC index es)))"
  using assms
proof (induction es arbitrary: index mr mc)
  case Nil
  then show ?case by (simp add: waiting_def)
next
  case (Cons e es)
  note fr = calls_from_Cons [OF Cons.prems(1) [unfolded list.map]]
  obtain out rs where r: "repair_entries MR MC (Suc index) es = (out, rs)" by (cases "repair_entries MR MC (Suc index) es")
  have mc: "\<forall>c\<in>mc. \<exists>i<Suc index. \<exists>k. calls c = Some (i, k)" using Cons.prems(4) less_Suc_eq by blast
  have mr: "\<forall>x\<in>mr. x < Suc index" using Cons.prems(3) less_Suc_eq by blast
  show ?case
  proof (cases "answers calls mc index (pe_item e)")
    case (Some c)
    then obtain k x i where e: "pe_item e = ContextResult k c x" and i: "calls c = Some (i, k)" "i < index" "c \<notin> mc"
      by (auto simp: answers_def split: context_item.splits option.splits if_splits)
    have m: "match_results calls (Suc index) (insert index mr) (insert c mc) es = (MR, MC)" using Cons.prems(2) Some by simp
    have in_MR: "index \<in> MR" "c \<in> MC" using match_grows(1,2) [OF m] by auto
    have "balanced (waiting calls (Suc index) (MC - insert c mc)) (map pe_item out)"
      using Cons.IH [OF _ m] fr mr mc i less_SucI r by auto
    moreover have "waiting calls (Suc index) (MC - insert c mc) = waiting calls index (MC - mc) - {(c, k)}"
      using fr e i by (subst waiting_other) (auto simp: waiting_def)
    moreover have "(c, k) \<in> waiting calls index (MC - mc)" using i in_MR by (auto simp: waiting_def)
    ultimately show ?thesis using in_MR by (simp add: e r)
  next
    case None
    then have m: "match_results calls (Suc index) mr mc es = (MR, MC)" using Cons.prems(2) by simp
    have ih: "balanced (waiting calls (Suc index) (MC - mc)) (map pe_item out)"
      using Cons.IH [OF _ m mr mc] fr r by auto
    have not_MR: "index \<notin> MR" using match_grows(3) [OF m, of index] Cons.prems(3) by auto
    show ?thesis
    proof (cases "pe_item e")
      case (ContextCall k c n x)
      have c: "calls c = Some (index, k)" using fr ContextCall by blast
      then have "c \<notin> mc" using Cons.prems(4) by fastforce
      have u: "\<forall>a b. calls a = Some (index, b) \<longrightarrow> a = c" using fr ContextCall by simp
      note w = waiting_call [where calls = calls and S = "MC - mc", OF c u]
      then have "waiting calls index (MC - mc) - {(c, k)} = waiting calls index (MC - mc)" by force
      with w ih \<open>c \<notin> mc\<close> show ?thesis by (auto simp: ContextCall r)
    next
      case (ContextMessage q x)
      then show ?thesis using ih waiting_other [of calls index] fr by (simp add: r)
    next
      case (ContextResult k c x)
      then show ?thesis using ih waiting_other [of calls index] fr not_MR by (simp add: r)
    qed
  qed
qed

lemma repaired_calls: "call_ids (map pe_item (fst (repair_entries MR MC index es))) = call_ids (map pe_item es)"
  by (induction es arbitrary: index) (auto simp: case_prod_unfold Let_def split: context_item.splits)

lemma repair_unchanged: "snd (repair_entries MR MC index es) = [] \<Longrightarrow> fst (repair_entries MR MC index es) = es"
  by (induction es arbitrary: index) (auto simp: case_prod_unfold Let_def split: context_item.splits if_splits)

text \<open>An answered context is not changed.\<close>

lemma balanced_matches:
  assumes "calls_from calls index (map pe_item es)" and "match_results calls index mr mc es = (MR, MC)"
    and "\<forall>x\<in>mr. x < index" and "\<forall>c\<in>mc. \<exists>i<index. \<exists>k. calls c = Some (i, k)"
    and "balanced (waiting calls index (- mc)) (map pe_item es)"
  shows "fst ` waiting calls index (- mc) \<subseteq> MC \<and> snd (repair_entries MR MC index es) = []"
  using assms
proof (induction es arbitrary: index mr mc)
  case Nil
  then show ?case by simp
next
  case (Cons e es)
  note fr = calls_from_Cons [OF Cons.prems(1) [unfolded list.map]]
  have mc: "\<forall>c\<in>mc. \<exists>i<Suc index. \<exists>k. calls c = Some (i, k)" using Cons.prems(4) less_Suc_eq by blast
  have mr: "\<forall>x\<in>mr. x < Suc index" using Cons.prems(3) less_Suc_eq by blast
  show ?case
  proof (cases "pe_item e")
    case (ContextMessage q x)
    then show ?thesis using Cons.IH [of "Suc index" mr mc] Cons.prems fr mr mc waiting_other [of calls index]
      by (simp add: answers_def split: prod.splits) fastforce
  next
    case (ContextCall k c n x)
    have c: "calls c = Some (index, k)" using fr ContextCall by blast
    then have n: "c \<notin> mc" using Cons.prems(4) by fastforce
    have u: "\<forall>a b. calls a = Some (index, b) \<longrightarrow> a = c" using fr ContextCall by simp
    show ?thesis using n Cons.IH [of "Suc index" mr mc] Cons.prems fr mr mc waiting_call [where calls = calls and S = "- mc", OF c u]
      by (simp add: ContextCall answers_def split: prod.splits) fastforce
  next
    case (ContextResult k c x)
    then have w: "(c, k) \<in> waiting calls index (- mc)" using Cons.prems(5) by simp
    then obtain i where i: "calls c = Some (i, k)" "i < index" "c \<notin> mc" by (auto simp: waiting_def)
    then have a: "answers calls mc index (pe_item e) = Some c" by (simp add: answers_def ContextResult)
    then have m: "match_results calls (Suc index) (insert index mr) (insert c mc) es = (MR, MC)" using Cons.prems(2) by simp
    have eq: "waiting calls (Suc index) (- insert c mc) = waiting calls index (- mc) - {(c, k)}"
      using fr ContextResult i by (subst waiting_other) (auto simp: waiting_def)
    have "fst ` waiting calls (Suc index) (- insert c mc) \<subseteq> MC \<and> snd (repair_entries MR MC (Suc index) es) = []"
      using Cons.IH [OF _ m] fr mr mc i less_SucI Cons.prems(5) eq ContextResult by auto
    moreover have "index \<in> MR" "c \<in> MC" using match_grows(1,2) [OF m] by auto
    moreover have "fst ` waiting calls index (- mc) \<subseteq> insert c (fst ` (waiting calls index (- mc) - {(c, k)}))" by force
    ultimately show ?thesis unfolding eq by (auto simp: ContextResult split: prod.splits)
  qed
qed

section \<open>What normalisation returns\<close>

definition repaired :: "projection_entry list \<Rightarrow> projection_entry list \<times> context_repair list" where
  "repaired es = (case match_results (calls_map 0 Map.empty (map pe_item es)) 0 {} {} es of (MR, MC) \<Rightarrow> repair_entries MR MC 0 es)"

definition entries_ok :: "projection_entry list \<Rightarrow> bool" where
  "entries_ok es \<longleftrightarrow> (\<forall>e\<in>set es. positive_safe_integer (pe_sourceSequence e) \<and> item_ok (pe_item e)) \<and> distinct (call_ids (map pe_item es))"

lemma normalize_Inr: "normalizeContextHistoryEntries input mi mb = Inr n \<longleftrightarrow>
    validateLimits (nullish mi default_max_items) (nullish mb max_context_bytes) = None \<and> input \<noteq> []
    \<and> int (length input) \<le> nullish mi default_max_items \<and> entries_ok input
    \<and> int (total_bytes (map pe_item input)) \<le> nullish mb max_context_bytes
    \<and> int (length (fst (repaired input))) \<le> nullish mi default_max_items
    \<and> (\<forall>e\<in>set (fst (repaired input)). item_ok (pe_item e))
    \<and> int (total_bytes (map pe_item (fst (repaired input)))) \<le> nullish mb max_context_bytes
    \<and> n = \<lparr>nc_items = map pe_item (fst (repaired input)), nc_sourceSequences = map pe_sourceSequence (fst (repaired input)),
        nc_repairs = snd (repaired input), nc_historyRewritten = (snd (repaired input) \<noteq> []),
        nc_byteLength = total_bytes (map pe_item (fst (repaired input)))\<rparr>"
proof -
  obtain MR MC where m: "match_results (calls_map 0 Map.empty (map pe_item input)) 0 {} {} input = (MR, MC)"
    by (cases "match_results (calls_map 0 Map.empty (map pe_item input)) 0 {} {} input")
  obtain es rs where r: "repair_entries MR MC 0 input = (es, rs)" by (cases "repair_entries MR MC 0 input")
  have e: "repaired input = (es, rs)" by (simp add: repaired_def m r)
  show ?thesis unfolding e
    by (auto simp: normalizeContextHistoryEntries_def Let_def collect_Inr sum_items_Inr entries_ok_def m r not_less
        simp del: validateItem.simps)
qed

lemma repaired_answered:
  assumes "entries_ok es"
  shows "answered (map pe_item (fst (repaired es)))" "answered (map pe_item es) \<Longrightarrow> repaired es = (es, [])"
    "snd (repaired es) = [] \<Longrightarrow> fst (repaired es) = es"
proof -
  let ?m = "calls_map 0 Map.empty (map pe_item es)"
  obtain MR MC where m: "match_results ?m 0 {} {} es = (MR, MC)" by (cases "match_results ?m 0 {} {} es")
  have d: "distinct (call_ids (map pe_item es))" using assms by (simp add: entries_ok_def)
  have w: "waiting ?m 0 S = {}" for S by (simp add: waiting_def)
  show "answered (map pe_item (fst (repaired es)))"
    using repaired_balanced [OF calls_map_from [OF d] m] d by (simp add: answered_def repaired_calls repaired_def m w)
  show u: "snd (repaired es) = [] \<Longrightarrow> fst (repaired es) = es" by (simp add: repaired_def m repair_unchanged)
  show "answered (map pe_item es) \<Longrightarrow> repaired es = (es, [])"
    using balanced_matches [OF calls_map_from [OF d] m] u by (cases "repaired es") (simp add: answered_def w repaired_def m)
qed

fun is_result :: "context_item \<Rightarrow> bool" where
  "is_result (ContextResult _ _ _) = True"
| "is_result _ = False"

lemma repair_keeps: "filter (\<lambda>e. \<not> is_result (pe_item e)) (fst (repair_entries MR MC index es)) = filter (\<lambda>e. \<not> is_result (pe_item e)) es"
  by (induction es arbitrary: index) (auto simp: case_prod_unfold Let_def split: context_item.splits)

lemma repaired_keeps: "filter (\<lambda>i. \<not> is_result i) (map pe_item (fst (repaired es))) = filter (\<lambda>i. \<not> is_result i) (map pe_item es)"
  using repair_keeps by (simp add: repaired_def filter_map comp_def split: prod.splits)

lemma numbered_items [simp]: "map pe_item (numbered_entries items) = items"
  by (cases items) (simp_all add: numbered_entries_def comp_def case_prod_unfold del: upt_Suc)

lemma numbered_length [simp]: "length (numbered_entries items) = length items"
  using arg_cong [OF numbered_items, of length] by (simp del: numbered_items)

lemma numbered_Nil [simp]: "numbered_entries items = [] \<longleftrightarrow> items = []"
  using numbered_length [of items] by (metis length_0_conv)

lemma limits_ok: "validateLimits m b = None \<Longrightarrow> 1 \<le> m \<and> m \<le> 10000"
  by (simp add: validateLimits_def not_less)

lemma numbered_ok: "int (length items) \<le> 10000 \<Longrightarrow> entries_ok (numbered_entries items) \<longleftrightarrow> (\<forall>i\<in>set items. item_ok i) \<and> distinct (call_ids items)"
proof -
  assume l: "int (length items) \<le> 10000"
  have "positive_safe_integer (pe_sourceSequence e)" if "e \<in> set (numbered_entries items)" for e
    using that l by (auto simp: numbered_entries_def positive_safe_integer_def is_safe_integer_def max_safe_integer_def dest!: set_zip_leftD)
  moreover have "(\<forall>e\<in>set (numbered_entries items). item_ok (pe_item e)) \<longleftrightarrow> (\<forall>i\<in>set items. item_ok i)"
    using arg_cong [OF numbered_items [of items], of set] by (metis (no_types, lifting) image_iff list.set_map)
  ultimately show ?thesis by (auto simp: entries_ok_def)
qed

lemma normalize_items_Inr:
  assumes "normalizeContextHistory items mi mb = Inr n"
  shows "\<exists>n'. normalizeContextHistoryEntries (numbered_entries items) mi mb = Inr n' \<and> n = n'"
proof -
  from assms obtain n' where n': "normalizeContextHistoryEntries (numbered_entries items) mi mb = Inr n'"
    and n: "n = (if nc_historyRewritten n' then n' else n'\<lparr>nc_items := items\<rparr>)"
    by (auto simp: normalizeContextHistory_def)
  have "entries_ok (numbered_entries items)" using n' by (simp add: normalize_Inr)
  from repaired_answered(3) [OF this] n' have "\<not> nc_historyRewritten n' \<Longrightarrow> nc_items n' = items" by (auto simp: normalize_Inr)
  then have "n = n'" using n by (cases n') auto
  then show ?thesis using n' by blast
qed

section \<open>Properties\<close>

text \<open>
  C19: every context a model is given is answered.  In a normalised context each call is followed by
  exactly one result of its kind and no result is without a call; all messages and calls of the input are
  there in their order; and the numbers and sizes are within the limits.
\<close>

theorem normalized_context_answered:
  assumes "normalizeContextHistoryEntries input mi mb = Inr n"
  shows "answered (nc_items n) \<and> filter (\<lambda>i. \<not> is_result i) (nc_items n) = filter (\<lambda>i. \<not> is_result i) (map pe_item input)
    \<and> length (nc_sourceSequences n) = length (nc_items n) \<and> int (length (nc_items n)) \<le> nullish mi default_max_items
    \<and> nc_byteLength n = total_bytes (nc_items n) \<and> int (nc_byteLength n) \<le> nullish mb max_context_bytes"
  using assms repaired_answered(1) [of input] repaired_keeps [of input] by (simp add: normalize_Inr)

text \<open>
  C20: a context is rewritten only when it must be.  Normalisation returns its input unchanged
  exactly when the input is answered, so that cached prefixes stay valid; and what it returns is a
  normal form: normalised again it is returned unchanged, if anything is left.
\<close>

theorem normalized_only_if_unanswered:
  assumes "normalizeContextHistoryEntries input mi mb = Inr n"
  shows "(\<not> nc_historyRewritten n \<longleftrightarrow> answered (map pe_item input))
    \<and> (\<not> nc_historyRewritten n \<longrightarrow> nc_items n = map pe_item input \<and> nc_sourceSequences n = map pe_sourceSequence input)
    \<and> (nc_items n \<noteq> [] \<longrightarrow> (\<exists>m. normalizeContextHistory (nc_items n) mi mb = Inr m \<and> nc_items m = nc_items n
        \<and> \<not> nc_historyRewritten m \<and> nc_byteLength m = nc_byteLength n))"
proof -
  note n = assms [unfolded normalize_Inr]
  then have ok: "entries_ok input" by simp
  note a = repaired_answered [OF ok]
  have "\<not> nc_historyRewritten n \<longleftrightarrow> answered (map pe_item input)"
    using n a by (cases "repaired input") auto
  moreover have "\<exists>m. normalizeContextHistory (nc_items n) mi mb = Inr m \<and> nc_items m = nc_items n
      \<and> \<not> nc_historyRewritten m \<and> nc_byteLength m = nc_byteLength n" if "nc_items n \<noteq> []"
  proof -
    let ?es = "numbered_entries (nc_items n)"
    have l: "int (length (nc_items n)) \<le> 10000" using n limits_ok by fastforce
    have "entries_ok ?es" using numbered_ok [OF l] n a(1) by (auto simp: answered_def)
    moreover have "repaired ?es = (?es, [])" using repaired_answered(2) [OF \<open>entries_ok ?es\<close>] a(1) n by simp
    ultimately have "normalizeContextHistoryEntries ?es mi mb = Inr \<lparr>nc_items = nc_items n, nc_sourceSequences = map pe_sourceSequence ?es,
        nc_repairs = [], nc_historyRewritten = False, nc_byteLength = total_bytes (nc_items n)\<rparr>"
      using n that unfolding normalize_Inr by (auto simp: entries_ok_def)
    then show ?thesis using n by (simp add: normalizeContextHistory_def)
  qed
  ultimately show ?thesis using n a(3) by auto
qed

text \<open>
  What may be kept: one item less than the limit, and within the bytes with room for the result that each call may still need.
\<close>

definition reserved_bytes :: "context_item list \<Rightarrow> nat" where
  "reserved_bytes is = (\<Sum>i\<leftarrow>is. item_bytes i + (case i of ContextCall _ _ _ _ \<Rightarrow> utf8_length missing_tool_result_output | _ \<Rightarrow> 0))"

definition tail_fits :: "int \<Rightarrow> int \<Rightarrow> context_item list \<Rightarrow> bool" where
  "tail_fits maxItems maxBytes is \<longleftrightarrow> int (length is) < maxItems \<and> int (reserved_bytes is) \<le> maxBytes"

lemma reserved_simps [simp]: "reserved_bytes [] = 0" "reserved_bytes (xs @ ys) = reserved_bytes xs + reserved_bytes ys"
  by (simp_all add: reserved_bytes_def)

lemma reserved_Cons: "reserved_bytes (i # is) = item_bytes i + (case i of ContextCall _ _ _ _ \<Rightarrow> utf8_length missing_tool_result_output | _ \<Rightarrow> 0)
    + reserved_bytes is"
  by (simp add: reserved_bytes_def)

lemma tail_fits_suffix: "tail_fits mi mb (xs @ ys) \<Longrightarrow> tail_fits mi mb ys"
  by (simp add: tail_fits_def)

text \<open>The loop stops where one item more does not fit.\<close>

lemma tail_count_maximal:
  assumes "tail_count mi mb (length kept) (reserved_bytes kept) (rev older) = Inr n" and "tail_fits mi mb kept"
  shows "\<exists>dropped tail. older = dropped @ tail \<and> n = length (tail @ kept) \<and> tail_fits mi mb (tail @ kept)
    \<and> (dropped = [] \<or> \<not> tail_fits mi mb (last dropped # tail @ kept))"
  using assms
proof (induction older arbitrary: kept rule: rev_induct)
  case (snoc i older)
  show ?case
  proof (cases "tail_fits mi mb (i # kept)")
    case True
    with snoc.prems have "tail_count mi mb (length (i # kept)) (reserved_bytes (i # kept)) (rev older) = Inr n"
      by (auto simp: tail_fits_def reserved_Cons validateItem_Inr Let_def add_ac split: if_splits simp del: validateItem.simps)
    from snoc.IH [OF this True] obtain dropped tail where "older = dropped @ tail" "n = length (tail @ i # kept)" "tail_fits mi mb (tail @ i # kept)"
      "dropped = [] \<or> \<not> tail_fits mi mb (last dropped # tail @ i # kept)" by blast
    then show ?thesis by (intro exI [of _ dropped] exI [of _ "tail @ [i]"]) simp
  next
    case False
    with snoc.prems have "n = length kept"
      by (auto simp: tail_fits_def reserved_Cons validateItem_Inr Let_def add_ac split: if_splits simp del: validateItem.simps)
    then show ?thesis using False snoc.prems(2) by (intro exI [of _ "older @ [i]"] exI [of _ "[]"]) simp
  qed
qed simp

text \<open>
  C37: the tail of a context that is too large is the longest newest part of it that fits.  A context within the
  limits is normalised whole.  Of any other the items from some point on are normalised: they are fewer than the limit and,
  with room for a result to each of their calls, within the bytes; and from no earlier point on they are.  The outcome is answered and
  within the limits, and has all messages and calls from that point on.
\<close>

theorem context_tail_is_newest:
  assumes "boundedContextTail input maxItems maxBytes = Inr n"
  shows "answered (nc_items n) \<and> int (length (nc_items n)) \<le> maxItems \<and> int (nc_byteLength n) \<le> maxBytes
    \<and> (\<exists>k m. normalizeContextHistory (drop k input) (Some maxItems) (Some maxBytes) = Inr m \<and> nc_items n = nc_items m
        \<and> filter (\<lambda>i. \<not> is_result i) (nc_items n) = filter (\<lambda>i. \<not> is_result i) (drop k input)
        \<and> (if int (length input) \<le> maxItems \<and> int (total_bytes input) \<le> maxBytes then k = 0 \<and> n = m
           else tail_fits maxItems maxBytes (drop k input) \<and> (\<forall>j<k. \<not> tail_fits maxItems maxBytes (drop j input)) \<and> nc_historyRewritten n))"
proof -
  let ?whole = "int (length input) \<le> maxItems \<and> int (total_bytes input) \<le> maxBytes"
  have "\<exists>k m. normalizeContextHistory (drop k input) (Some maxItems) (Some maxBytes) = Inr m
      \<and> nc_items n = nc_items m \<and> nc_byteLength n = nc_byteLength m
      \<and> (if ?whole then k = 0 \<and> n = m
         else tail_fits maxItems maxBytes (drop k input) \<and> (\<forall>j<k. \<not> tail_fits maxItems maxBytes (drop j input)) \<and> nc_historyRewritten n)"
  proof (cases ?whole)
    case True
    with assms show ?thesis by (auto simp: boundedContextTail_def sum_items_Inr intro!: exI [of _ 0])
  next
    case False
    then obtain kept m where t: "tail_count maxItems maxBytes 0 0 (rev input) = Inr kept"
      and m: "normalizeContextHistory (drop (length input - kept) input) (Some maxItems) (Some maxBytes) = Inr m"
      and n: "n = m\<lparr>nc_historyRewritten := True\<rparr>" and l: "validateLimits maxItems maxBytes = None"
      using assms by (auto simp: boundedContextTail_def sum_items_Inr split: if_splits)
    have "tail_fits maxItems maxBytes []" using l by (simp add: validateLimits_def tail_fits_def not_less)
    with tail_count_maximal [of maxItems maxBytes "[]" input kept] t obtain dropped tail where
      f: "input = dropped @ tail" "kept = length tail" "tail_fits maxItems maxBytes tail" "dropped = [] \<or> \<not> tail_fits maxItems maxBytes (last dropped # tail)"
      by auto
    have k: "length input - kept = length dropped" using f(1,2) by simp
    have "\<not> tail_fits maxItems maxBytes (drop j input)" if "j < length dropped" for j
    proof
      assume a: "tail_fits maxItems maxBytes (drop j input)"
      have "dropped \<noteq> []" using that by auto
      then obtain ds d where ds: "dropped = ds @ [d]" by (cases dropped rule: rev_cases) simp_all
      then have "drop j input = drop j ds @ last dropped # tail" using that f(1) by simp
      with a have "tail_fits maxItems maxBytes (last dropped # tail)" using tail_fits_suffix by metis
      with f(4) that show False by auto
    qed
    then show ?thesis using m n f(1,3) unfolding k if_not_P [OF False] by (intro exI [of _ "length dropped"] exI [of _ m]) simp
  qed
  then obtain k m where m: "normalizeContextHistory (drop k input) (Some maxItems) (Some maxBytes) = Inr m"
    and n: "nc_items n = nc_items m" "nc_byteLength n = nc_byteLength m"
    and k: "if ?whole then k = 0 \<and> n = m
      else tail_fits maxItems maxBytes (drop k input) \<and> (\<forall>j<k. \<not> tail_fits maxItems maxBytes (drop j input)) \<and> nc_historyRewritten n" by blast
  have r: "normalizeContextHistoryEntries (numbered_entries (drop k input)) (Some maxItems) (Some maxBytes) = Inr m"
    using normalize_items_Inr [OF m] by blast
  have "answered (nc_items n) \<and> int (length (nc_items n)) \<le> maxItems \<and> int (nc_byteLength n) \<le> maxBytes
      \<and> filter (\<lambda>i. \<not> is_result i) (nc_items n) = filter (\<lambda>i. \<not> is_result i) (drop k input)"
    using r repaired_answered(1) repaired_keeps [of "numbered_entries (drop k input)"] n by (auto simp: normalize_Inr)
  then show ?thesis using m n(1) k by blast
qed

section \<open>Concrete contexts\<close>

definition sample_context :: "context_item list" where
  "sample_context = [ContextMessage UserRole (js ''q''), ContextCall FunctionTool (js ''a'') (js ''f'') (js ''{}''),
     ContextResult CustomTool (js ''a'') (js ''x'')]"

lemma sample_context_entries: "repaired (numbered_entries sample_context) =
    ([\<lparr>pe_sourceSequence = 1, pe_item = ContextMessage UserRole (js ''q'')\<rparr>,
      \<lparr>pe_sourceSequence = 2, pe_item = ContextCall FunctionTool (js ''a'') (js ''f'') (js ''{}'')\<rparr>,
      \<lparr>pe_sourceSequence = 2, pe_item = ContextResult FunctionTool (js ''a'') missing_tool_result_output\<rparr>],
     [\<lparr>cr_kind = MissingToolResultInserted, cr_toolKind = FunctionTool, cr_callId = js ''a''\<rparr>,
      \<lparr>cr_kind = OrphanToolResultDropped, cr_toolKind = CustomTool, cr_callId = js ''a''\<rparr>])"
  by (simp add: repaired_def numbered_entries_def sample_context_def answers_def upt_rec numeral_eq_Suc)

lemma sample_context_normalized: "\<exists>n. normalizeContextHistoryEntries (numbered_entries sample_context) None None = Inr n
    \<and> length (nc_items n) = 3 \<and> nc_historyRewritten n"
proof -
  have "item_ok i" if "i \<in> {ContextMessage UserRole (js ''q''), ContextCall FunctionTool (js ''a'') (js ''f'') (js ''{}''),
      ContextResult CustomTool (js ''a'') (js ''x''), ContextResult FunctionTool (js ''a'') missing_tool_result_output}" for i
    using that by (auto simp: item_ok_def isToolKind_def isBoundedString_def missing_tool_result_output_def js_def is_high_surrogate_def)
  then show ?thesis
    unfolding normalize_Inr sample_context_entries
    by (simp add: sample_context_entries validateLimits_def default_max_items_def max_context_bytes_def is_safe_integer_def max_safe_integer_def
        entries_ok_def numbered_entries_def sample_context_def upt_rec positive_safe_integer_def total_bytes_def missing_tool_result_output_def
        js_def is_high_surrogate_def)
qed

theorem normalized_context_answered_witness:
  "\<exists>n. normalizeContextHistoryEntries (numbered_entries sample_context) None None = Inr n \<and> answered (nc_items n)"
  using sample_context_normalized normalized_context_answered by blast

theorem normalized_only_if_unanswered_witness: "\<not> answered sample_context"
  using sample_context_normalized normalized_only_if_unanswered [of "numbered_entries sample_context" None None] by auto

text \<open>
  Only one of the items the tail may have is kept free for a result that is inserted: a context that ends with two calls
  without result has no tail within three items, although its last call alone would have one.
\<close>

definition interrupted_context :: "context_item list" where
  "interrupted_context = [ContextMessage UserRole (js ''q''), ContextMessage AssistantRole (js ''r''),
     ContextCall FunctionTool (js ''a'') (js ''f'') (js ''{}''), ContextCall FunctionTool (js ''b'') (js ''f'') (js ''{}'')]"

lemma context_eval: "item_ok (ContextMessage UserRole (js ''q''))" "item_ok (ContextMessage AssistantRole (js ''r''))"
    "item_ok (ContextCall FunctionTool (js ''a'') (js ''f'') (js ''{}''))" "item_ok (ContextCall FunctionTool (js ''b'') (js ''f'') (js ''{}''))"
    "item_bytes (ContextMessage UserRole (js ''q'')) = 1" "item_bytes (ContextMessage AssistantRole (js ''r'')) = 1"
    "item_bytes (ContextCall k c m (js ''{}'')) = 2" "utf8_length missing_tool_result_output = 7"
  by (simp_all add: item_ok_def isToolKind_def isBoundedString_def missing_tool_result_output_def js_def is_high_surrogate_def)

lemma validate_eval: "validateItem (ContextMessage UserRole (js ''q'')) = Inr 1" "validateItem (ContextMessage AssistantRole (js ''r'')) = Inr 1"
    "validateItem (ContextCall FunctionTool (js ''a'') (js ''f'') (js ''{}'')) = Inr 2"
    "validateItem (ContextCall FunctionTool (js ''b'') (js ''f'') (js ''{}'')) = Inr 2"
  using context_eval by (simp_all only: validateItem_Inr)

lemma interrupted_tail_refused:
  "boundedContextTail interrupted_context 3 1000 = Inl (ContextHistoryError ''normalized_context_item_limit_exceeded'')"
proof -
  have s: "sum_items 0 interrupted_context = Inr 6" using context_eval by (simp add: sum_items_Inr interrupted_context_def total_bytes_def del: sum_items.simps)
  have t: "tail_count 3 1000 0 0 (rev interrupted_context) = Inr 2"
    by (simp add: interrupted_context_def validate_eval context_eval(8) del: validateItem.simps)
  have l: "validateLimits 3 1000 = None" by (simp add: validateLimits_def is_safe_integer_def max_safe_integer_def)
  let ?es = "numbered_entries (drop 2 interrupted_context)"
  have es: "?es = [\<lparr>pe_sourceSequence = 1, pe_item = ContextCall FunctionTool (js ''a'') (js ''f'') (js ''{}'')\<rparr>,
      \<lparr>pe_sourceSequence = 2, pe_item = ContextCall FunctionTool (js ''b'') (js ''f'') (js ''{}'')\<rparr>]"
    by (simp add: numbered_entries_def interrupted_context_def upt_rec)
  have i: "js ''a'' \<noteq> js ''b''" by (simp add: js_def)
  have c: "collect_calls 0 Map.empty 0 ?es = Inr (calls_map 0 Map.empty (map pe_item ?es), 4)"
    using context_eval(3,4,7) i unfolding collect_Inr es
    by (simp add: positive_safe_integer_def is_safe_integer_def max_safe_integer_def total_bytes_def)
  have m: "match_results (calls_map 0 Map.empty (map pe_item ?es)) 0 {} {} ?es = ({}, {})" unfolding es by (simp add: answers_def)
  obtain ns rs where re: "repair_entries {} {} 0 ?es = (ns, rs)" and ns: "length ns = 4" unfolding es by simp
  have n: "?es \<noteq> []" "length interrupted_context = 4" unfolding es by (simp_all add: interrupted_context_def)
  have "normalizeContextHistoryEntries ?es (Some 3) (Some 1000) = Inl (ContextHistoryError ''normalized_context_item_limit_exceeded'')"
    unfolding normalizeContextHistoryEntries_def Let_def nullish_simps l c then_do_simps prod.case m re
    using n ns by (simp add: ch_throw_if_def throw_if_def)
  then have "normalizeContextHistory (drop 2 interrupted_context) (Some 3) (Some 1000)
      = Inl (ContextHistoryError ''normalized_context_item_limit_exceeded'')" by (simp add: normalizeContextHistory_def)
  then show ?thesis unfolding boundedContextTail_def s t l then_do_simps by (simp add: interrupted_context_def)
qed

lemma short_context_normalized:
  "\<exists>n. normalizeContextHistory [ContextMessage UserRole (js ''q''), ContextMessage UserRole (js ''q'')] (Some 3) (Some 1000) = Inr n"
proof -
  let ?q = "ContextMessage UserRole (js ''q'')"
  let ?es = "numbered_entries [?q, ?q]"
  have l: "validateLimits 3 1000 = None" by (simp add: validateLimits_def is_safe_integer_def max_safe_integer_def)
  have r: "repaired ?es = (?es, [])" by (simp add: repaired_def numbered_entries_def upt_rec answers_def)
  have "\<exists>n. normalizeContextHistoryEntries ?es (Some 3) (Some 1000) = Inr n"
    using numbered_ok [of "[?q, ?q]"] context_eval(1,5) l unfolding normalize_Inr r
    by (simp add: total_bytes_def numbered_entries_def upt_rec)
  then show ?thesis by (auto simp: normalizeContextHistory_def)
qed

definition long_context :: "context_item list" where
  "long_context = (let q = ContextMessage UserRole (js ''q'') in [q, q, q, q])"

lemma long_context_tail: "\<exists>n. boundedContextTail long_context 3 1000 = Inr n"
proof -
  have s: "sum_items 0 long_context = Inr 4"
    using context_eval(1,5) by (simp add: sum_items_Inr long_context_def total_bytes_def Let_def del: sum_items.simps)
  have t: "tail_count 3 1000 0 0 (rev long_context) = Inr 2"
    by (simp add: long_context_def Let_def validate_eval context_eval(8) del: validateItem.simps)
  have l: "validateLimits 3 1000 = None" by (simp add: validateLimits_def is_safe_integer_def max_safe_integer_def)
  obtain n where "normalizeContextHistory (drop (length long_context - 2) long_context) (Some 3) (Some 1000) = Inr n"
    using short_context_normalized by (auto simp: long_context_def Let_def)
  then show ?thesis unfolding boundedContextTail_def s t l then_do_simps by (simp add: long_context_def Let_def)
qed

theorem context_tail_is_newest_witness:
  "\<exists>n k. boundedContextTail long_context 3 1000 = Inr n \<and> int (length (nc_items n)) \<le> 3 \<and> tail_fits 3 1000 (drop k long_context)
    \<and> nc_historyRewritten n"
proof -
  obtain n where n: "boundedContextTail long_context 3 1000 = Inr n" using long_context_tail by blast
  have "\<not> int (length long_context) \<le> 3" by (simp add: long_context_def Let_def)
  with context_tail_is_newest [OF n] n show ?thesis by auto
qed

end
