(* ===== verification/Context_Projection.thy ===== *)
theory Context_Projection
  imports Thread_Rollback Context_History
begin

text \<open>
  What the model is shown of a Thread, \<open>project-model-history.ts\<close>: the effective history after the last compaction, with
  the compaction's summary before it, normalised; and where the new part of it begins for a provider that has seen the rest.
  Field prefixes \<open>pw\<close> for the window and \<open>mp\<close> for what a projection has beside the normalised context.
\<close>

section \<open>Data\<close>

record projection_window =
  pw_items :: "history_item list"
  pw_lastCompaction :: "history_item option"
  pw_latestRollback :: "history_item option"
  pw_throughHistorySequence :: int

record model_projection = normalized_context +
  mp_revision :: js_string
  mp_throughHistorySequence :: int
  mp_compactedThroughSequence :: "int option"

definition context_compaction_summary_prefix :: js_string where
  "context_compaction_summary_prefix = js (''Another language model started to solve this problem and produced a summary ''
     @ ''of its thinking process. You also have access to the state of the tools that were used by that language model. ''
     @ ''Use this to build on the work that has already been done and avoid duplicating work. Here is the summary produced ''
     @ ''by the other language model, use the information in this summary to assist with your own analysis:'')"

section \<open>The projection of a window\<close>

definition validateHistorySequence :: "history_item list \<Rightarrow> check" where
  "validateHistorySequence history = first_throw
     (ch_throw_if (history = []) ''context_history_empty''
      # map (\<lambda>(index, i). ch_throw_if (hi_sequence i \<noteq> int index + 1) ''context_history_sequence_gap'') (enumerate 0 history))"

text \<open>The first item that is validated gives the identity of the others.\<close>

definition window_item_check :: "history_item option \<Rightarrow> int \<Rightarrow> history_item \<Rightarrow> check" where
  "window_item_check identity through i = first_throw
     [validateModelHistoryItem i,
      ch_throw_if (hi_tenantId i \<noteq> hi_tenantId (nullish identity i) \<or> hi_threadId i \<noteq> hi_threadId (nullish identity i)
        \<or> through < hi_sequence i) ''context_history_sequence_gap'']"

fun window_checks :: "history_item option \<Rightarrow> int \<Rightarrow> int \<Rightarrow> history_item list \<Rightarrow> check" where
  "window_checks identity through cursor [] = None"
| "window_checks identity through cursor (i # is) = first_throw
     [window_item_check identity through i,
      ch_throw_if (hi_sequence i \<le> cursor) ''context_history_sequence_gap'',
      window_checks (Some (nullish identity i)) through (hi_sequence i) is]"

definition compaction_of :: "history_item \<Rightarrow> history_compaction option" where
  "compaction_of i = (case hi_body i of CompactionItem c \<Rightarrow> Some c | _ \<Rightarrow> None)"

definition compacted_through :: "history_item option \<Rightarrow> int option" where
  "compacted_through c = map_option hp_replacesThroughSequence (Option.bind c compaction_of)"

definition author_role :: "message_author \<Rightarrow> context_role" where
  "author_role a = (case a of UserAuthor \<Rightarrow> UserRole | AssistantAuthor \<Rightarrow> AssistantRole | SystemAuthor \<Rightarrow> SystemRole
     | ToolAuthor \<Rightarrow> OtherRole (js ''tool'') | OtherAuthor s \<Rightarrow> OtherRole s)"

text \<open>
  The type of the parameter excludes compactions and rollbacks; for one of them the code would return no item, and the
  normalisation fail on it.
\<close>

definition projectItem :: "history_item \<Rightarrow> context_item res" where
  "projectItem i = (case hi_body i of
     MessageItem m \<Rightarrow> if hm_role m = ToolAuthor then Inl (ContextHistoryError ''legacy_tool_message_unsupported'')
       else Inr (ContextMessage (author_role (hm_role m)) (hm_content m))
   | ToolCallItem c \<Rightarrow> Inr (ContextCall (hc_kind c) (hc_callId c) (hc_name c) (hc_input c))
   | ToolResultItem r \<Rightarrow> Inr (ContextResult (hr_kind r) (hr_callId r) (hr_output r))
   | _ \<Rightarrow> Inl (PlainError ''TypeError''))"

definition compaction_entries :: "history_item \<Rightarrow> projection_entry list" where
  "compaction_entries i = (case compaction_of i of None \<Rightarrow> [] | Some c \<Rightarrow>
     map (\<lambda>r. \<lparr>pe_sourceSequence = hi_sequence i, pe_item = ContextMessage UserRole (hu_content r)\<rparr>) (hp_retainedUserMessages c)
     @ [\<lparr>pe_sourceSequence = hi_sequence i,
          pe_item = ContextMessage UserRole (context_compaction_summary_prefix @ [10] @ hp_summary c)\<rparr>])"

fun item_entries :: "history_item list \<Rightarrow> projection_entry list res" where
  "item_entries [] = Inr []"
| "item_entries (i # is) = then_do (projectItem i) (\<lambda>x. then_do (item_entries is) (\<lambda>es.
     Inr (\<lparr>pe_sourceSequence = hi_sequence i, pe_item = x\<rparr> # es)))"

text \<open>The rewrite of the history that came last, a compaction or a rollback.\<close>

definition latest_rewrite :: "history_item option \<Rightarrow> history_item option \<Rightarrow> history_item option" where
  "latest_rewrite compaction rollback = (case compaction of None \<Rightarrow> rollback | Some c \<Rightarrow>
     (case rollback of None \<Rightarrow> Some c | Some r \<Rightarrow> if hi_sequence r < hi_sequence c then Some c else Some r))"

definition projectModelHistoryWindow :: "projection_window \<Rightarrow> int option \<Rightarrow> int option \<Rightarrow> model_projection res" where
  "projectModelHistoryWindow w maxItems maxBytes = (let compaction = pw_lastCompaction w; rollback = pw_latestRollback w;
       through = pw_throughHistorySequence w; identity = (case compaction of None \<Rightarrow> rollback | Some c \<Rightarrow> Some c) in guarded
     [ch_throw_if ((case compaction of None \<Rightarrow> False | Some c \<Rightarrow> compaction_of c = None)
         \<or> (case rollback of None \<Rightarrow> False | Some r \<Rightarrow> \<not> is_marker r)) ''context_compaction_projection_invalid'',
      ch_throw_if (\<not> is_safe_integer through \<or> through < 1) ''context_history_empty'',
      when_some compaction (window_item_check None through),
      when_some rollback (window_item_check compaction through),
      window_checks identity through (nullish (compacted_through compaction) 0) (pw_items w)]
     (then_do (item_entries (pw_items w)) (\<lambda>entries.
        then_do (normalizeContextHistoryEntries ((case compaction of None \<Rightarrow> [] | Some c \<Rightarrow> compaction_entries c) @ entries) maxItems maxBytes)
          (\<lambda>normalized. Inr (normalized_context.extend
             (normalized\<lparr>nc_historyRewritten := latest_rewrite compaction rollback \<noteq> None \<or> nc_historyRewritten normalized\<rparr>)
             (model_projection.fields (nullish (map_option hi_itemId (latest_rewrite compaction rollback)) (js ''canonical''))
                through (compacted_through compaction)))))))"

section \<open>The projection of a history\<close>

definition last_compaction :: "history_item list \<Rightarrow> history_item option" where
  "last_compaction items = last_or_none (filter (\<lambda>i. compaction_of i \<noteq> None) items)"

definition projectModelHistory :: "history_item list \<Rightarrow> int option \<Rightarrow> int option \<Rightarrow> model_projection res" where
  "projectModelHistory history maxItems maxBytes = guarded [validateHistorySequence history]
     (then_do (projectEffectiveModelHistory history) (\<lambda>effective.
        let compaction = last_compaction (eh_items effective) in
        projectModelHistoryWindow \<lparr>
          pw_items = filter (\<lambda>i. nullish (compacted_through compaction) 0 < hi_sequence i)
            (filter (\<lambda>i. compaction_of i = None) (eh_items effective)),
          pw_lastCompaction = compaction, pw_latestRollback = eh_latestRollback effective,
          pw_throughHistorySequence = eh_throughHistorySequence effective\<rparr> maxItems maxBytes))"

text \<open>The loop of \<open>projectedContinuationStart\<close>: the number of items up to the last one within the boundary.\<close>

fun boundary_length :: "int \<Rightarrow> nat \<Rightarrow> nat \<Rightarrow> int list \<Rightarrow> nat" where
  "boundary_length through index found [] = found"
| "boundary_length through index found (s # ss) = boundary_length through (Suc index) (if s \<le> through then Suc index else found) ss"

definition projectedContinuationStart :: "model_projection \<Rightarrow> js_string \<Rightarrow> int \<Rightarrow> nat option" where
  "projectedContinuationStart p contextRevision through =
     (if contextRevision \<noteq> mp_revision p \<or> \<not> is_safe_integer through \<or> through < 1 then None
      else let start = boundary_length through 0 0 (nc_sourceSequences p) in
        if start = 0 \<or> length (nc_items p) < start then None
        else (case nc_items p ! (start - 1) of
           ContextMessage role content \<Rightarrow> if role = AssistantRole then Some start else None
         | ContextCall _ _ _ _ \<Rightarrow> Some start
         | ContextResult _ _ _ \<Rightarrow> None))"


section \<open>The window of a valid history\<close>

lemma validateHistorySequence_None: "validateHistorySequence h = None \<longleftrightarrow> h \<noteq> [] \<and> (\<forall>n<length h. hi_sequence (h ! n) = int n + 1)"
  unfolding validateHistorySequence_def first_throw_None ch_throw_if_None first_throw_map_None
  by (auto simp: in_set_enumerate_eq all_set_conv_all_nth nth_enumerate_eq)

lemma visible_in: "raw_ok h \<Longrightarrow> i \<in> set (visible h) \<Longrightarrow> validateModelHistoryItem i = None \<and> 1 \<le> hi_sequence i
    \<and> hi_sequence i \<le> int (length h) \<and> hi_tenantId i = hi_tenantId (h ! 0) \<and> hi_threadId i = hi_threadId (h ! 0)"
  using raw_ok_in [of h i] by (auto simp: visible_def in_set_conv_nth raw_ok_def)

lemma raw_length_safe:
  assumes "raw_ok h" and "h \<noteq> []"
  shows "is_safe_integer (int (length h))"
proof -
  from assms have "validateModelHistoryItem (last h) = None" "hi_sequence (last h) = int (length h)"
    unfolding raw_ok_def last_conv_nth [OF assms(2)] by (simp_all add: of_nat_diff Suc_le_eq)
  then show ?thesis using valid_item_sequence [of "last h"] by (simp add: positive_safe_integer_def)
qed

definition same_thread :: "history_item list \<Rightarrow> history_item \<Rightarrow> bool" where
  "same_thread h i \<longleftrightarrow> validateModelHistoryItem i = None \<and> hi_sequence i \<le> int (length h)
     \<and> hi_tenantId i = hi_tenantId (h ! 0) \<and> hi_threadId i = hi_threadId (h ! 0)"

lemma raw_same_thread: "raw_ok h \<Longrightarrow> i \<in> set h \<Longrightarrow> same_thread h i"
  using raw_ok_in [of h i] by (auto simp: same_thread_def in_set_conv_nth raw_ok_def)

lemma window_item_check_None: "same_thread h i \<Longrightarrow> (\<forall>j. identity = Some j \<longrightarrow> same_thread h j) \<Longrightarrow>
    window_item_check identity (int (length h)) i = None"
  by (cases identity) (simp_all add: window_item_check_def same_thread_def)

lemma window_checks_None: "\<forall>i\<in>set is. same_thread h i \<and> cursor < hi_sequence i \<Longrightarrow> sorted_wrt (<) (map hi_sequence is) \<Longrightarrow>
    (\<forall>j. identity = Some j \<longrightarrow> same_thread h j) \<Longrightarrow> window_checks identity (int (length h)) cursor is = None"
proof (induction "is" arbitrary: identity cursor)
  case (Cons i "is")
  have "same_thread h (nullish identity i)" using Cons.prems by (cases identity) simp_all
  with Cons show ?case by (auto simp: window_item_check_None)
qed simp

lemma last_or_none_in: "last_or_none xs = Some x \<Longrightarrow> x \<in> set xs"
  by (auto simp: last_or_none_def split: if_splits)

lemma last_compaction_visible:
  assumes "last_compaction (visible h) = Some c"
  shows "c \<in> set (visible h)" "compaction_of c \<noteq> None"
  using last_or_none_in [OF assms [unfolded last_compaction_def]] by auto

definition shown_items :: "history_item list \<Rightarrow> history_item list" where
  "shown_items h = filter (\<lambda>i. nullish (compacted_through (last_compaction (visible h))) 0 < hi_sequence i)
     (filter (\<lambda>i. compaction_of i = None) (visible h))"

definition shown_preamble :: "history_item list \<Rightarrow> projection_entry list" where
  "shown_preamble h = (case last_compaction (visible h) of None \<Rightarrow> [] | Some c \<Rightarrow> compaction_entries c)"

definition shown_projection :: "history_item list \<Rightarrow> normalized_context \<Rightarrow> model_projection" where
  "shown_projection h n = (let rewrite = latest_rewrite (last_compaction (visible h)) (last_or_none (filter is_marker h)) in
     normalized_context.extend (n\<lparr>nc_historyRewritten := rewrite \<noteq> None \<or> nc_historyRewritten n\<rparr>)
       (model_projection.fields (nullish (map_option hi_itemId rewrite) (js ''canonical'')) (int (length h))
          (compacted_through (last_compaction (visible h)))))"

lemma shown_in: "i \<in> set (shown_items h) \<Longrightarrow> i \<in> set h \<and> (\<forall>m\<in>set h. \<not> hides m (hi_sequence i)) \<and> \<not> is_marker i
    \<and> compaction_of i = None \<and> nullish (compacted_through (last_compaction (visible h))) 0 < hi_sequence i"
  by (simp add: shown_items_def visible_def)

lemma window_certified:
  assumes "projectEffectiveModelHistory h = Inr eff" and "h \<noteq> []"
  shows "projectModelHistory h maxItems maxBytes = then_do (item_entries (shown_items h)) (\<lambda>entries.
    then_do (normalizeContextHistoryEntries (shown_preamble h @ entries) maxItems maxBytes) (\<lambda>n. Inr (shown_projection h n)))"
proof -
  note p = project_Inr [OF assms(1)]
  let ?c = "last_compaction (visible h)" and ?r = "last_or_none (filter is_marker h)" and ?t = "int (length h)"
  have s: "validateHistorySequence h = None" using p(1) assms(2) by (simp add: validateHistorySequence_None raw_ok_def)
  have c: "same_thread h i" if "?c = Some i" for i
    using last_compaction_visible(1) [OF that] raw_same_thread [OF p(1)] by (simp add: visible_def)
  have r: "same_thread h i \<and> is_marker i" if "?r = Some i" for i
    using last_or_none_in [OF that] raw_same_thread [OF p(1)] by simp
  let ?id = "case ?c of None \<Rightarrow> ?r | Some c \<Rightarrow> Some c"
  have id: "\<forall>j. ?id = Some j \<longrightarrow> same_thread h j" by (cases ?c) (simp_all add: c r)
  have "sorted_wrt (<) (map hi_sequence (shown_items h))"
    unfolding shown_items_def using visible_sorted [OF p(1)] by (auto simp: sorted_wrt_map intro!: sorted_wrt_filter)
  moreover have "\<forall>i\<in>set (shown_items h). same_thread h i \<and> nullish (compacted_through ?c) 0 < hi_sequence i"
    using shown_in raw_same_thread [OF p(1)] by blast
  ultimately have w: "window_checks ?id ?t (nullish (compacted_through ?c) 0) (shown_items h) = None"
    using window_checks_None id by blast
  have t: "is_safe_integer ?t" "\<not> ?t < 1" using raw_length_safe [OF p(1) assms(2)] assms(2) by (simp_all add: Suc_le_eq)
  have k: "when_some ?c (window_item_check None ?t) = None" "when_some ?r (window_item_check ?c ?t) = None"
    unfolding when_some_None_iff by (intro allI impI window_item_check_None; drule c r; blast intro: c)+
  have b1: "\<not> (case ?c of None \<Rightarrow> False | Some c \<Rightarrow> compaction_of c = None)"
    unfolding option.split [of Not] using last_compaction_visible(2) by blast
  have b2: "\<not> (case ?r of None \<Rightarrow> False | Some r \<Rightarrow> \<not> is_marker r)" unfolding option.split [of Not] using r by blast
  have b: "\<not> ((case ?c of None \<Rightarrow> False | Some c \<Rightarrow> compaction_of c = None) \<or> (case ?r of None \<Rightarrow> False | Some r \<Rightarrow> \<not> is_marker r))"
    using b1 b2 by blast
  let ?w = "\<lparr>pw_items = shown_items h, pw_lastCompaction = ?c, pw_latestRollback = ?r, pw_throughHistorySequence = ?t\<rparr>"
  have "projectModelHistoryWindow ?w maxItems maxBytes = then_do (item_entries (shown_items h)) (\<lambda>entries.
    then_do (normalizeContextHistoryEntries (shown_preamble h @ entries) maxItems maxBytes) (\<lambda>n. Inr (shown_projection h n)))"
    unfolding projectModelHistoryWindow_def Let_def projection_window.select_convs shown_preamble_def shown_projection_def
    by (rule guarded_pass) (simp only: first_throw_None first_throw.simps(1) ch_throw_if_None k w t b simp_thms)
  moreover have "projectModelHistory h maxItems maxBytes = projectModelHistoryWindow ?w maxItems maxBytes"
    unfolding projectModelHistory_def assms(1) then_do_simps p Let_def shown_items_def
    by (rule guarded_pass) (simp add: s)
  ultimately show ?thesis by (simp only:)
qed

text \<open>
  The checks that \<open>projectModelHistoryWindow\<close> makes on its window never fail on the window of a valid history: the
  projection fails only on a message of the old form or on the limits of the context, and is otherwise the normalised
  context of the last compaction and the visible items after it.
\<close>

theorem history_window_certified:
  assumes "projectEffectiveModelHistory h = Inr eff" and "h \<noteq> []"
  shows "projectModelHistory h maxItems maxBytes = then_do (item_entries (shown_items h)) (\<lambda>entries.
    then_do (normalizeContextHistoryEntries (shown_preamble h @ entries) maxItems maxBytes) (\<lambda>n. Inr (shown_projection h n)))"
  using assms by (rule window_certified)

section \<open>What a projection shows\<close>

lemma item_entries_Inr: "item_entries is = Inr es \<longleftrightarrow> (\<forall>i\<in>set is. \<exists>x. projectItem i = Inr x)
    \<and> es = map (\<lambda>i. \<lparr>pe_sourceSequence = hi_sequence i, pe_item = projr (projectItem i)\<rparr>) is"
  by (induction "is" arbitrary: es) auto

lemma projection_Inr:
  assumes "projectModelHistory h maxItems maxBytes = Inr p"
  obtains eff n where "projectEffectiveModelHistory h = Inr eff" "raw_ok h"
    "normalizeContextHistoryEntries (shown_preamble h
       @ map (\<lambda>i. \<lparr>pe_sourceSequence = hi_sequence i, pe_item = projr (projectItem i)\<rparr>) (shown_items h)) maxItems maxBytes = Inr n"
    "p = shown_projection h n"
proof -
  from assms obtain eff where e: "projectEffectiveModelHistory h = Inr eff" and h: "h \<noteq> []"
    by (auto simp: projectModelHistory_def validateHistorySequence_None)
  from assms [unfolded window_certified [OF e h]] that e project_Inr(1) [OF e] show thesis by (auto simp: item_entries_Inr)
qed

lemma shown_projection_fields [simp]: "nc_items (shown_projection h n) = nc_items n"
    "nc_sourceSequences (shown_projection h n) = nc_sourceSequences n"
    "mp_compactedThroughSequence (shown_projection h n) = compacted_through (last_compaction (visible h))"
  by (simp_all add: shown_projection_def Let_def normalized_context.defs model_projection.defs)

lemma repair_sources: "set (map pe_sourceSequence (fst (repair_entries MR MC index es))) \<subseteq> set (map pe_sourceSequence es)"
  by (induction es arbitrary: index) (auto simp: case_prod_unfold Let_def split: context_item.splits)

lemma repaired_sources: "set (map pe_sourceSequence (fst (repaired es))) \<subseteq> set (map pe_sourceSequence es)"
  using repair_sources by (auto simp: repaired_def split: prod.splits)

lemma repair_sorted: "sorted (map pe_sourceSequence es) \<Longrightarrow> sorted (map pe_sourceSequence (fst (repair_entries MR MC index es)))"
proof (induction es arbitrary: index)
  case (Cons e es)
  then show ?case using repair_sources [of MR MC "Suc index" es]
    by (auto simp: case_prod_unfold Let_def split: context_item.splits)
qed simp

lemma repaired_sorted: "sorted (map pe_sourceSequence es) \<Longrightarrow> sorted (map pe_sourceSequence (fst (repaired es)))"
  using repair_sorted by (auto simp: repaired_def split: prod.splits)

lemma preamble_sources:
  assumes "s \<in> set (map pe_sourceSequence (shown_preamble h))"
  obtains c where "last_compaction (visible h) = Some c" "s = hi_sequence c"
  using assms by (cases "last_compaction (visible h)") (auto simp: shown_preamble_def compaction_entries_def split: option.splits)

lemma compaction_after_replaced: "validateModelHistoryItem c = None \<Longrightarrow> compaction_of c = Some x \<Longrightarrow> hp_replacesThroughSequence x < hi_sequence c"
  by (auto simp: compaction_of_def validateModelHistoryItem_def item_body_checks_def compaction_item_checks_def split: history_body.splits)

text \<open>
  C18: the model never sees what was rolled back or compacted, and sees all the rest.  A projection is an answered
  context; each of its items comes from an item of the history that no marker hides and the last compaction does not
  replace; and its messages and calls are those of the compaction and of the visible items after it, in their order.
\<close>

theorem projection_shows_visible:
  assumes "projectModelHistory h maxItems maxBytes = Inr p"
  shows "answered (nc_items p)
    \<and> (\<forall>s\<in>set (nc_sourceSequences p). (\<exists>i\<in>set h. hi_sequence i = s) \<and> (\<forall>m\<in>set h. \<not> hides m s)
        \<and> nullish (mp_compactedThroughSequence p) 0 < s)
    \<and> filter (\<lambda>i. \<not> is_result i) (nc_items p) = filter (\<lambda>i. \<not> is_result i)
        (map pe_item (shown_preamble h) @ map (\<lambda>i. projr (projectItem i)) (shown_items h))"
proof -
  from assms obtain eff n where raw: "raw_ok h" and p: "p = shown_projection h n"
    and n: "normalizeContextHistoryEntries (shown_preamble h
       @ map (\<lambda>i. \<lparr>pe_sourceSequence = hi_sequence i, pe_item = projr (projectItem i)\<rparr>) (shown_items h)) maxItems maxBytes = Inr n"
      (is "normalizeContextHistoryEntries ?es _ _ = _")
    by (rule projection_Inr)
  note n = n [unfolded normalize_Inr]
  let ?c = "last_compaction (visible h)"
  have "(\<exists>i\<in>set h. hi_sequence i = s) \<and> (\<forall>m\<in>set h. \<not> hides m s) \<and> nullish (compacted_through ?c) 0 < s"
    if "s \<in> set (map pe_sourceSequence ?es)" for s
  proof (cases "s \<in> set (map pe_sourceSequence (shown_preamble h))")
    case True
    then obtain c where c: "?c = Some c" "s = hi_sequence c" by (rule preamble_sources)
    note v = last_compaction_visible [OF c(1)]
    from v(2) obtain x where x: "compaction_of c = Some x" by blast
    have "validateModelHistoryItem c = None" using visible_in [OF raw v(1)] by blast
    from compaction_after_replaced [OF this x] v(1) c x show ?thesis by (auto simp: visible_def compacted_through_def)
  next
    case False
    with that obtain i where "i \<in> set (shown_items h)" "s = hi_sequence i" by auto
    with shown_in show ?thesis by blast
  qed
  with n repaired_sources [of ?es] have "\<forall>s\<in>set (nc_sourceSequences n). (\<exists>i\<in>set h. hi_sequence i = s) \<and> (\<forall>m\<in>set h. \<not> hides m s)
      \<and> nullish (compacted_through ?c) 0 < s" by auto
  moreover have "filter (\<lambda>i. \<not> is_result i) (nc_items n) = filter (\<lambda>i. \<not> is_result i)
      (map pe_item (shown_preamble h) @ map (\<lambda>i. projr (projectItem i)) (shown_items h))"
    using n repaired_keeps [of ?es] by (simp add: comp_def)
  moreover have "answered (nc_items n)" using n repaired_answered(1) by simp
  ultimately show ?thesis by (simp add: p)
qed

section \<open>Where a continuation starts\<close>

lemma boundary_length_found:
  assumes "boundary_length t index found ss = k"
  shows "k = found \<and> (\<forall>s\<in>set ss. t < s)
    \<or> index < k \<and> k \<le> index + length ss \<and> ss ! (k - 1 - index) \<le> t \<and> (\<forall>s\<in>set (drop (k - index) ss). t < s)"
  using assms
proof (induction ss arbitrary: index found)
  case (Cons s ss)
  from Cons.IH [OF Cons.prems [unfolded boundary_length.simps]] consider
      (here) "k = (if s \<le> t then Suc index else found)" "\<forall>s\<in>set ss. t < s"
    | (later) "Suc index < k" "k \<le> Suc index + length ss" "ss ! (k - 1 - Suc index) \<le> t" "\<forall>s\<in>set (drop (k - Suc index) ss). t < s"
    by blast
  then show ?case
  proof cases
    case later
    from less_imp_Suc_add [OF later(1)] obtain j where "k = Suc (Suc index + j)" by blast
    with later show ?thesis by simp
  qed (auto split: if_splits)
qed simp

text \<open>The model's own output: after it the provider's turn is continued with what is new.\<close>

definition is_output :: "context_item \<Rightarrow> bool" where
  "is_output i = (case i of ContextMessage role content \<Rightarrow> role = AssistantRole | ContextCall _ _ _ _ \<Rightarrow> True | _ \<Rightarrow> False)"

lemma continuation_Some: "projectedContinuationStart p revision through = Some k \<longleftrightarrow>
    revision = mp_revision p \<and> positive_safe_integer through \<and> k = boundary_length through 0 0 (nc_sourceSequences p)
    \<and> 0 < k \<and> k \<le> length (nc_items p) \<and> is_output (nc_items p ! (k - 1))"
  by (auto simp: projectedContinuationStart_def positive_safe_integer_def Let_def is_output_def not_less
      split: context_item.splits if_splits)

text \<open>
  The start of a continuation separates what the provider has seen from what is new: the item before it is the
  model's own output and comes from within the boundary, every item from it on comes from after the boundary, and
  while nothing is compacted every item before it from within.
\<close>

theorem continuation_start_splits:
  assumes "projectModelHistory h maxItems maxBytes = Inr p" and "projectedContinuationStart p revision through = Some k"
  shows "0 < k \<and> k \<le> length (nc_items p) \<and> is_output (nc_items p ! (k - 1)) \<and> nc_sourceSequences p ! (k - 1) \<le> through
    \<and> (\<forall>s\<in>set (drop k (nc_sourceSequences p)). through < s)
    \<and> (mp_compactedThroughSequence p \<noteq> None \<or> (\<forall>s\<in>set (take k (nc_sourceSequences p)). s \<le> through))"
proof -
  note k = assms(2) [unfolded continuation_Some]
  from assms(1) obtain eff n where raw: "raw_ok h" and p: "p = shown_projection h n"
    and n: "normalizeContextHistoryEntries (shown_preamble h
       @ map (\<lambda>i. \<lparr>pe_sourceSequence = hi_sequence i, pe_item = projr (projectItem i)\<rparr>) (shown_items h)) maxItems maxBytes = Inr n"
      (is "normalizeContextHistoryEntries ?es _ _ = _")
    by (rule projection_Inr)
  let ?ss = "nc_sourceSequences n"
  have b: "k \<le> length ?ss \<and> ?ss ! (k - 1) \<le> through \<and> (\<forall>s\<in>set (drop k ?ss). through < s)"
    using boundary_length_found [of through 0 0 ?ss k] k p by auto
  have "s \<le> through" if c: "mp_compactedThroughSequence p = None" and s: "s \<in> set (take k ?ss)" for s
  proof -
    have "compaction_of i = None" if "last_compaction (visible h) = Some i" for i
      using c p that by (simp add: compacted_through_def bind_eq_None_conv)
    then have "last_compaction (visible h) = None" using last_compaction_visible(2) by (cases "last_compaction (visible h)") auto
    then have "map pe_sourceSequence ?es = map hi_sequence (shown_items h)" by (simp add: shown_preamble_def)
    moreover have "sorted_wrt (<) (map hi_sequence (shown_items h))"
      unfolding shown_items_def using visible_sorted [OF raw] by (auto simp: sorted_wrt_map intro!: sorted_wrt_filter)
    ultimately have "sorted ?ss" using n [unfolded normalize_Inr] repaired_sorted [of ?es] strict_sorted_imp_sorted by fastforce
    from s obtain j where j: "j < k" "j < length ?ss" "s = ?ss ! j" by (auto simp: in_set_conv_nth)
    with sorted_nth_mono [OF \<open>sorted ?ss\<close>, of j "k - 1"] b k have "s \<le> ?ss ! (k - 1)" by auto
    with b show ?thesis by simp
  qed
  with b k p show ?thesis by auto
qed

section \<open>A concrete projection\<close>

lemma sample_visible: "visible sample_history = sample_history" "last_compaction sample_history = None"
  "filter is_marker sample_history = []"
proof -
  show v: "visible sample_history = sample_history"
    using sample_history_effective project_Inr(3) by fastforce
  show "last_compaction sample_history = None" "filter is_marker sample_history = []"
    by (simp_all add: last_compaction_def sample_history_def compaction_of_def sample_turn_def last_or_none_def is_marker_def)
qed

definition sample_entries :: "projection_entry list" where
  "sample_entries = [\<lparr>pe_sourceSequence = 1, pe_item = ContextMessage UserRole (js ''x'')\<rparr>,
     \<lparr>pe_sourceSequence = 2, pe_item = ContextMessage AssistantRole (js ''x'')\<rparr>,
     \<lparr>pe_sourceSequence = 3, pe_item = ContextMessage UserRole (js ''x'')\<rparr>,
     \<lparr>pe_sourceSequence = 4, pe_item = ContextMessage UserRole (js ''x'')\<rparr>]"

lemma sample_entries_normalized: "\<exists>n. normalizeContextHistoryEntries sample_entries None None = Inr n
    \<and> nc_items n = map pe_item sample_entries \<and> nc_sourceSequences n = map pe_sourceSequence sample_entries"
proof -
  have r: "repaired sample_entries = (sample_entries, [])" by (simp add: repaired_def sample_entries_def answers_def)
  have i: "item_ok (ContextMessage UserRole (js ''x''))" "item_ok (ContextMessage AssistantRole (js ''x''))" "utf8_length (js ''x'') = 1"
    by (simp_all add: item_ok_def isBoundedString_def js_def is_high_surrogate_def)
  show ?thesis unfolding normalize_Inr r using i
    by (simp add: sample_entries_def entries_ok_def total_bytes_def validateLimits_def default_max_items_def max_context_bytes_def
        positive_safe_integer_def is_safe_integer_def max_safe_integer_def)
qed

lemma sample_shown: "shown_items sample_history = sample_history" "shown_preamble sample_history = []"
  "item_entries sample_history = Inr sample_entries"
proof -
  show "shown_items sample_history = sample_history" "shown_preamble sample_history = []"
    by (simp_all add: shown_items_def shown_preamble_def sample_visible)
      (simp add: compacted_through_def sample_history_def compaction_of_def sample_turn_def)
  show "item_entries sample_history = Inr sample_entries"
    by (simp add: sample_history_def sample_entries_def projectItem_def sample_turn_def author_role_def)
qed

lemma sample_projection: "\<exists>p. projectModelHistory sample_history None None = Inr p
    \<and> nc_items p = map pe_item sample_entries \<and> nc_sourceSequences p = map pe_sourceSequence sample_entries
    \<and> mp_revision p = js ''canonical'' \<and> mp_compactedThroughSequence p = None"
proof -
  obtain eff where "projectEffectiveModelHistory sample_history = Inr eff" using sample_history_effective by blast
  moreover have "sample_history \<noteq> []" by (simp add: sample_history_def)
  moreover obtain n where "normalizeContextHistoryEntries sample_entries None None = Inr n"
    "nc_items n = map pe_item sample_entries" "nc_sourceSequences n = map pe_sourceSequence sample_entries"
    using sample_entries_normalized by blast
  moreover have "mp_revision (shown_projection sample_history n) = js ''canonical''" for n
    by (simp add: shown_projection_def sample_visible latest_rewrite_def last_or_none_def Let_def normalized_context.defs model_projection.defs)
  ultimately show ?thesis
    by (simp add: window_certified sample_shown sample_visible) (simp add: compacted_through_def)
qed

theorem history_window_certified_witness:
  "projectModelHistory sample_history None None =
    then_do (normalizeContextHistoryEntries sample_entries None None) (\<lambda>n. Inr (shown_projection sample_history n))"
proof -
  obtain eff where "projectEffectiveModelHistory sample_history = Inr eff" using sample_history_effective by blast
  moreover have "sample_history \<noteq> []" by (simp add: sample_history_def)
  ultimately show ?thesis using history_window_certified [of sample_history eff None None] by (simp add: sample_shown)
qed

theorem projection_shows_visible_witness:
  "\<exists>p. projectModelHistory sample_history None None = Inr p \<and> answered (nc_items p) \<and> length (nc_items p) = 4"
proof -
  obtain p where p: "projectModelHistory sample_history None None = Inr p" "nc_items p = map pe_item sample_entries"
    using sample_projection by blast
  from projection_shows_visible [OF p(1)] have "answered (nc_items p)" by blast
  with p show ?thesis by (auto simp: sample_entries_def)
qed

theorem continuation_start_splits_witness:
  "\<exists>p. projectModelHistory sample_history None None = Inr p \<and> projectedContinuationStart p (js ''canonical'') 3 = None
    \<and> projectedContinuationStart p (js ''canonical'') 2 = Some 2 \<and> (\<forall>s\<in>set (drop 2 (nc_sourceSequences p)). 2 < s)"
proof -
  obtain p where p: "projectModelHistory sample_history None None = Inr p" "nc_items p = map pe_item sample_entries"
    "nc_sourceSequences p = map pe_sourceSequence sample_entries" "mp_revision p = js ''canonical''"
    using sample_projection by blast
  then have s: "projectedContinuationStart p (js ''canonical'') 3 = None" "projectedContinuationStart p (js ''canonical'') 2 = Some 2"
    by (simp_all add: projectedContinuationStart_def sample_entries_def is_safe_integer_def max_safe_integer_def)
  from continuation_start_splits [OF p(1) s(2)] s p(1) show ?thesis by blast
qed

end
