(* ===== verification/Interleaving.thy ===== *)
theory Interleaving
  imports Main
begin

text \<open>
  Any number of holders that work on one shared value: their steps happen in any order, each changing the shared value and
  the state of one holder, and new holders come at any time.  What the code does between two points where it waits is one step.
\<close>

inductive interleaved :: "('b \<times> 'q \<Rightarrow> 'b \<times> 'q \<Rightarrow> bool) \<Rightarrow> ('b \<Rightarrow> 'b \<times> 'q \<Rightarrow> bool) \<Rightarrow> 'b \<times> 'q list \<Rightarrow> 'b \<times> 'q list \<Rightarrow> bool"
  for step and fresh and c0 where
  start: "interleaved step fresh c0 c0"
| opened: "interleaved step fresh c0 (b, qs) \<Longrightarrow> fresh b (b', q) \<Longrightarrow> interleaved step fresh c0 (b', qs @ [q])"
| moved: "interleaved step fresh c0 (b, qs) \<Longrightarrow> i < length qs \<Longrightarrow> step (b, qs ! i) (b', q') \<Longrightarrow>
    interleaved step fresh c0 (b', qs[i := q'])"

text \<open>
  A store that all holders work on: what a holder knows of it survives what the others do, because the store only moves
  forward.  Then everything reached is good, every holder's knowledge is true, and the store is later than it was.
\<close>

locale shared_store =
  fixes step :: "'b \<times> 'q \<Rightarrow> 'b \<times> 'q \<Rightarrow> bool"
    and fresh :: "'b \<Rightarrow> 'b \<times> 'q \<Rightarrow> bool"
    and good :: "'b \<Rightarrow> bool"
    and knows :: "'b \<Rightarrow> 'q \<Rightarrow> bool"
    and later :: "'b \<Rightarrow> 'b \<Rightarrow> bool"
  assumes later_refl: "later b b"
    and later_trans: "later a b \<Longrightarrow> later b c \<Longrightarrow> later a c"
    and opens: "good b \<Longrightarrow> fresh b (b', q) \<Longrightarrow> b' = b \<and> knows b q"
    and keeps: "good b \<Longrightarrow> knows b q \<Longrightarrow> step (b, q) (b', q') \<Longrightarrow> good b' \<and> knows b' q' \<and> later b b'"
    and stable: "good b \<Longrightarrow> knows b q \<Longrightarrow> good b' \<Longrightarrow> later b b' \<Longrightarrow> knows b' q"
begin

lemma reached:
  assumes "interleaved step fresh (b0, qs0) (b, qs)" and "good b0" and "\<forall>q\<in>set qs0. knows b0 q"
  shows "good b \<and> (\<forall>q\<in>set qs. knows b q) \<and> later b0 b"
  using assms
proof (induction "(b, qs)" arbitrary: b qs rule: interleaved.induct)
  case start
  then show ?case by (simp add: later_refl)
next
  case (opened b qs b' q)
  then show ?case using opens by fastforce
next
  case (moved b qs i b' q')
  then have g: "good b" "\<forall>q\<in>set qs. knows b q" "later b0 b" by simp_all
  then have k: "good b'" "knows b' q'" "later b b'" using keeps [OF g(1) _ moved(4)] moved(3) by simp_all
  have "knows b' q" if "q \<in> set (qs[i := q'])" for q
    using that set_update_subset_insert [of qs i q'] k(2) stable [OF g(1) _ k(1,3)] g(2) by auto
  then show ?case using k(1) later_trans [OF g(3) k(3)] by blast
qed

lemma reached_from_start: "interleaved step fresh (b0, []) (b, qs) \<Longrightarrow> good b0 \<Longrightarrow> good b \<and> (\<forall>q\<in>set qs. knows b q)"
  using reached by simp

end

end
