(* ===== verification/Message_Queue.thy ===== *)
theory Message_Queue
  imports Json_Text Interleaving
begin

text \<open>
  The queue between a WebSocket and the one reader of its messages, \<open>websocket-message-queue.ts\<close>, as a machine whose
  steps are the callbacks: a message, an error or the end of the socket, an abort, the idle timer, \<open>close\<close>, and the
  two halves of \<open>next\<close>, before and after it waits.  All queues of the process draw on one budget.  Field prefixes
  \<open>qb\<close> for the budget, \<open>qm\<close> for a queued message, \<open>mq\<close> for a queue with what it does to its socket.  The argument \<open>text_of\<close>
  is \<open>Buffer.toString\<close>.
\<close>

section \<open>Holders of a shared budget\<close>

lemma sum_list_exchange: "i < length xs \<Longrightarrow> sum_list (xs[i := y]) = sum_list xs - xs ! i + (y :: int)"
  by (induction xs arbitrary: i) (auto split: nat.split)

text \<open>
  What the budget promises of one resource, and the holders of their steps: a step moves the use of the budget by what its
  holder gains or loses, and never over the limit.
\<close>

locale shared_budget =
  fixes step :: "'b \<times> 'q \<Rightarrow> 'b \<times> 'q \<Rightarrow> bool"
    and fresh :: "'b \<Rightarrow> 'b \<times> 'q \<Rightarrow> bool"
    and usage :: "'b \<Rightarrow> int"
    and limit :: "'b \<Rightarrow> int"
    and held :: "'q \<Rightarrow> int"
    and holder_ok :: "'q \<Rightarrow> bool"
  assumes opens: "fresh b (b', q) \<Longrightarrow> holder_ok q \<and> b' = b \<and> held q = 0"
    and keeps: "holder_ok q \<Longrightarrow> step (b, q) (b', q') \<Longrightarrow> holder_ok q'"
    and moves: "holder_ok q \<Longrightarrow> step (b, q) (b', q') \<Longrightarrow> usage b' - usage b = held q' - held q"
    and bounded: "holder_ok q \<Longrightarrow> step (b, q) (b', q') \<Longrightarrow> usage b \<le> limit b \<Longrightarrow> usage b' \<le> limit b' \<and> limit b' = limit b"
begin

lemma all_ok: "interleaved step fresh (b0, []) (b, qs) \<Longrightarrow> \<forall>q\<in>set qs. holder_ok q"
proof (induction "(b, qs)" arbitrary: b qs rule: interleaved.induct)
  case (moved b qs i b' q')
  then show ?case using keeps [of "qs ! i"] set_update_subset_insert [of qs i q'] by auto
qed (auto dest: opens)

lemma usage_is_held: "interleaved step fresh (b0, []) (b, qs) \<Longrightarrow> usage b = usage b0 + (\<Sum>q\<leftarrow>qs. held q)"
proof (induction "(b, qs)" arbitrary: b qs rule: interleaved.induct)
  case (moved b qs i b' q')
  have "holder_ok (qs ! i)" using all_ok [OF moved(1)] moved(3) by simp
  from moves [OF this moved(4)] moved(2,3) show ?case by (simp add: map_update sum_list_exchange)
qed (auto dest: opens)

lemma within_limit: "interleaved step fresh (b0, []) (b, qs) \<Longrightarrow> usage b0 \<le> limit b0 \<Longrightarrow> usage b \<le> limit b \<and> limit b = limit b0"
proof (induction "(b, qs)" arbitrary: b qs rule: interleaved.induct)
  case (moved b qs i b' q')
  have "holder_ok (qs ! i)" using all_ok [OF moved(1)] moved(3) by simp
  from bounded [OF this moved(4)] moved show ?case by auto
qed (auto dest: opens)

end

section \<open>The budget\<close>

record queue_budget =
  qb_maxBytes :: int
  qb_maxMessages :: int
  qb_bytes :: int
  qb_messages :: int

definition reserve :: "int \<Rightarrow> queue_budget \<Rightarrow> queue_budget \<times> bool" where
  "reserve bytes b = (if qb_maxBytes b < qb_bytes b + bytes \<or> qb_maxMessages b \<le> qb_messages b then (b, False)
     else (b\<lparr>qb_bytes := qb_bytes b + bytes, qb_messages := qb_messages b + 1\<rparr>, True))"

definition release :: "int \<Rightarrow> queue_budget \<Rightarrow> queue_budget" where
  "release bytes b = b\<lparr>qb_bytes := qb_bytes b - bytes, qb_messages := qb_messages b - 1\<rparr>"

definition high_water_bytes :: int where "high_water_bytes = 1024 * 1024"
definition queue_max_bytes :: int where "queue_max_bytes = 2 * 1024 * 1024"
definition high_water_messages :: int where "high_water_messages = 128"
definition queue_max_messages :: int where "queue_max_messages = 256"

definition process_budget :: queue_budget where
  "process_budget = \<lparr>qb_maxBytes = 16 * 1024 * 1024, qb_maxMessages = 4096, qb_bytes = 0, qb_messages = 0\<rparr>"

section \<open>The queue\<close>

record queued_message =
  qm_text :: js_string
  qm_bytes :: int

text \<open>The reader's call of \<open>next\<close>: there is none, it waits for its promise, or the promise is resolved and it will go on.\<close>

datatype reader = NoRead | Awaiting | Woken

record message_queue =
  mq_maxMessageBytes :: int
  mq_maxBytes :: int
  mq_values :: "queued_message list"
  mq_bytes :: int
  mq_failure :: "js_error option"
  mq_resolve :: bool
  mq_cancelTimer :: bool
  mq_paused :: bool
  mq_closed :: bool
  mq_reader :: reader
  mq_socketOpen :: bool
  mq_socketPaused :: bool
  mq_subscribed :: bool

datatype outcome = Returned json | Threw js_error

definition wake :: "message_queue \<Rightarrow> message_queue" where
  "wake q = q\<lparr>mq_resolve := False, mq_reader := (if mq_resolve q then Woken else mq_reader q)\<rparr>"

definition stopTimer :: "message_queue \<Rightarrow> message_queue" where
  "stopTimer q = q\<lparr>mq_cancelTimer := False\<rparr>"

definition clear :: "queue_budget \<times> message_queue \<Rightarrow> queue_budget \<times> message_queue" where
  "clear = (\<lambda>(b, q). (fold (\<lambda>v. release (qm_bytes v)) (mq_values q) b, q\<lparr>mq_values := [], mq_bytes := 0\<rparr>))"

definition fail :: "js_error \<Rightarrow> queue_budget \<times> message_queue \<Rightarrow> queue_budget \<times> message_queue" where
  "fail e = (\<lambda>(b, q). if mq_failure q \<noteq> None \<or> mq_closed q then (b, q)
     else let (b', q') = clear (b, stopTimer (q\<lparr>mq_failure := Some e\<rparr>)) in (b', wake (q'\<lparr>mq_socketOpen := False\<rparr>)))"

definition resumeIfDrained :: "message_queue \<Rightarrow> message_queue" where
  "resumeIfDrained q = (if mq_paused q \<and> mq_bytes q \<le> high_water_bytes div 2
       \<and> int (length (mq_values q)) \<le> high_water_messages div 2
     then q\<lparr>mq_paused := False, mq_socketPaused := (if mq_socketOpen q then False else mq_socketPaused q)\<rparr> else q)"

definition onMessage :: "(nat list \<Rightarrow> js_string) \<Rightarrow> nat list list \<Rightarrow> bool \<Rightarrow> queue_budget \<times> message_queue \<Rightarrow> queue_budget \<times> message_queue" where
  "onMessage text_of data isBinary = (\<lambda>(b, q).
     if mq_closed q \<or> mq_failure q \<noteq> None then (b, q)
     else if isBinary then fail (ModelTransportError ''responses_websocket_binary_unsupported'') (b, q)
     else let bytes = foldl (\<lambda>total part. total + int (length part)) 0 data in
       if mq_maxMessageBytes q < bytes then fail (ModelTransportError ''responses_websocket_message_too_large'') (b, q)
       else if mq_maxBytes q < mq_bytes q + bytes \<or> queue_max_messages \<le> int (length (mq_values q)) \<or> \<not> snd (reserve bytes b)
       then fail (ModelTransportError ''responses_websocket_queue_limit_exceeded'') (b, q)
       else let q1 = stopTimer (q\<lparr>mq_values := mq_values q @ [\<lparr>qm_text = text_of (concat data), qm_bytes = bytes\<rparr>],
             mq_bytes := mq_bytes q + bytes\<rparr>) in
         (fst (reserve bytes b), wake (if \<not> mq_paused q1
             \<and> (high_water_bytes \<le> mq_bytes q1 \<or> high_water_messages \<le> int (length (mq_values q1)))
           then q1\<lparr>mq_paused := True, mq_socketPaused := True\<rparr> else q1)))"

definition onError :: "bool \<Rightarrow> queue_budget \<times> message_queue \<Rightarrow> queue_budget \<times> message_queue" where
  "onError tooLong = fail (ModelTransportError
     (if tooLong then ''responses_websocket_message_too_large'' else ''responses_websocket_unavailable''))"

definition onClose :: "queue_budget \<times> message_queue \<Rightarrow> queue_budget \<times> message_queue" where
  "onClose = fail (ModelTransportError ''responses_websocket_closed'')"

definition onAbort :: "queue_budget \<times> message_queue \<Rightarrow> queue_budget \<times> message_queue" where
  "onAbort = fail (ModelTransportError ''segment_canceled'')"

definition idleTimeout :: "queue_budget \<times> message_queue \<Rightarrow> queue_budget \<times> message_queue" where
  "idleTimeout = fail (ModelTransportError ''responses_websocket_idle_timeout'')"

definition close_queue :: "queue_budget \<times> message_queue \<Rightarrow> queue_budget \<times> message_queue" where
  "close_queue = (\<lambda>(b, q). if mq_closed q then (b, q)
     else let (b', q') = clear (b, (stopTimer (q\<lparr>mq_closed := True\<rparr>))\<lparr>mq_subscribed := False\<rparr>); q1 = resumeIfDrained q' in
       (b', wake (q1\<lparr>mq_failure := Some (nullish (mq_failure q1) (ModelTransportError ''responses_websocket_queue_closed''))\<rparr>)))"

text \<open>
  One round of the loop of \<open>next\<close>: it waits, or what comes after the loop.  The body of the loop ends at its
  \<open>await\<close>; the round is entered again when the promise is resolved.
\<close>

definition next_round :: "queue_budget \<times> message_queue \<Rightarrow> (queue_budget \<times> message_queue) \<times> outcome option" where
  "next_round = (\<lambda>(b, q). if mq_values q = [] \<and> mq_failure q = None
     then ((b, q\<lparr>mq_resolve := True, mq_cancelTimer := True, mq_reader := Awaiting\<rparr>), None)
     else let q = q\<lparr>mq_reader := NoRead\<rparr> in case mq_failure q of
         Some e \<Rightarrow> ((b, q), Some (Threw e))
       | None \<Rightarrow> (let v = hd (mq_values q); b1 = release (qm_bytes v) b;
             q1 = resumeIfDrained (q\<lparr>mq_values := tl (mq_values q), mq_bytes := mq_bytes q - qm_bytes v\<rparr>) in
           case json_parse (qm_text v) of
             Some value \<Rightarrow> ((b1, q1), Some (Returned value))
           | None \<Rightarrow> (let (b2, q2) = fail (ModelTransportError ''responses_websocket_json_invalid'') (b1, q1) in
               ((b2, q2), map_option Threw (mq_failure q2)))))"

definition open_queue :: "int \<Rightarrow> message_queue" where
  "open_queue maxMessageBytes = \<lparr>mq_maxMessageBytes = maxMessageBytes, mq_maxBytes = max queue_max_bytes maxMessageBytes,
     mq_values = [], mq_bytes = 0, mq_failure = None, mq_resolve = False, mq_cancelTimer = False, mq_paused = False,
     mq_closed = False, mq_reader = NoRead, mq_socketOpen = True, mq_socketPaused = False, mq_subscribed = True\<rparr>"

text \<open>The constructor; \<open>aborted\<close> is the state of the signal then.\<close>

definition construct :: "int \<Rightarrow> bool \<Rightarrow> queue_budget \<Rightarrow> queue_budget \<times> message_queue" where
  "construct maxMessageBytes aborted b =
     (if aborted then onAbort (b, open_queue maxMessageBytes) else (b, open_queue maxMessageBytes))"

section \<open>The steps\<close>

datatype queue_event =
    Message "nat list list" bool
  | SocketError bool
  | SocketClosing
  | SocketClosed
  | Abort
  | TimerFires
  | CloseCalled
  | NextCalled
  | NextResumed

text \<open>
  What can happen when: listeners are called while they are subscribed, the timer fires while it is set, and the reader
  calls \<open>next\<close> only after its last call has settled.  \<open>SocketClosing\<close> is the socket leaving the state \<open>OPEN\<close>.
\<close>

definition enabled :: "queue_event \<Rightarrow> message_queue \<Rightarrow> bool" where
  "enabled ev q = (case ev of
     Message _ _ \<Rightarrow> mq_subscribed q
   | SocketError _ \<Rightarrow> mq_subscribed q
   | SocketClosing \<Rightarrow> True
   | SocketClosed \<Rightarrow> mq_subscribed q
   | Abort \<Rightarrow> mq_subscribed q
   | TimerFires \<Rightarrow> mq_cancelTimer q
   | CloseCalled \<Rightarrow> True
   | NextCalled \<Rightarrow> mq_reader q = NoRead
   | NextResumed \<Rightarrow> mq_reader q = Woken)"

definition handle :: "(nat list \<Rightarrow> js_string) \<Rightarrow> queue_event \<Rightarrow> queue_budget \<times> message_queue \<Rightarrow> (queue_budget \<times> message_queue) \<times> outcome option" where
  "handle text_of ev bq = (case ev of
     Message data isBinary \<Rightarrow> (onMessage text_of data isBinary bq, None)
   | SocketError tooLong \<Rightarrow> (onError tooLong bq, None)
   | SocketClosing \<Rightarrow> ((fst bq, (snd bq)\<lparr>mq_socketOpen := False\<rparr>), None)
   | SocketClosed \<Rightarrow> (onClose bq, None)
   | Abort \<Rightarrow> (onAbort bq, None)
   | TimerFires \<Rightarrow> (idleTimeout bq, None)
   | CloseCalled \<Rightarrow> (close_queue bq, None)
   | NextCalled \<Rightarrow> next_round bq
   | NextResumed \<Rightarrow> next_round bq)"


section \<open>The invariant of a queue\<close>

definition values_bytes :: "queued_message list \<Rightarrow> int" where
  "values_bytes vs = (\<Sum>v\<leftarrow>vs. qm_bytes v)"

lemma values_bytes_simps [simp]: "values_bytes [] = 0" "values_bytes (v # vs) = qm_bytes v + values_bytes vs"
  "values_bytes (vs @ ws) = values_bytes vs + values_bytes ws"
  by (simp_all add: values_bytes_def)

text \<open>What is accounted for: the sizes are not negative and add up, within the bounds, and a queue that has failed holds nothing.\<close>

definition held_ok :: "message_queue \<Rightarrow> bool" where
  "held_ok q \<longleftrightarrow> (\<forall>v\<in>set (mq_values q). 0 \<le> qm_bytes v) \<and> mq_bytes q = values_bytes (mq_values q)
     \<and> mq_bytes q \<le> mq_maxBytes q \<and> int (length (mq_values q)) \<le> queue_max_messages \<and> 0 \<le> mq_maxBytes q
     \<and> (mq_failure q \<noteq> None \<longrightarrow> mq_values q = []) \<and> (mq_closed q \<longrightarrow> mq_failure q \<noteq> None)"

text \<open>
  Who waits for whom: the timer is set while the reader waits, it waits only for an empty queue, it is woken only when there is
  something for it, and the socket is paused only while the queue is not drained.
\<close>

definition drained :: "message_queue \<Rightarrow> bool" where
  "drained q \<longleftrightarrow> mq_bytes q \<le> high_water_bytes div 2 \<and> int (length (mq_values q)) \<le> high_water_messages div 2"

definition signals_ok :: "message_queue \<Rightarrow> bool" where
  "signals_ok q \<longleftrightarrow> (mq_resolve q \<longleftrightarrow> mq_reader q = Awaiting) \<and> (mq_cancelTimer q \<longleftrightarrow> mq_reader q = Awaiting)
     \<and> (mq_reader q = Awaiting \<longrightarrow> mq_values q = [] \<and> mq_failure q = None)
     \<and> (mq_reader q = Woken \<longrightarrow> mq_values q \<noteq> [] \<or> mq_failure q \<noteq> None)
     \<and> (mq_failure q = None \<longrightarrow> mq_paused q \<longrightarrow> \<not> drained q)
     \<and> (mq_failure q = None \<longrightarrow> mq_socketOpen q \<longrightarrow> mq_socketPaused q = mq_paused q)
     \<and> (mq_closed q \<longrightarrow> \<not> mq_subscribed q)"

definition queue_ok :: "message_queue \<Rightarrow> bool" where
  "queue_ok q \<longleftrightarrow> held_ok q \<and> signals_ok q"

text \<open>How a step moves the budget.\<close>

definition budget_moves :: "queue_budget \<times> message_queue \<Rightarrow> queue_budget \<times> message_queue \<Rightarrow> bool" where
  "budget_moves = (\<lambda>(b, q) (b', q').
     qb_bytes b' - qb_bytes b = mq_bytes q' - mq_bytes q
     \<and> qb_messages b' - qb_messages b = int (length (mq_values q')) - int (length (mq_values q))
     \<and> qb_maxBytes b' = qb_maxBytes b \<and> qb_maxMessages b' = qb_maxMessages b
     \<and> (qb_bytes b \<le> qb_maxBytes b \<longrightarrow> qb_bytes b' \<le> qb_maxBytes b')
     \<and> (qb_messages b \<le> qb_maxMessages b \<longrightarrow> qb_messages b' \<le> qb_maxMessages b'))"

lemma fold_release: "fold (\<lambda>v. release (qm_bytes v)) vs b =
    b\<lparr>qb_bytes := qb_bytes b - values_bytes vs, qb_messages := qb_messages b - int (length vs)\<rparr>"
  by (induction vs arbitrary: b) (simp_all add: release_def)

lemma values_nonneg: "\<forall>v\<in>set vs. 0 \<le> qm_bytes v \<Longrightarrow> 0 \<le> values_bytes vs"
  by (induction vs) auto

lemmas queue_ops = wake_def stopTimer_def clear_def fold_release

text \<open>A failure: the first one is kept, and the queue gives back all it holds.\<close>

lemma fail_again [simp]: "mq_failure q \<noteq> None \<or> mq_closed q \<Longrightarrow> fail e (b, q) = (b, q)"
  by (simp add: fail_def)

lemma fail_first:
  assumes "mq_failure q = None" and "\<not> mq_closed q"
  shows "fail e (b, q) = (b\<lparr>qb_bytes := qb_bytes b - values_bytes (mq_values q), qb_messages := qb_messages b - int (length (mq_values q))\<rparr>,
    q\<lparr>mq_failure := Some e, mq_cancelTimer := False, mq_values := [], mq_bytes := 0, mq_socketOpen := False,
      mq_resolve := False, mq_reader := (if mq_resolve q then Woken else mq_reader q)\<rparr>)"
  using assms by (simp add: fail_def queue_ops)

lemma fail_moves:
  assumes "held_ok q"
  shows "budget_moves (b, q) (fail e (b, q))" "held_ok (snd (fail e (b, q)))"
    "mq_failure (snd (fail e (b, q))) \<noteq> None"
proof -
  have "budget_moves (b, q) (fail e (b, q)) \<and> held_ok (snd (fail e (b, q))) \<and> mq_failure (snd (fail e (b, q))) \<noteq> None"
  proof (cases "mq_failure q \<noteq> None \<or> mq_closed q")
    case True
    with assms show ?thesis by (auto simp: budget_moves_def held_ok_def)
  next
    case False
    with assms values_nonneg [of "mq_values q"] show ?thesis
      by (auto simp: fail_first budget_moves_def held_ok_def queue_max_messages_def)
  qed
  then show "budget_moves (b, q) (fail e (b, q))" "held_ok (snd (fail e (b, q)))" "mq_failure (snd (fail e (b, q))) \<noteq> None"
    by auto
qed

lemma fail_signals: "signals_ok q \<Longrightarrow> signals_ok (snd (fail e (b, q)))"
  by (cases "mq_failure q \<noteq> None \<or> mq_closed q") (auto simp: fail_first signals_ok_def)

lemma fail_keeps: "queue_ok q \<Longrightarrow> queue_ok (snd (fail e (b, q)))"
  using fail_moves(2) fail_signals by (simp add: queue_ok_def)

lemma failed_wakes:
  assumes "queue_ok q" and "mq_reader q = Awaiting"
  shows "mq_reader (snd (fail e (b, q))) = Woken"
proof -
  have f: "mq_failure q = None" "mq_resolve q" using assms by (simp_all add: queue_ok_def signals_ok_def)
  have "mq_closed q \<longrightarrow> mq_failure q \<noteq> None" using assms(1) unfolding queue_ok_def held_ok_def by blast
  with f show ?thesis by (simp add: fail_first)
qed

section \<open>Every step keeps the invariant and moves the budget\<close>

lemma foldl_lengths: "foldl (\<lambda>total part. total + int (length part)) n data = n + int (length (concat data))"
  by (induction data arbitrary: n) simp_all

text \<open>A message that is accepted.\<close>

definition accepts_message :: "nat list list \<Rightarrow> bool \<Rightarrow> queue_budget \<Rightarrow> message_queue \<Rightarrow> bool" where
  "accepts_message data isBinary b q \<longleftrightarrow> \<not> mq_closed q \<and> mq_failure q = None \<and> \<not> isBinary
     \<and> int (length (concat data)) \<le> mq_maxMessageBytes q \<and> mq_bytes q + int (length (concat data)) \<le> mq_maxBytes q
     \<and> int (length (mq_values q)) < queue_max_messages \<and> snd (reserve (int (length (concat data))) b)"

definition enqueued :: "js_string \<Rightarrow> int \<Rightarrow> message_queue \<Rightarrow> message_queue" where
  "enqueued t bytes q = (let full = high_water_bytes \<le> mq_bytes q + bytes \<or> high_water_messages \<le> int (length (mq_values q)) + 1 in
     q\<lparr>mq_values := mq_values q @ [\<lparr>qm_text = t, qm_bytes = bytes\<rparr>], mq_bytes := mq_bytes q + bytes, mq_cancelTimer := False,
       mq_paused := mq_paused q \<or> full, mq_socketPaused := mq_socketPaused q \<or> \<not> mq_paused q \<and> full, mq_resolve := False,
       mq_reader := (if mq_resolve q then Woken else mq_reader q)\<rparr>)"

lemma onMessage_cases: "onMessage text_of data isBinary (b, q) =
    (if accepts_message data isBinary b q then (fst (reserve (int (length (concat data))) b), enqueued (text_of (concat data)) (int (length (concat data))) q)
     else if isBinary then fail (ModelTransportError ''responses_websocket_binary_unsupported'') (b, q)
     else if mq_maxMessageBytes q < int (length (concat data)) then fail (ModelTransportError ''responses_websocket_message_too_large'') (b, q)
     else fail (ModelTransportError ''responses_websocket_queue_limit_exceeded'') (b, q))"
  by (auto simp: onMessage_def accepts_message_def enqueued_def foldl_lengths queue_ops Let_def not_le not_less)

lemma accepted_moves:
  assumes "held_ok q" and "accepts_message data isBinary b q"
  shows "budget_moves (b, q) (fst (reserve (int (length (concat data))) b), enqueued t (int (length (concat data))) q)"
    "held_ok (enqueued t (int (length (concat data))) q)"
  using assms by (auto simp: budget_moves_def held_ok_def accepts_message_def enqueued_def reserve_def Let_def split: if_splits)

lemma accepted_signals: "signals_ok q \<Longrightarrow> mq_failure q = None \<Longrightarrow> \<not> mq_closed q \<Longrightarrow> 0 \<le> bytes \<Longrightarrow> signals_ok (enqueued t bytes q)"
  by (auto simp: signals_ok_def enqueued_def Let_def drained_def high_water_bytes_def high_water_messages_def)

lemma onMessage_step:
  assumes "queue_ok q"
  shows "budget_moves (b, q) (onMessage text_of data isBinary (b, q))" "queue_ok (snd (onMessage text_of data isBinary (b, q)))"
    "mq_reader q = Awaiting \<Longrightarrow> mq_reader (snd (onMessage text_of data isBinary (b, q))) = Woken"
proof -
  from assms have h: "held_ok q" and s: "signals_ok q" by (simp_all add: queue_ok_def)
  show "budget_moves (b, q) (onMessage text_of data isBinary (b, q))"
    unfolding onMessage_cases using accepted_moves(1) [OF h] fail_moves(1) [OF h] by auto
  show "queue_ok (snd (onMessage text_of data isBinary (b, q)))"
    unfolding onMessage_cases using accepted_moves(2) [OF h] accepted_signals [OF s] fail_keeps [OF assms]
    by (auto simp: queue_ok_def accepts_message_def)
  show "mq_reader (snd (onMessage text_of data isBinary (b, q))) = Woken" if "mq_reader q = Awaiting"
    unfolding onMessage_cases using failed_wakes [OF assms that] that s by (auto simp: enqueued_def Let_def signals_ok_def)
qed

lemma resume_fields [simp]: "mq_values (resumeIfDrained q) = mq_values q" "mq_bytes (resumeIfDrained q) = mq_bytes q"
  "mq_failure (resumeIfDrained q) = mq_failure q" "mq_closed (resumeIfDrained q) = mq_closed q"
  "mq_reader (resumeIfDrained q) = mq_reader q" "mq_resolve (resumeIfDrained q) = mq_resolve q"
  "mq_cancelTimer (resumeIfDrained q) = mq_cancelTimer q" "mq_maxBytes (resumeIfDrained q) = mq_maxBytes q"
  "mq_subscribed (resumeIfDrained q) = mq_subscribed q" "mq_socketOpen (resumeIfDrained q) = mq_socketOpen q"
  "mq_maxMessageBytes (resumeIfDrained q) = mq_maxMessageBytes q"
  by (simp_all add: resumeIfDrained_def)

lemma resume_signals: "mq_paused (resumeIfDrained q) \<longrightarrow> mq_paused q \<and> \<not> drained q"
  "(mq_socketOpen q \<longrightarrow> mq_socketPaused q = mq_paused q) \<Longrightarrow>
    mq_socketOpen q \<longrightarrow> mq_socketPaused (resumeIfDrained q) = mq_paused (resumeIfDrained q)"
  by (auto simp: resumeIfDrained_def drained_def)

lemma close_step:
  assumes "queue_ok q"
  shows "budget_moves (b, q) (close_queue (b, q))" "queue_ok (snd (close_queue (b, q)))"
    "mq_closed (snd (close_queue (b, q)))" "mq_reader q = Awaiting \<Longrightarrow> mq_reader (snd (close_queue (b, q))) = Woken"
proof -
  have "budget_moves (b, q) (close_queue (b, q)) \<and> queue_ok (snd (close_queue (b, q))) \<and> mq_closed (snd (close_queue (b, q)))
      \<and> (mq_reader q = Awaiting \<longrightarrow> mq_reader (snd (close_queue (b, q))) = Woken)"
  proof (cases "mq_closed q")
    case True
    with assms show ?thesis by (auto simp: close_queue_def budget_moves_def queue_ok_def signals_ok_def held_ok_def)
  next
    case False
    with assms values_nonneg [of "mq_values q"] show ?thesis
      by (auto simp: close_queue_def queue_ops Let_def budget_moves_def queue_ok_def signals_ok_def held_ok_def queue_max_messages_def)
  qed
  then show "budget_moves (b, q) (close_queue (b, q))" "queue_ok (snd (close_queue (b, q)))"
    "mq_closed (snd (close_queue (b, q)))" "mq_reader q = Awaiting \<Longrightarrow> mq_reader (snd (close_queue (b, q))) = Woken" by auto
qed

definition dequeued :: "message_queue \<Rightarrow> message_queue" where
  "dequeued q = resumeIfDrained (q\<lparr>mq_reader := NoRead, mq_values := tl (mq_values q), mq_bytes := mq_bytes q - qm_bytes (hd (mq_values q))\<rparr>)"

lemma next_round_cases: "next_round (b, q) = (case mq_failure q of
     Some e \<Rightarrow> ((b, q\<lparr>mq_reader := NoRead\<rparr>), Some (Threw e))
   | None \<Rightarrow> (case mq_values q of
       [] \<Rightarrow> ((b, q\<lparr>mq_resolve := True, mq_cancelTimer := True, mq_reader := Awaiting\<rparr>), None)
     | v # vs \<Rightarrow> (case json_parse (qm_text v) of
         Some value \<Rightarrow> ((release (qm_bytes v) b, dequeued q), Some (Returned value))
       | None \<Rightarrow> (fail (ModelTransportError ''responses_websocket_json_invalid'') (release (qm_bytes v) b, dequeued q),
           map_option Threw (mq_failure (snd (fail (ModelTransportError ''responses_websocket_json_invalid'') (release (qm_bytes v) b, dequeued q))))))))"
  by (auto simp: next_round_def dequeued_def Let_def case_prod_unfold split: list.split option.split)

lemma dequeued_moves:
  assumes "held_ok q" and "mq_values q = v # vs"
  shows "budget_moves (b, q) (release (qm_bytes v) b, dequeued q)" "held_ok (dequeued q)" "mq_failure (dequeued q) = None"
    "mq_values (dequeued q) = vs" "mq_closed (dequeued q) = mq_closed q" "mq_reader (dequeued q) = NoRead"
  using assms values_nonneg [of vs] by (auto simp: dequeued_def release_def budget_moves_def held_ok_def)

lemma dequeued_signals:
  assumes "signals_ok q" and "mq_failure q = None" and "mq_values q = v # vs"
  shows "signals_ok (dequeued q)"
proof -
  let ?q = "q\<lparr>mq_reader := NoRead, mq_values := tl (mq_values q), mq_bytes := mq_bytes q - qm_bytes (hd (mq_values q))\<rparr>"
  have "mq_socketOpen ?q \<longrightarrow> mq_socketPaused ?q = mq_paused ?q" using assms by (simp add: signals_ok_def)
  note r = resume_signals(1) [of ?q] resume_signals(2) [OF this]
  have "drained (resumeIfDrained ?q) = drained ?q" by (simp only: drained_def resume_fields)
  with r show ?thesis using assms unfolding signals_ok_def dequeued_def by auto
qed

lemma budget_moves_trans: "budget_moves x y \<Longrightarrow> budget_moves y z \<Longrightarrow> budget_moves x z"
  by (auto simp: budget_moves_def)

lemma next_round_step:
  assumes "queue_ok q" and "mq_reader q \<noteq> Awaiting"
  shows "budget_moves (b, q) (fst (next_round (b, q))) \<and> queue_ok (snd (fst (next_round (b, q))))"
proof -
  from assms(1) have h: "held_ok q" and s: "signals_ok q" by (simp_all add: queue_ok_def)
  show ?thesis
  proof (cases "mq_failure q")
    case (Some e)
    with h s assms(2) show ?thesis by (auto simp: next_round_cases budget_moves_def queue_ok_def held_ok_def signals_ok_def drained_def)
  next
    case None
    show ?thesis
    proof (cases "mq_values q")
      case Nil
      with None h s assms(2) show ?thesis
        by (auto simp: next_round_cases budget_moves_def queue_ok_def held_ok_def signals_ok_def drained_def)
    next
      case (Cons v vs)
      note d = dequeued_moves [OF h Cons] and g = dequeued_signals [OF s None Cons]
      have k: "queue_ok (dequeued q)" using d g by (simp add: queue_ok_def)
      obtain b' q' where f: "fail (ModelTransportError ''responses_websocket_json_invalid'') (release (qm_bytes v) b, dequeued q) = (b', q')"
        by (cases "fail (ModelTransportError ''responses_websocket_json_invalid'') (release (qm_bytes v) b, dequeued q)")
      have "queue_ok q'" "budget_moves (release (qm_bytes v) b, dequeued q) (b', q')"
        using fail_keeps [OF k] fail_moves(1) [OF d(2)] f by (metis snd_conv)+
      then show ?thesis using budget_moves_trans [OF d(1)] d(1) k f None Cons
        by (auto simp: next_round_cases split: option.split)
    qed
  qed
qed

lemma handle_step:
  assumes "queue_ok q" and "enabled ev q"
  shows "budget_moves (b, q) (fst (handle text_of ev (b, q))) \<and> queue_ok (snd (fst (handle text_of ev (b, q))))"
proof -
  from assms(1) have h: "held_ok q" by (simp add: queue_ok_def)
  note f = fail_moves(1) [OF h] fail_keeps [OF assms(1)]
  show ?thesis
  proof (cases ev)
    case (Message data isBinary)
    then show ?thesis using onMessage_step [OF assms(1)] by (simp add: handle_def)
  next
    case (SocketError tooLong)
    then show ?thesis using f by (simp add: handle_def onError_def)
  next
    case SocketClosing
    then show ?thesis using assms(1)
      by (auto simp: handle_def budget_moves_def queue_ok_def held_ok_def signals_ok_def drained_def)
  next
    case NextCalled
    then show ?thesis using next_round_step [OF assms(1)] assms(2) by (simp add: handle_def enabled_def)
  next
    case NextResumed
    then show ?thesis using next_round_step [OF assms(1)] assms(2) by (simp add: handle_def enabled_def)
  qed (use f close_step(1,2) [OF assms(1)] in \<open>simp_all add: handle_def onClose_def onAbort_def idleTimeout_def\<close>)
qed

lemma construct_ok: "queue_ok (snd (construct m aborted b)) \<and> fst (construct m aborted b) = b
    \<and> mq_values (snd (construct m aborted b)) = [] \<and> mq_bytes (snd (construct m aborted b)) = 0"
proof -
  have "queue_ok (open_queue m)"
    by (simp add: queue_ok_def held_ok_def signals_ok_def open_queue_def queue_max_messages_def queue_max_bytes_def)
  moreover have "mq_failure (open_queue m) = None" "\<not> mq_closed (open_queue m)" "mq_values (open_queue m) = []" "mq_bytes (open_queue m) = 0"
    by (simp_all add: open_queue_def)
  ultimately show ?thesis using fail_keeps [of "open_queue m"] by (simp add: construct_def onAbort_def fail_first)
qed

section \<open>Queues of a process\<close>

definition queue_step :: "(nat list \<Rightarrow> js_string) \<Rightarrow> queue_budget \<times> message_queue \<Rightarrow> queue_budget \<times> message_queue \<Rightarrow> bool" where
  "queue_step text_of bq bq' \<longleftrightarrow> (\<exists>ev. enabled ev (snd bq) \<and> bq' = fst (handle text_of ev bq))"

definition queue_fresh :: "queue_budget \<Rightarrow> queue_budget \<times> message_queue \<Rightarrow> bool" where
  "queue_fresh b bq \<longleftrightarrow> (\<exists>m aborted. bq = construct m aborted b)"

lemma queue_fresh_ok: "queue_fresh b (b', q) \<Longrightarrow> queue_ok q \<and> b' = b \<and> mq_bytes q = 0 \<and> mq_values q = []"
  using construct_ok by (metis fst_conv queue_fresh_def snd_conv)

lemma queue_step_ok: "queue_ok q \<Longrightarrow> queue_step text_of (b, q) (b', q') \<Longrightarrow> budget_moves (b, q) (b', q') \<and> queue_ok q'"
proof -
  assume "queue_ok q" and "queue_step text_of (b, q) (b', q')"
  then obtain ev where "enabled ev q" "fst (handle text_of ev (b, q)) = (b', q')" by (auto simp: queue_step_def)
  with handle_step [OF \<open>queue_ok q\<close>, of ev b text_of] show ?thesis by simp
qed

interpretation wire_bytes: shared_budget "queue_step text_of" queue_fresh qb_bytes qb_maxBytes mq_bytes queue_ok
proof unfold_locales
  fix b b' q q'
  assume a: "queue_ok q" "queue_step text_of (b, q) (b', q')"
  from queue_step_ok [OF this] show "queue_ok q'" "qb_bytes b' - qb_bytes b = mq_bytes q' - mq_bytes q"
    by (simp_all add: budget_moves_def)
  show "qb_bytes b' \<le> qb_maxBytes b' \<and> qb_maxBytes b' = qb_maxBytes b" if "qb_bytes b \<le> qb_maxBytes b"
    using queue_step_ok [OF a] that by (simp add: budget_moves_def)
qed (use queue_fresh_ok in blast)

interpretation wire_frames: shared_budget "queue_step text_of" queue_fresh qb_messages qb_maxMessages "\<lambda>q. int (length (mq_values q))" queue_ok
proof unfold_locales
  fix b b' q q'
  assume a: "queue_ok q" "queue_step text_of (b, q) (b', q')"
  from queue_step_ok [OF this] show "queue_ok q'"
    "qb_messages b' - qb_messages b = int (length (mq_values q')) - int (length (mq_values q))"
    by (simp_all add: budget_moves_def)
  show "qb_messages b' \<le> qb_maxMessages b' \<and> qb_maxMessages b' = qb_maxMessages b" if "qb_messages b \<le> qb_maxMessages b"
    using queue_step_ok [OF a] that by (simp add: budget_moves_def)
qed (use queue_fresh_ok in fastforce)+

text \<open>
  C28: the budget of the process is exact.  However the queues of a process are opened and their callbacks interleaved, the
  bytes and frames it counts are those the queues hold, within the limits of the process; each queue is within its own
  limits, and one that has failed or was closed holds nothing.
\<close>

theorem queue_budget_exact:
  assumes "interleaved (queue_step text_of) queue_fresh (process_budget, []) (b, qs)"
  shows "qb_bytes b = (\<Sum>q\<leftarrow>qs. values_bytes (mq_values q)) \<and> qb_messages b = (\<Sum>q\<leftarrow>qs. int (length (mq_values q)))
    \<and> qb_bytes b \<le> 16 * 1024 * 1024 \<and> qb_messages b \<le> 4096
    \<and> (\<forall>q\<in>set qs. values_bytes (mq_values q) \<le> mq_maxBytes q \<and> length (mq_values q) \<le> 256
        \<and> ((mq_failure q \<noteq> None \<or> mq_closed q) \<longrightarrow> mq_values q = []))"
proof -
  note ok = wire_bytes.all_ok [OF assms]
  then have m: "(\<Sum>q\<leftarrow>qs. mq_bytes q) = (\<Sum>q\<leftarrow>qs. values_bytes (mq_values q))"
    by (intro arg_cong [of _ _ sum_list] map_cong) (simp_all add: queue_ok_def held_ok_def)
  show ?thesis unfolding m [symmetric]
    using ok wire_bytes.usage_is_held [OF assms] wire_frames.usage_is_held [OF assms] wire_bytes.within_limit [OF assms]
      wire_frames.within_limit [OF assms]
    by (auto simp: process_budget_def queue_ok_def held_ok_def queue_max_messages_def)
qed

section \<open>One queue\<close>

text \<open>
  A run of one queue, with whatever the other queues do to the budget between its steps, and what has happened in it: the
  texts accepted, the values given to the reader and the errors thrown to it.
\<close>

datatype queue_entry = Accepted js_string | Gave json | Refused js_error

definition entries_of :: "(nat list \<Rightarrow> js_string) \<Rightarrow> queue_event \<Rightarrow> queue_budget \<times> message_queue \<Rightarrow> queue_entry list" where
  "entries_of text_of ev bq =
     (case ev of Message data isBinary \<Rightarrow> if accepts_message data isBinary (fst bq) (snd bq) then [Accepted (text_of (concat data))] else [] | _ \<Rightarrow> [])
     @ (case snd (handle text_of ev bq) of None \<Rightarrow> [] | Some (Returned v) \<Rightarrow> [Gave v] | Some (Threw e) \<Rightarrow> [Refused e])"

inductive queue_run :: "(nat list \<Rightarrow> js_string) \<Rightarrow> queue_entry list \<Rightarrow> message_queue \<Rightarrow> bool" for text_of where
  constructed: "queue_run text_of [] (snd (construct m aborted b))"
| stepped: "queue_run text_of es q \<Longrightarrow> enabled ev q \<Longrightarrow>
    queue_run text_of (es @ entries_of text_of ev (b, q)) (snd (fst (handle text_of ev (b, q))))"

inductive_cases queue_run_cases: "queue_run text_of es q"

definition accepted_texts :: "queue_entry list \<Rightarrow> js_string list" where
  "accepted_texts es = List.map_filter (\<lambda>e. case e of Accepted t \<Rightarrow> Some t | _ \<Rightarrow> None) es"

definition given_values :: "queue_entry list \<Rightarrow> json list" where
  "given_values es = List.map_filter (\<lambda>e. case e of Gave v \<Rightarrow> Some v | _ \<Rightarrow> None) es"

lemma log_parts [simp]: "accepted_texts [] = []" "given_values [] = []"
  "accepted_texts (es @ fs) = accepted_texts es @ accepted_texts fs" "given_values (es @ fs) = given_values es @ given_values fs"
  "accepted_texts [Accepted t] = [t]" "accepted_texts [Gave v] = []" "accepted_texts [Refused e] = []"
  "given_values [Accepted t] = []" "given_values [Gave v] = [v]" "given_values [Refused e] = []"
  by (simp_all add: accepted_texts_def given_values_def List.map_filter_def)

lemma run_ok: "queue_run text_of es q \<Longrightarrow> queue_ok q"
  by (induction rule: queue_run.induct) (use construct_ok handle_step in blast)+

text \<open>What has been given is what was accepted first, and the rest waits in the queue until it fails.\<close>

definition in_order :: "queue_entry list \<Rightarrow> message_queue \<Rightarrow> bool" where
  "in_order es q \<longleftrightarrow> (\<exists>given rest. accepted_texts es = given @ rest \<and> map json_parse given = map Some (given_values es)
     \<and> (mq_failure q = None \<longrightarrow> rest = map qm_text (mq_values q)))
     \<and> (\<forall>e. Refused e \<in> set es \<longrightarrow> mq_failure q = Some e)"

lemma in_order_failed: "in_order es q \<Longrightarrow> mq_failure q' = mq_failure q \<or> mq_failure q = None \<Longrightarrow> mq_failure q' \<noteq> None \<Longrightarrow> in_order es q'"
  unfolding in_order_def by (elim conjE exE, intro conjI exI, assumption, assumption) auto

lemma fail_failure: "mq_failure (snd (fail e (b, q))) = (if mq_failure q \<noteq> None \<or> mq_closed q then mq_failure q else Some e)"
  by (simp add: fail_first)

lemma in_order_same: "in_order es q \<Longrightarrow> mq_failure q' = mq_failure q \<Longrightarrow> mq_values q' = mq_values q \<Longrightarrow> in_order es q'"
  by (simp add: in_order_def)

lemma in_order_fail:
  assumes "queue_ok q" and "in_order es q"
  shows "in_order es (snd (fail e (b, q)))"
proof -
  from assms(1) have "mq_closed q \<longrightarrow> mq_failure q \<noteq> None" by (simp add: queue_ok_def held_ok_def)
  then show ?thesis using assms(2) by (intro in_order_failed [OF assms(2)]) (auto simp: fail_failure)
qed

lemma in_order_next:
  assumes "queue_ok q" and "in_order es q" and "ev = NextCalled \<or> ev = NextResumed"
  shows "in_order (es @ entries_of text_of ev (b, q)) (snd (fst (next_round (b, q))))"
proof -
  have h: "handle text_of ev (b, q) = next_round (b, q)" using assms(3) by (auto simp: handle_def)
  have e: "entries_of text_of ev (b, q) = (case snd (next_round (b, q)) of None \<Rightarrow> [] | Some (Returned v) \<Rightarrow> [Gave v] | Some (Threw e) \<Rightarrow> [Refused e])"
    using assms(3) h by (auto simp: entries_of_def)
  show ?thesis
  proof (cases "mq_failure q")
    case (Some x)
    then have "next_round (b, q) = ((b, q\<lparr>mq_reader := NoRead\<rparr>), Some (Threw x))" by (simp add: next_round_cases)
    with assms(2) Some show ?thesis by (auto simp: e in_order_def)
  next
    case None
    show ?thesis
    proof (cases "mq_values q")
      case Nil
      with None have "next_round (b, q) = ((b, q\<lparr>mq_resolve := True, mq_cancelTimer := True, mq_reader := Awaiting\<rparr>), None)"
        by (simp add: next_round_cases)
      with assms(2) show ?thesis by (simp add: e in_order_def)
    next
      case (Cons v vs)
      from assms(1) have ok: "held_ok q" "signals_ok q" by (simp_all add: queue_ok_def)
      note d = dequeued_moves [OF ok(1) Cons] and g = dequeued_signals [OF ok(2) None Cons]
      from assms(2) None Cons obtain given where given: "accepted_texts es = given @ qm_text v # map qm_text vs"
        "map json_parse given = map Some (given_values es)" and r: "\<forall>x. Refused x \<notin> set es"
        by (auto simp: in_order_def)
      show ?thesis
      proof (cases "json_parse (qm_text v)")
        case (Some j)
        with None Cons have "next_round (b, q) = ((release (qm_bytes v) b, dequeued q), Some (Returned j))"
          by (simp add: next_round_cases)
        with given r d Some show ?thesis
          by (auto simp: e in_order_def intro!: exI [of _ "given @ [qm_text v]"])
      next
        case invalid: None
        let ?e = "ModelTransportError ''responses_websocket_json_invalid''"
        have "mq_closed q \<longrightarrow> False" using ok(1) None by (simp add: held_ok_def)
        then have f: "mq_failure (snd (fail ?e (release (qm_bytes v) b, dequeued q))) = Some ?e"
          using d by (simp add: fail_failure)
        with None Cons invalid have "snd (next_round (b, q)) = Some (Threw ?e)" "mq_failure (snd (fst (next_round (b, q)))) = Some ?e"
          by (simp_all add: next_round_cases)
        with given r show ?thesis by (auto simp: e in_order_def)
      qed
    qed
  qed
qed

lemma in_order_step:
  assumes "queue_ok q" and "in_order es q" and "enabled ev q"
  shows "in_order (es @ entries_of text_of ev (b, q)) (snd (fst (handle text_of ev (b, q))))"
proof -
  note f = in_order_fail [OF assms(1,2)]
  show ?thesis
  proof (cases ev)
    case (Message data isBinary)
    show ?thesis
    proof (cases "accepts_message data isBinary b q")
      case True
      with assms(2) show ?thesis
        by (auto simp: Message handle_def entries_of_def onMessage_cases accepts_message_def enqueued_def Let_def in_order_def)
    next
      case False
      then show ?thesis using f by (simp add: Message handle_def entries_of_def onMessage_cases)
    qed
  next
    case CloseCalled
    then show ?thesis using assms in_order_failed [OF assms(2), of "snd (close_queue (b, q))"] f
      by (cases "mq_closed q"; cases "mq_failure q")
        (auto simp: handle_def entries_of_def close_queue_def queue_ops Let_def)
  next
    case SocketClosing
    then show ?thesis using assms(2) by (simp add: handle_def entries_of_def in_order_def)
  next
    case NextCalled
    then show ?thesis using in_order_next [OF assms(1,2)] by (simp add: handle_def)
  next
    case NextResumed
    then show ?thesis using in_order_next [OF assms(1,2)] by (simp add: handle_def)
  qed (use f in \<open>simp_all add: handle_def entries_of_def onError_def onClose_def onAbort_def idleTimeout_def\<close>)
qed

text \<open>
  C29: the reader is given the messages in the order in which they were accepted, each once and parsed, and none is skipped;
  until the queue fails, what was accepted and not yet given waits in it; and every error thrown to the reader is
  the one failure of the queue.
\<close>

theorem queue_fifo:
  assumes "queue_run text_of es q"
  shows "(\<exists>given rest. accepted_texts es = given @ rest \<and> map json_parse given = map Some (given_values es)
      \<and> (mq_failure q \<noteq> None \<or> rest = map qm_text (mq_values q)))
    \<and> (\<forall>e. Refused e \<notin> set es \<or> mq_failure q = Some e)"
proof -
  from assms have "in_order es q"
  proof (induction rule: queue_run.induct)
    case (constructed m aborted b)
    show ?case using construct_ok [of m aborted b] by (simp add: in_order_def)
  next
    case (stepped es q ev b)
    then show ?case using in_order_step run_ok by blast
  qed
  then show ?thesis unfolding in_order_def by blast
qed

text \<open>
  C30: the reader never stalls.  While it waits, the socket is not held back by the queue and the idle timer is set, and whatever
  callback comes, a message, accepted or not, an error, the end of the socket, an abort, the timer or \<open>close\<close>, resolves
  its promise; and once it is resolved \<open>next\<close> ends, with a value or the failure.
\<close>

theorem queue_never_stalls:
  assumes "queue_run text_of es q"
  shows "(mq_reader q \<noteq> Awaiting \<or> enabled TimerFires q \<and> \<not> (mq_socketOpen q \<and> mq_socketPaused q)
      \<and> (\<forall>ev b. \<not> enabled ev q \<or> ev = SocketClosing \<or> mq_reader (snd (fst (handle text_of ev (b, q)))) = Woken))
    \<and> (mq_reader q \<noteq> Woken \<or> (\<forall>b. snd (handle text_of NextResumed (b, q)) \<noteq> None))"
proof (intro conjI)
  have ok: "queue_ok q" using run_ok [OF assms] .
  have s: "signals_ok q" using ok by (simp add: queue_ok_def)
  show "mq_reader q \<noteq> Awaiting \<or> enabled TimerFires q \<and> \<not> (mq_socketOpen q \<and> mq_socketPaused q)
      \<and> (\<forall>ev b. \<not> enabled ev q \<or> ev = SocketClosing \<or> mq_reader (snd (fst (handle text_of ev (b, q)))) = Woken)"
  proof (cases "mq_reader q = Awaiting")
    case True
    have "mq_bytes q = 0" using ok True by (simp add: queue_ok_def held_ok_def signals_ok_def)
    then have "\<not> mq_paused q" using s True by (auto simp: signals_ok_def drained_def high_water_bytes_def high_water_messages_def)
    moreover have "mq_reader (snd (fst (handle text_of ev (b, q)))) = Woken" if "enabled ev q" "ev \<noteq> SocketClosing" for ev b
      using that True failed_wakes [OF ok True] onMessage_step(3) [OF ok True] close_step(4) [OF ok True]
      by (cases ev) (simp_all add: handle_def enabled_def onError_def onClose_def onAbort_def idleTimeout_def)
    ultimately show ?thesis using s True by (auto simp: enabled_def signals_ok_def)
  qed simp
  show "mq_reader q \<noteq> Woken \<or> (\<forall>b. snd (handle text_of NextResumed (b, q)) \<noteq> None)"
  proof (cases "mq_reader q = Woken")
    case True
    with s have w: "mq_values q \<noteq> [] \<or> mq_failure q \<noteq> None" by (simp add: signals_ok_def)
    have "snd (handle text_of NextResumed (b, q)) \<noteq> None" for b
    proof (cases "mq_failure q")
      case (Some e)
      then show ?thesis by (simp add: handle_def next_round_cases)
    next
      case None
      with w obtain v vs where v: "mq_values q = v # vs" by (cases "mq_values q") auto
      have "mq_failure (snd (fail e (release (qm_bytes v) b, dequeued q))) \<noteq> None" for e
        using fail_moves(3) dequeued_moves(2) v ok by (simp add: queue_ok_def)
      then show ?thesis using None v by (simp add: handle_def next_round_cases split: option.split)
    qed
    then show ?thesis by blast
  qed simp
qed

text \<open>
  A closed queue has let go of everything: it holds no message, no timer and no listener, closing it again does nothing,
  and whatever still happens leaves the budget and the failure as they are.
\<close>

theorem closed_queue_released:
  assumes "queue_run text_of es q" and "mq_closed q"
  shows "mq_values q = [] \<and> \<not> mq_cancelTimer q \<and> \<not> mq_subscribed q \<and> mq_failure q \<noteq> None
    \<and> (\<forall>b. handle text_of CloseCalled (b, q) = ((b, q), None))
    \<and> (\<forall>ev b. \<not> enabled ev q \<or> fst (fst (handle text_of ev (b, q))) = b \<and> mq_failure (snd (fst (handle text_of ev (b, q)))) = mq_failure q)"
proof -
  have ok: "held_ok q" "signals_ok q" using run_ok [OF assms(1)] by (simp_all add: queue_ok_def)
  with assms(2) have f: "mq_failure q \<noteq> None" "mq_values q = []" "\<not> mq_subscribed q" "\<not> mq_cancelTimer q"
    by (auto simp: held_ok_def signals_ok_def)
  have c: "close_queue (b, q) = (b, q)" for b using assms(2) by (simp add: close_queue_def)
  have "fst (fst (handle text_of ev (b, q))) = b \<and> mq_failure (snd (fst (handle text_of ev (b, q)))) = mq_failure q"
    if "enabled ev q" for ev b
    using that f c by (cases ev) (auto simp: handle_def enabled_def next_round_cases)
  then show ?thesis using f c by (auto simp: handle_def)
qed

section \<open>A concrete queue\<close>

definition sample_queue :: message_queue where
  "sample_queue = enqueued [49] 1 (open_queue 100)"

definition sample_budget :: queue_budget where
  "sample_budget = process_budget\<lparr>qb_bytes := 1, qb_messages := 1\<rparr>"

lemma sample_message: "enabled (Message [[49]] False) (open_queue 100)"
  "handle id (Message [[49]] False) (process_budget, open_queue 100) = ((sample_budget, sample_queue), None)"
  "accepts_message [[49]] False process_budget (open_queue 100)"
  by (simp_all add: enabled_def handle_def onMessage_cases accepts_message_def open_queue_def process_budget_def reserve_def queue_max_bytes_def
      queue_max_messages_def sample_queue_def sample_budget_def)

theorem queue_budget_exact_witness:
  "interleaved (queue_step id) queue_fresh (process_budget, []) (sample_budget, [sample_queue])
    \<and> qb_bytes sample_budget = (\<Sum>q\<leftarrow>[sample_queue]. values_bytes (mq_values q)) \<and> qb_bytes sample_budget = 1"
proof -
  have "queue_fresh process_budget (process_budget, open_queue 100)"
    unfolding queue_fresh_def by (intro exI [of _ 100] exI [of _ False]) (simp add: construct_def)
  from interleaved.opened [OF interleaved.start [of "queue_step id" queue_fresh "(process_budget, [])"], OF this] have "interleaved (queue_step id) queue_fresh (process_budget, []) (process_budget, [open_queue 100])"
    by simp
  moreover have "queue_step id (process_budget, [open_queue 100] ! 0) (sample_budget, sample_queue)"
    unfolding queue_step_def using sample_message by (intro exI [of _ "Message [[49]] False"]) simp
  ultimately have i: "interleaved (queue_step id) queue_fresh (process_budget, []) (sample_budget, [sample_queue])"
    using interleaved.moved [of "queue_step id" queue_fresh "(process_budget, [])" process_budget "[open_queue 100]" 0] by fastforce
  from queue_budget_exact [OF i] i show ?thesis by (simp add: sample_budget_def)
qed

lemma sample_queue_run: "queue_run id [Accepted [49]] sample_queue"
proof -
  have "queue_run id [] (open_queue 100)" using queue_run.constructed [of id 100 False] by (simp add: construct_def)
  from queue_run.stepped [OF this sample_message(1), of process_budget] show ?thesis
    unfolding sample_message(2) by (simp add: entries_of_def sample_message)
qed

lemma waiting_run: "queue_run id [] ((open_queue 100)\<lparr>mq_resolve := True, mq_cancelTimer := True, mq_reader := Awaiting\<rparr>)"
proof -
  have "queue_run id [] (open_queue 100)" using queue_run.constructed [of id 100 False] by (simp add: construct_def)
  from queue_run.stepped [OF this, of NextCalled process_budget] show ?thesis
    by (simp add: entries_of_def handle_def next_round_cases open_queue_def enabled_def)
qed

theorem queue_fifo_witness:
  "\<exists>es q. queue_run id es q \<and> given_values es = [] \<and> accepted_texts es = map qm_text (mq_values q) \<and> mq_values q \<noteq> []"
proof -
  have "mq_failure sample_queue = None" "mq_values sample_queue \<noteq> []"
    by (simp_all add: sample_queue_def enqueued_def open_queue_def Let_def)
  with queue_fifo [OF sample_queue_run] sample_queue_run show ?thesis
    by (intro exI [of _ "[Accepted [49]]"] exI [of _ sample_queue]) auto
qed

theorem queue_never_stalls_witness:
  "\<exists>q. queue_run id [] q \<and> mq_reader q = Awaiting \<and> enabled TimerFires q
    \<and> mq_reader (snd (fst (handle id TimerFires (process_budget, q)))) = Woken"
proof -
  let ?q = "(open_queue 100)\<lparr>mq_resolve := True, mq_cancelTimer := True, mq_reader := Awaiting\<rparr>"
  have "mq_reader ?q = Awaiting" by simp
  with queue_never_stalls [OF waiting_run] waiting_run show ?thesis by (intro exI [of _ ?q]) blast
qed

theorem closed_queue_released_witness:
  "\<exists>es q. queue_run id es q \<and> mq_closed q \<and> mq_values q = [] \<and> accepted_texts es = [[49]]"
proof -
  let ?q = "snd (close_queue (sample_budget, sample_queue))"
  have r: "queue_run id [Accepted [49]] ?q"
    using queue_run.stepped [OF sample_queue_run, of CloseCalled sample_budget] by (simp add: enabled_def handle_def entries_of_def)
  have c: "mq_closed ?q" using close_step(3) [OF run_ok [OF sample_queue_run]] .
  from closed_queue_released [OF r c] r c show ?thesis by (intro exI [of _ "[Accepted [49]]"] exI [of _ ?q]) simp
qed

end
