(* ===== verification/Responses_Protocol.thy ===== *)
theory Responses_Protocol
  imports Sse_Stream Run_Events
begin

text \<open>
  The decoder of a provider's response, \<open>responses-protocol.ts\<close> with \<open>responses-message-output.ts\<close>: dynamic events come in, the
  events of the transport go out, exactly one of them terminal.  A decoder that has thrown is dropped by its callers, so
  an error carries no state.  The callback \<open>onResponseIdentity\<close> is the list \<open>rp_identities\<close> of its calls; checkpoints are
  values of the type variable.  Field prefixes \<open>mi\<close>, \<open>ms\<close> for the messages, \<open>rp\<close> for the decoder, \<open>ro\<close> for its options, \<open>us\<close>
  for a usage.
\<close>

section \<open>Messages\<close>

record message_item =
  mi_text :: js_string
  mi_completed :: bool

text \<open>A \<open>Map\<close> from output indices, in insertion order.\<close>

record message_state =
  ms_items :: "(int \<times> message_item) list"
  ms_hasUnindexedDelta :: bool
  ms_completedMessages :: nat

definition max_tracked_message_items :: nat where
  "max_tracked_message_items = 512"

definition no_messages :: message_state where
  "no_messages = \<lparr>ms_items = [], ms_hasUnindexedDelta = False, ms_completedMessages = 0\<rparr>"

definition rp_throw_if :: "bool \<Rightarrow> string \<Rightarrow> check" where
  "rp_throw_if b code = throw_if b (protocolError code)"

lemma rp_throw_if_None [simp]: "rp_throw_if b code = None \<longleftrightarrow> \<not> b"
  by (simp add: rp_throw_if_def)

definition outputIndex :: "json option \<Rightarrow> int option res" where
  "outputIndex v = (case v of None \<Rightarrow> Inr None | Some _ \<Rightarrow> (case safe_integer_value v of
     Some n \<Rightarrow> if n < 0 then Inl (protocolError ''responses_output_index_invalid'') else Inr (Some n)
   | None \<Rightarrow> Inl (protocolError ''responses_output_index_invalid'')))"

definition message_item_at :: "int \<Rightarrow> message_state \<Rightarrow> (message_item \<times> message_state) res" where
  "message_item_at index m = (case map_of (ms_items m) index of
     Some item \<Rightarrow> Inr (item, m)
   | None \<Rightarrow> guarded [rp_throw_if (max_tracked_message_items \<le> length (ms_items m)) ''responses_output_items_exceeded'']
       (let item = \<lparr>mi_text = [], mi_completed = False\<rparr> in Inr (item, m\<lparr>ms_items := ms_items m @ [(index, item)]\<rparr>)))"

definition set_message_item :: "int \<Rightarrow> message_item \<Rightarrow> message_state \<Rightarrow> message_state" where
  "set_message_item index item m = m\<lparr>ms_items := map (\<lambda>(i, x). (i, if i = index then item else x)) (ms_items m)\<rparr>"

definition observeDelta :: "json option \<Rightarrow> js_string \<Rightarrow> message_state \<Rightarrow> message_state res" where
  "observeDelta indexValue delta m = then_do (outputIndex indexValue) (\<lambda>index.
     if delta = [] then Inr m
     else case index of
       None \<Rightarrow> guarded [rp_throw_if (0 < ms_completedMessages m) ''responses_delta_after_item_done''] (Inr (m\<lparr>ms_hasUnindexedDelta := True\<rparr>))
     | Some i \<Rightarrow> then_do (message_item_at i m) (\<lambda>(item, m').
         guarded [rp_throw_if (mi_completed item) ''responses_delta_after_item_done'']
           (Inr (set_message_item i (item\<lparr>mi_text := mi_text item @ delta\<rparr>) m'))))"

definition complete_message :: "json option \<Rightarrow> js_string \<Rightarrow> js_string \<Rightarrow> message_state \<Rightarrow> message_state res" where
  "complete_message indexValue content streamed m = then_do (outputIndex indexValue) (\<lambda>requestedIndex.
     let onlyIndex = (case ms_items m of [(i, _)] \<Rightarrow> Some i | _ \<Rightarrow> None);
       index = (case requestedIndex of Some i \<Rightarrow> Some i | None \<Rightarrow> onlyIndex);
       item = (case index of None \<Rightarrow> None | Some i \<Rightarrow> map_of (ms_items m) i);
       legacySingle = (ms_completedMessages m = 0 \<and> (length (ms_items m) = 0
         \<or> length (ms_items m) = 1 \<and> index = onlyIndex \<and> (requestedIndex = None \<or> ms_hasUnindexedDelta m)));
       expected = (if legacySingle then Some streamed else if index = None then None
         else Some (case item of Some x \<Rightarrow> mi_text x | None \<Rightarrow> [])) in
     guarded [rp_throw_if (case item of Some x \<Rightarrow> mi_completed x | None \<Rightarrow> False) ''responses_output_item_duplicate'',
       rp_throw_if (Some content \<noteq> expected) ''responses_final_output_mismatch'',
       rp_throw_if (max_tracked_message_items \<le> ms_completedMessages m) ''responses_output_items_exceeded'']
     (then_do (case index of None \<Rightarrow> Inr m | Some i \<Rightarrow> then_do (message_item_at i m) (\<lambda>(_, m').
          Inr (set_message_item i \<lparr>mi_text = content, mi_completed = True\<rparr> m')))
       (\<lambda>m'. Inr (m'\<lparr>ms_completedMessages := ms_completedMessages m' + 1\<rparr>))))"

section \<open>Events and options\<close>

datatype model_item = AssistantText js_string | ModelCall tool_kind js_string js_string js_string

record usage_report =
  us_inputTokens :: int
  us_cachedInputTokens :: int
  us_cachedInputTokensReported :: bool
  us_outputTokens :: int
  us_totalTokens :: int

datatype reasoning_channel = SummaryChannel | ContentChannel
datatype response_status = FailedResponse | IncompleteResponse

text \<open>
  The events of a transport, without the identity of the call and the turn state that transports add; the second truth value
  of a fallback says that it carries the input strategy \<open>manual\<close>.
\<close>

datatype 'c transport_event =
    ResponseCreated 'c
  | TextDelta js_string
  | ReasoningText reasoning_channel int js_string
  | ReasoningPart int
  | ItemCompleted model_item
  | UsageReported usage_report "response_status option" "js_string option"
  | ResponseCompleted "'c option" bool
  | ResponseFailed js_string bool
  | RateLimitSeen json
  | CallRequested tool_kind js_string js_string js_string
  | TransportFallback js_string js_string js_string bool bool

datatype sequence_policy = SequenceRequired | SequenceWhenPresent
datatype identity_policy = IdentityStrict | TerminalAuthoritative
datatype final_output_policy = FinalStrict | StreamAuthoritativeWhenEmpty

record 'c protocol_options =
  ro_sequencePolicy :: sequence_policy
  ro_identityPolicy :: identity_policy
  ro_finalOutputPolicy :: final_output_policy
  ro_completedCheckpoint :: "js_string \<Rightarrow> 'c option"
  ro_createdCheckpoint :: "js_string \<Rightarrow> 'c option"

record protocol_state =
  rp_lastSequence :: int
  rp_created :: bool
  rp_responseId :: "js_string option"
  rp_output :: js_string
  rp_messages :: message_state
  rp_terminal :: bool
  rp_history :: "model_item list"
  rp_reasoningBytes :: nat
  rp_identities :: "js_string list"

definition new_protocol :: protocol_state where
  "new_protocol = \<lparr>rp_lastSequence = - 1, rp_created = False, rp_responseId = None, rp_output = [], rp_messages = no_messages,
     rp_terminal = False, rp_history = [], rp_reasoningBytes = 0, rp_identities = []\<rparr>"

definition max_response_id_length :: nat where "max_response_id_length = 512"
definition max_reasoning_delta_bytes :: nat where "max_reasoning_delta_bytes = 16 * 1024"
definition max_reasoning_bytes :: nat where "max_reasoning_bytes = 64 * 1024"
definition max_output_delta_bytes :: nat where "max_output_delta_bytes = 256 * 1024"

section \<open>Dynamic values\<close>

definition require_object :: "json option \<Rightarrow> string \<Rightarrow> json res" where
  "require_object v code = (case v of Some (JObj ps) \<Rightarrow> Inr (JObj ps) | _ \<Rightarrow> Inl (protocolError code))"

definition require_string :: "json option \<Rightarrow> string \<Rightarrow> js_string res" where
  "require_string v code = (case v of Some (JStr s) \<Rightarrow> if s = [] then Inl (protocolError code) else Inr s | _ \<Rightarrow> Inl (protocolError code))"

definition boundedString :: "json option \<Rightarrow> nat \<Rightarrow> string \<Rightarrow> js_string res" where
  "boundedString v maxBytes code = (case v of
     Some (JStr s) \<Rightarrow> if maxBytes < utf8_length s then Inl (protocolError code) else Inr s | _ \<Rightarrow> Inl (protocolError code))"

definition boundedNonEmpty :: "json option \<Rightarrow> nat \<Rightarrow> string \<Rightarrow> js_string res" where
  "boundedNonEmpty v maxLength code = (case v of
     Some (JStr s) \<Rightarrow> if is_blank s \<or> maxLength < length s then Inl (protocolError code) else Inr s | _ \<Rightarrow> Inl (protocolError code))"

definition nonNegativeInteger :: "json option \<Rightarrow> string \<Rightarrow> int res" where
  "nonNegativeInteger v code = (case safe_integer_value v of
     Some n \<Rightarrow> if n < 0 then Inl (protocolError code) else Inr n | None \<Rightarrow> Inl (protocolError code))"

definition reasoningIndex :: "json option \<Rightarrow> int res" where
  "reasoningIndex v = nonNegativeInteger v ''responses_reasoning_index_invalid''"

definition validateSequence :: "json option \<Rightarrow> int \<Rightarrow> sequence_policy \<Rightarrow> int res" where
  "validateSequence v previous policy =
     (if v = None \<and> policy = SequenceWhenPresent then Inr previous
      else case safe_integer_value v of
        Some n \<Rightarrow> if n < 0 \<or> n \<le> previous then Inl (protocolError ''responses_sequence_invalid'') else Inr n
      | None \<Rightarrow> Inl (protocolError ''responses_sequence_invalid''))"

definition requireOptionalStatus :: "json \<Rightarrow> string \<Rightarrow> check" where
  "requireOptionalStatus response expected =
     rp_throw_if (get_prop response ''status'' \<noteq> None \<and> get_prop response ''status'' \<noteq> Some (JStr (js expected))) ''responses_status_invalid''"

definition requireCreated :: "bool \<Rightarrow> check" where
  "requireCreated created = rp_throw_if (\<not> created) ''responses_created_missing''"

section \<open>Responses\<close>

definition optionalResponseIdentity :: "json \<Rightarrow> js_string option res" where
  "optionalResponseIdentity event = then_do (require_object (get_prop event ''response'') ''responses_created_response_invalid'') (\<lambda>response.
     if get_prop response ''id'' = None then Inr None
     else then_do (boundedNonEmpty (get_prop response ''id'') max_response_id_length ''responses_response_id_invalid'') (\<lambda>i. Inr (Some i)))"

definition terminalResponse :: "json option \<Rightarrow> js_string option \<Rightarrow> string \<Rightarrow> identity_policy \<Rightarrow> (json \<times> js_string) res" where
  "terminalResponse v expectedId code policy = then_do (require_object v code) (\<lambda>response.
     then_do (boundedNonEmpty (get_prop response ''id'') max_response_id_length ''responses_response_id_invalid'') (\<lambda>responseId.
       guarded [rp_throw_if (policy = IdentityStrict \<and> expectedId \<noteq> None \<and> Some responseId \<noteq> expectedId) ''responses_response_id_mismatch'']
         (Inr (response, responseId))))"

definition failureResponse :: "json option \<Rightarrow> js_string option \<Rightarrow> string \<Rightarrow> identity_policy \<Rightarrow> json res" where
  "failureResponse v expectedId code policy = then_do (if v = None then Inr (JObj []) else require_object v code) (\<lambda>response.
     if get_prop response ''id'' = None then Inr response
     else then_do (boundedNonEmpty (get_prop response ''id'') max_response_id_length ''responses_response_id_invalid'') (\<lambda>responseId.
       guarded [rp_throw_if (policy = IdentityStrict \<and> expectedId \<noteq> None \<and> Some responseId \<noteq> expectedId) ''responses_response_id_mismatch'']
         (Inr response)))"

definition parseCachedInputTokens :: "json option \<Rightarrow> int option res" where
  "parseCachedInputTokens v = (if v = None then Inr None
     else then_do (require_object v ''responses_input_tokens_details_invalid'') (\<lambda>details.
       if get_prop details ''cached_tokens'' = None then Inr None
       else then_do (nonNegativeInteger (get_prop details ''cached_tokens'') ''responses_cached_input_tokens_invalid'') (\<lambda>n. Inr (Some n))))"

definition usage_of_object :: "json \<Rightarrow> usage_report res" where
  "usage_of_object usage =
     then_do (nonNegativeInteger (get_prop usage ''input_tokens'') ''responses_input_tokens_invalid'') (\<lambda>inputTokens.
     then_do (parseCachedInputTokens (get_prop usage ''input_tokens_details'')) (\<lambda>cached.
     guarded [rp_throw_if (inputTokens < nullish cached 0) ''responses_cached_input_tokens_exceeds_input'']
     (then_do (nonNegativeInteger (get_prop usage ''output_tokens'') ''responses_output_tokens_invalid'') (\<lambda>outputTokens.
     then_do (nonNegativeInteger (get_prop usage ''total_tokens'') ''responses_total_tokens_invalid'') (\<lambda>totalTokens.
     guarded [rp_throw_if (totalTokens \<noteq> inputTokens + outputTokens) ''responses_usage_total_mismatch'']
     (Inr \<lparr>us_inputTokens = inputTokens, us_cachedInputTokens = nullish cached 0, us_cachedInputTokensReported = (cached \<noteq> None),
        us_outputTokens = outputTokens, us_totalTokens = totalTokens\<rparr>))))))"

definition parseUsage :: "json option \<Rightarrow> usage_report option res" where
  "parseUsage v = (if v = None \<or> v = Some JNull then Inr None
     else then_do (require_object v ''responses_usage_missing'') (\<lambda>usage. then_do (usage_of_object usage) (\<lambda>u. Inr (Some u))))"

text \<open>The text parts of a message in the final output.\<close>

definition part_text :: "json \<Rightarrow> js_string" where
  "part_text part = (case get_prop part ''text'' of
     Some (JStr s) \<Rightarrow> if get_prop part ''type'' = Some (JStr (js ''output_text'')) then s else [] | _ \<Rightarrow> [])"

definition final_item_text :: "json \<Rightarrow> js_string" where
  "final_item_text item = (if get_prop item ''type'' \<noteq> Some (JStr (js ''message'')) then []
     else case get_prop item ''content'' of Some (JArr parts) \<Rightarrow> concat (map part_text parts) | _ \<Rightarrow> [])"

definition validateFinalOutput :: "json option \<Rightarrow> js_string \<Rightarrow> final_output_policy \<Rightarrow> check" where
  "validateFinalOutput v streamed policy = (case v of
     Some (JArr items) \<Rightarrow> if policy = StreamAuthoritativeWhenEmpty \<and> items = [] then None
       else rp_throw_if (concat (map final_item_text items) \<noteq> streamed) ''responses_output_mismatch''
   | _ \<Rightarrow> Some (protocolError ''responses_output_invalid''))"

fun message_parts :: "json list \<Rightarrow> js_string res" where
  "message_parts [] = Inr []"
| "message_parts (part # parts) = then_do (require_object (Some part) ''responses_output_message_invalid'') (\<lambda>content.
     guarded [rp_throw_if (get_prop content ''type'' \<noteq> Some (JStr (js ''output_text''))) ''responses_output_message_invalid'']
     (then_do (require_string (get_prop content ''text'') ''responses_output_message_invalid'') (\<lambda>t.
       then_do (message_parts parts) (\<lambda>ts. Inr (t @ ts)))))"

definition completedAssistantMessageContent :: "json \<Rightarrow> js_string res" where
  "completedAssistantMessageContent item = (case get_prop item ''content'' of
     Some (JArr parts) \<Rightarrow> guarded [rp_throw_if (get_prop item ''role'' \<noteq> Some (JStr (js ''assistant''))) ''responses_output_message_invalid'']
       (message_parts parts)
   | _ \<Rightarrow> Inl (protocolError ''responses_output_message_invalid''))"

section \<open>Failures\<close>

definition matches_provider_code :: "js_string \<Rightarrow> bool" where
  "matches_provider_code s \<longleftrightarrow> 1 \<le> length s \<and> length s \<le> 96 \<and> list_all (\<lambda>u. 97 \<le> u \<and> u \<le> 122 \<or> 48 \<le> u \<and> u \<le> 57 \<or> u = 95) s"

definition safeProviderCode :: "json option \<Rightarrow> string \<Rightarrow> js_string" where
  "safeProviderCode v fallback = (case v of Some (JStr s) \<Rightarrow> if matches_provider_code s then s else js fallback | _ \<Rightarrow> js fallback)"

definition final_provider_codes :: "string list" where
  "final_provider_codes = [''context_length_exceeded'', ''insufficient_quota'', ''usage_not_included'', ''invalid_prompt'',
     ''cyber_policy'', ''server_is_overloaded'', ''slow_down'', ''previous_response_not_found'']"

definition providerFailure :: "json option \<Rightarrow> js_string \<times> bool" where
  "providerFailure v = (let code = safeProviderCode v ''failed'' in
     (js ''responses_provider_'' @ code, code \<notin> set (map js final_provider_codes)))"

definition parseStreamFailure :: "json \<Rightarrow> js_string \<times> bool" where
  "parseStreamFailure response = providerFailure (case get_prop response ''error'' of Some e \<Rightarrow> get_prop e ''code'' | None \<Rightarrow> None)"

definition parseIncomplete :: "json \<Rightarrow> js_string \<times> bool" where
  "parseIncomplete response = (let
       reason = safeProviderCode (case get_prop response ''incomplete_details'' of Some d \<Rightarrow> get_prop d ''reason'' | None \<Rightarrow> None) ''unknown'' in
     (js ''responses_incomplete_'' @ reason, reason \<noteq> js ''max_output_tokens'' \<and> reason \<noteq> js ''content_filter''))"

definition parseProviderError :: "json \<Rightarrow> js_string \<times> bool" where
  "parseProviderError v = providerFailure (case get_prop v ''error'' of
     Some (JObj ps) \<Rightarrow> get_prop (JObj ps) ''code'' | _ \<Rightarrow> get_prop v ''code'')"

definition previous_response_rejected :: js_string where
  "previous_response_rejected = js ''responses_previous_response_not_found''"

definition isPreviousResponseRejected :: "json \<Rightarrow> bool" where
  "isPreviousResponseRejected v = (case get_prop v ''error'' of
     Some (JObj e) \<Rightarrow> get_prop (JObj e) ''code'' = Some (JStr (js ''previous_response_not_found''))
       \<and> (get_prop (JObj e) ''param'' = None \<or> get_prop (JObj e) ''param'' = Some (JStr (js ''previous_response_id'')))
       \<and> (get_prop v ''status'' = None \<or> get_prop v ''status'' = Some (JNum (Whole 400)) \<or> get_prop v ''status'' = Some (JNum (Whole 404)))
   | _ \<Rightarrow> False)"

section \<open>The decoder\<close>

definition reasoningDelta :: "reasoning_channel \<Rightarrow> json option \<Rightarrow> json option \<Rightarrow> protocol_state \<Rightarrow> (protocol_state \<times> 'c transport_event list) res" where
  "reasoningDelta channel indexValue deltaValue s =
     then_do (boundedString deltaValue max_reasoning_delta_bytes ''responses_reasoning_delta_invalid'') (\<lambda>delta.
       let total = rp_reasoningBytes s + utf8_length delta in
       guarded [rp_throw_if (max_reasoning_bytes < total) ''responses_reasoning_budget_exceeded'']
       (then_do (reasoningIndex indexValue) (\<lambda>index.
          Inr (s\<lparr>rp_reasoningBytes := total\<rparr>, [ReasoningText channel index delta]))))"

definition accept_created :: "'c protocol_options \<Rightarrow> json \<Rightarrow> protocol_state \<Rightarrow> (protocol_state \<times> 'c transport_event list) res" where
  "accept_created opts event s = guarded [rp_throw_if (rp_created s) ''responses_created_duplicate'']
     (then_do (optionalResponseIdentity event) (\<lambda>responseId.
        let s' = s\<lparr>rp_created := True, rp_responseId := responseId\<rparr> in
        Inr (case responseId of None \<Rightarrow> (s', [])
          | Some i \<Rightarrow> (s'\<lparr>rp_identities := rp_identities s @ [i]\<rparr>,
              case ro_createdCheckpoint opts i of None \<Rightarrow> [] | Some c \<Rightarrow> [ResponseCreated c]))))"

definition accept_delta :: "json \<Rightarrow> protocol_state \<Rightarrow> (protocol_state \<times> 'c transport_event list) res" where
  "accept_delta event s = guarded [requireCreated (rp_created s)]
     (then_do (boundedString (get_prop event ''delta'') max_output_delta_bytes ''responses_delta_invalid'') (\<lambda>delta.
        then_do (observeDelta (get_prop event ''output_index'') delta (rp_messages s)) (\<lambda>m.
          Inr (if delta = [] then (s\<lparr>rp_messages := m\<rparr>, [])
            else (s\<lparr>rp_messages := m, rp_output := rp_output s @ delta\<rparr>, [TextDelta delta])))))"

definition is_message_item :: "model_item \<Rightarrow> bool" where
  "is_message_item i = (case i of AssistantText _ \<Rightarrow> True | _ \<Rightarrow> False)"

definition completed_history :: "js_string \<Rightarrow> model_item list \<Rightarrow> model_item list" where
  "completed_history output items =
     (if 0 < length output \<and> \<not> list_ex is_message_item items then items @ [AssistantText output] else items)"

definition complete_response :: "'c protocol_options \<Rightarrow> json \<Rightarrow> js_string \<Rightarrow> protocol_state \<Rightarrow> (protocol_state \<times> 'c transport_event list) res" where
  "complete_response opts response responseId s = guarded
     [requireOptionalStatus response ''completed'',
      rp_throw_if (get_prop response ''end_turn'' \<noteq> None \<and> \<not> is_boolean (get_prop response ''end_turn'')) ''responses_end_turn_invalid'',
      (if get_prop response ''output'' = None then None
       else validateFinalOutput (get_prop response ''output'') (rp_output s) (ro_finalOutputPolicy opts))]
     (then_do (parseUsage (get_prop response ''usage'')) (\<lambda>usage.
        let completed = ResponseCompleted (ro_completedCheckpoint opts responseId) (get_prop response ''end_turn'' = Some (JBool False)) in
        Inr (s\<lparr>rp_responseId := Some responseId, rp_identities := rp_identities s @ [responseId],
            rp_history := completed_history (rp_output s) (rp_history s), rp_terminal := True\<rparr>,
          case usage of None \<Rightarrow> [completed] | Some u \<Rightarrow> [UsageReported u None (Some responseId), completed])))"

definition accept_completed :: "'c protocol_options \<Rightarrow> json \<Rightarrow> protocol_state \<Rightarrow> (protocol_state \<times> 'c transport_event list) res" where
  "accept_completed opts event s = guarded [requireCreated (rp_created s)]
     (then_do (terminalResponse (get_prop event ''response'') (rp_responseId s) ''responses_completed_response_invalid'' (ro_identityPolicy opts))
       (\<lambda>(response, responseId). complete_response opts response responseId s))"

definition failureWithUsage :: "json \<Rightarrow> js_string \<times> bool \<Rightarrow> response_status \<Rightarrow> protocol_state \<Rightarrow> (protocol_state \<times> 'c transport_event list) res" where
  "failureWithUsage response failure status s = then_do (parseUsage (get_prop response ''usage'')) (\<lambda>usage.
     let responseId = (case get_prop response ''id'' of Some (JStr i) \<Rightarrow> Some i | _ \<Rightarrow> rp_responseId s);
       terminal = ResponseFailed (fst failure) (snd failure) in
     Inr (s\<lparr>rp_identities := rp_identities s @ (case responseId of None \<Rightarrow> [] | Some i \<Rightarrow> [i]), rp_terminal := True\<rparr>,
       case usage of None \<Rightarrow> [terminal] | Some u \<Rightarrow> [UsageReported u (Some status) responseId, terminal]))"

definition accept_failure :: "'c protocol_options \<Rightarrow> response_status \<Rightarrow> json \<Rightarrow> protocol_state \<Rightarrow> (protocol_state \<times> 'c transport_event list) res" where
  "accept_failure opts status event s =
     then_do (failureResponse (get_prop event ''response'') (rp_responseId s)
         (if status = FailedResponse then ''responses_failed_response_invalid'' else ''responses_incomplete_response_invalid'') (ro_identityPolicy opts))
       (\<lambda>response. guarded [requireOptionalStatus response (if status = FailedResponse then ''failed'' else ''incomplete'')]
         (failureWithUsage response (if status = FailedResponse then parseStreamFailure response else parseIncomplete response) status s))"

definition accept_error :: "bool \<Rightarrow> json \<Rightarrow> protocol_state \<Rightarrow> (protocol_state \<times> 'c transport_event list) res" where
  "accept_error rejectedPrevious event s =
     (let failure = (if rejectedPrevious then (previous_response_rejected, False) else parseProviderError event) in
      Inr (s\<lparr>rp_terminal := True\<rparr>, [ResponseFailed (fst failure) (snd failure)]))"

definition completed_item :: "model_item \<Rightarrow> protocol_state \<Rightarrow> protocol_state \<times> 'c transport_event list" where
  "completed_item item s = (s\<lparr>rp_history := rp_history s @ [item]\<rparr>, [ItemCompleted item])"

definition accept_call :: "tool_kind \<Rightarrow> json \<Rightarrow> protocol_state \<Rightarrow> (protocol_state \<times> 'c transport_event list) res" where
  "accept_call kind item s =
     then_do (boundedNonEmpty (get_prop item ''call_id'') 512 ''responses_tool_call_id_invalid'') (\<lambda>callId.
     then_do (boundedNonEmpty (get_prop item ''name'') 128 ''responses_tool_name_invalid'') (\<lambda>name.
     then_do (boundedString (get_prop item (if kind = FunctionTool then ''arguments'' else ''input'')) (32 * 1024) ''responses_tool_input_invalid'')
       (\<lambda>input. Inr (completed_item (ModelCall kind callId name input) s))))"

definition accept_item_done :: "json \<Rightarrow> protocol_state \<Rightarrow> (protocol_state \<times> 'c transport_event list) res" where
  "accept_item_done event s = guarded [requireCreated (rp_created s)]
     (then_do (require_object (get_prop event ''item'') ''responses_output_item_invalid'') (\<lambda>item.
        let ty = get_prop item ''type'' in
        if ty = Some (JStr (js ''message'')) then
          then_do (completedAssistantMessageContent item) (\<lambda>content.
          then_do (complete_message (get_prop event ''output_index'') content (rp_output s) (rp_messages s)) (\<lambda>m.
            Inr (completed_item (AssistantText content) (s\<lparr>rp_messages := m\<rparr>))))
        else if ty = Some (JStr (js ''reasoning'')) then Inr (s, [])
        else if ty = Some (JStr (js ''function_call'')) then accept_call FunctionTool item s
        else if ty = Some (JStr (js ''custom_tool_call'')) then accept_call CustomTool item s
        else Inl (protocolError ''responses_output_item_unsupported'')))"

definition progress_events :: "string list" where
  "progress_events = [''response.in_progress'', ''response.output_item.added'', ''response.content_part.added'',
     ''response.content_part.done'', ''response.output_text.done'', ''response.function_call_arguments.delta'',
     ''response.function_call_arguments.done'', ''response.custom_tool_call_input.delta'', ''response.custom_tool_call_input.done'']"

definition accept_type :: "'c protocol_options \<Rightarrow> bool \<Rightarrow> js_string \<Rightarrow> json \<Rightarrow> protocol_state \<Rightarrow> (protocol_state \<times> 'c transport_event list) res" where
  "accept_type opts rejectedPrevious ty event s =
     (if ty = js ''response.created'' then accept_created opts event s
      else if ty = js ''response.output_text.delta'' then accept_delta event s
      else if ty = js ''response.completed'' then accept_completed opts event s
      else if ty = js ''response.failed'' then accept_failure opts FailedResponse event s
      else if ty = js ''response.incomplete'' then accept_failure opts IncompleteResponse event s
      else if ty = js ''error'' then accept_error rejectedPrevious event s
      else if ty = js ''response.output_item.done'' then accept_item_done event s
      else if ty \<in> set (map js progress_events) then guarded [requireCreated (rp_created s)] (Inr (s, []))
      else if ty = js ''response.reasoning_summary_text.delta'' then guarded [requireCreated (rp_created s)]
        (reasoningDelta SummaryChannel (get_prop event ''summary_index'') (get_prop event ''delta'') s)
      else if ty = js ''response.reasoning_text.delta'' then guarded [requireCreated (rp_created s)]
        (reasoningDelta ContentChannel (get_prop event ''content_index'') (get_prop event ''delta'') s)
      else if ty = js ''response.reasoning_summary_part.added'' then guarded [requireCreated (rp_created s)]
        (then_do (reasoningIndex (get_prop event ''summary_index'')) (\<lambda>index. Inr (s, [ReasoningPart index])))
      else Inr (s, []))"

definition accept :: "'c protocol_options \<Rightarrow> json \<Rightarrow> protocol_state \<Rightarrow> (protocol_state \<times> 'c transport_event list) res" where
  "accept opts v s = then_do (require_object (Some v) ''responses_event_invalid'') (\<lambda>event. guarded
     [rp_throw_if (rp_terminal s) ''responses_event_after_terminal'']
     (let rejectedPrevious = (\<not> rp_created s \<and> get_prop event ''type'' = Some (JStr (js ''error'')) \<and> isPreviousResponseRejected event) in
      then_do (validateSequence (get_prop event ''sequence_number'') (rp_lastSequence s)
          (if rejectedPrevious then SequenceWhenPresent else ro_sequencePolicy opts)) (\<lambda>n.
        then_do (require_string (get_prop event ''type'') ''responses_event_type_invalid'') (\<lambda>ty.
          accept_type opts rejectedPrevious ty event (s\<lparr>rp_lastSequence := n\<rparr>)))))"

definition finish_protocol :: "protocol_state \<Rightarrow> check" where
  "finish_protocol s = throw_if (\<not> rp_terminal s) (ModelTransportError ''responses_stream_incomplete'')"

section \<open>A response body\<close>

text \<open>
  The loop over the items of the stream: what is yielded at once, the events held back from the terminal on, and the error.
\<close>

fun decode_items :: "'c protocol_options \<Rightarrow> protocol_state \<Rightarrow> 'c transport_event list \<Rightarrow> sse_item list
    \<Rightarrow> 'c transport_event list \<times> 'c transport_event list \<times> protocol_state \<times> check" where
  "decode_items opts s held [] = ([], held, s, None)"
| "decode_items opts s held (SseDone # items) =
     (if \<not> rp_terminal s then ([], held, s, Some (protocolError ''responses_done_before_terminal''))
      else decode_items opts s held items)"
| "decode_items opts s held (SseEvent v # items) = (case accept opts v s of
     Inl e \<Rightarrow> ([], held, s, Some e)
   | Inr (s', events) \<Rightarrow> if rp_terminal s' then decode_items opts s' events items
       else (let (ys, h, t, c) = decode_items opts s' held items in (events @ ys, h, t, c)))"

definition default_max_event_bytes :: int where
  "default_max_event_bytes = 256 * 1024"

definition is_usage :: "'c transport_event \<Rightarrow> bool" where
  "is_usage e = (case e of UsageReported _ _ _ \<Rightarrow> True | _ \<Rightarrow> False)"

text \<open>
  What a body yields and how it ends; an error carries the usage that was reported before it.
\<close>

definition decodeResponsesProtocolEvents :: "'c protocol_options \<Rightarrow> body_read list
    \<Rightarrow> 'c transport_event list \<times> (js_error \<times> 'c transport_event option) option" where
  "decodeResponsesProtocolEvents opts reads = (let
       (items, failed) = parseResponsesSse default_max_event_bytes
         (\<lambda>items. case decode_items opts new_protocol [] items of (_, _, s, _) \<Rightarrow> rp_terminal s) reads;
       (yielded, held, s, thrown) = decode_items opts new_protocol [] items;
       error = first_throw [thrown, failed, finish_protocol s] in
     case error of
       Some e \<Rightarrow> (yielded, Some (e, case e of ModelTransportError _ \<Rightarrow> find is_usage held | _ \<Rightarrow> None))
     | None \<Rightarrow> (yielded @ held, None))"


section \<open>What one event does\<close>

definition is_terminal_event :: "'c transport_event \<Rightarrow> bool" where
  "is_terminal_event e = (case e of ResponseCompleted _ _ \<Rightarrow> True | ResponseFailed _ _ \<Rightarrow> True | _ \<Rightarrow> False)"

definition delta_text :: "'c transport_event \<Rightarrow> js_string" where
  "delta_text e = (case e of TextDelta d \<Rightarrow> d | _ \<Rightarrow> [])"

definition streamed_text :: "'c transport_event list \<Rightarrow> js_string" where
  "streamed_text events = concat (map delta_text events)"

definition finished_items :: "'c transport_event list \<Rightarrow> model_item list" where
  "finished_items events = List.map_filter (\<lambda>e. case e of ItemCompleted i \<Rightarrow> Some i | _ \<Rightarrow> None) events"

definition is_completed_event :: "'c transport_event \<Rightarrow> bool" where
  "is_completed_event e = (case e of ResponseCompleted _ _ \<Rightarrow> True | _ \<Rightarrow> False)"

definition usage_consistent :: "usage_report \<Rightarrow> bool" where
  "usage_consistent u \<longleftrightarrow> 0 \<le> us_cachedInputTokens u \<and> us_cachedInputTokens u \<le> us_inputTokens u \<and> 0 \<le> us_outputTokens u
     \<and> us_totalTokens u = us_inputTokens u + us_outputTokens u \<and> us_totalTokens u \<le> max_safe_integer"

text \<open>The events of a terminal: at most one usage, consistent, before it.\<close>

definition terminal_events :: "'c transport_event list \<Rightarrow> bool" where
  "terminal_events events \<longleftrightarrow> (\<exists>t. is_terminal_event t \<and> (events = [t] \<or> (\<exists>u st i. usage_consistent u \<and> events = [UsageReported u st i, t])))"

definition plain_event :: "'c transport_event \<Rightarrow> bool" where
  "plain_event e \<longleftrightarrow> \<not> is_terminal_event e \<and> \<not> is_usage e"

lemma terminal_events_simps [simp]: "terminal_events [ResponseCompleted c b]" "terminal_events [ResponseFailed f r]"
  "terminal_events [UsageReported u st i, ResponseCompleted c b] \<longleftrightarrow> usage_consistent u"
  "terminal_events [UsageReported u st i, ResponseFailed f r] \<longleftrightarrow> usage_consistent u"
  by (auto simp: terminal_events_def is_terminal_event_def)

lemmas event_defs = is_terminal_event_def is_usage_def plain_event_def is_completed_event_def

lemma text_simps [simp]: "streamed_text [] = []" "streamed_text (e # es) = delta_text e @ streamed_text es"
  "streamed_text (es @ fs) = streamed_text es @ streamed_text fs"
  "finished_items [] = []" "finished_items (es @ fs) = finished_items es @ finished_items fs"
  by (simp_all add: streamed_text_def finished_items_def List.map_filter_def)

lemma finished_items_Cons [simp]: "finished_items (e # es) = (case e of ItemCompleted i \<Rightarrow> i # finished_items es | _ \<Rightarrow> finished_items es)"
  by (cases e) (simp_all add: finished_items_def List.map_filter_def)

definition accepted_step :: "protocol_state \<Rightarrow> protocol_state \<Rightarrow> 'c transport_event list \<Rightarrow> bool" where
  "accepted_step s s' events \<longleftrightarrow> rp_output s' = rp_output s @ streamed_text events
     \<and> (if rp_terminal s' then terminal_events events
          \<and> rp_history s' = (if list_ex is_completed_event events then completed_history (rp_output s) (rp_history s) else rp_history s)
        else list_all plain_event events \<and> rp_history s' = rp_history s @ finished_items events)"

lemma nonNegativeInteger_Inr [simp]: "nonNegativeInteger v code = Inr n \<longleftrightarrow> safe_integer_value v = Some n \<and> 0 \<le> n"
  by (auto simp: nonNegativeInteger_def split: option.splits)

lemma safe_integer_max: "safe_integer_value v = Some n \<Longrightarrow> n \<le> max_safe_integer"
  by (auto simp: safe_integer_value_def is_safe_integer_def split: option.splits json.splits js_number.splits if_splits)

lemma cached_Inr: "parseCachedInputTokens v = Inr c \<Longrightarrow> 0 \<le> nullish c 0"
  by (auto simp: parseCachedInputTokens_def split: if_splits)

lemma usage_object_consistent: "usage_of_object v = Inr u \<Longrightarrow> usage_consistent u"
  by (clarsimp simp: usage_of_object_def, unfold usage_consistent_def, simp, intro conjI)
    (erule cached_Inr | erule safe_integer_max | simp)+

lemma parseUsage_consistent: "parseUsage v = Inr (Some u) \<Longrightarrow> usage_consistent u"
  by (simp add: parseUsage_def split: if_split_asm) (elim exE conjE, simp add: usage_object_consistent)

lemma accept_created_step: "\<not> rp_terminal s \<Longrightarrow> accept_created opts event s = Inr (s', events) \<Longrightarrow> accepted_step s s' events"
  by (clarsimp simp: accept_created_def Let_def, simp split: option.split_asm; elim conjE)
    (hypsubst, simp add: accepted_step_def event_defs delta_text_def)+

lemma accept_delta_step: "\<not> rp_terminal s \<Longrightarrow> accept_delta event s = Inr (s', events) \<Longrightarrow> accepted_step s s' events"
  by (clarsimp simp: accept_delta_def, simp split: if_split_asm; elim conjE)
    (hypsubst, simp add: accepted_step_def event_defs delta_text_def)+

lemma complete_response_step: "\<not> rp_terminal s \<Longrightarrow> complete_response opts response i s = Inr (s', events) \<Longrightarrow> accepted_step s s' events"
  by (clarsimp simp: complete_response_def Let_def)
    (auto simp: accepted_step_def event_defs delta_text_def parseUsage_consistent split: option.split)

lemma accept_completed_step: "\<not> rp_terminal s \<Longrightarrow> accept_completed opts event s = Inr (s', events) \<Longrightarrow> accepted_step s s' events"
  by (auto simp: accept_completed_def intro: complete_response_step)

lemma failure_step: "\<not> rp_terminal s \<Longrightarrow> failureWithUsage response failure status s = Inr (s', events) \<Longrightarrow> accepted_step s s' events"
  by (clarsimp simp: failureWithUsage_def Let_def)
    (auto simp: accepted_step_def event_defs delta_text_def parseUsage_consistent split: option.split)

lemma accept_failure_step: "\<not> rp_terminal s \<Longrightarrow> accept_failure opts status event s = Inr (s', events) \<Longrightarrow> accepted_step s s' events"
  by (auto simp: accept_failure_def intro: failure_step)

lemma accept_error_step: "\<not> rp_terminal s \<Longrightarrow> accept_error r event s = Inr (s', events) \<Longrightarrow> accepted_step s s' events"
  by (auto simp: accept_error_def Let_def accepted_step_def event_defs delta_text_def)

lemma completed_item_step: "\<not> rp_terminal s \<Longrightarrow> completed_item item s = (s', events) \<Longrightarrow> accepted_step s s' events"
  by (auto simp: completed_item_def accepted_step_def event_defs delta_text_def)

lemma accepted_step_messages: "accepted_step (s\<lparr>rp_messages := m\<rparr>) s' events \<longleftrightarrow> accepted_step s s' events"
  by (simp add: accepted_step_def)

lemma accept_call_step: "\<not> rp_terminal s \<Longrightarrow> accept_call kind item s = Inr (s', events) \<Longrightarrow> accepted_step s s' events"
  unfolding accept_call_def by (auto intro: completed_item_step)

lemma quiet_step: "\<not> rp_terminal s \<Longrightarrow> accepted_step s s []"
  by (simp add: accepted_step_def)

lemma accept_item_step:
  assumes "\<not> rp_terminal s" and "accept_item_done event s = Inr (s', events)"
  shows "accepted_step s s' events"
proof -
  from assms(2) consider "s' = s" "events = []"
    | k item where "accept_call k item s = Inr (s', events)"
    | c m where "completed_item (AssistantText c) (s\<lparr>rp_messages := m\<rparr>) = (s', events)"
    by (auto simp: accept_item_done_def Let_def split: if_splits)
  then show ?thesis
  proof cases
    case 1
    then show ?thesis using quiet_step [OF assms(1)] by simp
  next
    case 2
    then show ?thesis by (rule accept_call_step [OF assms(1)])
  next
    case (3 c m)
    have "accepted_step (s\<lparr>rp_messages := m\<rparr>) s' events" by (rule completed_item_step [OF _ 3]) (simp add: assms(1))
    then show ?thesis by (simp add: accepted_step_messages)
  qed
qed

lemma reasoning_step: "\<not> rp_terminal s \<Longrightarrow> reasoningDelta ch iv dv s = Inr (s', events) \<Longrightarrow> accepted_step s s' events"
  by (auto simp: reasoningDelta_def Let_def accepted_step_def event_defs delta_text_def)

lemma if_casesE: "(if b then x else y) = z \<Longrightarrow> (b \<Longrightarrow> x = z \<Longrightarrow> P) \<Longrightarrow> (\<not> b \<Longrightarrow> y = z \<Longrightarrow> P) \<Longrightarrow> P"
  by (simp split: if_splits)

lemma accept_type_step:
  assumes "\<not> rp_terminal s" and "accept_type opts r ty event s = Inr (s', events)"
  shows "accepted_step s s' events"
proof -
  note steps = accept_created_step accept_delta_step accept_completed_step accept_failure_step accept_error_step accept_item_step
  have part: "accepted_step s s' events" if "guarded cs (then_do m (\<lambda>i. Inr (s, [ReasoningPart i]))) = Inr (s', events)" for cs m
    using that assms(1) by (auto simp: accepted_step_def event_defs delta_text_def)
  have reason: "accepted_step s s' events" if "guarded cs (reasoningDelta ch iv dv s) = Inr (s', events)" for cs ch iv dv
    using that by (auto intro: reasoning_step [OF assms(1)])
  have quiet: "accepted_step s s' events" if "guarded cs (Inr (s, [])) = Inr (s', events)" for cs
    using that quiet_step [OF assms(1)] by auto
  have other: "accepted_step s s' events" if "Inr (s, []) = Inr (s', events)"
    using that quiet_step [OF assms(1)] by auto
  from assms(2) show ?thesis unfolding accept_type_def
    by - (elim if_casesE; erule steps [OF assms(1)] reason part quiet other)
qed

lemma accept_step:
  assumes "accept opts v s = Inr (s', events)"
  shows "\<not> rp_terminal s" "accepted_step s s' events"
proof -
  from assms obtain n r ty event where t: "\<not> rp_terminal s" "accept_type opts r ty event (s\<lparr>rp_lastSequence := n\<rparr>) = Inr (s', events)"
    by (auto simp: accept_def Let_def)
  from accept_type_step [OF _ this(2)] t(1) show "\<not> rp_terminal s" "accepted_step s s' events" by (simp_all add: accepted_step_def)
qed

section \<open>A whole response\<close>

fun accept_all :: "'c protocol_options \<Rightarrow> protocol_state \<Rightarrow> json list \<Rightarrow> (protocol_state \<times> 'c transport_event list) res" where
  "accept_all opts s [] = Inr (s, [])"
| "accept_all opts s (v # vs) = then_do (accept opts v s) (\<lambda>(t, events). then_do (accept_all opts t vs) (\<lambda>(u, rest). Inr (u, events @ rest)))"

lemma accept_all_append: "accept_all opts s (vs @ ws) =
    then_do (accept_all opts s vs) (\<lambda>(t, events). then_do (accept_all opts t ws) (\<lambda>(u, rest). Inr (u, events @ rest)))"
  by (induction vs arbitrary: s) (auto simp: then_do_def split: sum.splits)

text \<open>What holds of the state and the events so far.\<close>

definition response_so_far :: "protocol_state \<Rightarrow> 'c transport_event list \<Rightarrow> bool" where
  "response_so_far s events \<longleftrightarrow> rp_output s = streamed_text events
     \<and> (if rp_terminal s then (\<exists>before final. events = before @ final \<and> list_all plain_event before \<and> terminal_events final)
        else list_all plain_event events)
     \<and> rp_history s = (if list_ex is_completed_event events then completed_history (streamed_text events) (finished_items events)
        else finished_items events)"

lemma terminal_text: "terminal_events events \<Longrightarrow> streamed_text events = [] \<and> finished_items events = []"
proof -
  assume "terminal_events events"
  then obtain t where t: "is_terminal_event t" "events = [t] \<or> (\<exists>u st i. events = [UsageReported u st i, t])"
    unfolding terminal_events_def by blast
  then show ?thesis by (cases t) (auto simp: is_terminal_event_def delta_text_def)
qed

lemma plain_not_completed: "list_all plain_event events \<Longrightarrow> \<not> list_ex is_completed_event events"
  by (auto simp: list_ex_iff list_all_iff plain_event_def is_terminal_event_def is_completed_event_def split: transport_event.splits)

lemma so_far_step:
  assumes "response_so_far s events" and "\<not> rp_terminal s" and "accepted_step s s' new"
  shows "response_so_far s' (events @ new)"
proof (cases "rp_terminal s'")
  case True
  have p: "list_all plain_event events" using assms(1,2) by (simp add: response_so_far_def)
  have t: "terminal_events new" using assms(3) True by (simp add: accepted_step_def)
  show ?thesis using assms p t terminal_text [OF t] plain_not_completed [OF p] True
    unfolding response_so_far_def accepted_step_def by (auto simp: list_ex_append)
next
  case False
  have p: "list_all plain_event events" "list_all plain_event new" using assms False by (simp_all add: response_so_far_def accepted_step_def)
  show ?thesis using assms p plain_not_completed [OF p(1)] plain_not_completed [OF p(2)] False
    unfolding response_so_far_def accepted_step_def by simp
qed

lemma accept_all_so_far: "accept_all opts s vs = Inr (t, new) \<Longrightarrow> response_so_far s events \<Longrightarrow> response_so_far t (events @ new)"
proof (induction vs arbitrary: s events new)
  case (Cons v vs)
  from Cons.prems(1) obtain s' e r where v: "accept opts v s = Inr (s', e)" and vs: "accept_all opts s' vs = Inr (t, r)" and n: "new = e @ r"
    by auto
  from so_far_step [OF Cons.prems(2) accept_step [OF v]] have "response_so_far s' (events @ e)" .
  from Cons.IH [OF vs this] show ?case by (simp add: n)
qed simp

lemma new_so_far: "response_so_far new_protocol []"
  by (simp add: response_so_far_def new_protocol_def)

lemma response_run: "accept_all opts new_protocol vs = Inr (s, events) \<Longrightarrow> response_so_far s events"
  using accept_all_so_far [OF _ new_so_far] by fastforce

lemma terminal_closed: "rp_terminal s \<Longrightarrow> \<exists>e. accept opts v s = Inl e"
  using accept_step(1) by (cases "accept opts v s") fastforce+

lemma usage_in_terminal: "terminal_events events \<Longrightarrow> UsageReported u st i \<in> set events \<Longrightarrow> usage_consistent u"
  by (auto simp: terminal_events_def is_terminal_event_def)

text \<open>
  C23: a response ends once.  The decoder has ended exactly when its last event is a completion or a failure, which no other
  event is; at most one usage is reported, directly before it, and its numbers agree; and an ended decoder
  accepts nothing.
\<close>

theorem response_ends_once:
  assumes "accept_all opts new_protocol vs = Inr (s, events)"
  shows "(if rp_terminal s then (\<exists>before final. events = before @ final \<and> list_all plain_event before \<and> terminal_events final)
      else list_all plain_event events)
    \<and> (\<forall>u st i. UsageReported u st i \<notin> set events \<or> usage_consistent u)
    \<and> (\<forall>v. \<not> rp_terminal s \<or> (\<exists>e. accept opts v s = Inl e))"
proof -
  have r: "response_so_far s events" by (rule response_run [OF assms])
  have p: "UsageReported u st i \<notin> set es" if "list_all plain_event es" for es :: "'a transport_event list" and u st i
    using that by (auto simp: list_all_iff plain_event_def is_usage_def)
  have "UsageReported u st i \<notin> set events \<or> usage_consistent u" for u st i
    using r p usage_in_terminal unfolding response_so_far_def by (cases "rp_terminal s") fastforce+
  then show ?thesis using r terminal_closed unfolding response_so_far_def by blast
qed

text \<open>
  C24: what the model is remembered to have said is what was streamed: the text of a response is the concatenation of its
  deltas, and its history is the items that were completed, in order, with the whole text as one message when a
  completed response had no message item.
\<close>

theorem response_history_exact:
  assumes "accept_all opts new_protocol vs = Inr (s, events)"
  shows "rp_output s = concat (map delta_text events)
    \<and> rp_history s = (if list_ex is_completed_event events \<and> streamed_text events \<noteq> [] \<and> \<not> list_ex is_message_item (finished_items events)
        then finished_items events @ [AssistantText (streamed_text events)] else finished_items events)"
  using response_run [OF assms] by (auto simp: response_so_far_def completed_history_def streamed_text_def)

section \<open>A body\<close>

text \<open>Events that were held back are those of a terminal.\<close>

lemma decode_items_events:
  assumes "decode_items opts s held items = (yielded, h, t, c)" and "if rp_terminal s then terminal_events held else held = []"
  shows "list_all plain_event yielded \<and> (if rp_terminal t then terminal_events h else h = [])
    \<and> (rp_terminal s \<longrightarrow> yielded = [])"
  using assms
proof (induction items arbitrary: s held yielded)
  case (Cons item items)
  show ?case
  proof (cases item)
    case SseDone
    with Cons show ?thesis by (auto split: if_splits)
  next
    case (SseEvent v)
    show ?thesis
    proof (cases "accept opts v s")
      case (Inl e)
      with Cons.prems SseEvent show ?thesis by auto
    next
      case (Inr r)
      then obtain s' events where r: "accept opts v s = Inr (s', events)" by (cases r) auto
      note a = accept_step [OF r]
      show ?thesis
      proof (cases "rp_terminal s'")
        case True
        then have "decode_items opts s' events items = (yielded, h, t, c)" using Cons.prems(1) SseEvent r by simp
        moreover have "terminal_events events" using a(2) True by (simp add: accepted_step_def)
        ultimately show ?thesis using Cons.IH True a(1) by simp
      next
        case False
        then obtain ys where ys: "decode_items opts s' held items = (ys, h, t, c)" "yielded = events @ ys"
          using Cons.prems(1) SseEvent r by (auto split: prod.splits)
        have "list_all plain_event events" using a(2) False by (simp add: accepted_step_def)
        moreover have "held = []" using Cons.prems(2) a(1) by simp
        ultimately show ?thesis using Cons.IH [OF ys(1)] ys(2) False a(1) by simp
      qed
    qed
  qed
qed auto

text \<open>What the loop over the items has accepted, and why it went no further.\<close>

definition item_values :: "sse_item list \<Rightarrow> json list" where
  "item_values items = List.map_filter (\<lambda>i. case i of SseEvent v \<Rightarrow> Some v | SseDone \<Rightarrow> None) items"

lemma item_values_simps [simp]: "item_values [] = []" "item_values (SseEvent v # is) = v # item_values is" "item_values (SseDone # is) = item_values is"
  by (simp_all add: item_values_def List.map_filter_def)

definition refuses :: "'c protocol_options \<Rightarrow> protocol_state \<Rightarrow> sse_item \<Rightarrow> bool" where
  "refuses opts s i = (case i of SseDone \<Rightarrow> \<not> rp_terminal s | SseEvent v \<Rightarrow> (\<exists>e. accept opts v s = Inl e))"

definition accepted_until :: "'c protocol_options \<Rightarrow> sse_item list \<Rightarrow> protocol_state \<Rightarrow> nat \<Rightarrow> protocol_state \<Rightarrow> 'c transport_event list \<Rightarrow> bool" where
  "accepted_until opts items s n t events \<longleftrightarrow> n \<le> length items \<and> accept_all opts s (item_values (take n items)) = Inr (t, events)
     \<and> (n = length items \<or> refuses opts t (items ! n))"

lemma accepted_zero: "accepted_until opts items s 0 s [] \<longleftrightarrow> items = [] \<or> refuses opts s (items ! 0)"
  by (auto simp: accepted_until_def)

lemma accepted_done: "rp_terminal s \<Longrightarrow> accepted_until opts items s n t events \<Longrightarrow> accepted_until opts (SseDone # items) s (Suc n) t events"
  by (auto simp: accepted_until_def)

lemma accepted_event: "accept opts v s = Inr (s', new) \<Longrightarrow> accepted_until opts items s' n t events \<Longrightarrow>
    accepted_until opts (SseEvent v # items) s (Suc n) t (new @ events)"
  by (auto simp: accepted_until_def)

lemma decode_items_accepts:
  assumes "decode_items opts s held items = (yielded, h, t, c)"
  shows "\<exists>n events. accepted_until opts items s n t events \<and> (c = None \<longleftrightarrow> n = length items)
    \<and> (if rp_terminal s then yielded = [] \<and> h = held \<and> events = [] else held = [] \<longrightarrow> events = yielded @ h)"
  using assms
proof (induction items arbitrary: s held yielded)
  case Nil
  then show ?case by (intro exI [of _ 0] exI [of _ "[]"]) (auto simp: accepted_zero)
next
  case (Cons item items)
  show ?case
  proof (cases item)
    case SseDone
    show ?thesis
    proof (cases "rp_terminal s")
      case False
      with Cons.prems SseDone show ?thesis by (intro exI [of _ 0] exI [of _ "[]"]) (auto simp: accepted_zero refuses_def)
    next
      case True
      with Cons.prems SseDone have "decode_items opts s held items = (yielded, h, t, c)" by simp
      from Cons.IH [OF this] obtain n events where "accepted_until opts items s n t events" "c = None \<longleftrightarrow> n = length items"
        "yielded = [] \<and> h = held \<and> events = []" using True by auto
      then show ?thesis using True accepted_done [OF True] SseDone by (intro exI [of _ "Suc n"] exI [of _ events]) simp
    qed
  next
    case (SseEvent v)
    show ?thesis
    proof (cases "accept opts v s")
      case (Inl e)
      with Cons.prems SseEvent show ?thesis by (intro exI [of _ 0] exI [of _ "[]"]) (auto simp: accepted_zero refuses_def)
    next
      case (Inr r)
      then obtain s' new where r: "accept opts v s = Inr (s', new)" by (cases r) auto
      note a = accept_step [OF r]
      show ?thesis
      proof (cases "rp_terminal s'")
        case True
        with Cons.prems SseEvent r have "decode_items opts s' new items = (yielded, h, t, c)" by simp
        from Cons.IH [OF this] obtain n events where n: "accepted_until opts items s' n t events" "c = None \<longleftrightarrow> n = length items"
          "yielded = [] \<and> h = new \<and> events = []" using True by auto
        show ?thesis using n(2,3) a(1) accepted_event [OF r n(1)] SseEvent by (intro exI [of _ "Suc n"] exI [of _ "new @ events"]) auto
      next
        case False
        with Cons.prems SseEvent r obtain ys where ys: "decode_items opts s' held items = (ys, h, t, c)" "yielded = new @ ys" by (auto split: prod.splits)
        from Cons.IH [OF ys(1)] obtain n events where n: "accepted_until opts items s' n t events" "c = None \<longleftrightarrow> n = length items"
          "held = [] \<longrightarrow> events = ys @ h" using False by auto
        show ?thesis using n(2,3) a(1) accepted_event [OF r n(1)] SseEvent ys(2) by (intro exI [of _ "Suc n"] exI [of _ "new @ events"]) auto
      qed
    qed
  qed
qed

text \<open>The items of a body, read until the decoder has ended.\<close>

definition protocol_items :: "'c protocol_options \<Rightarrow> body_read list \<Rightarrow> sse_item list" where
  "protocol_items opts reads = fst (parseResponsesSse default_max_event_bytes
     (\<lambda>items. case decode_items opts new_protocol [] items of (_, _, s, _) \<Rightarrow> rp_terminal s) reads)"

lemma plain_filter: "list_all plain_event xs \<Longrightarrow> filter plain_event xs = xs" "list_all plain_event xs \<Longrightarrow> find is_usage (xs @ ys) = find is_usage ys"
  by (induction xs) (auto simp: plain_event_def)

lemma terminal_filter: "terminal_events events \<Longrightarrow> filter plain_event events = []"
  by (auto simp: terminal_events_def plain_event_def is_usage_def)


section \<open>Messages of one index\<close>

text \<open>What the decoder asks of the messages of a response: a delta, or that a message is done, with its content.\<close>

datatype message_op = MessageDelta "json option" js_string | MessageDone "json option" js_string

fun message_run :: "message_state \<Rightarrow> js_string \<Rightarrow> message_op list \<Rightarrow> message_state res" where
  "message_run m streamed [] = Inr m"
| "message_run m streamed (MessageDelta i d # ops) = then_do (observeDelta i d m) (\<lambda>m'. message_run m' (streamed @ d) ops)"
| "message_run m streamed (MessageDone i c # ops) = then_do (complete_message i c streamed m) (\<lambda>m'. message_run m' streamed ops)"

definition op_index :: "message_op \<Rightarrow> int option" where
  "op_index a = safe_integer_value (case a of MessageDelta i _ \<Rightarrow> i | MessageDone i _ \<Rightarrow> i)"

definition op_indexed :: "message_op \<Rightarrow> bool" where
  "op_indexed a \<longleftrightarrow> (case a of MessageDelta i _ \<Rightarrow> i \<noteq> None | MessageDone i _ \<Rightarrow> i \<noteq> None)"

definition delta_of :: "int \<Rightarrow> message_op \<Rightarrow> js_string" where
  "delta_of i a = (case a of MessageDelta _ d \<Rightarrow> if op_index a = Some i then d else [] | MessageDone _ _ \<Rightarrow> [])"

definition deltas_of :: "int \<Rightarrow> message_op list \<Rightarrow> js_string" where
  "deltas_of i ops = concat (map (delta_of i) ops)"

definition done_of :: "int \<Rightarrow> message_op list \<Rightarrow> js_string list" where
  "done_of i ops = List.map_filter (\<lambda>a. case a of MessageDone _ c \<Rightarrow> if op_index a = Some i then Some c else None | _ \<Rightarrow> None) ops"

lemma op_simps [simp]: "deltas_of i [] = []" "deltas_of i (ops @ qs) = deltas_of i ops @ deltas_of i qs"
  "deltas_of i [MessageDelta v d] = (if safe_integer_value v = Some i then d else [])" "deltas_of i [MessageDone v c] = []"
  "done_of i [] = []" "done_of i (ops @ qs) = done_of i ops @ done_of i qs"
  "done_of i [MessageDone v c] = (if safe_integer_value v = Some i then [c] else [])" "done_of i [MessageDelta v d] = []"
  by (simp_all add: deltas_of_def delta_of_def done_of_def op_index_def List.map_filter_def)

text \<open>What the state knows of the operations so far.\<close>

definition item_knows :: "message_item option \<Rightarrow> js_string \<Rightarrow> js_string list \<Rightarrow> bool" where
  "item_knows item deltas dones \<longleftrightarrow> (case item of None \<Rightarrow> deltas = [] \<and> dones = []
     | Some x \<Rightarrow> mi_text x = deltas \<and> dones = (if mi_completed x then [deltas] else []))"

definition messages_know :: "message_state \<Rightarrow> js_string \<Rightarrow> message_op list \<Rightarrow> bool" where
  "messages_know m streamed ops \<longleftrightarrow> \<not> ms_hasUnindexedDelta m \<and> (ms_items m = [] \<longrightarrow> streamed = [])
     \<and> (\<forall>i. item_knows (map_of (ms_items m) i) (deltas_of i ops) (done_of i ops))"

lemma messages_know_at:
  assumes "messages_know m streamed ops"
  shows "map_of (ms_items m) i = None \<Longrightarrow> deltas_of i ops = [] \<and> done_of i ops = []"
    "map_of (ms_items m) i = Some x \<Longrightarrow> mi_text x = deltas_of i ops \<and> done_of i ops = (if mi_completed x then [deltas_of i ops] else [])"
proof -
  have "item_knows (map_of (ms_items m) i) (deltas_of i ops) (done_of i ops)" using assms by (simp add: messages_know_def)
  then show "map_of (ms_items m) i = None \<Longrightarrow> deltas_of i ops = [] \<and> done_of i ops = []"
    "map_of (ms_items m) i = Some x \<Longrightarrow> mi_text x = deltas_of i ops \<and> done_of i ops = (if mi_completed x then [deltas_of i ops] else [])"
    by (simp_all add: item_knows_def)
qed

lemma map_of_set_item: "map_of (ms_items (set_message_item i y m)) j =
    (if j = i \<and> map_of (ms_items m) i \<noteq> None then Some y else map_of (ms_items m) j)"
proof -
  have "map_of (map (\<lambda>(k, x). (k, if k = i then y else x)) xs) j = (if j = i \<and> map_of xs i \<noteq> None then Some y else map_of xs j)" for xs
    by (induction xs) (auto split: if_splits)
  then show ?thesis by (simp add: set_message_item_def)
qed

lemma message_item_at_Inr:
  assumes "message_item_at i m = Inr (x, m')"
  shows "map_of (ms_items m') j = (if j = i then Some x else map_of (ms_items m) j)"
    "map_of (ms_items m) i = Some x \<or> map_of (ms_items m) i = None \<and> mi_text x = [] \<and> \<not> mi_completed x"
    "ms_hasUnindexedDelta m' = ms_hasUnindexedDelta m" "ms_items m' \<noteq> []"
  using assms by (auto simp: message_item_at_def Let_def map_add_def split: option.splits)

lemma outputIndex_Some: "outputIndex (Some v) = Inr r \<Longrightarrow> \<exists>n. r = Some n \<and> safe_integer_value (Some v) = Some n"
  by (auto simp: outputIndex_def split: option.splits if_splits)

lemma set_item_fields [simp]: "ms_hasUnindexedDelta (set_message_item i y m) = ms_hasUnindexedDelta m"
  "ms_items (set_message_item i y m) = [] \<longleftrightarrow> ms_items m = []"
  by (simp_all add: set_message_item_def)

lemma know_update:
  assumes k: "messages_know m streamed ops" and at: "message_item_at i m = Inr (x, m')" and y: "mi_text y = mi_text x @ deltas_of i [a]"
    and d: "done_of i (ops @ [a]) = (if mi_completed y then [deltas_of i (ops @ [a])] else [])"
    and other: "\<forall>j. j \<noteq> i \<longrightarrow> deltas_of j [a] = [] \<and> done_of j [a] = []"
  shows "messages_know (set_message_item i y m'\<lparr>ms_completedMessages := n\<rparr>) streamed' (ops @ [a])"
proof -
  note f = message_item_at_Inr [OF at]
  have t: "mi_text x = deltas_of i ops" using f(2) messages_know_at [OF k] by auto
  have "item_knows (map_of (ms_items (set_message_item i y m')) j) (deltas_of j (ops @ [a])) (done_of j (ops @ [a]))" for j
  proof (cases "j = i")
    case True
    then show ?thesis using y d t f(1) by (simp add: map_of_set_item item_knows_def)
  next
    case False
    then have "map_of (ms_items (set_message_item i y m')) j = map_of (ms_items m) j" by (simp add: map_of_set_item f(1))
    then show ?thesis using other False k by (simp add: messages_know_def)
  qed
  then show ?thesis using k f(3,4) by (simp add: messages_know_def)
qed

lemma delta_known:
  assumes k: "messages_know m streamed ops" and o: "observeDelta (Some v) d m = Inr m'"
  shows "messages_know m' (streamed @ d) (ops @ [MessageDelta (Some v) d])"
proof -
  from o obtain r where "outputIndex (Some v) = Inr r" by (auto simp: observeDelta_def)
  from outputIndex_Some [OF this] obtain i where i: "outputIndex (Some v) = Inr (Some i)" "safe_integer_value (Some v) = Some i"
    using \<open>outputIndex (Some v) = Inr r\<close> by auto
  show ?thesis
  proof (cases "d = []")
    case True
    with k o i show ?thesis by (simp add: observeDelta_def messages_know_def)
  next
    case False
    with o i obtain x m1 where x: "message_item_at i m = Inr (x, m1)" "\<not> mi_completed x"
      and m': "m' = set_message_item i (x\<lparr>mi_text := mi_text x @ d\<rparr>) m1"
      by (auto simp: observeDelta_def)
    have "done_of i ops = []" using message_item_at_Inr(2) [OF x(1)] messages_know_at [OF k] x(2) by auto
    then have "messages_know (set_message_item i (x\<lparr>mi_text := mi_text x @ d\<rparr>) m1\<lparr>ms_completedMessages := ms_completedMessages m'\<rparr>)
        (streamed @ d) (ops @ [MessageDelta (Some v) d])"
      using i(2) x(2) by (intro know_update [OF k x(1)]) auto
    then show ?thesis by (simp add: m')
  qed
qed

lemma done_known:
  assumes k: "messages_know m streamed ops" and o: "complete_message (Some v) c streamed m = Inr m'"
  shows "messages_know m' streamed (ops @ [MessageDone (Some v) c])"
proof -
  from o obtain r where "outputIndex (Some v) = Inr r" by (auto simp: complete_message_def)
  from outputIndex_Some [OF this] obtain i where i: "outputIndex (Some v) = Inr (Some i)" "safe_integer_value (Some v) = Some i"
    using \<open>outputIndex (Some v) = Inr r\<close> by auto
  have u: "\<not> ms_hasUnindexedDelta m" and e: "ms_items m = [] \<longrightarrow> streamed = []" using k by (simp_all add: messages_know_def)
  let ?only = "case ms_items m of [(i, _)] \<Rightarrow> Some i | _ \<Rightarrow> None"
  let ?legacy = "ms_completedMessages m = 0 \<and> (length (ms_items m) = 0
         \<or> length (ms_items m) = 1 \<and> Some i = ?only \<and> (Some i = None \<or> ms_hasUnindexedDelta m))"
  let ?expected = "case map_of (ms_items m) i of Some x \<Rightarrow> mi_text x | None \<Rightarrow> []"
  have x: "?legacy \<Longrightarrow> streamed = ?expected" using u e by auto
  from o obtain y m1 where m1: "message_item_at i m = Inr (y, m1)"
    and m': "m' = set_message_item i \<lparr>mi_text = c, mi_completed = True\<rparr> m1
        \<lparr>ms_completedMessages := ms_completedMessages (set_message_item i \<lparr>mi_text = c, mi_completed = True\<rparr> m1) + 1\<rparr>"
    and c: "c = (if ?legacy then streamed else ?expected)"
    and n: "\<not> (case map_of (ms_items m) i of Some x \<Rightarrow> mi_completed x | None \<Rightarrow> False)"
    by (auto simp: complete_message_def i Let_def split: if_split_asm)
  from c x have c: "c = ?expected" by auto
  note f = message_item_at_Inr(2) [OF m1]
  have y: "mi_text y = c" "\<not> mi_completed y" using f c n by auto
  have t: "mi_text y = deltas_of i ops" "done_of i ops = []" using f messages_know_at [OF k] y(2) by auto
  show ?thesis unfolding m' using y t i(2) by (intro know_update [OF k m1]) auto
qed

lemma messages_known:
  "message_run m streamed ops = Inr m' \<Longrightarrow> list_all op_indexed ops \<Longrightarrow> messages_know m streamed before \<Longrightarrow>
    \<exists>streamed'. messages_know m' streamed' (before @ ops)"
proof (induction ops arbitrary: m streamed before)
  case (Cons a ops)
  show ?case
  proof (cases a)
    case (MessageDelta i d)
    with Cons.prems obtain v m1 where "i = Some v" "observeDelta (Some v) d m = Inr m1" "message_run m1 (streamed @ d) ops = Inr m'"
      by (auto simp: op_indexed_def)
    with Cons.IH [OF _ _ delta_known [OF Cons.prems(3)]] Cons.prems(2) MessageDelta show ?thesis by fastforce
  next
    case (MessageDone i c)
    with Cons.prems obtain v m1 where "i = Some v" "complete_message (Some v) c streamed m = Inr m1" "message_run m1 streamed ops = Inr m'"
      by (auto simp: op_indexed_def)
    with Cons.IH [OF _ _ done_known [OF Cons.prems(3)]] Cons.prems(2) MessageDone show ?thesis by fastforce
  qed
qed auto

text \<open>
  C25: from a provider that numbers its output, a message is exactly its deltas: each index is done at most once, and its
  content is then the concatenation of all the deltas of that index, however the indices are interleaved.
\<close>

theorem indexed_messages_exact:
  assumes "message_run no_messages [] ops = Inr m" and "list_all op_indexed ops"
  shows "done_of i ops = [] \<or> done_of i ops = [deltas_of i ops]"
proof -
  have "messages_know no_messages [] []" by (simp add: messages_know_def no_messages_def item_knows_def)
  from messages_known [OF assms this] obtain streamed where k: "messages_know m streamed ops" by auto
  show ?thesis using messages_know_at [OF k, of i] by (cases "map_of (ms_items m) i") auto
qed

section \<open>A concrete response\<close>

definition sample_options :: "nat protocol_options" where
  "sample_options = \<lparr>ro_sequencePolicy = SequenceWhenPresent, ro_identityPolicy = IdentityStrict, ro_finalOutputPolicy = FinalStrict,
     ro_completedCheckpoint = (\<lambda>_. None), ro_createdCheckpoint = (\<lambda>_. None)\<rparr>"

definition created_event :: json where
  "created_event = js_object [(''type'', JStr (js ''response.created'')), (''response'', js_object [])]"

definition delta_event :: "int \<Rightarrow> string \<Rightarrow> json" where
  "delta_event i t = js_object [(''type'', JStr (js ''response.output_text.delta'')), (''delta'', JStr (js t)), (''output_index'', JNum (Whole i))]"

definition done_event :: "int \<Rightarrow> string \<Rightarrow> json" where
  "done_event i t = js_object [(''type'', JStr (js ''response.output_item.done'')), (''output_index'', JNum (Whole i)),
     (''item'', js_object [(''type'', JStr (js ''message'')), (''role'', JStr (js ''assistant'')),
        (''content'', JArr [js_object [(''type'', JStr (js ''output_text'')), (''text'', JStr (js t))]])])]"

definition completed_event :: json where
  "completed_event = js_object [(''type'', JStr (js ''response.completed'')), (''response'', js_object [(''id'', JStr (js ''r''))])]"

lemma require_js_object [simp]: "require_object (Some (js_object ps)) code = Inr (js_object ps)"
  by (simp add: require_object_def js_object_def)

lemma js_Nil_iff [simp]: "js s = [] \<longleftrightarrow> s = []"
  by (simp add: js_def)

lemma sample_text: "js ''a'' \<noteq> []" "js ''b'' \<noteq> []" "utf8_length (js ''a'') = 1" "utf8_length (js ''b'') = 1" "\<not> is_blank (js ''r'')"
  by (simp_all add: js_def is_blank_iff is_js_space_def)

lemmas sample_accept = accept_def accept_type_def Let_def validateSequence_def require_string_def sample_options_def sample_text
  requireCreated_def new_protocol_def

lemma sample_created: "accept sample_options created_event new_protocol = Inr (new_protocol\<lparr>rp_created := True\<rparr>, [])"
  by (simp add: sample_accept created_event_def accept_created_def optionalResponseIdentity_def)

definition delta_state :: protocol_state where
  "delta_state = new_protocol\<lparr>rp_created := True, rp_output := js ''a'',
     rp_messages := \<lparr>ms_items = [(0, \<lparr>mi_text = js ''a'', mi_completed = False\<rparr>)], ms_hasUnindexedDelta = False, ms_completedMessages = 0\<rparr>\<rparr>"

lemma sample_first_delta: "accept sample_options (delta_event 0 ''a'') (new_protocol\<lparr>rp_created := True\<rparr>) = Inr (delta_state, [TextDelta (js ''a'')])"
  by (simp add: sample_accept delta_event_def accept_delta_def boundedString_def max_output_delta_bytes_def observeDelta_def outputIndex_def
      safe_integer_value_def is_safe_integer_def max_safe_integer_def no_messages_def message_item_at_def max_tracked_message_items_def
      set_message_item_def delta_state_def)

definition done_state :: protocol_state where
  "done_state = delta_state\<lparr>rp_history := [AssistantText (js ''a'')],
     rp_messages := \<lparr>ms_items = [(0, \<lparr>mi_text = js ''a'', mi_completed = True\<rparr>)], ms_hasUnindexedDelta = False, ms_completedMessages = 1\<rparr>\<rparr>"

lemma sample_done: "accept sample_options (done_event 0 ''a'') delta_state = Inr (done_state, [ItemCompleted (AssistantText (js ''a''))])"
  by (simp add: sample_accept done_event_def accept_item_done_def completedAssistantMessageContent_def complete_message_def outputIndex_def
      safe_integer_value_def is_safe_integer_def max_safe_integer_def message_item_at_def max_tracked_message_items_def completed_item_def
      set_message_item_def delta_state_def done_state_def)

definition lost_state :: protocol_state where
  "lost_state = done_state\<lparr>rp_output := js ''a'' @ js ''b'',
     rp_messages := \<lparr>ms_items = [(0, \<lparr>mi_text = js ''a'', mi_completed = True\<rparr>), (1, \<lparr>mi_text = js ''b'', mi_completed = False\<rparr>)],
       ms_hasUnindexedDelta = False, ms_completedMessages = 1\<rparr>\<rparr>"

lemma sample_delta_again: "accept sample_options (delta_event 1 ''b'') done_state = Inr (lost_state, [TextDelta (js ''b'')])"
  by (simp add: sample_accept delta_event_def accept_delta_def boundedString_def max_output_delta_bytes_def observeDelta_def outputIndex_def
      safe_integer_value_def is_safe_integer_def max_safe_integer_def no_messages_def message_item_at_def max_tracked_message_items_def
      set_message_item_def delta_state_def done_state_def lost_state_def)

definition ended :: "protocol_state \<Rightarrow> protocol_state" where
  "ended s = s\<lparr>rp_responseId := Some (js ''r''), rp_identities := [js ''r''], rp_terminal := True\<rparr>"

lemma sample_completed: "accept sample_options completed_event done_state = Inr (ended done_state, [ResponseCompleted None False])"
  "accept sample_options completed_event lost_state = Inr (ended lost_state, [ResponseCompleted None False])"
  by (simp_all add: sample_accept completed_event_def accept_completed_def terminalResponse_def boundedNonEmpty_def max_response_id_length_def
      complete_response_def requireOptionalStatus_def parseUsage_def completed_history_def is_message_item_def delta_state_def done_state_def
      lost_state_def ended_def)

text \<open>
  A completed response may have streamed a message that was never done: its text was yielded and is part of the output the
  decoder has checked, but not of the history.
\<close>

lemma unfinished_message_lost:
  "accept_all sample_options new_protocol [created_event, delta_event 0 ''a'', done_event 0 ''a'', delta_event 1 ''b'', completed_event]
     = Inr (ended lost_state, [TextDelta (js ''a''), ItemCompleted (AssistantText (js ''a'')), TextDelta (js ''b''), ResponseCompleted None False])"
  "rp_output (ended lost_state) = js ''ab''" "rp_history (ended lost_state) = [AssistantText (js ''a'')]"
  by (simp_all add: sample_created sample_first_delta sample_done sample_delta_again sample_completed)
    (simp_all add: ended_def lost_state_def done_state_def js_def)

lemma sample_response: "accept_all sample_options new_protocol [created_event, delta_event 0 ''a'', done_event 0 ''a'', completed_event]
    = Inr (ended done_state, [TextDelta (js ''a''), ItemCompleted (AssistantText (js ''a'')), ResponseCompleted None False])"
  by (simp add: sample_created sample_first_delta sample_done sample_completed)

theorem response_ends_once_witness:
  "rp_terminal (ended done_state) \<and> (\<exists>e. accept sample_options completed_event (ended done_state) = Inl e)"
proof -
  have "rp_terminal (ended done_state)" by (simp add: ended_def)
  with response_ends_once [OF sample_response] show ?thesis by blast
qed

theorem response_history_exact_witness:
  "rp_output (ended done_state) = js ''a'' \<and> rp_history (ended done_state) = [AssistantText (js ''a'')]"
  using response_history_exact [OF sample_response] by (simp add: delta_text_def is_message_item_def)

theorem indexed_messages_exact_witness:
  "done_of 0 [MessageDelta (Some (JNum (Whole 0))) (js ''a''), MessageDone (Some (JNum (Whole 0))) (js ''a'')] = [js ''a'']"
proof -
  let ?z = "Some (JNum (Whole 0))"
  have "\<exists>m. message_run no_messages [] [MessageDelta ?z (js ''a''), MessageDone ?z (js ''a'')] = Inr m"
    by (simp add: observeDelta_def complete_message_def outputIndex_def safe_integer_value_def is_safe_integer_def max_safe_integer_def
        no_messages_def message_item_at_def max_tracked_message_items_def set_message_item_def sample_text Let_def)
  moreover have "list_all op_indexed [MessageDelta ?z (js ''a''), MessageDone ?z (js ''a'')]" by (simp add: op_indexed_def)
  ultimately have "done_of 0 [MessageDelta ?z (js ''a''), MessageDone ?z (js ''a'')] = []
      \<or> done_of 0 [MessageDelta ?z (js ''a''), MessageDone ?z (js ''a'')] = [deltas_of 0 [MessageDelta ?z (js ''a''), MessageDone ?z (js ''a'')]]"
    using indexed_messages_exact by blast
  then show ?thesis by (auto simp: done_of_def deltas_of_def delta_of_def op_index_def List.map_filter_def safe_integer_value_def
        is_safe_integer_def max_safe_integer_def)
qed

end
