(* ===== verification/Responses_Streams.thy ===== *)
theory Responses_Streams
  imports Responses_Protocol
begin

text \<open>
  What happens to the events of a response on their way to the Worker: small deltas are joined within bounds of size and time,
  \<open>responses-output-delta-buffer.ts\<close>, and a request whose previous response the provider does not know any more is replaced
  once, \<open>responses-continuation-recovery.ts\<close>.  Field prefixes \<open>cb\<close> for the buffer and \<open>rv\<close> for the circumstances of a recovery.
\<close>

section \<open>The buffer of deltas\<close>

text \<open>What the loop of \<open>coalesceResponsesOutputDeltas\<close> waits for, in the order in which it happens.\<close>

datatype 'c delta_input = SourceEvent "'c transport_event" | SourceFailed js_error | SourceEnd | FlushReady

record delta_buffer =
  cb_pending :: js_string
  cb_flush :: bool

datatype delta_end = StillOpen delta_buffer | SourceEnded | SourceBroke js_error

definition empty_buffer :: delta_buffer where
  "empty_buffer = \<lparr>cb_pending = [], cb_flush = False\<rparr>"

definition startFlush :: "delta_buffer \<Rightarrow> delta_buffer" where
  "startFlush b = (if cb_flush b \<or> cb_pending b = [] then b else b\<lparr>cb_flush := True\<rparr>)"

definition pending_event :: "delta_buffer \<Rightarrow> 'c transport_event list" where
  "pending_event b = (if 0 < length (cb_pending b) then [TextDelta (cb_pending b)] else [])"

definition buffer_delta :: "int \<Rightarrow> js_string \<Rightarrow> delta_buffer \<Rightarrow> delta_buffer \<times> 'c transport_event list" where
  "buffer_delta flushBytes delta b = (let
       full = (0 < length (cb_pending b) \<and> flushBytes < int (utf8_length (cb_pending b @ delta)));
       first = (if full then [TextDelta (cb_pending b)] else []);
       b1 = (if full then empty_buffer else b);
       b2 = b1\<lparr>cb_pending := cb_pending b1 @ delta\<rparr> in
     if flushBytes \<le> int (utf8_length (cb_pending b2)) then (empty_buffer, first @ [TextDelta (cb_pending b2)])
     else (startFlush b2, first))"

fun coalesceResponsesOutputDeltas :: "int \<Rightarrow> delta_buffer \<Rightarrow> 'c delta_input list \<Rightarrow> 'c transport_event list \<times> delta_end" where
  "coalesceResponsesOutputDeltas flushBytes b [] = ([], StillOpen b)"
| "coalesceResponsesOutputDeltas flushBytes b (FlushReady # is) =
     (if cb_flush b then (let (ys, e) = coalesceResponsesOutputDeltas flushBytes empty_buffer is in (pending_event b @ ys, e))
      else coalesceResponsesOutputDeltas flushBytes b is)"
| "coalesceResponsesOutputDeltas flushBytes b (SourceFailed x # is) = ([], SourceBroke x)"
| "coalesceResponsesOutputDeltas flushBytes b (SourceEnd # is) = (pending_event b, SourceEnded)"
| "coalesceResponsesOutputDeltas flushBytes b (SourceEvent ev # is) = (case ev of
     TextDelta d \<Rightarrow> (let (b', out) = buffer_delta flushBytes d b; (ys, e) = coalesceResponsesOutputDeltas flushBytes b' is in (out @ ys, e))
   | _ \<Rightarrow> (let (ys, e) = coalesceResponsesOutputDeltas flushBytes empty_buffer is in (pending_event b @ [ev] @ ys, e)))"

section \<open>The recovery of a continuation\<close>

text \<open>A stream as its reader sees it: what it yields and the error it ends with.\<close>

type_synonym 'c event_stream = "'c transport_event list \<times> js_error option"

text \<open>
  What the conditions of \<open>canRecover\<close> are when the rejection arrives, and whether the signal is aborted when the reader
  comes back from the fallback event.
\<close>

record recovery =
  rv_aborted :: bool
  rv_reconciles :: bool
  rv_canReplay :: bool
  rv_abortedLater :: bool

definition canRecover :: "recovery \<Rightarrow> bool \<Rightarrow> bool" where
  "canRecover v observed \<longleftrightarrow> \<not> observed \<and> \<not> rv_aborted v \<and> \<not> rv_reconciles v \<and> rv_canReplay v"

definition is_rejection :: "'c transport_event \<Rightarrow> bool" where
  "is_rejection e = (case e of ResponseFailed code _ \<Rightarrow> code = previous_response_rejected | _ \<Rightarrow> False)"

definition is_rate_limit :: "'c transport_event \<Rightarrow> bool" where
  "is_rate_limit e = (case e of RateLimitSeen _ \<Rightarrow> True | _ \<Rightarrow> False)"

text \<open>The loop over the first stream: what it yields, whether it is rejected, and whether a response was observed.\<close>

fun first_attempt :: "recovery \<Rightarrow> bool \<Rightarrow> 'c transport_event list \<Rightarrow> 'c transport_event list \<times> bool \<times> bool" where
  "first_attempt v observed [] = ([], False, observed)"
| "first_attempt v observed (e # es) = (if is_rejection e \<and> canRecover v observed then ([], True, observed)
     else (let (ys, r, ob) = first_attempt v (observed \<or> \<not> is_rate_limit e) es in (e # ys, r, ob)))"

definition recoverResponsesContinuation :: "js_string \<Rightarrow> recovery \<Rightarrow> 'c event_stream \<Rightarrow> 'c event_stream \<Rightarrow> 'c event_stream" where
  "recoverResponsesContinuation transport v original replacement = (let
       (ys, rejected, observed) = first_attempt v False (fst original);
       caught = (\<not> rejected \<and> snd original = Some (ModelTransportError ''responses_previous_response_not_found'') \<and> canRecover v observed) in
     if \<not> rejected \<and> \<not> caught then (ys, snd original)
     else (let out = ys @ [TransportFallback transport transport previous_response_rejected False True] in
       if rv_abortedLater v then (out, Some (ModelTransportError ''segment_canceled''))
       else (out @ fst replacement, snd replacement)))"

section \<open>Joining loses nothing\<close>

text \<open>The events with every delta taken apart into its units: what does not depend on how deltas are divided.\<close>

definition event_units :: "'c transport_event \<Rightarrow> (nat + 'c transport_event) list" where
  "event_units e = (case e of TextDelta d \<Rightarrow> map Inl d | _ \<Rightarrow> [Inr e])"

definition stream_units :: "'c transport_event list \<Rightarrow> (nat + 'c transport_event) list" where
  "stream_units es = concat (map event_units es)"

lemma stream_units_simps [simp]: "stream_units [] = []" "stream_units (e # es) = event_units e @ stream_units es"
  "stream_units (es @ fs) = stream_units es @ stream_units fs" "event_units (TextDelta d) = map Inl d"
  by (simp_all add: stream_units_def event_units_def)

text \<open>What the source has given before it ended or broke.\<close>

fun source_events :: "'c delta_input list \<Rightarrow> 'c transport_event list" where
  "source_events [] = []"
| "source_events (SourceEvent e # is) = e # source_events is"
| "source_events (FlushReady # is) = source_events is"
| "source_events (_ # is) = []"

text \<open>Between two inputs a flush is set exactly while there is text, which is then below the bound.\<close>

definition buffer_ok :: "int \<Rightarrow> delta_buffer \<Rightarrow> bool" where
  "buffer_ok flushBytes b \<longleftrightarrow> (cb_flush b \<longleftrightarrow> cb_pending b \<noteq> []) \<and> (cb_pending b = [] \<or> int (utf8_length (cb_pending b)) < flushBytes)"

lemma empty_buffer_ok [simp]: "buffer_ok flushBytes empty_buffer" "cb_pending empty_buffer = []" "cb_flush empty_buffer = False"
  by (simp_all add: buffer_ok_def empty_buffer_def)

lemma pending_units [simp]: "stream_units (pending_event b) = map Inl (cb_pending b)"
  by (simp add: pending_event_def)

lemma buffer_delta_step:
  assumes "buffer_ok flushBytes b" and "buffer_delta flushBytes d b = (b', out)"
  shows "buffer_ok flushBytes b'" "map Inl (cb_pending b @ d) = stream_units out @ map Inl (cb_pending b')"
    "\<forall>e\<in>set out. \<exists>t. e = TextDelta t \<and> (int (utf8_length t) \<le> flushBytes \<or> t = d)"
  using assms by (auto simp: buffer_delta_def Let_def buffer_ok_def startFlush_def not_less not_le split: if_splits)

definition left_over :: "delta_end \<Rightarrow> js_string \<Rightarrow> int \<Rightarrow> bool" where
  "left_over fin rest flushBytes \<longleftrightarrow> (case fin of
     StillOpen b \<Rightarrow> rest = cb_pending b \<and> (cb_flush b \<longleftrightarrow> rest \<noteq> []) | SourceEnded \<Rightarrow> rest = [] | SourceBroke _ \<Rightarrow> True)
     \<and> (rest = [] \<or> int (utf8_length rest) < flushBytes)"

lemma coalesce_units:
  assumes "coalesceResponsesOutputDeltas flushBytes b is = (out, fin)" and "buffer_ok flushBytes b"
  shows "\<exists>rest. map Inl (cb_pending b) @ stream_units (source_events is) = stream_units out @ map Inl rest \<and> left_over fin rest flushBytes"
  using assms
proof (induction "is" arbitrary: b out)
  case Nil
  then show ?case by (auto simp: left_over_def buffer_ok_def)
next
  case (Cons i "is")
  show ?case
  proof (cases i)
    case (SourceFailed x)
    with Cons.prems show ?thesis by (auto simp: left_over_def buffer_ok_def)
  next
    case SourceEnd
    with Cons.prems show ?thesis by (auto simp: left_over_def)
  next
    case FlushReady
    show ?thesis
    proof (cases "cb_flush b")
      case True
      then obtain ys where "coalesceResponsesOutputDeltas flushBytes empty_buffer is = (ys, fin)" "out = pending_event b @ ys"
        using Cons.prems(1) FlushReady by (auto split: prod.splits)
      with Cons.IH FlushReady show ?thesis by fastforce
    next
      case False
      with Cons FlushReady show ?thesis by simp
    qed
  next
    case (SourceEvent e)
    show ?thesis
    proof (cases "\<exists>d. e = TextDelta d")
      case True
      then obtain d where e: "e = TextDelta d" by blast
      obtain b' out' where d: "buffer_delta flushBytes d b = (b', out' :: 'a transport_event list)" by (cases "buffer_delta flushBytes d b :: delta_buffer \<times> 'a transport_event list")
      obtain ys where ys: "coalesceResponsesOutputDeltas flushBytes b' is = (ys, fin)" "out = out' @ ys"
        using Cons.prems(1) SourceEvent e d by (auto split: prod.splits)
      note s = buffer_delta_step [OF Cons.prems(2) d]
      from Cons.IH [OF ys(1) s(1)] obtain rest where r: "left_over fin rest flushBytes"
          "map Inl (cb_pending b') @ stream_units (source_events is) = stream_units ys @ map Inl rest" by blast
      have "map Inl (cb_pending b) @ stream_units (source_events (i # is)) = stream_units out @ map Inl rest"
        using s(2) r(2) by (simp add: SourceEvent e ys(2)) (metis append_assoc)
      with r(1) show ?thesis by blast
    next
      case False
      then have u: "event_units e = [Inr e]" by (simp add: event_units_def split: transport_event.split)
      from False obtain ys where "coalesceResponsesOutputDeltas flushBytes empty_buffer is = (ys, fin)" "out = pending_event b @ [e] @ ys"
        using Cons.prems(1) SourceEvent by (cases e) (auto split: prod.splits)
      with Cons.IH [of empty_buffer ys] u show ?thesis by (auto simp: SourceEvent)
    qed
  qed
qed

text \<open>
  C27: joining deltas loses, adds and reorders nothing.  Whenever the flush timer fires between the reads, what was yielded is
  what the source gave, up to where deltas begin and end; what is still held back is text below the bound, with its timer set;
  and after the end of the source nothing is.
\<close>

theorem coalescing_preserves:
  assumes "coalesceResponsesOutputDeltas flushBytes empty_buffer is = (out, fin)"
  shows "\<exists>rest. stream_units (source_events is) = stream_units out @ map Inl rest
    \<and> (case fin of StillOpen b \<Rightarrow> rest = cb_pending b \<and> (cb_flush b \<longleftrightarrow> rest \<noteq> []) | SourceEnded \<Rightarrow> rest = [] | SourceBroke _ \<Rightarrow> True)
    \<and> (rest = [] \<or> int (utf8_length rest) < flushBytes)"
  using coalesce_units [OF assms] by (auto simp: left_over_def)

lemma coalesce_sizes:
  assumes "coalesceResponsesOutputDeltas flushBytes b is = (out, fin)" and "buffer_ok flushBytes b" and "TextDelta t \<in> set out"
  shows "int (utf8_length t) \<le> flushBytes \<or> TextDelta t \<in> set (source_events is)"
  using assms
proof (induction "is" arbitrary: b out)
  case (Cons i "is")
  have p: "TextDelta t \<in> set (pending_event b) \<Longrightarrow> int (utf8_length t) \<le> flushBytes"
    using Cons.prems(2) by (auto simp: pending_event_def buffer_ok_def split: if_splits)
  show ?case
  proof (cases i)
    case FlushReady
    with Cons p show ?thesis by (fastforce split: if_splits prod.splits)
  next
    case (SourceEvent e)
    show ?thesis
    proof (cases "\<exists>d. e = TextDelta d")
      case True
      then obtain d where e: "e = TextDelta d" by blast
      obtain b' out' where d: "buffer_delta flushBytes d b = (b', out' :: 'a transport_event list)" by (cases "buffer_delta flushBytes d b :: delta_buffer \<times> 'a transport_event list")
      obtain ys where ys: "coalesceResponsesOutputDeltas flushBytes b' is = (ys, fin)" "out = out' @ ys"
        using Cons.prems(1) SourceEvent e d by (auto split: prod.splits)
      note s = buffer_delta_step [OF Cons.prems(2) d]
      from Cons.IH [OF ys(1) s(1)] s(3) Cons.prems(3) show ?thesis by (auto simp: SourceEvent e ys(2))
    next
      case False
      then obtain ys where "coalesceResponsesOutputDeltas flushBytes empty_buffer is = (ys, fin)" "out = pending_event b @ [e] @ ys"
        using Cons.prems(1) SourceEvent by (cases e) (auto split: prod.splits)
      with Cons.IH [of empty_buffer ys] p Cons.prems(3) show ?thesis by (auto simp: SourceEvent)
    qed
  qed (use Cons.prems p in auto)
qed simp

text \<open>A joined delta is within the bound, unless it is a single delta of the source.\<close>

theorem coalescing_bounded:
  assumes "coalesceResponsesOutputDeltas flushBytes empty_buffer is = (out, fin)" and "TextDelta t \<in> set out"
  shows "int (utf8_length t) \<le> flushBytes \<or> TextDelta t \<in> set (source_events is)"
  using coalesce_sizes [OF assms(1) _ assms(2)] by simp

text \<open>Three inputs: a delta, the timer, a delta that fills the bound.\<close>

definition some_inputs :: "unit delta_input list" where
  "some_inputs = [SourceEvent (TextDelta (js ''ab'')), FlushReady, SourceEvent (TextDelta (js ''cd'')),
     SourceEvent (TextDelta (js ''ef'')), SourceEvent (TextDelta (js ''gh'')), SourceEnd]"

lemma some_inputs_joined: "coalesceResponsesOutputDeltas 5 empty_buffer some_inputs =
    ([TextDelta (js ''ab''), TextDelta (js ''cdef''), TextDelta (js ''gh'')], SourceEnded)"
  by (simp add: some_inputs_def buffer_delta_def pending_event_def startFlush_def empty_buffer_def js_def string_eval)

lemma coalescing_preserves_witness:
  "\<exists>rest. stream_units (source_events some_inputs) = stream_units [TextDelta (js ''ab''), TextDelta (js ''cdef''), TextDelta (js ''gh'')] @ map Inl rest
    \<and> rest = []"
  using coalescing_preserves [OF some_inputs_joined] by simp

lemma coalescing_bounded_witness: "int (utf8_length (js ''cdef'')) \<le> 5 \<or> TextDelta (js ''cdef'') \<in> set (source_events some_inputs)"
  by (rule coalescing_bounded [OF some_inputs_joined]) simp

section \<open>A request is replaced at most once\<close>

lemma first_attempt_observed: "first_attempt v True es = (es, False, True)"
  by (induction es) (auto simp: canRecover_def)

lemma first_attempt_kept: "first_attempt v observed es = (ys, r, ob) \<Longrightarrow> \<not> r \<Longrightarrow> ys = es"
  by (induction es arbitrary: observed ys) (auto split: if_splits prod.splits)

lemma first_attempt_rejected: "first_attempt v observed es = (ys, True, ob) \<Longrightarrow> canRecover v False"
  by (induction es arbitrary: observed ys) (auto simp: canRecover_def split: if_splits prod.splits)

lemma first_attempt_limits:
  "first_attempt v observed es = (ys, r, ob) \<Longrightarrow> r \<or> \<not> ob \<Longrightarrow> list_all is_rate_limit ys \<and> (\<exists>k. ys = take k es)"
proof (induction es arbitrary: observed ys)
  case (Cons e es)
  show ?case
  proof (cases "is_rejection e \<and> canRecover v observed")
    case True
    with Cons.prems show ?thesis by (auto intro: exI [of _ 0])
  next
    case False
    with Cons.prems(1) obtain zs where z: "first_attempt v (observed \<or> \<not> is_rate_limit e) es = (zs, r, ob)" "ys = e # zs"
      by (auto split: prod.splits)
    with Cons.prems(2) have "is_rate_limit e" by (cases "is_rate_limit e") (auto simp: first_attempt_observed)
    with Cons.IH [OF z(1) Cons.prems(2)] z(2) show ?thesis by (auto intro: exI [of _ "Suc _"])
  qed
qed auto

text \<open>
  Nothing is said twice.  The reader gets the stream of the request as it is, or, in place of a rejected one that
  has given nothing but rate limits, these, one fallback event and the replacement, or the cancellation.
\<close>

theorem recovery_replaces_once:
  "recoverResponsesContinuation transport v original replacement = original
    \<or> (\<exists>limits. list_all is_rate_limit limits \<and> (\<exists>k. limits = take k (fst original)) \<and> canRecover v False
      \<and> recoverResponsesContinuation transport v original replacement =
        (limits @ [TransportFallback transport transport previous_response_rejected False True] @ (if rv_abortedLater v then [] else fst replacement),
         if rv_abortedLater v then Some (ModelTransportError ''segment_canceled'') else snd replacement))"
proof -
  obtain ys r ob where f: "first_attempt v False (fst original) = (ys, r, ob)" by (cases "first_attempt v False (fst original)")
  let ?caught = "snd original = Some (ModelTransportError ''responses_previous_response_not_found'') \<and> canRecover v ob"
  show ?thesis
  proof (cases "\<not> r \<and> \<not> ?caught")
    case True
    with first_attempt_kept [OF f] show ?thesis by (simp add: recoverResponsesContinuation_def f prod_eq_iff)
  next
    case False
    then have "r \<or> \<not> ob" and "canRecover v False"
      using first_attempt_rejected [of v False "fst original" ys ob] f by (auto simp: canRecover_def)
    with False first_attempt_limits [OF f] show ?thesis
      by (intro disjI2 exI [of _ ys]) (auto simp: recoverResponsesContinuation_def f)
  qed
qed

end
