(* ===== verification/Workflow_Execution.thy ===== *)
theory Workflow_Execution
  imports Workflow_Version Goal_Events
begin

text \<open>
  The execution of a workflow: its state with the validators of the store, \<open>workflow-execution-state.ts\<close>, and the planning of
  the nodes that can be claimed, \<open>workflow-execution-planning.ts\<close>.  A state that comes from outside is a dynamic value; a state
  of the declared type is a record, and \<open>execution_value\<close> is the object it stands for.  Field prefixes \<open>en\<close> for a
  node, \<open>ex\<close> for an execution, \<open>nc\<close> for a claim, \<open>pi\<close> for the input of planning.
\<close>

section \<open>States\<close>

datatype execution_node_kind = ExecAgent | ExecHumanGate | ExecVerification

datatype node_status = NodePending | NodeRunning | NodeWaitingHuman | NodeCompleted | NodeFailed | NodeCanceled | NodeUnknown

datatype execution_status = ExecRunning | ExecWaitingHuman | ExecCompleted | ExecFailed | ExecCanceled

record execution_node =
  en_nodeId :: js_string
  en_kind :: execution_node_kind
  en_agentVersionId :: "js_string option"
  en_status :: node_status
  en_claimId :: "js_string option"
  en_claimOperationId :: "js_string option"
  en_claimEpoch :: int
  en_leaseExpiresAt :: "js_string option"
  en_gateRequestId :: "js_string option"
  en_inputDigest :: "js_string option"
  en_resultDigest :: "js_string option"
  en_failureCode :: "js_string option"

record execution_state =
  ex_tenantId :: js_string
  ex_runId :: js_string
  ex_workflowId :: js_string
  ex_workflowVersionId :: js_string
  ex_contentDigest :: js_string
  ex_revision :: int
  ex_status :: execution_status
  ex_cancelRequested :: bool
  ex_nodes :: "execution_node list"
  ex_updatedAt :: js_string

fun node_kind_text :: "execution_node_kind \<Rightarrow> string" where
  "node_kind_text ExecAgent = ''agent''"
| "node_kind_text ExecHumanGate = ''humanGate''"
| "node_kind_text ExecVerification = ''verification''"

fun node_status_text :: "node_status \<Rightarrow> string" where
  "node_status_text NodePending = ''pending''"
| "node_status_text NodeRunning = ''running''"
| "node_status_text NodeWaitingHuman = ''waitingHuman''"
| "node_status_text NodeCompleted = ''completed''"
| "node_status_text NodeFailed = ''failed''"
| "node_status_text NodeCanceled = ''canceled''"
| "node_status_text NodeUnknown = ''unknown''"

fun execution_status_text :: "execution_status \<Rightarrow> string" where
  "execution_status_text ExecRunning = ''running''"
| "execution_status_text ExecWaitingHuman = ''waitingHuman''"
| "execution_status_text ExecCompleted = ''completed''"
| "execution_status_text ExecFailed = ''failed''"
| "execution_status_text ExecCanceled = ''canceled''"

text \<open>The object of a typed state.\<close>

definition null_or_text :: "js_string option \<Rightarrow> json" where
  "null_or_text x = (case x of None \<Rightarrow> JNull | Some s \<Rightarrow> JStr s)"

definition execution_node_value :: "execution_node \<Rightarrow> json" where
  "execution_node_value n = js_object [(''nodeId'', JStr (en_nodeId n)), (''kind'', JStr (js (node_kind_text (en_kind n)))),
     (''agentVersionId'', null_or_text (en_agentVersionId n)), (''status'', JStr (js (node_status_text (en_status n)))),
     (''claimId'', null_or_text (en_claimId n)), (''claimOperationId'', null_or_text (en_claimOperationId n)),
     (''claimEpoch'', JNum (Whole (en_claimEpoch n))), (''leaseExpiresAt'', null_or_text (en_leaseExpiresAt n)),
     (''gateRequestId'', null_or_text (en_gateRequestId n)), (''inputDigest'', null_or_text (en_inputDigest n)),
     (''resultDigest'', null_or_text (en_resultDigest n)), (''failureCode'', null_or_text (en_failureCode n))]"

definition execution_value :: "execution_state \<Rightarrow> json" where
  "execution_value s = js_object [(''schemaVersion'', JStr (js ''crewon.workflow-execution.v0'')), (''tenantId'', JStr (ex_tenantId s)),
     (''runId'', JStr (ex_runId s)), (''workflowId'', JStr (ex_workflowId s)), (''workflowVersionId'', JStr (ex_workflowVersionId s)),
     (''contentDigest'', JStr (ex_contentDigest s)), (''revision'', JNum (Whole (ex_revision s))),
     (''status'', JStr (js (execution_status_text (ex_status s)))), (''cancelRequested'', JBool (ex_cancelRequested s)),
     (''nodes'', JArr (map execution_node_value (ex_nodes s))), (''updatedAt'', JStr (ex_updatedAt s))]"

section \<open>Validation\<close>

definition rs_throw_if :: "bool \<Rightarrow> string \<Rightarrow> check" where
  "rs_throw_if b code = throw_if b (RunStoreError code)"

lemma rs_throw_if_None [simp]: "rs_throw_if b code = None \<longleftrightarrow> \<not> b"
  by (simp add: rs_throw_if_def)

definition boundedId :: "js_string \<Rightarrow> bool" where
  "boundedId s \<longleftrightarrow> utf8_length s \<le> 512 \<and> (case s of [] \<Rightarrow> False | u # t \<Rightarrow> is_alnum u \<and> list_all is_id_tail t)"

definition canonicalUtc :: "(js_string \<Rightarrow> int option) \<Rightarrow> js_string \<Rightarrow> bool" where
  "canonicalUtc legacy s \<longleftrightarrow> (case date_parse legacy s of None \<Rightarrow> False | Some ms \<Rightarrow> to_iso_string ms = s)"

text \<open>The tests on a property; a regular expression converts what it tests to a string.\<close>

definition text_that :: "(js_string \<Rightarrow> bool) \<Rightarrow> json option \<Rightarrow> bool" where
  "text_that p v = (case v of Some (JStr s) \<Rightarrow> p s | _ \<Rightarrow> False)"

definition null_or :: "(json option \<Rightarrow> bool) \<Rightarrow> json option \<Rightarrow> bool" where
  "null_or p v \<longleftrightarrow> v = Some JNull \<or> p v"

definition integer_at_least :: "int \<Rightarrow> json option \<Rightarrow> bool" where
  "integer_at_least least v = (case safe_integer_value v of None \<Rightarrow> False | Some n \<Rightarrow> least \<le> n)"

definition digest_test :: "json option \<Rightarrow> string \<Rightarrow> check" where
  "digest_test v code = (case v of None \<Rightarrow> Some (RunStoreError code) | Some w \<Rightarrow>
     (case to_text w of None \<Rightarrow> Some (PlainError ''TypeError'') | Some s \<Rightarrow> rs_throw_if (\<not> matches_digest s) code))"

definition one_of :: "string list \<Rightarrow> json option \<Rightarrow> bool" where
  "one_of ts v \<longleftrightarrow> v \<in> set (map (\<lambda>t. Some (JStr (js t))) ts)"

definition execution_node_keys :: "string list" where
  "execution_node_keys = [''agentVersionId'', ''claimEpoch'', ''claimId'', ''claimOperationId'', ''failureCode'', ''gateRequestId'',
     ''inputDigest'', ''kind'', ''leaseExpiresAt'', ''nodeId'', ''resultDigest'', ''status'']"

definition state_keys :: "string list" where
  "state_keys = [''cancelRequested'', ''nodes'', ''revision'', ''runId'', ''schemaVersion'', ''status'', ''tenantId'', ''updatedAt'',
     ''workflowId'', ''contentDigest'', ''workflowVersionId'']"

definition node_shape_bad :: "json \<Rightarrow> bool" where
  "node_shape_bad v \<longleftrightarrow> (let is_status = (\<lambda>st. get_prop v ''status'' = Some (JStr (js (node_status_text st))));
       null = (\<lambda>k. get_prop v k = Some JNull); epoch = safe_integer_value (get_prop v ''claimEpoch'');
       unclaimed = is_status NodePending;
       active = (is_status NodeRunning \<or> is_status NodeWaitingHuman \<or> is_status NodeUnknown) in
     unclaimed \<and> (\<not> null ''claimId'' \<or> \<not> null ''claimOperationId'' \<or> epoch \<noteq> Some 0 \<or> \<not> null ''inputDigest'')
     \<or> active \<and> (null ''claimId'' \<or> null ''claimOperationId'' \<or> (case epoch of None \<Rightarrow> True | Some n \<Rightarrow> n < 1) \<or> null ''inputDigest'')
     \<or> is_status NodeRunning \<noteq> (\<not> null ''leaseExpiresAt'')
     \<or> is_status NodeWaitingHuman \<and> null ''gateRequestId''
     \<or> get_prop v ''kind'' \<noteq> Some (JStr (js ''humanGate'')) \<and> \<not> null ''gateRequestId''
     \<or> is_status NodeCompleted \<noteq> (\<not> null ''resultDigest'')
     \<or> is_status NodeFailed \<noteq> (\<not> null ''failureCode'')
     \<or> (is_status NodeCanceled \<or> is_status NodeUnknown) \<and> (\<not> null ''resultDigest'' \<or> \<not> null ''failureCode''))"

definition validateExecutionNode :: "(js_string \<Rightarrow> int option) \<Rightarrow> json \<Rightarrow> check" where
  "validateExecutionNode legacy v = (let code = ''workflow_execution_state_invalid''; p = get_prop v; id = text_that boundedId;
       digest_or_null = (\<lambda>w. if w = Some JNull then None else digest_test w code) in
     first_throw [rs_throw_if (\<not> is_plain_object v) code, rs_throw_if (\<not> has_exact_keys v execution_node_keys) code,
       rs_throw_if (\<not> id (p ''nodeId'')) code,
       rs_throw_if (\<not> one_of [''agent'', ''humanGate'', ''verification''] (p ''kind'')) code,
       rs_throw_if (\<not> null_or id (p ''agentVersionId'')) code,
       rs_throw_if ((p ''kind'' = Some (JStr (js ''humanGate''))) \<noteq> (p ''agentVersionId'' = Some JNull)) code,
       rs_throw_if (\<not> one_of [''pending'', ''running'', ''waitingHuman'', ''completed'', ''failed'', ''canceled'', ''unknown''] (p ''status'')) code,
       rs_throw_if (\<not> integer_at_least 0 (p ''claimEpoch'')) code,
       rs_throw_if (\<not> null_or id (p ''claimId'')) code, rs_throw_if (\<not> null_or id (p ''claimOperationId'')) code,
       rs_throw_if (\<not> null_or id (p ''gateRequestId'')) code, digest_or_null (p ''inputDigest''),
       rs_throw_if (\<not> null_or (text_that (canonicalUtc legacy)) (p ''leaseExpiresAt'')) code, digest_or_null (p ''resultDigest''),
       rs_throw_if (\<not> null_or id (p ''failureCode'')) code, rs_throw_if (node_shape_bad v) code])"

text \<open>The status of an execution that follows from its nodes; \<open>has\<close> tells whether a node has a status.\<close>

definition projected_status :: "bool \<Rightarrow> (node_status \<Rightarrow> 'n \<Rightarrow> bool) \<Rightarrow> 'n list \<Rightarrow> execution_status" where
  "projected_status cancelRequested has nodes = (let active = list_ex (\<lambda>n. has NodeRunning n \<or> has NodeUnknown n) nodes in
     if cancelRequested \<and> \<not> active then ExecCanceled
     else if list_ex (has NodeFailed) nodes then ExecFailed
     else if list_all (has NodeCompleted) nodes then ExecCompleted
     else if list_ex (has NodeWaitingHuman) nodes \<and> \<not> active then ExecWaitingHuman
     else ExecRunning)"

definition value_has_status :: "node_status \<Rightarrow> json \<Rightarrow> bool" where
  "value_has_status st v \<longleftrightarrow> get_prop v ''status'' = Some (JStr (js (node_status_text st)))"

text \<open>\<open>state.nodes\<close>, if it is an array; reading a property of \<open>null\<close> is a \<open>TypeError\<close>.\<close>

definition nodes_of :: "json \<Rightarrow> json list" where
  "nodes_of v = (case get_prop v ''nodes'' of Some (JArr ns) \<Rightarrow> ns | _ \<Rightarrow> [])"

definition validateExecutionState :: "(js_string \<Rightarrow> int option) \<Rightarrow> json \<Rightarrow> check" where
  "validateExecutionState legacy v = (let code = ''workflow_execution_state_invalid''; p = get_prop v; id = text_that boundedId; nodes = nodes_of v in
     first_throw ([rs_throw_if (\<not> is_plain_object v) code, rs_throw_if (\<not> has_exact_keys v state_keys) code,
       rs_throw_if (p ''schemaVersion'' \<noteq> Some (JStr (js ''crewon.workflow-execution.v0''))) code,
       rs_throw_if (\<not> id (p ''tenantId'')) code, rs_throw_if (\<not> id (p ''runId'')) code, rs_throw_if (\<not> id (p ''workflowId'')) code,
       rs_throw_if (\<not> id (p ''workflowVersionId'')) code, digest_test (p ''contentDigest'') code,
       rs_throw_if (\<not> integer_at_least 1 (p ''revision'')) code,
       rs_throw_if (\<not> one_of [''running'', ''waitingHuman'', ''completed'', ''failed'', ''canceled''] (p ''status'')) code,
       rs_throw_if (\<not> is_boolean (p ''cancelRequested'')) code,
       rs_throw_if (\<not> text_that (canonicalUtc legacy) (p ''updatedAt'')) code,
       rs_throw_if (case p ''nodes'' of Some (JArr _) \<Rightarrow> False | _ \<Rightarrow> True) code,
       rs_throw_if (length nodes < 1 \<or> 64 < length nodes) code,
       throw_if (JNull \<in> set nodes) (PlainError ''TypeError''),
       rs_throw_if (\<not> distinct (map (\<lambda>n. get_prop n ''nodeId'') nodes)) code]
     @ map (validateExecutionNode legacy) nodes
     @ [rs_throw_if (p ''status'' \<noteq> Some (JStr (js (execution_status_text
         (projected_status (p ''cancelRequested'' = Some (JBool True)) value_has_status nodes))))) code]))"

text \<open>\<open>decodeState\<close> of what a table holds: a text is parsed first.\<close>

definition decodeState :: "(js_string \<Rightarrow> int option) \<Rightarrow> json \<Rightarrow> json res" where
  "decodeState legacy input = then_do (case input of
       JStr t \<Rightarrow> (case json_parse t of None \<Rightarrow> Inl (RunStoreError ''workflow_execution_store_corrupt'') | Some v \<Rightarrow> Inr v)
     | _ \<Rightarrow> Inr input)
   (\<lambda>v. guarded [validateExecutionState legacy v] (Inr v))"

section \<open>Transitions\<close>

text \<open>
  The texts that \<open>stableJson\<close> compares are of nodes of one origin, the later being an updated copy of the earlier, so they
  are equal exactly if the nodes are.
\<close>

definition validNodeTransition :: "execution_node \<Rightarrow> execution_node \<Rightarrow> bool" where
  "validNodeTransition current new = (if current = new then True
     else case en_status current of
       NodePending \<Rightarrow> en_status new \<in> {NodeRunning, NodeWaitingHuman, NodeCanceled}
     | NodeRunning \<Rightarrow> en_status new \<in> {NodeCompleted, NodeFailed, NodeCanceled, NodeUnknown}
     | NodeWaitingHuman \<Rightarrow> en_status new \<in> {NodeCompleted, NodeFailed, NodeCanceled, NodeUnknown}
     | NodeUnknown \<Rightarrow> en_status new \<in> {NodeCompleted, NodeFailed, NodeCanceled, NodeUnknown}
     | _ \<Rightarrow> False)"

definition same_node_identity :: "execution_node \<Rightarrow> execution_node \<Rightarrow> bool" where
  "same_node_identity a b \<longleftrightarrow> en_nodeId a = en_nodeId b \<and> en_kind a = en_kind b \<and> en_agentVersionId a = en_agentVersionId b"

definition same_execution :: "execution_state \<Rightarrow> execution_state \<Rightarrow> bool" where
  "same_execution a b \<longleftrightarrow> ex_tenantId a = ex_tenantId b \<and> ex_runId a = ex_runId b \<and> ex_workflowId a = ex_workflowId b
     \<and> ex_workflowVersionId a = ex_workflowVersionId b \<and> ex_contentDigest a = ex_contentDigest b
     \<and> list_all2 same_node_identity (ex_nodes a) (ex_nodes b)"

definition assertTransition :: "(js_string \<Rightarrow> int option) \<Rightarrow> execution_state \<Rightarrow> execution_state \<Rightarrow> check" where
  "assertTransition legacy current new = first_throw
     [rs_throw_if (\<not> same_execution current new
        \<or> date_less (date_parse legacy (ex_updatedAt new)) (date_parse legacy (ex_updatedAt current))
        \<or> ex_cancelRequested current \<and> \<not> ex_cancelRequested new) ''workflow_execution_authority_mismatch'',
      rs_throw_if (\<not> list_all2 validNodeTransition (ex_nodes current) (ex_nodes new)) ''workflow_execution_transition_invalid'']"

definition assertCreateReplay :: "execution_state \<Rightarrow> execution_state \<Rightarrow> check" where
  "assertCreateReplay current requested = rs_throw_if (\<not> same_execution current requested) ''workflow_execution_create_conflict''"

section \<open>Planning\<close>

text \<open>\<open>nodes.find(\<dots>)!\<close>: the lists are searched only for identifiers of the compiled workflow.\<close>

definition workflow_node_at :: "compiled_workflow \<Rightarrow> js_string \<Rightarrow> wf_node" where
  "workflow_node_at w i = the (find (\<lambda>n. wd_nodeId n = i) (sw_nodes (cw_source w)))"

definition find_node :: "js_string \<Rightarrow> execution_node list \<Rightarrow> execution_node option" where
  "find_node i = find (\<lambda>n. en_nodeId n = i)"

definition kind_of_node :: "node_kind \<Rightarrow> execution_node_kind" where
  "kind_of_node k = (case k of AgentKind _ \<Rightarrow> ExecAgent | HumanGateKind _ \<Rightarrow> ExecHumanGate | VerificationKind _ \<Rightarrow> ExecVerification)"

definition agent_of_node :: "node_kind \<Rightarrow> js_string option" where
  "agent_of_node k = (case k of AgentKind a \<Rightarrow> Some a | HumanGateKind _ \<Rightarrow> None | VerificationKind a \<Rightarrow> Some a)"

definition initial_node :: "compiled_workflow \<Rightarrow> js_string \<Rightarrow> execution_node" where
  "initial_node w i = (let node = workflow_node_at w i in
     \<lparr>en_nodeId = i, en_kind = kind_of_node (wd_kind node), en_agentVersionId = agent_of_node (wd_kind node), en_status = NodePending,
      en_claimId = None, en_claimOperationId = None, en_claimEpoch = 0, en_leaseExpiresAt = None, en_gateRequestId = None,
      en_inputDigest = None, en_resultDigest = None, en_failureCode = None\<rparr>)"

definition initialWorkflowExecution :: "js_string \<Rightarrow> js_string \<Rightarrow> compiled_workflow \<Rightarrow> js_string \<Rightarrow> execution_state" where
  "initialWorkflowExecution tenantId runId w now = \<lparr>ex_tenantId = tenantId, ex_runId = runId, ex_workflowId = sw_workflowId (cw_source w),
     ex_workflowVersionId = sw_workflowVersionId (cw_source w), ex_contentDigest = cw_contentDigest w, ex_revision = 1,
     ex_status = ExecRunning, ex_cancelRequested = False, ex_nodes = map (initial_node w) (cw_executionOrder w), ex_updatedAt = now\<rparr>"

definition has_status :: "node_status \<Rightarrow> execution_node \<Rightarrow> bool" where
  "has_status st n \<longleftrightarrow> en_status n = st"

definition projectWorkflowExecution :: "execution_state \<Rightarrow> execution_node list \<Rightarrow> js_string \<Rightarrow> execution_state" where
  "projectWorkflowExecution current nodes updatedAt = current\<lparr>ex_revision := ex_revision current + 1,
     ex_status := projected_status (ex_cancelRequested current) has_status nodes, ex_nodes := nodes, ex_updatedAt := updatedAt\<rparr>"

record node_claim =
  nc_node :: wf_node
  nc_claimId :: js_string
  nc_claimEpoch :: int
  nc_gateRequestId :: "js_string option"
  nc_inputDigest :: js_string

text \<open>\<open>pi_nextId k\<close> is what the call number \<open>k\<close> of \<open>nextId\<close> returns.\<close>

record plan_input =
  pi_now :: js_string
  pi_expiresAt :: js_string
  pi_operationId :: js_string
  pi_maximumClaims :: nat
  pi_lostClaimIds :: "js_string set"
  pi_delegatedClaimIds :: "js_string set"
  pi_nextId :: "nat \<Rightarrow> js_string"
  pi_inputDigest :: "wf_node \<Rightarrow> execution_node list \<Rightarrow> js_string"

definition recover_node :: "(js_string \<Rightarrow> int option) \<Rightarrow> plan_input \<Rightarrow> execution_node \<Rightarrow> execution_node" where
  "recover_node legacy p n = (if en_status n = NodeRunning
       \<and> (\<forall>c\<in>set_option (en_claimId n). c \<notin> pi_delegatedClaimIds p)
       \<and> ((\<exists>c\<in>set_option (en_claimId n). c \<in> pi_lostClaimIds p)
          \<or> date_le (Option.bind (en_leaseExpiresAt n) (date_parse legacy)) (date_parse legacy (pi_now p)))
     then n\<lparr>en_status := NodeUnknown, en_leaseExpiresAt := None\<rparr> else n)"

definition is_ready :: "compiled_workflow \<Rightarrow> execution_node list \<Rightarrow> js_string \<Rightarrow> bool" where
  "is_ready w nodes i \<longleftrightarrow> (case find_node i nodes of None \<Rightarrow> False | Some n \<Rightarrow> en_status n = NodePending)
     \<and> list_all (\<lambda>d. case find_node d nodes of None \<Rightarrow> False | Some n \<Rightarrow> en_status n = NodeCompleted) (wd_dependsOn (workflow_node_at w i))"

definition ready_nodes :: "compiled_workflow \<Rightarrow> execution_node list \<Rightarrow> js_string list" where
  "ready_nodes w nodes = filter (is_ready w nodes) (cw_executionOrder w)"

definition claimed_node :: "plan_input \<Rightarrow> node_claim \<Rightarrow> execution_node \<Rightarrow> execution_node" where
  "claimed_node p c n = (let gate = (kind_of_node (wd_kind (nc_node c)) = ExecHumanGate) in
     n\<lparr>en_status := (if gate then NodeWaitingHuman else NodeRunning), en_claimId := Some (nc_claimId c),
       en_claimOperationId := Some (pi_operationId p), en_claimEpoch := nc_claimEpoch c, en_gateRequestId := nc_gateRequestId c,
       en_inputDigest := Some (nc_inputDigest c), en_leaseExpiresAt := (if gate then None else Some (pi_expiresAt p))\<rparr>)"

text \<open>The last loop over the nodes; \<open>k\<close> counts the identifiers taken so far.\<close>

fun claim_nodes :: "plan_input \<Rightarrow> compiled_workflow \<Rightarrow> execution_node list \<Rightarrow> js_string list \<Rightarrow> nat \<Rightarrow> execution_node list
    \<Rightarrow> execution_node list \<times> node_claim list" where
  "claim_nodes p w recovered ready k [] = ([], [])"
| "claim_nodes p w recovered ready k (n # ns) = (if en_nodeId n \<notin> set ready
     then (let (ms, cs) = claim_nodes p w recovered ready k ns in (n # ms, cs))
     else (let node = workflow_node_at w (en_nodeId n);
         gate = (kind_of_node (wd_kind node) = ExecHumanGate);
         c = \<lparr>nc_node = node, nc_claimId = pi_nextId p k, nc_claimEpoch = en_claimEpoch n + 1,
           nc_gateRequestId = (if gate then Some (pi_nextId p (k + 1)) else None), nc_inputDigest = pi_inputDigest p node recovered\<rparr>;
         (ms, cs) = claim_nodes p w recovered ready (if gate then k + 2 else k + 1) ns in
       (claimed_node p c n # ms, c # cs)))"

definition planWorkflowNodeClaims :: "(js_string \<Rightarrow> int option) \<Rightarrow> plan_input \<Rightarrow> compiled_workflow \<Rightarrow> execution_state \<Rightarrow> execution_state \<times> node_claim list" where
  "planWorkflowNodeClaims legacy p w current =
     (if ex_cancelRequested current \<or> (ex_status current \<noteq> ExecRunning \<and> ex_status current \<noteq> ExecWaitingHuman) then (current, [])
      else let recovered = map (recover_node legacy p) (ex_nodes current);
        ready = take (pi_maximumClaims p) (ready_nodes w recovered) in
      if ready = [] \<and> recovered = ex_nodes current then (current, [])
      else let (nodes, claims) = claim_nodes p w recovered ready 0 recovered in
        (projectWorkflowExecution current nodes (pi_now p), claims))"

section \<open>Valid states of the declared type\<close>

definition opt_all :: "('a \<Rightarrow> bool) \<Rightarrow> 'a option \<Rightarrow> bool" where
  "opt_all p x \<longleftrightarrow> (case x of None \<Rightarrow> True | Some v \<Rightarrow> p v)"

lemma opt_all_simps [simp]: "opt_all p None" "opt_all p (Some v) = p v"
  by (simp_all add: opt_all_def)

definition node_shape_ok :: "execution_node \<Rightarrow> bool" where
  "node_shape_ok n \<longleftrightarrow>
     (en_status n = NodePending \<longrightarrow> en_claimId n = None \<and> en_claimOperationId n = None \<and> en_claimEpoch n = 0 \<and> en_inputDigest n = None)
     \<and> (en_status n \<in> {NodeRunning, NodeWaitingHuman, NodeUnknown} \<longrightarrow>
          en_claimId n \<noteq> None \<and> en_claimOperationId n \<noteq> None \<and> 1 \<le> en_claimEpoch n \<and> en_inputDigest n \<noteq> None)
     \<and> (en_status n = NodeRunning \<longleftrightarrow> en_leaseExpiresAt n \<noteq> None)
     \<and> (en_status n = NodeWaitingHuman \<longrightarrow> en_gateRequestId n \<noteq> None)
     \<and> (en_kind n \<noteq> ExecHumanGate \<longrightarrow> en_gateRequestId n = None)
     \<and> (en_status n = NodeCompleted \<longleftrightarrow> en_resultDigest n \<noteq> None)
     \<and> (en_status n = NodeFailed \<longleftrightarrow> en_failureCode n \<noteq> None)"

definition execution_node_ok :: "(js_string \<Rightarrow> int option) \<Rightarrow> execution_node \<Rightarrow> bool" where
  "execution_node_ok legacy n \<longleftrightarrow> boundedId (en_nodeId n) \<and> opt_all boundedId (en_agentVersionId n)
     \<and> (en_kind n = ExecHumanGate \<longleftrightarrow> en_agentVersionId n = None) \<and> 0 \<le> en_claimEpoch n \<and> en_claimEpoch n \<le> max_safe_integer
     \<and> opt_all boundedId (en_claimId n) \<and> opt_all boundedId (en_claimOperationId n) \<and> opt_all boundedId (en_gateRequestId n)
     \<and> opt_all matches_digest (en_inputDigest n) \<and> opt_all (canonicalUtc legacy) (en_leaseExpiresAt n)
     \<and> opt_all matches_digest (en_resultDigest n) \<and> opt_all boundedId (en_failureCode n)"

definition execution_ok :: "(js_string \<Rightarrow> int option) \<Rightarrow> execution_state \<Rightarrow> bool" where
  "execution_ok legacy s \<longleftrightarrow> boundedId (ex_tenantId s) \<and> boundedId (ex_runId s) \<and> boundedId (ex_workflowId s)
     \<and> boundedId (ex_workflowVersionId s) \<and> matches_digest (ex_contentDigest s) \<and> 1 \<le> ex_revision s \<and> ex_revision s \<le> max_safe_integer
     \<and> canonicalUtc legacy (ex_updatedAt s) \<and> ex_nodes s \<noteq> [] \<and> length (ex_nodes s) \<le> 64 \<and> distinct (map en_nodeId (ex_nodes s))
     \<and> (\<forall>n\<in>set (ex_nodes s). execution_node_ok legacy n \<and> node_shape_ok n)
     \<and> ex_status s = projected_status (ex_cancelRequested s) has_status (ex_nodes s)"

lemma node_status_text_inj [simp]: "node_status_text a = node_status_text b \<longleftrightarrow> a = b"
  by (cases a; cases b; simp)

lemma execution_status_text_inj [simp]: "execution_status_text x = execution_status_text y \<longleftrightarrow> x = y"
  by (cases x; cases y; simp)

lemma human_gate_text [simp]: "node_kind_text k = ''humanGate'' \<longleftrightarrow> k = ExecHumanGate"
  by (cases k; simp)

lemma known_node_status [simp]:
  "one_of [''pending'', ''running'', ''waitingHuman'', ''completed'', ''failed'', ''canceled'', ''unknown''] (Some (JStr (js (node_status_text st))))"
  by (cases st; simp add: one_of_def)

lemma known_status [simp]:
  "one_of [''running'', ''waitingHuman'', ''completed'', ''failed'', ''canceled''] (Some (JStr (js (execution_status_text es))))"
  by (cases es; simp add: one_of_def)

lemma known_kind [simp]: "one_of [''agent'', ''humanGate'', ''verification''] (Some (JStr (js (node_kind_text k))))"
  by (cases k; simp add: one_of_def)

lemma null_or_text_simps [simp]: "null_or_text x = JNull \<longleftrightarrow> x = None"
  "null_or (text_that p) (Some (null_or_text x)) \<longleftrightarrow> opt_all p x"
  "digest_test (Some (null_or_text (Some d))) code = None \<longleftrightarrow> matches_digest d"
  by (auto simp: null_or_text_def null_or_def text_that_def digest_test_def split: option.splits)

lemma digest_text [simp]: "digest_test (Some (JStr d)) code = None \<longleftrightarrow> matches_digest d"
  by (simp add: digest_test_def)

lemma node_value_props:
  "get_prop (execution_node_value n) ''nodeId'' = Some (JStr (en_nodeId n))"
  "get_prop (execution_node_value n) ''kind'' = Some (JStr (js (node_kind_text (en_kind n))))"
  "get_prop (execution_node_value n) ''agentVersionId'' = Some (null_or_text (en_agentVersionId n))"
  "get_prop (execution_node_value n) ''status'' = Some (JStr (js (node_status_text (en_status n))))"
  "get_prop (execution_node_value n) ''claimId'' = Some (null_or_text (en_claimId n))"
  "get_prop (execution_node_value n) ''claimOperationId'' = Some (null_or_text (en_claimOperationId n))"
  "get_prop (execution_node_value n) ''claimEpoch'' = Some (JNum (Whole (en_claimEpoch n)))"
  "get_prop (execution_node_value n) ''leaseExpiresAt'' = Some (null_or_text (en_leaseExpiresAt n))"
  "get_prop (execution_node_value n) ''gateRequestId'' = Some (null_or_text (en_gateRequestId n))"
  "get_prop (execution_node_value n) ''inputDigest'' = Some (null_or_text (en_inputDigest n))"
  "get_prop (execution_node_value n) ''resultDigest'' = Some (null_or_text (en_resultDigest n))"
  "get_prop (execution_node_value n) ''failureCode'' = Some (null_or_text (en_failureCode n))"
  by (simp_all add: execution_node_value_def)

lemma node_value_keys: "has_exact_keys (execution_node_value n) execution_node_keys"
  unfolding execution_node_value_def execution_node_keys_def by (rule keys_js_object) auto

lemma node_value_object: "is_plain_object (execution_node_value n)" "execution_node_value n \<noteq> JNull"
  by (simp_all add: execution_node_value_def js_object_def)

lemma node_value_status [simp]: "value_has_status st (execution_node_value n) = has_status st n"
  by (auto simp: value_has_status_def has_status_def node_value_props)

lemma node_shape_value: "\<not> node_shape_bad (execution_node_value n) \<longleftrightarrow> node_shape_ok n" if "0 \<le> en_claimEpoch n" "en_claimEpoch n \<le> max_safe_integer"
proof -
  have e: "safe_integer_value (Some (JNum (Whole (en_claimEpoch n)))) = Some (en_claimEpoch n)"
    using that by (simp add: safe_integer_value_def is_safe_integer_def max_safe_integer_def)
  show ?thesis
    unfolding node_shape_bad_def node_shape_ok_def Let_def node_value_props option.inject json.inject js_eq_iff node_status_text_inj human_gate_text null_or_text_simps e
    by (cases "en_status n") (auto simp: not_less)
qed

lemma node_value_ok: "validateExecutionNode legacy (execution_node_value n) = None \<longleftrightarrow> execution_node_ok legacy n \<and> node_shape_ok n"
proof -
  have d: "(if Some (null_or_text x) = Some JNull then None else digest_test (Some (null_or_text x)) code) = None \<longleftrightarrow> opt_all matches_digest x"
    for x code by (cases x) auto
  have e: "integer_at_least 0 (Some (JNum (Whole k))) \<longleftrightarrow> 0 \<le> k \<and> k \<le> max_safe_integer" for k
    by (auto simp: integer_at_least_def safe_integer_value_def is_safe_integer_def max_safe_integer_def)
  show ?thesis
    unfolding validateExecutionNode_def Let_def first_throw_None rs_throw_if_None node_value_props d e null_or_text_simps
    using node_shape_value [of n] by (auto simp: execution_node_ok_def node_value_keys node_value_object text_that_def)
qed

lemma node_value_inj: "en_nodeId n = en_nodeId m \<Longrightarrow> get_prop (execution_node_value n) ''nodeId'' = get_prop (execution_node_value m) ''nodeId''"
  by (simp add: node_value_props)

lemma projected_value: "projected_status c value_has_status (map execution_node_value ns) = projected_status c has_status ns"
  by (simp add: projected_status_def Let_def list_ex_iff list_all_iff)

lemma state_value_props:
  "get_prop (execution_value s) ''schemaVersion'' = Some (JStr (js ''crewon.workflow-execution.v0''))"
  "get_prop (execution_value s) ''tenantId'' = Some (JStr (ex_tenantId s))"
  "get_prop (execution_value s) ''runId'' = Some (JStr (ex_runId s))"
  "get_prop (execution_value s) ''workflowId'' = Some (JStr (ex_workflowId s))"
  "get_prop (execution_value s) ''workflowVersionId'' = Some (JStr (ex_workflowVersionId s))"
  "get_prop (execution_value s) ''contentDigest'' = Some (JStr (ex_contentDigest s))"
  "get_prop (execution_value s) ''revision'' = Some (JNum (Whole (ex_revision s)))"
  "get_prop (execution_value s) ''status'' = Some (JStr (js (execution_status_text (ex_status s))))"
  "get_prop (execution_value s) ''cancelRequested'' = Some (JBool (ex_cancelRequested s))"
  "get_prop (execution_value s) ''nodes'' = Some (JArr (map execution_node_value (ex_nodes s)))"
  "get_prop (execution_value s) ''updatedAt'' = Some (JStr (ex_updatedAt s))"
  by (simp_all add: execution_value_def)

lemma state_value_keys: "has_exact_keys (execution_value s) state_keys"
  unfolding execution_value_def state_keys_def by (rule keys_js_object) auto

lemma state_value_object: "is_plain_object (execution_value s)"
  by (simp add: execution_value_def js_object_def)

lemma state_value_ok: "validateExecutionState legacy (execution_value s) = None \<longleftrightarrow> execution_ok legacy s"
proof -
  have n: "nodes_of (execution_value s) = map execution_node_value (ex_nodes s)" by (simp add: nodes_of_def state_value_props)
  have d: "distinct (map (\<lambda>n. get_prop n ''nodeId'') (map execution_node_value (ex_nodes s))) \<longleftrightarrow> distinct (map en_nodeId (ex_nodes s))"
    by (auto simp: distinct_map inj_on_def comp_def node_value_props)
  have e: "integer_at_least 1 (Some (JNum (Whole k))) \<longleftrightarrow> 1 \<le> k \<and> k \<le> max_safe_integer" for k
    by (auto simp: integer_at_least_def safe_integer_value_def is_safe_integer_def max_safe_integer_def)
  have m: "first_throw (map (validateExecutionNode legacy) (map execution_node_value (ex_nodes s))) = None
      \<longleftrightarrow> (\<forall>n\<in>set (ex_nodes s). execution_node_ok legacy n \<and> node_shape_ok n)"
    unfolding first_throw_map_None by (auto simp: node_value_ok)
  have l: "length (map execution_node_value (ex_nodes s)) < 1 \<or> 64 < length (map execution_node_value (ex_nodes s))
      \<longleftrightarrow> ex_nodes s = [] \<or> 64 < length (ex_nodes s)" by (simp add: less_Suc_eq)
  have x: "JNull \<notin> set (map execution_node_value (ex_nodes s))" using node_value_object(2) by (metis in_set_conv_nth length_map nth_map)
  show ?thesis
    unfolding validateExecutionState_def Let_def n first_throw_append_None m first_throw_None rs_throw_if_None d l state_value_props e
      projected_value throw_if_None digest_text
    using x by (auto simp: execution_ok_def state_value_keys state_value_object text_that_def is_boolean_def)
qed

section \<open>The nodes of a workflow\<close>

definition workflow_compiled :: "compiled_workflow \<Rightarrow> bool" where
  "workflow_compiled w \<longleftrightarrow> (\<exists>v sha256 ex. compileWorkflowVersion v sha256 ex = Inr w)"

lemma compiled_order: "workflow_compiled w \<Longrightarrow> execution_order (cw_source w) = Inr (cw_executionOrder w)"
  by (auto simp: workflow_compiled_def compile_Inr)

lemma compiled_distinct:
  assumes "workflow_compiled w"
  shows "distinct (cw_executionOrder w)"
proof -
  have "validateWorkflowGraph (map graph_node (sw_nodes (cw_source w))) (sw_entryNodeIds (cw_source w)) (sw_outputNodeIds (cw_source w))
      = Some (Inr (cw_executionOrder w))"
    using compiled_order [OF assms] by (auto simp: execution_order_def split: option.splits)
  then show ?thesis using accepted_order by blast
qed

lemma compiled_node:
  assumes "workflow_compiled w" and "i \<in> set (cw_executionOrder w)"
  shows "workflow_node_at w i \<in> set (sw_nodes (cw_source w))" "wd_nodeId (workflow_node_at w i) = i"
proof -
  have "i \<in> wd_nodeId ` set (sw_nodes (cw_source w))" using ordered_nodes(1) [OF compiled_order [OF assms(1)]] assms(2) by simp
  then obtain n where f: "find (\<lambda>n. wd_nodeId n = i) (sw_nodes (cw_source w)) = Some n"
    by (cases "find (\<lambda>n. wd_nodeId n = i) (sw_nodes (cw_source w))") (auto simp: find_None_iff)
  then have "n \<in> set (sw_nodes (cw_source w))" "wd_nodeId n = i" by (auto simp: find_Some_iff)
  then show "workflow_node_at w i \<in> set (sw_nodes (cw_source w))" "wd_nodeId (workflow_node_at w i) = i"
    by (simp_all add: workflow_node_at_def f)
qed

definition depends_of :: "compiled_workflow \<Rightarrow> js_string \<Rightarrow> js_string list" where
  "depends_of w i = wd_dependsOn (workflow_node_at w i)"

lemma depends_earlier:
  assumes "workflow_compiled w" and "k < length (cw_executionOrder w)"
  shows "set (depends_of w (cw_executionOrder w ! k)) \<subseteq> set (take k (cw_executionOrder w))"
  using ordered_nodes(2) [OF compiled_order [OF assms(1)] compiled_node(1) [OF assms(1)] assms(2)] compiled_node(2) [OF assms(1)] assms(2)
  by (simp add: depends_of_def)

text \<open>The state is of the workflow: its nodes are those of the order, with their kinds and agents.\<close>

definition node_of_workflow :: "compiled_workflow \<Rightarrow> execution_node \<Rightarrow> bool" where
  "node_of_workflow w n \<longleftrightarrow> en_kind n = kind_of_node (wd_kind (workflow_node_at w (en_nodeId n)))
     \<and> en_agentVersionId n = agent_of_node (wd_kind (workflow_node_at w (en_nodeId n)))"

definition completed_in :: "execution_node list \<Rightarrow> js_string \<Rightarrow> bool" where
  "completed_in nodes i \<longleftrightarrow> (\<exists>m\<in>set nodes. en_nodeId m = i \<and> en_status m = NodeCompleted)"

text \<open>What executing a workflow keeps true of its nodes: a node is claimed once, and only after its dependencies completed.\<close>

definition nodes_inv :: "compiled_workflow \<Rightarrow> execution_node list \<Rightarrow> bool" where
  "nodes_inv w nodes \<longleftrightarrow> map en_nodeId nodes = cw_executionOrder w \<and> (\<forall>n\<in>set nodes. node_of_workflow w n
     \<and> (en_claimId n = None \<longrightarrow> en_claimEpoch n = 0 \<and> en_status n \<in> {NodePending, NodeCanceled})
     \<and> (en_claimId n \<noteq> None \<longrightarrow> en_claimEpoch n = 1 \<and> en_status n \<noteq> NodePending \<and> (\<forall>d\<in>set (depends_of w (en_nodeId n)). completed_in nodes d)))"

text \<open>How a node may move: it keeps its identity and its claim, gets a claim only while it waits for one, and ends for good.\<close>

definition node_advance :: "execution_node \<Rightarrow> execution_node \<Rightarrow> bool" where
  "node_advance n m \<longleftrightarrow> same_node_identity n m \<and> validNodeTransition n m
     \<and> (en_claimId n \<noteq> None \<longrightarrow> en_claimId m = en_claimId n \<and> en_claimOperationId m = en_claimOperationId n
         \<and> en_claimEpoch m = en_claimEpoch n \<and> en_gateRequestId m = en_gateRequestId n \<and> en_inputDigest m = en_inputDigest n)
     \<and> (en_claimId n = None \<and> en_claimId m \<noteq> None \<longrightarrow> en_claimEpoch m = en_claimEpoch n + 1)"

definition ended_node :: "execution_node \<Rightarrow> bool" where
  "ended_node n \<longleftrightarrow> en_status n \<in> {NodeCompleted, NodeFailed, NodeCanceled}"

lemma advance_ended: "node_advance n m \<Longrightarrow> ended_node n \<Longrightarrow> m = n"
  by (auto simp: node_advance_def validNodeTransition_def ended_node_def split: if_splits)

lemma completed_advances: "list_all2 node_advance ns ms \<Longrightarrow> completed_in ns d \<Longrightarrow> completed_in ms d"
  unfolding completed_in_def using advance_ended
  by (fastforce simp: list_all2_conv_all_nth in_set_conv_nth ended_node_def)

section \<open>What planning claims\<close>

lemma inv_distinct: "workflow_compiled w \<Longrightarrow> nodes_inv w nodes \<Longrightarrow> distinct (map en_nodeId nodes)"
  by (simp add: nodes_inv_def compiled_distinct)

lemma find_node_distinct:
  assumes "distinct (map en_nodeId nodes)" and "n \<in> set nodes"
  shows "find_node (en_nodeId n) nodes = Some n"
proof -
  have "\<exists>m. find_node (en_nodeId n) nodes = Some m"
    using assms(2) by (cases "find_node (en_nodeId n) nodes") (auto simp: find_node_def find_None_iff)
  then obtain m where m: "find_node (en_nodeId n) nodes = Some m" by blast
  then have "m \<in> set nodes" "en_nodeId m = en_nodeId n" by (auto simp: find_node_def find_Some_iff)
  with assms m show ?thesis by (simp add: distinct_map inj_on_def)
qed

lemma find_node_status: "distinct (map en_nodeId nodes) \<Longrightarrow> (case find_node i nodes of None \<Rightarrow> False | Some n \<Rightarrow> en_status n = st)
    \<longleftrightarrow> (\<exists>n\<in>set nodes. en_nodeId n = i \<and> en_status n = st)"
proof
  assume "case find_node i nodes of None \<Rightarrow> False | Some n \<Rightarrow> en_status n = st"
  then obtain n where "find_node i nodes = Some n" "en_status n = st" by (auto split: option.splits)
  then show "\<exists>n\<in>set nodes. en_nodeId n = i \<and> en_status n = st" by (auto simp: find_node_def find_Some_iff)
next
  assume "distinct (map en_nodeId nodes)" and "\<exists>n\<in>set nodes. en_nodeId n = i \<and> en_status n = st"
  then show "case find_node i nodes of None \<Rightarrow> False | Some n \<Rightarrow> en_status n = st" using find_node_distinct by fastforce
qed

lemma is_ready_iff: "distinct (map en_nodeId nodes) \<Longrightarrow> is_ready w nodes i \<longleftrightarrow>
    (\<exists>n\<in>set nodes. en_nodeId n = i \<and> en_status n = NodePending) \<and> (\<forall>d\<in>set (depends_of w i). completed_in nodes d)"
  by (simp add: is_ready_def find_node_status list_all_iff depends_of_def completed_in_def)

text \<open>A claimed node is a function of the node; the claims are those of the ready nodes, in the order of the nodes.\<close>

definition claims_node :: "plan_input \<Rightarrow> compiled_workflow \<Rightarrow> execution_node list \<Rightarrow> node_claim list \<Rightarrow> execution_node \<Rightarrow> execution_node \<Rightarrow> bool" where
  "claims_node p w recovered cs n m \<longleftrightarrow> (\<exists>c\<in>set cs. m = claimed_node p c n \<and> nc_node c = workflow_node_at w (en_nodeId n)
     \<and> nc_claimEpoch c = en_claimEpoch n + 1 \<and> nc_inputDigest c = pi_inputDigest p (nc_node c) recovered
     \<and> (nc_gateRequestId c = None \<longleftrightarrow> kind_of_node (wd_kind (nc_node c)) \<noteq> ExecHumanGate))"

lemma claims_node_mono: "claims_node p w recovered cs n m \<Longrightarrow> set cs \<subseteq> set ds \<Longrightarrow> claims_node p w recovered ds n m"
  unfolding claims_node_def by (elim bexE) (rule bexI, assumption, erule (1) subsetD)

lemma claim_nodes_spec:
  assumes "claim_nodes p w recovered ready k ns = (ms, cs)"
  shows "list_all2 (\<lambda>n m. if en_nodeId n \<in> set ready then claims_node p w recovered cs n m else m = n) ns ms"
    and "map nc_node cs = map (workflow_node_at w) (filter (\<lambda>i. i \<in> set ready) (map en_nodeId ns))"
proof -
  have "list_all2 (\<lambda>n m. if en_nodeId n \<in> set ready then claims_node p w recovered cs n m else m = n) ns ms
      \<and> map nc_node cs = map (workflow_node_at w) (filter (\<lambda>i. i \<in> set ready) (map en_nodeId ns))"
    using assms
  proof (induction ns arbitrary: k ms cs)
    case (Cons n ns)
    show ?case
    proof (cases "en_nodeId n \<in> set ready")
      case False
      then obtain ms' where "claim_nodes p w recovered ready k ns = (ms', cs)" "ms = n # ms'" using Cons.prems by (auto split: prod.splits)
      with Cons.IH False show ?thesis by auto
    next
      case True
      define node gate c where "node = workflow_node_at w (en_nodeId n)" and "gate \<longleftrightarrow> kind_of_node (wd_kind node) = ExecHumanGate"
        and "c = \<lparr>nc_node = node, nc_claimId = pi_nextId p k, nc_claimEpoch = en_claimEpoch n + 1,
           nc_gateRequestId = (if gate then Some (pi_nextId p (k + 1)) else None), nc_inputDigest = pi_inputDigest p node recovered\<rparr>"
      obtain ms' cs' where r: "claim_nodes p w recovered ready (if gate then k + 2 else k + 1) ns = (ms', cs')"
        by (cases "claim_nodes p w recovered ready (if gate then k + 2 else k + 1) ns")
      have e: "ms = claimed_node p c n # ms'" "cs = c # cs'"
        using Cons.prems True r by (simp_all add: Let_def c_def node_def [symmetric] gate_def [symmetric])
      have "claims_node p w recovered cs n (claimed_node p c n)"
        unfolding claims_node_def e(2) by (rule bexI [of _ c]) (auto simp: c_def node_def gate_def)
      moreover have "list_all2 (\<lambda>n m. if en_nodeId n \<in> set ready then claims_node p w recovered cs n m else m = n) ns ms'"
        using Cons.IH [OF r] by (auto elim!: list_all2_mono split: if_splits intro: claims_node_mono simp: e(2))
      ultimately show ?thesis using Cons.IH [OF r] True by (simp add: e c_def node_def)
    qed
  qed simp
  then show "list_all2 (\<lambda>n m. if en_nodeId n \<in> set ready then claims_node p w recovered cs n m else m = n) ns ms"
    "map nc_node cs = map (workflow_node_at w) (filter (\<lambda>i. i \<in> set ready) (map en_nodeId ns))" by blast+
qed

lemma recover_fields [simp]: "en_nodeId (recover_node legacy p n) = en_nodeId n" "en_kind (recover_node legacy p n) = en_kind n"
  "en_agentVersionId (recover_node legacy p n) = en_agentVersionId n" "en_claimId (recover_node legacy p n) = en_claimId n"
  "en_claimOperationId (recover_node legacy p n) = en_claimOperationId n" "en_claimEpoch (recover_node legacy p n) = en_claimEpoch n"
  "en_gateRequestId (recover_node legacy p n) = en_gateRequestId n" "en_inputDigest (recover_node legacy p n) = en_inputDigest n"
  by (simp_all add: recover_node_def)

lemma recover_status: "en_status (recover_node legacy p n) = en_status n \<or> en_status n = NodeRunning \<and> en_status (recover_node legacy p n) = NodeUnknown"
  by (simp add: recover_node_def)

lemma recover_advance: "node_advance n (recover_node legacy p n)"
  by (auto simp: node_advance_def same_node_identity_def validNodeTransition_def recover_node_def split: node_status.split)

lemma transition_not_pending: "validNodeTransition n m \<Longrightarrow> en_status n \<noteq> NodePending \<Longrightarrow> en_status m \<noteq> NodePending"
  by (cases "n = m"; cases "en_status n") (auto simp: validNodeTransition_def)

text \<open>The invariant is kept by moves that give claims only to ready nodes.\<close>

lemma nodes_inv_advance:
  assumes inv: "nodes_inv w nodes" and adv: "list_all2 node_advance nodes nodes'"
    and new: "\<And>n m. (n, m) \<in> set (zip nodes nodes') \<Longrightarrow> en_claimId n = None \<Longrightarrow>
      (if en_claimId m = None then en_claimEpoch m = 0 \<and> en_status m \<in> {NodePending, NodeCanceled}
       else en_status n = NodePending \<and> en_status m \<noteq> NodePending \<and> (\<forall>d\<in>set (depends_of w (en_nodeId n)). completed_in nodes d))"
  shows "nodes_inv w nodes'"
proof -
  have len: "length nodes' = length nodes" using adv by (simp add: list_all2_lengthD)
  have ids: "map en_nodeId nodes' = map en_nodeId nodes"
    using adv by (auto simp: list_all2_conv_all_nth node_advance_def same_node_identity_def intro: nth_equalityI)
  have "node_of_workflow w m
     \<and> (en_claimId m = None \<longrightarrow> en_claimEpoch m = 0 \<and> en_status m \<in> {NodePending, NodeCanceled})
     \<and> (en_claimId m \<noteq> None \<longrightarrow> en_claimEpoch m = 1 \<and> en_status m \<noteq> NodePending \<and> (\<forall>d\<in>set (depends_of w (en_nodeId m)). completed_in nodes' d))"
    if "m \<in> set nodes'" for m
  proof -
    obtain k where k: "k < length nodes" "m = nodes' ! k" using \<open>m \<in> set nodes'\<close> len by (auto simp: in_set_conv_nth)
    let ?n = "nodes ! k"
    have z: "(?n, m) \<in> set (zip nodes nodes')" using k len by (auto simp: set_zip)
    have a: "node_advance ?n m" using adv k by (auto simp: list_all2_conv_all_nth)
    have i: "node_of_workflow w ?n \<and> (en_claimId ?n = None \<longrightarrow> en_claimEpoch ?n = 0 \<and> en_status ?n \<in> {NodePending, NodeCanceled})
       \<and> (en_claimId ?n \<noteq> None \<longrightarrow> en_claimEpoch ?n = 1 \<and> en_status ?n \<noteq> NodePending \<and> (\<forall>d\<in>set (depends_of w (en_nodeId ?n)). completed_in nodes d))"
      using inv nth_mem [OF k(1)] unfolding nodes_inv_def by blast
    have same: "en_nodeId m = en_nodeId ?n" "node_of_workflow w m = node_of_workflow w ?n"
      using a by (auto simp: node_advance_def same_node_identity_def node_of_workflow_def)
    show ?thesis
    proof (cases "en_claimId ?n = None")
      case True
      note g = new [OF z True]
      show ?thesis
      proof (cases "en_claimId m = None")
        case False
        then have "en_status m \<noteq> NodePending" "\<forall>d\<in>set (depends_of w (en_nodeId ?n)). completed_in nodes d" using g by simp_all
        moreover have "en_claimEpoch m = 1" using a True False i by (simp add: node_advance_def)
        ultimately show ?thesis using i same False completed_advances [OF adv] by simp
      qed (use g i same in simp)
    next
      case False
      then have c: "en_claimId m \<noteq> None" "en_claimEpoch m = 1" using a i by (auto simp: node_advance_def)
      have "validNodeTransition ?n m" "en_status ?n \<noteq> NodePending" using a i False by (simp_all add: node_advance_def)
      then have "en_status m \<noteq> NodePending" by (rule transition_not_pending)
      moreover have "\<forall>d\<in>set (depends_of w (en_nodeId ?n)). completed_in nodes d" using i False by blast
      ultimately show ?thesis using c i same completed_advances [OF adv] by simp
    qed
  qed
  then show ?thesis using ids inv by (simp add: nodes_inv_def)
qed

lemma filter_take: "distinct xs \<Longrightarrow> filter (\<lambda>i. i \<in> set (take k (filter P xs))) xs = take k (filter P xs)"
proof (induction xs arbitrary: k)
  case (Cons x xs)
  show ?case
  proof (cases "P x \<and> k \<noteq> 0")
    case True
    then obtain j where k: "k = Suc j" by (cases k) auto
    have "filter (\<lambda>i. i = x \<or> i \<in> set (take j (filter P xs))) xs = filter (\<lambda>i. i \<in> set (take j (filter P xs))) xs"
      using Cons.prems by (intro filter_cong) auto
    with Cons True k show ?thesis by simp
  next
    case False
    have "x \<notin> set (take k (filter P xs))" using Cons.prems by (meson distinct.simps(2) filter_is_subset in_set_takeD subsetD)
    with Cons False show ?thesis by auto
  qed
qed simp

lemma recovered_pending: "en_status (recover_node legacy p n) = NodePending \<Longrightarrow> recover_node legacy p n = n \<and> en_status n = NodePending"
  by (auto simp: recover_node_def split: if_splits)

lemma recovered_completed: "completed_in (map (recover_node legacy p) nodes) d \<Longrightarrow> completed_in nodes d"
  by (auto simp: completed_in_def recover_node_def split: if_splits)

lemma claimed_advance:
  assumes "en_status n = NodePending" and "en_claimId n = None" and "nc_claimEpoch c = en_claimEpoch n + 1"
  shows "node_advance n (claimed_node p c n)" "en_claimId (claimed_node p c n) = Some (nc_claimId c)" "en_status (claimed_node p c n) \<noteq> NodePending"
  using assms by (auto simp: node_advance_def same_node_identity_def validNodeTransition_def claimed_node_def Let_def)

lemma recover_unclaimed: "en_claimId n = None \<Longrightarrow> en_status n \<in> {NodePending, NodeCanceled} \<Longrightarrow> recover_node legacy p n = n"
  by (auto simp: recover_node_def)

text \<open>One loop of planning, from the nodes to the nodes with the new claims.\<close>

lemma plan_nodes:
  assumes w: "workflow_compiled w" and inv: "nodes_inv w nodes"
    and c: "claim_nodes p w recovered ready 0 recovered = (nodes', claims)"
    and r: "recovered = map (recover_node legacy p) nodes" "ready = take k (ready_nodes w recovered)"
  shows "list_all2 node_advance nodes nodes'" "nodes_inv w nodes'"
    "map nc_node claims = map (workflow_node_at w) ready"
proof -
  have ids: "map en_nodeId recovered = cw_executionOrder w" using inv by (simp add: r(1) nodes_inv_def comp_def)
  have dist: "distinct (map en_nodeId recovered)" using ids compiled_distinct [OF w] by simp
  note spec = claim_nodes_spec [OF c]
  have len: "length recovered = length nodes" "length nodes' = length nodes" using list_all2_lengthD [OF spec(1)] by (simp_all add: r(1))
  show "map nc_node claims = map (workflow_node_at w) ready"
    using spec(2) filter_take [OF compiled_distinct [OF w], of k "is_ready w recovered"] by (simp add: ids r(2) ready_nodes_def)
  have rd: "is_ready w recovered i" if "i \<in> set ready" for i
    using that by (auto simp: r(2) ready_nodes_def dest: in_set_takeD)
  have step: "node_advance n m \<and> (en_claimId n = None \<longrightarrow>
      (if en_claimId m = None then en_claimEpoch m = 0 \<and> en_status m \<in> {NodePending, NodeCanceled}
       else en_status n = NodePending \<and> en_status m \<noteq> NodePending \<and> (\<forall>d\<in>set (depends_of w (en_nodeId n)). completed_in nodes d)))"
    if j: "j < length nodes" "n = nodes ! j" "m = nodes' ! j" for j n m
  proof -
    have rj: "recovered ! j = recover_node legacy p n" using j by (simp add: r(1))
    have i: "en_claimId n = None \<longrightarrow> en_claimEpoch n = 0 \<and> en_status n \<in> {NodePending, NodeCanceled}"
      "en_claimId n \<noteq> None \<longrightarrow> en_status n \<noteq> NodePending"
      using inv nth_mem [OF j(1)] unfolding nodes_inv_def j(2) by blast+
    have s: "if en_nodeId n \<in> set ready then claims_node p w recovered claims (recover_node legacy p n) m else m = recover_node legacy p n"
      using spec(1) j len rj by (auto simp: list_all2_conv_all_nth)
    show ?thesis
    proof (cases "en_nodeId n \<in> set ready")
      case False
      then have m: "m = recover_node legacy p n" using s by simp
      then show ?thesis using i(1) recover_advance recover_unclaimed [of n legacy p] by auto
    next
      case True
      then obtain c where c: "m = claimed_node p c (recover_node legacy p n)" "nc_claimEpoch c = en_claimEpoch (recover_node legacy p n) + 1"
        using s unfolding claims_node_def by auto
      have y: "is_ready w recovered (en_nodeId n)" by (rule rd [OF True])
      then obtain x where x: "x \<in> set recovered" "en_nodeId x = en_nodeId n" "en_status x = NodePending"
        using is_ready_iff [OF dist] by blast
      have "recover_node legacy p n \<in> set recovered" using rj j(1) len by (metis nth_mem)
      then have "x = recover_node legacy p n" using dist x by (metis distinct_map inj_onD recover_fields(1))
      then have e: "recover_node legacy p n = n" "en_status n = NodePending" using recovered_pending x(3) by blast+
      then have q: "en_claimId n = None" using i(2) by blast
      have "\<forall>d\<in>set (depends_of w (en_nodeId n)). completed_in nodes d"
        using y is_ready_iff [OF dist] recovered_completed unfolding r(1) by blast
      then show ?thesis using claimed_advance [OF e(2) q] c unfolding e(1) by (auto simp: e(2))
    qed
  qed
  show adv: "list_all2 node_advance nodes nodes'" 
    by (rule list_all2_all_nthI) (use len in simp, use step in blast)
  show "nodes_inv w nodes'"
  proof (rule nodes_inv_advance [OF inv adv])
    fix n m assume a: "(n, m) \<in> set (zip nodes nodes')" "en_claimId n = None"
    then obtain j where "j < length nodes" "n = nodes ! j" "m = nodes' ! j" by (auto simp: set_zip)
    from step [OF this] a(2) show "if en_claimId m = None then en_claimEpoch m = 0 \<and> en_status m \<in> {NodePending, NodeCanceled}
        else en_status n = NodePending \<and> en_status m \<noteq> NodePending \<and> (\<forall>d\<in>set (depends_of w (en_nodeId n)). completed_in nodes d)"
      by blast
  qed
qed

lemma plan_cases:
  assumes "planWorkflowNodeClaims legacy p w s = (new, claims)" and "workflow_compiled w" and "nodes_inv w (ex_nodes s)"
  obtains "new = s" "claims = []"
  | nodes where "new = projectWorkflowExecution s nodes (pi_now p)" "list_all2 node_advance (ex_nodes s) nodes" "nodes_inv w nodes"
    "\<not> ex_cancelRequested s" "map nc_node claims = map (workflow_node_at w)
      (take (pi_maximumClaims p) (ready_nodes w (map (recover_node legacy p) (ex_nodes s))))"
proof (cases "new = s \<and> claims = []")
  case True
  then show ?thesis using that(1) by blast
next
  case False
  define recovered ready where "recovered = map (recover_node legacy p) (ex_nodes s)" and "ready = take (pi_maximumClaims p) (ready_nodes w recovered)"
  obtain nodes cs where c: "claim_nodes p w recovered ready 0 recovered = (nodes, cs)" by (cases "claim_nodes p w recovered ready 0 recovered")
  have u: "\<not> ex_cancelRequested s" "new = projectWorkflowExecution s nodes (pi_now p)" "claims = cs"
    using assms(1) False unfolding planWorkflowNodeClaims_def Let_def recovered_def [symmetric] ready_def [symmetric] c
    by (auto split: if_splits)
  show ?thesis
    by (rule that(2)) (use u plan_nodes [OF assms(2,3) c recovered_def ready_def] in \<open>simp_all add: recovered_def ready_def\<close>)
qed

lemma planned_claims:
  assumes "workflow_compiled w" and "nodes_inv w (ex_nodes s)"
    and "planWorkflowNodeClaims legacy p w s = (new, claims)" and "new \<noteq> s"
  shows "map (\<lambda>c. wd_nodeId (nc_node c)) claims = take (pi_maximumClaims p) (filter
      (\<lambda>i. (\<exists>n\<in>set (ex_nodes s). en_nodeId n = i \<and> en_status n = NodePending) \<and> (\<forall>d\<in>set (depends_of w i). completed_in (ex_nodes s) d))
      (cw_executionOrder w))"
    and "list_all2 (\<lambda>n m. if en_nodeId n \<in> (\<lambda>c. wd_nodeId (nc_node c)) ` set claims then \<exists>c\<in>set claims. m = claimed_node p c n
        \<and> nc_node c = workflow_node_at w (en_nodeId n) \<and> nc_claimEpoch c = 1 else m = recover_node legacy p n) (ex_nodes s) (ex_nodes new)"
    and "ex_revision new = ex_revision s + 1"
proof -
  define recovered ready where "recovered = map (recover_node legacy p) (ex_nodes s)" and "ready = take (pi_maximumClaims p) (ready_nodes w recovered)"
  obtain nodes cs where c: "claim_nodes p w recovered ready 0 recovered = (nodes, cs)" by (cases "claim_nodes p w recovered ready 0 recovered")
  have u: "new = projectWorkflowExecution s nodes (pi_now p)" "claims = cs"
    using assms(3,4) unfolding planWorkflowNodeClaims_def Let_def recovered_def [symmetric] ready_def [symmetric] c
    by (auto split: if_splits)
  then show "ex_revision new = ex_revision s + 1" by (simp add: projectWorkflowExecution_def)
  have n: "ex_nodes new = nodes" by (simp add: u projectWorkflowExecution_def)
  have ids: "map en_nodeId recovered = cw_executionOrder w" using assms(2) by (simp add: recovered_def nodes_inv_def comp_def)
  have dist: "distinct (map en_nodeId recovered)" "distinct (map en_nodeId (ex_nodes s))"
    using ids compiled_distinct [OF assms(1)] assms(2) by (simp_all add: nodes_inv_def)
  have cr: "completed_in recovered d \<longleftrightarrow> completed_in (ex_nodes s) d" for d
    unfolding recovered_def by (auto simp: completed_in_def recover_node_def split: if_splits)
  have pr: "(\<exists>n\<in>set recovered. en_nodeId n = i \<and> en_status n = NodePending) \<longleftrightarrow> (\<exists>n\<in>set (ex_nodes s). en_nodeId n = i \<and> en_status n = NodePending)" for i
    unfolding recovered_def by (auto simp: recover_node_def split: if_splits)
  have rd: "ready = take (pi_maximumClaims p) (filter
      (\<lambda>i. (\<exists>n\<in>set (ex_nodes s). en_nodeId n = i \<and> en_status n = NodePending) \<and> (\<forall>d\<in>set (depends_of w i). completed_in (ex_nodes s) d))
      (cw_executionOrder w))"
    unfolding ready_def ready_nodes_def is_ready_iff [OF dist(1)] cr pr ..
  have rp: "\<exists>x\<in>set (ex_nodes s). en_nodeId x = i \<and> en_status x = NodePending" if "i \<in> set ready" for i
    using that unfolding rd by (auto dest!: in_set_takeD)
  have sub: "set ready \<subseteq> set (cw_executionOrder w)" by (auto simp: rd dest: in_set_takeD)
  have mc: "map nc_node cs = map (workflow_node_at w) ready" by (rule plan_nodes [OF assms(1,2) c recovered_def ready_def])
  have "map (\<lambda>c. wd_nodeId (nc_node c)) cs = map wd_nodeId (map nc_node cs)" by simp
  also have "\<dots> = map (\<lambda>i. wd_nodeId (workflow_node_at w i)) ready" by (simp add: mc)
  also have "\<dots> = ready" using compiled_node(2) [OF assms(1)] sub by (intro map_idI) blast
  finally have ic: "map (\<lambda>c. wd_nodeId (nc_node c)) claims = ready" by (simp add: u)
  then show "map (\<lambda>c. wd_nodeId (nc_node c)) claims = take (pi_maximumClaims p) (filter
      (\<lambda>i. (\<exists>n\<in>set (ex_nodes s). en_nodeId n = i \<and> en_status n = NodePending) \<and> (\<forall>d\<in>set (depends_of w i). completed_in (ex_nodes s) d))
      (cw_executionOrder w))" by (simp add: rd)
  have img: "(\<lambda>c. wd_nodeId (nc_node c)) ` set claims = set ready" by (metis ic list.set_map)
  note spec = claim_nodes_spec(1) [OF c]
  show "list_all2 (\<lambda>n m. if en_nodeId n \<in> (\<lambda>c. wd_nodeId (nc_node c)) ` set claims then \<exists>c\<in>set claims. m = claimed_node p c n
        \<and> nc_node c = workflow_node_at w (en_nodeId n) \<and> nc_claimEpoch c = 1 else m = recover_node legacy p n) (ex_nodes s) (ex_nodes new)"
  proof (rule list_all2_all_nthI)
    show len: "length (ex_nodes s) = length (ex_nodes new)" using list_all2_lengthD [OF spec] by (simp add: n recovered_def)
    fix j assume j: "j < length (ex_nodes s)"
    let ?n = "ex_nodes s ! j" and ?m = "ex_nodes new ! j"
    have rj: "recovered ! j = recover_node legacy p ?n" "j < length recovered" using j by (simp_all add: recovered_def)
    have s: "if en_nodeId ?n \<in> set ready then claims_node p w recovered cs (recover_node legacy p ?n) ?m else ?m = recover_node legacy p ?n"
      using list_all2_nthD [OF spec rj(2)] unfolding n rj(1) recover_fields .
    show "if en_nodeId ?n \<in> (\<lambda>c. wd_nodeId (nc_node c)) ` set claims then \<exists>c\<in>set claims. ?m = claimed_node p c ?n
        \<and> nc_node c = workflow_node_at w (en_nodeId ?n) \<and> nc_claimEpoch c = 1 else ?m = recover_node legacy p ?n"
    proof (cases "en_nodeId ?n \<in> set ready")
      case False
      with s show ?thesis by (simp add: img)
    next
      case True
      then obtain x where x: "x \<in> set (ex_nodes s)" "en_nodeId x = en_nodeId ?n" "en_status x = NodePending"
        using rp by blast
      then have "x = ?n" using dist(2) nth_mem [OF j] by (metis distinct_map inj_onD)
      then have p: "en_status ?n = NodePending" using x(3) by simp
      have q: "en_claimEpoch ?n = 0" using assms(2) nth_mem [OF j] p unfolding nodes_inv_def by (metis)
      have "recover_node legacy p ?n = ?n" using p by (simp add: recover_node_def)
      then have "claims_node p w recovered cs ?n ?m" using s True by simp
      then obtain c where "c \<in> set claims" "?m = claimed_node p c ?n" "nc_node c = workflow_node_at w (en_nodeId ?n)" "nc_claimEpoch c = 1"
        unfolding claims_node_def by (auto simp: q u(2))
      with True show ?thesis unfolding img by auto
    qed
  qed
qed


definition active_node :: "execution_node \<Rightarrow> bool" where
  "active_node n \<longleftrightarrow> en_status n \<in> {NodeRunning, NodeWaitingHuman, NodeUnknown}"

lemma first_open_node:
  assumes w: "workflow_compiled w" and inv: "nodes_inv w nodes"
    and open_node: "n \<in> set nodes" "en_status n \<noteq> NodeCompleted" and all: "\<forall>n\<in>set nodes. en_status n \<in> {NodePending, NodeCompleted}"
  shows "\<exists>i\<in>set (cw_executionOrder w). is_ready w nodes i"
proof -
  have ids: "map en_nodeId nodes = cw_executionOrder w" using inv by (simp add: nodes_inv_def)
  then have dist: "distinct (map en_nodeId nodes)" using compiled_distinct [OF w] by simp
  define k where "k = (LEAST k. k < length nodes \<and> en_status (nodes ! k) \<noteq> NodeCompleted)"
  have "\<exists>k. k < length nodes \<and> en_status (nodes ! k) \<noteq> NodeCompleted" using open_node by (auto simp: in_set_conv_nth)
  then have k: "k < length nodes" "en_status (nodes ! k) \<noteq> NodeCompleted" unfolding k_def by (metis (mono_tags, lifting) LeastI_ex)+
  have before: "en_status (nodes ! j) = NodeCompleted" if "j < k" for j
    using that k(1) not_less_Least [of j "\<lambda>k. k < length nodes \<and> en_status (nodes ! k) \<noteq> NodeCompleted"] unfolding k_def by auto
  have lo: "k < length (cw_executionOrder w)" using k(1) ids by (metis length_map)
  have ok: "cw_executionOrder w ! k = en_nodeId (nodes ! k)" using ids k(1) by (metis nth_map)
  have "completed_in nodes d" if "d \<in> set (depends_of w (en_nodeId (nodes ! k)))" for d
  proof -
    have "d \<in> set (take k (cw_executionOrder w))" using depends_earlier [OF w lo] that ok by auto
    then obtain j where j: "j < k" "cw_executionOrder w ! j = d" by (auto simp: in_set_conv_nth)
    then have l: "j < length nodes" using k(1) by simp
    then have "nodes ! j \<in> set nodes" "en_nodeId (nodes ! j) = d" using ids j(2) by (simp, metis nth_map)
    with before [OF j(1)] show ?thesis by (auto simp: completed_in_def)
  qed
  moreover have "en_status (nodes ! k) = NodePending" using k all nth_mem [OF k(1)] by blast
  ultimately have "is_ready w nodes (en_nodeId (nodes ! k))" using nth_mem [OF k(1)] unfolding is_ready_iff [OF dist] by blast
  moreover have "en_nodeId (nodes ! k) \<in> set (cw_executionOrder w)" using ok lo by (metis nth_mem)
  ultimately show ?thesis by blast
qed

text \<open>
  C15: an execution does not get stuck.  While an execution is open and no cancellation is requested, a plan claims a node, or some
  node is running, waits for a person or is unknown, unless a node was canceled.
\<close>

theorem execution_never_stuck:
  assumes "workflow_compiled w" and "nodes_inv w (ex_nodes s)" and "execution_ok legacy s"
    and "ex_status s = ExecRunning \<or> ex_status s = ExecWaitingHuman" and "\<not> ex_cancelRequested s"
    and "planWorkflowNodeClaims legacy p w s = (new, claims)" and "0 < pi_maximumClaims p"
  shows "claims \<noteq> [] \<or> list_ex active_node (ex_nodes s) \<or> list_ex (has_status NodeCanceled) (ex_nodes s)"
proof (rule ccontr)
  assume "\<not> (claims \<noteq> [] \<or> list_ex active_node (ex_nodes s) \<or> list_ex (has_status NodeCanceled) (ex_nodes s))"
  then have c: "claims = []" and a: "\<forall>n\<in>set (ex_nodes s). \<not> active_node n \<and> en_status n \<noteq> NodeCanceled"
    by (auto simp: list_ex_iff has_status_def)
  have st: "ex_status s = projected_status False has_status (ex_nodes s)" using assms(3,5) by (simp add: execution_ok_def)
  have nf: "\<not> list_ex (has_status NodeFailed) (ex_nodes s)" "\<not> list_all (has_status NodeCompleted) (ex_nodes s)"
    using st assms(4) by (auto simp: projected_status_def split: if_splits)
  have all: "\<forall>n\<in>set (ex_nodes s). en_status n \<in> {NodePending, NodeCompleted}"
  proof
    fix n assume n: "n \<in> set (ex_nodes s)"
    then have "en_status n \<noteq> NodeFailed" using nf(1) by (auto simp: list_ex_iff has_status_def)
    with a n show "en_status n \<in> {NodePending, NodeCompleted}" by (cases "en_status n") (auto simp: active_node_def)
  qed
  from nf(2) obtain n where "n \<in> set (ex_nodes s)" "en_status n \<noteq> NodeCompleted" by (auto simp: list_all_iff has_status_def)
  then obtain i where i: "i \<in> set (cw_executionOrder w)" "is_ready w (ex_nodes s) i" using first_open_node [OF assms(1,2) _ _ all] by blast
  have "map (recover_node legacy p) (ex_nodes s) = ex_nodes s" using all by (intro map_idI) (auto simp: recover_node_def)
  moreover have "ready_nodes w (ex_nodes s) \<noteq> []" using i by (auto simp: ready_nodes_def filter_empty_conv)
  moreover have "claims \<noteq> []" if "ready_nodes w (ex_nodes s) \<noteq> []" "map (recover_node legacy p) (ex_nodes s) = ex_nodes s"
  proof -
    let ?ready = "take (pi_maximumClaims p) (ready_nodes w (ex_nodes s))"
    have r: "?ready \<noteq> []" using that(1) assms(7) by simp
    obtain nodes cs where cs: "claim_nodes p w (ex_nodes s) ?ready 0 (ex_nodes s) = (nodes, cs)" by (cases "claim_nodes p w (ex_nodes s) ?ready 0 (ex_nodes s)")
    have "claims = cs" using assms(4,5,6) r unfolding planWorkflowNodeClaims_def Let_def that(2) cs by auto
    moreover have "map nc_node cs = map (workflow_node_at w) ?ready"
      by (rule plan_nodes(3) [OF assms(1,2) cs that(2) [symmetric]]) simp
    ultimately show ?thesis using r by auto
  qed
  ultimately show False using c by blast
qed

section \<open>A sample execution\<close>

lemma initial_nodes_inv: "workflow_compiled w \<Longrightarrow> nodes_inv w (ex_nodes (initialWorkflowExecution tenantId runId w now))"
  by (auto simp: nodes_inv_def initialWorkflowExecution_def initial_node_def Let_def node_of_workflow_def comp_def)

lemma sample_workflow_compiled: "workflow_compiled sample_compiled"
  unfolding workflow_compiled_def using sample_compiles by blast

lemma sample_execution_order: "cw_executionOrder sample_compiled = [js ''a'', js ''b'', js ''v'']"
  by (simp add: sample_compiled_def)

lemma project_not_same: "projectWorkflowExecution s nodes now \<noteq> s"
proof
  assume "projectWorkflowExecution s nodes now = s"
  then have "ex_revision (projectWorkflowExecution s nodes now) = ex_revision s" by simp
  then show False by (simp add: projectWorkflowExecution_def)
qed

definition start_time :: js_string where
  "start_time = to_iso_string 1767323045000"

definition initial_execution :: execution_state where
  "initial_execution = initialWorkflowExecution (js ''t'') (js ''r'') sample_compiled start_time"

definition claim_plan :: plan_input where
  "claim_plan = \<lparr>pi_now = start_time, pi_expiresAt = to_iso_string 1767323145000, pi_operationId = js ''op1'', pi_maximumClaims = 3,
     pi_lostClaimIds = {}, pi_delegatedClaimIds = {}, pi_nextId = (\<lambda>k. js ''c'' @ [48 + k]), pi_inputDigest = (\<lambda>_ _. sample_digest)\<rparr>"

definition sample_claim :: "string \<Rightarrow> js_string \<Rightarrow> node_claim" where
  "sample_claim i c = \<lparr>nc_node = workflow_node_at sample_compiled (js i), nc_claimId = c, nc_claimEpoch = 1, nc_gateRequestId = None,
     nc_inputDigest = sample_digest\<rparr>"

definition claimed_nodes :: "execution_node list" where
  "claimed_nodes = [claimed_node claim_plan (sample_claim ''a'' (js ''c0'')) (initial_node sample_compiled (js ''a'')),
     claimed_node claim_plan (sample_claim ''b'' (js ''c1'')) (initial_node sample_compiled (js ''b'')),
     initial_node sample_compiled (js ''v'')]"

lemma sample_node_at:
  "workflow_node_at sample_compiled (js ''a'') = sample_node ''a'' [] verdict_schema (AgentKind (js ''x''))"
  "workflow_node_at sample_compiled (js ''b'') = sample_node ''b'' [] verdict_schema (AgentKind (js ''y''))"
  "workflow_node_at sample_compiled (js ''v'') = sample_node ''v'' [js ''a'', js ''b''] joined_schema (VerificationKind (js ''z''))"
  by (simp_all add: workflow_node_at_def sample_compiled_def sample_source_def sample_node_def)

lemma sample_node_fields: "wd_kind (sample_node i ds s k) = k" "wd_dependsOn (sample_node i ds s k) = ds"
  by (simp_all add: sample_node_def)

lemma initial_node_fields [simp]: "en_nodeId (initial_node w i) = i" "en_status (initial_node w i) = NodePending"
  "en_claimId (initial_node w i) = None" "en_claimEpoch (initial_node w i) = 0"
  by (simp_all add: initial_node_def Let_def)

lemma recover_initial [simp]: "recover_node legacy p (initial_node w i) = initial_node w i"
  by (simp add: recover_node_def)

lemma sample_planned: "planWorkflowNodeClaims legacy claim_plan sample_compiled initial_execution
    = (projectWorkflowExecution initial_execution claimed_nodes start_time, [sample_claim ''a'' (js ''c0''), sample_claim ''b'' (js ''c1'')])"
proof -
  let ?i = "initial_node sample_compiled"
  have n: "ex_nodes initial_execution = [?i (js ''a''), ?i (js ''b''), ?i (js ''v'')]"
    by (simp add: initial_execution_def initialWorkflowExecution_def sample_execution_order)
  have s: "\<not> ex_cancelRequested initial_execution" "ex_status initial_execution = ExecRunning"
    by (simp_all add: initial_execution_def initialWorkflowExecution_def)
  have r: "ready_nodes sample_compiled (ex_nodes initial_execution) = [js ''a'', js ''b'']"
    by (simp add: ready_nodes_def n is_ready_def find_node_def sample_node_at sample_node_fields sample_execution_order)
  have ids: "pi_nextId claim_plan 0 = js ''c0''" "pi_nextId claim_plan (Suc 0) = js ''c1''"
    by (simp_all add: claim_plan_def js_def)
  have m: "map (recover_node legacy claim_plan) (ex_nodes initial_execution) = ex_nodes initial_execution" by (simp add: n)
  have t: "pi_maximumClaims claim_plan = 3" "pi_now claim_plan = start_time" "pi_inputDigest claim_plan x y = sample_digest" for x y
    by (simp_all add: claim_plan_def)
  have c: "claim_nodes claim_plan sample_compiled (ex_nodes initial_execution) [js ''a'', js ''b''] 0 (ex_nodes initial_execution)
      = (claimed_nodes, [sample_claim ''a'' (js ''c0''), sample_claim ''b'' (js ''c1'')])"
    unfolding n by (simp add: Let_def sample_node_at sample_node_fields kind_of_node_def ids t claimed_nodes_def sample_claim_def)
  show ?thesis unfolding planWorkflowNodeClaims_def Let_def m r t using s c by (simp add: t)
qed


lemma canonical_to_iso: "min_iso_ms \<le> ms \<Longrightarrow> ms \<le> max_iso_ms \<Longrightarrow> canonicalUtc legacy (to_iso_string ms)"
  using is_timestamp_to_iso [of ms] iso_time_to_iso_string [of ms] by (simp add: canonicalUtc_def date_parse_def is_timestamp_def)

lemma start_time_ok [simp]: "canonicalUtc legacy start_time"
  unfolding start_time_def by (rule canonical_to_iso) (simp_all add: min_iso_ms_def max_iso_ms_def)

lemma sample_ids_ok: "boundedId (js ''t'')" "boundedId (js ''r'')" "boundedId (js ''w'')" "boundedId (js ''w1'')" "boundedId (js ''a'')"
  "boundedId (js ''b'')" "boundedId (js ''v'')" "boundedId (js ''x'')" "boundedId (js ''y'')" "boundedId (js ''z'')" "boundedId (js ''c0'')"
  "boundedId (js ''c1'')" "boundedId (js ''op1'')"
  by (simp_all add: boundedId_def js_def is_alnum_def is_lower_def is_digit_def is_id_tail_def is_high_surrogate_def is_low_surrogate_def)

lemma initial_execution_ok: "execution_ok legacy initial_execution"
  by (simp add: execution_ok_def initial_execution_def initialWorkflowExecution_def sample_execution_order sample_ids_ok initial_node_def sample_node_at
      sample_node_fields Let_def execution_node_ok_def node_shape_ok_def kind_of_node_def agent_of_node_def projected_status_def has_status_def
      max_safe_integer_def) (simp add: sample_compiled_def sample_source_def sample_ids_ok)

theorem execution_never_stuck_witness: "(\<exists>c. c \<in> set [sample_claim ''a'' (js ''c0''), sample_claim ''b'' (js ''c1'')])
    \<or> list_ex active_node (ex_nodes initial_execution) \<or> list_ex (has_status NodeCanceled) (ex_nodes initial_execution)"
proof -
  have "nodes_inv sample_compiled (ex_nodes initial_execution)" unfolding initial_execution_def by (rule initial_nodes_inv [OF sample_workflow_compiled])
  moreover have "ex_status initial_execution = ExecRunning" "\<not> ex_cancelRequested initial_execution"
    by (simp_all add: initial_execution_def initialWorkflowExecution_def)
  ultimately show ?thesis
    using execution_never_stuck [OF sample_workflow_compiled _ initial_execution_ok _ _ sample_planned] by (auto simp: claim_plan_def)
qed

end
