(* ===== verification/Workflow_Store.thy ===== *)
theory Workflow_Store
  imports Workflow_Execution
begin

text \<open>
  The SQLite store of workflow executions, \<open>workflow-execution-store.ts\<close>, and the canonical texts of \<open>canonical-json.ts\<close>.  The two
  tables are maps, whose texts are read back as they were written (\<open>stored_state_read\<close>), and every call of the store is one
  transaction.  Field prefixes \<open>wt\<close> for the tables, \<open>ci\<close> for the input of a swap.
\<close>

section \<open>Canonical texts\<close>

fun canonical_value :: "nat \<Rightarrow> json \<Rightarrow> bool" where
  "canonical_value depth (JStr s) \<longleftrightarrow> depth \<le> 32 \<and> isWellFormedUnicode s"
| "canonical_value depth (JNum n) \<longleftrightarrow> depth \<le> 32 \<and> is_finite_number n"
| "canonical_value depth (JArr vs) \<longleftrightarrow> depth \<le> 32 \<and> (\<forall>v\<in>set vs. canonical_value (depth + 1) v)"
| "canonical_value depth (JObj ps) \<longleftrightarrow> depth \<le> 32 \<and> (\<forall>p\<in>set ps. isWellFormedUnicode (fst p) \<and> canonical_value (depth + 1) (snd p))"
| "canonical_value depth _ \<longleftrightarrow> depth \<le> 32"

definition canonicalJson :: "json \<Rightarrow> js_string res" where
  "canonicalJson v = (if canonical_value 0 v then Inr (canonical_json code_units v)
     else Inl (ApplicationError ''validation'' ''command_non_json_value''))"

section \<open>The store\<close>

record workflow_tables =
  wt_executions :: "js_string \<times> js_string \<Rightarrow> execution_state option"
  wt_receipts :: "js_string \<times> js_string \<times> js_string \<Rightarrow> (js_string \<times> execution_state) option"

definition no_executions :: workflow_tables where
  "no_executions = \<lparr>wt_executions = (\<lambda>_. None), wt_receipts = (\<lambda>_. None)\<rparr>"

definition validateLocator :: "js_string \<Rightarrow> js_string \<Rightarrow> check" where
  "validateLocator tenantId runId = rs_throw_if (\<not> boundedId tenantId \<or> \<not> boundedId runId) ''workflow_execution_locator_invalid''"

definition validateReceiptLocator :: "js_string \<Rightarrow> js_string \<Rightarrow> js_string \<Rightarrow> check" where
  "validateReceiptLocator tenantId runId operationId = first_throw [validateLocator tenantId runId,
     rs_throw_if (\<not> boundedId operationId) ''workflow_execution_receipt_locator_invalid'']"

text \<open>\<open>composed\<close> tells whether the run is of purpose \<open>workflow\<close> in the table \<open>run_snapshots\<close>, which other stores write.\<close>

definition assertStandaloneWriter :: "(js_string \<times> js_string \<Rightarrow> bool) \<Rightarrow> js_string \<Rightarrow> js_string \<Rightarrow> check" where
  "assertStandaloneWriter composed tenantId runId = rs_throw_if (composed (tenantId, runId)) ''workflow_execution_composition_required''"

definition createWorkflowExecution :: "(js_string \<Rightarrow> int option) \<Rightarrow> (js_string \<times> js_string \<Rightarrow> bool) \<Rightarrow> execution_state \<Rightarrow> workflow_tables
    \<Rightarrow> (workflow_tables \<times> execution_state) res" where
  "createWorkflowExecution legacy composed state t = guarded [validateExecutionState legacy (execution_value state),
       assertStandaloneWriter composed (ex_tenantId state) (ex_runId state)]
     (let k = (ex_tenantId state, ex_runId state);
        t' = (if wt_executions t k = None then t\<lparr>wt_executions := (wt_executions t)(k \<mapsto> state)\<rparr> else t);
        stored = the (wt_executions t' k) in
      guarded [assertCreateReplay stored state] (Inr (t', stored)))"

definition loadWorkflowExecution :: "js_string \<Rightarrow> js_string \<Rightarrow> workflow_tables \<Rightarrow> execution_state option res" where
  "loadWorkflowExecution tenantId runId t = guarded [validateLocator tenantId runId] (Inr (wt_executions t (tenantId, runId)))"

definition loadWorkflowExecutionReceipt :: "js_string \<Rightarrow> js_string \<Rightarrow> js_string \<Rightarrow> workflow_tables \<Rightarrow> (js_string \<times> execution_state) option res" where
  "loadWorkflowExecutionReceipt tenantId runId operationId t =
     guarded [validateReceiptLocator tenantId runId operationId] (Inr (wt_receipts t (tenantId, runId, operationId)))"

record cas_input =
  ci_tenantId :: js_string
  ci_runId :: js_string
  ci_expectedRevision :: int
  ci_next :: execution_state
  ci_operationId :: js_string
  ci_fingerprint :: js_string

definition validateCas :: "(js_string \<Rightarrow> int option) \<Rightarrow> cas_input \<Rightarrow> check" where
  "validateCas legacy i = first_throw [validateLocator (ci_tenantId i) (ci_runId i),
     validateExecutionState legacy (execution_value (ci_next i)),
     rs_throw_if (\<not> is_safe_integer (ci_expectedRevision i) \<or> ci_expectedRevision i < 1
       \<or> ex_revision (ci_next i) \<noteq> ci_expectedRevision i + 1 \<or> \<not> boundedId (ci_operationId i)
       \<or> 4096 < utf8_length (ci_fingerprint i)) ''workflow_execution_cas_invalid'']"

datatype cas_disposition = CasCommitted | CasReplayed | CasConflict

definition compareAndSwapWorkflowExecution :: "(js_string \<Rightarrow> int option) \<Rightarrow> (js_string \<times> js_string \<Rightarrow> bool) \<Rightarrow> cas_input \<Rightarrow> workflow_tables
    \<Rightarrow> (workflow_tables \<times> cas_disposition \<times> execution_state) res" where
  "compareAndSwapWorkflowExecution legacy composed i t = guarded [validateCas legacy i, assertStandaloneWriter composed (ci_tenantId i) (ci_runId i)]
     (let k = (ci_tenantId i, ci_runId i); r = (ci_tenantId i, ci_runId i, ci_operationId i) in
      case wt_receipts t r of
        Some (fingerprint, state) \<Rightarrow> guarded [rs_throw_if (fingerprint \<noteq> ci_fingerprint i) ''workflow_execution_idempotency_conflict'']
          (Inr (t, CasReplayed, state))
      | None \<Rightarrow> (case wt_executions t k of
          None \<Rightarrow> Inl (RunStoreError ''workflow_execution_not_found'')
        | Some current \<Rightarrow> if ex_revision current \<noteq> ci_expectedRevision i then Inr (t, CasConflict, current)
            else guarded [assertTransition legacy current (ci_next i)]
              (Inr (t\<lparr>wt_executions := (wt_executions t)(k \<mapsto> ci_next i),
                  wt_receipts := (wt_receipts t)(r \<mapsto> (ci_fingerprint i, ci_next i))\<rparr>, CasCommitted, ci_next i))))"

text \<open>What a swap that returns has done.\<close>

lemma cas_cases:
  assumes "compareAndSwapWorkflowExecution legacy composed i t = Inr (t', d, st)"
  obtains "d = CasReplayed" "t' = t" "wt_receipts t (ci_tenantId i, ci_runId i, ci_operationId i) = Some (ci_fingerprint i, st)"
  | "d = CasConflict" "t' = t"
  | current where "d = CasCommitted" "st = ci_next i" "wt_receipts t (ci_tenantId i, ci_runId i, ci_operationId i) = None"
    "wt_executions t (ci_tenantId i, ci_runId i) = Some current" "ex_revision current = ci_expectedRevision i" "execution_ok legacy (ci_next i)"
    "t' = t\<lparr>wt_executions := (wt_executions t)((ci_tenantId i, ci_runId i) \<mapsto> ci_next i),
       wt_receipts := (wt_receipts t)((ci_tenantId i, ci_runId i, ci_operationId i) \<mapsto> (ci_fingerprint i, ci_next i))\<rparr>"
proof -
  have ok: "execution_ok legacy (ci_next i)"
    using assms by (simp add: compareAndSwapWorkflowExecution_def validateCas_def state_value_ok)
  show ?thesis
  proof (cases "wt_receipts t (ci_tenantId i, ci_runId i, ci_operationId i)")
    case (Some x)
    then show ?thesis using assms that(1) by (cases x) (auto simp: compareAndSwapWorkflowExecution_def Let_def)
  next
    case None
    then obtain current where c: "wt_executions t (ci_tenantId i, ci_runId i) = Some current"
      using assms by (auto simp: compareAndSwapWorkflowExecution_def Let_def split: option.splits)
    show ?thesis
    proof (cases "ex_revision current = ci_expectedRevision i")
      case True
      then show ?thesis using assms None c that(3) [OF _ _ None c True ok] by (auto simp: compareAndSwapWorkflowExecution_def Let_def)
    next
      case False
      then show ?thesis using assms None c that(2) by (auto simp: compareAndSwapWorkflowExecution_def Let_def)
    qed
  qed
qed

section \<open>Stored texts\<close>

lemma null_or_text_ok [simp]: "json_ok (null_or_text x)"
  by (simp add: null_or_text_def split: option.split)

lemma small_number_ok: "0 \<le> k \<Longrightarrow> k \<le> max_safe_integer \<Longrightarrow> number_ok (Whole k)"
  by (simp add: number_ok_def is_safe_integer_def max_safe_integer_def)

lemma node_value_json:
  assumes "execution_node_ok legacy n"
  shows "json_ok (execution_node_value n)"
proof -
  have "number_ok (Whole (en_claimEpoch n))" by (rule small_number_ok) (use assms in \<open>simp_all add: execution_node_ok_def\<close>)
  then show ?thesis unfolding execution_node_value_def
    by (intro json_ok_js_object) (auto simp: is_array_index_def is_digit_def js_def)
qed

lemma state_value_json:
  assumes "execution_ok legacy s"
  shows "json_ok (execution_value s)"
proof -
  have "number_ok (Whole (ex_revision s))" by (rule small_number_ok) (use assms in \<open>simp_all add: execution_ok_def\<close>)
  moreover have "json_ok (execution_node_value n)" if "n \<in> set (ex_nodes s)" for n
    by (rule node_value_json) (use assms that in \<open>auto simp: execution_ok_def\<close>)
  ultimately show ?thesis unfolding execution_value_def
    by (intro json_ok_js_object) (auto simp: is_array_index_def is_digit_def js_def)
qed

text \<open>What the store writes it reads back: the text of every state that it accepts decodes to that state.\<close>

theorem stored_state_read:
  assumes "execution_ok legacy s"
  shows "decodeState legacy (JStr (stringify (execution_value s))) = Inr (execution_value s)"
proof -
  have "first_throw [validateExecutionState legacy (execution_value s)] = None" using assms by (simp add: state_value_ok)
  then show ?thesis using parse_stringify [OF state_value_json [OF assms]] by (simp add: decodeState_def)
qed

theorem stored_state_read_witness: "decodeState (\<lambda>_. None) (JStr (stringify (execution_value initial_execution))) = Inr (execution_value initial_execution)"
  by (rule stored_state_read [OF initial_execution_ok])

end
