(* ===== verification/Workflow_Service.thy ===== *)
theory Workflow_Service
  imports Workflow_Store Interleaving
begin

text \<open>
  The service that executes workflows over a store with compare-and-swap, \<open>workflow-execution-service.ts\<close>.  Every call of
  the store is one transaction; between two of them other calls run, so that a call is a machine whose steps end where
  it awaits the store.  Field prefixes \<open>wc\<close> for a call, \<open>sv\<close> for what the dependencies of the service return at one step.
\<close>

section \<open>Calls\<close>

datatype node_outcome = OutcomeCompleted js_string | OutcomeFailed js_string | OutcomeCanceled | OutcomeUnknown

datatype service_request =
    Initialize
  | LoadExecution
  | ClaimReady int
  | SettleNode js_string js_string node_outcome
  | RequestCancel
  | ListUnknownClaims

datatype service_result = ResultState execution_state | ResultClaims "node_claim list" | ResultError js_error

text \<open>
  Where a call is between two transactions: not begun, before a load with so many attempts made, after a load with the state
  that it returned, or at its end.
\<close>

datatype call_phase = NotBegun | Retrying nat | Loaded nat execution_state | Finished service_result

record workflow_call =
  wc_tenantId :: js_string
  wc_runId :: js_string
  wc_binding :: workflow_version_binding
  wc_workflow :: compiled_workflow
  wc_operationId :: js_string
  wc_request :: service_request
  wc_phase :: call_phase

record service_inputs =
  sv_legacy :: "js_string \<Rightarrow> int option"
  sv_composed :: "js_string \<times> js_string \<Rightarrow> bool"
  sv_sha256 :: "js_string \<Rightarrow> js_string"
  sv_now :: js_string
  sv_nextId :: "nat \<Rightarrow> js_string"

definition max_cas_retries :: nat where "max_cas_retries = 8"

definition application_conflict :: "string \<Rightarrow> js_error" where
  "application_conflict code = ApplicationError ''conflict'' code"

definition contains_text :: "string \<Rightarrow> string \<Rightarrow> bool" where
  "contains_text s t \<longleftrightarrow> list_ex (\<lambda>k. take (length s) (drop k t) = s) [0..<length t]"

text \<open>\<open>#storeCall\<close>: what an error of the store becomes.\<close>

definition store_error :: "js_error \<Rightarrow> js_error" where
  "store_error e = (case e of
     ApplicationError c d \<Rightarrow> ApplicationError c d
   | RunStoreError code \<Rightarrow> ApplicationError (if contains_text ''conflict'' code then ''conflict'' else ''internal'') code
   | _ \<Rightarrow> ApplicationError ''internal'' ''workflow_execution_store_failed'')"

definition storeCall :: "'a res \<Rightarrow> 'a res" where
  "storeCall r = (case r of Inl e \<Rightarrow> Inl (store_error e) | Inr x \<Rightarrow> Inr x)"

definition requirePositiveDuration :: "int \<Rightarrow> check" where
  "requirePositiveDuration d = throw_if (\<not> is_safe_integer d \<or> d < 1 \<or> 24 * 60 * 60 * 1000 < d)
     (ApplicationError ''validation'' ''workflow_lease_duration_invalid'')"

definition assertFrozenBinding :: "workflow_version_binding \<Rightarrow> compiled_workflow \<Rightarrow> check" where
  "assertFrozenBinding binding w = throw_if (wv_workflowId binding \<noteq> sw_workflowId (cw_source w)
       \<or> wv_workflowVersionId binding \<noteq> sw_workflowVersionId (cw_source w) \<or> wv_contentDigest binding \<noteq> cw_contentDigest w)
     (application_conflict ''workflow_execution_binding_mismatch'')"

definition assertBinding :: "execution_state \<Rightarrow> workflow_version_binding \<Rightarrow> compiled_workflow \<Rightarrow> check" where
  "assertBinding state binding w = throw_if (ex_workflowId state \<noteq> wv_workflowId binding
       \<or> ex_workflowVersionId state \<noteq> sw_workflowVersionId (cw_source w) \<or> ex_contentDigest state \<noteq> cw_contentDigest w
       \<or> length (ex_nodes state) \<noteq> length (sw_nodes (cw_source w))
       \<or> map en_nodeId (ex_nodes state) \<noteq> take (length (ex_nodes state)) (cw_executionOrder w))
     (application_conflict ''workflow_execution_binding_mismatch'')"

section \<open>Fingerprints\<close>

definition binding_value :: "workflow_version_binding \<Rightarrow> json" where
  "binding_value b = js_object [(''workflowId'', JStr (wv_workflowId b)), (''workflowVersionId'', JStr (wv_workflowVersionId b)),
     (''contentDigest'', JStr (wv_contentDigest b))]"

definition outcome_value :: "node_outcome \<Rightarrow> json" where
  "outcome_value oc = (case oc of
     OutcomeCompleted d \<Rightarrow> js_object [(''status'', JStr (js ''completed'')), (''resultDigest'', JStr d)]
   | OutcomeFailed c \<Rightarrow> js_object [(''status'', JStr (js ''failed'')), (''failureCode'', JStr c)]
   | OutcomeCanceled \<Rightarrow> js_object [(''status'', JStr (js ''canceled''))]
   | OutcomeUnknown \<Rightarrow> js_object [(''status'', JStr (js ''unknown''))])"

definition claimFingerprint :: "workflow_call \<Rightarrow> int \<Rightarrow> int \<Rightarrow> js_string res" where
  "claimFingerprint c leaseDurationMs expectedRevision = canonicalJson (js_object [(''kind'', JStr (js ''workflow.claim.v1'')),
     (''tenantId'', JStr (wc_tenantId c)), (''runId'', JStr (wc_runId c)), (''binding'', binding_value (wc_binding c)),
     (''expectedRevision'', JNum (Whole expectedRevision)), (''leaseDurationMs'', JNum (Whole leaseDurationMs))])"

definition settlementFingerprint :: "workflow_call \<Rightarrow> js_string \<Rightarrow> js_string \<Rightarrow> node_outcome \<Rightarrow> js_string res" where
  "settlementFingerprint c nodeId claimId oc = canonicalJson (js_object [(''kind'', JStr (js ''workflow.settle.v1'')),
     (''tenantId'', JStr (wc_tenantId c)), (''runId'', JStr (wc_runId c)), (''binding'', binding_value (wc_binding c)),
     (''nodeId'', JStr nodeId), (''claimId'', JStr claimId), (''outcome'', outcome_value oc)])"

definition cancelFingerprint :: "workflow_call \<Rightarrow> int \<Rightarrow> js_string res" where
  "cancelFingerprint c expectedRevision = canonicalJson (js_object [(''kind'', JStr (js ''workflow.cancel.v1'')),
     (''tenantId'', JStr (wc_tenantId c)), (''runId'', JStr (wc_runId c)), (''binding'', binding_value (wc_binding c)),
     (''expectedRevision'', JNum (Whole expectedRevision))])"

section \<open>Claims of a state\<close>

definition claimFromState :: "compiled_workflow \<Rightarrow> execution_node \<Rightarrow> node_claim res" where
  "claimFromState w n = (case (find (\<lambda>x. wd_nodeId x = en_nodeId n) (sw_nodes (cw_source w)), en_claimId n, en_inputDigest n) of
     (Some node, Some claimId, Some digest) \<Rightarrow> Inr \<lparr>nc_node = node, nc_claimId = claimId, nc_claimEpoch = en_claimEpoch n,
       nc_gateRequestId = en_gateRequestId n, nc_inputDigest = digest\<rparr>
   | _ \<Rightarrow> Inl (ApplicationError ''internal'' ''workflow_claim_state_corrupt''))"

fun claims_of :: "compiled_workflow \<Rightarrow> execution_node list \<Rightarrow> node_claim list res" where
  "claims_of w [] = Inr []"
| "claims_of w (n # ns) = then_do (claimFromState w n) (\<lambda>c. then_do (claims_of w ns) (\<lambda>cs. Inr (c # cs)))"

definition claimsFromReceipt :: "execution_state \<Rightarrow> compiled_workflow \<Rightarrow> js_string \<Rightarrow> node_claim list res" where
  "claimsFromReceipt state w operationId = claims_of w (filter (\<lambda>n. (en_status n = NodeRunning \<or> en_status n = NodeWaitingHuman)
     \<and> en_claimId n \<noteq> None \<and> en_claimOperationId n = Some operationId) (ex_nodes state))"

section \<open>What a call computes from a loaded state\<close>

definition node_input_text :: "compiled_workflow \<Rightarrow> wf_node \<Rightarrow> execution_node list \<Rightarrow> js_string" where
  "node_input_text w node recovered = stringify (js_object [(''nodeId'', JStr (wd_nodeId node)), (''contentDigest'', JStr (cw_contentDigest w)),
     (''dependencies'', JArr (map (\<lambda>d. js_object [(''nodeId'', JStr d),
        (''resultDigest'', null_or_text (Option.bind (find_node d recovered) en_resultDigest))]) (wd_dependsOn node)))])"

text \<open>\<open>new Date(\<dots>).toISOString()\<close>, which throws beyond the range of a date.\<close>

definition max_time_value :: int where "max_time_value = 8640000000000000"

definition lease_end :: "service_inputs \<Rightarrow> int \<Rightarrow> js_string res" where
  "lease_end v leaseDurationMs = (case date_parse (sv_legacy v) (sv_now v) of
     None \<Rightarrow> Inl (PlainError ''RangeError'')
   | Some t \<Rightarrow> if max_time_value < \<bar>t + leaseDurationMs\<bar> then Inl (PlainError ''RangeError'')
       else Inr (to_iso_string (t + leaseDurationMs)))"

definition claim_input :: "service_inputs \<Rightarrow> workflow_call \<Rightarrow> js_string \<Rightarrow> plan_input" where
  "claim_input v c expiresAt = \<lparr>pi_now = sv_now v, pi_expiresAt = expiresAt, pi_operationId = wc_operationId c,
     pi_maximumClaims = length (sw_nodes (cw_source (wc_workflow c))), pi_lostClaimIds = {}, pi_delegatedClaimIds = {},
     pi_nextId = sv_nextId v, pi_inputDigest = (\<lambda>node recovered. sv_sha256 v (node_input_text (wc_workflow c) node recovered))\<rparr>"

definition isTerminalNode :: "node_status \<Rightarrow> bool" where
  "isTerminalNode st \<longleftrightarrow> st = NodeCompleted \<or> st = NodeFailed \<or> st = NodeCanceled"

definition settlement_status :: "node_outcome \<Rightarrow> node_status" where
  "settlement_status oc = (case oc of OutcomeCompleted _ \<Rightarrow> NodeCompleted | OutcomeFailed _ \<Rightarrow> NodeFailed | OutcomeCanceled \<Rightarrow> NodeCanceled
     | OutcomeUnknown \<Rightarrow> NodeUnknown)"

definition settled_node :: "node_outcome \<Rightarrow> execution_node \<Rightarrow> execution_node" where
  "settled_node oc n = n\<lparr>en_status := settlement_status oc, en_leaseExpiresAt := None,
     en_resultDigest := (case oc of OutcomeCompleted d \<Rightarrow> Some d | _ \<Rightarrow> None),
     en_failureCode := (case oc of OutcomeFailed c \<Rightarrow> Some c | _ \<Rightarrow> None)\<rparr>"

definition settle_state :: "js_string \<Rightarrow> js_string \<Rightarrow> node_outcome \<Rightarrow> js_string \<Rightarrow> execution_state \<Rightarrow> execution_state res" where
  "settle_state nodeId claimId oc now current = (case find_node nodeId (ex_nodes current) of
     None \<Rightarrow> Inl (application_conflict ''workflow_node_claim_stale'')
   | Some target \<Rightarrow> guarded
       [throw_if (en_claimId target \<noteq> Some claimId) (application_conflict ''workflow_node_claim_stale''),
        throw_if (isTerminalNode (en_status target)) (application_conflict ''workflow_node_terminal_settlement_conflict''),
        throw_if (en_status target \<noteq> (if en_status target = NodeWaitingHuman then NodeWaitingHuman else NodeRunning)
          \<and> en_status target \<noteq> NodeUnknown) (application_conflict ''workflow_node_not_settleable'')]
       (Inr (projectWorkflowExecution current (map (\<lambda>n. if en_nodeId n = nodeId then settled_node oc n else n) (ex_nodes current)) now)))"

definition canceled_node :: "execution_node \<Rightarrow> execution_node" where
  "canceled_node n = (if en_status n = NodePending \<or> en_status n = NodeWaitingHuman
     then n\<lparr>en_status := NodeCanceled, en_leaseExpiresAt := None\<rparr> else n)"

definition cancel_state :: "js_string \<Rightarrow> execution_state \<Rightarrow> execution_state" where
  "cancel_state now current = (let nodes = map canceled_node (ex_nodes current) in
     (projectWorkflowExecution current nodes now)\<lparr>ex_cancelRequested := True,
       ex_status := (if list_ex (\<lambda>n. en_status n = NodeRunning \<or> en_status n = NodeUnknown) nodes then ExecRunning else ExecCanceled)\<rparr>)"

text \<open>What a call does with the state it has loaded: it ends, or asks the store to swap.\<close>

datatype attempt = AttemptEnds service_result | AttemptSwaps execution_state js_string "node_claim list option"

definition claim_attempt :: "service_inputs \<Rightarrow> workflow_call \<Rightarrow> int \<Rightarrow> execution_state \<Rightarrow> attempt" where
  "claim_attempt v c leaseDurationMs current = (if ex_cancelRequested current \<or> ex_status current \<noteq> ExecRunning then AttemptEnds (ResultClaims [])
     else case lease_end v leaseDurationMs of
       Inl e \<Rightarrow> AttemptEnds (ResultError e)
     | Inr expiresAt \<Rightarrow> (let (new, claims) = planWorkflowNodeClaims (sv_legacy v) (claim_input v c expiresAt) (wc_workflow c) current in
         if new = current then AttemptEnds (ResultClaims [])
         else case claimFingerprint c leaseDurationMs (ex_revision current) of
           Inl e \<Rightarrow> AttemptEnds (ResultError e) | Inr fingerprint \<Rightarrow> AttemptSwaps new fingerprint (Some claims)))"

definition settle_attempt :: "service_inputs \<Rightarrow> workflow_call \<Rightarrow> js_string \<Rightarrow> js_string \<Rightarrow> node_outcome \<Rightarrow> execution_state \<Rightarrow> attempt" where
  "settle_attempt v c nodeId claimId oc current = (case settlementFingerprint c nodeId claimId oc of
       Inl e \<Rightarrow> AttemptEnds (ResultError e)
     | Inr fingerprint \<Rightarrow> (case settle_state nodeId claimId oc (sv_now v) current of
         Inl e \<Rightarrow> AttemptEnds (ResultError e) | Inr new \<Rightarrow> AttemptSwaps new fingerprint None))"

definition cancel_attempt :: "service_inputs \<Rightarrow> workflow_call \<Rightarrow> execution_state \<Rightarrow> attempt" where
  "cancel_attempt v c current = (if ex_cancelRequested current \<and> ex_status current = ExecCanceled then AttemptEnds (ResultState current)
     else case cancelFingerprint c (ex_revision current) of
       Inl e \<Rightarrow> AttemptEnds (ResultError e)
     | Inr fingerprint \<Rightarrow> AttemptSwaps (cancel_state (sv_now v) current) fingerprint None)"

definition request_attempt :: "service_inputs \<Rightarrow> workflow_call \<Rightarrow> execution_state \<Rightarrow> attempt" where
  "request_attempt v c current = (case wc_request c of
     ClaimReady d \<Rightarrow> claim_attempt v c d current
   | SettleNode nodeId claimId oc \<Rightarrow> settle_attempt v c nodeId claimId oc current
   | RequestCancel \<Rightarrow> cancel_attempt v c current
   | ListUnknownClaims \<Rightarrow> AttemptEnds (case claims_of (wc_workflow c) (filter (\<lambda>n. en_status n = NodeUnknown) (ex_nodes current)) of
       Inl e \<Rightarrow> ResultError e | Inr cs \<Rightarrow> ResultClaims cs)
   | _ \<Rightarrow> AttemptEnds (ResultState current))"

section \<open>The steps of a call\<close>

definition ends :: "service_result \<Rightarrow> workflow_tables \<times> workflow_call \<Rightarrow> workflow_tables \<times> workflow_call" where
  "ends r = (\<lambda>(t, c). (t, c\<lparr>wc_phase := Finished r\<rparr>))"

text \<open>\<open>initialize\<close>\<close>

definition initialize_step :: "service_inputs \<Rightarrow> workflow_tables \<times> workflow_call \<Rightarrow> workflow_tables \<times> workflow_call" where
  "initialize_step v = (\<lambda>(t, c). case assertFrozenBinding (wc_binding c) (wc_workflow c) of
     Some e \<Rightarrow> ends (ResultError e) (t, c)
   | None \<Rightarrow> (case storeCall (createWorkflowExecution (sv_legacy v) (sv_composed v)
         (initialWorkflowExecution (wc_tenantId c) (wc_runId c) (wc_workflow c) (sv_now v)) t) of
       Inl e \<Rightarrow> ends (ResultError e) (t, c)
     | Inr (t', state) \<Rightarrow> ends (case assertBinding state (wc_binding c) (wc_workflow c) of
           Some e \<Rightarrow> ResultError e | None \<Rightarrow> ResultState state) (t', c)))"

text \<open>The replay of a receipt, with the fingerprint that the call expects of it.\<close>

definition replayed_result :: "workflow_call \<Rightarrow> js_string \<times> execution_state \<Rightarrow> js_string res \<Rightarrow> service_result" where
  "replayed_result c receipt expected = (case expected of
     Inl e \<Rightarrow> ResultError e
   | Inr fingerprint \<Rightarrow> (case first_throw
         [throw_if (fst receipt \<noteq> fingerprint) (application_conflict ''workflow_execution_idempotency_conflict''),
          assertBinding (snd receipt) (wc_binding c) (wc_workflow c)] of
       Some e \<Rightarrow> ResultError e
     | None \<Rightarrow> (case wc_request c of
         ClaimReady _ \<Rightarrow> (case claimsFromReceipt (snd receipt) (wc_workflow c) (wc_operationId c) of
           Inl e \<Rightarrow> ResultError e | Inr cs \<Rightarrow> ResultClaims cs)
       | _ \<Rightarrow> ResultState (snd receipt))))"

definition expected_fingerprint :: "workflow_call \<Rightarrow> execution_state \<Rightarrow> js_string res" where
  "expected_fingerprint c state = (case wc_request c of
     ClaimReady d \<Rightarrow> claimFingerprint c d (ex_revision state - 1)
   | SettleNode nodeId claimId oc \<Rightarrow> settlementFingerprint c nodeId claimId oc
   | _ \<Rightarrow> cancelFingerprint c (ex_revision state - 1))"

text \<open>What is checked before the first transaction.\<close>

definition call_checks :: "workflow_call \<Rightarrow> check" where
  "call_checks c = (case wc_request c of
     ClaimReady d \<Rightarrow> requirePositiveDuration d
   | SettleNode nodeId claimId oc \<Rightarrow> checked (settlementFingerprint c nodeId claimId oc)
   | _ \<Rightarrow> None)"

definition replay_step :: "workflow_tables \<times> workflow_call \<Rightarrow> workflow_tables \<times> workflow_call" where
  "replay_step = (\<lambda>(t, c). case call_checks c of
     Some e \<Rightarrow> ends (ResultError e) (t, c)
   | None \<Rightarrow> (case storeCall (loadWorkflowExecutionReceipt (wc_tenantId c) (wc_runId c) (wc_operationId c) t) of
       Inl e \<Rightarrow> ends (ResultError e) (t, c)
     | Inr (Some receipt) \<Rightarrow> ends (replayed_result c receipt (expected_fingerprint c (snd receipt))) (t, c)
     | Inr None \<Rightarrow> (t, c\<lparr>wc_phase := Retrying 0\<rparr>)))"

text \<open>\<open>#load\<close>, at the beginning of an attempt.\<close>

definition load_step :: "nat \<Rightarrow> workflow_tables \<times> workflow_call \<Rightarrow> workflow_tables \<times> workflow_call" where
  "load_step k = (\<lambda>(t, c). if max_cas_retries \<le> k then ends (ResultError (application_conflict ''workflow_execution_cas_exhausted'')) (t, c)
     else case storeCall (loadWorkflowExecution (wc_tenantId c) (wc_runId c) t) of
       Inl e \<Rightarrow> ends (ResultError e) (t, c)
     | Inr None \<Rightarrow> ends (ResultError (ApplicationError ''notFound'' ''workflow_execution_not_found'')) (t, c)
     | Inr (Some state) \<Rightarrow> (case assertBinding state (wc_binding c) (wc_workflow c) of
         Some e \<Rightarrow> ends (ResultError e) (t, c)
       | None \<Rightarrow> (t, c\<lparr>wc_phase := Loaded k state\<rparr>)))"

definition swap_step :: "service_inputs \<Rightarrow> nat \<Rightarrow> execution_state \<Rightarrow> workflow_tables \<times> workflow_call \<Rightarrow> workflow_tables \<times> workflow_call" where
  "swap_step v k current = (\<lambda>(t, c). case request_attempt v c current of
     AttemptEnds r \<Rightarrow> ends r (t, c)
   | AttemptSwaps new fingerprint claims \<Rightarrow>
       (case storeCall (compareAndSwapWorkflowExecution (sv_legacy v) (sv_composed v) \<lparr>ci_tenantId = wc_tenantId c, ci_runId = wc_runId c,
           ci_expectedRevision = ex_revision current, ci_next = new, ci_operationId = wc_operationId c, ci_fingerprint = fingerprint\<rparr> t) of
         Inl e \<Rightarrow> ends (ResultError e) (t, c)
       | Inr (t', disposition, state) \<Rightarrow> if disposition = CasConflict then (t', c\<lparr>wc_phase := Retrying (k + 1)\<rparr>)
           else ends (case claims of Some cs \<Rightarrow> ResultClaims cs | None \<Rightarrow> ResultState state) (t', c)))"

definition service_step :: "service_inputs \<Rightarrow> workflow_tables \<times> workflow_call \<Rightarrow> workflow_tables \<times> workflow_call" where
  "service_step v tc = (case wc_phase (snd tc) of
     NotBegun \<Rightarrow> (case wc_request (snd tc) of
         Initialize \<Rightarrow> initialize_step v tc
       | LoadExecution \<Rightarrow> load_step 0 tc
       | ListUnknownClaims \<Rightarrow> load_step 0 tc
       | _ \<Rightarrow> replay_step tc)
   | Retrying k \<Rightarrow> load_step k tc
   | Loaded k current \<Rightarrow> swap_step v k current tc
   | Finished _ \<Rightarrow> tc)"

section \<open>What a swap does to the nodes\<close>

lemma node_advance_refl [simp]: "node_advance n n"
  by (cases "en_claimId n") (simp_all add: node_advance_def same_node_identity_def validNodeTransition_def)

lemma settled_advance: "en_claimId n \<noteq> None \<Longrightarrow> en_status n \<in> {NodeRunning, NodeWaitingHuman, NodeUnknown} \<Longrightarrow> node_advance n (settled_node oc n)"
  by (auto simp: node_advance_def same_node_identity_def validNodeTransition_def settled_node_def settlement_status_def split: node_outcome.split)

lemma canceled_advance: "node_advance n (canceled_node n)"
  by (auto simp: node_advance_def same_node_identity_def validNodeTransition_def canceled_node_def)

lemma settlement_Inr:
  assumes "settle_state nodeId claimId oc now s = Inr new" and "distinct (map en_nodeId (ex_nodes s))"
  shows "new = projectWorkflowExecution s (map (\<lambda>n. if en_nodeId n = nodeId then settled_node oc n else n) (ex_nodes s)) now"
    "\<exists>n\<in>set (ex_nodes s). en_nodeId n = nodeId \<and> en_claimId n = Some claimId \<and> en_status n \<in> {NodeRunning, NodeWaitingHuman, NodeUnknown}"
proof -
  obtain n where n: "find_node nodeId (ex_nodes s) = Some n" using assms(1) by (auto simp: settle_state_def split: option.splits)
  then have i: "n \<in> set (ex_nodes s)" "en_nodeId n = nodeId" by (auto simp: find_node_def find_Some_iff)
  show "new = projectWorkflowExecution s (map (\<lambda>n. if en_nodeId n = nodeId then settled_node oc n else n) (ex_nodes s)) now"
    using assms(1) n by (simp add: settle_state_def)
  have "en_claimId n = Some claimId" "en_status n \<in> {NodeRunning, NodeWaitingHuman, NodeUnknown}"
    using assms(1) n by (auto simp: settle_state_def isTerminalNode_def split: if_splits)
  with i show "\<exists>n\<in>set (ex_nodes s). en_nodeId n = nodeId \<and> en_claimId n = Some claimId \<and> en_status n \<in> {NodeRunning, NodeWaitingHuman, NodeUnknown}"
    by blast
qed

lemma map_advance: "(\<And>n. n \<in> set nodes \<Longrightarrow> node_advance n (f n)) \<Longrightarrow> list_all2 node_advance nodes (map f nodes)"
  by (simp add: list_all2_conv_all_nth)

lemma nodes_inv_map:
  assumes "nodes_inv w nodes" and "\<And>n. n \<in> set nodes \<Longrightarrow> node_advance n (f n)"
    and "\<And>n. n \<in> set nodes \<Longrightarrow> en_claimId n = None \<Longrightarrow> en_status n \<in> {NodePending, NodeCanceled} \<Longrightarrow> en_claimEpoch n = 0 \<Longrightarrow>
      en_claimId (f n) = None \<and> en_claimEpoch (f n) = 0 \<and> en_status (f n) \<in> {NodePending, NodeCanceled}"
  shows "nodes_inv w (map f nodes)"
proof (rule nodes_inv_advance [OF assms(1) map_advance])
  fix n m assume "(n, m) \<in> set (zip nodes (map f nodes))" "en_claimId n = None"
  then have m: "m = f n" "n \<in> set nodes" by (auto simp: in_set_zip)
  moreover have "en_status n \<in> {NodePending, NodeCanceled}" "en_claimEpoch n = 0"
    using assms(1) m(2) \<open>en_claimId n = None\<close> unfolding nodes_inv_def by blast+
  ultimately show "if en_claimId m = None then en_claimEpoch m = 0 \<and> en_status m \<in> {NodePending, NodeCanceled}
       else en_status n = NodePending \<and> en_status m \<noteq> NodePending \<and> (\<forall>d\<in>set (depends_of w (en_nodeId n)). completed_in nodes d)"
    using assms(3) \<open>en_claimId n = None\<close> by simp
qed (rule assms(2))

text \<open>The next state of an attempt, as one relation: a plan, a settlement or a cancellation of exactly the loaded state.\<close>

inductive execution_op :: "(js_string \<Rightarrow> int option) \<Rightarrow> compiled_workflow \<Rightarrow> execution_state \<Rightarrow> execution_state \<Rightarrow> bool"
  for legacy and w and s where
  claims: "planWorkflowNodeClaims legacy p w s = (new, claims) \<Longrightarrow> new \<noteq> s \<Longrightarrow> execution_op legacy w s new"
| settles: "settle_state nodeId claimId oc now s = Inr new \<Longrightarrow> execution_op legacy w s new"
| cancels: "execution_op legacy w s (cancel_state now s)"

lemma attempt_op: "request_attempt v c s = AttemptSwaps new fingerprint cs \<Longrightarrow> execution_op (sv_legacy v) (wc_workflow c) s new"
  unfolding request_attempt_def
  by (cases "wc_request c") (auto simp: claim_attempt_def settle_attempt_def cancel_attempt_def
      intro: execution_op.intros split: if_splits sum.splits prod.splits)

definition same_fields :: "execution_state \<Rightarrow> execution_state \<Rightarrow> bool" where
  "same_fields s new \<longleftrightarrow> ex_tenantId new = ex_tenantId s \<and> ex_runId new = ex_runId s \<and> ex_workflowId new = ex_workflowId s
     \<and> ex_workflowVersionId new = ex_workflowVersionId s \<and> ex_contentDigest new = ex_contentDigest s"

lemma op_advances:
  assumes "execution_op legacy w s new" and w: "workflow_compiled w" and inv: "nodes_inv w (ex_nodes s)"
  shows "list_all2 node_advance (ex_nodes s) (ex_nodes new) \<and> nodes_inv w (ex_nodes new) \<and> ex_revision new = ex_revision s + 1
    \<and> same_fields s new \<and> (ex_cancelRequested s \<longrightarrow> ex_cancelRequested new)"
  using assms(1)
proof cases
  case (claims p claims)
  from plan_cases [OF claims(1) w inv] claims(2) obtain nodes where n: "new = projectWorkflowExecution s nodes (pi_now p)"
      "list_all2 node_advance (ex_nodes s) nodes" "nodes_inv w nodes" by blast
  then show ?thesis by (simp add: projectWorkflowExecution_def same_fields_def)
next
  case (settles nodeId claimId oc now)
  have d: "distinct (map en_nodeId (ex_nodes s))" by (rule inv_distinct [OF w inv])
  let ?f = "\<lambda>n. if en_nodeId n = nodeId then settled_node oc n else n"
  from settlement_Inr(2) [OF settles d] obtain x where x: "x \<in> set (ex_nodes s)" "en_nodeId x = nodeId" "en_claimId x = Some claimId"
      "en_status x \<in> {NodeRunning, NodeWaitingHuman, NodeUnknown}" by blast
  have u: "n = x" if "n \<in> set (ex_nodes s)" "en_nodeId n = nodeId" for n using that x(1,2) d by (metis distinct_map inj_onD)
  have "node_advance x (settled_node oc x)" by (rule settled_advance) (use x in simp_all)
  then have a: "node_advance n (?f n)" if "n \<in> set (ex_nodes s)" for n
    using u [OF that] by (cases "en_nodeId n = nodeId") simp_all
  have "nodes_inv w (map ?f (ex_nodes s))"
  proof (rule nodes_inv_map [OF inv a])
    fix n assume n: "n \<in> set (ex_nodes s)" "en_claimId n = None" "en_status n \<in> {NodePending, NodeCanceled}" "en_claimEpoch n = 0"
    then have "en_nodeId n \<noteq> nodeId" using u x(3) by force
    with n show "en_claimId (?f n) = None \<and> en_claimEpoch (?f n) = 0 \<and> en_status (?f n) \<in> {NodePending, NodeCanceled}" by simp
  qed
  moreover have "list_all2 node_advance (ex_nodes s) (map ?f (ex_nodes s))" by (rule map_advance) (rule a)
  ultimately show ?thesis unfolding settlement_Inr(1) [OF settles d] by (simp add: projectWorkflowExecution_def same_fields_def)
next
  case (cancels now)
  have "nodes_inv w (map canceled_node (ex_nodes s))"
    by (rule nodes_inv_map [OF inv canceled_advance]) (auto simp: canceled_node_def)
  moreover have "list_all2 node_advance (ex_nodes s) (map canceled_node (ex_nodes s))" by (rule map_advance) (rule canceled_advance)
  ultimately show ?thesis unfolding cancels
    by (simp add: cancel_state_def projectWorkflowExecution_def Let_def same_fields_def)
qed

section \<open>What stays true while calls interleave\<close>

definition node_later :: "execution_node \<Rightarrow> execution_node \<Rightarrow> bool" where
  "node_later n m \<longleftrightarrow> same_node_identity n m \<and> (ended_node n \<longrightarrow> m = n)
     \<and> (en_claimId n \<noteq> None \<longrightarrow> en_claimId m = en_claimId n \<and> en_claimOperationId m = en_claimOperationId n
         \<and> en_claimEpoch m = en_claimEpoch n \<and> en_gateRequestId m = en_gateRequestId n \<and> en_inputDigest m = en_inputDigest n)"

definition execution_later :: "execution_state \<Rightarrow> execution_state \<Rightarrow> bool" where
  "execution_later s u \<longleftrightarrow> same_fields s u \<and> ex_revision s \<le> ex_revision u \<and> (ex_revision s = ex_revision u \<longrightarrow> u = s)
     \<and> list_all2 node_later (ex_nodes s) (ex_nodes u) \<and> (ex_cancelRequested s \<longrightarrow> ex_cancelRequested u)"

lemma node_later_refl [simp]: "node_later n n"
  by (simp add: node_later_def same_node_identity_def)

lemma node_later_trans: "node_later a b \<Longrightarrow> node_later b c \<Longrightarrow> node_later a c"
  unfolding node_later_def same_node_identity_def by metis

lemma advance_later: "node_advance n m \<Longrightarrow> node_later n m"
  using advance_ended [of n m] by (auto simp: node_later_def node_advance_def)

lemma execution_later_refl [simp]: "execution_later s s"
  by (simp add: execution_later_def same_fields_def list_all2_refl)

lemma execution_later_trans:
  assumes "execution_later a b" and "execution_later b c"
  shows "execution_later a c"
proof -
  have n: "list_all2 node_later (ex_nodes a) (ex_nodes b)" "list_all2 node_later (ex_nodes b) (ex_nodes c)"
    using assms by (simp_all add: execution_later_def)
  have "list_all2 node_later (ex_nodes a) (ex_nodes c)"
    using list_all2_trans [of node_later node_later node_later, OF _ n] node_later_trans by blast
  moreover have "c = a" if "ex_revision a = ex_revision c"
  proof -
    have "ex_revision a \<le> ex_revision b" "ex_revision b \<le> ex_revision c" using assms by (simp_all add: execution_later_def)
    with that have "ex_revision a = ex_revision b" "ex_revision b = ex_revision c" by simp_all
    then show "c = a" using assms by (simp add: execution_later_def)
  qed
  ultimately show ?thesis using assms unfolding execution_later_def same_fields_def by simp
qed

text \<open>The workflows that calls may name: the digest of a version determines it.\<close>

type_synonym workflow_catalog = "js_string \<Rightarrow> compiled_workflow option"

definition catalog_ok :: "workflow_catalog \<Rightarrow> bool" where
  "catalog_ok cat \<longleftrightarrow> (\<forall>d w. cat d = Some w \<longrightarrow> cw_contentDigest w = d \<and> workflow_compiled w)"

definition state_inv :: "(js_string \<Rightarrow> int option) \<Rightarrow> workflow_catalog \<Rightarrow> execution_state \<Rightarrow> bool" where
  "state_inv legacy cat s \<longleftrightarrow> execution_ok legacy s \<and> (\<exists>w. cat (ex_contentDigest s) = Some w \<and> nodes_inv w (ex_nodes s))"

definition tables_good :: "(js_string \<Rightarrow> int option) \<Rightarrow> workflow_catalog \<Rightarrow> workflow_tables \<Rightarrow> bool" where
  "tables_good legacy cat t \<longleftrightarrow> (\<forall>i r s. wt_executions t (i, r) = Some s \<longrightarrow> ex_tenantId s = i \<and> ex_runId s = r \<and> state_inv legacy cat s)
     \<and> (\<forall>i r p f s. wt_receipts t (i, r, p) = Some (f, s) \<longrightarrow> state_inv legacy cat s
         \<and> (\<exists>u. wt_executions t (i, r) = Some u \<and> execution_later s u))"

definition tables_later :: "workflow_tables \<Rightarrow> workflow_tables \<Rightarrow> bool" where
  "tables_later t t' \<longleftrightarrow> (\<forall>k s. wt_executions t k = Some s \<longrightarrow> (\<exists>u. wt_executions t' k = Some u \<and> execution_later s u))
     \<and> wt_receipts t \<subseteq>\<^sub>m wt_receipts t'"

lemma tables_later_refl [simp]: "tables_later t t"
  by (auto simp: tables_later_def)

lemma tables_later_trans: "tables_later a b \<Longrightarrow> tables_later b c \<Longrightarrow> tables_later a c"
  unfolding tables_later_def by (meson execution_later_trans map_le_trans)

text \<open>What a call knows of the store: the state it has loaded was there, and what it has settled is recorded under its operation.\<close>

definition settlement_recorded :: "workflow_tables \<Rightarrow> workflow_call \<Rightarrow> execution_state \<Rightarrow> bool" where
  "settlement_recorded t c st \<longleftrightarrow> (case wc_request c of
     SettleNode nodeId claimId oc \<Rightarrow> (\<exists>f. settlementFingerprint c nodeId claimId oc = Inr f
       \<and> wt_receipts t (wc_tenantId c, wc_runId c, wc_operationId c) = Some (f, st))
   | _ \<Rightarrow> True)"

definition call_knows :: "(js_string \<Rightarrow> int option) \<Rightarrow> workflow_catalog \<Rightarrow> workflow_tables \<Rightarrow> workflow_call \<Rightarrow> bool" where
  "call_knows legacy cat t c \<longleftrightarrow> cat (cw_contentDigest (wc_workflow c)) = Some (wc_workflow c)
     \<and> (case wc_phase c of
          Loaded k s \<Rightarrow> state_inv legacy cat s \<and> ex_contentDigest s = cw_contentDigest (wc_workflow c) \<and> ex_tenantId s = wc_tenantId c \<and> ex_runId s = wc_runId c
            \<and> (\<exists>u. wt_executions t (wc_tenantId c, wc_runId c) = Some u \<and> execution_later s u)
        | Finished (ResultState st) \<Rightarrow> settlement_recorded t c st
        | _ \<Rightarrow> True)"

definition service_moves :: "(js_string \<Rightarrow> int option) \<Rightarrow> workflow_tables \<times> workflow_call \<Rightarrow> workflow_tables \<times> workflow_call \<Rightarrow> bool" where
  "service_moves legacy tc tc' \<longleftrightarrow> (\<exists>v. sv_legacy v = legacy \<and> tc' = service_step v tc)"

definition service_fresh :: "workflow_catalog \<Rightarrow> workflow_tables \<Rightarrow> workflow_tables \<times> workflow_call \<Rightarrow> bool" where
  "service_fresh cat t = (\<lambda>(t', c). t' = t \<and> wc_phase c = NotBegun \<and> cat (cw_contentDigest (wc_workflow c)) = Some (wc_workflow c))"

text \<open>A step that keeps what is true.\<close>

definition good_step :: "(js_string \<Rightarrow> int option) \<Rightarrow> workflow_catalog \<Rightarrow> workflow_tables \<Rightarrow> workflow_tables \<times> workflow_call \<Rightarrow> bool" where
  "good_step legacy cat t = (\<lambda>(t', c'). tables_good legacy cat t' \<and> call_knows legacy cat t' c' \<and> tables_later t t')"

lemma ends_good:
  assumes "tables_good legacy cat t'" and "tables_later t t'" and "cat (cw_contentDigest (wc_workflow c)) = Some (wc_workflow c)"
    and "\<And>st. r = ResultState st \<Longrightarrow> settlement_recorded t' c st"
  shows "good_step legacy cat t (ends r (t', c))"
  using assms by (cases r) (auto simp: good_step_def ends_def call_knows_def settlement_recorded_def settlementFingerprint_def split: service_request.splits)

lemma ends_other:
  assumes "tables_good legacy cat t'" and "tables_later t t'" and "cat (cw_contentDigest (wc_workflow c)) = Some (wc_workflow c)"
    and "\<forall>a b oc. wc_request c \<noteq> SettleNode a b oc"
  shows "good_step legacy cat t (ends r (t', c))"
  by (rule ends_good) (use assms in \<open>auto simp: settlement_recorded_def split: service_request.split\<close>)

lemma ends_error:
  assumes "tables_good legacy cat t'" and "tables_later t t'" and "cat (cw_contentDigest (wc_workflow c)) = Some (wc_workflow c)"
  shows "good_step legacy cat t (ends (ResultError e) (t', c))" "good_step legacy cat t (ends (ResultClaims cs) (t', c))"
  by (rule ends_good; use assms in simp)+

lemma create_good:
  assumes g: "tables_good legacy cat t" and c: "cat (cw_contentDigest w) = Some w" "catalog_ok cat"
    and r: "createWorkflowExecution legacy composed (initialWorkflowExecution i r w now) t = Inr (t', st)"
  shows "tables_good legacy cat t'" "tables_later t t'"
proof -
  let ?s = "initialWorkflowExecution i r w now"
  have k: "ex_tenantId ?s = i" "ex_runId ?s = r" "ex_contentDigest ?s = cw_contentDigest w" by (simp_all add: initialWorkflowExecution_def)
  have ok: "execution_ok legacy ?s" using r by (simp add: createWorkflowExecution_def state_value_ok)
  have t: "t' = (if wt_executions t (i, r) = None then t\<lparr>wt_executions := (wt_executions t)((i, r) \<mapsto> ?s)\<rparr> else t)"
    using r by (auto simp: createWorkflowExecution_def Let_def k)
  have "workflow_compiled w" using c unfolding catalog_ok_def by blast
  then have "state_inv legacy cat ?s" using ok initial_nodes_inv [of w] c(1) by (simp add: state_inv_def k)
  moreover have "wt_receipts t (i, r, p) = None" if "wt_executions t (i, r) = None" for p
    using g that unfolding tables_good_def by (metis not_None_eq option.distinct(1) surj_pair)
  ultimately show "tables_good legacy cat t'" using g by (auto simp: t tables_good_def k)
  show "tables_later t t'" by (auto simp: t tables_later_def)
qed

lemma initialize_good:
  assumes g: "tables_good (sv_legacy v) cat t" and c: "cat (cw_contentDigest (wc_workflow c)) = Some (wc_workflow c)" "catalog_ok cat"
    and r: "wc_request c = Initialize"
  shows "good_step (sv_legacy v) cat t (initialize_step v (t, c))"
proof (cases "assertFrozenBinding (wc_binding c) (wc_workflow c)")
  case (Some e)
  then show ?thesis using ends_error(1) [OF g tables_later_refl c(1)] by (simp add: initialize_step_def)
next
  case None
  let ?r = "createWorkflowExecution (sv_legacy v) (sv_composed v) (initialWorkflowExecution (wc_tenantId c) (wc_runId c) (wc_workflow c) (sv_now v)) t"
  show ?thesis
  proof (cases ?r)
    case (Inl e)
    then show ?thesis using None ends_error(1) [OF g tables_later_refl c(1)] by (simp add: initialize_step_def storeCall_def)
  next
    case (Inr x)
    then obtain t' st where x: "?r = Inr (t', st)" by (cases x) auto
    note n = create_good [OF g c(1,2) x]
    have "\<forall>a b oc. wc_request c \<noteq> SettleNode a b oc" using r by simp
    from ends_other [OF n c(1) this] show ?thesis using None x by (simp add: initialize_step_def storeCall_def)
  qed
qed

lemma receipt_good:
  assumes g: "tables_good legacy cat t" and c: "cat (cw_contentDigest (wc_workflow c)) = Some (wc_workflow c)"
  shows "good_step legacy cat t (replay_step (t, c))"
proof -
  note e = ends_error [OF g tables_later_refl c]
  have retry: "good_step legacy cat t (t, c\<lparr>wc_phase := Retrying 0\<rparr>)" using g c by (simp add: good_step_def call_knows_def)
  have replay: "good_step legacy cat t (ends (replayed_result c x (expected_fingerprint c (snd x))) (t, c))"
    if x: "wt_receipts t (wc_tenantId c, wc_runId c, wc_operationId c) = Some x" for x
  proof (rule ends_good [OF g tables_later_refl c])
    fix st assume "replayed_result c x (expected_fingerprint c (snd x)) = ResultState st"
    then show "settlement_recorded t c st" using x
      by (cases x) (auto simp: replayed_result_def settlement_recorded_def expected_fingerprint_def split: sum.splits option.splits service_request.splits)
  qed
  show ?thesis
    using e retry replay
    by (auto simp: replay_step_def storeCall_def loadWorkflowExecutionReceipt_def guarded_def split: option.split)
qed

lemma load_good:
  assumes g: "tables_good legacy cat t" and c: "cat (cw_contentDigest (wc_workflow c)) = Some (wc_workflow c)"
  shows "good_step legacy cat t (load_step k (t, c))"
proof -
  note e = ends_error [OF g tables_later_refl c]
  have l: "good_step legacy cat t (t, c\<lparr>wc_phase := Loaded k s\<rparr>)"
    if "wt_executions t (wc_tenantId c, wc_runId c) = Some s" "assertBinding s (wc_binding c) (wc_workflow c) = None" for s
    using that g c unfolding good_step_def call_knows_def tables_good_def by (auto simp: assertBinding_def)
  show ?thesis using e l by (auto simp: load_step_def storeCall_def loadWorkflowExecution_def guarded_def split: option.split)
qed

lemma settle_attempt_swaps: "request_attempt v c s = AttemptSwaps new f cs \<Longrightarrow> wc_request c = SettleNode a b oc \<Longrightarrow>
    settlementFingerprint c a b oc = Inr f \<and> cs = None"
  by (auto simp: request_attempt_def settle_attempt_def split: sum.splits)

lemma settle_attempt_ends: "request_attempt v c s = AttemptEnds (ResultState st) \<Longrightarrow> wc_request c \<noteq> SettleNode a b oc"
  by (auto simp: request_attempt_def settle_attempt_def split: sum.splits)

lemma committed_good:
  assumes g: "tables_good legacy cat t" and cur: "wt_executions t (i, r) = Some s" and inv: "state_inv legacy cat s"
    and later: "execution_later s new" and new: "state_inv legacy cat new"
    and t': "t' = t\<lparr>wt_executions := (wt_executions t)((i, r) \<mapsto> new), wt_receipts := (wt_receipts t)((i, r, p) \<mapsto> (f, new))\<rparr>"
    and none: "wt_receipts t (i, r, p) = None"
  shows "tables_good legacy cat t'" "tables_later t t'"
proof -
  have gs: "ex_tenantId s = i" "ex_runId s = r" using g cur by (auto simp: tables_good_def)
  then have gn: "ex_tenantId new = i" "ex_runId new = r" using later by (simp_all add: execution_later_def same_fields_def)
  have old: "execution_later u new" if "wt_receipts t (i, r, p') = Some (f', u)" for p' f' u
  proof -
    from g that have "\<exists>x. wt_executions t (i, r) = Some x \<and> execution_later u x" unfolding tables_good_def by blast
    then have "execution_later u s" using cur by simp
    then show ?thesis using later execution_later_trans by blast
  qed
  show "tables_good legacy cat t'"
    unfolding tables_good_def
  proof (intro conjI allI impI)
    fix i' r' x assume "wt_executions t' (i', r') = Some x"
    then show "ex_tenantId x = i'" "ex_runId x = r'" "state_inv legacy cat x"
      using g new gn by (auto simp: t' tables_good_def split: if_splits)
  next
    fix i' r' p' f' u assume u: "wt_receipts t' (i', r', p') = Some (f', u)"
    then show "state_inv legacy cat u" using g new by (auto simp: t' tables_good_def split: if_splits)
    show "\<exists>x. wt_executions t' (i', r') = Some x \<and> execution_later u x"
    proof (cases "(i', r') = (i, r)")
      case True
      then show ?thesis using u old by (auto simp: t' split: if_splits)
    next
      case False
      then have "wt_receipts t (i', r', p') = Some (f', u)" using u by (auto simp: t' split: if_splits)
      then show ?thesis using g False by (auto simp: t' tables_good_def)
    qed
  qed
  show "tables_later t t'" using cur later none by (auto simp: tables_later_def t' map_le_def dom_def)
qed

lemma swap_good:
  assumes g: "tables_good (sv_legacy v) cat t" and k: "call_knows (sv_legacy v) cat t c" and cat: "catalog_ok cat"
    and p: "wc_phase c = Loaded n s"
  shows "good_step (sv_legacy v) cat t (swap_step v n s (t, c))"
proof -
  have c: "cat (cw_contentDigest (wc_workflow c)) = Some (wc_workflow c)" and inv: "state_inv (sv_legacy v) cat s"
    and d: "ex_contentDigest s = cw_contentDigest (wc_workflow c)"
    using k p by (auto simp: call_knows_def)
  obtain u where u: "wt_executions t (wc_tenantId c, wc_runId c) = Some u" "execution_later s u" using k p by (auto simp: call_knows_def)
  note e = ends_error [OF g tables_later_refl c]
  have w: "workflow_compiled (wc_workflow c)" using c cat unfolding catalog_ok_def by blast
  have ni: "nodes_inv (wc_workflow c) (ex_nodes s)" using inv d c by (simp add: state_inv_def)
  show ?thesis
  proof (cases "request_attempt v c s")
    case (AttemptEnds r)
    have "good_step (sv_legacy v) cat t (ends r (t, c))"
      by (rule ends_good [OF g tables_later_refl c])
        (use AttemptEnds settle_attempt_ends in \<open>auto simp: settlement_recorded_def split: service_request.split\<close>)
    with AttemptEnds show ?thesis by (simp add: swap_step_def)
  next
    case (AttemptSwaps new f cs)
    let ?i = "\<lparr>ci_tenantId = wc_tenantId c, ci_runId = wc_runId c, ci_expectedRevision = ex_revision s, ci_next = new,
      ci_operationId = wc_operationId c, ci_fingerprint = f\<rparr>"
    let ?r = "compareAndSwapWorkflowExecution (sv_legacy v) (sv_composed v) ?i t"
    show ?thesis
    proof (cases ?r)
      case (Inl x)
      with AttemptSwaps e(1) show ?thesis by (simp add: swap_step_def storeCall_def)
    next
      case (Inr x)
      then obtain t' dis st where r: "?r = Inr (t', dis, st)" by (cases x) auto
      have step: "swap_step v n s (t, c) = (if dis = CasConflict then (t', c\<lparr>wc_phase := Retrying (n + 1)\<rparr>)
          else ends (case cs of Some cs \<Rightarrow> ResultClaims cs | None \<Rightarrow> ResultState st) (t', c))"
        using AttemptSwaps r by (simp add: swap_step_def storeCall_def)
      have fin: "good_step (sv_legacy v) cat t (ends (case cs of Some cs \<Rightarrow> ResultClaims cs | None \<Rightarrow> ResultState st) (t', c))"
        if "tables_good (sv_legacy v) cat t'" "tables_later t t'" "wt_receipts t' (wc_tenantId c, wc_runId c, wc_operationId c) = Some (f, st)"
        by (rule ends_good [OF that(1,2) c])
          (use that(3) settle_attempt_swaps [OF AttemptSwaps] in \<open>auto simp: settlement_recorded_def split: option.splits service_request.split\<close>)
      from r show ?thesis
      proof (cases rule: cas_cases)
        case 1
        then show ?thesis using fin g by (simp add: step)
      next
        case 2
        then show ?thesis using g c by (simp add: step good_step_def call_knows_def)
      next
        case (3 current)
        have "u = s" using 3(4,5) u by (simp add: execution_later_def)
        with u have cur: "wt_executions t (wc_tenantId c, wc_runId c) = Some s" by simp
        note op = op_advances [OF attempt_op [OF AttemptSwaps] w ni]
        have "execution_later s new" using op list_all2_mono [of node_advance _ _ node_later] advance_later by (auto simp: execution_later_def)
        moreover have "state_inv (sv_legacy v) cat new" using op 3(6) c d by (simp add: state_inv_def same_fields_def)
        ultimately have "tables_good (sv_legacy v) cat t'" "tables_later t t'"
          using committed_good [OF g cur inv, of new t' "wc_operationId c" f] 3(3,7) by simp_all
        then show ?thesis using fin 3 by (simp add: step)
      qed
    qed
  qed
qed

lemma service_good:
  assumes "catalog_ok cat" and "tables_good legacy cat t" and "call_knows legacy cat t c" and "service_moves legacy (t, c) (t', c')"
  shows "tables_good legacy cat t' \<and> call_knows legacy cat t' c' \<and> tables_later t t'"
proof -
  obtain v where v: "sv_legacy v = legacy" "(t', c') = service_step v (t, c)" using assms(4) by (auto simp: service_moves_def)
  have c: "cat (cw_contentDigest (wc_workflow c)) = Some (wc_workflow c)" using assms(3) by (simp add: call_knows_def)
  have "good_step legacy cat t (service_step v (t, c))"
  proof (cases "wc_phase c")
    case NotBegun
    then show ?thesis using initialize_good [of v cat t c] receipt_good [OF assms(2) c] load_good [OF assms(2) c] assms(1,2) c v(1)
      by (auto simp: service_step_def split: service_request.split)
  next
    case (Retrying k)
    then show ?thesis using load_good [OF assms(2) c] by (simp add: service_step_def)
  next
    case (Loaded k s)
    then show ?thesis using swap_good [of v cat t c k s] assms v(1) by (simp add: service_step_def)
  next
    case (Finished r)
    then show ?thesis using assms by (simp add: service_step_def good_step_def)
  qed
  then show ?thesis using v(2) by (simp add: good_step_def split: prod.splits)
qed

lemma service_stable:
  assumes "call_knows legacy cat t c" and "tables_later t t'"
  shows "call_knows legacy cat t' c"
proof -
  have r: "wt_receipts t k = Some x \<Longrightarrow> wt_receipts t' k = Some x" for k x
    using assms(2) unfolding tables_later_def map_le_def by (metis domI)
  have e: "wt_executions t k = Some x \<Longrightarrow> execution_later s x \<Longrightarrow> \<exists>y. wt_executions t' k = Some y \<and> execution_later s y" for k x s
    using assms(2) execution_later_trans unfolding tables_later_def by blast
  show ?thesis using assms(1) r e unfolding call_knows_def settlement_recorded_def
    by (fastforce split: call_phase.splits service_result.splits service_request.splits)
qed

interpretation workflow_store: shared_store "service_moves legacy" "service_fresh cat" "\<lambda>t. catalog_ok cat \<and> tables_good legacy cat t"
    "call_knows legacy cat" tables_later
  for legacy cat
proof unfold_locales
  show "tables_later b b" for b by simp
  show "tables_later a b \<Longrightarrow> tables_later b c \<Longrightarrow> tables_later a c" for a b c by (rule tables_later_trans)
  show "catalog_ok cat \<and> tables_good legacy cat b \<Longrightarrow> service_fresh cat b (b', q) \<Longrightarrow> b' = b \<and> call_knows legacy cat b q" for b b' q
    by (simp add: service_fresh_def call_knows_def)
  show "catalog_ok cat \<and> tables_good legacy cat b \<Longrightarrow> call_knows legacy cat b q \<Longrightarrow> service_moves legacy (b, q) (b', q')
      \<Longrightarrow> (catalog_ok cat \<and> tables_good legacy cat b') \<and> call_knows legacy cat b' q' \<and> tables_later b b'" for b q b' q'
    using service_good by blast
  show "catalog_ok cat \<and> tables_good legacy cat b \<Longrightarrow> call_knows legacy cat b q \<Longrightarrow> catalog_ok cat \<and> tables_good legacy cat b'
      \<Longrightarrow> tables_later b b' \<Longrightarrow> call_knows legacy cat b' q" for b q b'
    using service_stable by blast
qed

section \<open>Properties of every interleaving\<close>

abbreviation service_run :: "(js_string \<Rightarrow> int option) \<Rightarrow> workflow_catalog \<Rightarrow> workflow_tables \<times> workflow_call list \<Rightarrow> workflow_tables \<times> workflow_call list \<Rightarrow> bool" where
  "service_run legacy cat \<equiv> interleaved (service_moves legacy) (service_fresh cat)"

lemma no_executions_good: "tables_good legacy cat no_executions"
  by (simp add: tables_good_def no_executions_def)

lemma run_good:
  assumes "catalog_ok cat" and "service_run legacy cat (no_executions, []) (t, calls)"
  shows "tables_good legacy cat t" "\<forall>c\<in>set calls. call_knows legacy cat t c"
  using workflow_store.reached_from_start [OF assms(2)] assms(1) no_executions_good by blast+

text \<open>
  C10: nodes run after their dependencies, and once.  However any number of calls of the service interleave, a stored execution
  passes the validation of the store, its nodes are those of its workflow, and a node that has ever been claimed was claimed
  once and has all its dependencies completed.
\<close>

theorem claims_follow_dependencies:
  assumes "catalog_ok cat" and "service_run legacy cat (no_executions, []) (t, calls)" and "wt_executions t k = Some s"
  shows "\<exists>w. cat (ex_contentDigest s) = Some w \<and> execution_ok legacy s \<and> map en_nodeId (ex_nodes s) = cw_executionOrder w
    \<and> (\<forall>n\<in>set (ex_nodes s). en_claimId n = None \<or> en_claimEpoch n = 1 \<and> (\<forall>d\<in>set (depends_of w (en_nodeId n)). completed_in (ex_nodes s) d))"
proof -
  have "state_inv legacy cat s" using run_good(1) [OF assms(1,2)] assms(3) by (cases k) (simp add: tables_good_def)
  then show ?thesis unfolding state_inv_def nodes_inv_def by blast
qed

text \<open>
  C11: an execution only moves forward.  From any moment to any later one an execution keeps its identity, its revision grows
  whenever it changes, a requested cancellation stays requested, a claim that was given is never given to another,
  and a node that has ended stays as it ended.
\<close>

theorem executions_move_forward:
  assumes "catalog_ok cat" and "service_run legacy cat (no_executions, []) (t, calls)" and "service_run legacy cat (t, calls) (t', calls')"
    and "wt_executions t k = Some s"
  shows "\<exists>u. wt_executions t' k = Some u \<and> same_fields s u \<and> ex_revision s \<le> ex_revision u \<and> (ex_revision s = ex_revision u \<longrightarrow> u = s)
    \<and> (ex_cancelRequested s \<longrightarrow> ex_cancelRequested u)
    \<and> list_all2 (\<lambda>n m. same_node_identity n m \<and> (ended_node n \<longrightarrow> m = n)
        \<and> (en_claimId n \<noteq> None \<longrightarrow> en_claimId m = en_claimId n \<and> en_claimOperationId m = en_claimOperationId n
           \<and> en_claimEpoch m = en_claimEpoch n \<and> en_gateRequestId m = en_gateRequestId n \<and> en_inputDigest m = en_inputDigest n))
      (ex_nodes s) (ex_nodes u)"
proof -
  have "tables_later t t'" using workflow_store.reached [OF assms(3)] run_good [OF assms(1,2)] assms(1) by blast
  with assms(4) obtain u where "wt_executions t' k = Some u" "execution_later s u" unfolding tables_later_def by blast
  then show ?thesis unfolding execution_later_def node_later_def by blast
qed

lemma ends_tables [simp]: "fst (ends r (t, c)) = t"
  by (simp add: ends_def)

lemma quiet_steps: "fst (replay_step (t, c)) = t" "fst (load_step k (t, c)) = t"
  by (auto simp: replay_step_def load_step_def storeCall_def split: option.splits sum.splits)

lemma initialize_tables: "wt_executions t k = Some s \<Longrightarrow> wt_executions (fst (initialize_step v (t, c))) k = Some s"
  by (auto simp: initialize_step_def storeCall_def createWorkflowExecution_def guarded_def Let_def split: option.splits sum.splits)

text \<open>
  C12: the store is changed only by whole operations.  Whenever a step of a call changes an execution, the new state
  is a plan, a settlement or a cancellation of exactly the state it replaces, never of an older one that the call had read, and
  the operation is recorded with it.
\<close>

theorem changes_linearize:
  assumes "catalog_ok cat" and "service_run legacy cat (no_executions, []) (t, calls)" and "c \<in> set calls"
    and "service_moves legacy (t, c) (t', c')" and "wt_executions t k = Some s" and "wt_executions t' k = Some u" and "u \<noteq> s"
  shows "\<exists>w. cat (ex_contentDigest s) = Some w \<and> execution_op legacy w s u \<and> k = (wc_tenantId c, wc_runId c)
    \<and> wt_receipts t (wc_tenantId c, wc_runId c, wc_operationId c) = None
    \<and> (\<exists>f. wt_receipts t' (wc_tenantId c, wc_runId c, wc_operationId c) = Some (f, u))"
proof -
  obtain v where v: "sv_legacy v = legacy" "(t', c') = service_step v (t, c)" using assms(4) by (auto simp: service_moves_def)
  have kn: "call_knows legacy cat t c" using run_good(2) [OF assms(1,2)] assms(3) by blast
  obtain n x where p: "wc_phase c = Loaded n x"
  proof (cases "wc_phase c")
    case NotBegun
    have t': "t' = fst (service_step v (t, c))" using v(2) by (metis fst_conv)
    have "wt_executions t' k = Some s"
      unfolding t' using NotBegun assms(5) initialize_tables [OF assms(5)] quiet_steps
      by (cases "wc_request c") (simp_all add: service_step_def)
    with assms(6,7) show thesis by simp
  next
    case (Retrying k)
    then have "t' = t" using v(2) quiet_steps(2) [of k t c] by (simp add: service_step_def) (metis fst_conv)
    with assms(5,6,7) show thesis by simp
  next
    case (Finished r)
    with v(2) assms(5,6,7) show thesis by (simp add: service_step_def)
  qed (rule that)
  have x: "\<exists>y. wt_executions t (wc_tenantId c, wc_runId c) = Some y \<and> execution_later x y" "ex_contentDigest x = cw_contentDigest (wc_workflow c)"
    "cat (cw_contentDigest (wc_workflow c)) = Some (wc_workflow c)" using kn p by (auto simp: call_knows_def)
  have st: "(t', c') = swap_step v n x (t, c)" using v(2) p by (simp add: service_step_def)
  obtain new f cs where a: "request_attempt v c x = AttemptSwaps new f cs"
    using st assms(5,6,7) by (cases "request_attempt v c x") (auto simp: swap_step_def ends_def)
  let ?i = "\<lparr>ci_tenantId = wc_tenantId c, ci_runId = wc_runId c, ci_expectedRevision = ex_revision x, ci_next = new,
      ci_operationId = wc_operationId c, ci_fingerprint = f\<rparr>"
  let ?r = "compareAndSwapWorkflowExecution (sv_legacy v) (sv_composed v) ?i t"
  obtain d y where r: "?r = Inr (t', d, y)"
    using st a assms(5,6,7) by (cases ?r) (auto simp: swap_step_def storeCall_def ends_def split: if_splits)
  from r show ?thesis
  proof (cases rule: cas_cases)
    case (3 current)
    have "current = x" using 3(4,5) x(1) by (auto simp: execution_later_def)
    then have k: "k = (wc_tenantId c, wc_runId c)" "s = x" "u = new" using 3 assms(5,6,7) by (auto split: if_splits)
    then show ?thesis using 3 attempt_op [OF a] x(2,3) v(1) by auto
  qed (use assms(5,6,7) in auto)
qed

text \<open>
  C13: a settlement happens once.  All calls that settle under the same operation of a run, whenever they run and however often
  they are repeated, end with the same state, the one that is recorded.
\<close>

theorem settlement_once:
  assumes "catalog_ok cat" and "service_run legacy cat (no_executions, []) (t, calls)"
    and "c \<in> set calls" and "wc_request c = SettleNode n q oc" and "wc_phase c = Finished (ResultState st)"
    and "c' \<in> set calls" and "wc_request c' = SettleNode n' q' oc'" and "wc_phase c' = Finished (ResultState st')"
    and "wc_tenantId c = wc_tenantId c'" and "wc_runId c = wc_runId c'" and "wc_operationId c = wc_operationId c'"
  shows "st' = st \<and> settlementFingerprint c n q oc = settlementFingerprint c' n' q' oc'"
proof -
  have "call_knows legacy cat t c" "call_knows legacy cat t c'" using run_good(2) [OF assms(1,2)] assms(3,6) by blast+
  then have "settlement_recorded t c st" "settlement_recorded t c' st'" using assms(5,8) by (simp_all add: call_knows_def)
  then show ?thesis using assms(4,7,9-11) by (auto simp: settlement_recorded_def)
qed

section \<open>Where the service falls short\<close>

text \<open>
  A cancellation cannot be requested while a node runs and another has failed: the next state has the status \<open>running\<close>, but the store
  asks for \<open>failed\<close>.
\<close>

lemma cancel_of_failing_refused:
  assumes "list_ex (has_status NodeFailed) (ex_nodes s)" and "list_ex (\<lambda>n. en_status n = NodeRunning \<or> en_status n = NodeUnknown) (ex_nodes s)"
    and "ci_next i = cancel_state now s"
  shows "\<exists>e. compareAndSwapWorkflowExecution legacy composed i t = Inl e"
proof -
  have k: "en_status (canceled_node n) = st \<longleftrightarrow> en_status n = st" if "st \<in> {NodeFailed, NodeRunning, NodeUnknown}" for n st
    using that by (auto simp: canceled_node_def)
  have "list_ex (has_status NodeFailed) (map canceled_node (ex_nodes s))"
    "list_ex (\<lambda>n. en_status n = NodeRunning \<or> en_status n = NodeUnknown) (map canceled_node (ex_nodes s))"
    using assms(1,2) by (auto simp: list_ex_iff has_status_def k)
  then have "\<not> execution_ok legacy (cancel_state now s)"
    by (auto simp: execution_ok_def cancel_state_def Let_def projectWorkflowExecution_def projected_status_def has_status_def list_ex_iff)
  then have "validateExecutionState legacy (execution_value (ci_next i)) \<noteq> None" using state_value_ok assms(3) by simp
  then obtain e where "first_throw [validateCas legacy i, assertStandaloneWriter composed (ci_tenantId i) (ci_runId i)] = Some e"
    by (cases "first_throw [validateCas legacy i, assertStandaloneWriter composed (ci_tenantId i) (ci_runId i)]") (auto simp: validateCas_def)
  then show ?thesis by (simp add: compareAndSwapWorkflowExecution_def guarded_throw)
qed

text \<open>While an execution waits for a person only, \<open>claimReady\<close> claims nothing, whatever else is ready.\<close>

lemma claims_wait_for_gate: "ex_status s = ExecWaitingHuman \<Longrightarrow> claim_attempt v c d s = AttemptEnds (ResultClaims [])"
  by (simp add: claim_attempt_def)

text \<open>
  A swap that is a replay of the same operation by another worker returns the claims planned here, with identifiers that were never
  stored.
\<close>

lemma replayed_claims_unrecorded:
  assumes "request_attempt v c s = AttemptSwaps new f (Some claims)"
    and "validateCas (sv_legacy v) \<lparr>ci_tenantId = wc_tenantId c, ci_runId = wc_runId c, ci_expectedRevision = ex_revision s, ci_next = new,
      ci_operationId = wc_operationId c, ci_fingerprint = f\<rparr> = None" and "\<not> sv_composed v (wc_tenantId c, wc_runId c)"
    and "wt_receipts t (wc_tenantId c, wc_runId c, wc_operationId c) = Some (f, recorded)"
  shows "swap_step v k s (t, c) = (t, c\<lparr>wc_phase := Finished (ResultClaims claims)\<rparr>)"
  using assms by (simp add: swap_step_def compareAndSwapWorkflowExecution_def assertStandaloneWriter_def storeCall_def guarded_pass ends_def)

text \<open>A node that is settled as canceled, without a request to cancel, leaves its dependents pending and the execution running.\<close>

definition sample_canceled :: "execution_node list" where
  "sample_canceled = [settled_node OutcomeCanceled (claimed_node claim_plan (sample_claim ''a'' (js ''c0'')) (initial_node sample_compiled (js ''a''))),
     settled_node (OutcomeCompleted sample_digest) (claimed_node claim_plan (sample_claim ''b'' (js ''c1'')) (initial_node sample_compiled (js ''b''))),
     initial_node sample_compiled (js ''v'')]"

lemma canceled_node_stalls:
  "projected_status False has_status sample_canceled = ExecRunning \<and> ready_nodes sample_compiled sample_canceled = []
    \<and> \<not> list_ex active_node sample_canceled"
proof -
  have ids: "en_nodeId (settled_node oc n) = en_nodeId n" "en_nodeId (claimed_node p c n) = en_nodeId n" for oc n p c
    by (simp_all add: settled_node_def claimed_node_def Let_def)
  have st: "en_status (settled_node oc n) = settlement_status oc" for oc n by (simp add: settled_node_def)
  have "projected_status False has_status sample_canceled = ExecRunning" "\<not> list_ex active_node sample_canceled"
    by (simp_all add: sample_canceled_def projected_status_def has_status_def st settlement_status_def active_node_def)
  moreover have "ready_nodes sample_compiled sample_canceled = []"
    by (simp add: ready_nodes_def sample_execution_order sample_canceled_def is_ready_def find_node_def ids st settlement_status_def sample_node_at sample_node_fields)
  ultimately show ?thesis by blast
qed

section \<open>A sample run\<close>

definition sample_catalog :: workflow_catalog where
  "sample_catalog = (\<lambda>d. if d = sample_digest then Some sample_compiled else None)"

definition execution_binding :: workflow_version_binding where
  "execution_binding = \<lparr>wv_workflowId = js ''w'', wv_workflowVersionId = js ''w1'', wv_contentDigest = sample_digest\<rparr>"

definition service_call :: "string \<Rightarrow> service_request \<Rightarrow> workflow_call" where
  "service_call operation r = \<lparr>wc_tenantId = js ''t'', wc_runId = js ''r'', wc_binding = execution_binding, wc_workflow = sample_compiled,
     wc_operationId = js operation, wc_request = r, wc_phase = NotBegun\<rparr>"

definition sample_inputs :: service_inputs where
  "sample_inputs = \<lparr>sv_legacy = (\<lambda>_. None), sv_composed = (\<lambda>_. False), sv_sha256 = (\<lambda>_. sample_digest), sv_now = start_time,
     sv_nextId = (\<lambda>k. js ''c'' @ [48 + k])\<rparr>"

lemma sample_catalog_ok: "catalog_ok sample_catalog"
  using sample_workflow_compiled by (simp add: catalog_ok_def sample_catalog_def sample_compiled_def)

lemma sample_fields: "cw_contentDigest sample_compiled = sample_digest" "sw_workflowId (cw_source sample_compiled) = js ''w''"
  "sw_workflowVersionId (cw_source sample_compiled) = js ''w1''" "length (sw_nodes (cw_source sample_compiled)) = 3"
  "map en_nodeId (map (initial_node sample_compiled) (cw_executionOrder sample_compiled)) = cw_executionOrder sample_compiled"
  by (simp_all add: sample_compiled_def sample_source_def comp_def)

definition initialized :: workflow_tables where
  "initialized = no_executions\<lparr>wt_executions := [(js ''t'', js ''r'') \<mapsto> initial_execution]\<rparr>"

lemma start_fields: "ex_tenantId initial_execution = js ''t''" "ex_runId initial_execution = js ''r''" "ex_workflowId initial_execution = js ''w''"
  "ex_workflowVersionId initial_execution = js ''w1''" "ex_contentDigest initial_execution = sample_digest" "ex_revision initial_execution = 1"
  "ex_nodes initial_execution = map (initial_node sample_compiled) (cw_executionOrder sample_compiled)" "ex_status initial_execution = ExecRunning"
  "\<not> ex_cancelRequested initial_execution" "ex_updatedAt initial_execution = start_time"
  by (simp_all add: initial_execution_def initialWorkflowExecution_def sample_fields)

lemma sample_bound: "ex_workflowId s = js ''w'' \<Longrightarrow> ex_workflowVersionId s = js ''w1'' \<Longrightarrow> ex_contentDigest s = sample_digest \<Longrightarrow>
    map en_nodeId (ex_nodes s) = cw_executionOrder sample_compiled \<Longrightarrow> assertBinding s execution_binding sample_compiled = None"
proof -
  assume a: "ex_workflowId s = js ''w''" "ex_workflowVersionId s = js ''w1''" "ex_contentDigest s = sample_digest"
    "map en_nodeId (ex_nodes s) = cw_executionOrder sample_compiled"
  have l: "length (map en_nodeId (ex_nodes s)) = 3" unfolding a(4) by (simp add: sample_execution_order)
  then have "length (ex_nodes s) = 3" by simp
  with a show ?thesis by (simp add: assertBinding_def execution_binding_def sample_fields sample_execution_order)
qed

lemma initialize_sample: "service_step sample_inputs (no_executions, service_call ''op0'' Initialize)
    = (initialized, (service_call ''op0'' Initialize)\<lparr>wc_phase := Finished (ResultState initial_execution)\<rparr>)"
proof -
  have v: "validateExecutionState (\<lambda>_. None) (execution_value initial_execution) = None" using initial_execution_ok by (simp add: state_value_ok)
  have b: "assertBinding initial_execution execution_binding sample_compiled = None" by (rule sample_bound) (simp_all add: start_fields comp_def)
  have "createWorkflowExecution (\<lambda>_. None) (\<lambda>_. False) initial_execution no_executions = Inr (initialized, initial_execution)"
    by (simp add: createWorkflowExecution_def v assertStandaloneWriter_def rs_throw_if_def throw_if_def no_executions_def initialized_def start_fields Let_def guarded_def
        assertCreateReplay_def same_execution_def list_all2_refl same_node_identity_def)
  then show ?thesis
    by (simp add: service_step_def service_call_def initialize_step_def sample_inputs_def assertFrozenBinding_def execution_binding_def sample_fields
        initial_execution_def [symmetric] storeCall_def b [unfolded execution_binding_def] ends_def)
qed

lemma sample_begun: "service_run (\<lambda>_. None) sample_catalog (no_executions, [])
    (initialized, [(service_call ''op0'' Initialize)\<lparr>wc_phase := Finished (ResultState initial_execution)\<rparr>])"
proof -
  have f: "service_fresh sample_catalog t (t, service_call p r)" for t p r
    by (simp add: service_fresh_def service_call_def sample_catalog_def sample_fields)
  have "service_run (\<lambda>_. None) sample_catalog (no_executions, []) (no_executions, [service_call ''op0'' Initialize])"
    using interleaved.opened [OF interleaved.start [of "service_moves (\<lambda>_. None)" "service_fresh sample_catalog" "(no_executions, [])"] f] by simp
  moreover have "service_moves (\<lambda>_. None) (no_executions, [service_call ''op0'' Initialize] ! 0)
      (initialized, (service_call ''op0'' Initialize)\<lparr>wc_phase := Finished (ResultState initial_execution)\<rparr>)"
    unfolding service_moves_def by (rule exI [of _ sample_inputs]) (simp add: initialize_sample [symmetric], simp add: sample_inputs_def)
  ultimately show ?thesis using interleaved.moved [of "service_moves (\<lambda>_. None)" "service_fresh sample_catalog" _ _ _ 0] by fastforce
qed

definition claimed_state :: execution_state where
  "claimed_state = projectWorkflowExecution initial_execution claimed_nodes start_time"

definition settled_sample :: execution_state where
  "settled_sample = projectWorkflowExecution claimed_state
     (map (\<lambda>n. if en_nodeId n = js ''a'' then settled_node (OutcomeFailed (js ''x'')) n else n) claimed_nodes) start_time"

definition claim_call :: workflow_call where
  "claim_call = service_call ''op1'' (ClaimReady 100000)"

definition settle_call :: workflow_call where
  "settle_call = service_call ''op2'' (SettleNode (js ''a'') (js ''c0'') (OutcomeFailed (js ''x'')))"

lemma lease_time_ok [simp]: "canonicalUtc legacy (to_iso_string 1767323145000)"
  by (rule canonical_to_iso) (simp_all add: min_iso_ms_def max_iso_ms_def)

lemma sample_operations_ok: "boundedId (js ''op2'')" "boundedId (js ''op1'')"
  by (simp_all add: boundedId_def js_def is_alnum_def is_lower_def is_digit_def is_id_tail_def is_high_surrogate_def is_low_surrogate_def)

lemma sample_nodes_ok: "execution_ok legacy claimed_state" "execution_ok legacy settled_sample"
proof -
  have c: "nc_claimId (sample_claim i x) = x" "nc_claimEpoch (sample_claim i x) = 1" "nc_gateRequestId (sample_claim i x) = None"
    "nc_inputDigest (sample_claim i x) = sample_digest" "nc_node (sample_claim i x) = workflow_node_at sample_compiled (js i)" for i x
    by (simp_all add: sample_claim_def)
  have p: "pi_operationId claim_plan = js ''op1''" "pi_expiresAt claim_plan = to_iso_string 1767323145000" by (simp_all add: claim_plan_def)
  have s: "execution_ok legacy initial_execution" by (rule initial_execution_ok)
  have r: "ex_revision initial_execution = 1" "\<not> ex_cancelRequested initial_execution" by (simp_all add: start_fields)
  note n = c p initial_node_def sample_node_at sample_node_fields Let_def execution_node_ok_def node_shape_ok_def kind_of_node_def
    agent_of_node_def projected_status_def has_status_def claimed_node_def sample_ids_ok claimed_nodes_def max_safe_integer_def
  show "execution_ok legacy claimed_state"
    using s r by (simp add: execution_ok_def claimed_state_def projectWorkflowExecution_def n)
  show "execution_ok legacy settled_sample"
    using s r by (simp add: execution_ok_def claimed_state_def settled_sample_def settled_node_def settlement_status_def projectWorkflowExecution_def n)
qed

lemma sample_claimed_transition: "assertTransition legacy initial_execution claimed_state = None"
  by (simp add: assertTransition_def same_execution_def claimed_state_def projectWorkflowExecution_def start_fields sample_execution_order claimed_nodes_def
      same_node_identity_def claimed_node_def initial_node_def Let_def validNodeTransition_def date_less_def split: option.split)

lemma sample_settled_transition: "assertTransition legacy claimed_state settled_sample = None"
  by (simp add: assertTransition_def same_execution_def claimed_state_def settled_sample_def projectWorkflowExecution_def start_fields claimed_nodes_def
      same_node_identity_def claimed_node_def settled_node_def initial_node_def Let_def validNodeTransition_def date_less_def settlement_status_def
      sample_claim_def sample_node_at sample_node_fields kind_of_node_def split: option.split)

lemma sample_fingerprints:
  "\<exists>f. claimFingerprint claim_call 100000 1 = Inr f \<and> utf8_length f \<le> 4096"
  "\<exists>f. settlementFingerprint settle_call (js ''a'') (js ''c0'') (OutcomeFailed (js ''x'')) = Inr f \<and> utf8_length f \<le> 4096"
proof -
  have u: "\<not> is_high_surrogate u" "\<not> is_low_surrogate u" if "u < 128" for u
    using that by (simp_all add: is_high_surrogate_def is_low_surrogate_def)
  have a: "isWellFormedUnicode s" if "list_all (\<lambda>u. u < 128) s" for s
    using that by (induction s) (simp_all add: u)
  have w: "isWellFormedUnicode (js s)" if "list_all (\<lambda>c. of_char c < (128::nat)) s" for s
    by (rule a) (use that in \<open>simp add: js_def list.pred_map comp_def\<close>)
  have d: "isWellFormedUnicode sample_digest" by (rule a) (simp add: sample_digest_def js_def list_all_iff)
  note v = canonicalJson_def binding_value_def outcome_value_def service_call_def execution_binding_def
  show "\<exists>f. claimFingerprint claim_call 100000 1 = Inr f \<and> utf8_length f \<le> 4096"
    by (simp add: claimFingerprint_def claim_call_def v js_object_def w d is_finite_number_def decimal_of_def)
      (rule canonical_fits, simp_all add: sample_digest_def js_def number_text_def int_text_def nat_text.simps small_number_ok max_safe_integer_def)
  show "\<exists>f. settlementFingerprint settle_call (js ''a'') (js ''c0'') (OutcomeFailed (js ''x'')) = Inr f \<and> utf8_length f \<le> 4096"
    by (simp add: settlementFingerprint_def settle_call_def v js_object_def w d is_finite_number_def decimal_of_def)
      (rule canonical_fits, simp_all add: sample_digest_def js_def number_text_def int_text_def nat_text.simps small_number_ok max_safe_integer_def)
qed

lemma sample_bound_states: "assertBinding initial_execution execution_binding sample_compiled = None" "assertBinding claimed_state execution_binding sample_compiled = None"
  "assertBinding settled_sample execution_binding sample_compiled = None"
  by (rule sample_bound; simp add: start_fields claimed_state_def settled_sample_def projectWorkflowExecution_def sample_execution_order claimed_nodes_def
      claimed_node_def initial_node_def settled_node_def Let_def)+

lemma claim_receipt: "service_step v (initialized, claim_call) = (initialized, claim_call\<lparr>wc_phase := Retrying 0\<rparr>)"
  by (simp add: service_step_def claim_call_def service_call_def replay_step_def call_checks_def requirePositiveDuration_def is_safe_integer_def
      max_safe_integer_def storeCall_def loadWorkflowExecutionReceipt_def guarded_def validateReceiptLocator_def validateLocator_def
      sample_ids_ok initialized_def no_executions_def rs_throw_if_def throw_if_def)

lemma claim_load: "service_step v (initialized, claim_call\<lparr>wc_phase := Retrying 0\<rparr>) = (initialized, claim_call\<lparr>wc_phase := Loaded 0 initial_execution\<rparr>)"
  by (simp add: service_step_def claim_call_def service_call_def load_step_def max_cas_retries_def storeCall_def loadWorkflowExecution_def guarded_def
      validateLocator_def sample_ids_ok initialized_def rs_throw_if_def throw_if_def sample_bound_states)

lemma claim_attempted:
  assumes "claimFingerprint claim_call 100000 1 = Inr f"
  shows "request_attempt sample_inputs (claim_call\<lparr>wc_phase := Loaded 0 initial_execution\<rparr>) initial_execution
    = AttemptSwaps claimed_state f (Some [sample_claim ''a'' (js ''c0''), sample_claim ''b'' (js ''c1'')])"
proof -
  have l: "lease_end sample_inputs 100000 = Inr (to_iso_string 1767323145000)"
  proof -
    have "date_parse (\<lambda>_. None) start_time = Some 1767323045000"
      unfolding start_time_def using is_timestamp_to_iso [of 1767323045000] iso_time_to_iso_string [of 1767323045000]
      by (simp add: date_parse_def is_timestamp_def min_iso_ms_def max_iso_ms_def)
    then show ?thesis by (simp add: lease_end_def sample_inputs_def max_time_value_def)
  qed
  have p: "claim_input sample_inputs (claim_call\<lparr>wc_phase := Loaded 0 initial_execution\<rparr>) (to_iso_string 1767323145000) = claim_plan"
    by (simp add: claim_input_def sample_inputs_def claim_call_def service_call_def claim_plan_def sample_fields)
  have f: "claimFingerprint (claim_call\<lparr>wc_phase := Loaded 0 initial_execution\<rparr>) 100000 1 = Inr f"
    using assms by (simp add: claimFingerprint_def)
  have w: "wc_request (claim_call\<lparr>wc_phase := Loaded 0 initial_execution\<rparr>) = ClaimReady 100000"
    "wc_workflow (claim_call\<lparr>wc_phase := Loaded 0 initial_execution\<rparr>) = sample_compiled"
    by (simp_all add: claim_call_def service_call_def)
  show ?thesis
    unfolding request_attempt_def w service_request.case claim_attempt_def start_fields l sum.case p sample_planned prod.case Let_def f
    by (simp add: claimed_state_def [symmetric]) (simp add: claimed_state_def project_not_same start_fields)
qed

definition swapped :: "workflow_call \<Rightarrow> js_string \<Rightarrow> execution_state \<Rightarrow> workflow_tables \<Rightarrow> workflow_tables" where
  "swapped c f new t = t\<lparr>wt_executions := (wt_executions t)((wc_tenantId c, wc_runId c) \<mapsto> new),
     wt_receipts := (wt_receipts t)((wc_tenantId c, wc_runId c, wc_operationId c) \<mapsto> (f, new))\<rparr>"

lemma swap_commits:
  assumes "request_attempt v c s = AttemptSwaps new f cs" and "execution_ok (sv_legacy v) new" and "ex_revision new = ex_revision s + 1"
    and "1 \<le> ex_revision s" and "utf8_length f \<le> 4096" and "boundedId (wc_tenantId c)" and "boundedId (wc_runId c)" and "boundedId (wc_operationId c)"
    and "wt_executions t (wc_tenantId c, wc_runId c) = Some s" and "wt_receipts t (wc_tenantId c, wc_runId c, wc_operationId c) = None"
    and "assertTransition (sv_legacy v) s new = None" and "\<not> sv_composed v (wc_tenantId c, wc_runId c)"
  shows "swap_step v k s (t, c) = (swapped c f new t, c\<lparr>wc_phase := Finished (case cs of Some x \<Rightarrow> ResultClaims x | None \<Rightarrow> ResultState new)\<rparr>)"
proof -
  have "ex_revision new \<le> max_safe_integer" using assms(2) by (simp add: execution_ok_def)
  then have "is_safe_integer (ex_revision s)" using assms(3,4) by (simp add: is_safe_integer_def max_safe_integer_def)
  moreover have "validateExecutionState (sv_legacy v) (execution_value new) = None" using assms(2) by (simp add: state_value_ok)
  ultimately show ?thesis
    using assms by (simp add: swap_step_def compareAndSwapWorkflowExecution_def validateCas_def validateLocator_def assertStandaloneWriter_def
        guarded_pass storeCall_def swapped_def ends_def not_less split: option.split)
qed

abbreviation begun_calls :: "workflow_call list" where
  "begun_calls \<equiv> [(service_call ''op0'' Initialize)\<lparr>wc_phase := Finished (ResultState initial_execution)\<rparr>]"

lemma run_opens:
  assumes "service_run legacy sample_catalog c0 (t, calls)"
  shows "service_run legacy sample_catalog c0 (t, calls @ [service_call p r])"
  by (rule interleaved.opened [OF assms]) (simp add: service_fresh_def service_call_def sample_catalog_def sample_fields)

lemma run_moves:
  assumes "service_run legacy cat c0 (t, calls @ [c])" and "service_step v (t, c) = (t', c')" and "sv_legacy v = legacy"
  shows "service_run legacy cat c0 (t', calls @ [c'])"
proof -
  have "service_moves legacy (t, (calls @ [c]) ! length calls) (t', c')" using assms(2,3) by (auto simp: service_moves_def)
  from interleaved.moved [OF assms(1) _ this] show ?thesis by simp
qed

lemma sample_legacy: "sv_legacy sample_inputs = (\<lambda>_. None)" "\<not> sv_composed sample_inputs x"
  by (simp_all add: sample_inputs_def)

lemma claim_loaded: "service_run (\<lambda>_. None) sample_catalog (no_executions, []) (initialized, begun_calls @ [claim_call\<lparr>wc_phase := Loaded 0 initial_execution\<rparr>])"
proof -
  have "service_run (\<lambda>_. None) sample_catalog (no_executions, []) (initialized, begun_calls @ [claim_call])"
    unfolding claim_call_def by (rule run_opens [OF sample_begun])
  from run_moves [OF this claim_receipt [of sample_inputs] sample_legacy(1)] run_moves [OF _ claim_load [of sample_inputs] sample_legacy(1)]
  show ?thesis by blast
qed

lemma claim_swapped:
  assumes "claimFingerprint claim_call 100000 1 = Inr f" and "utf8_length f \<le> 4096"
  shows "service_step sample_inputs (initialized, claim_call\<lparr>wc_phase := Loaded 0 initial_execution\<rparr>) = (swapped claim_call f claimed_state initialized,
     claim_call\<lparr>wc_phase := Finished (ResultClaims [sample_claim ''a'' (js ''c0''), sample_claim ''b'' (js ''c1'')])\<rparr>)"
proof -
  have "swap_step sample_inputs 0 initial_execution (initialized, claim_call\<lparr>wc_phase := Loaded 0 initial_execution\<rparr>)
    = (swapped (claim_call\<lparr>wc_phase := Loaded 0 initial_execution\<rparr>) f claimed_state initialized,
      claim_call\<lparr>wc_phase := Loaded 0 initial_execution, wc_phase := Finished (ResultClaims [sample_claim ''a'' (js ''c0''), sample_claim ''b'' (js ''c1'')])\<rparr>)"
    by (subst swap_commits [OF claim_attempted [OF assms(1)]])
      (simp_all add: sample_legacy sample_nodes_ok assms(2) sample_claimed_transition, simp_all add: claim_call_def service_call_def sample_ids_ok
        initialized_def no_executions_def claimed_state_def projectWorkflowExecution_def start_fields)
  then show ?thesis by (simp add: service_step_def swapped_def)
qed

theorem claims_follow_dependencies_witness: "\<exists>w. sample_catalog (ex_contentDigest claimed_state) = Some w \<and> execution_ok (\<lambda>_. None) claimed_state
    \<and> map en_nodeId (ex_nodes claimed_state) = cw_executionOrder w
    \<and> (\<forall>n\<in>set (ex_nodes claimed_state). en_claimId n = None \<or> en_claimEpoch n = 1
        \<and> (\<forall>d\<in>set (depends_of w (en_nodeId n)). completed_in (ex_nodes claimed_state) d))"
proof -
  obtain f where f: "claimFingerprint claim_call 100000 1 = Inr f" "utf8_length f \<le> 4096" using sample_fingerprints(1) by blast
  show ?thesis
    by (rule claims_follow_dependencies [OF sample_catalog_ok run_moves [OF claim_loaded claim_swapped [OF f] sample_legacy(1)], of "(js ''t'', js ''r'')"])
      (simp add: swapped_def claim_call_def service_call_def)
qed

theorem executions_move_forward_witness: "same_fields initial_execution claimed_state \<and> ex_revision initial_execution \<le> ex_revision claimed_state
    \<and> list_all2 same_node_identity (ex_nodes initial_execution) (ex_nodes claimed_state)"
proof -
  obtain f where "claimFingerprint claim_call 100000 1 = Inr f" "utf8_length f \<le> 4096" using sample_fingerprints(1) by blast
  from run_moves [OF interleaved.start claim_swapped [OF this] sample_legacy(1)]
  have "service_run (\<lambda>_. None) sample_catalog (initialized, begun_calls @ [claim_call\<lparr>wc_phase := Loaded 0 initial_execution\<rparr>])
      (swapped claim_call f claimed_state initialized, begun_calls
        @ [claim_call\<lparr>wc_phase := Finished (ResultClaims [sample_claim ''a'' (js ''c0''), sample_claim ''b'' (js ''c1'')])\<rparr>])" .
  note forward = executions_move_forward [OF sample_catalog_ok claim_loaded this, of "(js ''t'', js ''r'')" initial_execution]
  have "wt_executions initialized (js ''t'', js ''r'') = Some initial_execution"
    "wt_executions (swapped claim_call f claimed_state initialized) (js ''t'', js ''r'') = Some claimed_state"
    by (simp_all add: initialized_def swapped_def claim_call_def service_call_def)
  with forward show ?thesis
    by (elim exE conjE meta_impE) (simp_all only: option.inject, intro conjI, simp_all only:, erule list_all2_mono, elim conjE, assumption)
qed

theorem changes_linearize_witness: "\<exists>g w. sample_catalog (ex_contentDigest initial_execution) = Some w \<and> execution_op (\<lambda>_. None) w initial_execution claimed_state
    \<and> (js ''t'', js ''r'') = (wc_tenantId claim_call, wc_runId claim_call)
    \<and> wt_receipts initialized (wc_tenantId claim_call, wc_runId claim_call, wc_operationId claim_call) = None
    \<and> (\<exists>f. wt_receipts (swapped claim_call g claimed_state initialized) (wc_tenantId claim_call, wc_runId claim_call, wc_operationId claim_call) = Some (f, claimed_state))"
proof -
  let ?c = "claim_call\<lparr>wc_phase := Loaded 0 initial_execution\<rparr>"
  let ?d = "claim_call\<lparr>wc_phase := Finished (ResultClaims [sample_claim ''a'' (js ''c0''), sample_claim ''b'' (js ''c1'')])\<rparr>"
  obtain f where f: "claimFingerprint claim_call 100000 1 = Inr f" "utf8_length f \<le> 4096" using sample_fingerprints(1) by blast
  have "service_moves (\<lambda>_. None) (initialized, ?c) (swapped claim_call f claimed_state initialized, ?d)"
    unfolding service_moves_def using claim_swapped [OF f] sample_legacy(1) by metis
  note l = changes_linearize [OF sample_catalog_ok claim_loaded _ this, of "(js ''t'', js ''r'')" initial_execution claimed_state]
  have e: "wt_executions initialized (js ''t'', js ''r'') = Some initial_execution"
    "wt_executions (swapped claim_call f claimed_state initialized) (js ''t'', js ''r'') = Some claimed_state"
    by (simp_all add: initialized_def swapped_def claim_call_def service_call_def)
  have "claimed_state \<noteq> initial_execution" by (simp add: claimed_state_def project_not_same)
  note l [OF _ e this]
  moreover have q: "wc_tenantId ?c = wc_tenantId claim_call" "wc_runId ?c = wc_runId claim_call" "wc_operationId ?c = wc_operationId claim_call" by simp_all
  moreover have "?c \<in> set (begun_calls @ [?c])" by simp
  ultimately show ?thesis unfolding q by blast
qed

text \<open>The settlement of the first node, and its repetition.\<close>

abbreviation claimed_tables :: "js_string \<Rightarrow> workflow_tables" where
  "claimed_tables f \<equiv> swapped claim_call f claimed_state initialized"

lemma settle_loaded:
  assumes "settlementFingerprint settle_call (js ''a'') (js ''c0'') (OutcomeFailed (js ''x'')) = Inr g"
  shows "service_step v (claimed_tables f, settle_call) = (claimed_tables f, settle_call\<lparr>wc_phase := Retrying 0\<rparr>)"
    "service_step v (claimed_tables f, settle_call\<lparr>wc_phase := Retrying 0\<rparr>) = (claimed_tables f, settle_call\<lparr>wc_phase := Loaded 0 claimed_state\<rparr>)"
proof -
  have t: "wt_executions (claimed_tables f) (js ''t'', js ''r'') = Some claimed_state" "wt_receipts (claimed_tables f) (js ''t'', js ''r'', js ''op2'') = None"
    by (simp_all add: swapped_def initialized_def no_executions_def claim_call_def service_call_def)
  have c: "wc_phase settle_call = NotBegun" "wc_request settle_call = SettleNode (js ''a'') (js ''c0'') (OutcomeFailed (js ''x''))"
    "wc_tenantId settle_call = js ''t''" "wc_runId settle_call = js ''r''" "wc_operationId settle_call = js ''op2''"
    by (simp_all add: settle_call_def service_call_def)
  have k: "call_checks settle_call = None" using assms by (simp add: call_checks_def settle_call_def service_call_def checked_def)
  show "service_step v (claimed_tables f, settle_call) = (claimed_tables f, settle_call\<lparr>wc_phase := Retrying 0\<rparr>)"
    by (simp add: service_step_def replay_step_def k c t
      storeCall_def loadWorkflowExecutionReceipt_def guarded_def validateReceiptLocator_def validateLocator_def
      sample_ids_ok sample_operations_ok rs_throw_if_def throw_if_def)
  show "service_step v (claimed_tables f, settle_call\<lparr>wc_phase := Retrying 0\<rparr>) = (claimed_tables f, settle_call\<lparr>wc_phase := Loaded 0 claimed_state\<rparr>)"
    by (simp add: service_step_def settle_call_def service_call_def load_step_def max_cas_retries_def storeCall_def loadWorkflowExecution_def guarded_def
      validateLocator_def sample_ids_ok t rs_throw_if_def throw_if_def sample_bound_states)
qed

lemma settle_attempted:
  assumes "settlementFingerprint settle_call (js ''a'') (js ''c0'') (OutcomeFailed (js ''x'')) = Inr g"
  shows "request_attempt sample_inputs (settle_call\<lparr>wc_phase := Loaded 0 claimed_state\<rparr>) claimed_state = AttemptSwaps settled_sample g None"
proof -
  have "settlementFingerprint (settle_call\<lparr>wc_phase := Loaded 0 claimed_state\<rparr>) (js ''a'') (js ''c0'') (OutcomeFailed (js ''x'')) = Inr g"
    using assms by (simp add: settlementFingerprint_def)
  moreover have "settle_state (js ''a'') (js ''c0'') (OutcomeFailed (js ''x'')) start_time claimed_state = Inr settled_sample"
    by (simp add: settle_state_def claimed_state_def projectWorkflowExecution_def claimed_nodes_def find_node_def claimed_node_def Let_def
        initial_node_def sample_claim_def sample_node_at sample_node_fields kind_of_node_def isTerminalNode_def settled_sample_def guarded_def)
  ultimately show ?thesis by (simp add: request_attempt_def settle_attempt_def settle_call_def service_call_def sample_inputs_def)
qed

lemma settlement_swapped:
  assumes "settlementFingerprint settle_call (js ''a'') (js ''c0'') (OutcomeFailed (js ''x'')) = Inr g" and "utf8_length g \<le> 4096"
  shows "service_step sample_inputs (claimed_tables f, settle_call\<lparr>wc_phase := Loaded 0 claimed_state\<rparr>)
    = (swapped settle_call g settled_sample (claimed_tables f), settle_call\<lparr>wc_phase := Finished (ResultState settled_sample)\<rparr>)"
proof -
  have "swap_step sample_inputs 0 claimed_state (claimed_tables f, settle_call\<lparr>wc_phase := Loaded 0 claimed_state\<rparr>)
    = (swapped (settle_call\<lparr>wc_phase := Loaded 0 claimed_state\<rparr>) g settled_sample (claimed_tables f),
      settle_call\<lparr>wc_phase := Loaded 0 claimed_state, wc_phase := Finished (ResultState settled_sample)\<rparr>)"
    by (subst swap_commits [OF settle_attempted [OF assms(1)]])
      (simp_all add: sample_legacy sample_nodes_ok assms(2) sample_settled_transition, simp_all add: settle_call_def claim_call_def service_call_def
        sample_ids_ok sample_operations_ok initialized_def no_executions_def claimed_state_def settled_sample_def projectWorkflowExecution_def
        start_fields swapped_def)
  then show ?thesis by (simp add: service_step_def swapped_def)
qed

lemma settlement_replayed:
  assumes "settlementFingerprint settle_call (js ''a'') (js ''c0'') (OutcomeFailed (js ''x'')) = Inr g"
  shows "service_step v (swapped settle_call g settled_sample t, settle_call)
    = (swapped settle_call g settled_sample t, settle_call\<lparr>wc_phase := Finished (ResultState settled_sample)\<rparr>)"
proof -
  have c: "wc_phase settle_call = NotBegun" "wc_request settle_call = SettleNode (js ''a'') (js ''c0'') (OutcomeFailed (js ''x''))"
    "wc_tenantId settle_call = js ''t''" "wc_runId settle_call = js ''r''" "wc_operationId settle_call = js ''op2''"
    "wc_binding settle_call = execution_binding" "wc_workflow settle_call = sample_compiled"
    by (simp_all add: settle_call_def service_call_def)
  have r: "wt_receipts (swapped settle_call g settled_sample t) (js ''t'', js ''r'', js ''op2'') = Some (g, settled_sample)"
    by (simp add: swapped_def c)
  show ?thesis
    by (simp add: service_step_def replay_step_def c r call_checks_def assms checked_def storeCall_def loadWorkflowExecutionReceipt_def guarded_def
      validateReceiptLocator_def validateLocator_def sample_ids_ok sample_operations_ok rs_throw_if_def throw_if_def replayed_result_def
      expected_fingerprint_def sample_bound_states ends_def)
qed

theorem settlement_once_witness: "\<exists>t calls. service_run (\<lambda>_. None) sample_catalog (no_executions, []) (t, calls)
    \<and> length (filter (\<lambda>c. wc_request c = SettleNode (js ''a'') (js ''c0'') (OutcomeFailed (js ''x''))
        \<and> wc_phase c = Finished (ResultState settled_sample)) calls) = 2
    \<and> settled_sample = settled_sample \<and> settlementFingerprint settle_call (js ''a'') (js ''c0'') (OutcomeFailed (js ''x''))
      = settlementFingerprint settle_call (js ''a'') (js ''c0'') (OutcomeFailed (js ''x''))"
proof -
  let ?settled = "settle_call\<lparr>wc_phase := Finished (ResultState settled_sample)\<rparr>"
  let ?done = "begun_calls @ [claim_call\<lparr>wc_phase := Finished (ResultClaims [sample_claim ''a'' (js ''c0''), sample_claim ''b'' (js ''c1'')])\<rparr>]"
  obtain f where f: "claimFingerprint claim_call 100000 1 = Inr f" "utf8_length f \<le> 4096" using sample_fingerprints(1) by blast
  obtain g where g: "settlementFingerprint settle_call (js ''a'') (js ''c0'') (OutcomeFailed (js ''x'')) = Inr g" "utf8_length g \<le> 4096"
    using sample_fingerprints(2) by blast
  let ?t = "swapped settle_call g settled_sample (claimed_tables f)"
  note run = run_moves [OF _ _ sample_legacy(1)] and opens = run_opens [where p = "''op2''" and r = "SettleNode (js ''a'') (js ''c0'') (OutcomeFailed (js ''x''))",
      folded settle_call_def]
  have "service_run (\<lambda>_. None) sample_catalog (no_executions, []) (claimed_tables f, ?done)" by (rule run [OF claim_loaded claim_swapped [OF f]])
  note opens [OF this]
  note run [OF run [OF run [OF this settle_loaded(1) [OF g(1)]] settle_loaded(2) [OF g(1)]] settlement_swapped [OF g]]
  note final = run [OF opens [OF this] settlement_replayed [OF g(1)]]
  have "?settled \<in> set (((?done @ [?settled]) @ [?settled]))" by simp
  note once = settlement_once [OF sample_catalog_ok final this _ _ this, of "js ''a''" "js ''c0''" "OutcomeFailed (js ''x'')" settled_sample
      "js ''a''" "js ''c0''" "OutcomeFailed (js ''x'')" settled_sample]
  have fp: "settlementFingerprint ?settled n q oc = settlementFingerprint settle_call n q oc" for n q oc
    by (simp add: settlementFingerprint_def)
  have same: "settled_sample = settled_sample \<and> settlementFingerprint ?settled (js ''a'') (js ''c0'') (OutcomeFailed (js ''x''))
      = settlementFingerprint ?settled (js ''a'') (js ''c0'') (OutcomeFailed (js ''x''))"
    by (rule once) (simp_all add: settle_call_def service_call_def)
  have twice: "length (filter (\<lambda>c. wc_request c = SettleNode (js ''a'') (js ''c0'') (OutcomeFailed (js ''x''))
        \<and> wc_phase c = Finished (ResultState settled_sample)) ((?done @ [?settled]) @ [?settled])) = 2"
    by (simp add: settle_call_def service_call_def claim_call_def)
  from conjI [OF final conjI [OF twice same [unfolded fp]]] show ?thesis by (intro exI)
qed

end
