(* ===== verification/Spec2Isabelle.thy ===== *)
theory Spec2Isabelle
  imports Run_Laws Thread_Rollback Goal_Events Workflow_Version Tool_Approval Tool_Receipt Execution_Lifecycle Plugin_Credit Model_Dispatch Automations
    Sse_Stream Context_Projection Message_Queue Responses_Streams Workflow_Service
begin

text \<open>
  A model of the core of CrewON: the domain package, \<open>src/packages/domain/src\<close>, the parts around it that read
  the stream of a model, build the context of a request and execute workflows over a store, and the
  theorems that make them correct.

  \<^bold>\<open>The program.\<close>  The domain package holds the rules of the system as pure functions over
  plain data; the services, the store and the user interfaces call them and persist what they
  return.  Its core consists of these machines.  A \<open>Thread\<close> is a conversation and a \<open>Run\<close>
  is one execution in it; both are event sourced: a reducer takes the state and the next event
  to the next state or throws, and replaying a log folds the reducer.  A Run consists of steps, each of
  which is attempted under a lease (\<open>execution lifecycle\<close>); a step that calls a tool is
  recorded in a \<open>receipt\<close>, and if the policy asks for it is approved by a person first
  (\<open>approval\<close>).  A Run may work for a \<open>goal\<close> of its Thread; a cursor in the Run's state
  says which part of its usage has been charged to the goal, and the goal has an event log of its own.  What the
  model is shown of a Thread is its \<open>history\<close>, a list of numbered items from which a \<open>rollback\<close>
  takes turns back by appending a marker.  A Run may also execute a \<open>workflow\<close>: a source, usually
  written by a person, is compiled to a version, which parses the schemas of its nodes, validates and orders the graph
  and checks that the schemas agree along the edges; a compiled version is stored as a canonical text.  Each request to a
  model leaves a \<open>dispatch receipt\<close> that says whether it may have been sent and what was observed, and a task of a
  plugin is paid from an account of \<open>credits\<close> by a reservation that is settled or released.  An \<open>automation\<close> is a stored
  instruction that starts Runs on a schedule.

  Around the domain package, \<open>packages/context\<close> projects a history to the context of the next request and repairs and bounds it;
  \<open>packages/agent-responses\<close> reads what the provider answers: bytes are decoded and framed to events (or come as messages of a
  socket through a bounded queue), the events go through the decoder of the protocol, deltas of text are joined, and a request
  whose continuation the provider rejects is replaced once.  A compiled workflow is executed by the service of
  \<open>packages/application\<close>: workers claim the nodes that are ready, settle them and cancel, each by a plan computed from
  a loaded state and one compare-and-swap on the store of \<open>packages/store\<close>; any number of workers do so at once.

  \<^bold>\<open>Theories and code.\<close>

    \<^item> \<open>Prelude\<close>: strings as lists of UTF-16 code units with \<open>trim\<close>, the UTF-8 length of
      \<open>TextEncoder\<close> and the patterns of digests and identifiers; safe integers; thrown errors as
      the left side of a sum, one constructor for each error class; and \<open>guarded\<close>, which runs a list
      of checks in source order.  The collections \<open>check_simps\<close>, \<open>json_simps\<close> and \<open>string_eval\<close>
      carry the evaluation of concrete inputs.
    \<^item> \<open>Timestamps\<close>: \<open>Date.parse\<close> on the ISO format computed by the rules of the language,
      \<open>toISOString\<close>, and that printing and parsing are inverse.
    \<^item> \<open>Js_Values\<close>, \<open>Json_Text\<close>: dynamic values, \<open>JSON.stringify\<close> and \<open>JSON.parse\<close>, the order of
      properties, decimals and the doubles nearest to them, and that parsing inverts printing.
    \<^item> \<open>Run_Values\<close>, \<open>Run_Plans\<close>: \<open>rate-limit-snapshot.ts\<close>,
      \<open>workspace-change-summary.ts\<close>, \<open>provider-continuation-budget.ts\<close>,
      \<open>provider-turn-state.ts\<close>, \<open>run-plan.ts\<close>, and what a Run uses of
      \<open>model-usage-report.ts\<close>, \<open>automation.ts\<close> and \<open>workflow-version.ts\<close>.
    \<^item> \<open>Run_Types\<close>, \<open>Thread_Goals\<close>, \<open>Goal_Accounting\<close>: the state of a Run, \<open>thread-goal.ts\<close> and
      \<open>run-goal-accounting.ts\<close>.
    \<^item> \<open>Event_Log\<close>: the interface \<open>event_reducer\<close> of the event-sourced objects.
    \<^item> \<open>Run_Events\<close>, \<open>Run_Lifecycle\<close>, \<open>Run_Laws\<close>: the events, the reducer and the laws of
      \<open>run-lifecycle.ts\<close>.
    \<^item> \<open>Goal_Events\<close>: \<open>thread-goal-event.ts\<close>.
    \<^item> \<open>Thread_Lifecycle\<close>, \<open>Model_History\<close>, \<open>Thread_Rollback\<close>: \<open>thread-lifecycle.ts\<close>, \<open>model-history.ts\<close>
      and \<open>thread-rollback.ts\<close>.
    \<^item> \<open>Workflow_Graph\<close>: \<open>workflow-version-graph.ts\<close>.
    \<^item> \<open>Workflow_Schema\<close>, \<open>Workflow_Flow\<close>, \<open>Workflow_Version\<close>: \<open>workflow-schema.ts\<close> and
      \<open>workflow-schema-value.ts\<close>, \<open>workflow-value-flow.ts\<close>, \<open>workflow-version.ts\<close> and
      \<open>workflow-version-codec.ts\<close>.
    \<^item> \<open>Versioned_Steps\<close>: the interfaces \<open>versioned_object\<close>, \<open>settled_object\<close> and \<open>retryable_object\<close> of
      the objects that are updated by operations instead of events.
    \<^item> \<open>Tool_Approval\<close>, \<open>Tool_Receipt\<close>, \<open>Execution_Lifecycle\<close>: \<open>tool-approval.ts\<close>,
      \<open>tool-execution-receipt.ts\<close> and \<open>execution-lifecycle.ts\<close>.
    \<^item> \<open>Plugin_Credit\<close>, \<open>Model_Dispatch\<close>, \<open>Automations\<close>: \<open>plugin-credit.ts\<close>, \<open>model-dispatch-receipt.ts\<close> and \<open>automation.ts\<close>.
    \<^item> \<open>Context_History\<close>, \<open>Context_Projection\<close>: \<open>normalize-context-history.ts\<close> and \<open>project-model-history.ts\<close> of
      \<open>packages/context\<close>.
    \<^item> \<open>Sse_Stream\<close>, \<open>Message_Queue\<close>, \<open>Responses_Protocol\<close>, \<open>Responses_Streams\<close>: \<open>responses-sse.ts\<close>,
      \<open>websocket-message-queue.ts\<close>, \<open>responses-protocol.ts\<close> with \<open>responses-message-output.ts\<close>, and
      \<open>responses-output-delta-buffer.ts\<close> with \<open>responses-continuation-recovery.ts\<close>, all of \<open>packages/agent-responses\<close>.
    \<^item> \<open>Interleaving\<close>: any number of holders of a shared value, and the interface \<open>shared_store\<close>.
    \<^item> \<open>Workflow_Execution\<close>, \<open>Workflow_Store\<close>, \<open>Workflow_Service\<close>: \<open>workflow-execution-planning.ts\<close> and
      \<open>workflow-execution-state.ts\<close>; the SQLite class of \<open>workflow-execution-store.ts\<close>; \<open>workflow-execution-service.ts\<close>.

  Definitions have the names of the functions they model; a prefix is added where files repeat a
  name.  A parameter object or a state is a record with a two-letter field prefix.

  \<^bold>\<open>Interfaces.\<close>  \<open>event_reducer\<close> asks a reducer for the laws of a numbered log: the first event
  creates, every event carries the next number, the identity of the object is kept, an invariant is
  kept, and a closed state accepts nothing.  Its lemmas (numbering, invariant, immutability of the identity,
  closure of terminal states) are proved once and interpreted for Runs (\<open>run_log\<close>), Threads
  (\<open>thread_log\<close>) and goals (\<open>goal_log\<close>).  \<open>versioned_object\<close> asks every accepted operation to keep an invariant and an
  identity and to increase the revision by one; \<open>settled_object\<close> adds a number of
  operations left.  They are interpreted for attempts (\<open>attempts\<close>), approvals (\<open>approval\<close>)
  and receipts (\<open>receipt\<close>).  \<open>retryable_object\<close> asks every operation to be repeatable without effect; it
  is interpreted for the holds of credits (\<open>hold\<close>) and the dispatch receipts (\<open>dispatch\<close>).  \<open>usage_charging\<close> asks a charge for the price of usage differences and
  gives the sum along a chain of watermarks; it is interpreted for \<open>threadGoalChargedTokens\<close>.
  \<open>shared_budget\<close> asks every step of one of several holders to move a common total by what the holder gains; it is
  interpreted for the bytes (\<open>wire_bytes\<close>) and the frames (\<open>wire_frames\<close>) of the queues.  \<open>shared_store\<close> asks a step to keep
  the store good and later than it was, and what a holder knows to survive a later store; it gives
  invariants of every interleaving and is interpreted for the calls of the workflow service (\<open>workflow_store\<close>).

  \<^bold>\<open>What is shown.\<close>  For Runs: the effect of every accepted event as an inductive relation, the
  invariant of replayed states, that the reducer implements exactly an abstract graph of statuses,
  that a requested cancellation locks the Run and can always be carried out, and that the usage is the sum of
  what the log records.  For goals: what is charged is exactly the uncached input plus the output, once,
  whichever of the ways of charging is used; the bounded prompt always fits; a replayed goal log has a valid
  current goal, the settlement of a Run is accepted as its next event, and the validator of its events is sound for
  the declared type but for one gap.  For histories: the effective history is what no marker covers, and a
  rollback takes away exactly the turns it is asked for.  For
  Threads: replayed states pass the program's own validation, messages are numbered without gap,
  archived and deleted Threads are closed as intended.  For workflows: validation accepts exactly the
  graphs of a declarative definition, the order is the least topological order at every position and
  does not depend on the listing of the nodes, cycles are reported exactly, and validation always returns; the durable text of a compiled
  version is unique and is read back to the same version; and values that flow along a compiled workflow have the
  declared schemas, so that a run of its nodes in the order of execution never fails on the way.  For
  approvals, receipts and attempts: the legal histories, the order of their
  timestamps, and fencing by lease epochs.  For credits: the ledger balances over any accepted operations, a held
  reservation can be settled or released whatever happened since, and settling twice charges once.  For dispatch
  receipts: an outcome is supported by the evidence on the receipt, and every receipt can be terminated.  For automations:
  a stored definition is read back as it was, and two definitions with the same rendered instruction have the same fields.
  For contexts: a normalised context answers every call once and changes only what was not answered, its tail is the longest
  newest part that fits, and the model is shown what is visible of its history and nothing else.  For streams: the division of a body into chunks
  changes at most where an error cuts its events off, and not even that for valid text within the size bound, the budget of the queues is exact under every interleaving of their
  callbacks, their reader never waits without a timer, a response ends once and its history is what was streamed, an error after a usage carries it, and joining
  deltas loses and reorders nothing.  For workflow executions, whatever calls interleave: nodes are claimed once and after their
  dependencies, an execution only moves forward, every change is one operation on exactly the state it replaces,
  a settlement happens once, and an execution with no active node always has something to claim, unless a node was settled as
  canceled; four lemmas at the end of \<open>Workflow_Service\<close> show where the service falls short.

  \<^bold>\<open>Loops.\<close>  The worklist loop of the workflow validation is a \<open>partial_function (option)\<close>, so not
  returning would be the value \<open>None\<close>; that it returns is a theorem.  The reader of JSON values
  has a bound on its calls, \<open>2 * length + 2\<close>, and \<open>read_bound_enough\<close> shows that a larger one never changes
  the result.  The parser of schemas ends because it refuses depths over 16, its measure.  The framing of
  a body ends because every frame takes units from its buffer, and the retries of a swap are bounded by eight.  The other
  loops of the source go over a list or a decreasing number.

  \<^bold>\<open>Modelling choices.\<close>

    \<^item> Where TypeScript fixes the type of a field and the code tests it again at run time
      (\<open>isPlainObject\<close>, exact keys, \<open>typeof\<close>), the record's type discharges the test; where the tested value is
      arbitrary (snapshots, bindings, summaries, deltas), it is a value of type \<open>json\<close> and the test is
      modelled.  The keys present in the data of \<open>run.created\<close> are the field \<open>rc_ownKeys\<close>, those of a Thread event's
      workspace the field \<open>te_ownsWorkspaceId\<close>, because the code tests them.
    \<^item> A number the code tests with \<open>Number.isSafeInteger\<close> is an \<open>int\<close> and the test is explicit;
      fractional and non-finite numbers occur as \<open>json\<close> only.
    \<^item> \<open>Date.parse\<close> of a string that is not in the ISO format depends on the engine: it is the parameter
      \<open>legacy\<close> of the functions that may reach it, and the theorems hold for every such parameter.
    \<^item> The text of the two goal prompts is a parameter \<open>render\<close> of the function that bounds it.
    \<^item> The object of own properties is a list with distinct names; \<open>plain_ok\<close> says so of all objects in
      a value, and that its numbers are doubles, and is a hypothesis of the theorems on workflow sources.
    \<^item> The SHA-256 digest is the argument \<open>sha256\<close>, as it is in the code; nothing is assumed of it.
    \<^item> \<open>Object.freeze\<close> has no effect on values that are never updated and is left out.
    \<^item> The body of a response is the list of what its reads return; \<open>TextDecoder\<close> is computed byte by byte.
    \<^item> Asynchronous code is a machine whose steps end where the code waits; callbacks, other calls and timers happen between two
      steps, in any order.  Durations are not modelled: a timer that is set may fire at any time.
    \<^item> A table of the store is a map, and a call of the store is one transaction.  That the digest of a compiled
      version identifies it is the hypothesis \<open>catalog_ok\<close>: a catalog from digests to compiled versions.  The
      clock, new identifiers and the digest function are inputs of each step.  \<open>composed\<close> tells which Runs another store owns.
    \<^item> Values are compared by equality; where the code returns the same object to say that nothing has
      changed, the model returns an equal one.

  \<^bold>\<open>Not modelled.\<close>  The prompt texts of \<open>thread-goal.ts\<close>; in the domain package the reports on
  model usage and cost, and the records of the project studio, of plugins and of extensions, which are checks of single
  fields; of the packages around it the connections and sessions of the provider transports, which are input and output, the PostgreSQL
  store, whose locking is the database's, the governed context, and the other services and stores; and the agent kernel, the tool broker,
  the wire contracts and the user interfaces, which speak to processes, networks and people.
\<close>

end
